(* ===== verification/Prelude.thy ===== *)
theory Prelude
  imports Main "HOL-Library.Word" "HOL-Library.Sublist"
begin

text \<open>
  Vocabulary shared by every component: the faults a C program can run into, the sequencing
  of computations that may fault, 32 bit unsigned values, and the C library's string
  functions on null terminated byte strings.

  A C string is a list of characters without its terminating null byte; a fixed size array
  that holds one is a longer list whose prefix up to the first null byte is the string
  (\<open>cstr\<close>). The target is 32 bit Windows: \<open>int\<close>, \<open>long\<close> and pointers are 32 bits wide.
\<close>

section \<open>Faults and sequencing\<close>

text \<open>
  \<open>Exit0\<close> is a call of \<open>exit(0)\<close>; the other constructors are behaviour the C standard leaves
  undefined: an access outside an object (with the object's name) and a null pointer that is
  dereferenced or used in pointer arithmetic (with the variable's name).
\<close>

datatype fault = Exit0 | Out_of_bounds string | Null_pointer string

type_synonym 'a res = "fault + 'a"

definition and_then :: "'a res \<Rightarrow> ('a \<Rightarrow> 'b res) \<Rightarrow> 'b res" where
  "and_then m f = (case m of Inl e \<Rightarrow> Inl e | Inr x \<Rightarrow> f x)"

named_theorems res_simps "evaluation of computations that may fault"

lemma and_then_Inr [simp, res_simps]: "and_then (Inr x) f = f x"
  by (simp add: and_then_def)

lemma and_then_Inl [simp, res_simps]: "and_then (Inl e) f = Inl e"
  by (simp add: and_then_def)

lemma and_then_eq_Inr_iff: "and_then m f = Inr y \<longleftrightarrow> (\<exists>x. m = Inr x \<and> f x = Inr y)"
  by (cases m) (auto simp: and_then_def)

lemma and_then_eq_InrE:
  assumes "and_then m f = Inr y"
  obtains x where "m = Inr x" and "f x = Inr y"
  using assms by (auto simp: and_then_eq_Inr_iff)

lemma if_eq_InrE:
  assumes "(if P then m else n) = Inr y"
  obtains (yes) "P" and "m = Inr y" | (no) "\<not> P" and "n = Inr y"
  using assms by (auto split: if_splits)

lemma and_then_assoc: "and_then (and_then m f) g = and_then m (\<lambda>x. and_then (f x) g)"
  by (cases m) auto

lemma and_then_cong [fundef_cong]:
  "m = m' \<Longrightarrow> (\<And>x. m' = Inr x \<Longrightarrow> f x = f' x) \<Longrightarrow> and_then m f = and_then m' f'"
  by (cases m) auto

text \<open>A pointer variable that must not be null where it is used.\<close>

definition nonnull :: "string \<Rightarrow> 'a option \<Rightarrow> 'a res" where
  "nonnull what p = (case p of None \<Rightarrow> Inl (Null_pointer what) | Some x \<Rightarrow> Inr x)"

lemma nonnull_simps [simp, res_simps]:
  "nonnull what (Some x) = Inr x"
  "nonnull what None = Inl (Null_pointer what)"
  by (simp_all add: nonnull_def)

lemma nonnull_eq_Inr [simp]: "nonnull what p = Inr x \<longleftrightarrow> p = Some x"
  by (cases p) auto

text \<open>Running a fallible step over a list stops at the first fault.\<close>

fun fold_res :: "('a \<Rightarrow> 's \<Rightarrow> 's res) \<Rightarrow> 'a list \<Rightarrow> 's \<Rightarrow> 's res" where
  "fold_res f [] s = Inr s"
| "fold_res f (x # xs) s = and_then (f x s) (fold_res f xs)"

lemma fold_res_append:
  "fold_res f (xs @ ys) s = and_then (fold_res f xs s) (fold_res f ys)"
proof (induction xs arbitrary: s)
  case Nil
  then show ?case by simp
next
  case (Cons x xs)
  then show ?case by (cases "f x s") auto
qed

lemma fold_res_invariant:
  assumes "fold_res f xs s = Inr t" and "P s"
    and "\<And>x s t. x \<in> set xs \<Longrightarrow> P s \<Longrightarrow> f x s = Inr t \<Longrightarrow> P t"
  shows "P t"
  using assms
proof (induction xs arbitrary: s)
  case Nil
  then show ?case by simp
next
  case (Cons x xs)
  from Cons.prems(1) obtain u where u: "f x s = Inr u" and r: "fold_res f xs u = Inr t"
    by (auto elim: and_then_eq_InrE)
  have "P u" using Cons.prems(2,3) u by auto
  then show ?case using Cons.IH [OF r] Cons.prems(3) by auto
qed

fun map_res :: "('a \<Rightarrow> 'b res) \<Rightarrow> 'a list \<Rightarrow> 'b list res" where
  "map_res f [] = Inr []"
| "map_res f (x # xs) = and_then (f x) (\<lambda>y. and_then (map_res f xs) (\<lambda>ys. Inr (y # ys)))"

lemma map_res_Inr: "(\<And>x. x \<in> set xs \<Longrightarrow> f x = Inr (g x)) \<Longrightarrow> map_res f xs = Inr (map g xs)"
  by (induction xs) auto

lemma map_res_length: "map_res f xs = Inr ys \<Longrightarrow> length ys = length xs"
  by (induction xs arbitrary: ys) (auto elim!: and_then_eq_InrE)

section \<open>Machine integers\<close>

type_synonym u32 = "32 word"

definition long_max :: int where "long_max = 2147483647"
definition long_min :: int where "long_min = - 2147483648"

lemma unat_plus1_u32:
  assumes "int (unat (w::u32)) \<le> long_max"
  shows "unat (w + 1) = unat w + 1"
proof -
  have "unat w \<le> 2147483647" using assms unfolding long_max_def by linarith
  then show ?thesis by (simp add: unat_word_ariths)
qed

text \<open>Little endian bytes of a 32 bit value, as \<open>fwrite\<close> of an \<open>unsigned long\<close> lays them out.\<close>

definition le32 :: "u32 \<Rightarrow> char list" where
  "le32 w = (let n = unat w in
     [char_of (n mod 256), char_of (n div 256 mod 256),
      char_of (n div 65536 mod 256), char_of (n div 16777216 mod 256)])"

definition un_le32 :: "char list \<Rightarrow> u32" where
  "un_le32 bs = of_nat (of_char (bs ! 0) + 256 * of_char (bs ! 1)
                 + 65536 * of_char (bs ! 2) + 16777216 * of_char (bs ! 3))"

lemma length_le32 [simp]: "length (le32 w) = 4"
  by (simp add: le32_def Let_def)

lemma base256_digits:
  assumes "(n::nat) < 4294967296"
  shows "n mod 256 + 256 * (n div 256 mod 256) + 65536 * (n div 65536 mod 256)
         + 16777216 * (n div 16777216 mod 256) = n"
proof -
  have a: "n div 65536 = n div 256 div 256" and b: "n div 16777216 = n div 256 div 256 div 256"
    by (simp_all add: div_mult2_eq [symmetric])
  have "n div 256 div 256 div 256 < 256"
    using assms by (simp add: div_mult2_eq [symmetric] less_mult_imp_div_less)
  then have "n div 256 div 256 div 256 mod 256 = n div 256 div 256 div 256" by simp
  then show ?thesis
    unfolding a b
    using mult_div_mod_eq [of 256 n] mult_div_mod_eq [of 256 "n div 256"]
      mult_div_mod_eq [of 256 "n div 256 div 256"]
    by linarith
qed

lemma un_le32_le32 [simp]: "un_le32 (le32 w @ rest) = w"
proof -
  have "unat w < 4294967296" using unsigned_less [of w] by simp
  then show ?thesis
    using base256_digits [of "unat w"] by (simp add: un_le32_def le32_def Let_def)
qed

lemma un_le32_le32' [simp]: "un_le32 (le32 w) = w"
  using un_le32_le32 [of w "[]"] by simp

section \<open>C strings\<close>

abbreviation NUL :: char where "NUL \<equiv> CHR 0x00"
abbreviation NL :: char where "NL \<equiv> CHR 0x0A"

definition cstr :: "char list \<Rightarrow> string" where
  "cstr arr = takeWhile (\<lambda>c. c \<noteq> NUL) arr"

text \<open>\<open>strcpy\<close> into an array: the string, its terminator, and what the array held behind them.\<close>

definition strcpy_arr :: "string \<Rightarrow> char list \<Rightarrow> string \<Rightarrow> char list res" where
  "strcpy_arr what arr s =
     (if length s < length arr then Inr (s @ NUL # drop (Suc (length s)) arr)
      else Inl (Out_of_bounds what))"

text \<open>\<open>strcpy\<close>, \<open>strncpy\<close> or \<open>sprintf\<close> into a buffer of which only the string matters.\<close>

definition into_buffer :: "string \<Rightarrow> nat \<Rightarrow> string \<Rightarrow> string res" where
  "into_buffer what n s = (if length s < n then Inr s else Inl (Out_of_bounds what))"

lemma into_buffer_eq_Inr [simp]:
  "into_buffer what n s = Inr t \<longleftrightarrow> t = s \<and> length s < n"
  by (auto simp: into_buffer_def)

lemma into_buffer_fits [simp]: "length s < n \<Longrightarrow> into_buffer what n s = Inr s"
  by (simp add: into_buffer_def)

lemma cstr_nul_free: "NUL \<notin> set s \<Longrightarrow> cstr s = s"
  unfolding cstr_def by (rule takeWhile_eq_all_conv [THEN iffD2]) auto

lemma cstr_append_NUL [simp]: "NUL \<notin> set s \<Longrightarrow> cstr (s @ NUL # rest) = s"
  unfolding cstr_def by (subst takeWhile_append2) auto

lemma NUL_notin_cstr [simp]: "NUL \<notin> set (cstr arr)"
  unfolding cstr_def using set_takeWhileD by fastforce

lemma length_cstr: "length (cstr arr) \<le> length arr"
  by (simp add: cstr_def length_takeWhile_le)

lemma strcpy_arr_cstr:
  "NUL \<notin> set s \<Longrightarrow> strcpy_arr what arr s = Inr arr' \<Longrightarrow> cstr arr' = s"
  by (auto simp: strcpy_arr_def split: if_splits)

lemma strcpy_arr_length: "strcpy_arr what arr s = Inr arr' \<Longrightarrow> length arr' = length arr"
  by (auto simp: strcpy_arr_def split: if_splits)

text \<open>\<open>strchr\<close>, \<open>strrchr\<close> and \<open>strstr\<close> return the offset of the occurrence.\<close>

definition strchr :: "string \<Rightarrow> char \<Rightarrow> nat option" where
  "strchr s c = (if c \<in> set s then Some (length (takeWhile (\<lambda>x. x \<noteq> c) s)) else None)"

definition strrchr :: "string \<Rightarrow> char \<Rightarrow> nat option" where
  "strrchr s c = (if c \<in> set s
     then Some (length s - 1 - length (takeWhile (\<lambda>x. x \<noteq> c) (rev s))) else None)"

fun strstr :: "string \<Rightarrow> string \<Rightarrow> nat option" where
  "strstr [] p = (if p = [] then Some 0 else None)"
| "strstr (c # s) p = (if prefix p (c # s) then Some 0 else map_option Suc (strstr s p))"

text \<open>\<open>strncmp(s, t, n) == 0\<close> for strings without null bytes.\<close>

definition strneq :: "string \<Rightarrow> string \<Rightarrow> nat \<Rightarrow> bool" where
  "strneq s t n \<longleftrightarrow> take n s = take n t"

lemma strchr_append [simp]: "c \<notin> set s \<Longrightarrow> strchr (s @ c # rest) c = Some (length s)"
  unfolding strchr_def by (subst takeWhile_append2) auto

lemma strchr_None_iff [simp]: "strchr s c = None \<longleftrightarrow> c \<notin> set s"
  by (simp add: strchr_def)

lemma strchr_SomeD:
  assumes "strchr s c = Some i"
  shows "i < length s" and "s ! i = c" and "c \<notin> set (take i s)"
proof -
  from assms have c: "c \<in> set s" and i: "i = length (takeWhile (\<lambda>x. x \<noteq> c) s)"
    by (auto simp: strchr_def split: if_splits)
  show lt: "i < length s"
    using c i by (metis (mono_tags, lifting) id_apply length_takeWhile_le nat_less_le takeWhile_eq_all_conv
        takeWhile_eq_take take_all)
  show "s ! i = c" using nth_length_takeWhile [of "\<lambda>x. x \<noteq> c" s] lt i by auto
  have "take i s = takeWhile (\<lambda>x. x \<noteq> c) s" using i by (metis takeWhile_eq_take)
  then show "c \<notin> set (take i s)" using set_takeWhileD by fastforce
qed

lemma strchr_split:
  "strchr s c = Some i \<Longrightarrow> s = take i s @ c # drop (Suc i) s"
  using strchr_SomeD(1,2) [of s c i] id_take_nth_drop by blast

lemma strrchr_append: "c \<notin> set t \<Longrightarrow> strrchr (s @ c # t) c = Some (length s)"
proof -
  assume a: "c \<notin> set t"
  have "takeWhile (\<lambda>x. x \<noteq> c) (rev (s @ c # t)) = rev t"
    using a by (simp, subst takeWhile_append2) auto
  then show ?thesis by (simp add: strrchr_def)
qed

lemma strstr_SomeD: "strstr s p = Some i \<Longrightarrow> prefix p (drop i s)"
  by (induction s arbitrary: i) (auto split: if_splits)

lemma strstr_append:
  "strstr s p = Some i \<Longrightarrow> strstr (s @ t) p = Some i"
proof (induction s arbitrary: i)
  case Nil
  then show ?case by (cases t) (auto split: if_splits)
next
  case (Cons c s)
  show ?case
  proof (cases "prefix p (c # s)")
    case True
    then have "prefix p (c # s @ t)" using prefix_prefix [of p "c # s" t] by simp
    then show ?thesis using Cons.prems True by simp
  next
    case False
    then obtain j where j: "strstr s p = Some j" "i = Suc j" using Cons.prems by auto
    have "\<not> prefix p (c # s @ t)"
    proof
      assume a: "prefix p (c # s @ t)"
      have "prefix p (drop j s)" using strstr_SomeD [OF j(1)] .
      then have "length p \<le> length (c # s)" by (auto dest!: prefix_length_le)
      then have "prefix p (c # s)" using a by (metis append_Cons prefix_length_prefix prefixI)
      then show False using False by simp
    qed
    then show ?thesis using Cons.IH [OF j(1)] j(2) by simp
  qed
qed

section \<open>Decimal numbers in strings\<close>

definition digit_char :: "nat \<Rightarrow> char" where
  "digit_char d = char_of (48 + d)"

definition is_digit :: "char \<Rightarrow> bool" where
  "is_digit c \<longleftrightarrow> 48 \<le> (of_char c :: nat) \<and> (of_char c :: nat) \<le> 57"

definition digit_val :: "char \<Rightarrow> nat" where
  "digit_val c = of_char c - 48"

text \<open>The decimal digits of a number: \<open>printf\<close>'s \<open>%lu\<close> and \<open>%lld\<close> of a value that is not negative.\<close>

fun show_dec :: "nat \<Rightarrow> string" where
  "show_dec n = (if n < 10 then [digit_char n] else show_dec (n div 10) @ [digit_char (n mod 10)])"

declare show_dec.simps [simp del]

text \<open>\<open>%010lu\<close>: padded with zeros on the left to ten characters.\<close>

definition show_dec_pad :: "nat \<Rightarrow> nat \<Rightarrow> string" where
  "show_dec_pad width n = replicate (width - length (show_dec n)) (CHR ''0'') @ show_dec n"

fun dec_val :: "nat \<Rightarrow> string \<Rightarrow> nat" where
  "dec_val acc [] = acc"
| "dec_val acc (c # cs) = (if is_digit c then dec_val (acc * 10 + digit_val c) cs else acc)"

definition is_space :: "char \<Rightarrow> bool" where
  "is_space c \<longleftrightarrow> c = CHR '' '' \<or> (9 \<le> (of_char c :: nat) \<and> (of_char c :: nat) \<le> 13)"

text \<open>
  \<open>atol\<close> and \<open>atoi\<close>: leading white space, an optional sign, digits; the value saturates at the
  bounds of a 32 bit \<open>long\<close>, as the Microsoft C library documents.
\<close>

definition atol :: "string \<Rightarrow> int" where
  "atol s = (case dropWhile is_space s of
       [] \<Rightarrow> 0
     | c # cs \<Rightarrow>
         (let v = (if c = CHR ''-'' then - int (dec_val 0 cs)
                   else if c = CHR ''+'' then int (dec_val 0 cs)
                   else int (dec_val 0 (c # cs)))
          in max long_min (min long_max v)))"

text \<open>\<open>strtoul\<close> in base 10: saturates at \<open>ULONG_MAX\<close>; a minus sign negates modulo \<open>2^32\<close>.\<close>

definition strtoul :: "string \<Rightarrow> u32" where
  "strtoul s = (case dropWhile is_space s of
       [] \<Rightarrow> 0
     | c # cs \<Rightarrow>
         (let sat = (\<lambda>n. of_nat (min n 4294967295))
          in if c = CHR ''-'' then (if dec_val 0 cs \<le> 4294967295 then - sat (dec_val 0 cs) else sat (dec_val 0 cs))
             else if c = CHR ''+'' then sat (dec_val 0 cs)
             else sat (dec_val 0 (c # cs))))"

lemma of_char_digit_char: "d < 10 \<Longrightarrow> (of_char (digit_char d) :: nat) = 48 + d"
  by (simp add: digit_char_def)

lemma is_digit_digit_char [simp]: "d < 10 \<Longrightarrow> is_digit (digit_char d)"
  by (simp add: is_digit_def of_char_digit_char)

lemma digit_val_digit_char [simp]: "d < 10 \<Longrightarrow> digit_val (digit_char d) = d"
  by (simp add: digit_val_def of_char_digit_char)

lemma show_dec_digits: "c \<in> set (show_dec n) \<Longrightarrow> is_digit c"
proof (induction n rule: show_dec.induct)
  case (1 n)
  then show ?case by (subst (asm) (2) show_dec.simps) (auto split: if_splits)
qed

lemma show_dec_nonempty [simp]: "show_dec n \<noteq> []"
  by (subst show_dec.simps) simp

lemma dec_val_append:
  "(\<forall>c \<in> set s. is_digit c) \<Longrightarrow> dec_val acc (s @ t) = dec_val (dec_val acc s) t"
  by (induction s arbitrary: acc) auto

lemma dec_val_show_dec: "dec_val 0 (show_dec n) = n"
proof (induction n rule: show_dec.induct)
  case (1 n)
  show ?case
  proof (cases "n < 10")
    case True
    then show ?thesis by (subst show_dec.simps) simp
  next
    case False
    then have "dec_val 0 (show_dec n) = dec_val (dec_val 0 (show_dec (n div 10))) [digit_char (n mod 10)]"
      by (subst show_dec.simps) (simp add: dec_val_append show_dec_digits)
    also have "\<dots> = (n div 10) * 10 + n mod 10" using "1" False by simp
    also have "\<dots> = n" by simp
    finally show ?thesis .
  qed
qed

lemma dec_val_stop:
  "(\<forall>c \<in> set s. is_digit c) \<Longrightarrow> t = [] \<or> \<not> is_digit (hd t) \<Longrightarrow> dec_val acc (s @ t) = dec_val acc s"
  by (cases t) (auto simp: dec_val_append)

lemma is_digit_not_space: "is_digit c \<Longrightarrow> \<not> is_space c"
  by (auto simp: is_digit_def is_space_def)

lemma is_digit_not_sign: "is_digit c \<Longrightarrow> c \<noteq> CHR ''-'' \<and> c \<noteq> CHR ''+''"
  by (auto simp: is_digit_def)

lemma atol_digits:
  assumes "s \<noteq> []" and "\<forall>c \<in> set s. is_digit c"
  shows "atol s = min long_max (int (dec_val 0 s))"
proof -
  obtain c cs where s: "s = c # cs" using assms(1) by (cases s) auto
  then have "is_digit c" using assms(2) by simp
  then have "\<not> is_space c" "c \<noteq> CHR ''-''" "c \<noteq> CHR ''+''"
    using is_digit_not_space is_digit_not_sign by auto
  then show ?thesis
    by (simp add: atol_def s Let_def long_min_def long_max_def del: dec_val.simps)
qed

lemma atol_show_dec: "atol (show_dec n) = min long_max (int n)"
  using atol_digits [OF show_dec_nonempty] show_dec_digits dec_val_show_dec by simp

lemma dec_val_replicate_zero [simp]: "dec_val 0 (replicate k (CHR ''0'') @ s) = dec_val 0 s"
  by (induction k) (simp_all add: is_digit_def digit_val_def)

lemma is_digit_zero [simp]: "is_digit (CHR ''0'')"
  by (simp add: is_digit_def)

lemma show_dec_pad_digits: "c \<in> set (show_dec_pad w n) \<Longrightarrow> is_digit c"
  unfolding show_dec_pad_def
  using show_dec_digits [of c n] by auto

lemma show_dec_pad_nonempty [simp]: "show_dec_pad w n \<noteq> []"
  by (simp add: show_dec_pad_def)

lemma dec_val_show_dec_pad: "dec_val 0 (show_dec_pad w n) = n"
  by (simp add: show_dec_pad_def dec_val_show_dec)

lemma atol_show_dec_pad: "atol (show_dec_pad w n) = min long_max (int n)"
  using atol_digits [OF show_dec_pad_nonempty] show_dec_pad_digits dec_val_show_dec_pad by simp

lemma show_dec_inj: "show_dec m = show_dec n \<Longrightarrow> m = n"
  by (metis dec_val_show_dec)

lemma show_dec_pad_inj: "show_dec_pad w m = show_dec_pad w n \<Longrightarrow> m = n"
  by (metis dec_val_show_dec_pad)

lemma length_show_dec: "0 < k \<Longrightarrow> n < 10 ^ k \<Longrightarrow> length (show_dec n) \<le> k"
proof (induction k arbitrary: n)
  case 0
  then show ?case by simp
next
  case (Suc k)
  show ?case
  proof (cases "n < 10")
    case True
    then show ?thesis by (subst show_dec.simps) simp
  next
    case False
    then have "0 < k" using Suc.prems by (cases k) auto
    moreover have "n div 10 < 10 ^ k" using Suc.prems by auto
    ultimately have "length (show_dec (n div 10)) \<le> k" by (rule Suc.IH)
    then show ?thesis using False by (subst show_dec.simps) simp
  qed
qed

lemma length_show_dec_u32: "length (show_dec (unat (w::u32))) \<le> 10"
proof (rule length_show_dec)
  have "unat w < 2 ^ 32" using unsigned_less [of w] by simp
  then show "unat w < 10 ^ 10" by simp
qed simp

lemma length_show_dec_pad: "length (show_dec n) \<le> w \<Longrightarrow> length (show_dec_pad w n) = w"
  by (simp add: show_dec_pad_def)

lemma char_not_digit:
  "\<not> is_digit (CHR ''!'')" "\<not> is_digit NUL" "\<not> is_digit NL" "\<not> is_digit (CHR ''.'')" "\<not> is_digit (CHR ''='')"
  by (simp_all add: is_digit_def)

lemma show_dec_not_mem [simp]:
  "CHR ''!'' \<notin> set (show_dec n)" "NUL \<notin> set (show_dec n)" "NL \<notin> set (show_dec n)"
  "CHR ''.'' \<notin> set (show_dec n)" "CHR ''='' \<notin> set (show_dec n)"
  using show_dec_digits char_not_digit by blast+

section \<open>Texts of lines\<close>

definition lines_nl :: "string list \<Rightarrow> string" where
  "lines_nl ls = concat (map (\<lambda>l. l @ [NL]) ls)"

lemma lines_nl_simps [simp]: "lines_nl [] = []" "lines_nl (l # ls) = l @ NL # lines_nl ls"
  by (simp_all add: lines_nl_def)

lemma lines_nl_append [simp]: "lines_nl (ks @ ls) = lines_nl ks @ lines_nl ls"
  by (simp add: lines_nl_def)

end
