(* ===== verification/Marks.thy ===== *)
theory Marks
  imports Prelude
begin

text \<open>
  The text protocol between the threads of the program: the marks that the patched
  \<open>mysqlbinlog\<close> library prints around the events of a binary log (\<open>process_event\<close> and
  \<open>StartReadBinLog\<close> of \<open>ddmysqlbinlog.cc\<close>) and the two that \<open>ReadJournal\<close> of
  \<open>ddMySqlBinLogCapture.cpp\<close> prints around a pass over the logs. Each is a line; the new line
  character is left to the callers. Positions are \<open>my_off_t\<close>, 64 bits, printed with \<open>%lld\<close>.
\<close>

text \<open>What the functions of the library return.\<close>

datatype Exit_status = OK_CONTINUE | ERROR_STOP | OK_STOP | OK_EOF

type_synonym u64 = "64 word"

definition show_int :: "int \<Rightarrow> string" where
  "show_int i = (if i < 0 then CHR ''-'' # show_dec (nat (- i)) else show_dec (nat i))"

definition show_lld :: "u64 \<Rightarrow> string" where
  "show_lld w = show_int (sint w)"

definition show_lu :: "u32 \<Rightarrow> string" where
  "show_lu w = show_dec (unat w)"

definition begin_mark :: "u64 \<Rightarrow> u64 \<Rightarrow> u64 \<Rightarrow> string" where
  "begin_mark pos log_pos seq_no =
     ''*!BEGIN!'' @ show_lld pos @ ''!'' @ show_lld log_pos @ ''!'' @ show_lld seq_no @ ''!*''"

definition stmt_mark :: "u64 \<Rightarrow> u64 \<Rightarrow> u32 \<Rightarrow> string" where
  "stmt_mark pos log_pos idx =
     ''*!STMT!'' @ show_lld pos @ ''!'' @ show_lld log_pos @ ''!'' @ show_lu idx @ ''!*''"

text \<open>\<open>longlong10_to_str\<close> with radix 10 prints the transaction number without a sign.\<close>

definition commit_mark :: "u64 \<Rightarrow> u64 \<Rightarrow> u64 \<Rightarrow> u32 \<Rightarrow> string" where
  "commit_mark pos log_pos xid idx =
     ''*!COMMIT!'' @ show_lld pos @ ''!'' @ show_lld log_pos @ ''!'' @ show_dec (unat xid) @ ''!''
     @ show_lu idx @ ''!*''"

definition query_mark :: "u64 \<Rightarrow> u64 \<Rightarrow> string \<Rightarrow> u32 \<Rightarrow> string" where
  "query_mark pos log_pos query idx =
     ''*!QUERY!'' @ show_lld pos @ ''!'' @ show_lld log_pos @ ''!'' @ query @ ''!'' @ show_lu idx @ ''!''"

definition start_binlog_mark :: "string \<Rightarrow> u32 \<Rightarrow> string" where
  "start_binlog_mark name idx = ''*!START_BINLOG!'' @ name @ ''!'' @ show_lu idx @ ''!*''"

definition end_binlog_mark :: "string \<Rightarrow> u32 \<Rightarrow> string" where
  "end_binlog_mark name idx = ''*!END_BINLOG!'' @ name @ ''!'' @ show_lu idx @ ''!*''"

definition first_binlog_mark :: "string \<Rightarrow> u32 \<Rightarrow> string \<Rightarrow> string" where
  "first_binlog_mark name idx date =
     ''*!FIRST_BINLOG!'' @ name @ ''!'' @ show_lu idx @ ''!'' @ date @ ''!*''"

definition last_binlog_mark :: "string \<Rightarrow> u32 \<Rightarrow> string \<Rightarrow> string" where
  "last_binlog_mark name idx date =
     ''*!LAST_BINLOG!'' @ name @ ''!'' @ show_lu idx @ ''!'' @ date @ ''!*''"

lemmas mark_defs = begin_mark_def stmt_mark_def commit_mark_def query_mark_def
  start_binlog_mark_def end_binlog_mark_def first_binlog_mark_def last_binlog_mark_def

section \<open>Numbers that the listener reads back\<close>

text \<open>A position that \<open>ddatol\<close> reads back: it fits a 32 bit \<open>long\<close>.\<close>

definition small_pos :: "u64 \<Rightarrow> bool" where
  "small_pos w \<longleftrightarrow> int (unat w) \<le> long_max"

lemma sint_u64_small:
  assumes "unat (w::u64) < 2 ^ 63"
  shows "sint w = int (unat w)"
proof -
  have "int (unat w) < 2 ^ 63" using assms by (metis of_nat_less_iff of_nat_numeral of_nat_power)
  then have u: "uint w < 2 ^ 63" by (simp only: uint_nat)
  have "sint w = signed_take_bit 63 (uint w)" by (simp add: sint_uint)
  also have "\<dots> = uint w"
    by (rule signed_take_bit_int_eq_self [OF _ u]) (rule order_trans [of _ 0], simp_all only: uint_ge_0, simp)
  finally show ?thesis by (simp only: uint_nat)
qed

lemma show_int_of_nat [simp]: "show_int (int n) = show_dec n"
  by (simp add: show_int_def)

lemma show_lld_small: "unat (w::u64) < 2 ^ 63 \<Longrightarrow> show_lld w = show_dec (unat w)"
  by (simp only: show_lld_def sint_u64_small show_int_of_nat)

lemma length_show_dec_u64: "length (show_dec (unat (w::u64))) \<le> 20"
proof (rule length_show_dec)
  have "unat w < 2 ^ 64" using unsigned_less [of w] by simp
  then show "unat w < 10 ^ 20" by simp
qed simp

end
