(* ===== verification/Load_Processor.thy ===== *)
theory Load_Processor
  imports Marks
begin

text \<open>
  \<open>Load_log_processor\<close> of \<open>ddmysqlbinlog.cc\<close>: the temporary files for the data of
  \<open>LOAD DATA\<close> statements. The first event of a statement creates a file whose name is registered
  under the statement's \<open>file_id\<close>, the following ones append blocks to it, and the event that
  executes the statement takes the name (or the saved event) out of the table.

  The file system is a map from names to contents. What the operating system allows is the
  parameter \<open>lenv\<close>; memory never runs out.
\<close>

section \<open>State\<close>

type_synonym lfs = "string \<Rightarrow> char list option"

record create_file =
  ce_db :: "string option"
  ce_fname :: string
  ce_block :: "char list"
  ce_file_id :: u32

record File_name_record =
  fr_fname :: "string option"
  fr_event :: "create_file option"

definition no_record :: File_name_record where
  "no_record = \<lparr>fr_fname = None, fr_event = None\<rparr>"

record lenv =
  creatable :: "string \<Rightarrow> bool"
  openable :: "string \<Rightarrow> bool"
  written :: "string \<Rightarrow> char list \<Rightarrow> nat"
  closable :: "string \<Rightarrow> bool"
  dirname_length :: "string \<Rightarrow> nat"

record llp =
  target_dir_name :: string
  file_names :: "File_name_record list"
  lfiles :: lfs

section \<open>Names\<close>

definition hex_char :: "nat \<Rightarrow> char" where
  "hex_char d = (if d < 10 then char_of (48 + d) else char_of (87 + d))"

fun show_hex :: "nat \<Rightarrow> string" where
  "show_hex n = (if n < 16 then [hex_char n] else show_hex (n div 16) @ [hex_char (n mod 16)])"

declare show_hex.simps [simp del]

text \<open>The loop of \<open>create_unique_file\<close> from \<open>version\<close> on, with \<open>k\<close> versions left.\<close>

fun create_from :: "lenv \<Rightarrow> string \<Rightarrow> lfs \<Rightarrow> nat \<Rightarrow> nat \<Rightarrow> string option" where
  "create_from env base fs version 0 = None"
| "create_from env base fs version (Suc k) =
     (let f = base @ CHR ''-'' # show_hex version
      in if fs f = None \<and> creatable env f then Some f else create_from env base fs (Suc version) k)"

definition create_unique_file :: "lenv \<Rightarrow> string \<Rightarrow> lfs \<Rightarrow> (string \<times> lfs) option" where
  "create_unique_file env base fs =
     (case create_from env base fs 0 1000 of None \<Rightarrow> None | Some f \<Rightarrow> Some (f, fs(f \<mapsto> [])))"

definition convert_path_to_forward_slashes :: "string \<Rightarrow> string" where
  "convert_path_to_forward_slashes fname = map (\<lambda>c. if c = CHR 0x5C then CHR ''/'' else c) fname"

section \<open>Files and the table of names\<close>

text \<open>\<open>set_dynamic\<close> fills a gap with zeroed records.\<close>

definition set_dynamic :: "File_name_record \<Rightarrow> nat \<Rightarrow> File_name_record list \<Rightarrow> File_name_record list" where
  "set_dynamic r i xs =
     (if i < length xs then xs[i := r] else xs @ replicate (i - length xs) no_record @ [r])"

text \<open>\<open>my_write\<close> with \<open>MY_NABP\<close> succeeds when all the bytes were written.\<close>

definition my_write :: "lenv \<Rightarrow> string \<Rightarrow> char list \<Rightarrow> lfs \<Rightarrow> bool \<times> lfs" where
  "my_write env f block fs =
     (let n = written env f block
      in (length block \<le> n,
          fs(f \<mapsto> (case fs f of None \<Rightarrow> [] | Some old \<Rightarrow> old) @ take n block)))"

definition write_and_close :: "lenv \<Rightarrow> string \<Rightarrow> char list \<Rightarrow> llp \<Rightarrow> Exit_status \<times> llp" where
  "write_and_close env f block lp =
     (let (ok, fs) = my_write env f block (lfiles lp)
      in (if ok \<and> closable env f then OK_CONTINUE else ERROR_STOP, lp\<lparr>lfiles := fs\<rparr>))"

definition process_first_event :: "lenv \<Rightarrow> string \<Rightarrow> char list \<Rightarrow> u32 \<Rightarrow> create_file option \<Rightarrow> llp
    \<Rightarrow> Exit_status \<times> llp" where
  "process_first_event env bname block file_id ce lp =
     (case create_unique_file env (target_dir_name lp @ bname @ CHR ''-'' # show_hex (unat file_id)) (lfiles lp) of
        None \<Rightarrow> (ERROR_STOP, lp)
      | Some (fname, fs) \<Rightarrow>
          write_and_close env fname block
            (lp\<lparr>lfiles := fs,
                file_names := set_dynamic \<lparr>fr_fname = Some fname,
                                fr_event = map_option (\<lambda>e. e\<lparr>ce_fname := fname\<rparr>) ce\<rparr>
                                (unat file_id) (file_names lp)\<rparr>))"

definition process_Create_file :: "lenv \<Rightarrow> create_file \<Rightarrow> llp \<Rightarrow> Exit_status \<times> llp" where
  "process_Create_file env ce lp =
     process_first_event env (drop (dirname_length env (ce_fname ce)) (ce_fname ce)) (ce_block ce) (ce_file_id ce)
       (Some ce) lp"

definition process_Begin_load_query :: "lenv \<Rightarrow> char list \<Rightarrow> u32 \<Rightarrow> llp \<Rightarrow> Exit_status \<times> llp" where
  "process_Begin_load_query env block file_id lp =
     process_first_event env ''SQL_LOAD_MB'' block file_id None lp"

text \<open>The name registered for a statement.\<close>

definition fname_at :: "llp \<Rightarrow> u32 \<Rightarrow> string option" where
  "fname_at lp file_id =
     (if unat file_id < length (file_names lp) then fr_fname (file_names lp ! unat file_id) else None)"

definition process_Append_block :: "lenv \<Rightarrow> char list \<Rightarrow> u32 \<Rightarrow> llp \<Rightarrow> Exit_status \<times> llp" where
  "process_Append_block env block file_id lp =
     (case fname_at lp file_id of
        None \<Rightarrow> (OK_CONTINUE, lp)
      | Some f \<Rightarrow> if \<not> openable env f \<or> lfiles lp f = None then (ERROR_STOP, lp)
                  else write_and_close env f block lp)"

definition grab_event :: "u32 \<Rightarrow> llp \<Rightarrow> create_file option \<times> llp" where
  "grab_event file_id lp =
     (if length (file_names lp) \<le> unat file_id then (None, lp)
      else case fr_event (file_names lp ! unat file_id) of
             None \<Rightarrow> (None, lp)
           | Some e \<Rightarrow> (Some e, lp\<lparr>file_names := (file_names lp)[unat file_id := no_record]\<rparr>))"

definition grab_fname :: "u32 \<Rightarrow> llp \<Rightarrow> string option \<times> llp" where
  "grab_fname file_id lp =
     (if length (file_names lp) \<le> unat file_id then (None, lp)
      else let r = file_names lp ! unat file_id in
        case fr_event r of
          None \<Rightarrow> (fr_fname r, lp\<lparr>file_names := (file_names lp)[unat file_id := no_record]\<rparr>)
        | Some e \<Rightarrow> (None, lp))"

definition destroy :: "llp \<Rightarrow> llp" where
  "destroy lp = lp\<lparr>file_names := []\<rparr>"

definition init_by_dir_name :: "string \<Rightarrow> llp \<Rightarrow> llp" where
  "init_by_dir_name dir lp = lp\<lparr>target_dir_name := dir\<rparr>"

section \<open>The old format\<close>

text \<open>A packet of the server; \<open>load_packets\<close> returns the packets that were not read.\<close>

datatype packet = Packet "char list" | Packet_error

fun load_packets :: "lenv \<Rightarrow> bool \<Rightarrow> string \<Rightarrow> packet list \<Rightarrow> lfs \<Rightarrow> Exit_status \<times> lfs" where
  "load_packets env acked f [] fs = (ERROR_STOP, fs)"
| "load_packets env acked f (Packet_error # ps) fs = (ERROR_STOP, fs)"
| "load_packets env acked f (Packet bs # ps) fs =
     (if bs = [] then (if acked then OK_CONTINUE else ERROR_STOP, fs)
      else let (ok, fs') = my_write env f bs fs
           in if ok then load_packets env acked f ps fs' else (ERROR_STOP, fs'))"

text \<open>The request holds a null byte, the name and its terminator, in a buffer of \<open>FN_REFLEN + 1\<close>
  bytes; \<open>asked\<close> tells whether it was sent.\<close>

definition FN_REFLEN :: nat where "FN_REFLEN = 512"

definition load_old_format_file :: "lenv \<Rightarrow> bool \<Rightarrow> bool \<Rightarrow> string \<Rightarrow> string \<Rightarrow> packet list \<Rightarrow> lfs
    \<Rightarrow> (Exit_status \<times> lfs) res" where
  "load_old_format_file env asked acked server_fname f ps fs =
     (if FN_REFLEN + 1 < length server_fname + 2 then Inl (Out_of_bounds ''buf'')
      else Inr (if asked then load_packets env acked f ps fs else (ERROR_STOP, fs)))"

section \<open>A store of blocks by statement\<close>

text \<open>What the event printer relies on: a first event starts the data of a statement, further
  events append to it, and neither touches another statement's data.\<close>

locale load_store =
  fixes good :: "'s \<Rightarrow> bool"
    and start :: "'n \<Rightarrow> 'i \<Rightarrow> 'b list \<Rightarrow> 's \<Rightarrow> Exit_status \<times> 's"
    and extend :: "'i \<Rightarrow> 'b list \<Rightarrow> 's \<Rightarrow> Exit_status \<times> 's"
    and content :: "'s \<Rightarrow> 'i \<Rightarrow> 'b list option"
  assumes start_good: "good s \<Longrightarrow> start n i b s = (OK_CONTINUE, s') \<Longrightarrow> good s'"
    and start_content: "good s \<Longrightarrow> start n i b s = (OK_CONTINUE, s') \<Longrightarrow> content s' = (content s)(i \<mapsto> b)"
    and extend_good: "good s \<Longrightarrow> extend i b s = (OK_CONTINUE, s') \<Longrightarrow> good s'"
    and extend_content: "good s \<Longrightarrow> extend i b s = (OK_CONTINUE, s') \<Longrightarrow>
           content s' = (case content s i of None \<Rightarrow> content s | Some a \<Rightarrow> (content s)(i \<mapsto> a @ b))"
begin

fun runs :: "('n option \<times> 'i \<times> 'b list) list \<Rightarrow> 's \<Rightarrow> 's \<Rightarrow> bool" where
  "runs [] s t \<longleftrightarrow> s = t"
| "runs ((Some n, i, b) # es) s t \<longleftrightarrow> (\<exists>u. start n i b s = (OK_CONTINUE, u) \<and> runs es u t)"
| "runs ((None, i, b) # es) s t \<longleftrightarrow> (\<exists>u. extend i b s = (OK_CONTINUE, u) \<and> runs es u t)"

lemma runs_good: "runs es s t \<Longrightarrow> good s \<Longrightarrow> good t"
  by (induction es s t rule: runs.induct) (auto intro: start_good extend_good)

lemma runs_collects:
  assumes "runs es s t" and "good s" and "content s i = Some a" and "\<forall>(n, j, b) \<in> set es. j = i \<longrightarrow> n = None"
  shows "content t i = Some (a @ concat (map (\<lambda>(n, j, b). if j = i then b else []) es))"
  using assms
proof (induction es s t arbitrary: a rule: runs.induct)
  case (2 n j b es s t)
  then obtain u where u: "start n j b s = (OK_CONTINUE, u)" "runs es u t" by auto
  have "j \<noteq> i" using "2.prems"(4) by auto
  then show ?case
    using "2.IH" [OF u(2) start_good [OF "2.prems"(2) u(1)]] start_content [OF "2.prems"(2) u(1)] "2.prems" by auto
next
  case (3 j b es s t)
  then obtain u where u: "extend j b s = (OK_CONTINUE, u)" "runs es u t" by auto
  have c: "content u i = Some (if j = i then a @ b else a)"
    using extend_content [OF "3.prems"(2) u(1)] "3.prems"(3) by (auto split: option.splits)
  show ?case
    using "3.IH" [OF u(2) extend_good [OF "3.prems"(2) u(1)] c] "3.prems"(4) by auto
qed simp

end

section \<open>Lemmas\<close>

definition content :: "llp \<Rightarrow> u32 \<Rightarrow> char list option" where
  "content lp i = (case fname_at lp i of None \<Rightarrow> None | Some f \<Rightarrow> lfiles lp f)"

text \<open>Registered files exist, and no two statements share one.\<close>

definition table_ok :: "llp \<Rightarrow> bool" where
  "table_ok lp \<longleftrightarrow> (\<forall>i f. fname_at lp i = Some f \<longrightarrow> lfiles lp f \<noteq> None)
     \<and> (\<forall>i j f. fname_at lp i = Some f \<longrightarrow> fname_at lp j = Some f \<longrightarrow> i = j)
     \<and> length (file_names lp) \<le> 2 ^ 32"

lemma create_from_fresh: "create_from env base fs v k = Some f \<Longrightarrow> fs f = None"
  by (induction k arbitrary: v) (auto simp: Let_def split: if_splits)

lemma create_from_name:
  "create_from env base fs v k = Some f \<Longrightarrow> \<exists>w. v \<le> w \<and> w < v + k \<and> f = base @ CHR ''-'' # show_hex w"
proof (induction k arbitrary: v)
  case (Suc k)
  show ?case
  proof (cases "f = base @ CHR ''-'' # show_hex v")
    case False
    then have "create_from env base fs (Suc v) k = Some f" using Suc.prems by (auto simp: Let_def split: if_splits)
    from Suc.IH [OF this] obtain w where "Suc v \<le> w" "w < Suc v + k" "f = base @ CHR ''-'' # show_hex w" by blast
    then show ?thesis by (intro exI [of _ w]) simp
  qed auto
qed simp

lemma set_dynamic_length: "length (set_dynamic r i xs) = max (length xs) (Suc i)"
  by (simp add: set_dynamic_def)

lemma set_dynamic_nth:
  "set_dynamic r i xs ! j = (if j = i then r else if j < length xs then xs ! j else no_record)"
  if "j < max (length xs) (Suc i)"
  using that by (auto simp: set_dynamic_def nth_append)

lemma write_and_close_ok:
  "write_and_close env f block lp = (OK_CONTINUE, lp') \<Longrightarrow>
     lp' = lp\<lparr>lfiles := (lfiles lp)(f \<mapsto> (case lfiles lp f of None \<Rightarrow> [] | Some old \<Rightarrow> old) @ block)\<rparr>"
  by (auto simp: write_and_close_def my_write_def Let_def split: if_splits)

lemma process_first_event_ok:
  assumes "process_first_event env bname block i ce lp = (OK_CONTINUE, lp')"
  shows "\<exists>f. lfiles lp f = None \<and> fname_at lp' = (fname_at lp)(i \<mapsto> f)
           \<and> lfiles lp' = (lfiles lp)(f \<mapsto> block) \<and> length (file_names lp') \<le> max (length (file_names lp)) (2 ^ 32)"
proof -
  let ?base = "target_dir_name lp @ bname @ CHR ''-'' # show_hex (unat i)"
  obtain f where f: "create_from env ?base (lfiles lp) 0 1000 = Some f"
    using assms by (auto simp: process_first_event_def create_unique_file_def split: option.splits)
  let ?r = "\<lparr>fr_fname = Some f, fr_event = map_option (\<lambda>e. e\<lparr>ce_fname := f\<rparr>) ce\<rparr>"
  have w: "lp' = lp\<lparr>lfiles := (lfiles lp)(f \<mapsto> block), file_names := set_dynamic ?r (unat i) (file_names lp)\<rparr>"
    using assms f by (auto simp: process_first_event_def create_unique_file_def dest!: write_and_close_ok)
  have "fname_at lp' j = ((fname_at lp)(i \<mapsto> f)) j" for j
  proof (cases "j = i")
    case True
    then show ?thesis by (simp add: w fname_at_def set_dynamic_length set_dynamic_nth)
  next
    case False
    then have "unat j \<noteq> unat i" by (auto dest: unsigned_word_eqI)
    then show ?thesis using False
      by (auto simp: w fname_at_def set_dynamic_length set_dynamic_nth no_record_def less_max_iff_disj)
  qed
  moreover have "unat i < 2 ^ 32" by (rule order_less_le_trans [OF unsigned_less]) simp
  ultimately show ?thesis
    using create_from_fresh [OF f] w by (intro exI [of _ f]) (auto simp: set_dynamic_length)
qed

lemma process_Append_block_ok:
  assumes "process_Append_block env block i lp = (OK_CONTINUE, lp')"
  shows "fname_at lp' = fname_at lp \<and> length (file_names lp') = length (file_names lp)
     \<and> lfiles lp' = (case fname_at lp i of None \<Rightarrow> lfiles lp
          | Some f \<Rightarrow> (lfiles lp)(f \<mapsto> the (lfiles lp f) @ block))
     \<and> (\<forall>f. fname_at lp i = Some f \<longrightarrow> lfiles lp f \<noteq> None)"
  using assms by (auto simp: process_Append_block_def fname_at_def fun_eq_iff
      split: option.splits if_splits dest!: write_and_close_ok)

lemma processor_store:
  "load_store table_ok (\<lambda>(bname, ce) i b. process_first_event env bname b i ce)
     (\<lambda>i b. process_Append_block env b i) content"
proof (unfold_locales, goal_cases)
  case (1 s n i b s')
  obtain f where f: "lfiles s f = None" "fname_at s' = (fname_at s)(i \<mapsto> f)"
    "lfiles s' = (lfiles s)(f \<mapsto> b)" "length (file_names s') \<le> max (length (file_names s)) (2 ^ 32)"
    using 1(2) process_first_event_ok by (cases n) fastforce
  have "fname_at s j \<noteq> Some f" for j using 1(1) f(1) unfolding table_ok_def by blast
  then show ?case using 1(1) f by (auto simp: table_ok_def split: if_splits)
next
  case (2 s n i b s')
  obtain f where f: "lfiles s f = None" "fname_at s' = (fname_at s)(i \<mapsto> f)" "lfiles s' = (lfiles s)(f \<mapsto> b)"
    using 2(2) process_first_event_ok by (cases n) fastforce
  have "fname_at s j \<noteq> Some f" for j using 2(1) f(1) unfolding table_ok_def by blast
  then show ?case using f by (auto simp: content_def fun_eq_iff split: option.splits)
next
  case (3 s i b s')
  then show ?case using process_Append_block_ok [of env b i s s'] by (auto simp: table_ok_def split: option.splits if_splits)
next
  case (4 s i b s')
  note a = process_Append_block_ok [OF 4(2)]
  show ?case
  proof (cases "fname_at s i")
    case None
    then show ?thesis using a by (auto simp: content_def fun_eq_iff split: option.splits)
  next
    case (Some f)
    have f: "fname_at s j = Some f \<Longrightarrow> j = i" for j using 4(1) Some unfolding table_ok_def by blast
    obtain old where old: "lfiles s f = Some old" using a Some by auto
    then have c: "content s i = Some old" by (simp add: content_def Some)
    have "content s' j = (if j = i then Some (old @ b) else content s j)" for j
    proof (cases "j = i")
      case True
      then show ?thesis using a Some old by (simp add: content_def)
    next
      case False
      then have "fname_at s j \<noteq> Some f" using f by blast
      then show ?thesis using a Some False by (auto simp: content_def split: option.splits)
    qed
    then show ?thesis using c by (simp add: fun_eq_iff)
  qed
qed

interpretation lp: load_store table_ok "\<lambda>(bname, ce) i b. process_first_event env bname b i ce"
    "\<lambda>i b. process_Append_block env b i" content for env
  by (rule processor_store)

definition event_at :: "llp \<Rightarrow> u32 \<Rightarrow> create_file option" where
  "event_at lp i = (if unat i < length (file_names lp) then fr_event (file_names lp ! unat i) else None)"

lemma process_first_event_event:
  assumes "process_first_event env bname block i ce lp = (OK_CONTINUE, lp')"
  shows "(j \<noteq> i \<longrightarrow> event_at lp' j = event_at lp j) \<and> (ce = None \<longrightarrow> event_at lp' i = None)"
proof -
  obtain f where w: "file_names lp' = set_dynamic \<lparr>fr_fname = Some f,
      fr_event = map_option (\<lambda>e. e\<lparr>ce_fname := f\<rparr>) ce\<rparr> (unat i) (file_names lp)"
    using assms by (auto simp: process_first_event_def dest!: write_and_close_ok split: option.splits)
  have "unat j \<noteq> unat i" if "j \<noteq> i" using that by (auto dest: unsigned_word_eqI)
  then show ?thesis
    by (auto simp: w event_at_def set_dynamic_length set_dynamic_nth no_record_def less_max_iff_disj)
qed

lemma process_Append_block_event:
  "process_Append_block env block i lp = (OK_CONTINUE, lp') \<Longrightarrow> event_at lp' j = event_at lp j"
  by (auto simp: process_Append_block_def event_at_def split: option.splits if_splits dest!: write_and_close_ok)

lemma runs_event:
  "lp.runs env es s t \<Longrightarrow> \<forall>(n, j, b) \<in> set es. j = i \<longrightarrow> n = None \<Longrightarrow> event_at t i = event_at s i"
proof (induction es arbitrary: s)
  case (Cons e es)
  obtain n j b where e: "e = (n, j, b)" by (cases e)
  show ?case
  proof (cases n)
    case None
    then obtain u where "process_Append_block env b j s = (OK_CONTINUE, u)" "lp.runs env es u t"
      using Cons.prems(1) e by auto
    then show ?thesis using Cons process_Append_block_event [of env b j s u i] by simp
  next
    case (Some m)
    obtain bname ce where m: "m = (bname, ce)" by (cases m)
    then obtain u where "process_first_event env bname b j ce s = (OK_CONTINUE, u)" "lp.runs env es u t"
      using Cons.prems(1) e Some by auto
    then show ?thesis using Cons Some e process_first_event_event [of env bname b j ce s u i] by auto
  qed
qed simp

lemma length_show_hex: "0 < k \<Longrightarrow> n < 16 ^ k \<Longrightarrow> length (show_hex n) \<le> k"
proof (induction k arbitrary: n)
  case (Suc k)
  show ?case
  proof (cases "n < 16")
    case True
    then show ?thesis by (simp add: show_hex.simps)
  next
    case False
    then have "0 < k" using Suc.prems by (cases k) auto
    moreover have "n div 16 < 16 ^ k" using Suc.prems by (simp add: less_mult_imp_div_less mult.commute)
    ultimately have "length (show_hex (n div 16)) \<le> k" by (rule Suc.IH)
    moreover have "show_hex n = show_hex (n div 16) @ [hex_char (n mod 16)]" using False by (subst show_hex.simps) simp
    ultimately show ?thesis by simp
  qed
qed simp

section \<open>Properties\<close>

text \<open>C35: the data of a \<open>LOAD DATA\<close> statement is collected in full: after a begin event for a
  statement and any successful run of events, for whatever statements, that does not begin this
  one again, the name handed out for the statement is that of a file that holds the begin's block and
  all blocks appended for the statement, in order; it is handed out once.\<close>

theorem load_data_collected:
  assumes "table_ok st" and "process_Begin_load_query env b0 i st = (OK_CONTINUE, s0)"
    and "lp.runs env es s0 t" and "\<forall>(n, j, b) \<in> set es. j = i \<longrightarrow> n = None"
  shows "\<exists>f t'. grab_fname i t = (Some f, t') \<and> fst (grab_fname i t') = None
     \<and> lfiles t' f = Some (b0 @ concat (map (\<lambda>(n, j, b). if j = i then b else []) es))"
proof -
  have s: "(\<lambda>(bname, ce) i b. process_first_event env bname b i ce) (''SQL_LOAD_MB'', None) i b0 st = (OK_CONTINUE, s0)"
    using assms(2) by (simp add: process_Begin_load_query_def)
  have g: "table_ok s0" by (rule lp.start_good [OF assms(1) s])
  have "content s0 i = Some b0" using lp.start_content [OF assms(1) s] by simp
  from lp.runs_collects [OF assms(3) g this assms(4)]
  obtain f where f: "fname_at t i = Some f"
    "lfiles t f = Some (b0 @ concat (map (\<lambda>(n, j, b). if j = i then b else []) es))"
    by (auto simp: content_def split: option.splits)
  have "event_at s0 i = None" using process_first_event_event s by simp
  then have "event_at t i = None" using runs_event [OF assms(3,4)] by simp
  then show ?thesis using f
    by (intro exI [of _ f] exI [of _ "t\<lparr>file_names := (file_names t)[unat i := no_record]\<rparr>"])
       (simp add: event_at_def grab_fname_def fname_at_def Let_def no_record_def split: if_splits)
qed

definition demo_lenv :: lenv where
  "demo_lenv = \<lparr>creatable = (\<lambda>_. True), openable = (\<lambda>_. True), written = (\<lambda>f bs. length bs), closable = (\<lambda>_. True),
     dirname_length = (\<lambda>_. 0)\<rparr>"

theorem load_data_collected_witness:
  "\<exists>s0 t f. process_Begin_load_query demo_lenv ''ab'' 1 \<lparr>target_dir_name = ''t/'', file_names = [], lfiles = (\<lambda>_. None)\<rparr>
              = (OK_CONTINUE, s0)
     \<and> process_Append_block demo_lenv ''cd'' 1 s0 = (OK_CONTINUE, t)
     \<and> fst (grab_fname 1 t) = Some f \<and> lfiles t f = Some ''abcd''"
proof -
  let ?st = "\<lparr>target_dir_name = ''t/'', file_names = [], lfiles = (\<lambda>_. None)\<rparr>"
  obtain s0 t where s0: "process_Begin_load_query demo_lenv ''ab'' 1 ?st = (OK_CONTINUE, s0)"
    and t: "process_Append_block demo_lenv ''cd'' 1 s0 = (OK_CONTINUE, t)"
    by (auto simp: process_Begin_load_query_def process_first_event_def create_unique_file_def numeral_eq_Suc Let_def
        demo_lenv_def write_and_close_def my_write_def process_Append_block_def fname_at_def set_dynamic_def)
  have "table_ok ?st" by (simp add: table_ok_def fname_at_def)
  moreover have "lp.runs demo_lenv [(None, 1, ''cd'')] s0 t" using t by simp
  ultimately obtain f t' where f: "grab_fname 1 t = (Some f, t')" "fst (grab_fname 1 t') = None"
      "lfiles t' f = Some (''ab'' @ concat (map (\<lambda>(n, j, b). if j = 1 then b else []) [(None, 1, ''cd'')]))"
    using load_data_collected [of ?st demo_lenv "''ab''" 1 s0 "[(None, 1, ''cd'')]" t] s0 by auto
  have "lfiles t' = lfiles t" using f(1) by (auto simp: grab_fname_def Let_def split: if_splits option.splits)
  then show ?thesis using s0 t f by auto
qed

text \<open>The name of a temporary file fits the memory that is allocated for it (the directory, the
  base name, 9 bytes for the number of the statement, 9 for the version and the terminator), no file
  that existed is overwritten, and the version is below 1000.\<close>

theorem temp_name_fits:
  assumes "create_unique_file env (target_dir_name st @ bname @ CHR ''-'' # show_hex (unat (file_id :: u32))) fs = Some (f, fs')"
  shows "length f + 1 \<le> length (target_dir_name st) + length bname + 9 + 9 + 1 \<and> fs f = None \<and> fs' = fs(f \<mapsto> [])
     \<and> (\<exists>v < 1000. f = target_dir_name st @ bname @ CHR ''-'' # show_hex (unat file_id) @ CHR ''-'' # show_hex v)"
proof -
  let ?base = "target_dir_name st @ bname @ CHR ''-'' # show_hex (unat file_id)"
  have f: "create_from env ?base fs 0 1000 = Some f" "fs' = fs(f \<mapsto> [])"
    using assms by (auto simp: create_unique_file_def split: option.splits)
  obtain v where v: "v < 1000" "f = ?base @ CHR ''-'' # show_hex v"
    using create_from_name [OF f(1)] by auto
  have "unat file_id < 16 ^ 8" by (rule order_less_le_trans [OF unsigned_less]) simp
  then have "length (show_hex (unat file_id)) \<le> 8" by (intro length_show_hex) simp_all
  moreover have "length (show_hex v) \<le> 3" using v(1) by (intro length_show_hex) simp_all
  ultimately show ?thesis using v f create_from_fresh [OF f(1)] by auto
qed

theorem temp_name_fits_witness:
  "\<exists>f fs'. create_unique_file demo_lenv (''t/'' @ ''SQL_LOAD_MB'' @ CHR ''-'' # show_hex (unat (7 :: u32))) (\<lambda>_. None) = Some (f, fs')
     \<and> length f \<le> 32"
proof -
  obtain f fs' where f: "create_unique_file demo_lenv (''t/'' @ ''SQL_LOAD_MB'' @ CHR ''-'' # show_hex (unat (7 :: u32))) (\<lambda>_. None)
      = Some (f, fs')"
    by (simp add: create_unique_file_def numeral_eq_Suc demo_lenv_def Let_def)
  have "length f + 1 \<le> 32"
    using temp_name_fits [of demo_lenv "\<lparr>target_dir_name = ''t/'', file_names = [], lfiles = (\<lambda>_. None)\<rparr>"
        "''SQL_LOAD_MB''" 7 "\<lambda>_. None" f fs'] f by simp
  then show ?thesis using f by (intro exI [of _ f] exI [of _ fs']) simp
qed

end
