(* ===== verification/Event_Printer.thy ===== *)
theory Event_Printer
  imports Load_Processor
begin

text \<open>
  \<open>process_event\<close> of \<open>ddmysqlbinlog.cc\<close>: the patched \<open>mysqlbinlog\<close> decides for each event of a
  binary log whether it is wanted, prints it, and prints the marks that the listener of the capture
  reads. How the MariaDB classes print an event is the parameter \<open>evlib\<close>; which options are set is
  the parameter \<open>opts\<close>. Writing to the result file never fails.
\<close>

section \<open>Events, options and state\<close>

datatype Log_event_type =
    QUERY_EVENT | QUERY_COMPRESSED_EVENT | CREATE_FILE_EVENT | APPEND_BLOCK_EVENT | EXEC_LOAD_EVENT
  | FORMAT_DESCRIPTION_EVENT | BEGIN_LOAD_QUERY_EVENT | EXECUTE_LOAD_QUERY_EVENT | ANNOTATE_ROWS_EVENT
  | TABLE_MAP_EVENT | WRITE_ROWS_EVENT | DELETE_ROWS_EVENT | UPDATE_ROWS_EVENT | WRITE_ROWS_EVENT_V1
  | UPDATE_ROWS_EVENT_V1 | DELETE_ROWS_EVENT_V1 | WRITE_ROWS_COMPRESSED_EVENT | DELETE_ROWS_COMPRESSED_EVENT
  | UPDATE_ROWS_COMPRESSED_EVENT | WRITE_ROWS_COMPRESSED_EVENT_V1 | UPDATE_ROWS_COMPRESSED_EVENT_V1
  | DELETE_ROWS_COMPRESSED_EVENT_V1 | PRE_GA_WRITE_ROWS_EVENT | PRE_GA_DELETE_ROWS_EVENT
  | PRE_GA_UPDATE_ROWS_EVENT | START_ENCRYPTION_EVENT | XID_EVENT | GTID_EVENT | ROTATE_EVENT | STOP_EVENT
  | OTHER_EVENT nat

text \<open>What the program reads of an event; times are \<open>my_time_t\<close>, signed.\<close>

record Log_event =
  ev_type :: Log_event_type
  ev_when :: int
  ev_server_id :: u32
  ev_log_pos :: u64
  ev_suppress_use :: bool
  ev_skip_replication :: bool
  ev_in_use :: bool
  ev_db :: "string option"
  ev_query :: string
  ev_trans_keyword :: bool
  ev_table_id :: u64
  ev_table_name :: string
  ev_stmt_end :: bool
  ev_file_id :: u32
  ev_block :: "char list"
  ev_create :: create_file
  ev_xid :: u64
  ev_seq_no :: u64
  ev_binlog_version :: nat
  ev_common_header_len :: nat

datatype base64_mode = BASE64_OUTPUT_NEVER | BASE64_OUTPUT_AUTO | BASE64_OUTPUT_ALWAYS | BASE64_OUTPUT_UNSPEC
  | BASE64_OUTPUT_DECODE_ROWS

record opts =
  database :: "string option"
  table :: "string option"
  server_id :: u32
  stop_datetime :: int
  stop_position :: u64
  print_row_event_positions :: bool
  opt_base64_output_mode :: base64_mode
  short_form :: bool
  opt_hexdump :: bool
  opt_flashback :: bool
  opt_skip_annotate_row_events :: bool
  force_if_open_opt :: bool
  get_rewrite_db :: "string \<Rightarrow> string"
  l_ulIndex :: u32

record PRINT_EVENT_INFO =
  p_db :: string
  delimiter :: string
  skip_replication :: bool
  found_row_event :: bool
  row_events :: u64
  printed_fd_event :: bool
  print_row_count :: bool
  m_table_map_ignored :: "u64 list"
  head_cache :: string
  body_cache :: string
  head_error :: bool
  hexdump_from :: u64
  base64_output_mode :: base64_mode
  common_header_len :: nat

record ps =
  rec_count :: u64
  offset :: u64
  start_datetime :: int
  pinfo :: PRINT_EVENT_INFO
  annotate_event :: "Log_event option"
  load_processor :: llp
  binlog_version :: nat
  fd_in_use :: bool
  events_in_stmt :: "Log_event list"
  binlog_events :: "string list"
  stop_event_string :: string
  output_buf :: string
  result_file :: string

text \<open>The library: each function tells whether it failed and returns the text that it wrote to the
  result file, the text that it left in the event's \<open>output_buf\<close>, and the new print state. \<open>quoted\<close>
  is the format \<open>%`s\<close>.\<close>

type_synonym printed = "bool \<times> string \<times> string \<times> PRINT_EVENT_INFO"

record evlib =
  ev_print :: "Log_event \<Rightarrow> PRINT_EVENT_INFO \<Rightarrow> printed"
  ce_print :: "create_file \<Rightarrow> PRINT_EVENT_INFO \<Rightarrow> printed"
  exlq_print :: "Log_event \<Rightarrow> string \<Rightarrow> PRINT_EVENT_INFO \<Rightarrow> printed"
  print_header :: "Log_event \<Rightarrow> PRINT_EVENT_INFO \<Rightarrow> bool \<times> PRINT_EVENT_INFO"
  print_body :: "Log_event \<Rightarrow> PRINT_EVENT_INFO \<Rightarrow> bool \<times> PRINT_EVENT_INFO"
  rewrite_db_fails :: "Log_event \<Rightarrow> string \<Rightarrow> bool"
  quote_ident :: "string \<Rightarrow> string"
  ll_env :: lenv

section \<open>Helpers\<close>

definition put :: "string \<Rightarrow> ps \<Rightarrow> ps" where
  "put s st = st\<lparr>result_file := result_file st @ s\<rparr>"

definition printed_to :: "printed \<Rightarrow> ps \<Rightarrow> bool \<times> ps" where
  "printed_to r st = (case r of (failed, txt, held, p) \<Rightarrow>
     (failed, st\<lparr>result_file := result_file st @ txt, output_buf := output_buf st @ held, pinfo := p\<rparr>))"

definition shall_skip_database :: "opts \<Rightarrow> string option \<Rightarrow> bool" where
  "shall_skip_database o1 log_dbname =
     (case (database o1, log_dbname) of (Some d, Some n) \<Rightarrow> n \<noteq> d | _ \<Rightarrow> False)"

definition shall_skip_table :: "opts \<Rightarrow> string option \<Rightarrow> bool" where
  "shall_skip_table o1 log_tblname =
     (case (table o1, log_tblname) of (Some t, Some n) \<Rightarrow> n \<noteq> t | _ \<Rightarrow> False)"

definition print_use_stmt :: "evlib \<Rightarrow> opts \<Rightarrow> Log_event \<Rightarrow> ps \<Rightarrow> ps" where
  "print_use_stmt lib o1 ev st =
     (case ev_db ev of
        None \<Rightarrow> st
      | Some d \<Rightarrow>
          if ev_suppress_use ev \<or> p_db (pinfo st) = d then st
          else let db_to = get_rewrite_db o1 d in
               if db_to = [] then st
               else (put (''use '' @ quote_ident lib db_to @ delimiter (pinfo st) @ [NL]) st)
                      \<lparr>pinfo := (pinfo st)\<lparr>p_db := d\<rparr>\<rparr>)"

definition print_skip_replication_statement :: "Log_event \<Rightarrow> ps \<Rightarrow> ps" where
  "print_skip_replication_statement ev st =
     (let cur = ev_skip_replication ev
      in if cur = skip_replication (pinfo st) then st
         else (put (''/*!50521 SET skip_replication='' @ (if cur then ''1'' else ''0'') @ ''*/''
                     @ delimiter (pinfo st) @ [NL]) st)\<lparr>pinfo := (pinfo st)\<lparr>skip_replication := cur\<rparr>\<rparr>)"

text \<open>\<open>copy_event_cache_to_file_and_reinit\<close> of both caches.\<close>

definition flush_caches :: "ps \<Rightarrow> ps" where
  "flush_caches st =
     (put (head_cache (pinfo st) @ body_cache (pinfo st)) st)\<lparr>pinfo := (pinfo st)\<lparr>head_cache := [], body_cache := []\<rparr>\<rparr>"

definition write_event_header_and_base64 :: "evlib \<Rightarrow> Log_event \<Rightarrow> ps \<Rightarrow> Exit_status \<times> ps" where
  "write_event_header_and_base64 lib ev st =
     (let (failed, p) = print_header lib ev (pinfo st); st1 = st\<lparr>pinfo := p\<rparr>
      in if failed then (ERROR_STOP, st1)
         else let (failed2, p2) = print_body lib ev p; st2 = st1\<lparr>pinfo := p2\<rparr>
              in if failed2 then (ERROR_STOP, st2) else (OK_CONTINUE, flush_caches st2))"

definition print_base64 :: "evlib \<Rightarrow> opts \<Rightarrow> Log_event \<Rightarrow> ps \<Rightarrow> bool \<times> ps" where
  "print_base64 lib o1 ev st =
     (if \<not> printed_fd_event (pinfo st) \<and> \<not> short_form o1
         \<and> opt_base64_output_mode o1 \<noteq> BASE64_OUTPUT_DECODE_ROWS
         \<and> opt_base64_output_mode o1 \<noteq> BASE64_OUTPUT_NEVER
      then (True, st)
      else printed_to (ev_print lib ev (pinfo st)) st)"

section \<open>Row events\<close>

text \<open>In flashback mode the events of a statement are printed from the last to the first; each has
  its own \<open>output_buf\<close>, of which the first event's is kept.\<close>

fun print_back :: "evlib \<Rightarrow> opts \<Rightarrow> Log_event list \<Rightarrow> bool \<Rightarrow> ps \<Rightarrow> bool \<times> ps" where
  "print_back lib o1 [] failed st = (failed, st)"
| "print_back lib o1 (e # es) failed st =
     (let st0 = st\<lparr>output_buf := []\<rparr>;
          (failed1, st1) = (if failed then (True, st0) else print_base64 lib o1 e st0)
      in print_back lib o1 es failed1 st1)"

definition collect_row_event :: "Log_event \<Rightarrow> bool \<Rightarrow> ps \<Rightarrow> ps" where
  "collect_row_event ev is_stmt_end st =
     (let e1 = (if is_stmt_end then ev\<lparr>ev_stmt_end := False\<rparr> else ev);
          e2 = (if events_in_stmt st = [] then e1\<lparr>ev_stmt_end := True\<rparr> else e1)
      in st\<lparr>events_in_stmt := events_in_stmt st @ [e2]\<rparr>)"

definition end_of_stmt :: "bool \<Rightarrow> ps \<Rightarrow> ps" where
  "end_of_stmt skip_event st =
     (let st1 = st\<lparr>pinfo := (pinfo st)\<lparr>m_table_map_ignored := []\<rparr>, annotate_event := None\<rparr>
      in if \<not> skip_event then st1
         else let b = body_cache (pinfo st1) in
           flush_caches (st1\<lparr>pinfo := (pinfo st1)\<lparr>body_cache :=
             (if b = [] then b else b @ [CHR 0x27] @ delimiter (pinfo st1) @ [NL])\<rparr>\<rparr>))"

definition print_row_event :: "evlib \<Rightarrow> opts \<Rightarrow> Log_event \<Rightarrow> u64 \<Rightarrow> bool \<Rightarrow> ps \<Rightarrow> bool \<times> ps" where
  "print_row_event lib o1 ev table_id is_stmt_end st =
     (let skip_event = table_id \<in> set (m_table_map_ignored (pinfo st));
          st1 = (if opt_flashback o1 then collect_row_event ev is_stmt_end st else st);
          st2 = (if is_stmt_end then end_of_stmt skip_event st1 else st1)
      in if skip_event then (False, st2)
         else
           let (failed, st3) =
                 (if \<not> opt_flashback o1 then print_base64 lib o1 ev st2
                  else if is_stmt_end
                       then (let (f, st') = print_back lib o1 (rev (events_in_stmt st2)) False st2
                             in (f, st'\<lparr>events_in_stmt := []\<rparr>))
                       else (False, st2))
           in if is_stmt_end \<and> \<not> failed
              then (failed,
                    (if print_row_count (pinfo st3)
                     then put (''# Number of rows: '' @ show_lld (row_events (pinfo st3)) @ [NL]) st3 else st3)
                      \<lparr>pinfo := (pinfo st3)\<lparr>row_events := 0\<rparr>\<rparr>)
              else (failed, st3))"

section \<open>The cases of process_event\<close>

text \<open>How a case is left: at the label \<open>end\<close>, with the status and whether the event is still there
  (\<open>ev != NULL\<close>), or by a return that skips the label.\<close>

datatype after = To_end Exit_status bool | Returns Exit_status

definition goto_err :: after where "goto_err = To_end ERROR_STOP True"

definition on_query_event :: "evlib \<Rightarrow> opts \<Rightarrow> u64 \<Rightarrow> Log_event \<Rightarrow> ps \<Rightarrow> after \<times> ps" where
  "on_query_event lib o1 pos ev st =
     (if \<not> ev_trans_keyword ev \<and> shall_skip_database o1 (ev_db ev) then (To_end OK_CONTINUE True, st)
      else
        let qe = (if ev_trans_keyword ev then ev\<lparr>ev_suppress_use := True\<rparr> else ev);
            st1 = print_use_stmt lib o1 qe st
        in if opt_base64_output_mode o1 = BASE64_OUTPUT_ALWAYS
           then (let (r, st2) = write_event_header_and_base64 lib qe st1
                 in if r \<noteq> OK_CONTINUE then (To_end r True, st2)
                    else if head_error (pinfo st2) then (goto_err, st2)
                    else (To_end OK_CONTINUE True, st2))
           else (let st2 = put (query_mark pos (ev_log_pos qe) (ev_query qe) (l_ulIndex o1) @ [NL])
                             (print_skip_replication_statement qe st1);
                     (failed, st3) = printed_to (ev_print lib qe (pinfo st2)) st2
                 in if failed \<or> head_error (pinfo st3) then (goto_err, st3) else (To_end OK_CONTINUE True, st3)))"

definition on_create_file_event :: "evlib \<Rightarrow> opts \<Rightarrow> Log_event \<Rightarrow> ps \<Rightarrow> after \<times> ps" where
  "on_create_file_event lib o1 ev st =
     (let ce = ev_create ev in
      if shall_skip_database o1 (ce_db ce) then (To_end OK_CONTINUE True, st)
      else
        let (r, st1) =
              (if opt_base64_output_mode o1 = BASE64_OUTPUT_ALWAYS then write_event_header_and_base64 lib ev st
               else let st0 = print_skip_replication_statement ev st;
                        (failed, st') = printed_to (ce_print lib ce (pinfo st0)) st0
                    in (if failed then ERROR_STOP else OK_CONTINUE, st'))
        in if r \<noteq> OK_CONTINUE then (To_end r True, st1)
           else if 3 \<le> binlog_version st1
           then (let (r2, lp) = process_Create_file (ll_env lib) ce (load_processor st1)
                 in (To_end r2 False, st1\<lparr>load_processor := lp\<rparr>))
           else (To_end OK_CONTINUE True, st1))"

definition on_append_block_event :: "evlib \<Rightarrow> Log_event \<Rightarrow> ps \<Rightarrow> after \<times> ps" where
  "on_append_block_event lib ev st =
     (let (failed, st1) = printed_to (ev_print lib ev (pinfo st)) st
      in if failed then (goto_err, st1)
         else let (r, lp) = process_Append_block (ll_env lib) (ev_block ev) (ev_file_id ev) (load_processor st1)
              in (To_end r True, st1\<lparr>load_processor := lp\<rparr>))"

definition on_exec_load_event :: "evlib \<Rightarrow> Log_event \<Rightarrow> ps \<Rightarrow> after \<times> ps" where
  "on_exec_load_event lib ev st =
     (let (failed, st1) = printed_to (ev_print lib ev (pinfo st)) st
      in if failed then (goto_err, st1)
         else case grab_event (ev_file_id ev) (load_processor st1) of
                (None, lp) \<Rightarrow> (To_end OK_CONTINUE True, st1\<lparr>load_processor := lp\<rparr>)
              | (Some ce, lp) \<Rightarrow>
                  (let st2 = st1\<lparr>load_processor := lp\<rparr>;
                       (failed2, st3) = printed_to (ce_print lib
                          (ce\<lparr>ce_fname := convert_path_to_forward_slashes (ce_fname ce)\<rparr>) (pinfo st2)) st2
                   in (if failed2 then goto_err else To_end OK_CONTINUE True, st3)))"

definition on_format_description_event :: "evlib \<Rightarrow> opts \<Rightarrow> Log_event \<Rightarrow> ps \<Rightarrow> after \<times> ps" where
  "on_format_description_event lib o1 ev st =
     (let st0 = st\<lparr>binlog_version := ev_binlog_version ev, fd_in_use := ev_in_use ev,
                  pinfo := (pinfo st)\<lparr>common_header_len := ev_common_header_len ev\<rparr>\<rparr>;
          (failed, st1) = printed_to (ev_print lib ev (pinfo st0)) st0
      in if failed then (goto_err, st1)
         else if \<not> force_if_open_opt o1 \<and> ev_in_use ev then (Returns ERROR_STOP, st1)
         else (To_end OK_CONTINUE False, st1))"

definition on_begin_load_query_event :: "evlib \<Rightarrow> Log_event \<Rightarrow> ps \<Rightarrow> after \<times> ps" where
  "on_begin_load_query_event lib ev st =
     (let (failed, st1) = printed_to (ev_print lib ev (pinfo st)) st
      in if failed then (goto_err, st1)
         else let (r, lp) = process_Begin_load_query (ll_env lib) (ev_block ev) (ev_file_id ev) (load_processor st1)
              in (To_end r True, st1\<lparr>load_processor := lp\<rparr>))"

definition on_execute_load_query_event :: "evlib \<Rightarrow> opts \<Rightarrow> Log_event \<Rightarrow> ps \<Rightarrow> after \<times> ps" where
  "on_execute_load_query_event lib o1 ev st =
     (let (fname, lp) = grab_fname (ev_file_id ev) (load_processor st); st1 = st\<lparr>load_processor := lp\<rparr>
      in if shall_skip_database o1 (ev_db ev) then (To_end OK_CONTINUE True, st1)
         else
           let st2 = print_use_stmt lib o1 ev st1
           in case fname of
                None \<Rightarrow> (To_end OK_CONTINUE True, st2)
              | Some f \<Rightarrow>
                  (let st3 = print_skip_replication_statement ev st2;
                       (failed, st4) = printed_to
                         (exlq_print lib ev (convert_path_to_forward_slashes f) (pinfo st3)) st3
                   in (if failed then goto_err else To_end OK_CONTINUE True, st4)))"

definition on_annotate_rows_event :: "opts \<Rightarrow> Log_event \<Rightarrow> ps \<Rightarrow> after \<times> ps" where
  "on_annotate_rows_event o1 ev st =
     (To_end OK_CONTINUE True, if opt_skip_annotate_row_events o1 then st else st\<lparr>annotate_event := Some ev\<rparr>)"

text \<open>The result of printing the kept annotate event is not looked at.\<close>

definition print_annotate_event :: "evlib \<Rightarrow> ps \<Rightarrow> ps" where
  "print_annotate_event lib st =
     (case annotate_event st of
        None \<Rightarrow> st
      | Some a \<Rightarrow> (case ev_print lib a (pinfo st) of (failed, txt, held, p) \<Rightarrow>
                    (put txt st)\<lparr>pinfo := p, annotate_event := None\<rparr>))"

definition ignore_table_map :: "Log_event \<Rightarrow> ps \<Rightarrow> ps" where
  "ignore_table_map ev st =
     st\<lparr>pinfo := (pinfo st)\<lparr>m_table_map_ignored := ev_table_id ev # m_table_map_ignored (pinfo st)\<rparr>\<rparr>"

definition on_table_map_event :: "evlib \<Rightarrow> opts \<Rightarrow> Log_event \<Rightarrow> ps \<Rightarrow> after \<times> ps" where
  "on_table_map_event lib o1 ev st =
     (if shall_skip_database o1 (ev_db ev) \<or> shall_skip_table o1 (Some (ev_table_name ev))
      then (To_end OK_CONTINUE True, ignore_table_map ev st)
      else
        let st1 = print_annotate_event lib st;
            db_to = (case ev_db ev of None \<Rightarrow> [] | Some d \<Rightarrow> get_rewrite_db o1 d)
        in if db_to \<noteq> [] \<and> rewrite_db_fails lib ev db_to then (goto_err, st1)
           else
             let ev1 = (if db_to \<noteq> [] then ev\<lparr>ev_db := Some db_to\<rparr> else ev);
                 (failed, st2) = print_base64 lib o1 ev1 st1
             in if failed then (goto_err, st2)
                else (To_end OK_CONTINUE True, if opt_flashback o1 then st2\<lparr>events_in_stmt := []\<rparr> else st2))"

definition put_stmt_mark :: "opts \<Rightarrow> u64 \<Rightarrow> Log_event \<Rightarrow> ps \<Rightarrow> ps" where
  "put_stmt_mark o1 pos ev st =
     (if ev_stmt_end ev then put (stmt_mark pos (ev_log_pos ev) (l_ulIndex o1) @ [NL]) st else st)"

definition on_rows_event :: "evlib \<Rightarrow> opts \<Rightarrow> u64 \<Rightarrow> Log_event \<Rightarrow> ps \<Rightarrow> after \<times> ps" where
  "on_rows_event lib o1 pos ev st =
     (let st1 = (if found_row_event (pinfo st) then st
                 else st\<lparr>pinfo := (pinfo st)\<lparr>found_row_event := True, row_events := 0\<rparr>\<rparr>);
          (failed, st2) = print_row_event lib o1 ev (ev_table_id ev) (ev_stmt_end ev) (put_stmt_mark o1 pos ev st1)
      in if failed then (goto_err, st2)
         else (To_end OK_CONTINUE True,
               if ev_stmt_end ev then st2\<lparr>pinfo := (pinfo st2)\<lparr>found_row_event := False\<rparr>\<rparr> else st2))"

definition on_old_rows_event :: "evlib \<Rightarrow> opts \<Rightarrow> u64 \<Rightarrow> Log_event \<Rightarrow> ps \<Rightarrow> after \<times> ps" where
  "on_old_rows_event lib o1 pos ev st =
     (let (failed, st2) = print_row_event lib o1 ev (ev_table_id ev) (ev_stmt_end ev) (put_stmt_mark o1 pos ev st)
      in (if failed then goto_err else To_end OK_CONTINUE True, st2))"

definition on_other_event :: "evlib \<Rightarrow> opts \<Rightarrow> u64 \<Rightarrow> Log_event \<Rightarrow> ps \<Rightarrow> after \<times> ps" where
  "on_other_event lib o1 pos ev st =
     (let st1 = print_skip_replication_statement ev st;
          (failed, st2) = printed_to (ev_print lib ev (pinfo st1)) st1
      in if failed then (goto_err, st2)
         else (To_end OK_CONTINUE True,
               if ev_type ev = XID_EVENT then put (commit_mark pos (ev_log_pos ev) (ev_xid ev) (l_ulIndex o1) @ [NL]) st2
               else if ev_type ev = GTID_EVENT then put (begin_mark pos (ev_log_pos ev) (ev_seq_no ev) @ [NL]) st2
               else st2))"

section \<open>process_event\<close>

definition is_rows_event :: "Log_event_type \<Rightarrow> bool" where
  "is_rows_event t \<longleftrightarrow> t \<in> {WRITE_ROWS_EVENT, DELETE_ROWS_EVENT, UPDATE_ROWS_EVENT, WRITE_ROWS_EVENT_V1,
     UPDATE_ROWS_EVENT_V1, DELETE_ROWS_EVENT_V1, WRITE_ROWS_COMPRESSED_EVENT, DELETE_ROWS_COMPRESSED_EVENT,
     UPDATE_ROWS_COMPRESSED_EVENT, WRITE_ROWS_COMPRESSED_EVENT_V1, UPDATE_ROWS_COMPRESSED_EVENT_V1,
     DELETE_ROWS_COMPRESSED_EVENT_V1}"

definition is_old_rows_event :: "Log_event_type \<Rightarrow> bool" where
  "is_old_rows_event t \<longleftrightarrow> t \<in> {PRE_GA_WRITE_ROWS_EVENT, PRE_GA_DELETE_ROWS_EVENT, PRE_GA_UPDATE_ROWS_EVENT}"

text \<open>The switch over the type; \<open>START_ENCRYPTION_EVENT\<close> falls through to the default.\<close>

definition event_case :: "evlib \<Rightarrow> opts \<Rightarrow> u64 \<Rightarrow> Log_event \<Rightarrow> ps \<Rightarrow> after \<times> ps" where
  "event_case lib o1 pos ev st =
     (let t = ev_type ev in
      if t = QUERY_EVENT \<or> t = QUERY_COMPRESSED_EVENT then on_query_event lib o1 pos ev st
      else if t = CREATE_FILE_EVENT then on_create_file_event lib o1 ev st
      else if t = APPEND_BLOCK_EVENT then on_append_block_event lib ev st
      else if t = EXEC_LOAD_EVENT then on_exec_load_event lib ev st
      else if t = FORMAT_DESCRIPTION_EVENT then on_format_description_event lib o1 ev st
      else if t = BEGIN_LOAD_QUERY_EVENT then on_begin_load_query_event lib ev st
      else if t = EXECUTE_LOAD_QUERY_EVENT then on_execute_load_query_event lib o1 ev st
      else if t = ANNOTATE_ROWS_EVENT then on_annotate_rows_event o1 ev st
      else if t = TABLE_MAP_EVENT then on_table_map_event lib o1 ev st
      else if is_rows_event t then on_rows_event lib o1 pos ev st
      else if is_old_rows_event t then on_old_rows_event lib o1 pos ev st
      else on_other_event lib o1 pos ev st)"

text \<open>The label \<open>end\<close>: count the event and write what the event holds back.\<close>

definition hold_output :: "opts \<Rightarrow> Log_event \<Rightarrow> ps \<Rightarrow> ps" where
  "hold_output o1 ev st =
     (if output_buf st = [] then st
      else if opt_flashback o1
      then (if ev_type ev = STOP_EVENT then st\<lparr>stop_event_string := output_buf st\<rparr>
            else st\<lparr>binlog_events := binlog_events st @ [output_buf st]\<rparr>)\<lparr>output_buf := []\<rparr>
      else (put (output_buf st) st)\<lparr>output_buf := []\<rparr>)"

definition finish_event :: "opts \<Rightarrow> Log_event \<Rightarrow> after \<times> ps \<Rightarrow> Exit_status \<times> ps" where
  "finish_event o1 ev r =
     (case r of
        (Returns s, st) \<Rightarrow> (s, st)
      | (To_end s there, st) \<Rightarrow>
          (let st1 = st\<lparr>rec_count := rec_count st + 1\<rparr>
           in (s, if there then hold_output o1 ev st1 else st1)))"

definition wanted :: "Log_event \<Rightarrow> ps \<Rightarrow> bool" where
  "wanted ev st \<longleftrightarrow> offset st \<le> rec_count st \<and> start_datetime st \<le> ev_when ev \<or> ev_type ev = FORMAT_DESCRIPTION_EVENT"

definition announce :: "opts \<Rightarrow> u64 \<Rightarrow> ps \<Rightarrow> ps" where
  "announce o1 pos st =
     (if print_row_event_positions o1 then put (''# at '' @ show_lld pos @ [NL]) st else st)
       \<lparr>pinfo := (pinfo st)\<lparr>hexdump_from := (if opt_hexdump o1 then pos else 0),
                          base64_output_mode := opt_base64_output_mode o1\<rparr>\<rparr>"

definition process_event :: "evlib \<Rightarrow> opts \<Rightarrow> u64 \<Rightarrow> Log_event \<Rightarrow> ps \<Rightarrow> Exit_status \<times> ps" where
  "process_event lib o1 pos ev st0 =
     finish_event o1 ev
       (let st = st0\<lparr>output_buf := []\<rparr> in
        if \<not> wanted ev st then (To_end OK_CONTINUE True, st)
        else
          let st1 = (if ev_type ev = FORMAT_DESCRIPTION_EVENT then st else st\<lparr>start_datetime := 0, offset := 0\<rparr>)
          in if ev_type ev \<noteq> FORMAT_DESCRIPTION_EVENT \<and> ev_type ev \<noteq> ROTATE_EVENT
                \<and> server_id o1 \<noteq> 0 \<and> server_id o1 \<noteq> ev_server_id ev
             then (To_end OK_CONTINUE True, st1)
             else if stop_datetime o1 \<le> ev_when ev \<or> stop_position o1 \<le> pos then (To_end OK_STOP True, st1)
             else event_case lib o1 pos ev (announce o1 pos st1))"

text \<open>A log is a list of events with their positions; reading stops at the first event that is not
  answered by \<open>OK_CONTINUE\<close>.\<close>

fun process_events :: "evlib \<Rightarrow> opts \<Rightarrow> (u64 \<times> Log_event) list \<Rightarrow> ps \<Rightarrow> Exit_status \<times> ps" where
  "process_events lib o1 [] st = (OK_CONTINUE, st)"
| "process_events lib o1 ((pos, ev) # es) st =
     (let (r, st1) = process_event lib o1 pos ev st
      in if r \<noteq> OK_CONTINUE then (r, st1) else process_events lib o1 es st1)"

section \<open>Lemmas\<close>

lemma put_fields [simp]:
  "result_file (put s st) = result_file st @ s" "pinfo (put s st) = pinfo st"
  "output_buf (put s st) = output_buf st" "events_in_stmt (put s st) = events_in_stmt st"
  "load_processor (put s st) = load_processor st" "rec_count (put s st) = rec_count st"
  "start_datetime (put s st) = start_datetime st" "offset (put s st) = offset st"
  "annotate_event (put s st) = annotate_event st"
  by (simp_all add: put_def)

definition before_start :: "ps \<Rightarrow> u64 \<times> Log_event \<Rightarrow> bool" where
  "before_start st e \<longleftrightarrow> ev_when (snd e) < start_datetime st"

definition before_stop :: "opts \<Rightarrow> u64 \<times> Log_event \<Rightarrow> bool" where
  "before_stop o1 e \<longleftrightarrow> ev_when (snd e) < stop_datetime o1 \<and> fst e < stop_position o1"

text \<open>Reading without a selected server, behind the offset, of a log whose format is known.\<close>

definition plain_log :: "opts \<Rightarrow> ps \<Rightarrow> (u64 \<times> Log_event) list \<Rightarrow> bool" where
  "plain_log o1 st es \<longleftrightarrow> server_id o1 = 0 \<and> offset st = 0
     \<and> (\<forall>e \<in> set es. ev_type (snd e) \<noteq> FORMAT_DESCRIPTION_EVENT \<and> 0 \<le> ev_when (snd e))"

lemma skipped_event:
  "before_start st (pos, ev) \<Longrightarrow> ev_type ev \<noteq> FORMAT_DESCRIPTION_EVENT \<Longrightarrow> output_buf st = [] \<Longrightarrow>
     process_event lib o1 pos ev st = (OK_CONTINUE, st\<lparr>rec_count := rec_count st + 1\<rparr>)"
  by (simp add: before_start_def process_event_def wanted_def finish_event_def hold_output_def Let_def)

lemma stopped_event:
  "\<not> before_start st (pos, ev) \<Longrightarrow> \<not> before_stop o1 (pos, ev) \<Longrightarrow> plain_log o1 st [(pos, ev)] \<Longrightarrow>
     fst (process_event lib o1 pos ev st) = OK_STOP
     \<and> result_file (snd (process_event lib o1 pos ev st)) = result_file st"
  by (auto simp: before_start_def before_stop_def process_event_def wanted_def finish_event_def hold_output_def Let_def
      plain_log_def)

text \<open>The cases leave the range alone.\<close>

definition same_range :: "ps \<Rightarrow> ps \<Rightarrow> bool" where
  "same_range st st' \<longleftrightarrow> start_datetime st' = start_datetime st \<and> offset st' = offset st \<and> rec_count st' = rec_count st"

lemma same_range_refl [simp]: "same_range st st" by (simp add: same_range_def)

lemma same_range_trans: "same_range st st1 \<Longrightarrow> same_range st1 st2 \<Longrightarrow> same_range st st2"
  by (simp add: same_range_def)

lemma same_range_put [simp]: "same_range st (put s st') = same_range st st'"
  by (simp add: same_range_def)

lemma same_range_fields [simp]:
  "same_range st (st'\<lparr>pinfo := p\<rparr>) = same_range st st'"
  "same_range st (st'\<lparr>load_processor := l\<rparr>) = same_range st st'"
  "same_range st (st'\<lparr>events_in_stmt := es\<rparr>) = same_range st st'"
  "same_range st (st'\<lparr>annotate_event := a\<rparr>) = same_range st st'"
  "same_range st (st'\<lparr>output_buf := b\<rparr>) = same_range st st'"
  "same_range st (st'\<lparr>result_file := f\<rparr>) = same_range st st'"
  "same_range st (st'\<lparr>binlog_version := v\<rparr>) = same_range st st'"
  "same_range st (st'\<lparr>fd_in_use := u\<rparr>) = same_range st st'"
  by (simp_all add: same_range_def)

lemma printed_to_range [simp]: "same_range st (snd (printed_to r st')) = same_range st st'"
  by (simp add: printed_to_def split: prod.splits)

lemma printed_to_range': "printed_to r st = (f, st') \<Longrightarrow> same_range st st'"
  using printed_to_range [of st r st] by simp

lemma use_range [simp]: "same_range st (print_use_stmt lib o1 ev st') = same_range st st'"
  by (simp add: print_use_stmt_def Let_def split: option.splits)

lemma skip_range [simp]: "same_range st (print_skip_replication_statement ev st') = same_range st st'"
  by (simp add: print_skip_replication_statement_def Let_def)

lemma flush_range [simp]: "same_range st (flush_caches st') = same_range st st'"
  by (simp add: flush_caches_def)

lemma base64_range [simp]: "same_range st (snd (print_base64 lib o1 ev st')) = same_range st st'"
  by (simp add: print_base64_def)

lemma header_range [simp]: "same_range st (snd (write_event_header_and_base64 lib ev st')) = same_range st st'"
  by (simp add: write_event_header_and_base64_def Let_def split_beta)

lemma back_range [simp]: "same_range st (snd (print_back lib o1 es f st')) = same_range st st'"
  by (induction es arbitrary: f st') (simp_all add: Let_def split_beta)

lemma row_range [simp]: "same_range st (snd (print_row_event lib o1 ev i e st')) = same_range st st'"
  by (simp add: print_row_event_def Let_def split_beta collect_row_event_def end_of_stmt_def)

lemma annotate_range [simp]: "same_range st (print_annotate_event lib st') = same_range st st'"
  by (simp add: print_annotate_event_def split: option.splits prod.splits)

lemma query_case_range [simp]: "same_range st (snd (on_query_event lib o1 pos ev st))"
  by (simp add: on_query_event_def put_stmt_mark_def Let_def split_beta split: option.split)

lemma create_file_case_range [simp]: "same_range st (snd (on_create_file_event lib o1 ev st))"
  by (simp add: on_create_file_event_def put_stmt_mark_def Let_def split_beta split: option.split)

lemma append_block_case_range [simp]: "same_range st (snd (on_append_block_event lib ev st))"
  by (simp add: on_append_block_event_def put_stmt_mark_def Let_def split_beta split: option.split)

lemma exec_load_case_range [simp]: "same_range st (snd (on_exec_load_event lib ev st))"
  by (simp add: on_exec_load_event_def put_stmt_mark_def Let_def split_beta split: option.split)

lemma format_descriptievent_case_range [simp]: "same_range st (snd (on_format_description_event lib o1 ev st))"
  by (simp add: on_format_description_event_def put_stmt_mark_def Let_def split_beta split: option.split)

lemma begin_load_query_case_range [simp]: "same_range st (snd (on_begin_load_query_event lib ev st))"
  by (simp add: on_begin_load_query_event_def put_stmt_mark_def Let_def split_beta split: option.split)

lemma execute_load_query_case_range [simp]: "same_range st (snd (on_execute_load_query_event lib o1 ev st))"
  by (simp add: on_execute_load_query_event_def put_stmt_mark_def Let_def split_beta split: option.split)

lemma annotate_rows_case_range [simp]: "same_range st (snd (on_annotate_rows_event o1 ev st))"
  by (simp add: on_annotate_rows_event_def put_stmt_mark_def Let_def split_beta split: option.split)

lemma table_map_case_range [simp]: "same_range st (snd (on_table_map_event lib o1 ev st))"
  by (simp add: ignore_table_map_def on_table_map_event_def put_stmt_mark_def Let_def split_beta split: option.split)

lemma rows_case_range [simp]: "same_range st (snd (on_rows_event lib o1 pos ev st))"
  by (simp add: on_rows_event_def put_stmt_mark_def Let_def split_beta split: option.split)

lemma old_rows_case_range [simp]: "same_range st (snd (on_old_rows_event lib o1 pos ev st))"
  by (simp add: on_old_rows_event_def put_stmt_mark_def Let_def split_beta split: option.split)

lemma other_case_range [simp]: "same_range st (snd (on_other_event lib o1 pos ev st))"
  by (simp add: on_other_event_def put_stmt_mark_def Let_def split_beta split: option.split)

lemma event_case_range: "same_range st (snd (event_case lib o1 pos ev st))"
  by (simp add: event_case_def Let_def)

lemma started_event:
  assumes "start_datetime st = 0" and "plain_log o1 st [(pos, ev)]" and "before_stop o1 (pos, ev)"
  shows "start_datetime (snd (process_event lib o1 pos ev st)) = 0 \<and> offset (snd (process_event lib o1 pos ev st)) = 0"
proof -
  let ?st = "st\<lparr>output_buf := [], start_datetime := 0, offset := 0\<rparr>"
  have w: "wanted ev (st\<lparr>output_buf := []\<rparr>)" using assms by (simp add: wanted_def plain_log_def)
  have p: "process_event lib o1 pos ev st = finish_event o1 ev (event_case lib o1 pos ev (announce o1 pos ?st))"
    using assms w by (auto simp: process_event_def plain_log_def before_stop_def Let_def)
  have "same_range ?st (announce o1 pos ?st)" by (simp add: announce_def)
  then have "same_range ?st (snd (event_case lib o1 pos ev (announce o1 pos ?st)))"
    using event_case_range same_range_trans by blast
  then show ?thesis
    by (auto simp: p same_range_def finish_event_def hold_output_def Let_def split: after.splits prod.splits)
qed

lemma plain_log_Cons:
  "plain_log o1 st (e # es) \<longleftrightarrow> plain_log o1 st [e] \<and> plain_log o1 st es"
  by (auto simp: plain_log_def)

lemma plain_log_offset: "plain_log o1 st es \<Longrightarrow> offset st' = 0 \<Longrightarrow> plain_log o1 st' es"
  by (simp add: plain_log_def)

lemma started_events:
  "start_datetime st = 0 \<Longrightarrow> plain_log o1 st es \<Longrightarrow>
     result_file (snd (process_events lib o1 es st)) = result_file (snd (process_events lib o1 (takeWhile (before_stop o1) es) st))"
proof (induction es arbitrary: st)
  case (Cons e es)
  obtain pos ev where e: "e = (pos, ev)" by (cases e)
  have pl: "plain_log o1 st [(pos, ev)]" "plain_log o1 st es"
    using Cons.prems(2) plain_log_Cons [of o1 st e es] e by simp_all
  have w: "\<not> before_start st (pos, ev)" using Cons.prems e by (auto simp: before_start_def plain_log_def)
  obtain r st1 where r: "process_event lib o1 pos ev st = (r, st1)" by fastforce
  show ?case
  proof (cases "before_stop o1 e")
    case False
    then show ?thesis using stopped_event [OF w _ pl(1), of lib] e r by simp
  next
    case True
    have "start_datetime st1 = 0" "plain_log o1 st1 es"
      using started_event [OF Cons.prems(1) pl(1), of lib] True e r plain_log_offset [OF pl(2)] by simp_all
    then show ?thesis using Cons.IH [of st1] True e r by simp
  qed
qed simp

lemma first_wanted:
  assumes "\<not> before_start st (pos, ev)" and "plain_log o1 st [(pos, ev)]"
  shows "process_event lib o1 pos ev st = process_event lib o1 pos ev (st\<lparr>start_datetime := 0\<rparr>)"
  using assms by (simp add: process_event_def wanted_def before_start_def plain_log_def Let_def)

section \<open>Properties\<close>

text \<open>C34: the range of the options start and stop date and stop position: what is printed of a log is
  what is printed of the part that begins with the first event at or after the start date and ends
  before the first following event at or after the stop date or the stop position. In between
  every event is printed, earlier dates than the start included.\<close>

theorem range_selects:
  assumes "plain_log o1 st es" and "output_buf st = []"
  shows "result_file (snd (process_events lib o1 es st))
       = result_file (snd (process_events lib o1 (takeWhile (before_stop o1) (dropWhile (before_start st) es))
           (st\<lparr>start_datetime := 0, rec_count := rec_count st + of_nat (length (takeWhile (before_start st) es))\<rparr>)))"
  using assms
proof (induction es arbitrary: st)
  case (Cons e es)
  obtain pos ev where e: "e = (pos, ev)" by (cases e)
  have pl: "plain_log o1 st [(pos, ev)]" "plain_log o1 st es"
    using Cons.prems(1) plain_log_Cons [of o1 st e es] e by simp_all
  show ?case
  proof (cases "before_start st e")
    case True
    let ?st = "st\<lparr>rec_count := rec_count st + 1\<rparr>"
    have "process_event lib o1 pos ev st = (OK_CONTINUE, ?st)"
      using skipped_event True e Cons.prems(2) pl(1) by (simp add: plain_log_def)
    moreover have "before_start ?st = before_start st" by (simp add: before_start_def fun_eq_iff)
    moreover have "plain_log o1 ?st es" using pl(2) by (simp add: plain_log_def)
    ultimately show ?thesis using Cons.IH [of ?st] Cons.prems(2) True e by (simp add: add.assoc add.commute add.left_commute)
  next
    case False
    let ?st = "st\<lparr>start_datetime := 0\<rparr>"
    have "process_events lib o1 (e # es) st = process_events lib o1 (e # es) ?st"
      using first_wanted [of st pos ev o1 lib] False pl(1) e by simp
    moreover have "plain_log o1 ?st (e # es)" using Cons.prems(1) by (simp add: plain_log_def)
    ultimately show ?thesis using started_events [of ?st o1 "e # es" lib] False by simp
  qed
qed simp

definition demo_lib :: evlib where
  "demo_lib = \<lparr>ev_print = (\<lambda>e p. (False, ev_query e, [], p)), ce_print = (\<lambda>e p. (False, ce_fname e, [], p)),
     exlq_print = (\<lambda>e f p. (False, f, [], p)), print_header = (\<lambda>e p. (False, p)), print_body = (\<lambda>e p. (False, p)),
     rewrite_db_fails = (\<lambda>_ _. False), quote_ident = id, ll_env = demo_lenv\<rparr>"

definition demo_opts :: opts where
  "demo_opts = \<lparr>database = None, table = Some ''t'', server_id = 0, stop_datetime = 50, stop_position = 1000,
     print_row_event_positions = False, opt_base64_output_mode = BASE64_OUTPUT_DECODE_ROWS, short_form = False,
     opt_hexdump = False, opt_flashback = False, opt_skip_annotate_row_events = False, force_if_open_opt = True,
     get_rewrite_db = (\<lambda>_. []), l_ulIndex = 1\<rparr>"

definition demo_pinfo :: PRINT_EVENT_INFO where
  "demo_pinfo = \<lparr>p_db = [], delimiter = '';'', skip_replication = False, found_row_event = False, row_events = 0,
     printed_fd_event = True, print_row_count = False, m_table_map_ignored = [], head_cache = [], body_cache = [],
     head_error = False, hexdump_from = 0, base64_output_mode = BASE64_OUTPUT_DECODE_ROWS, common_header_len = 19\<rparr>"

definition demo_ps :: ps where
  "demo_ps = \<lparr>rec_count = 0, offset = 0, start_datetime = 20, pinfo = demo_pinfo, annotate_event = None,
     load_processor = \<lparr>target_dir_name = [], file_names = [], lfiles = (\<lambda>_. None)\<rparr>, binlog_version = 4, fd_in_use = False,
     events_in_stmt = [], binlog_events = [], stop_event_string = [], output_buf = [], result_file = []\<rparr>"

definition demo_event :: "Log_event_type \<Rightarrow> int \<Rightarrow> string \<Rightarrow> Log_event" where
  "demo_event t d q = \<lparr>ev_type = t, ev_when = d, ev_server_id = 1, ev_log_pos = 100, ev_suppress_use = False,
     ev_skip_replication = False, ev_in_use = False, ev_db = Some ''d'', ev_query = q, ev_trans_keyword = False,
     ev_table_id = 5, ev_table_name = ''u'', ev_stmt_end = True, ev_file_id = 0, ev_block = [],
     ev_create = \<lparr>ce_db = None, ce_fname = [], ce_block = [], ce_file_id = 0\<rparr>, ev_xid = 7, ev_seq_no = 1,
     ev_binlog_version = 4, ev_common_header_len = 19\<rparr>"

theorem range_selects_witness:
  "result_file (snd (process_events demo_lib demo_opts
      [(4, demo_event STOP_EVENT 10 ''a''), (40, demo_event STOP_EVENT 30 ''b''), (60, demo_event STOP_EVENT 15 ''c''),
       (80, demo_event STOP_EVENT 60 ''d''), (90, demo_event STOP_EVENT 40 ''e'')] demo_ps)) = ''bc''"
proof -
  let ?es = "[(4, demo_event STOP_EVENT 10 ''a''), (40, demo_event STOP_EVENT 30 ''b''), (60, demo_event STOP_EVENT 15 ''c''),
       (80, demo_event STOP_EVENT 60 ''d''), (90, demo_event STOP_EVENT 40 ''e'')]"
  have "plain_log demo_opts demo_ps ?es" "output_buf demo_ps = []"
    by (simp_all add: plain_log_def demo_opts_def demo_ps_def demo_event_def)
  from range_selects [OF this, of demo_lib] show ?thesis
    by (simp add: before_stop_def before_start_def demo_opts_def demo_ps_def demo_event_def process_event_def wanted_def
        announce_def event_case_def on_other_event_def print_skip_replication_statement_def printed_to_def demo_lib_def
        demo_pinfo_def finish_event_def hold_output_def is_rows_event_def is_old_rows_event_def Let_def)
qed

text \<open>The rows of a table that \<open>--table\<close> or \<open>--database\<close> leaves out are never printed: after the
  table map event of such a table, a row event of that table adds nothing to the result but the
  mark of the statement when it ends it; then the table is no longer ignored.\<close>

theorem filtered_rows_silent:
  assumes "shall_skip_database o1 (ev_db tm) \<or> shall_skip_table o1 (Some (ev_table_name tm))"
    and "ev_table_id ev = ev_table_id tm" and "\<not> opt_flashback o1"
    and "head_cache (pinfo st) = []" and "body_cache (pinfo st) = []"
    and "on_rows_event lib o1 pos ev (snd (on_table_map_event lib o1 tm st)) = (r, st')"
  shows "r = To_end OK_CONTINUE True
     \<and> result_file st' = result_file st @ (if ev_stmt_end ev then stmt_mark pos (ev_log_pos ev) (l_ulIndex o1) @ [NL] else [])
     \<and> m_table_map_ignored (pinfo st') = (if ev_stmt_end ev then [] else ev_table_id tm # m_table_map_ignored (pinfo st))"
  using assms by (auto simp: on_rows_event_def on_table_map_event_def ignore_table_map_def print_row_event_def put_stmt_mark_def
      end_of_stmt_def flush_caches_def Let_def split: if_splits)

theorem filtered_rows_silent_witness:
  "result_file (snd (on_rows_event demo_lib demo_opts 4 (demo_event WRITE_ROWS_EVENT 30 ''row'')
      (snd (on_table_map_event demo_lib demo_opts (demo_event TABLE_MAP_EVENT 30 ''map'') demo_ps))))
   = stmt_mark 4 100 1 @ [NL]"
  using filtered_rows_silent [of demo_opts "demo_event TABLE_MAP_EVENT 30 ''map''" "demo_event WRITE_ROWS_EVENT 30 ''row''"
      demo_ps demo_lib 4 _ _, OF _ _ _ _ _ prod.collapse [symmetric]]
  by (simp add: shall_skip_table_def demo_opts_def demo_event_def demo_ps_def demo_pinfo_def)

end
