(* ===== verification/Reader.thy ===== *)
theory Reader
  imports Event_Printer
begin

text \<open>
  Reading one binary log: \<open>StartReadBinLog\<close>, which the capture calls for each log,
  \<open>dump_log_entries\<close>, the dialogue with a server (\<open>check_master_version\<close>,
  \<open>dump_remote_log_entries\<close>, \<open>handle_event_text_mode\<close>, \<open>handle_event_raw_mode\<close>) and the
  reading of a file (\<open>check_header\<close>, \<open>dump_local_log_entries\<close>), all of \<open>ddmysqlbinlog.cc\<close>.

  What the server sends and what a file holds are parameters: a packet carries the event that the
  library constructs from it, if it can.
\<close>

section \<open>Options of the reader\<close>

record ropts =
  opt_raw_mode :: bool
  remote_opt :: bool
  to_last_remote_log :: bool
  opt_stop_never :: bool
  opt_stop_never_slave_server_id :: u32
  disable_log_bin :: bool
  charset :: "string option"
  print_row_count_used :: bool
  print_row_event_positions_used :: bool
  opt_print_row_count :: bool

section \<open>The server\<close>

text \<open>The row of \<open>SELECT VERSION()\<close>, whose column may be \<open>NULL\<close>, and the outcome of the other
  queries.\<close>

record version_answer =
  version_ok :: bool
  version_row :: "string option option"
  checksum_ok :: bool
  capability_ok :: bool

definition check_master_version :: "version_answer \<Rightarrow> ps \<Rightarrow> (Exit_status \<times> ps) res" where
  "check_master_version a st =
     (if \<not> version_ok a then Inr (ERROR_STOP, st)
      else case version_row a of
             None \<Rightarrow> Inr (ERROR_STOP, st)
           | Some col \<Rightarrow>
               and_then (nonnull ''row[0]'' col) (\<lambda>v.
                 let version = atol v in
                 if version = 0 \<or> \<not> checksum_ok a \<or> \<not> capability_ok a then Inr (ERROR_STOP, st)
                 else if version = 3 then Inr (OK_CONTINUE, st\<lparr>binlog_version := 1\<rparr>)
                 else if version = 4 \<or> version = 5 \<or> version = 10
                 then Inr (OK_CONTINUE, st\<lparr>binlog_version := 3\<rparr>)
                 else Inr (ERROR_STOP, st)))"

text \<open>The request: position, flags, server id, name, in a buffer of 128 bytes.\<close>

definition le16 :: "16 word \<Rightarrow> char list" where
  "le16 w = map (\<lambda>i. char_of (unat w div 256 ^ i mod 256)) [0, 1]"

definition binlog_flags :: "opts \<Rightarrow> ropts \<Rightarrow> 16 word" where
  "binlog_flags o1 r1 = (if opt_skip_annotate_row_events o1 then 0 else 2) + (if opt_stop_never r1 then 0 else 1)"

definition slave_id :: "ropts \<Rightarrow> u32" where
  "slave_id r1 = (if opt_stop_never r1
     then (if opt_stop_never_slave_server_id r1 = 0 then 1 else opt_stop_never_slave_server_id r1) else 0)"

definition dump_request :: "opts \<Rightarrow> ropts \<Rightarrow> u32 \<Rightarrow> string \<Rightarrow> char list option" where
  "dump_request o1 r1 start_position logname =
     (if 118 < length logname then None
      else Some (le32 start_position @ le16 (binlog_flags o1 r1) @ le32 (slave_id r1) @ logname))"

text \<open>Packets of the server: an error, the end of the data, or an event with its length and, for a
  rotate event, the name of the log that it announces.\<close>

datatype net_packet = Net_error | Net_end | Net_event u32 "Log_event option" string

text \<open>What is needed to receive a file in the format before 4.0: whether a local file could be
  created, the conversation with the server, the file's name there.\<close>

record old_load =
  old_file :: "string option"
  old_asked :: bool
  old_acked :: bool
  old_packets :: "packet list"
  old_fname :: string

definition LOAD_EVENT :: Log_event_type where "LOAD_EVENT = OTHER_EVENT 6"
definition START_EVENT_V3 :: Log_event_type where "START_EVENT_V3 = OTHER_EVENT 1"
definition HEARTBEAT_LOG_EVENT :: Log_event_type where "HEARTBEAT_LOG_EVENT = OTHER_EVENT 27"

definition is_fake_rotate :: "Log_event \<Rightarrow> bool" where
  "is_fake_rotate e \<longleftrightarrow> ev_type e = ROTATE_EVENT \<and> ev_when e = 0"

definition load_old_event :: "evlib \<Rightarrow> opts \<Rightarrow> old_load \<Rightarrow> u64 \<Rightarrow> Log_event \<Rightarrow> ps \<Rightarrow> (Exit_status \<times> ps) res" where
  "load_old_event lib o1 ol old_off e st =
     (case old_file ol of
        None \<Rightarrow> Inr (ERROR_STOP, st)
      | Some f \<Rightarrow>
          (let (r, st1) = process_event lib o1 old_off e st
           in if r \<noteq> OK_CONTINUE then Inr (r, st1)
              else and_then (load_old_format_file (ll_env lib) (old_asked ol) (old_acked ol) (old_fname ol) f
                               (old_packets ol) (lfiles (load_processor st1))) (\<lambda>(r2, fs).
                     Inr (r2, st1\<lparr>load_processor := (load_processor st1)\<lparr>lfiles := fs\<rparr>\<rparr>))))"

text \<open>The result has the length by which the offset advances, plus 1.\<close>

definition handle_event_text_mode :: "evlib \<Rightarrow> opts \<Rightarrow> ropts \<Rightarrow> old_load \<Rightarrow> string \<Rightarrow> u64 \<Rightarrow> u32
    \<Rightarrow> Log_event option \<Rightarrow> string \<Rightarrow> ps \<Rightarrow> (Exit_status \<times> u32 \<times> ps) res" where
  "handle_event_text_mode lib o1 r1 ol logname old_off len ev new_log_ident st =
     (case ev of
        None \<Rightarrow> Inr (ERROR_STOP, len, st)
      | Some e \<Rightarrow>
          if 3 \<le> binlog_version st \<or> (ev_type e \<noteq> LOAD_EVENT \<and> ev_type e \<noteq> CREATE_FILE_EVENT)
          then if is_fake_rotate e \<and> \<not> to_last_remote_log r1
               then Inr (if new_log_ident \<noteq> logname then OK_EOF else OK_CONTINUE, 1, st)
               else
                 (let len1 = (if is_fake_rotate e \<or> ev_type e = FORMAT_DESCRIPTION_EVENT \<and> old_off \<noteq> 4 then 1 else len);
                      (r, st1) = process_event lib o1 old_off e st
                  in Inr (r, len1, st1))
          else and_then (load_old_event lib o1 ol old_off e st) (\<lambda>(r, st1). Inr (r, len, st1)))"

text \<open>The loop of \<open>dump_remote_log_entries\<close>; each packet comes with the value of \<open>l_fExitApp\<close> before
  it is read. Without further packets the connection is lost.\<close>

fun remote_loop :: "evlib \<Rightarrow> opts \<Rightarrow> ropts \<Rightarrow> old_load \<Rightarrow> string \<Rightarrow> (bool \<times> net_packet) list \<Rightarrow> u64 \<Rightarrow> ps
    \<Rightarrow> (Exit_status \<times> ps) res" where
  "remote_loop lib o1 r1 ol logname [] old_off st = Inr (ERROR_STOP, st)"
| "remote_loop lib o1 r1 ol logname ((exit_app, p) # ps) old_off st =
     (if exit_app then Inr (OK_STOP, st)
      else case p of
             Net_error \<Rightarrow> Inr (ERROR_STOP, st)
           | Net_end \<Rightarrow> Inr (OK_CONTINUE, st)
           | Net_event len ev ident \<Rightarrow>
               and_then (handle_event_text_mode lib o1 r1 ol logname old_off len ev ident st) (\<lambda>(r, len1, st1).
                 if r = OK_EOF then Inr (OK_CONTINUE, st1)
                 else if r \<noteq> OK_CONTINUE then Inr (r, st1)
                 else remote_loop lib o1 r1 ol logname ps (old_off + ucast (len1 - 1)) st1))"

section \<open>Raw mode\<close>

text \<open>The events are written as they come to files named after the server's logs;
  \<open>raw_open\<close> is the file that \<open>result_file\<close> stands for.\<close>

record raw =
  out_file_name :: string
  raw_open :: "string option"
  raw_files :: lfs

definition BINLOG_MAGIC :: "char list" where "BINLOG_MAGIC = CHR 0xFE # ''bin''"

definition raw_write :: "lenv \<Rightarrow> char list \<Rightarrow> raw \<Rightarrow> (Exit_status \<times> raw) res" where
  "raw_write env bytes rw =
     and_then (nonnull ''result_file'' (raw_open rw)) (\<lambda>f.
       let (ok, fs) = my_write env f bytes (raw_files rw)
       in Inr (if ok then OK_CONTINUE else ERROR_STOP, rw\<lparr>raw_files := fs\<rparr>))"

text \<open>Two calls of \<open>strmake\<close> into 513 bytes; the second may write one byte too many.\<close>

definition make_out_file_name :: "string \<Rightarrow> string \<Rightarrow> string res" where
  "make_out_file_name pre ident =
     (if FN_REFLEN < length (take FN_REFLEN pre) + length ident then Inl (Out_of_bounds ''out_file_name'')
      else Inr (take FN_REFLEN pre @ ident))"

definition open_raw_file :: "lenv \<Rightarrow> raw \<Rightarrow> (Exit_status \<times> raw) res" where
  "open_raw_file env rw =
     (if \<not> creatable env (out_file_name rw) then Inr (ERROR_STOP, rw\<lparr>raw_open := None\<rparr>)
      else raw_write env BINLOG_MAGIC
             (rw\<lparr>raw_open := Some (out_file_name rw), raw_files := (raw_files rw)(out_file_name rw \<mapsto> [])\<rparr>))"

definition handle_event_raw_mode :: "lenv \<Rightarrow> ropts \<Rightarrow> string \<Rightarrow> string \<Rightarrow> u32 \<Rightarrow> Log_event_type \<Rightarrow> char list
    \<Rightarrow> Log_event option \<Rightarrow> string \<Rightarrow> raw \<times> ps \<Rightarrow> (Exit_status \<times> u32 \<times> raw \<times> ps) res" where
  "handle_event_raw_mode env r1 output_prefix logname len t bytes ev new_log_ident s =
     (case s of (rw, st) \<Rightarrow>
        if t = HEARTBEAT_LOG_EVENT then Inr (OK_CONTINUE, len, rw, st)
        else if t = ROTATE_EVENT then
          (case ev of
             None \<Rightarrow> Inr (ERROR_STOP, len, rw, st)
           | Some e \<Rightarrow>
               and_then (make_out_file_name output_prefix new_log_ident) (\<lambda>f.
                 let rw1 = rw\<lparr>out_file_name := f\<rparr>
                 in if ev_when e = 0
                    then Inr (if \<not> to_last_remote_log r1 \<and> new_log_ident \<noteq> logname then OK_EOF else OK_CONTINUE,
                              1, rw1, st)
                    else and_then (raw_write env bytes rw1) (\<lambda>(r, rw2). Inr (r, len, rw2, st))))
        else if t = FORMAT_DESCRIPTION_EVENT then
          (case ev of
             None \<Rightarrow> Inr (ERROR_STOP, len, rw, st)
           | Some e \<Rightarrow>
               and_then (open_raw_file env rw) (\<lambda>(r, rw1).
                 if r \<noteq> OK_CONTINUE then Inr (r, len, rw1, st)
                 else
                   let st1 = st\<lparr>binlog_version := ev_binlog_version e, fd_in_use := ev_in_use e,
                                pinfo := (pinfo st)\<lparr>common_header_len := ev_common_header_len e\<rparr>\<rparr>
                   in and_then (raw_write env bytes rw1) (\<lambda>(r2, rw2). Inr (r2, len, rw2, st1))))
        else and_then (raw_write env bytes rw) (\<lambda>(r, rw1). Inr (r, len, rw1, st)))"

text \<open>The loop of \<open>dump_remote_log_entries\<close> in raw mode.\<close>

datatype raw_packet = Raw_error | Raw_end | Raw_event u32 Log_event_type "char list" "Log_event option" string

fun raw_loop :: "lenv \<Rightarrow> ropts \<Rightarrow> string \<Rightarrow> string \<Rightarrow> (bool \<times> raw_packet) list \<Rightarrow> raw \<times> ps
    \<Rightarrow> (Exit_status \<times> raw \<times> ps) res" where
  "raw_loop env r1 output_prefix logname [] s = Inr (ERROR_STOP, s)"
| "raw_loop env r1 output_prefix logname ((exit_app, p) # ps) s =
     (if exit_app then Inr (OK_STOP, s)
      else case p of
             Raw_error \<Rightarrow> Inr (ERROR_STOP, s)
           | Raw_end \<Rightarrow> Inr (OK_CONTINUE, s)
           | Raw_event len t bytes ev ident \<Rightarrow>
               and_then (handle_event_raw_mode env r1 output_prefix logname len t bytes ev ident s) (\<lambda>(r, len1, s1).
                 if r = OK_EOF then Inr (OK_CONTINUE, s1)
                 else if r \<noteq> OK_CONTINUE then Inr (r, s1)
                 else raw_loop env r1 output_prefix logname ps s1))"

section \<open>Reading from a server\<close>

text \<open>What the raw mode needs: the file system, the names of the standard output and of the files to write, and the
  packets with their bytes.\<close>

record raw_source =
  rs_env :: lenv
  rs_files :: lfs
  rs_stdout :: string
  rs_out_file_name :: string
  rs_output_prefix :: string
  rs_packets :: "(bool \<times> raw_packet) list"

text \<open>The file that \<open>result_file\<close> stands for is the standard output until the first description of a log, and then the file
  opened last; a file that could not be opened leaves a null pointer, which the next output of the caller hits.\<close>

definition read_raw :: "ropts \<Rightarrow> raw_source \<Rightarrow> string \<Rightarrow> ps \<Rightarrow> (Exit_status \<times> ps) res" where
  "read_raw r1 rs logname st =
     and_then (raw_loop (rs_env rs) r1 (rs_output_prefix rs) logname (rs_packets rs)
        (\<lparr>out_file_name = rs_out_file_name rs, raw_open = Some (rs_stdout rs),
          raw_files = (rs_files rs)(rs_stdout rs \<mapsto> result_file st)\<rparr>, st)) (\<lambda>(r, rw, st1).
     and_then (nonnull ''result_file'' (raw_open rw)) (\<lambda>f.
       Inr (r, st1\<lparr>result_file := (case raw_files rw f of Some bs \<Rightarrow> bs | None \<Rightarrow> [])\<rparr>)))"

record server =
  safe_connect :: Exit_status
  version :: version_answer
  command_ok :: bool
  packets :: "(bool \<times> net_packet) list"
  old :: old_load
  raw_source :: raw_source

definition dump_remote_log_entries :: "evlib \<Rightarrow> opts \<Rightarrow> ropts \<Rightarrow> server \<Rightarrow> u32 \<Rightarrow> string \<Rightarrow> ps \<Rightarrow> (Exit_status \<times> ps) res" where
  "dump_remote_log_entries lib o1 r1 sv start_position logname st =
     (if safe_connect sv \<noteq> OK_CONTINUE then Inr (safe_connect sv, st)
      else and_then (check_master_version (version sv) st) (\<lambda>(r, st1).
        if r \<noteq> OK_CONTINUE then Inr (r, st1)
        else if dump_request o1 r1 start_position logname = None \<or> \<not> command_ok sv then Inr (ERROR_STOP, st1)
        else if opt_raw_mode r1 then read_raw r1 (raw_source sv) logname st1
        else remote_loop lib o1 r1 (old sv) logname (packets sv) (ucast start_position) st1))"

section \<open>Reading a file\<close>

text \<open>An entry of the file: its offset, type and length, and the event if it can be read. The start
  position is the offset of an entry, or the end of the file.\<close>

record local_entry =
  le_pos :: u64
  le_type :: Log_event_type
  le_len :: u32
  le_event :: "Log_event option"

record local_file =
  lf_open :: bool
  lf_stat :: bool
  lf_header :: "char list"
  lf_entries :: "local_entry list"
  lf_error :: bool

text \<open>The probe of the first entries.\<close>

fun check_entries :: "evlib \<Rightarrow> opts \<Rightarrow> u64 \<Rightarrow> bool \<Rightarrow> local_entry list \<Rightarrow> ps \<Rightarrow> Exit_status \<times> ps" where
  "check_entries lib o1 start_position err [] st = (if err then ERROR_STOP else OK_CONTINUE, st)"
| "check_entries lib o1 start_position err (e # es) st =
     (if le_type e = START_EVENT_V3
      then (OK_CONTINUE, if le_len e < 19 + 56 then st\<lparr>binlog_version := 1\<rparr> else st)
      else if start_position \<le> le_pos e then (OK_CONTINUE, st)
      else if le_type e = FORMAT_DESCRIPTION_EVENT then
        (case le_event e of
           None \<Rightarrow> (ERROR_STOP, st)
         | Some ev \<Rightarrow>
             if opt_base64_output_mode o1 = BASE64_OUTPUT_AUTO \<or> opt_base64_output_mode o1 = BASE64_OUTPUT_ALWAYS
             then (let (r, st1) = process_event lib o1 (le_pos e) ev st
                   in if r \<noteq> OK_CONTINUE then (r, st1) else check_entries lib o1 start_position err es st1)
             else check_entries lib o1 start_position err es
                    (st\<lparr>binlog_version := ev_binlog_version ev, fd_in_use := ev_in_use ev\<rparr>))
      else if le_type e = ROTATE_EVENT then
        (case le_event e of None \<Rightarrow> (ERROR_STOP, st) | Some ev \<Rightarrow> check_entries lib o1 start_position err es st)
      else (OK_CONTINUE, st))"

definition check_header :: "evlib \<Rightarrow> opts \<Rightarrow> u64 \<Rightarrow> local_file \<Rightarrow> ps \<Rightarrow> Exit_status \<times> ps" where
  "check_header lib o1 start_position f st =
     (let st1 = st\<lparr>binlog_version := 3, fd_in_use := False\<rparr>
      in if \<not> lf_stat f \<or> length (lf_header f) < 4 \<or> take 4 (lf_header f) \<noteq> BINLOG_MAGIC then (ERROR_STOP, st1)
         else check_entries lib o1 start_position (lf_error f) (lf_entries f) st1)"

text \<open>The loop over the events; a read error in a log that is still in use counts as its end.\<close>

fun local_loop :: "evlib \<Rightarrow> opts \<Rightarrow> bool \<Rightarrow> local_entry list \<Rightarrow> ps \<Rightarrow> Exit_status \<times> ps" where
  "local_loop lib o1 err [] st = (if err \<and> \<not> fd_in_use st then ERROR_STOP else OK_CONTINUE, st)"
| "local_loop lib o1 err (e # es) st =
     (case le_event e of
        None \<Rightarrow> (if fd_in_use st then OK_CONTINUE else ERROR_STOP, st)
      | Some ev \<Rightarrow>
          (let (r, st1) = process_event lib o1 (le_pos e) ev st
           in if r \<noteq> OK_CONTINUE then (r, st1) else local_loop lib o1 err es st1))"

definition dump_local_log_entries :: "evlib \<Rightarrow> opts \<Rightarrow> u64 \<Rightarrow> local_file \<Rightarrow> ps \<Rightarrow> Exit_status \<times> ps" where
  "dump_local_log_entries lib o1 start_position f st =
     (if \<not> lf_open f then (ERROR_STOP, st)
      else let (r, st1) = check_header lib o1 start_position f st
           in if r \<noteq> OK_CONTINUE then (r, st1)
              else local_loop lib o1 (lf_error f) (dropWhile (\<lambda>e. le_pos e < start_position) (lf_entries f)) st1)"

section \<open>One log\<close>

definition with_print_options :: "ropts \<Rightarrow> opts \<Rightarrow> opts" where
  "with_print_options r1 o1 =
     (if (short_form o1 \<or> opt_flashback o1) \<and> \<not> print_row_event_positions_used r1
      then o1\<lparr>print_row_event_positions := False\<rparr> else o1)"

definition new_print_info :: "ropts \<Rightarrow> opts \<Rightarrow> PRINT_EVENT_INFO \<Rightarrow> PRINT_EVENT_INFO" where
  "new_print_info r1 o1 p =
     p\<lparr>delimiter := ''/*!*/;'',
       print_row_count := opt_print_row_count r1 \<and> (short_form o1 \<longrightarrow> print_row_count_used r1)\<rparr>"

text \<open>\<open>fresh\<close> is what the constructor of \<open>PRINT_EVENT_INFO\<close> makes, \<open>source\<close> the reading of the log.\<close>

definition dump_log_entries :: "opts \<Rightarrow> ropts \<Rightarrow> PRINT_EVENT_INFO \<Rightarrow> (opts \<Rightarrow> ps \<Rightarrow> (Exit_status \<times> ps) res) \<Rightarrow> ps
    \<Rightarrow> (Exit_status \<times> ps) res" where
  "dump_log_entries o1 r1 fresh source st =
     (let st1 = (if opt_raw_mode r1 then st else put (''DELIMITER /*!*/;'' @ [NL]) st)
      in and_then (source (with_print_options r1 o1) (st1\<lparr>pinfo := new_print_info r1 o1 fresh\<rparr>)) (\<lambda>(r, st2).
           if r = ERROR_STOP then Inr (r, st2)
           else Inr (r, if \<not> opt_raw_mode r1 \<and> \<not> opt_flashback o1 then put (''DELIMITER ;'' @ [NL]) st2 else st2)))"

definition session_start :: "ropts \<Rightarrow> string" where
  "session_start r1 =
     ''/*!50530 SET @@SESSION.PSEUDO_SLAVE_MODE=1*/;'' @ [NL]
     @ ''/*!40019 SET @@session.max_insert_delayed_threads=0*/;'' @ [NL]
     @ (if disable_log_bin r1 then ''/*!32316 SET @OLD_SQL_LOG_BIN=@@SQL_LOG_BIN, SQL_LOG_BIN=0*/;'' @ [NL] else [])
     @ ''/*!50003 SET @OLD_COMPLETION_TYPE=@@COMPLETION_TYPE,COMPLETION_TYPE=0*/;'' @ [NL]
     @ (case charset r1 of None \<Rightarrow> []
        | Some cs \<Rightarrow> [NL] @ ''/*!40101 SET @OLD_CHARACTER_SET_CLIENT=@@CHARACTER_SET_CLIENT */;''
            @ [NL] @ ''/*!40101 SET @OLD_CHARACTER_SET_RESULTS=@@CHARACTER_SET_RESULTS */;''
            @ [NL] @ ''/*!40101 SET @OLD_COLLATION_CONNECTION=@@COLLATION_CONNECTION */;''
            @ [NL] @ ''/*!40101 SET NAMES '' @ cs @ '' */;'' @ [NL])"

definition session_end :: "ropts \<Rightarrow> string" where
  "session_end r1 =
     ''# End of log file'' @ [NL] @ ''ROLLBACK /* added by mysqlbinlog */;'' @ [NL]
     @ ''/*!50003 SET COMPLETION_TYPE=@OLD_COMPLETION_TYPE*/;'' @ [NL]
     @ (if disable_log_bin r1 then ''/*!32316 SET SQL_LOG_BIN=@OLD_SQL_LOG_BIN*/;'' @ [NL] else [])
     @ (case charset r1 of None \<Rightarrow> []
        | Some cs \<Rightarrow> ''/*!40101 SET CHARACTER_SET_CLIENT=@OLD_CHARACTER_SET_CLIENT */;'' @ [NL]
            @ ''/*!40101 SET CHARACTER_SET_RESULTS=@OLD_CHARACTER_SET_RESULTS */;'' @ [NL]
            @ ''/*!40101 SET COLLATION_CONNECTION=@OLD_COLLATION_CONNECTION */;'' @ [NL])
     @ ''/*!50530 SET @@SESSION.PSEUDO_SLAVE_MODE=0*/;'' @ [NL]"

definition flashback_output :: "opts \<Rightarrow> ps \<Rightarrow> ps" where
  "flashback_output o1 st =
     (if opt_flashback o1
      then (put (concat (rev (binlog_events st)) @ ''COMMIT'' @ [NL] @ ''/*!*/;'' @ [NL]) st)
             \<lparr>binlog_events := [], events_in_stmt := []\<rparr>
      else st)"

text \<open>What is printed behind the events of a log.\<close>

definition close_log :: "opts \<Rightarrow> ropts \<Rightarrow> Exit_status \<Rightarrow> ps \<Rightarrow> ps" where
  "close_log o1 r1 r st =
     (if r = ERROR_STOP then st
      else
        let st1 = flashback_output o1 st;
            st2 = put (stop_event_string st1
                       @ (if \<not> opt_raw_mode r1 \<and> opt_flashback o1 then ''DELIMITER ;'' @ [NL] else [])) st1
        in if opt_raw_mode r1 then st2 else put (session_end r1) st2)"

definition StartReadBinLog :: "opts \<Rightarrow> ropts \<Rightarrow> PRINT_EVENT_INFO \<Rightarrow> (opts \<Rightarrow> u32 \<Rightarrow> string \<Rightarrow> ps \<Rightarrow> (Exit_status \<times> ps) res)
    \<Rightarrow> string \<Rightarrow> u32 \<Rightarrow> u32 \<Rightarrow> ps \<Rightarrow> (Exit_status \<times> ps) res" where
  "StartReadBinLog o0 r1 fresh source logname start_position idx st =
     (let o1 = o0\<lparr>l_ulIndex := idx\<rparr>;
          st1 = put (start_binlog_mark logname idx @ [NL]) st;
          st2 = (if opt_raw_mode r1 then st1 else put (session_start r1) st1)
      in and_then (dump_log_entries o1 r1 fresh (\<lambda>o2. source o2 start_position logname) st2) (\<lambda>(r, st3).
           Inr (r, put (end_binlog_mark logname idx @ [NL]) (close_log o1 r1 r st3))))"

section \<open>No event ends the reading as end of file\<close>

definition status_of :: "after \<Rightarrow> Exit_status" where
  "status_of a = (case a of To_end s there \<Rightarrow> s | Returns s \<Rightarrow> s)"

lemma status_of_simps [simp]: "status_of (To_end s b) = s" "status_of (Returns s) = s" "status_of goto_err = ERROR_STOP"
  by (simp_all add: status_of_def goto_err_def)

lemma write_and_close_no_eof [simp]: "fst (write_and_close env f b lp) \<noteq> OK_EOF"
  by (simp add: write_and_close_def split_beta Let_def)

lemma process_first_event_no_eof [simp]: "fst (process_first_event env n b i ce lp) \<noteq> OK_EOF"
  by (simp add: process_first_event_def split: option.split prod.split)

lemma load_no_eof [simp]:
  "fst (process_Create_file env ce lp) \<noteq> OK_EOF" "fst (process_Begin_load_query env b i lp) \<noteq> OK_EOF"
  "fst (process_Append_block env b i lp) \<noteq> OK_EOF"
  by (simp_all add: process_Create_file_def process_Begin_load_query_def process_Append_block_def split: option.split)

lemma header_no_eof [simp]: "fst (write_event_header_and_base64 lib ev st) \<noteq> OK_EOF"
  by (simp add: write_event_header_and_base64_def Let_def split_beta)

named_theorems no_eof "the cases of process_event do not answer end of file"

lemma query_no_eof [no_eof]: "status_of (fst (on_query_event lib o1 pos ev st)) \<noteq> OK_EOF"
  by (simp add: on_query_event_def Let_def split_beta)

lemma create_file_no_eof [no_eof]: "status_of (fst (on_create_file_event lib o1 ev st)) \<noteq> OK_EOF"
  by (simp add: on_create_file_event_def Let_def split_beta)

lemma append_block_no_eof [no_eof]: "status_of (fst (on_append_block_event lib ev st)) \<noteq> OK_EOF"
  by (simp add: on_append_block_event_def Let_def split_beta)

lemma exec_load_no_eof [no_eof]: "status_of (fst (on_exec_load_event lib ev st)) \<noteq> OK_EOF"
  by (simp add: on_exec_load_event_def Let_def split_beta split: option.split)

lemma format_description_no_eof [no_eof]: "status_of (fst (on_format_description_event lib o1 ev st)) \<noteq> OK_EOF"
  by (simp add: on_format_description_event_def Let_def split_beta)

lemma begin_load_query_no_eof [no_eof]: "status_of (fst (on_begin_load_query_event lib ev st)) \<noteq> OK_EOF"
  by (simp add: on_begin_load_query_event_def Let_def split_beta)

lemma execute_load_query_no_eof [no_eof]: "status_of (fst (on_execute_load_query_event lib o1 ev st)) \<noteq> OK_EOF"
  by (simp add: on_execute_load_query_event_def Let_def split_beta split: option.split)

lemma other_cases_no_eof [no_eof]:
  "status_of (fst (on_annotate_rows_event o1 ev st)) \<noteq> OK_EOF"
  "status_of (fst (on_table_map_event lib o1 ev st)) \<noteq> OK_EOF"
  "status_of (fst (on_rows_event lib o1 pos ev st)) \<noteq> OK_EOF"
  "status_of (fst (on_old_rows_event lib o1 pos ev st)) \<noteq> OK_EOF"
  "status_of (fst (on_other_event lib o1 pos ev st)) \<noteq> OK_EOF"
  by (simp_all add: on_annotate_rows_event_def on_table_map_event_def on_rows_event_def on_old_rows_event_def
      on_other_event_def Let_def split_beta)

lemma process_event_no_eof: "fst (process_event lib o1 pos ev st) \<noteq> OK_EOF"
proof -
  have "status_of (fst (event_case lib o1 pos ev s)) \<noteq> OK_EOF" for s
    by (simp add: event_case_def Let_def no_eof)
  moreover have "fst (finish_event o1 ev r) = status_of (fst r)" for r
    by (simp add: finish_event_def Let_def status_of_def split: prod.split after.split)
  ultimately show ?thesis by (simp add: process_event_def Let_def)
qed

section \<open>The result file only grows\<close>

definition appends :: "string \<Rightarrow> ps \<Rightarrow> bool" where
  "appends r st \<longleftrightarrow> prefix r (result_file st)"

lemma appends_refl [simp]: "appends (result_file st) st"
  by (simp add: appends_def)

lemma appends_put [simp, intro]: "appends r st \<Longrightarrow> appends r (put s st)"
  by (simp add: appends_def)

lemma appends_fields [simp]:
  "appends r (st\<lparr>pinfo := p\<rparr>) = appends r st" "appends r (st\<lparr>load_processor := l\<rparr>) = appends r st"
  "appends r (st\<lparr>events_in_stmt := es\<rparr>) = appends r st" "appends r (st\<lparr>annotate_event := a\<rparr>) = appends r st"
  "appends r (st\<lparr>output_buf := b\<rparr>) = appends r st" "appends r (st\<lparr>binlog_version := v\<rparr>) = appends r st"
  "appends r (st\<lparr>fd_in_use := u\<rparr>) = appends r st" "appends r (st\<lparr>rec_count := n\<rparr>) = appends r st"
  "appends r (st\<lparr>start_datetime := t\<rparr>) = appends r st" "appends r (st\<lparr>offset := n\<rparr>) = appends r st"
  "appends r (st\<lparr>stop_event_string := s\<rparr>) = appends r st" "appends r (st\<lparr>binlog_events := bs\<rparr>) = appends r st"
  by (simp_all add: appends_def)

lemma appends_printed [simp]: "appends r st \<Longrightarrow> appends r (snd (printed_to x st))"
  by (simp add: printed_to_def appends_def split: prod.split)

lemma appends_helpers [simp]:
  "appends r st \<Longrightarrow> appends r (print_use_stmt lib o1 ev st)"
  "appends r st \<Longrightarrow> appends r (print_skip_replication_statement ev st)"
  "appends r st \<Longrightarrow> appends r (flush_caches st)"
  "appends r st \<Longrightarrow> appends r (announce o1 pos st)"
  "appends r st \<Longrightarrow> appends r (print_annotate_event lib st)"
  "appends r st \<Longrightarrow> appends r (put_stmt_mark o1 pos ev st)"
  by (simp_all add: print_use_stmt_def print_skip_replication_statement_def flush_caches_def announce_def
      print_annotate_event_def put_stmt_mark_def Let_def split: option.split prod.split)

lemma appends_base64 [simp]: "appends r st \<Longrightarrow> appends r (snd (print_base64 lib o1 ev st))"
  by (simp add: print_base64_def)

lemma appends_header [simp]: "appends r st \<Longrightarrow> appends r (snd (write_event_header_and_base64 lib ev st))"
  by (simp add: write_event_header_and_base64_def Let_def split_beta)

lemma appends_back [simp]: "appends r st \<Longrightarrow> appends r (snd (print_back lib o1 es f st))"
  by (induction es arbitrary: f st) (simp_all add: Let_def split_beta)

lemma appends_row [simp]: "appends r st \<Longrightarrow> appends r (snd (print_row_event lib o1 ev i e st))"
  by (simp add: print_row_event_def Let_def split_beta collect_row_event_def end_of_stmt_def)

lemma appends_query [simp]: "appends r st \<Longrightarrow> appends r (snd (on_query_event lib o1 pos ev st))"
  by (simp add: on_query_event_def ignore_table_map_def Let_def split_beta split: option.split)

lemma appends_create_file [simp]: "appends r st \<Longrightarrow> appends r (snd (on_create_file_event lib o1 ev st))"
  by (simp add: on_create_file_event_def ignore_table_map_def Let_def split_beta split: option.split)

lemma appends_append_block [simp]: "appends r st \<Longrightarrow> appends r (snd (on_append_block_event lib ev st))"
  by (simp add: on_append_block_event_def ignore_table_map_def Let_def split_beta split: option.split)

lemma appends_exec_load [simp]: "appends r st \<Longrightarrow> appends r (snd (on_exec_load_event lib ev st))"
  by (simp add: on_exec_load_event_def ignore_table_map_def Let_def split_beta split: option.split)

lemma appends_format_descriptievent [simp]: "appends r st \<Longrightarrow> appends r (snd (on_format_description_event lib o1 ev st))"
  by (simp add: on_format_description_event_def ignore_table_map_def Let_def split_beta split: option.split)

lemma appends_begin_load_query [simp]: "appends r st \<Longrightarrow> appends r (snd (on_begin_load_query_event lib ev st))"
  by (simp add: on_begin_load_query_event_def ignore_table_map_def Let_def split_beta split: option.split)

lemma appends_execute_load_query [simp]: "appends r st \<Longrightarrow> appends r (snd (on_execute_load_query_event lib o1 ev st))"
  by (simp add: on_execute_load_query_event_def ignore_table_map_def Let_def split_beta split: option.split)

lemma appends_annotate_rows [simp]: "appends r st \<Longrightarrow> appends r (snd (on_annotate_rows_event o1 ev st))"
  by (simp add: on_annotate_rows_event_def ignore_table_map_def Let_def split_beta split: option.split)

lemma appends_table_map [simp]: "appends r st \<Longrightarrow> appends r (snd (on_table_map_event lib o1 ev st))"
  by (simp add: on_table_map_event_def ignore_table_map_def Let_def split_beta split: option.split)

lemma appends_rows [simp]: "appends r st \<Longrightarrow> appends r (snd (on_rows_event lib o1 pos ev st))"
  by (simp add: on_rows_event_def ignore_table_map_def Let_def split_beta split: option.split)

lemma appends_old_rows [simp]: "appends r st \<Longrightarrow> appends r (snd (on_old_rows_event lib o1 pos ev st))"
  by (simp add: on_old_rows_event_def ignore_table_map_def Let_def split_beta split: option.split)

lemma appends_other [simp]: "appends r st \<Longrightarrow> appends r (snd (on_other_event lib o1 pos ev st))"
  by (simp add: on_other_event_def ignore_table_map_def Let_def split_beta split: option.split)

lemma appends_event_case: "appends r st \<Longrightarrow> appends r (snd (event_case lib o1 pos ev st))"
  by (simp add: event_case_def Let_def)

lemma appends_finish: "appends r (snd x) \<Longrightarrow> appends r (snd (finish_event o1 ev x))"
  by (cases x) (auto simp: finish_event_def hold_output_def Let_def split: after.split)

lemma appends_process_event [simp]: "appends r st \<Longrightarrow> appends r (snd (process_event lib o1 pos ev st))"
  unfolding process_event_def by (rule appends_finish) (simp add: appends_event_case Let_def)

lemma appends_process_event': "process_event lib o1 pos ev st = (s, st') \<Longrightarrow> appends r st \<Longrightarrow> appends r st'"
  using appends_process_event [of r st lib o1 pos ev] by simp

lemma appends_remote_loop:
  "remote_loop lib o1 r1 ol logname ps off st = Inr (s, st') \<Longrightarrow> appends r st \<Longrightarrow> appends r st'"
proof (induction ps arbitrary: off st)
  case (Cons x ps)
  obtain q p where x: "x = (q, p)" by (cases x)
  show ?case
  proof (cases p)
    case (Net_event len ev ident)
    show ?thesis
    proof (cases q)
      case False
      obtain s1 len1 st1 where h: "handle_event_text_mode lib o1 r1 ol logname off len ev ident st = Inr (s1, len1, st1)"
        using Cons.prems(1) x Net_event False by (auto elim!: and_then_eq_InrE)
      then have "appends r st1" using Cons.prems(2)
        by (auto simp: handle_event_text_mode_def load_old_event_def Let_def split: option.splits if_splits prod.splits
            elim!: and_then_eq_InrE dest: appends_process_event')
      then show ?thesis using Cons.prems(1) x Net_event False h Cons.IH by (auto split: if_splits)
    qed (use Cons.prems x in auto)
  qed (use Cons.prems x in \<open>auto split: if_splits\<close>)
qed simp

lemma check_master_version_fields:
  "check_master_version a st = Inr (s, st') \<Longrightarrow> appends r st' = appends r st"
  by (auto simp: check_master_version_def Let_def split: if_splits option.splits elim!: and_then_eq_InrE)

lemma appends_remote:
  "dump_remote_log_entries lib o1 r1 sv pos name st = Inr (s, st') \<Longrightarrow> \<not> opt_raw_mode r1 \<Longrightarrow> appends r st \<Longrightarrow> appends r st'"
proof -
  assume a: "dump_remote_log_entries lib o1 r1 sv pos name st = Inr (s, st')" "appends r st" "\<not> opt_raw_mode r1"
  show "appends r st'"
  proof (cases "safe_connect sv = OK_CONTINUE")
    case True
    then obtain s1 st1 where c: "check_master_version (version sv) st = Inr (s1, st1)"
      using a(1) by (auto simp: dump_remote_log_entries_def elim!: and_then_eq_InrE)
    then have "appends r st1" using check_master_version_fields [OF c] a(2) by simp
    then show ?thesis using a(1,3) True c appends_remote_loop [of lib o1 r1 "old sv" name "packets sv" "ucast pos" st1 s st' r]
      by (auto simp: dump_remote_log_entries_def split: if_splits)
  qed (use a in \<open>auto simp: dump_remote_log_entries_def\<close>)
qed

lemma appends_close_log: "appends r st \<Longrightarrow> appends r (close_log o1 r1 s st)"
  by (simp add: close_log_def flashback_output_def Let_def)

section \<open>Properties\<close>

text \<open>Events with their offsets in the file that the server reads.\<close>

fun at_offsets :: "u64 \<Rightarrow> (u32 \<times> Log_event) list \<Rightarrow> (u64 \<times> Log_event) list" where
  "at_offsets off [] = []"
| "at_offsets off ((len, e) # es) = (off, e) # at_offsets (off + ucast (len - 1)) es"

definition logged :: "Log_event \<Rightarrow> bool" where
  "logged e \<longleftrightarrow> \<not> is_fake_rotate e \<and> ev_type e \<notin> {FORMAT_DESCRIPTION_EVENT, LOAD_EVENT, CREATE_FILE_EVENT}"

definition sent :: "(u32 \<times> Log_event) list \<Rightarrow> (bool \<times> net_packet) list" where
  "sent es = map (\<lambda>(len, e). (False, Net_event len (Some e) [])) es"

lemma remote_loop_events:
  "\<forall>(len, e) \<in> set es. logged e \<Longrightarrow>
     remote_loop lib o1 r1 ol logname (sent es @ [(False, Net_end)]) off st = Inr (process_events lib o1 (at_offsets off es) st)"
proof (induction es arbitrary: off st)
  case Nil
  then show ?case by (simp add: sent_def)
next
  case (Cons x es)
  obtain len e where x: "x = (len, e)" by (cases x)
  obtain r st1 where r: "process_event lib o1 off e st = (r, st1)" by fastforce
  have "r \<noteq> OK_EOF" using process_event_no_eof [of lib o1 off e st] r by simp
  moreover have "handle_event_text_mode lib o1 r1 ol logname off len (Some e) [] st = Inr (r, len, st1)"
    using Cons.prems x r by (auto simp: handle_event_text_mode_def logged_def Let_def)
  ultimately show ?case using Cons x r by (simp add: sent_def)
qed

text \<open>C17: the positions of a remote log: when the server sends what it sends to a client that asks for
  a log from a position behind its start, a rotate event made up for the log, a format description
  event made up for the position, the events of the log from there on and the end of the data, then
  the result is the one of processing the events of the log with their offsets in the file: the events
  made up do not move the offset, and the first rotate event is not processed.\<close>

theorem remote_positions:
  assumes "is_fake_rotate rot" and "ev_type fd = FORMAT_DESCRIPTION_EVENT" and "start_position \<noteq> 4"
    and "\<not> to_last_remote_log r1" and "\<forall>(len, e) \<in> set es. logged e"
  shows "remote_loop lib o1 r1 ol logname
           ((False, Net_event l1 (Some rot) logname) # (False, Net_event l2 (Some fd) []) # sent es @ [(False, Net_end)])
           start_position st
       = Inr (process_events lib o1 ((start_position, fd) # at_offsets start_position es) st)"
proof -
  obtain r st1 where r: "process_event lib o1 start_position fd st = (r, st1)" by fastforce
  have "r \<noteq> OK_EOF" using process_event_no_eof [of lib o1 start_position fd st] r by simp
  moreover have "handle_event_text_mode lib o1 r1 ol logname start_position l1 (Some rot) logname st = Inr (OK_CONTINUE, 1, st)"
    using assms(1,4) by (auto simp: handle_event_text_mode_def is_fake_rotate_def LOAD_EVENT_def)
  moreover have "handle_event_text_mode lib o1 r1 ol logname start_position l2 (Some fd) [] st = Inr (r, 1, st1)"
    using assms(2,3) r by (simp add: handle_event_text_mode_def is_fake_rotate_def LOAD_EVENT_def Let_def)
  ultimately show ?thesis
    using remote_loop_events [OF assms(5), of lib o1 r1 ol logname start_position st1] r by simp
qed

definition demo_ropts :: ropts where
  "demo_ropts = \<lparr>opt_raw_mode = False, remote_opt = True, to_last_remote_log = False, opt_stop_never = False,
     opt_stop_never_slave_server_id = 0, disable_log_bin = False, charset = None, print_row_count_used = False,
     print_row_event_positions_used = False, opt_print_row_count = False\<rparr>"

definition demo_old :: old_load where
  "demo_old = \<lparr>old_file = None, old_asked = False, old_acked = False, old_packets = [], old_fname = []\<rparr>"

theorem remote_positions_witness:
  "\<exists>st. remote_loop demo_lib demo_opts demo_ropts demo_old ''bin.000001''
      [(False, Net_event 40 (Some (demo_event ROTATE_EVENT 0 [])) ''bin.000001''),
       (False, Net_event 100 (Some (demo_event FORMAT_DESCRIPTION_EVENT 30 [])) []),
       (False, Net_event 61 (Some (demo_event GTID_EVENT 30 [])) []),
       (False, Net_event 31 (Some (demo_event XID_EVENT 30 [])) []), (False, Net_end)] 400 demo_ps
     = Inr (OK_CONTINUE, st)
     \<and> result_file st = begin_mark 400 100 1 @ NL # commit_mark 460 100 7 1 @ [NL]"
proof -
  let ?fd = "demo_event FORMAT_DESCRIPTION_EVENT 30 []"
  let ?es = "[(61, demo_event GTID_EVENT 30 []), (31, demo_event XID_EVENT 30 [])]"
  have "is_fake_rotate (demo_event ROTATE_EVENT 0 [])" "ev_type ?fd = FORMAT_DESCRIPTION_EVENT" "\<not> to_last_remote_log demo_ropts"
    "\<forall>(len, e) \<in> set ?es. logged e"
    by (simp_all add: is_fake_rotate_def demo_event_def demo_ropts_def logged_def LOAD_EVENT_def)
  from remote_positions [OF this(1,2) _ this(3,4), of 400 demo_lib demo_opts demo_old "''bin.000001''" 40 100 demo_ps]
  show ?thesis
    by (simp add: sent_def process_event_def wanted_def finish_event_def event_case_def on_format_description_event_def
        on_other_event_def announce_def printed_to_def demo_lib_def demo_ps_def demo_pinfo_def demo_event_def demo_opts_def
        is_rows_event_def is_old_rows_event_def print_skip_replication_statement_def hold_output_def Let_def)
qed

text \<open>C37: every reading of a log from a server as text is framed: whatever the server does, when the reading returns, the
  output for the log begins with the mark of its start and ends with the mark of its end. So the listener sees the end
  of a log whose reading failed, too. In raw mode, which the capture never asks for, the end's mark
  goes to the file that was written last (\<open>raw_mode_diverts\<close>).\<close>

theorem reading_is_framed:
  assumes "StartReadBinLog o1 r1 fresh (\<lambda>o2. dump_remote_log_entries lib o2 r1 sv) name pos idx st = Inr (r, st')"
    and "\<not> opt_raw_mode r1"
  shows "\<exists>body. result_file st' = result_file st @ start_binlog_mark name idx @ NL # body @ end_binlog_mark name idx @ [NL]"
proof -
  let ?m = "result_file st @ start_binlog_mark name idx @ [NL]"
  let ?st1 = "put (start_binlog_mark name idx @ [NL]) st"
  let ?st2 = "if opt_raw_mode r1 then ?st1 else put (session_start r1) ?st1"
  obtain s st3 where d: "dump_log_entries (o1\<lparr>l_ulIndex := idx\<rparr>) r1 fresh
      (\<lambda>o2. dump_remote_log_entries lib o2 r1 sv pos name) ?st2 = Inr (s, st3)"
    and st': "st' = put (end_binlog_mark name idx @ [NL]) (close_log (o1\<lparr>l_ulIndex := idx\<rparr>) r1 s st3)"
    using assms(1) by (auto simp: StartReadBinLog_def Let_def elim!: and_then_eq_InrE)
  have "appends ?m ?st2" by (simp add: appends_def)
  then have "appends ?m st3"
    using d assms(2) by (auto simp: dump_log_entries_def Let_def split: if_splits elim!: and_then_eq_InrE dest!: appends_remote [where r = ?m])
  then have "appends ?m (close_log (o1\<lparr>l_ulIndex := idx\<rparr>) r1 s st3)" by (rule appends_close_log)
  then show ?thesis using st' by (auto simp: appends_def prefix_def)
qed

definition demo_raw_source :: raw_source where
  "demo_raw_source = \<lparr>rs_env = ll_env demo_lib, rs_files = (\<lambda>_. None), rs_stdout = ''out'', rs_out_file_name = ''r.b'',
     rs_output_prefix = ''r.'', rs_packets = [(False, Raw_event 40 FORMAT_DESCRIPTION_EVENT ''bytes''
       (Some (demo_event FORMAT_DESCRIPTION_EVENT 30 [])) []), (False, Raw_end)]\<rparr>"

definition demo_server :: server where
  "demo_server = \<lparr>safe_connect = ERROR_STOP, version = \<lparr>version_ok = False, version_row = None, checksum_ok = False,
     capability_ok = False\<rparr>, command_ok = False, packets = [], old = demo_old, raw_source = demo_raw_source\<rparr>"

theorem reading_is_framed_witness:
  "\<exists>st' body. StartReadBinLog demo_opts demo_ropts demo_pinfo (\<lambda>o2. dump_remote_log_entries demo_lib o2 demo_ropts demo_server)
       ''b'' 4 1 demo_ps = Inr (ERROR_STOP, st')
     \<and> result_file st' = start_binlog_mark ''b'' 1 @ NL # body @ end_binlog_mark ''b'' 1 @ [NL]"
proof -
  obtain st' where s: "StartReadBinLog demo_opts demo_ropts demo_pinfo
      (\<lambda>o2. dump_remote_log_entries demo_lib o2 demo_ropts demo_server) ''b'' 4 1 demo_ps = Inr (ERROR_STOP, st')"
    by (simp add: StartReadBinLog_def dump_log_entries_def dump_remote_log_entries_def demo_server_def close_log_def Let_def)
  have "result_file demo_ps = []" by (simp add: demo_ps_def)
  moreover have "\<not> opt_raw_mode demo_ropts" by (simp add: demo_ropts_def)
  ultimately show ?thesis using s reading_is_framed [OF s] by auto
qed

text \<open>In raw mode the output behind the description of a log is that of another file: what was printed before is not in it.\<close>

lemma raw_mode_diverts:
  "\<exists>st'. read_raw (demo_ropts\<lparr>opt_raw_mode := True\<rparr>) demo_raw_source ''b'' (demo_ps\<lparr>result_file := ''mark''\<rparr>) = Inr (OK_CONTINUE, st')
     \<and> result_file st' = BINLOG_MAGIC @ ''bytes''"
  by (simp add: read_raw_def demo_raw_source_def handle_event_raw_mode_def open_raw_file_def raw_write_def my_write_def demo_lenv_def
      demo_lib_def demo_event_def HEARTBEAT_LOG_EVENT_def)

end
