(* ===== verification/Library_Main.thy ===== *)
theory Library_Main
  imports Reader
begin

text \<open>
  The options of the library and its entry points in \<open>ddmysqlbinlog.cc\<close>: the table
  \<open>my_options\<close>, \<open>get_one_option\<close>, \<open>parse_args\<close>, \<open>InitRemoteReadBinLog\<close>, which the capture calls
  once with a fixed list of arguments, \<open>FreeReadBinLog\<close>, and \<open>main_binlog\<close>, the main program of
  the tool from which the library was made.

  The parser of the command line and of the option files (\<open>handle_options\<close>, \<open>load_defaults\<close>) is not
  part of the repository: options come parsed, with values of their types, those of the option
  files before those of the program, and \<open>handle_options\<close> is a parameter, of which the lemmas assume
  what its documentation says: it takes the options in their order. The conversion of a date and the
  question for a password are parameters. Options for debugging, \<open>SSL\<close>, character set files and
  the number of open files are left out, as are help, version and error messages.
\<close>

section \<open>Options\<close>

text \<open>A value of an enumeration is its position from 1, and 0 or less when the name is not known.\<close>

datatype cl_option =
    Opt_help
  | Opt_base64_output "int option"
  | Opt_database string
  | Opt_default_auth string
  | Opt_disable_log_bin bool
  | Opt_flashback bool
  | Opt_force_if_open bool
  | Opt_force_read bool
  | Opt_hexdump bool
  | Opt_host string
  | Opt_local_load string
  | Opt_offset u64
  | Opt_password "string option"
  | Opt_no_password
  | Opt_plugin_dir string
  | Opt_port int
  | Opt_protocol int
  | Opt_read_from_remote_server bool
  | Opt_raw bool
  | Opt_result_file string
  | Opt_print_row_count bool
  | Opt_print_row_event_positions bool
  | Opt_server_id u32
  | Opt_set_charset string
  | Opt_short_form bool
  | Opt_socket string
  | Opt_start_datetime string
  | Opt_start_position u64
  | Opt_stop_datetime string
  | Opt_stop_never bool
  | Opt_stop_never_slave_server_id u32
  | Opt_stop_position u64
  | Opt_table string
  | Opt_to_last_log bool
  | Opt_user string
  | Opt_verbose bool
  | Opt_version
  | Opt_verify_binlog_checksum bool
  | Opt_rewrite_db string
  | Opt_skip_annotate_row_events bool

record lopts =
  event_opts :: opts
  read_opts :: ropts
  lo_start_position :: u64
  lo_start_datetime :: int
  lo_offset :: u64
  rewrite_db :: "(string \<times> string) list"
  host :: "string option"
  user :: "string option"
  pass :: "string option"
  port :: int
  sock :: "string option"
  opt_protocol :: u32
  opt_plugindir :: "string option"
  opt_default_auth :: "string option"
  verbose :: u32
  opt_version :: bool
  one_database :: bool
  one_table :: bool
  force_opt :: bool
  opt_verify_binlog_checksum :: bool
  result_file_name :: "string option"
  dirname_for_local_load :: "string option"

text \<open>The values that the table gives to the variables.\<close>

definition new_opts :: opts where
  "new_opts = \<lparr>database = None, table = None, server_id = 0, stop_datetime = long_max,
     stop_position = - 1, print_row_event_positions = True,
     opt_base64_output_mode = BASE64_OUTPUT_UNSPEC, short_form = False, opt_hexdump = False, opt_flashback = False,
     opt_skip_annotate_row_events = False, force_if_open_opt = True, get_rewrite_db = (\<lambda>_. []), l_ulIndex = 0\<rparr>"

definition new_ropts :: ropts where
  "new_ropts = \<lparr>opt_raw_mode = False, remote_opt = False, to_last_remote_log = False, opt_stop_never = False,
     opt_stop_never_slave_server_id = 0, disable_log_bin = False, charset = None, print_row_count_used = False,
     print_row_event_positions_used = False, opt_print_row_count = True\<rparr>"

definition new_lopts :: lopts where
  "new_lopts = \<lparr>event_opts = new_opts, read_opts = new_ropts, lo_start_position = 4, lo_start_datetime = 0,
     lo_offset = 0, rewrite_db = [], host = None, user = None, pass = None, port = 0, sock = None, opt_protocol = 0,
     opt_plugindir = None, opt_default_auth = None, verbose = 0, opt_version = False, one_database = False,
     one_table = False, force_opt = False, opt_verify_binlog_checksum = False, result_file_name = None,
     dirname_for_local_load = None\<rparr>"

definition on_events :: "(opts \<Rightarrow> opts) \<Rightarrow> lopts \<Rightarrow> lopts" where
  "on_events f st = st\<lparr>event_opts := f (event_opts st)\<rparr>"

definition on_reading :: "(ropts \<Rightarrow> ropts) \<Rightarrow> lopts \<Rightarrow> lopts" where
  "on_reading f st = st\<lparr>read_opts := f (read_opts st)\<rparr>"

text \<open>The variable of an option in the table; positions have a smallest value.\<close>

fun store_option :: "cl_option \<Rightarrow> lopts \<Rightarrow> lopts" where
  "store_option (Opt_database s) st = on_events (\<lambda>p. p\<lparr>database := Some s\<rparr>) st"
| "store_option (Opt_default_auth s) st = st\<lparr>opt_default_auth := Some s\<rparr>"
| "store_option (Opt_disable_log_bin b) st = on_reading (\<lambda>r. r\<lparr>disable_log_bin := b\<rparr>) st"
| "store_option (Opt_flashback b) st = on_events (\<lambda>p. p\<lparr>opt_flashback := b\<rparr>) st"
| "store_option (Opt_force_if_open b) st = on_events (\<lambda>p. p\<lparr>force_if_open_opt := b\<rparr>) st"
| "store_option (Opt_force_read b) st = st\<lparr>force_opt := b\<rparr>"
| "store_option (Opt_hexdump b) st = on_events (\<lambda>p. p\<lparr>opt_hexdump := b\<rparr>) st"
| "store_option (Opt_host s) st = st\<lparr>host := Some s\<rparr>"
| "store_option (Opt_local_load s) st = st\<lparr>dirname_for_local_load := Some s\<rparr>"
| "store_option (Opt_offset n) st = st\<lparr>lo_offset := n\<rparr>"
| "store_option (Opt_plugin_dir s) st = st\<lparr>opt_plugindir := Some s\<rparr>"
| "store_option (Opt_port n) st = st\<lparr>port := n\<rparr>"
| "store_option (Opt_read_from_remote_server b) st = on_reading (\<lambda>r. r\<lparr>remote_opt := b\<rparr>) st"
| "store_option (Opt_raw b) st = on_reading (\<lambda>r. r\<lparr>opt_raw_mode := b\<rparr>) st"
| "store_option (Opt_result_file s) st = st\<lparr>result_file_name := Some s\<rparr>"
| "store_option (Opt_print_row_count b) st = on_reading (\<lambda>r. r\<lparr>opt_print_row_count := b\<rparr>) st"
| "store_option (Opt_print_row_event_positions b) st = on_events (\<lambda>p. p\<lparr>print_row_event_positions := b\<rparr>) st"
| "store_option (Opt_server_id n) st = on_events (\<lambda>p. p\<lparr>server_id := n\<rparr>) st"
| "store_option (Opt_set_charset s) st = on_reading (\<lambda>r. r\<lparr>charset := Some s\<rparr>) st"
| "store_option (Opt_short_form b) st = on_events (\<lambda>p. p\<lparr>short_form := b\<rparr>) st"
| "store_option (Opt_socket s) st = st\<lparr>sock := Some s\<rparr>"
| "store_option (Opt_start_position n) st = st\<lparr>lo_start_position := max 4 n\<rparr>"
| "store_option (Opt_stop_never b) st = on_reading (\<lambda>r. r\<lparr>opt_stop_never := b\<rparr>) st"
| "store_option (Opt_stop_never_slave_server_id n) st = on_reading (\<lambda>r. r\<lparr>opt_stop_never_slave_server_id := n\<rparr>) st"
| "store_option (Opt_stop_position n) st = on_events (\<lambda>p. p\<lparr>stop_position := max 4 n\<rparr>) st"
| "store_option (Opt_table s) st = on_events (\<lambda>p. p\<lparr>table := Some s\<rparr>) st"
| "store_option (Opt_to_last_log b) st = on_reading (\<lambda>r. r\<lparr>to_last_remote_log := b\<rparr>) st"
| "store_option (Opt_user s) st = st\<lparr>user := Some s\<rparr>"
| "store_option (Opt_verify_binlog_checksum b) st = st\<lparr>opt_verify_binlog_checksum := b\<rparr>"
| "store_option (Opt_skip_annotate_row_events b) st = on_events (\<lambda>p. p\<lparr>opt_skip_annotate_row_events := b\<rparr>) st"
| "store_option opt st = st"

section \<open>Renamed databases\<close>

definition add_db_rewrite :: "string \<Rightarrow> string \<Rightarrow> lopts \<Rightarrow> lopts" where
  "add_db_rewrite from_db to_db st = st\<lparr>rewrite_db := rewrite_db st @ [(from_db, to_db)]\<rparr>"

text \<open>The name for a database, with the length that the callers test: 0 when there is no rule.\<close>

fun Rpl_filter_get_rewrite_db :: "(string \<times> string) list \<Rightarrow> string \<Rightarrow> string" where
  "Rpl_filter_get_rewrite_db [] db = []"
| "Rpl_filter_get_rewrite_db ((key, val) # pairs) db = (if key = db then val else Rpl_filter_get_rewrite_db pairs db)"

text \<open>Blanks of \<open>my_charset_latin1\<close>.\<close>

definition my_isspace :: "char \<Rightarrow> bool" where
  "my_isspace c \<longleftrightarrow> (let n = of_char c :: nat in 9 \<le> n \<and> n \<le> 13 \<or> n = 32 \<or> n = 160)"

text \<open>\<open>strstr\<close> of the arrow.\<close>

fun find_arrow :: "string \<Rightarrow> nat option" where
  "find_arrow (a # b # cs) = (if a = CHR ''-'' \<and> b = CHR ''>'' then Some 0 else map_option Suc (find_arrow (b # cs)))"
| "find_arrow cs = None"

text \<open>The blanks before the arrow are overwritten from the right, down to the second character of the
  argument; with the arrow at its start the character before the argument is looked at.\<close>

definition rtrim_key :: "string \<Rightarrow> string" where
  "rtrim_key s = (case s of [] \<Rightarrow> [] | c # cs \<Rightarrow> c # rev (dropWhile my_isspace (rev cs)))"

datatype option_result = Option_ok | Option_bad | Option_exit

definition rewrite_option :: "string \<Rightarrow> lopts \<Rightarrow> (option_result \<times> lopts) res" where
  "rewrite_option argument st =
     (case find_arrow argument of
        None \<Rightarrow> Inr (Option_bad, st)
      | Some p \<Rightarrow>
          if p = 0 then Inl (Out_of_bounds ''argument'')
          else
            (let begin = length (takeWhile my_isspace argument);
                 key = drop begin (rtrim_key (take p argument));
                 val = takeWhile (\<lambda>c. \<not> my_isspace c) (dropWhile my_isspace (drop (p + 2) argument))
             in if key = [] then Inr (Option_bad, st)
                else if val = [] then Inr (Option_bad, st)
                else Inr (Option_ok, add_db_rewrite key val st)))"

section \<open>Reading the options\<close>

record getopt_env =
  handle_options :: "(cl_option \<Rightarrow> lopts \<Rightarrow> (option_result \<times> lopts) res) \<Rightarrow> cl_option list \<Rightarrow> lopts
    \<Rightarrow> (bool \<times> lopts) res"
  get_tty_password :: string
  convert_str_to_timestamp :: "string \<Rightarrow> int option"

definition base64_mode_of :: "int \<Rightarrow> base64_mode" where
  "base64_mode_of val = [BASE64_OUTPUT_NEVER, BASE64_OUTPUT_AUTO, BASE64_OUTPUT_ALWAYS, BASE64_OUTPUT_UNSPEC,
     BASE64_OUTPUT_DECODE_ROWS] ! nat (val - 1)"

text \<open>Some cases set their variable whatever the value of the option is. The protocol is compared with
  0 as an unsigned number.\<close>

fun get_one_option :: "getopt_env \<Rightarrow> cl_option \<Rightarrow> lopts \<Rightarrow> (option_result \<times> lopts) res" where
  "get_one_option env (Opt_flashback b) st = Inr (Option_ok, on_events (\<lambda>p. p\<lparr>opt_flashback := True\<rparr>) st)"
| "get_one_option env (Opt_database s) st = Inr (Option_ok, st\<lparr>one_database := True\<rparr>)"
| "get_one_option env (Opt_password p) st =
     Inr (Option_ok, st\<lparr>pass := Some (case p of None \<Rightarrow> get_tty_password env | Some s \<Rightarrow> s)\<rparr>)"
| "get_one_option env Opt_no_password st = Inr (Option_ok, st\<lparr>pass := Some []\<rparr>)"
| "get_one_option env (Opt_read_from_remote_server b) st =
     Inr (Option_ok, on_reading (\<lambda>r. r\<lparr>remote_opt := True\<rparr>) st)"
| "get_one_option env (Opt_table s) st = Inr (Option_ok, st\<lparr>one_table := True\<rparr>)"
| "get_one_option env (Opt_protocol val) st =
     (let n = (word_of_int val :: u32)
      in Inr (if n = 0 then Option_exit else Option_ok, st\<lparr>opt_protocol := n\<rparr>))"
| "get_one_option env (Opt_start_datetime s) st =
     Inr (case convert_str_to_timestamp env s of None \<Rightarrow> (Option_exit, st)
          | Some t \<Rightarrow> (Option_ok, st\<lparr>lo_start_datetime := t\<rparr>))"
| "get_one_option env (Opt_stop_datetime s) st =
     Inr (case convert_str_to_timestamp env s of None \<Rightarrow> (Option_exit, st)
          | Some t \<Rightarrow> (Option_ok, on_events (\<lambda>p. p\<lparr>stop_datetime := t\<rparr>) st))"
| "get_one_option env (Opt_base64_output val) st =
     Inr (case val of
            None \<Rightarrow> (Option_ok, on_events (\<lambda>p. p\<lparr>opt_base64_output_mode := BASE64_OUTPUT_ALWAYS\<rparr>) st)
          | Some v \<Rightarrow>
              if v \<le> 0 then (Option_exit, st)
              else (Option_ok, on_events (\<lambda>p. p\<lparr>opt_base64_output_mode := base64_mode_of v\<rparr>) st))"
| "get_one_option env (Opt_rewrite_db s) st = rewrite_option s st"
| "get_one_option env (Opt_print_row_count b) st = Inr (Option_ok, on_reading (\<lambda>r. r\<lparr>print_row_count_used := True\<rparr>) st)"
| "get_one_option env (Opt_print_row_event_positions b) st =
     Inr (Option_ok, on_reading (\<lambda>r. r\<lparr>print_row_event_positions_used := True\<rparr>) st)"
| "get_one_option env (Opt_verbose b) st = Inr (Option_ok, st\<lparr>verbose := (if b then verbose st + 1 else 0)\<rparr>)"
| "get_one_option env Opt_version st = Inr (Option_ok, st\<lparr>opt_version := True\<rparr>)"
| "get_one_option env Opt_help st = Inr (Option_ok, st\<lparr>opt_version := True\<rparr>)"
| "get_one_option env opt st = Inr (Option_ok, st)"

text \<open>An option is stored at its variable and then handed to \<open>get_one_option\<close>.\<close>

definition take_option :: "getopt_env \<Rightarrow> cl_option \<Rightarrow> lopts \<Rightarrow> (option_result \<times> lopts) res" where
  "take_option env opt st = get_one_option env opt (store_option opt st)"

definition UINT_MAX32 :: u64 where "UINT_MAX32 = 4294967295"

text \<open>The result tells whether the process goes on: an error of \<open>handle_options\<close> ends it.\<close>

definition parse_args :: "getopt_env \<Rightarrow> cl_option list \<Rightarrow> lopts \<Rightarrow> (bool \<times> lopts) res" where
  "parse_args env options st =
     and_then (handle_options env (take_option env) options st) (\<lambda>(ok, st1).
       Inr (ok, if ok \<and> UINT_MAX32 < lo_start_position st1 \<and> remote_opt (read_opts st1)
                then st1\<lparr>lo_start_position := UINT_MAX32\<rparr> else st1))"

text \<open>What the printing of events gets of the options.\<close>

definition effective_opts :: "lopts \<Rightarrow> opts" where
  "effective_opts st = (event_opts st)\<lparr>get_rewrite_db := Rpl_filter_get_rewrite_db (rewrite_db st)\<rparr>"

definition MySetVerbose :: "int \<Rightarrow> lopts \<Rightarrow> lopts" where
  "MySetVerbose iVerbose st = st\<lparr>verbose := word_of_int iVerbose\<rparr>"

section \<open>The start for the capture\<close>

text \<open>What the start depends on: the options of the option files, if they can be read, the
  directory for temporary files, if there is one, whether the load processor can be initialised,
  the value of a port that is a text.\<close>

record init_env =
  ie_getopt :: getopt_env
  ie_defaults :: "cl_option list option"
  ie_tmpdir :: "string option"
  ie_load_init :: bool
  ie_port :: "string \<Rightarrow> int"
  ie_creatable :: "string \<Rightarrow> bool"

text \<open>The arguments without the name of the log that only fills a place.\<close>

definition remote_arguments :: "string \<Rightarrow> string \<Rightarrow> string \<Rightarrow> int \<Rightarrow> cl_option list" where
  "remote_arguments h u pw n =
     [Opt_base64_output (Some 5), Opt_start_position 4, Opt_verbose True, Opt_read_from_remote_server True,
      Opt_user u, Opt_password (Some pw), Opt_host h, Opt_port n]"

definition set_times :: "lopts \<Rightarrow> ps \<Rightarrow> ps" where
  "set_times st p = p\<lparr>offset := lo_offset st, start_datetime := lo_start_datetime st\<rparr>"

text \<open>The directory for the files of \<open>LOAD DATA\<close>: the option's or the one for temporary files.\<close>

definition init_load_processor :: "init_env \<Rightarrow> lopts \<Rightarrow> ps \<Rightarrow> Exit_status \<times> lopts \<times> ps" where
  "init_load_processor env st p =
     (case (case dirname_for_local_load st of None \<Rightarrow> ie_tmpdir env | Some d \<Rightarrow> Some d) of
        None \<Rightarrow> (ERROR_STOP, st, p)
      | Some dir \<Rightarrow>
          (let st1 = st\<lparr>dirname_for_local_load := Some dir\<rparr>
           in if \<not> ie_load_init env then (ERROR_STOP, st1, p)
              else (OK_CONTINUE, st1, p\<lparr>load_processor := init_by_dir_name dir (load_processor p)\<rparr>)))"

text \<open>Without a status the process has ended.\<close>

definition InitRemoteReadBinLog :: "init_env \<Rightarrow> string \<Rightarrow> string \<Rightarrow> string \<Rightarrow> string \<Rightarrow> lopts \<Rightarrow> ps
    \<Rightarrow> (Exit_status option \<times> lopts \<times> ps) res" where
  "InitRemoteReadBinLog env pszHost pszUser pszPassword pszPort st p =
     and_then (into_buffer ''szHost'' 250 (''--host='' @ pszHost)) (\<lambda>_.
     and_then (into_buffer ''szUser'' 250 (''--user='' @ pszUser)) (\<lambda>_.
     and_then (into_buffer ''szPassword'' 250 (''--password='' @ pszPassword)) (\<lambda>_.
     and_then (into_buffer ''szPort'' 250 (''--port='' @ pszPort)) (\<lambda>_.
       case ie_defaults env of
         None \<Rightarrow> Inr (Some ERROR_STOP, st, p)
       | Some defaults \<Rightarrow>
           and_then (parse_args (ie_getopt env) (defaults @ remote_arguments pszHost pszUser pszPassword (ie_port env pszPort)) st)
             (\<lambda>(ok, st1).
               if \<not> ok then Inr (None, st1, p)
               else let (r, st2, p2) = init_load_processor env st1 (set_times st1 p) in Inr (Some r, st2, p2))))))"

definition FreeReadBinLog :: "ps \<Rightarrow> Exit_status \<times> ps" where
  "FreeReadBinLog p = (OK_CONTINUE, p\<lparr>annotate_event := None, load_processor := destroy (load_processor p)\<rparr>)"

section \<open>The tool\<close>

text \<open>Several logs: the start position is the one of the first, the stop position the one of the last.\<close>

type_synonym log_source = "opts \<Rightarrow> u64 \<Rightarrow> string \<Rightarrow> ps \<Rightarrow> (Exit_status \<times> ps) res"

fun dump_logs :: "opts \<Rightarrow> ropts \<Rightarrow> PRINT_EVENT_INFO \<Rightarrow> log_source \<Rightarrow> u64 \<Rightarrow> string list \<Rightarrow> ps \<Rightarrow> (Exit_status \<times> ps) res" where
  "dump_logs o1 r1 fresh source start_position [] p = Inr (OK_CONTINUE, p)"
| "dump_logs o1 r1 fresh source start_position (l # ls) p =
     and_then (dump_log_entries (o1\<lparr>stop_position := (if ls = [] then stop_position o1 else - 1)\<rparr>) r1 fresh
                 (\<lambda>o2. source o2 start_position l) p) (\<lambda>(r, p1).
       if r \<noteq> OK_CONTINUE then Inr (r, p1) else dump_logs o1 r1 fresh source 4 ls p1)"

definition main_defaults :: "lopts \<Rightarrow> lopts" where
  "main_defaults st =
     (let st1 = (if opt_base64_output_mode (event_opts st) = BASE64_OUTPUT_UNSPEC
                 then on_events (\<lambda>p. p\<lparr>opt_base64_output_mode := BASE64_OUTPUT_AUTO\<rparr>) st else st)
      in if opt_stop_never (read_opts st1) then on_reading (\<lambda>r. r\<lparr>to_last_remote_log := True\<rparr>) st1 else st1)"

definition open_result :: "init_env \<Rightarrow> lopts \<Rightarrow> bool" where
  "open_result env st =
     (if opt_raw_mode (read_opts st) then remote_opt (read_opts st)
      else case result_file_name st of None \<Rightarrow> True | Some f \<Rightarrow> ie_creatable env f)"

text \<open>The result tells whether the process ends with 0.\<close>

definition main_binlog :: "init_env \<Rightarrow> PRINT_EVENT_INFO \<Rightarrow> (ropts \<Rightarrow> log_source) \<Rightarrow> cl_option list \<Rightarrow> string list
    \<Rightarrow> lopts \<Rightarrow> ps \<Rightarrow> (bool \<times> ps) res" where
  "main_binlog env fresh source options logs st p =
     (case ie_defaults env of
        None \<Rightarrow> Inr (False, p)
      | Some defaults \<Rightarrow>
          and_then (parse_args (ie_getopt env) (defaults @ options) st) (\<lambda>(ok, st1).
            if \<not> ok then Inr (False, p)
            else if logs = [] \<or> opt_version st1 then Inr (opt_version st1, p)
            else let st2 = main_defaults st1
                 in if \<not> open_result env st2 then Inr (False, p)
                    else let (r, st3, p1) = init_load_processor env st2 (set_times st2 p);
                             o1 = effective_opts st3; r1 = read_opts st3
                         in if r \<noteq> OK_CONTINUE then Inr (False, p1)
                            else and_then (dump_logs o1 r1 fresh (source r1) (lo_start_position st3) logs
                                            (if opt_raw_mode r1 then p1 else put (session_start r1) p1)) (\<lambda>(r2, p2).
                                 Inr (r2 \<noteq> ERROR_STOP, snd (FreeReadBinLog (close_log o1 r1 r2 p2))))))"

section \<open>Lemmas\<close>

text \<open>Options in their order, up to the first that is not accepted.\<close>

fun in_order :: "(cl_option \<Rightarrow> lopts \<Rightarrow> (option_result \<times> lopts) res) \<Rightarrow> cl_option list \<Rightarrow> lopts \<Rightarrow> (bool \<times> lopts) res" where
  "in_order f [] st = Inr (True, st)"
| "in_order f (opt # opts) st =
     and_then (f opt st) (\<lambda>(r, st1). if r = Option_ok then in_order f opts st1 else Inr (False, st1))"

definition handles_in_order :: "getopt_env \<Rightarrow> bool" where
  "handles_in_order env \<longleftrightarrow> handle_options env = in_order"

lemma in_order_append:
  "in_order f (xs @ ys) st =
     and_then (in_order f xs st) (\<lambda>(ok, st1). if ok then in_order f ys st1 else Inr (False, st1))"
  by (induction xs arbitrary: st) (auto simp: and_then_assoc split_beta intro!: arg_cong2 [where f = and_then])

text \<open>The fixed arguments of the capture.\<close>

definition with_remote_arguments :: "string \<Rightarrow> string \<Rightarrow> string \<Rightarrow> int \<Rightarrow> lopts \<Rightarrow> lopts" where
  "with_remote_arguments h u pw n st =
     st\<lparr>event_opts := (event_opts st)\<lparr>opt_base64_output_mode := BASE64_OUTPUT_DECODE_ROWS\<rparr>,
        read_opts := (read_opts st)\<lparr>remote_opt := True\<rparr>, lo_start_position := 4,
        user := Some u, pass := Some pw, host := Some h, port := n, verbose := verbose st + 1\<rparr>"

lemma remote_arguments_handled:
  "in_order (take_option env) (remote_arguments h u pw n) st = Inr (True, with_remote_arguments h u pw n st)"
  by (simp add: take_option_def remote_arguments_def with_remote_arguments_def base64_mode_of_def on_events_def on_reading_def)

lemma parse_args_remote:
  assumes "parse_args env (ds @ remote_arguments h u pw n) st = Inr (True, st')" and "handles_in_order env"
  obtains st0 where "in_order (take_option env) ds st = Inr (True, st0)" and "st' = with_remote_arguments h u pw n st0"
  using assms
  by (auto simp: parse_args_def handles_in_order_def in_order_append remote_arguments_handled with_remote_arguments_def UINT_MAX32_def
      elim!: and_then_eq_InrE split: if_splits)

lemma dump_logs_one:
  "dump_logs o1 r1 fresh source pos [name] st = dump_log_entries o1 r1 fresh (\<lambda>o2. source o2 pos name) st"
  by (cases "dump_log_entries o1 r1 fresh (\<lambda>o2. source o2 pos name) st") (auto split: prod.splits)

text \<open>The library's reading of one log is the tool's for a list of one log, between the two marks.\<close>

lemma start_read_is_one_log:
  "StartReadBinLog o0 r1 fresh (\<lambda>o2 pos. source o2 (ucast pos)) name pos idx st =
     (let o1 = o0\<lparr>l_ulIndex := idx\<rparr>;
          st1 = put (start_binlog_mark name idx @ [NL]) st;
          st2 = (if opt_raw_mode r1 then st1 else put (session_start r1) st1)
      in and_then (dump_logs o1 r1 fresh source (ucast pos) [name] st2) (\<lambda>(r, st3).
           Inr (r, put (end_binlog_mark name idx @ [NL]) (close_log o1 r1 r st3))))"
  by (simp add: StartReadBinLog_def dump_logs_one Let_def del: dump_logs.simps)

text \<open>The text of the option \<open>rewrite-db\<close>.\<close>

lemma find_arrow_first: "CHR ''>'' \<notin> set s \<Longrightarrow> find_arrow (s @ ''->'' @ rest) = Some (length s)"
proof (induction s)
  case (Cons a s)
  then show ?case by (cases s) auto
qed simp

lemma takeWhile_blanks: "\<forall>c \<in> set bs. my_isspace c \<Longrightarrow> \<not> my_isspace a \<Longrightarrow> takeWhile my_isspace (bs @ a # xs) = bs"
  by (induction bs) auto

lemma rtrim_key_blanks:
  assumes "\<forall>c \<in> set bs2. my_isspace c" and "key \<noteq> []" and "\<forall>c \<in> set key. \<not> my_isspace c"
  shows "rtrim_key (bs1 @ key @ bs2) = bs1 @ key"
proof -
  obtain ks k where k: "key = ks @ [k]" using assms(2) by (cases key rule: rev_cases) auto
  have d: "dropWhile my_isspace (rev bs2 @ xs) = dropWhile my_isspace xs" for xs
    using assms(1) by (intro dropWhile_append2) auto
  show ?thesis
  proof (cases "bs1 @ ks")
    case Nil
    have "dropWhile my_isspace (rev bs2) = []" using assms(1) by simp
    then show ?thesis using Nil k by (simp add: rtrim_key_def)
  next
    case (Cons c cs)
    then have e: "bs1 @ key @ bs2 = c # (cs @ [k]) @ bs2" "bs1 @ key = c # cs @ [k]" using k by (cases bs1; simp)+
    show ?thesis unfolding e using d [of "k # rev cs"] assms(3) k by (simp add: rtrim_key_def)
  qed
qed

section \<open>Properties\<close>

text \<open>C25: the options that the capture reads with: when the start succeeds, the values of the fixed
  arguments have won over those of the option files (rows are decoded, the log is read from the
  server from its start, with the given host, user, password and port), and every other option is as
  the option files of the machine set it.\<close>

theorem capture_options:
  assumes "handles_in_order (ie_getopt env)"
    and "InitRemoteReadBinLog env h u pw pt st p = Inr (Some OK_CONTINUE, st', p')"
  shows "\<exists>defaults st0 dir. ie_defaults env = Some defaults
     \<and> in_order (take_option (ie_getopt env)) defaults st = Inr (True, st0)
     \<and> st' = (with_remote_arguments h u pw (ie_port env pt) st0)\<lparr>dirname_for_local_load := Some dir\<rparr>
     \<and> target_dir_name (load_processor p') = dir"
  using assms
  by (fastforce simp: InitRemoteReadBinLog_def init_load_processor_def init_by_dir_name_def Let_def
      elim!: and_then_eq_InrE parse_args_remote split: option.splits if_splits prod.splits)

definition demo_init :: init_env where
  "demo_init = \<lparr>ie_getopt = \<lparr>handle_options = in_order, get_tty_password = [], convert_str_to_timestamp = (\<lambda>s. None)\<rparr>,
     ie_defaults = Some [Opt_verbose True, Opt_database ''shop'', Opt_base64_output None], ie_tmpdir = Some ''t'',
     ie_load_init = True, ie_port = (\<lambda>s. 3306), ie_creatable = (\<lambda>f. True)\<rparr>"

theorem capture_options_witness:
  "\<exists>st' p'. InitRemoteReadBinLog demo_init ''h'' ''u'' ''p'' ''3306'' new_lopts demo_ps = Inr (Some OK_CONTINUE, st', p')
     \<and> database (event_opts st') = Some ''shop''
     \<and> opt_base64_output_mode (event_opts st') = BASE64_OUTPUT_DECODE_ROWS \<and> verbose st' = 2"
proof -
  obtain st' p' where r: "InitRemoteReadBinLog demo_init ''h'' ''u'' ''p'' ''3306'' new_lopts demo_ps
      = Inr (Some OK_CONTINUE, st', p')"
    by (simp add: InitRemoteReadBinLog_def demo_init_def parse_args_def in_order_append remote_arguments_handled
        with_remote_arguments_def UINT_MAX32_def init_load_processor_def new_lopts_def on_events_def take_option_def Let_def)
  then show ?thesis
    using capture_options [OF _ r]
    by (auto simp: handles_in_order_def take_option_def demo_init_def with_remote_arguments_def on_events_def new_lopts_def)
qed

text \<open>The option that renames a database is read back: with a text that has the old and the new name
  around the arrow, and blanks around each, the printing of events gets a function that renames the one to the
  other, unless an option before it has renamed the database, and leaves every other name as it was.\<close>

theorem rewrite_db_option:
  assumes "from_db \<noteq> []" and "to_db \<noteq> []" and "\<forall>c \<in> set (from_db @ to_db). \<not> my_isspace c"
    and "CHR ''>'' \<notin> set from_db"
    and "\<forall>c \<in> set (b1 @ b2 @ b3 @ b4). my_isspace c" and "from_db \<notin> fst ` set (rewrite_db st)"
    and "rest = [] \<or> b4 \<noteq> []"
  shows "\<exists>st'. take_option env (Opt_rewrite_db (b1 @ from_db @ b2 @ ''->'' @ b3 @ to_db @ b4 @ rest)) st = Inr (Option_ok, st')
     \<and> get_rewrite_db (effective_opts st')
        = (get_rewrite_db (effective_opts st))(from_db := to_db)"
proof -
  let ?pre = "b1 @ from_db @ b2" and ?s = "b1 @ from_db @ b2 @ ''->'' @ b3 @ to_db @ b4 @ rest"
  have sp: "\<not> my_isspace (CHR ''>'')" by (simp add: my_isspace_def)
  have "find_arrow ?s = Some (length ?pre)"
    using find_arrow_first [of ?pre "b3 @ to_db @ b4 @ rest"] assms(4,5) sp by auto
  moreover have "?pre \<noteq> []" using assms(1) by simp
  moreover have "length (takeWhile my_isspace ?s) = length b1"
    using takeWhile_blanks [of b1 "hd from_db" "tl from_db @ b2 @ ''->'' @ b3 @ to_db @ b4 @ rest"] assms(1,3,5)
    by (cases from_db) auto
  moreover have "rtrim_key (take (length ?pre) ?s) = b1 @ from_db"
    using rtrim_key_blanks [of b2 from_db b1] assms(1,3,5) by simp
  moreover have "takeWhile (\<lambda>c. \<not> my_isspace c) (dropWhile my_isspace (drop (length ?pre + 2) ?s)) = to_db"
  proof -
    have "dropWhile my_isspace (b3 @ to_db @ b4 @ rest) = to_db @ b4 @ rest"
      using assms(2,3,5) by (cases to_db) (auto simp: dropWhile_append2)
    moreover have "takeWhile (\<lambda>c. \<not> my_isspace c) (to_db @ b4 @ rest) = to_db"
      using assms(3,5,7) by (cases b4) (auto simp: takeWhile_tail)
    ultimately show ?thesis by simp
  qed
  ultimately have "rewrite_option ?s st = Inr (Option_ok, add_db_rewrite from_db to_db st)"
    using assms(1,2) by (simp add: rewrite_option_def Let_def)
  moreover have "Rpl_filter_get_rewrite_db (ps @ [(from_db, to_db)])
      = (Rpl_filter_get_rewrite_db ps)(from_db := to_db)" if "from_db \<notin> fst ` set ps" for ps
    using that by (induction ps) auto
  ultimately show ?thesis using assms(6) by (simp add: take_option_def effective_opts_def add_db_rewrite_def)
qed

theorem rewrite_db_option_witness:
  "\<exists>st'. take_option (ie_getopt demo_init) (Opt_rewrite_db '' shop -> store '') new_lopts = Inr (Option_ok, st')
     \<and> get_rewrite_db (effective_opts st') ''shop'' = ''store'' \<and> get_rewrite_db (effective_opts st') ''shops'' = []"
  using rewrite_db_option [of "''shop''" "''store''" "'' ''" "'' ''" "'' ''" "'' ''" new_lopts "[]" "ie_getopt demo_init"]
  by (auto simp: my_isspace_def new_lopts_def effective_opts_def new_opts_def)

end
