(* ===== verification/Dd_Strings.thy ===== *)
theory Dd_Strings
  imports Prelude
begin

text \<open>
  The string helpers of \<open>ddMySqlBinLogCapture.cpp\<close> (\<open>ddstrncpy\<close>, \<open>ddatol\<close>, \<open>cpyrtrim\<close>,
  \<open>tolowerStr\<close>, \<open>ddstrchr\<close>), on which the command line, the repository path and the line
  parser rest. Destinations that keep their old bytes are arrays; a write outside one is
  \<open>Out_of_bounds\<close>.
\<close>

section \<open>Definitions\<close>

text \<open>
  \<open>strncpy(destination, source, size)\<close> pads with null bytes up to \<open>size\<close>; \<open>size\<close> is an \<open>int\<close>
  that a negative value turns into a huge \<open>size_t\<close>.
\<close>

definition ddstrncpy :: "char list \<Rightarrow> string \<Rightarrow> int \<Rightarrow> bool \<Rightarrow> char list res" where
  "ddstrncpy destination source sz nullChar =
     (if sz < 0 \<or> int (length destination) < sz then Inl (Out_of_bounds ''destination'')
      else let n = nat sz;
               d = take n source @ replicate (n - length source) NUL @ drop n destination
           in if nullChar
              then (if n < length d then Inr (d[n := NUL]) else Inl (Out_of_bounds ''destination''))
              else Inr d)"

definition ddatol :: "string \<Rightarrow> int \<Rightarrow> int res" where
  "ddatol source sz =
     (if sz < 0 \<or> 128 \<le> sz then Inl (Out_of_bounds ''buf'')
      else Inr (atol (take (nat sz) source)))"

text \<open>
  The loop of \<open>cpyrtrim\<close> looks for the last character that is not a blank, from \<open>i = size - 1\<close>
  down; the result is the number of characters kept, \<open>i + 1\<close>.
\<close>

fun last_kept :: "char list \<Rightarrow> nat \<Rightarrow> nat" where
  "last_kept d 0 = 0"
| "last_kept d (Suc i) = (if d ! i = CHR '' '' then last_kept d i else Suc i)"

definition cpyrtrim :: "char list \<Rightarrow> char list \<Rightarrow> nat \<Rightarrow> char list res" where
  "cpyrtrim destination source sz =
     (if length source < sz then Inl (Out_of_bounds ''source'')
      else if length destination < sz then Inl (Out_of_bounds ''destination'')
      else let d = take sz source @ drop sz destination
           in if 1 < sz
              then (let k = last_kept d sz
                    in if k < length d then Inr (d[k := NUL]) else Inl (Out_of_bounds ''destination''))
              else if d = [] then Inl (Out_of_bounds ''destination'')
              else if d ! 0 = CHR '' '' then Inr (d[0 := NUL])
              else if 1 < length d then Inr (d[1 := NUL]) else Inl (Out_of_bounds ''destination''))"

text \<open>\<open>tolower\<close> in the C locale.\<close>

definition to_lower :: "char \<Rightarrow> char" where
  "to_lower c = (if 65 \<le> (of_char c :: nat) \<and> (of_char c :: nat) \<le> 90
                 then char_of ((of_char c :: nat) + 32) else c)"

definition tolowerStr :: "string \<Rightarrow> nat \<Rightarrow> string" where
  "tolowerStr source sizeDest =
     (let iLen = length source;
          iLen' = (if iLen < sizeDest then iLen else sizeDest - 1)
      in map to_lower (take iLen' source))"

text \<open>Positions count from 1; -1 means not found.\<close>

definition ddstrchr :: "string \<Rightarrow> char \<Rightarrow> int" where
  "ddstrchr source c = (case strchr source c of None \<Rightarrow> - 1 | Some i \<Rightarrow> int i + 1)"

section \<open>Properties\<close>

text \<open>The text without its trailing blanks.\<close>

definition rtrim :: "string \<Rightarrow> string" where
  "rtrim s = rev (dropWhile (\<lambda>c. c = CHR '' '') (rev s))"

lemma last_kept_le: "last_kept d n \<le> n"
  by (induction n) auto

lemma take_last_kept:
  "n \<le> length d \<Longrightarrow> take (last_kept d n) d = rtrim (take n d)"
proof (induction n)
  case 0
  then show ?case by (simp add: rtrim_def)
next
  case (Suc n)
  then have t: "take (Suc n) d = take n d @ [d ! n]" by (simp add: take_Suc_conv_app_nth)
  show ?case
  proof (cases "d ! n = CHR '' ''")
    case True
    then show ?thesis using Suc t by (simp add: rtrim_def)
  next
    case False
    then show ?thesis using t by (simp add: rtrim_def)
  qed
qed

lemma last_kept_cong:
  "(\<And>i. i < n \<Longrightarrow> d ! i = e ! i) \<Longrightarrow> last_kept d n = last_kept e n"
  by (induction n) auto

lemma cstr_update_NUL:
  "k < length d \<Longrightarrow> cstr (d[k := NUL]) = cstr (take k d)"
proof -
  assume k: "k < length d"
  have e: "d[k := NUL] = take k d @ NUL # drop (Suc k) d" using k by (simp add: upd_conv_take_nth_drop)
  show ?thesis
  proof (cases "NUL \<in> set (take k d)")
    case True
    then have "takeWhile (\<lambda>c. c \<noteq> NUL) (take k d @ NUL # drop (Suc k) d) = takeWhile (\<lambda>c. c \<noteq> NUL) (take k d)"
      by (intro takeWhile_append1) auto
    then show ?thesis by (simp add: cstr_def e)
  next
    case False
    then show ?thesis by (simp add: e cstr_nul_free)
  qed
qed

text \<open>\<open>cpyrtrim\<close> leaves the first \<open>size\<close> bytes of the source, right trimmed, in the
  destination, for every size of at least one byte that fits.\<close>

theorem cpyrtrim_rtrim:
  assumes "0 < sz" and "sz \<le> length source" and "sz < length destination"
  shows "\<exists>d. cpyrtrim destination source sz = Inr d \<and> length d = length destination
             \<and> cstr d = cstr (rtrim (take sz source))"
proof -
  define d where "d = take sz source @ drop sz destination"
  have ld: "length d = length destination" and td: "take sz d = take sz source"
    using assms by (simp_all add: d_def)
  show ?thesis
  proof (cases "1 < sz")
    case True
    have lt: "last_kept d sz < length d" using last_kept_le [of d sz] ld assms by simp
    have "cstr (d[last_kept d sz := NUL]) = cstr (rtrim (take sz source))"
      using lt take_last_kept [of sz d] ld td assms by (simp add: cstr_update_NUL)
    then show ?thesis using True assms lt ld by (simp add: cpyrtrim_def Let_def d_def [symmetric])
  next
    case False
    then have s1: "sz = 1" using assms by simp
    have d0: "take 1 d = [d ! 0]" using ld assms s1 by (cases d) auto
    have c: "rtrim (take 1 d) = (if d ! 0 = CHR '' '' then [] else [d ! 0])"
      using d0 by (simp add: rtrim_def)
    have t1: "take 1 d = take 1 source" using td s1 by simp
    have a: "cstr (d[0 := NUL]) = cstr []" using ld assms by (subst cstr_update_NUL) (auto simp: s1)
    have b: "cstr (d[1 := NUL]) = cstr [d ! 0]" using ld assms d0 by (subst cstr_update_NUL) (auto simp: s1)
    have ne: "d \<noteq> []" "1 < length d" using ld assms by auto
    have "cpyrtrim destination source sz = Inr (if d ! 0 = CHR '' '' then d[0 := NUL] else d[1 := NUL])"
      using False assms ne by (simp add: cpyrtrim_def Let_def d_def [symmetric])
    then show ?thesis using a b c t1 ld s1 by auto
  qed
qed

theorem cpyrtrim_rtrim_witness:
  "\<exists>d. cpyrtrim (replicate 8 (CHR ''z'')) ''ab  '' 4 = Inr d \<and> length d = 8 \<and> cstr d = ''ab''"
  using cpyrtrim_rtrim [of 4 "''ab  ''" "replicate 8 (CHR ''z'')"] by (simp add: rtrim_def cstr_def)

lemma length_tolowerStr: "0 < sizeDest \<Longrightarrow> length (tolowerStr s sizeDest) < sizeDest"
  by (auto simp: tolowerStr_def Let_def)

lemma to_lower_idem: "to_lower (to_lower c) = to_lower c"
proof -
  have "(of_char c :: nat) < 256" by simp
  then show ?thesis by (auto simp: to_lower_def)
qed

lemma tolowerStr_fits: "length s < sizeDest \<Longrightarrow> tolowerStr s sizeDest = map to_lower s"
  by (simp add: tolowerStr_def)

lemma ddstrchr_pos: "1 < ddstrchr s c \<Longrightarrow> \<exists>i. strchr s c = Some i \<and> 0 < i \<and> ddstrchr s c = int i + 1"
  by (cases "strchr s c") (auto simp: ddstrchr_def simp del: strchr_None_iff)

lemma ddstrchr_append [simp]: "c \<notin> set s \<Longrightarrow> ddstrchr (s @ c # t) c = int (length s) + 1"
  by (simp add: ddstrchr_def)

lemma ddatol_show_dec:
  assumes "length (show_dec n) < 128"
  shows "ddatol (show_dec n @ rest) (int (length (show_dec n))) = Inr (min long_max (int n))"
  using assms by (simp add: ddatol_def atol_show_dec)

end
