(* ===== verification/Registry.thy ===== *)
theory Registry
  imports Dd_Strings
begin

text \<open>
  The parameters of the capture in the Windows registry: \<open>GetRegistryValue\<close>,
  \<open>SetRegistryValue\<close>, the functions that create a missing entry with its default, and
  \<open>LoadParam\<close>, which reads all of them, takes the server's name from the instance and allocates
  the listener's buffers; and \<open>GetRepositoryFullPathName\<close>, which finds the repository.

  The registry maps a section and a key to a type and data. Which sections may be read or
  created, which values may be set, and which allocations succeed are parameters. Trace output
  and the text of messages are left out, except where a message may overrun its buffer.
\<close>

section \<open>Arrays of characters\<close>

text \<open>\<open>memcpy\<close> to the start of an array, and the string in an array, which must be terminated.\<close>

definition copy_in :: "string \<Rightarrow> char list \<Rightarrow> char list \<Rightarrow> char list res" where
  "copy_in what arr bs =
     (if length bs \<le> length arr then Inr (bs @ drop (length bs) arr) else Inl (Out_of_bounds what))"

definition c_string :: "string \<Rightarrow> char list \<Rightarrow> string res" where
  "c_string what arr = (if NUL \<in> set arr then Inr (cstr arr) else Inl (Out_of_bounds what))"

lemma copy_in_length: "copy_in what arr bs = Inr arr' \<Longrightarrow> length arr' = length arr"
  by (auto simp: copy_in_def split: if_splits)

lemma c_string_zeros [simp]: "NUL \<notin> set s \<Longrightarrow> 0 < n \<Longrightarrow> c_string what (s @ replicate n NUL) = Inr s"
  by (cases n) (simp_all add: c_string_def)

lemma c_string_eq_Inr: "c_string what arr = Inr s \<longleftrightarrow> NUL \<in> set arr \<and> s = cstr arr"
  by (auto simp: c_string_def)

lemma c_string_ok [simp]: "NUL \<in> set arr \<Longrightarrow> c_string what arr = Inr (cstr arr)"
  by (simp add: c_string_def)

section \<open>The registry\<close>

datatype reg_type = REG_SZ | REG_DWORD | REG_OTHER

record registry =
  reg_sections :: "string \<Rightarrow> bool"
  reg_values :: "string \<Rightarrow> string \<Rightarrow> (reg_type \<times> char list) option"

record reg_env =
  may_read :: "string \<Rightarrow> bool"
  may_create :: "string \<Rightarrow> bool"
  may_set :: "string \<Rightarrow> string \<Rightarrow> bool"
  more_data :: "char list \<Rightarrow> char list"

definition reg_entry :: "string \<Rightarrow> string" where
  "reg_entry pszSection = ''Software'' @ [CHR 0x5C] @ ''Talend'' @ [CHR 0x5C] @ ''DataDistribution'' @ [CHR 0x5C] @ pszSection"

text \<open>The buffer is the array \<open>pData\<close>. Data that does not fit leaves the buffer undefined
  (\<open>ERROR_MORE_DATA\<close>); data of another type is stored, and then the type is found wrong.\<close>

definition GetRegistryValue :: "reg_env \<Rightarrow> registry \<Rightarrow> string \<Rightarrow> string \<Rightarrow> reg_type \<Rightarrow> char list
    \<Rightarrow> (bool \<times> char list) res" where
  "GetRegistryValue env reg pszSection pszKey dwType pData =
     and_then (into_buffer ''szRegistryEntry'' 512 (reg_entry pszSection)) (\<lambda>szRegistryEntry.
       if \<not> (reg_sections reg szRegistryEntry \<and> may_read env szRegistryEntry) then Inr (False, pData)
       else case reg_values reg szRegistryEntry pszKey of
              None \<Rightarrow> Inr (False, pData)
            | Some (dwReadType, d) \<Rightarrow>
                if length pData < length d
                then Inr (False, take (length pData) (more_data env d @ pData))
                else Inr (dwType = dwReadType, d @ drop (length d) pData))"

definition SetRegistryValue :: "reg_env \<Rightarrow> registry \<Rightarrow> string \<Rightarrow> string \<Rightarrow> reg_type \<Rightarrow> char list
    \<Rightarrow> (bool \<times> registry) res" where
  "SetRegistryValue env reg pszSection pszKey dwType pData =
     and_then (into_buffer ''szRegistryEntry'' 512 (reg_entry pszSection)) (\<lambda>szRegistryEntry.
       if \<not> may_create env szRegistryEntry then Inr (False, reg)
       else let reg1 = reg\<lparr>reg_sections := (reg_sections reg)(szRegistryEntry := True)\<rparr>
            in if \<not> may_set env szRegistryEntry pszKey then Inr (False, reg1)
               else Inr (True, reg1\<lparr>reg_values := (reg_values reg)(szRegistryEntry :=
                               (reg_values reg szRegistryEntry)(pszKey \<mapsto> (dwType, pData)))\<rparr>))"

definition GetRegistryString :: "reg_env \<Rightarrow> registry \<Rightarrow> string \<Rightarrow> string \<Rightarrow> char list \<Rightarrow> (bool \<times> char list) res" where
  "GetRegistryString env reg pszSection pszKey pszVal = GetRegistryValue env reg pszSection pszKey REG_SZ pszVal"

definition GetRegistryLong :: "reg_env \<Rightarrow> registry \<Rightarrow> string \<Rightarrow> string \<Rightarrow> u32 \<Rightarrow> (bool \<times> u32) res" where
  "GetRegistryLong env reg pszSection pszKey plVal =
     and_then (GetRegistryValue env reg pszSection pszKey REG_DWORD (le32 plVal)) (\<lambda>(ok, d). Inr (ok, un_le32 d))"

definition ReadOrCreateRegistryLong :: "reg_env \<Rightarrow> registry \<Rightarrow> string \<Rightarrow> string \<Rightarrow> u32 \<Rightarrow> u32
    \<Rightarrow> (u32 \<times> registry) res" where
  "ReadOrCreateRegistryLong env reg pszPath pszKey lDefault plDestValue =
     and_then (GetRegistryValue env reg pszPath pszKey REG_DWORD (le32 plDestValue)) (\<lambda>(ok, d).
       if ok then Inr (un_le32 d, reg)
       else and_then (SetRegistryValue env reg pszPath pszKey REG_DWORD (le32 lDefault)) (\<lambda>(fResult, reg1).
              Inr (lDefault, reg1)))"

text \<open>A missing string is created without its terminating null byte; \<open>size\<close> is the length of the
  destination, which is cleared first.\<close>

definition ReadOrCreateRegistryString :: "reg_env \<Rightarrow> registry \<Rightarrow> string \<Rightarrow> string \<Rightarrow> string \<Rightarrow> nat
    \<Rightarrow> (char list \<times> registry) res" where
  "ReadOrCreateRegistryString env reg pszPath pszKey pszDefault ulSize =
     and_then (GetRegistryValue env reg pszPath pszKey REG_SZ (replicate ulSize NUL)) (\<lambda>(ok, d).
       if ok then Inr (d, reg)
       else and_then (SetRegistryValue env reg pszPath pszKey REG_SZ pszDefault) (\<lambda>(fResult, reg1).
            and_then (strcpy_arr ''pszDestValue'' d pszDefault) (\<lambda>d1. Inr (d1, reg1))))"

section \<open>The settings\<close>

text \<open>The settings that are created when they are missing, in the order of the calls: the default
  of a number with the value the variable has before, the default of a string with its array's
  size.\<close>

datatype setting = Long_setting u32 u32 | String_setting string nat

datatype setting_value = Long_value u32 | String_value "char list"

definition read_setting :: "reg_env \<Rightarrow> string \<Rightarrow> string \<times> setting \<Rightarrow> registry \<Rightarrow> (setting_value \<times> registry) res" where
  "read_setting env pszPath ks reg =
     (case snd ks of
        Long_setting lDefault before \<Rightarrow>
          and_then (ReadOrCreateRegistryLong env reg pszPath (fst ks) lDefault before) (\<lambda>(v, reg1).
            Inr (Long_value v, reg1))
      | String_setting pszDefault ulSize \<Rightarrow>
          and_then (ReadOrCreateRegistryString env reg pszPath (fst ks) pszDefault ulSize) (\<lambda>(v, reg1).
            Inr (String_value v, reg1)))"

fun read_settings :: "reg_env \<Rightarrow> string \<Rightarrow> (string \<times> setting) list \<Rightarrow> registry
    \<Rightarrow> (setting_value list \<times> registry) res" where
  "read_settings env pszPath [] reg = Inr ([], reg)"
| "read_settings env pszPath (ks # rest) reg =
     and_then (read_setting env pszPath ks reg) (\<lambda>(v, reg1).
     and_then (read_settings env pszPath rest reg1) (\<lambda>(vs, reg2). Inr (v # vs, reg2)))"

definition param_table :: "(string \<times> setting) list" where
  "param_table =
     [(''dwTrace'', Long_setting 0 0), (''dwTraceLevel'', Long_setting 0 0), (''dwTraceMode'', Long_setting 0 0),
      (''dwTraceArchive'', Long_setting 10 10), (''TraceLogReader'', Long_setting 0 0),
      (''TraceDuration'', Long_setting 0 0), (''TraceDebug'', Long_setting 0 0),
      (''BinLogLibName'', String_setting ''ddBinlogLib'' 512), (''DbDriverName'', String_setting ''ddMySql'' 512),
      (''BufferLine'', Long_setting 33 (- 1)), (''CaptureAndProcess'', Long_setting 0 0), (''Flush'', Long_setting 0 0)]"

section \<open>LoadParam\<close>

record params =
  g_szPathSource :: "char list"
  g_szDataBaseName :: "char list"
  g_szPort :: "char list"
  g_iPort :: int
  g_szServer :: "char list"
  g_szDBpub :: "char list"
  settings :: "setting_value list"
  par_iMaxBufferLine :: u32

fun long_value :: "setting_value list \<Rightarrow> nat \<Rightarrow> u32" where
  "long_value [] n = 0"
| "long_value (v # vs) 0 = (case v of Long_value w \<Rightarrow> w | String_value s \<Rightarrow> 0)"
| "long_value (v # vs) (Suc n) = long_value vs n"

fun string_value :: "setting_value list \<Rightarrow> nat \<Rightarrow> char list" where
  "string_value [] n = []"
| "string_value (v # vs) 0 = (case v of Long_value w \<Rightarrow> [] | String_value s \<Rightarrow> s)"
| "string_value (v # vs) (Suc n) = string_value vs n"

definition global_section :: string where
  "global_section = ''DD_for_MySql'' @ [CHR 0x5C]"

definition instance_section :: "string \<Rightarrow> string" where
  "instance_section g_szInstance = ''DD_for_MySql'' @ [CHR 0x5C] @ g_szInstance @ [CHR 0x5C]"

text \<open>The message that \<open>LoadParam\<close> composes in \<open>g_szMsgError\<close>.\<close>

definition param_message :: "string \<Rightarrow> string \<Rightarrow> string \<Rightarrow> string \<Rightarrow> string \<Rightarrow> string \<Rightarrow> string \<Rightarrow> string" where
  "param_message inst server schema dbpub path db user =
     ''[M]:Instance:<'' @ inst @ ''> Server:<'' @ server @ ''> Schema:<'' @ schema @ ''> DB:<'' @ dbpub
     @ ''> PathSource:<'' @ path @ ''> DataBaseName:<'' @ db @ ''> User:<'' @ user @ ''>''"

text \<open>The server's name is the part of the instance before the at sign.\<close>

definition server_name :: "string \<Rightarrow> char list res" where
  "server_name g_szInstance =
     and_then (nonnull ''pszServerName'' (strchr g_szInstance (CHR ''@''))) (\<lambda>i.
       copy_in ''g_szServer'' (replicate 400 NUL) (take i g_szInstance))"

definition LoadParam :: "reg_env \<Rightarrow> (u32 \<Rightarrow> bool) \<Rightarrow> char list \<Rightarrow> char list \<Rightarrow> char list \<Rightarrow> registry
    \<Rightarrow> (bool \<times> params \<times> registry) res" where
  "LoadParam env can_alloc instance_arr schema_arr user_arr reg =
     and_then (GetRegistryString env reg global_section ''PathSource'' (replicate 400 NUL)) (\<lambda>(ok1, path_arr).
     and_then (c_string ''g_szInstance'' instance_arr) (\<lambda>g_szInstance.
     and_then (into_buffer ''szGlobalSection'' 255 (instance_section g_szInstance)) (\<lambda>sect.
     and_then (GetRegistryString env reg sect ''Repository'' (replicate 512 NUL)) (\<lambda>(ok2, db_arr).
     and_then (GetRegistryString env reg sect ''Port'' (replicate 100 NUL)) (\<lambda>(ok3, port_arr).
     and_then (if ok3 then and_then (c_string ''g_szPort'' port_arr) (\<lambda>s. Inr (atol s)) else Inr 0) (\<lambda>port.
     and_then (server_name g_szInstance) (\<lambda>server_arr.
     and_then (c_string ''g_szSchema'' schema_arr) (\<lambda>schema.
     and_then (strcpy_arr ''g_szDBpub'' (replicate 400 NUL) schema) (\<lambda>dbpub_arr.
     and_then (c_string ''g_szServer'' server_arr) (\<lambda>server.
     and_then (c_string ''g_szPathSource'' path_arr) (\<lambda>path.
     and_then (c_string ''g_szDataBaseName'' db_arr) (\<lambda>db.
     and_then (c_string ''g_szUser'' user_arr) (\<lambda>user.
     and_then (into_buffer ''g_szMsgError'' 1024 (param_message g_szInstance server schema schema path db user)) (\<lambda>_.
     and_then (read_settings env sect param_table reg) (\<lambda>(vs, reg1).
       let lines = long_value vs 9 * 1024
       in Inr (ok1 \<and> ok2 \<and> ok3 \<and> can_alloc lines \<and> can_alloc 2048,
               \<lparr>g_szPathSource = path_arr, g_szDataBaseName = db_arr, g_szPort = port_arr, g_iPort = port,
                g_szServer = server_arr, g_szDBpub = dbpub_arr, settings = vs, par_iMaxBufferLine = lines\<rparr>,
               reg1))))))))))))))))"

text \<open>The settings by their variables.\<close>

abbreviation "g_lActivateTrace p \<equiv> long_value (settings p) 0"
abbreviation "g_szBinlogLibName p \<equiv> string_value (settings p) 7"
abbreviation "g_szDbDriverName p \<equiv> string_value (settings p) 8"
abbreviation "par_lTraceBinLog p \<equiv> long_value (settings p) 4"
abbreviation "par_lCaptureAndProcess p \<equiv> long_value (settings p) 10"

section \<open>Reading back what was created\<close>

text \<open>A registry in which values belong to sections that exist and numbers have four bytes.\<close>

definition reg_wf :: "registry \<Rightarrow> bool" where
  "reg_wf reg \<longleftrightarrow> (\<forall>s k t d. reg_values reg s k = Some (t, d) \<longrightarrow>
     reg_sections reg s \<and> (t = REG_DWORD \<longrightarrow> length d = 4))"

definition permitted :: "reg_env \<Rightarrow> string \<Rightarrow> bool" where
  "permitted env s \<longleftrightarrow> may_read env s \<and> may_create env s \<and> (\<forall>k. may_set env s k)"

lemma SetRegistryValue_permitted:
  "permitted env (reg_entry sect) \<Longrightarrow> SetRegistryValue env reg sect key t d = Inr (b, reg') \<Longrightarrow>
     reg' = reg\<lparr>reg_sections := (reg_sections reg)(reg_entry sect := True),
                reg_values := (reg_values reg)(reg_entry sect := (reg_values reg (reg_entry sect))(key \<mapsto> (t, d)))\<rparr>"
  by (auto simp: SetRegistryValue_def permitted_def Let_def elim!: and_then_eq_InrE)

lemma SetRegistryValue_wf:
  "SetRegistryValue env reg sect key t d = Inr (b, reg') \<Longrightarrow> reg_wf reg \<Longrightarrow> (t = REG_DWORD \<longrightarrow> length d = 4)
     \<Longrightarrow> reg_wf reg'"
  by (auto simp: SetRegistryValue_def reg_wf_def Let_def split: if_splits elim!: and_then_eq_InrE)

lemma GetRegistryValue_other:
  assumes "SetRegistryValue env reg sect key t d = Inr (b, reg')" and "reg_wf reg" and "key' \<noteq> key"
  shows "GetRegistryValue env reg' s key' t' buf = GetRegistryValue env reg s key' t' buf"
proof -
  have v: "reg_values reg' e key' = reg_values reg e key'" for e
    using assms(1,3) by (auto simp: SetRegistryValue_def Let_def split: if_splits elim!: and_then_eq_InrE)
  have s: "reg_sections reg' e = reg_sections reg e" if "reg_values reg e key' \<noteq> None" for e
    using assms(1,2) that by (auto simp: SetRegistryValue_def Let_def reg_wf_def split: if_splits elim!: and_then_eq_InrE)
  show ?thesis
    unfolding GetRegistryValue_def
    by (rule and_then_cong [OF refl])
      (simp add: v, cases "reg_values reg (reg_entry s) key'"; use s [of "reg_entry s"] in \<open>auto split: prod.splits\<close>)
qed

text \<open>The type, the size and the value of a setting that is stored as the bytes \<open>d\<close>.\<close>

fun setting_type :: "setting \<Rightarrow> reg_type" where
  "setting_type (Long_setting v b) = REG_DWORD"
| "setting_type (String_setting s n) = REG_SZ"

fun setting_size :: "setting \<Rightarrow> nat" where
  "setting_size (Long_setting v b) = 4"
| "setting_size (String_setting s n) = n"

fun setting_of :: "setting \<Rightarrow> char list \<Rightarrow> setting_value" where
  "setting_of (Long_setting v b) d = Long_value (un_le32 (d @ drop (length d) (le32 b)))"
| "setting_of (String_setting s n) d = String_value (d @ replicate (n - length d) NUL)"

fun default_bytes :: "setting \<Rightarrow> char list" where
  "default_bytes (Long_setting v b) = le32 v"
| "default_bytes (String_setting s n) = s"

fun setting_view :: "setting_value \<Rightarrow> u32 + string" where
  "setting_view (Long_value w) = Inl w"
| "setting_view (String_value s) = Inr (cstr s)"

fun default_fits :: "setting \<Rightarrow> bool" where
  "default_fits (Long_setting v b) = True"
| "default_fits (String_setting s n) = (length s < n \<and> NUL \<notin> set s)"

definition stored :: "reg_env \<Rightarrow> string \<Rightarrow> string \<times> setting \<Rightarrow> setting_value \<Rightarrow> registry \<Rightarrow> bool" where
  "stored env sect ks v reg \<longleftrightarrow> (\<exists>d. reg_sections reg (reg_entry sect) \<and> may_read env (reg_entry sect)
     \<and> length (reg_entry sect) < 512
     \<and> reg_values reg (reg_entry sect) (fst ks) = Some (setting_type (snd ks), d)
     \<and> length d \<le> setting_size (snd ks) \<and> v = setting_of (snd ks) d)"

lemma stored_read: "stored env sect ks v reg \<Longrightarrow> read_setting env sect ks reg = Inr (v, reg)"
  by (cases "snd ks")
    (auto simp: stored_def read_setting_def ReadOrCreateRegistryLong_def ReadOrCreateRegistryString_def
      GetRegistryValue_def)

lemma GetRegistryValue_cases:
  assumes "GetRegistryValue env reg sect k t buf = Inr (ok, d')"
  obtains (found) d where "ok" "reg_sections reg (reg_entry sect)" "may_read env (reg_entry sect)"
      "reg_values reg (reg_entry sect) k = Some (t, d)" "length d \<le> length buf" "d' = d @ drop (length d) buf"
      "length (reg_entry sect) < 512"
  | (missing) "\<not> ok" "length d' = length buf" "length (reg_entry sect) < 512"
  using assms by (auto simp: GetRegistryValue_def split: if_splits option.splits prod.splits elim!: and_then_eq_InrE)

lemma read_setting_cases:
  assumes "read_setting env sect (k, s) reg = Inr (v, reg')"
  obtains (found) "stored env sect (k, s) v reg" "reg' = reg"
  | (created) b where "SetRegistryValue env reg sect k (setting_type s) (default_bytes s) = Inr (b, reg')"
      "default_fits s \<Longrightarrow> setting_view v = setting_view (setting_of s (default_bytes s))"
      "length (reg_entry sect) < 512"
proof (cases s)
  case (Long_setting w b)
  obtain ok d' where g: "GetRegistryValue env reg sect k REG_DWORD (le32 b) = Inr (ok, d')"
    using assms Long_setting by (auto simp: read_setting_def ReadOrCreateRegistryLong_def elim!: and_then_eq_InrE)
  from g show thesis
  proof (cases rule: GetRegistryValue_cases)
    case (found d)
    have v: "v = setting_of s d" "reg' = reg"
      using assms Long_setting g found(1,6) by (simp_all add: read_setting_def ReadOrCreateRegistryLong_def)
    have "stored env sect (k, s) v reg"
      unfolding stored_def using found(2-5,7) v(1) Long_setting by (intro exI [of _ d]) simp
    then show thesis using v(2) by (rule that(1))
  next
    case missing
    then show thesis using assms Long_setting g that(2)
      by (auto simp: read_setting_def ReadOrCreateRegistryLong_def elim!: and_then_eq_InrE)
  qed
next
  case (String_setting w n)
  obtain ok d' where g: "GetRegistryValue env reg sect k REG_SZ (replicate n NUL) = Inr (ok, d')"
    using assms String_setting by (auto simp: read_setting_def ReadOrCreateRegistryString_def elim!: and_then_eq_InrE)
  from g show thesis
  proof (cases rule: GetRegistryValue_cases)
    case (found d)
    have v: "v = setting_of s d" "reg' = reg"
      using assms String_setting g found(1,6) by (simp_all add: read_setting_def ReadOrCreateRegistryString_def)
    have "stored env sect (k, s) v reg"
      unfolding stored_def using found(2-5,7) v(1) String_setting by (intro exI [of _ d]) simp
    then show thesis using v(2) by (rule that(1))
  next
    case missing
    then obtain b d1 where r: "SetRegistryValue env reg sect k REG_SZ w = Inr (b, reg')"
      "strcpy_arr ''pszDestValue'' d' w = Inr d1" "v = String_value d1"
      using assms String_setting g
      by (auto simp: read_setting_def ReadOrCreateRegistryString_def elim!: and_then_eq_InrE)
    have "cstr d1 = w" if "NUL \<notin> set w" using strcpy_arr_cstr [OF that r(2)] .
    moreover have "cstr (w @ replicate (n - length w) NUL) = w" if "NUL \<notin> set w" "length w < n"
      using that by (cases "n - length w") auto
    ultimately show thesis using r missing that(2) [of b] String_setting by simp
  qed
qed

lemma default_bytes_size: "default_fits s \<Longrightarrow> length (default_bytes s) \<le> setting_size s"
  by (cases s) auto

text \<open>What a call returns is stored behind it, and calls for other keys keep it.\<close>

lemma read_setting_stored:
  assumes "read_setting env sect ks reg = Inr (v, reg')" and "permitted env (reg_entry sect)" and "default_fits (snd ks)"
  shows "\<exists>v'. stored env sect ks v' reg' \<and> setting_view v' = setting_view v"
proof -
  obtain k s where ks: "ks = (k, s)" by fastforce
  from assms(1) [unfolded ks] show ?thesis
  proof (cases rule: read_setting_cases)
    case found
    then show ?thesis using ks by auto
  next
    case (created b)
    have "stored env sect ks (setting_of s (default_bytes s)) reg'"
      using SetRegistryValue_permitted [OF assms(2) created(1)] assms(2,3) created(3) ks default_bytes_size [of s]
      by (simp add: stored_def permitted_def)
    then show ?thesis using created(2) assms(3) ks by auto
  qed
qed

lemma read_setting_frame:
  assumes "read_setting env sect ks reg = Inr (v, reg')" and "reg_wf reg"
  shows "reg_wf reg'" and "\<And>s k t buf. k \<noteq> fst ks \<Longrightarrow>
      GetRegistryValue env reg' s k t buf = GetRegistryValue env reg s k t buf"
proof -
  obtain k s where ks: "ks = (k, s)" by fastforce
  have "reg' = reg \<or> (\<exists>b. SetRegistryValue env reg sect k (setting_type s) (default_bytes s) = Inr (b, reg'))"
    using assms(1) [unfolded ks] by (cases rule: read_setting_cases) auto
  moreover have "setting_type s = REG_DWORD \<longrightarrow> length (default_bytes s) = 4" by (cases s) auto
  ultimately show "reg_wf reg'" using assms(2) SetRegistryValue_wf by blast
  show "GetRegistryValue env reg' s' k' t buf = GetRegistryValue env reg s' k' t buf" if "k' \<noteq> fst ks" for s' k' t buf
    using \<open>reg' = reg \<or> _\<close> GetRegistryValue_other assms(2) that ks by auto
qed

lemma stored_kept:
  assumes "stored env sect ks v reg" and "read_setting env sect ks2 reg = Inr (w, reg')" and "fst ks2 \<noteq> fst ks"
  shows "stored env sect ks v reg'"
proof -
  obtain k s where ks: "ks2 = (k, s)" by fastforce
  from assms(2) [unfolded ks] show ?thesis
  proof (cases rule: read_setting_cases)
    case found
    then show ?thesis using assms(1) by simp
  next
    case (created b)
    then show ?thesis using assms(1,3) ks
      by (auto simp: SetRegistryValue_def stored_def Let_def split: if_splits elim!: and_then_eq_InrE)
  qed
qed

lemma read_settings_kept:
  "read_settings env sect rest reg = Inr (vs, reg') \<Longrightarrow> stored env sect ks v reg \<Longrightarrow> fst ks \<notin> fst ` set rest
     \<Longrightarrow> stored env sect ks v reg'"
proof (induction rest arbitrary: reg vs)
  case Nil
  then show ?case by simp
next
  case (Cons x rest)
  then show ?case by (auto elim!: and_then_eq_InrE) (metis stored_kept)
qed

lemma read_settings_frame:
  assumes "read_settings env sect tab reg = Inr (vs, reg')" and "reg_wf reg"
  shows "reg_wf reg'" and "\<And>s k t buf. k \<notin> fst ` set tab \<Longrightarrow>
      GetRegistryValue env reg' s k t buf = GetRegistryValue env reg s k t buf"
  using assms
proof (induction tab arbitrary: reg vs)
  case Nil
  { case 1 then show ?case by simp }
  { case 2 then show ?case by simp }
next
  case (Cons x rest)
  { case 1
    then obtain v reg1 vs1 where r: "read_setting env sect x reg = Inr (v, reg1)"
      "read_settings env sect rest reg1 = Inr (vs1, reg')" by (auto elim!: and_then_eq_InrE)
    show ?case by (rule Cons.IH(1) [OF r(2) read_setting_frame(1) [OF r(1) 1(2)]]) }
  { case (2 k)
    then obtain v reg1 vs1 where r: "read_setting env sect x reg = Inr (v, reg1)"
      "read_settings env sect rest reg1 = Inr (vs1, reg')" by (auto elim!: and_then_eq_InrE)
    note f = read_setting_frame [OF r(1) 2(3)]
    show ?case using Cons.IH(2) [OF _ r(2) f(1)] f(2) 2(1) by simp }
qed

lemma read_settings_stored:
  assumes "read_settings env sect tab reg = Inr (vs, reg')" and "permitted env (reg_entry sect)"
    and "\<forall>ks \<in> set tab. default_fits (snd ks)" and "distinct (map fst tab)"
  shows "\<exists>vs'. list_all2 (\<lambda>ks v. stored env sect ks v reg') tab vs' \<and> map setting_view vs' = map setting_view vs"
  using assms
proof (induction tab arbitrary: reg vs)
  case Nil
  then show ?case by simp
next
  case (Cons ks rest)
  obtain v reg1 vs1 where r: "read_setting env sect ks reg = Inr (v, reg1)"
    "read_settings env sect rest reg1 = Inr (vs1, reg')" "vs = v # vs1"
    using Cons.prems(1) by (auto elim!: and_then_eq_InrE)
  obtain v' where v': "stored env sect ks v' reg1" "setting_view v' = setting_view v"
    using read_setting_stored [OF r(1)] Cons.prems by auto
  have "stored env sect ks v' reg'" using read_settings_kept [OF r(2) v'(1)] Cons.prems(4) by simp
  moreover obtain vs' where "list_all2 (\<lambda>ks v. stored env sect ks v reg') rest vs'"
    "map setting_view vs' = map setting_view vs1"
    using Cons.IH [OF r(2)] Cons.prems by auto
  ultimately show ?case using v'(2) r(3) by (intro exI [of _ "v' # vs'"]) simp
qed

lemma read_settings_again:
  "list_all2 (\<lambda>ks v. stored env sect ks v reg) tab vs \<Longrightarrow> read_settings env sect tab reg = Inr (vs, reg)"
  by (induction rule: list_all2_induct) (simp_all add: stored_read)

text \<open>Reading the settings faults only on a section name that is too long.\<close>

lemma GetRegistryValue_total:
  "length (reg_entry sect) < 512 \<Longrightarrow> \<exists>ok d. GetRegistryValue env reg sect k t buf = Inr (ok, d) \<and> length d = length buf"
  by (auto simp: GetRegistryValue_def split: option.splits prod.splits)

lemma SetRegistryValue_total:
  "length (reg_entry sect) < 512 \<Longrightarrow> \<exists>b reg'. SetRegistryValue env reg sect k t d = Inr (b, reg')"
  by (auto simp: SetRegistryValue_def Let_def)

lemma read_setting_total:
  assumes "length (reg_entry sect) < 512" and "default_fits (snd ks)"
  shows "\<exists>v reg'. read_setting env sect ks reg = Inr (v, reg')"
proof (cases "snd ks")
  case (Long_setting w b)
  obtain ok d where "GetRegistryValue env reg sect (fst ks) REG_DWORD (le32 b) = Inr (ok, d)"
    using GetRegistryValue_total [OF assms(1)] by blast
  moreover obtain c reg' where "SetRegistryValue env reg sect (fst ks) REG_DWORD (le32 w) = Inr (c, reg')"
    using SetRegistryValue_total [OF assms(1)] by blast
  ultimately show ?thesis using Long_setting
    by (simp add: read_setting_def ReadOrCreateRegistryLong_def)
next
  case (String_setting w n)
  obtain ok d where "GetRegistryValue env reg sect (fst ks) REG_SZ (replicate n NUL) = Inr (ok, d)" "length d = n"
    using GetRegistryValue_total [OF assms(1), of env reg "fst ks" REG_SZ "replicate n NUL"] by auto
  moreover obtain c reg' where "SetRegistryValue env reg sect (fst ks) REG_SZ w = Inr (c, reg')"
    using SetRegistryValue_total [OF assms(1)] by blast
  ultimately show ?thesis using String_setting assms(2)
    by (simp add: read_setting_def ReadOrCreateRegistryString_def strcpy_arr_def)
qed

lemma read_settings_total:
  "length (reg_entry sect) < 512 \<Longrightarrow> \<forall>ks \<in> set tab. default_fits (snd ks) \<Longrightarrow>
     \<exists>vs reg'. read_settings env sect tab reg = Inr (vs, reg')"
proof (induction tab arbitrary: reg)
  case Nil
  then show ?case by simp
next
  case (Cons x rest)
  obtain v reg1 where "read_setting env sect x reg = Inr (v, reg1)"
    using read_setting_total Cons.prems by (metis list.set_intros(1))
  then show ?case using Cons.IH [of reg1] Cons.prems by auto
qed

lemma long_value_view: "map setting_view vs = map setting_view ws \<Longrightarrow> long_value vs n = long_value ws n"
proof (induction vs arbitrary: ws n)
  case Nil
  then show ?case by simp
next
  case (Cons v vs)
  then obtain w us where w: "ws = w # us" "setting_view v = setting_view w" "map setting_view vs = map setting_view us"
    by (cases ws) auto
  show ?case
  proof (cases n)
    case 0
    then show ?thesis using w by (cases v; cases w) simp_all
  next
    case (Suc m)
    then show ?thesis using Cons.IH [OF w(3)] w(1) by simp
  qed
qed

lemma param_table_ok: "\<forall>ks \<in> set param_table. default_fits (snd ks)" "distinct (map fst param_table)"
  "''PathSource'' \<notin> fst ` set param_table" "''Repository'' \<notin> fst ` set param_table"
  "''Port'' \<notin> fst ` set param_table"
  by (simp_all add: param_table_def)

lemma param_table_length: "length (map f param_table) = 12"
  by (simp add: param_table_def)

text \<open>The parts of a call of \<open>LoadParam\<close> that returns.\<close>

lemma LoadParam_eq_InrE:
  assumes "LoadParam env can_alloc instance_arr schema_arr user_arr reg = Inr (ok, p, reg')"
  obtains "NUL \<in> set instance_arr"
    "\<exists>b. GetRegistryString env reg global_section ''PathSource'' (replicate 400 NUL) = Inr (b, g_szPathSource p)"
    "\<exists>b. GetRegistryString env reg (instance_section (cstr instance_arr)) ''Repository'' (replicate 512 NUL)
       = Inr (b, g_szDataBaseName p)"
    "\<exists>b. GetRegistryString env reg (instance_section (cstr instance_arr)) ''Port'' (replicate 100 NUL)
       = Inr (b, g_szPort p)"
    "server_name (cstr instance_arr) = Inr (g_szServer p)"
    "read_settings env (instance_section (cstr instance_arr)) param_table reg = Inr (settings p, reg')"
    "par_iMaxBufferLine p = long_value (settings p) 9 * 1024" "length (g_szDBpub p) = 400"
proof -
  have "NUL \<in> set instance_arr
    \<and> (\<exists>b. GetRegistryString env reg global_section ''PathSource'' (replicate 400 NUL) = Inr (b, g_szPathSource p))
    \<and> (\<exists>b. GetRegistryString env reg (instance_section (cstr instance_arr)) ''Repository'' (replicate 512 NUL)
         = Inr (b, g_szDataBaseName p))
    \<and> (\<exists>b. GetRegistryString env reg (instance_section (cstr instance_arr)) ''Port'' (replicate 100 NUL)
         = Inr (b, g_szPort p))
    \<and> server_name (cstr instance_arr) = Inr (g_szServer p)
    \<and> read_settings env (instance_section (cstr instance_arr)) param_table reg = Inr (settings p, reg')
    \<and> par_iMaxBufferLine p = long_value (settings p) 9 * 1024 \<and> length (g_szDBpub p) = 400"
    using assms unfolding LoadParam_def
    by (fastforce simp: c_string_eq_Inr Let_def dest!: strcpy_arr_length elim!: and_then_eq_InrE)
  then show thesis using that by blast
qed

lemma LoadParam_parts:
  assumes "LoadParam env can_alloc instance_arr schema_arr user_arr reg = Inr (ok, p, reg')"
  obtains ok1 ok2 ok3 where
    "GetRegistryString env reg global_section ''PathSource'' (replicate 400 NUL) = Inr (ok1, g_szPathSource p)"
    "GetRegistryString env reg (instance_section (cstr instance_arr)) ''Repository'' (replicate 512 NUL) = Inr (ok2, g_szDataBaseName p)"
    "GetRegistryString env reg (instance_section (cstr instance_arr)) ''Port'' (replicate 100 NUL) = Inr (ok3, g_szPort p)"
    "server_name (cstr instance_arr) = Inr (g_szServer p)"
    "read_settings env (instance_section (cstr instance_arr)) param_table reg = Inr (settings p, reg')"
    "par_iMaxBufferLine p = long_value (settings p) 9 * 1024"
    "ok \<longleftrightarrow> ok1 \<and> ok2 \<and> ok3 \<and> can_alloc (par_iMaxBufferLine p) \<and> can_alloc 2048"
    "ok3 \<Longrightarrow> g_iPort p = atol (cstr (g_szPort p))" "cstr (g_szDBpub p) = cstr schema_arr"
proof -
  have "\<exists>ok1 ok2 ok3. GetRegistryString env reg global_section ''PathSource'' (replicate 400 NUL) = Inr (ok1, g_szPathSource p)
    \<and> GetRegistryString env reg (instance_section (cstr instance_arr)) ''Repository'' (replicate 512 NUL) = Inr (ok2, g_szDataBaseName p)
    \<and> GetRegistryString env reg (instance_section (cstr instance_arr)) ''Port'' (replicate 100 NUL) = Inr (ok3, g_szPort p)
    \<and> server_name (cstr instance_arr) = Inr (g_szServer p)
    \<and> read_settings env (instance_section (cstr instance_arr)) param_table reg = Inr (settings p, reg')
    \<and> par_iMaxBufferLine p = long_value (settings p) 9 * 1024
    \<and> (ok \<longleftrightarrow> ok1 \<and> ok2 \<and> ok3 \<and> can_alloc (par_iMaxBufferLine p) \<and> can_alloc 2048)
    \<and> (ok3 \<longrightarrow> g_iPort p = atol (cstr (g_szPort p)))
    \<and> strcpy_arr ''g_szDBpub'' (replicate 400 NUL) (cstr schema_arr) = Inr (g_szDBpub p)"
    using assms unfolding LoadParam_def
    by (fastforce simp: c_string_eq_Inr Let_def split: if_splits elim!: and_then_eq_InrE)
  then obtain ok1 ok2 ok3 where o: "GetRegistryString env reg global_section ''PathSource'' (replicate 400 NUL) = Inr (ok1, g_szPathSource p)"
    "GetRegistryString env reg (instance_section (cstr instance_arr)) ''Repository'' (replicate 512 NUL) = Inr (ok2, g_szDataBaseName p)"
    "GetRegistryString env reg (instance_section (cstr instance_arr)) ''Port'' (replicate 100 NUL) = Inr (ok3, g_szPort p)"
    "server_name (cstr instance_arr) = Inr (g_szServer p)"
    "read_settings env (instance_section (cstr instance_arr)) param_table reg = Inr (settings p, reg')"
    "par_iMaxBufferLine p = long_value (settings p) 9 * 1024"
    "ok \<longleftrightarrow> ok1 \<and> ok2 \<and> ok3 \<and> can_alloc (par_iMaxBufferLine p) \<and> can_alloc 2048"
    "ok3 \<longrightarrow> g_iPort p = atol (cstr (g_szPort p))"
    "strcpy_arr ''g_szDBpub'' (replicate 400 NUL) (cstr schema_arr) = Inr (g_szDBpub p)"
    by blast
  show thesis by (rule that [OF o(1-7)]) (use o(8) strcpy_arr_cstr [OF _ o(9)] in simp_all)
qed

section \<open>What the parameters are\<close>

text \<open>The number or the string that the registry has under a key, of the right type and of a length that fits.\<close>

definition stored_number :: "registry \<Rightarrow> string \<Rightarrow> string \<Rightarrow> u32 option" where
  "stored_number reg sect key = (case reg_values reg (reg_entry sect) key of
       Some (t, d) \<Rightarrow> if t = REG_DWORD then Some (un_le32 d) else None
     | None \<Rightarrow> None)"

definition stored_string :: "registry \<Rightarrow> string \<Rightarrow> string \<Rightarrow> nat \<Rightarrow> string option" where
  "stored_string reg sect key n = (case reg_values reg (reg_entry sect) key of
       Some (t, d) \<Rightarrow> if t = REG_SZ \<and> length d \<le> n then Some (cstr d) else None
     | None \<Rightarrow> None)"

definition number_or :: "registry \<Rightarrow> string \<Rightarrow> string \<Rightarrow> u32 \<Rightarrow> u32" where
  "number_or reg sect key d = (case stored_number reg sect key of Some w \<Rightarrow> w | None \<Rightarrow> d)"

definition string_or :: "registry \<Rightarrow> string \<Rightarrow> string \<Rightarrow> nat \<Rightarrow> string \<Rightarrow> string" where
  "string_or reg sect key n d = (case stored_string reg sect key n of Some t \<Rightarrow> t | None \<Rightarrow> d)"

lemma cstr_zeros: "cstr (s @ replicate n NUL) = cstr s"
  by (induction s) (cases n, auto simp: cstr_def)

lemma string_read:
  assumes g: "GetRegistryValue env reg sect key REG_SZ (replicate n NUL) = Inr (b, arr)"
    and w: "reg_wf reg" and m: "\<forall>e. may_read env e"
  shows "b = (stored_string reg sect key n \<noteq> None)" "b \<Longrightarrow> stored_string reg sect key n = Some (cstr arr)" "length arr = n"
proof -
  have "b = (stored_string reg sect key n \<noteq> None) \<and> (b \<longrightarrow> stored_string reg sect key n = Some (cstr arr)) \<and> length arr = n"
    using g w m cstr_zeros
    by (auto simp: GetRegistryValue_def stored_string_def reg_wf_def split: if_splits option.splits elim!: and_then_eq_InrE)
  then show "b = (stored_string reg sect key n \<noteq> None)" "b \<Longrightarrow> stored_string reg sect key n = Some (cstr arr)" "length arr = n"
    by blast+
qed

lemma number_read:
  assumes g: "GetRegistryValue env reg sect key REG_DWORD (le32 w0) = Inr (b, arr)"
    and w: "reg_wf reg" and m: "\<forall>e. may_read env e"
  shows "b = (stored_number reg sect key \<noteq> None)" "b \<Longrightarrow> stored_number reg sect key = Some (un_le32 arr)"
proof -
  have "b = (stored_number reg sect key \<noteq> None) \<and> (b \<longrightarrow> stored_number reg sect key = Some (un_le32 arr))"
    using g w m
    by (fastforce simp: GetRegistryValue_def stored_number_def reg_wf_def split: if_splits option.splits elim!: and_then_eq_InrE)
  then show "b = (stored_number reg sect key \<noteq> None)" "b \<Longrightarrow> stored_number reg sect key = Some (un_le32 arr)" by blast+
qed

fun setting_view_of :: "registry \<Rightarrow> string \<Rightarrow> string \<times> setting \<Rightarrow> u32 + string" where
  "setting_view_of reg sect (key, Long_setting d b) = Inl (number_or reg sect key d)"
| "setting_view_of reg sect (key, String_setting d n) = Inr (string_or reg sect key n d)"

lemma read_setting_value:
  assumes r: "read_setting env sect ks reg = Inr (v, reg')" and w: "reg_wf reg" and m: "\<forall>e. may_read env e"
    and f: "default_fits (snd ks)"
  shows "setting_view v = setting_view_of reg sect ks"
proof (cases ks)
  case (Pair key st)
  show ?thesis
  proof (cases st)
    case (Long_setting d b)
    obtain ok arr where g: "GetRegistryValue env reg sect key REG_DWORD (le32 b) = Inr (ok, arr)"
      using r by (auto simp: Pair Long_setting read_setting_def ReadOrCreateRegistryLong_def elim!: and_then_eq_InrE)
    note n = number_read [OF g w m]
    show ?thesis using r g n
      by (auto simp: Pair Long_setting read_setting_def ReadOrCreateRegistryLong_def number_or_def elim!: and_then_eq_InrE
          split: if_splits)
  next
    case (String_setting d n)
    obtain ok arr where g: "GetRegistryValue env reg sect key REG_SZ (replicate n NUL) = Inr (ok, arr)"
      using r by (auto simp: Pair String_setting read_setting_def ReadOrCreateRegistryString_def elim!: and_then_eq_InrE)
    note n = string_read [OF g w m]
    show ?thesis
    proof (cases ok)
      case True
      then have "v = String_value arr"
        using r g by (simp add: Pair String_setting read_setting_def ReadOrCreateRegistryString_def)
      then show ?thesis using n(2) [OF True] by (simp add: Pair String_setting string_or_def)
    next
      case False
      then obtain arr' where c: "strcpy_arr ''pszDestValue'' arr d = Inr arr'" "v = String_value arr'"
        using r g by (auto simp: Pair String_setting read_setting_def ReadOrCreateRegistryString_def elim!: and_then_eq_InrE)
      have "NUL \<notin> set d" using f by (simp add: Pair String_setting)
      then have "cstr arr' = d" using strcpy_arr_cstr [OF _ c(1)] by simp
      then show ?thesis using n(1) False c(2) by (simp add: Pair String_setting string_or_def)
    qed
  qed
qed

lemma read_setting_other:
  assumes "read_setting env sect ks reg = Inr (v, reg')" "key \<noteq> fst ks"
  shows "reg_values reg' e key = reg_values reg e key"
proof -
  obtain k s where ks: "ks = (k, s)" by fastforce
  have "reg' = reg \<or> (\<exists>b. SetRegistryValue env reg sect k (setting_type s) (default_bytes s) = Inr (b, reg'))"
    using assms(1) [unfolded ks] by (cases rule: read_setting_cases) auto
  then show ?thesis using assms(2) ks
    by (auto simp: SetRegistryValue_def Let_def split: if_splits elim!: and_then_eq_InrE)
qed

lemma read_settings_value:
  assumes "read_settings env sect tab reg = Inr (vs, reg')" "reg_wf reg" "\<forall>e. may_read env e"
    and "\<forall>ks \<in> set tab. default_fits (snd ks)" "distinct (map fst tab)"
  shows "map setting_view vs = map (setting_view_of reg sect) tab"
  using assms
proof (induction tab arbitrary: reg vs)
  case (Cons ks rest)
  obtain v reg1 vs1 where r: "read_setting env sect ks reg = Inr (v, reg1)"
    "read_settings env sect rest reg1 = Inr (vs1, reg')" "vs = v # vs1"
    using Cons.prems(1) by (auto elim!: and_then_eq_InrE)
  have "setting_view_of reg1 sect x = setting_view_of reg sect x" if "x \<in> set rest" for x
  proof -
    have "fst ks \<notin> fst ` set rest" using Cons.prems(5) by simp
    then have "fst x \<noteq> fst ks" using imageI [OF that, of fst] by metis
    then have "reg_values reg1 e (fst x) = reg_values reg e (fst x)" for e using read_setting_other [OF r(1)] by blast
    then show ?thesis by (cases x; cases "snd x")
      (simp_all add: number_or_def string_or_def stored_number_def stored_string_def)
  qed
  moreover have "map setting_view vs1 = map (setting_view_of reg1 sect) rest"
    using Cons.IH [OF r(2) read_setting_frame(1) [OF r(1) Cons.prems(2)]] Cons.prems by simp
  ultimately show ?case using read_setting_value [OF r(1) Cons.prems(2,3)] Cons.prems(4) r(3) by simp
qed simp

lemma long_value_nth: "map setting_view vs ! n = Inl w \<Longrightarrow> n < length vs \<Longrightarrow> long_value vs n = w"
proof (induction vs n rule: long_value.induct)
  case (2 v vs)
  then show ?case by (cases v) simp_all
qed simp_all

lemma string_value_nth: "map setting_view vs ! n = Inr t \<Longrightarrow> n < length vs \<Longrightarrow> cstr (string_value vs n) = t"
proof (induction vs n rule: string_value.induct)
  case (2 v vs)
  then show ?case by (cases v) simp_all
qed simp_all

lemma server_name_cstr:
  assumes "server_name inst = Inr arr" "NUL \<notin> set inst"
  shows "cstr arr = takeWhile (\<lambda>c. c \<noteq> CHR ''@'') inst"
proof -
  let ?w = "takeWhile (\<lambda>c. c \<noteq> CHR ''@'') inst"
  obtain i where i: "strchr inst (CHR ''@'') = Some i" "copy_in ''g_szServer'' (replicate 400 NUL) (take i inst) = Inr arr"
    using assms(1) by (auto simp: server_name_def nonnull_def split: option.splits elim!: and_then_eq_InrE)
  have "i = length ?w" using i(1) by (simp add: strchr_def split: if_splits)
  then have "take i inst = ?w" using takeWhile_eq_take [of "\<lambda>c. c \<noteq> CHR ''@''" inst] by metis
  moreover have "NUL \<notin> set ?w" using assms(2) by (auto dest: set_takeWhileD)
  moreover have "arr = take i inst @ replicate (400 - length (take i inst)) NUL"
    using i(2) by (simp add: copy_in_def drop_replicate split: if_splits)
  ultimately show ?thesis using cstr_nul_free [of ?w] cstr_zeros by metis
qed

section \<open>Properties\<close>

text \<open>C32: \<open>LoadParam\<close> leaves behind a registry from which the next start reads the same
  parameters: where the entries may be created, a second call returns the same result, the same
  numbers and the same strings, and changes nothing.\<close>

theorem load_param_again:
  assumes "LoadParam env can_alloc instance_arr schema_arr user_arr reg = Inr (ok, p, reg')"
    and "reg_wf reg" and "permitted env (reg_entry (instance_section (cstr instance_arr)))"
  shows "\<exists>p'. LoadParam env can_alloc instance_arr schema_arr user_arr reg' = Inr (ok, p', reg')
            \<and> p'\<lparr>settings := []\<rparr> = p\<lparr>settings := []\<rparr>
            \<and> map setting_view (settings p') = map setting_view (settings p)"
proof -
  let ?s = "instance_section (cstr instance_arr)"
  from assms(1) obtain "read_settings env ?s param_table reg = Inr (settings p, reg')"
    by (rule LoadParam_eq_InrE)
  note rs = this
  note fr = read_settings_frame(2) [OF rs assms(2)]
  obtain vs where vs: "list_all2 (\<lambda>ks v. stored env ?s ks v reg') param_table vs"
    "map setting_view vs = map setting_view (settings p)"
    using read_settings_stored [OF rs assms(3) param_table_ok(1,2)] by blast
  note ag = read_settings_again [OF vs(1)]
  note lv = long_value_view [OF vs(2), of 9]
  show ?thesis
    using assms(1) vs(2) lv
    by (intro exI [of _ "p\<lparr>settings := vs\<rparr>"])
      (auto simp: LoadParam_def GetRegistryString_def fr param_table_ok(3-5) ag c_string_eq_Inr Let_def
        elim!: and_then_eq_InrE)
qed

definition demo_reg_env :: reg_env where
  "demo_reg_env = \<lparr>may_read = \<lambda>s. True, may_create = \<lambda>s. True, may_set = \<lambda>s k. True, more_data = \<lambda>d. d\<rparr>"

definition demo_registry :: registry where
  "demo_registry = \<lparr>reg_sections = \<lambda>s. False, reg_values = \<lambda>s k. None\<rparr>"

lemma demo_load_param:
  "\<exists>p reg'. LoadParam demo_reg_env (\<lambda>n. True) (''srv@db'' @ replicate 394 NUL) (replicate 400 NUL)
      (replicate 100 NUL) demo_registry = Inr (False, p, reg')"
proof -
  have s: "length (reg_entry (instance_section ''srv@db'')) < 512" "length (instance_section ''srv@db'') < 255"
    by (simp_all add: reg_entry_def instance_section_def)
  obtain vs reg' where r: "read_settings demo_reg_env (instance_section ''srv@db'') param_table demo_registry = Inr (vs, reg')"
    using read_settings_total [OF s(1) param_table_ok(1)] by blast
  have g: "GetRegistryValue demo_reg_env demo_registry sect k t buf = Inr (False, buf)" if "length (reg_entry sect) < 512"
    for sect k t buf using that by (simp add: GetRegistryValue_def demo_registry_def)
  have c: "c_string what (''srv@db'' @ replicate 394 NUL) = Inr ''srv@db''"
    "c_string what (''srv'' @ replicate 397 NUL) = Inr ''srv''"
    "c_string what (replicate (numeral k) NUL) = Inr []" for what k
    using c_string_zeros [of "''srv@db''" 394 what] c_string_zeros [of "''srv''" 397 what]
      c_string_zeros [of "[]" "numeral k" what]
    by simp_all
  have n: "server_name ''srv@db'' = Inr (''srv'' @ replicate 397 NUL)"
    by (simp add: server_name_def strchr_def copy_in_def drop_replicate)
  show ?thesis
    using s unfolding LoadParam_def c and_then_Inr n GetRegistryString_def
    by (simp add: g global_section_def c n r reg_entry_def Let_def strcpy_arr_def param_message_def
        instance_section_def [symmetric])
qed

theorem load_param_again_witness:
  "\<exists>p reg' p'. LoadParam demo_reg_env (\<lambda>n. True) (''srv@db'' @ replicate 394 NUL) (replicate 400 NUL)
      (replicate 100 NUL) demo_registry = Inr (False, p, reg')
    \<and> LoadParam demo_reg_env (\<lambda>n. True) (''srv@db'' @ replicate 394 NUL) (replicate 400 NUL)
      (replicate 100 NUL) reg' = Inr (False, p', reg')"
proof -
  obtain p reg' where l: "LoadParam demo_reg_env (\<lambda>n. True) (''srv@db'' @ replicate 394 NUL) (replicate 400 NUL)
      (replicate 100 NUL) demo_registry = Inr (False, p, reg')"
    using demo_load_param by blast
  have "reg_wf demo_registry" "permitted demo_reg_env s" for s
    by (simp_all add: reg_wf_def demo_registry_def permitted_def demo_reg_env_def)
  then show ?thesis using load_param_again [OF l] l by blast
qed

lemma GetRegistryString_length: "GetRegistryString env reg sect k arr = Inr (b, d) \<Longrightarrow> length d = length arr"
  unfolding GetRegistryString_def by (erule GetRegistryValue_cases) auto

text \<open>C36: the parameters are what the registry says: every variable gets the entry of its own key, when the registry has it
  with the right type and in a length that fits, and else its default: the traces are off, the archive of traces has 10
  files, the libraries are \<open>ddBinlogLib\<close> and \<open>ddMySql\<close>, and a line of the listener has 33 kilobytes. The server is the part of the
  instance in front of the at sign, the published database the schema. The call succeeds only when the path, the
  repository and the port are there and both buffers can be allocated; then they are those of the registry.\<close>

theorem load_param_settings:
  assumes "LoadParam env can_alloc instance_arr schema_arr user_arr reg = Inr (ok, p, reg')" and "reg_wf reg"
    and "\<forall>e. may_read env e" and "sect = instance_section (cstr instance_arr)"
  shows "long_value (settings p) 0 = number_or reg sect ''dwTrace'' 0
    \<and> long_value (settings p) 1 = number_or reg sect ''dwTraceLevel'' 0
    \<and> long_value (settings p) 2 = number_or reg sect ''dwTraceMode'' 0
    \<and> long_value (settings p) 3 = number_or reg sect ''dwTraceArchive'' 10
    \<and> long_value (settings p) 4 = number_or reg sect ''TraceLogReader'' 0
    \<and> long_value (settings p) 5 = number_or reg sect ''TraceDuration'' 0
    \<and> long_value (settings p) 6 = number_or reg sect ''TraceDebug'' 0
    \<and> cstr (string_value (settings p) 7) = string_or reg sect ''BinLogLibName'' 512 ''ddBinlogLib''
    \<and> cstr (string_value (settings p) 8) = string_or reg sect ''DbDriverName'' 512 ''ddMySql''
    \<and> par_iMaxBufferLine p = number_or reg sect ''BufferLine'' 33 * 1024
    \<and> long_value (settings p) 10 = number_or reg sect ''CaptureAndProcess'' 0
    \<and> long_value (settings p) 11 = number_or reg sect ''Flush'' 0
    \<and> cstr (g_szServer p) = takeWhile (\<lambda>c. c \<noteq> CHR ''@'') (cstr instance_arr)
    \<and> cstr (g_szDBpub p) = cstr schema_arr
    \<and> (ok \<longleftrightarrow> stored_string reg global_section ''PathSource'' 400 \<noteq> None \<and> stored_string reg sect ''Repository'' 512 \<noteq> None
         \<and> stored_string reg sect ''Port'' 100 \<noteq> None \<and> can_alloc (par_iMaxBufferLine p) \<and> can_alloc 2048)
    \<and> (ok \<longrightarrow> stored_string reg global_section ''PathSource'' 400 = Some (cstr (g_szPathSource p))
         \<and> stored_string reg sect ''Repository'' 512 = Some (cstr (g_szDataBaseName p))
         \<and> stored_string reg sect ''Port'' 100 = Some (cstr (g_szPort p)) \<and> g_iPort p = atol (cstr (g_szPort p)))"
proof -
  obtain ok1 ok2 ok3 where l: "GetRegistryString env reg global_section ''PathSource'' (replicate 400 NUL) = Inr (ok1, g_szPathSource p)"
    "GetRegistryString env reg sect ''Repository'' (replicate 512 NUL) = Inr (ok2, g_szDataBaseName p)"
    "GetRegistryString env reg sect ''Port'' (replicate 100 NUL) = Inr (ok3, g_szPort p)"
    "server_name (cstr instance_arr) = Inr (g_szServer p)" "read_settings env sect param_table reg = Inr (settings p, reg')"
    "par_iMaxBufferLine p = long_value (settings p) 9 * 1024"
    "ok \<longleftrightarrow> ok1 \<and> ok2 \<and> ok3 \<and> can_alloc (par_iMaxBufferLine p) \<and> can_alloc 2048"
    "ok3 \<Longrightarrow> g_iPort p = atol (cstr (g_szPort p))" "cstr (g_szDBpub p) = cstr schema_arr"
    by (rule LoadParam_parts [OF assms(1)]) (simp add: assms(4))
  note g = l(1-3) [unfolded GetRegistryString_def]
  note st = string_read [OF g(1) assms(2,3)] string_read [OF g(2) assms(2,3)] string_read [OF g(3) assms(2,3)]
  have v: "map setting_view (settings p) = map (setting_view_of reg sect) param_table"
    by (rule read_settings_value [OF l(5) assms(2,3) param_table_ok(1,2)])
  then have len: "length (settings p) = 12" by (metis length_map param_table_length)
  note w = long_value_nth [of "settings p", unfolded v len param_table_def] string_value_nth [of "settings p", unfolded v len param_table_def]
  have n: "long_value (settings p) 0 = number_or reg sect ''dwTrace'' 0" "long_value (settings p) 1 = number_or reg sect ''dwTraceLevel'' 0"
    "long_value (settings p) 2 = number_or reg sect ''dwTraceMode'' 0" "long_value (settings p) 3 = number_or reg sect ''dwTraceArchive'' 10"
    "long_value (settings p) 4 = number_or reg sect ''TraceLogReader'' 0" "long_value (settings p) 5 = number_or reg sect ''TraceDuration'' 0"
    "long_value (settings p) 6 = number_or reg sect ''TraceDebug'' 0" "long_value (settings p) 9 = number_or reg sect ''BufferLine'' 33"
    "long_value (settings p) 10 = number_or reg sect ''CaptureAndProcess'' 0" "long_value (settings p) 11 = number_or reg sect ''Flush'' 0"
    by (rule w(1); simp)+
  have t: "cstr (string_value (settings p) 7) = string_or reg sect ''BinLogLibName'' 512 ''ddBinlogLib''"
    "cstr (string_value (settings p) 8) = string_or reg sect ''DbDriverName'' 512 ''ddMySql''"
    by (rule w(2); simp)+
  have sv: "cstr (g_szServer p) = takeWhile (\<lambda>c. c \<noteq> CHR ''@'') (cstr instance_arr)" by (rule server_name_cstr [OF l(4)]) simp
  have k: "ok \<longrightarrow> stored_string reg global_section ''PathSource'' 400 = Some (cstr (g_szPathSource p))
         \<and> stored_string reg sect ''Repository'' 512 = Some (cstr (g_szDataBaseName p))
         \<and> stored_string reg sect ''Port'' 100 = Some (cstr (g_szPort p)) \<and> g_iPort p = atol (cstr (g_szPort p))"
    using l(7,8) st(2,5,8) by blast
  show ?thesis using n t sv l(6,9) k l(7) st(1,4,7) by (simp only: simp_thms)
qed

theorem load_param_settings_witness:
  "\<exists>p reg'. LoadParam demo_reg_env (\<lambda>n. True) (''srv@db'' @ replicate 394 NUL) (replicate 400 NUL)
      (replicate 100 NUL) demo_registry = Inr (False, p, reg') \<and> par_iMaxBufferLine p = 33 * 1024
      \<and> cstr (string_value (settings p) 8) = ''ddMySql'' \<and> cstr (g_szServer p) = ''srv''"
proof -
  obtain p reg' where l: "LoadParam demo_reg_env (\<lambda>n. True) (''srv@db'' @ replicate 394 NUL) (replicate 400 NUL)
      (replicate 100 NUL) demo_registry = Inr (False, p, reg')"
    using demo_load_param by blast
  have "reg_wf demo_registry" by (simp add: reg_wf_def demo_registry_def)
  moreover have "cstr (''srv@db'' @ replicate 394 NUL) = ''srv@db''" using cstr_zeros [of "''srv@db''" 394] by (simp add: cstr_nul_free)
  moreover have "number_or demo_registry s k d = d" "string_or demo_registry s k n t = t" for s k d n t
    by (simp_all add: number_or_def string_or_def stored_number_def stored_string_def demo_registry_def)
  ultimately show ?thesis using load_param_settings [OF l _ _ refl] l by (simp add: demo_reg_env_def)
qed

end
