(* ===== verification/Checkpoint.thy ===== *)
theory Checkpoint
  imports Dd_Strings
begin

text \<open>
  The checkpoint of the capture, \<open>BinLogSequence\<close>, and the \<open>.XAI\<close> file that keeps it across
  runs: \<open>InitParam\<close> opens and reads it, \<open>SaveInDisk\<close> writes it after every processed row
  and at every commit, \<open>DspXAI\<close> and \<open>CrtXAI\<close> are the command line tools that show and
  create it. The file holds the 58 bytes of the packed structure (\<open>#pragma pack (1)\<close> in
  \<open>StdAfx.h\<close>): the name's array of 50 bytes and two 32 bit values.

  The files of the disk are a map from path to contents; which paths can be opened is a
  parameter. A write is given the number of bytes that \<open>fwrite\<close> manages to store, because
  \<open>SaveInDisk\<close> does not check it.
\<close>

section \<open>Data\<close>

record BinLogSequence =
  szBinLogName :: "char list"
  ulPosition :: u32
  ulIndex :: u32

record BinLogInfo =
  bi_szBinLogName :: "char list"
  bi_ulSize :: u32
  bi_ulPosition :: u32

definition NAME_LEN :: nat where "NAME_LEN = 50"
definition SEQ_LEN :: nat where "SEQ_LEN = 58"

definition zero_seq :: BinLogSequence where
  "zero_seq = \<lparr>szBinLogName = replicate 50 NUL, ulPosition = 0, ulIndex = 0\<rparr>"

definition bytes_of_seq :: "BinLogSequence \<Rightarrow> char list" where
  "bytes_of_seq s = szBinLogName s @ le32 (ulPosition s) @ le32 (ulIndex s)"

definition seq_of_bytes :: "char list \<Rightarrow> BinLogSequence" where
  "seq_of_bytes bs = \<lparr>szBinLogName = take 50 bs, ulPosition = un_le32 (take 4 (drop 50 bs)),
                      ulIndex = un_le32 (take 4 (drop 54 bs))\<rparr>"

definition bytes_of_info :: "BinLogInfo \<Rightarrow> char list" where
  "bytes_of_info i = bi_szBinLogName i @ le32 (bi_ulSize i) @ le32 (bi_ulPosition i)"

definition wf_seq :: "BinLogSequence \<Rightarrow> bool" where
  "wf_seq s \<longleftrightarrow> length (szBinLogName s) = 50"

definition seq_name :: "BinLogSequence \<Rightarrow> string" where
  "seq_name s = cstr (szBinLogName s)"

record ckpt =
  disk :: "string \<Rightarrow> char list option"
  g_pFileJrnTransact :: "string option"
  g_stBinLogSeq :: BinLogSequence
  g_stBinLogSeqInProgess :: BinLogSequence
  g_StBinLogSequenceXai :: BinLogSequence
  g_nSaveInDiskIndex :: int
  g_cSaveInDiskThread :: char

section \<open>Operations\<close>

text \<open>Overwriting the start of a file, as \<open>fseek(f, 0, SEEK_SET)\<close> and \<open>fwrite\<close> do.\<close>

definition overwrite :: "char list \<Rightarrow> char list \<Rightarrow> char list" where
  "overwrite bs old = bs @ drop (length bs) old"

text \<open>The ways in which the files are opened with \<open>fopen\<close>: \<open>r\<close> (only to see whether a file exists, in
  \<open>FileExist\<close>), \<open>r+b\<close> (an existing file, to be overwritten) and \<open>w+b\<close> (a new or emptied file). Which of them the
  operating system allows is a parameter: a file may be readable and yet not open for writing.\<close>

datatype open_mode = Mode_r | Mode_r_plus | Mode_w_plus

definition FileExist :: "(open_mode \<Rightarrow> string \<Rightarrow> bool) \<Rightarrow> (string \<Rightarrow> char list option) \<Rightarrow> string \<Rightarrow> bool" where
  "FileExist can_open d path \<longleftrightarrow> d path \<noteq> None \<and> can_open Mode_r path"

definition xai_path :: "string \<Rightarrow> string" where
  "xai_path jrn = jrn @ ''.XAI''"

definition InitParam :: "(open_mode \<Rightarrow> string \<Rightarrow> bool) \<Rightarrow> string \<Rightarrow> ckpt \<Rightarrow> (bool \<times> ckpt) res" where
  "InitParam can_open g_szJrnName st =
     and_then (into_buffer ''szJrnTransact'' 400 (xai_path g_szJrnName)) (\<lambda>path.
       let st0 = st\<lparr>g_stBinLogSeq := zero_seq\<rparr>
       in if \<not> FileExist can_open (disk st) path then
            (if can_open Mode_w_plus path
             then Inr (True, st0\<lparr>disk := (disk st)(path \<mapsto> []), g_pFileJrnTransact := Some path\<rparr>)
             else Inr (False, st0\<lparr>g_pFileJrnTransact := None\<rparr>))
          else if \<not> can_open Mode_r_plus path then Inr (False, st0\<lparr>g_pFileJrnTransact := None\<rparr>)
          else
            (let content = the (disk st path);
                 rd = take SEQ_LEN content
             in Inr (True, st0\<lparr>g_pFileJrnTransact := Some path,
                  g_stBinLogSeq := seq_of_bytes (overwrite rd (bytes_of_seq zero_seq))\<rparr>)))"

definition SaveInDisk :: "nat \<Rightarrow> string \<Rightarrow> int \<Rightarrow> BinLogSequence \<Rightarrow> ckpt \<Rightarrow> ckpt" where
  "SaveInDisk written pszThread idx pBinLogSeq st =
     (case g_pFileJrnTransact st of
        None \<Rightarrow> st
      | Some path \<Rightarrow>
          st\<lparr>g_StBinLogSequenceXai := pBinLogSeq, g_nSaveInDiskIndex := idx,
             g_cSaveInDiskThread := hd (pszThread @ [NUL]),
             disk := (disk st)(path \<mapsto>
               overwrite (take written (bytes_of_seq pBinLogSeq))
                         (case disk st path of None \<Rightarrow> [] | Some c \<Rightarrow> c))\<rparr>)"

text \<open>What \<open>DspXAI\<close> prints for a file's contents (\<open>None\<close> when the file cannot be opened).\<close>

definition DspXAI :: "string \<Rightarrow> char list option \<Rightarrow> string res" where
  "DspXAI pszPathName contents =
     (case contents of
        None \<Rightarrow> Inr (''Error open '' @ pszPathName @ [NL])
      | Some c \<Rightarrow>
          (let rd = take SEQ_LEN c; stSequence = seq_of_bytes rd
           in if length rd = SEQ_LEN then
                (if NUL \<in> set rd
                 then Inr (''BinLogName:<'' @ cstr rd @ ''> Position:'' @ show_dec (unat (ulPosition stSequence))
                           @ '' Index:'' @ show_dec (unat (ulIndex stSequence)) @ [NL])
                 else Inl (Out_of_bounds ''stSequence''))
              else if length rd = 0
              then Inr (''read '' @ pszPathName @ '' no data available'' @ [NL])
              else Inr (''Error read '' @ pszPathName @ '' read:'' @ show_dec (length rd)
                        @ '' expected:'' @ show_dec SEQ_LEN @ [NL])))"

text \<open>
  \<open>CrtXAI\<close> fills a local \<open>BinLogSequence\<close> that is not initialised (\<open>stack\<close> is what its bytes
  happen to hold) and writes it over the start of the file, keeping a copy of an existing
  file under \<open>.bak\<close> (\<open>can_copy\<close> is the outcome of \<open>CopyFile\<close>, which is only printed).
\<close>

definition CrtXAI ::
  "(open_mode \<Rightarrow> string \<Rightarrow> bool) \<Rightarrow> bool \<Rightarrow> BinLogSequence \<Rightarrow> string \<Rightarrow> string \<Rightarrow> string \<Rightarrow> string
   \<Rightarrow> (string \<Rightarrow> char list option) \<Rightarrow> (string \<times> (string \<Rightarrow> char list option)) res" where
  "CrtXAI can_open can_copy stack pszPathName pszBinLogName pszPosition pszIndex d =
     and_then (strcpy_arr ''szBinLogName'' (szBinLogName stack) pszBinLogName) (\<lambda>arr.
       let stSequence = \<lparr>szBinLogName = arr, ulPosition = of_int (atol pszPosition),
                         ulIndex = of_int (atol pszIndex)\<rparr>;
           created = (\<lambda>d'. (pszPathName @ '' created with ['' @ pszBinLogName @ '']['' @
                       show_dec (unat (ulPosition stSequence)) @ '']['' @
                       show_dec (unat (ulIndex stSequence)) @ '']'' @ [NL], d'));
           failed = ''Error create '' @ pszPathName @ [NL]
       in if \<not> FileExist can_open d pszPathName then
            (if can_open Mode_w_plus pszPathName
             then Inr (created (d(pszPathName \<mapsto> bytes_of_seq stSequence)))
             else Inr (failed, d))
          else
            and_then (into_buffer ''szBackupName'' 512 (pszPathName @ ''.bak'')) (\<lambda>bak.
              let d' = (if can_copy then d(bak := d pszPathName) else d);
                  msg = ''Copy '' @ pszPathName @ '' to '' @ bak @ '' result:'' @
                        (if can_copy then ''1'' else ''0'') @ [NL];
                  c = (if can_open Mode_r_plus pszPathName
                       then created (d'(pszPathName \<mapsto> overwrite (bytes_of_seq stSequence) (the (d' pszPathName))))
                       else (failed, d'))
              in Inr (msg @ fst c, snd c)))"

section \<open>The packed structure\<close>

lemma wf_zero_seq [simp]: "wf_seq zero_seq"
  by (simp add: wf_seq_def zero_seq_def)

lemma length_bytes_of_seq: "wf_seq s \<Longrightarrow> length (bytes_of_seq s) = SEQ_LEN"
  by (simp add: bytes_of_seq_def wf_seq_def SEQ_LEN_def)

lemma seq_of_bytes_of_seq: "wf_seq s \<Longrightarrow> seq_of_bytes (bytes_of_seq s @ rest) = s"
  by (simp add: seq_of_bytes_def bytes_of_seq_def wf_seq_def)

lemma take_bytes_of_seq: "wf_seq s \<Longrightarrow> take SEQ_LEN (bytes_of_seq s @ rest) = bytes_of_seq s"
  using length_bytes_of_seq [of s] by simp

lemma overwrite_same_length [simp]: "length bs = length old \<Longrightarrow> overwrite bs old = bs"
  by (simp add: overwrite_def)

section \<open>A store that keeps the last checkpoint\<close>

text \<open>
  The contract between the threads, which save checkpoints, and a later run, which loads
  one: \<open>load\<close> returns what the last \<open>save\<close> stored.
\<close>

locale checkpoint_store =
  fixes save :: "'seq \<Rightarrow> 'store \<Rightarrow> 'store"
    and load :: "'store \<Rightarrow> 'seq option"
    and valid :: "'seq \<Rightarrow> bool"
    and usable :: "'store \<Rightarrow> bool"
  assumes load_save: "usable d \<Longrightarrow> valid s \<Longrightarrow> load (save s d) = Some s"
    and usable_save: "usable d \<Longrightarrow> valid s \<Longrightarrow> usable (save s d)"
begin

lemma usable_saves: "usable d \<Longrightarrow> (\<forall>s \<in> set ss. valid s) \<Longrightarrow> usable (fold save ss d)"
  by (induction ss arbitrary: d) (auto simp: usable_save)

lemma load_last_save:
  assumes "usable d" and "\<forall>s \<in> set ss. valid s" and "ss \<noteq> []"
  shows "load (fold save ss d) = Some (last ss)"
proof -
  obtain ts t where ss: "ss = ts @ [t]" using assms(3) by (cases ss rule: rev_cases) auto
  then have "usable (fold save ts d)" using assms by (simp add: usable_saves)
  then show ?thesis using assms ss by (simp add: load_save)
qed

end

text \<open>Loading is what \<open>InitParam\<close> of the next run leaves in \<open>g_stBinLogSeq\<close>.\<close>

definition restart_seq :: "string \<Rightarrow> ckpt \<Rightarrow> BinLogSequence option" where
  "restart_seq jrn st = (case InitParam (\<lambda>_ _. True) jrn st of
       Inr (True, st') \<Rightarrow> Some (g_stBinLogSeq st') | _ \<Rightarrow> None)"

definition xai_open :: "string \<Rightarrow> ckpt \<Rightarrow> bool" where
  "xai_open jrn st \<longleftrightarrow> g_pFileJrnTransact st = Some (xai_path jrn) \<and> length (xai_path jrn) < 400"

lemma SaveInDisk_full_disk:
  assumes "xai_open jrn st" and "wf_seq s"
  shows "\<exists>rest. disk (SaveInDisk SEQ_LEN t i s st) (xai_path jrn) = Some (bytes_of_seq s @ rest)"
  using assms by (simp add: SaveInDisk_def xai_open_def overwrite_def length_bytes_of_seq)

lemma InitParam_reads:
  assumes "disk st (xai_path jrn) = Some (bytes_of_seq s @ rest)" and "wf_seq s"
    and "length (xai_path jrn) < 400"
  shows "restart_seq jrn st = Some s"
  using assms seq_of_bytes_of_seq [of s "[]"]
  by (simp add: restart_seq_def InitParam_def FileExist_def Let_def take_bytes_of_seq overwrite_def
      length_bytes_of_seq)

interpretation xai: checkpoint_store "SaveInDisk SEQ_LEN t i" "restart_seq jrn" wf_seq "xai_open jrn"
  for t :: string and i :: int and jrn :: string
proof unfold_locales
  fix st s
  assume a: "xai_open jrn st" and w: "wf_seq s"
  obtain rest where "disk (SaveInDisk SEQ_LEN t i s st) (xai_path jrn) = Some (bytes_of_seq s @ rest)"
    using SaveInDisk_full_disk [OF a w] by blast
  then show "restart_seq jrn (SaveInDisk SEQ_LEN t i s st) = Some s"
    using w a by (intro InitParam_reads) (auto simp: xai_open_def)
  show "xai_open jrn (SaveInDisk SEQ_LEN t i s st)"
    using a by (simp add: SaveInDisk_def xai_open_def)
qed

section \<open>Properties\<close>

text \<open>C28: a run resumes where the previous one stopped: after any sequence of checkpoints that
  \<open>SaveInDisk\<close> stored in full, \<open>InitParam\<close> of the next run reads back the last one.\<close>

theorem InitParam_resumes_last_save:
  assumes "xai_open jrn st" and "\<forall>s \<in> set ss. wf_seq s" and "ss \<noteq> []"
  shows "\<exists>st'. InitParam (\<lambda>_ _. True) jrn (fold (SaveInDisk SEQ_LEN t i) ss st) = Inr (True, st')
               \<and> g_stBinLogSeq st' = last ss
               \<and> g_pFileJrnTransact st' = Some (xai_path jrn)"
proof -
  have o': "xai_open jrn (fold (SaveInDisk SEQ_LEN t i) ss st)"
    using assms(1,2) by (rule xai.usable_saves)
  have "restart_seq jrn (fold (SaveInDisk SEQ_LEN t i) ss st) = Some (last ss)"
    using assms by (rule xai.load_last_save)
  then show ?thesis using o'
    by (auto simp: restart_seq_def InitParam_def FileExist_def xai_open_def Let_def split: sum.splits prod.splits bool.splits if_splits)
qed

definition demo_ckpt :: ckpt where
  "demo_ckpt = \<lparr>disk = (\<lambda>_. None), g_pFileJrnTransact = Some ''j.XAI'', g_stBinLogSeq = zero_seq,
     g_stBinLogSeqInProgess = zero_seq, g_StBinLogSequenceXai = zero_seq, g_nSaveInDiskIndex = 0,
     g_cSaveInDiskThread = CHR ''X''\<rparr>"

theorem InitParam_resumes_last_save_witness:
  "\<exists>st'. InitParam (\<lambda>_ _. True) ''j'' (fold (SaveInDisk SEQ_LEN ''B'' 2)
            [zero_seq, zero_seq\<lparr>ulPosition := 120\<rparr>] demo_ckpt) = Inr (True, st')
         \<and> g_stBinLogSeq st' = zero_seq\<lparr>ulPosition := 120\<rparr>
         \<and> g_pFileJrnTransact st' = Some ''j.XAI''"
  using InitParam_resumes_last_save
    [of "''j''" demo_ckpt "[zero_seq, zero_seq\<lparr>ulPosition := 120\<rparr>]" "''B''" 2]
  by (simp add: xai_open_def demo_ckpt_def xai_path_def wf_seq_def zero_seq_def)

text \<open>A file that can be read but not written is a failure of the start, and loses nothing; a file that
  cannot be read but written is taken for a missing one and emptied, so that the capture forgets where it was.\<close>

lemma readable_file_needs_update:
  assumes "disk st (xai_path jrn) = Some content" and "length (xai_path jrn) < 400"
    and "can_open Mode_r (xai_path jrn)" and "\<not> can_open Mode_r_plus (xai_path jrn)"
  shows "\<exists>st'. InitParam can_open jrn st = Inr (False, st') \<and> disk st' = disk st \<and> g_pFileJrnTransact st' = None"
  using assms by (simp add: InitParam_def FileExist_def Let_def)

lemma unreadable_file_forgotten:
  assumes "length (xai_path jrn) < 400" and "\<not> can_open Mode_r (xai_path jrn)" and "can_open Mode_w_plus (xai_path jrn)"
  shows "\<exists>st'. InitParam can_open jrn st = Inr (True, st') \<and> disk st' (xai_path jrn) = Some []
    \<and> g_stBinLogSeq st' = zero_seq"
  using assms by (simp add: InitParam_def FileExist_def Let_def)

text \<open>The write is not atomic: when \<open>fwrite\<close> stores only the name (50 bytes of the 58), the
  file keeps the position and index of the previous checkpoint, and the next run resumes at the
  new name with the old position.\<close>

theorem SaveInDisk_short_write_mixes:
  assumes "xai_open jrn st" and "wf_seq old" and "wf_seq s"
  shows "restart_seq jrn (SaveInDisk 50 t j s (SaveInDisk SEQ_LEN t i old st))
         = Some (old\<lparr>szBinLogName := szBinLogName s\<rparr>)"
proof -
  let ?m = "old\<lparr>szBinLogName := szBinLogName s\<rparr>"
  obtain rest where r: "disk (SaveInDisk SEQ_LEN t i old st) (xai_path jrn) = Some (bytes_of_seq old @ rest)"
    using SaveInDisk_full_disk assms by blast
  have o1: "xai_open jrn (SaveInDisk SEQ_LEN t i old st)"
    using assms(1,2) by (rule xai.usable_save)
  have "take 50 (bytes_of_seq s) @ drop 50 (bytes_of_seq old @ rest) = bytes_of_seq ?m @ rest"
    using assms by (simp add: bytes_of_seq_def wf_seq_def)
  moreover have "length (take 50 (bytes_of_seq s)) = 50"
    using assms length_bytes_of_seq [of s] by (simp add: SEQ_LEN_def)
  ultimately have "disk (SaveInDisk 50 t j s (SaveInDisk SEQ_LEN t i old st)) (xai_path jrn)
                   = Some (bytes_of_seq ?m @ rest)"
    using o1 r by (simp add: SaveInDisk_def [of 50] xai_open_def overwrite_def)
  then show ?thesis
    using assms o1 by (intro InitParam_reads) (auto simp: wf_seq_def xai_open_def)
qed

theorem SaveInDisk_short_write_mixes_witness:
  "restart_seq ''j'' (SaveInDisk 50 ''B'' 2 zero_seq
      (SaveInDisk SEQ_LEN ''B'' 1 (zero_seq\<lparr>ulPosition := 77\<rparr>) demo_ckpt))
   = Some (zero_seq\<lparr>ulPosition := 77\<rparr>)"
  using SaveInDisk_short_write_mixes [of "''j''" demo_ckpt "zero_seq\<lparr>ulPosition := 77\<rparr>" zero_seq "''B''" 2 1]
  by (simp add: xai_open_def demo_ckpt_def xai_path_def wf_seq_def zero_seq_def)

text \<open>\<open>CrtXAI\<close> followed by \<open>DspXAI\<close> shows the name and the numbers given on the command
  line, for numbers up to \<open>LONG_MAX\<close>.\<close>

theorem CrtXAI_DspXAI:
  assumes "length name < 50" and "NUL \<notin> set name" and "wf_seq stack"
    and "int p \<le> long_max" and "int x \<le> long_max" and "length path < 508"
    and "CrtXAI (\<lambda>_ _. True) cp stack path name (show_dec p) (show_dec x) d = Inr (msg, d')"
  shows "DspXAI path (d' path) = Inr (''BinLogName:<'' @ name @ ''> Position:'' @ show_dec p
           @ '' Index:'' @ show_dec x @ [NL])"
proof -
  define arr where "arr = name @ NUL # drop (Suc (length name)) (szBinLogName stack)"
  define q where "q = \<lparr>szBinLogName = arr, ulPosition = of_int (int p), ulIndex = of_int (int x)\<rparr>"
  have len: "length arr = 50" using assms(1,3) by (simp add: arr_def wf_seq_def)
  then have wq: "wf_seq q" by (simp add: q_def wf_seq_def)
  have up: "unat (of_int (int p) :: u32) = p" "unat (of_int (int x) :: u32) = x"
    using assms(4,5) by (simp_all add: long_max_def take_bit_nat_eq_self unsigned_of_nat)
  have crt: "\<exists>rest. d' path = Some (bytes_of_seq q @ rest)"
    using assms by (auto simp: CrtXAI_def FileExist_def strcpy_arr_def wf_seq_def Let_def atol_show_dec q_def arr_def
        overwrite_def split: if_splits elim!: and_then_eq_InrE)
  then obtain rest where r: "d' path = Some (bytes_of_seq q @ rest)" ..
  have b: "bytes_of_seq q = name @ NUL # drop (Suc (length name)) (szBinLogName stack) @ le32 (ulPosition q) @ le32 (ulIndex q)"
    by (simp add: bytes_of_seq_def q_def arr_def)
  have c: "cstr (bytes_of_seq q) = name" and n: "NUL \<in> set (bytes_of_seq q)"
    using b assms(2) by simp_all
  show ?thesis
    using r wq c n up seq_of_bytes_of_seq [OF wq, of "[]"]
    by (simp add: DspXAI_def Let_def take_bytes_of_seq length_bytes_of_seq q_def)
qed

theorem CrtXAI_DspXAI_witness:
  "DspXAI ''p'' (snd (projr (CrtXAI (\<lambda>_ _. True) True zero_seq ''p'' ''b.01'' (show_dec 4) (show_dec 0)
       (\<lambda>_. None))) ''p'')
   = Inr (''BinLogName:<b.01> Position:'' @ show_dec 4 @ '' Index:'' @ show_dec 0 @ [NL])"
proof -
  define r where "r = CrtXAI (\<lambda>_ _. True) True zero_seq ''p'' ''b.01'' (show_dec 4) (show_dec 0) (\<lambda>_. None)"
  have "\<exists>m d'. r = Inr (m, d')"
    by (simp add: r_def CrtXAI_def FileExist_def strcpy_arr_def zero_seq_def Let_def)
  then obtain m d' where r: "r = Inr (m, d')" by blast
  show ?thesis
    using CrtXAI_DspXAI [of "''b.01''" zero_seq 4 0 "''p''" True "\<lambda>_. None" m d'] r
    by (simp add: r_def long_max_def)
qed

end
