(* ===== verification/Capture_Files.thy ===== *)
theory Capture_Files
  imports Dd_Strings
begin

text \<open>
  The capture files \<open><journal>_capture_<number>.jrn\<close>: \<open>BuildCaptureList\<close> lists those of earlier
  runs, \<open>OpenCapture\<close> marks the end of the current one (\<open>EOF\<close> mark) and opens the next
  (\<open>SOF\<close> mark), \<open>ChangeJournal\<close> does so while the capture runs.

  The files are a map from path to contents. The environment says which paths can be opened and
  written, what the clock shows, and in which order \<open>FindFirstFile\<close> and \<open>FindNextFile\<close> return
  the names that match. A write that fails stores nothing. Trace output and the text of error
  messages are not modelled.
\<close>

section \<open>Data\<close>

record io_env =
  can_open :: "string \<Rightarrow> bool"
  can_write :: "string \<Rightarrow> bool"
  now :: string

record StructCapture =
  szFullFileName :: string
  szFileName :: string
  sc_ulSize :: u32
  ulNum :: u32

record cap =
  files :: "string \<Rightarrow> char list option"
  g_pFileCapture :: "string option"
  g_szPathCapture :: string
  g_szPathCaptureMemo :: string
  g_szJrn_WithoutExtention :: string
  g_lCaptureAndProcess :: int
  g_ulCaptureSize :: u32
  g_ulCaptureCount :: u32
  g_ulCaptureNum :: u32
  g_ulCaptureMax :: u32

definition MAX_PATH :: nat where "MAX_PATH = 260"

definition append_file :: "string \<Rightarrow> char list \<Rightarrow> (string \<Rightarrow> char list option) \<Rightarrow> (string \<Rightarrow> char list option)" where
  "append_file path bs fs = fs(path \<mapsto> (case fs path of None \<Rightarrow> [] | Some c \<Rightarrow> c) @ bs)"

definition mark :: "string \<Rightarrow> string \<Rightarrow> u32 \<Rightarrow> string \<Rightarrow> char list" where
  "mark kind path num date =
     ''*!'' @ kind @ ''!'' @ path @ ''!'' @ show_dec (unat num) @ ''!'' @ date @ ''!*'' @ [NL]"

definition capture_path :: "string \<Rightarrow> u32 \<Rightarrow> string" where
  "capture_path jrn num = jrn @ ''_capture_'' @ show_dec_pad 10 (unat num) @ ''.jrn''"

section \<open>The files of earlier runs\<close>

definition ddGetFileSize :: "(string \<Rightarrow> char list option) \<Rightarrow> string \<Rightarrow> u32" where
  "ddGetFileSize fs pszFileName =
     (case fs pszFileName of None \<Rightarrow> 0 | Some c \<Rightarrow> of_nat (length c))"

text \<open>
  The number between \<open>_capture_\<close> and the next dot is copied into an array of 11 bytes that was
  cleared; eleven digits leave no terminating null byte for \<open>atol\<close>.
\<close>

definition capture_number :: "string \<Rightarrow> u32 res" where
  "capture_number szFile =
     and_then (nonnull ''pCapture'' (strstr szFile ''_capture_'')) (\<lambda>i.
       let pCapture = drop i szFile in
       and_then (nonnull ''pDot'' (strchr pCapture (CHR ''.''))) (\<lambda>pDot.
         if pDot < 9 \<or> 11 \<le> pDot - 9 then Inl (Out_of_bounds ''szNum'')
         else Inr (of_int (atol (take (pDot - 9) (drop 9 pCapture))))))"

definition capture_node :: "(string \<Rightarrow> char list option) \<Rightarrow> string \<Rightarrow> string \<Rightarrow> StructCapture res" where
  "capture_node fs szPath cFileName =
     and_then (into_buffer ''szFileName'' MAX_PATH cFileName) (\<lambda>fname.
     and_then (into_buffer ''szFullFileName'' MAX_PATH (szPath @ CHR 0x5C # fname)) (\<lambda>full.
     and_then (capture_number fname) (\<lambda>num.
       Inr \<lparr>szFullFileName = full, szFileName = fname, sc_ulSize = ddGetFileSize fs full,
            ulNum = num\<rparr>)))"

definition BuildCaptureList :: "(string \<Rightarrow> char list option) \<Rightarrow> string list \<Rightarrow> string \<Rightarrow> StructCapture list res" where
  "BuildCaptureList fs listing pszJrn_WithoutExtention =
     and_then (into_buffer ''szPath'' MAX_PATH pszJrn_WithoutExtention) (\<lambda>p.
     and_then (nonnull ''pszFile'' (strrchr p (CHR 0x5C))) (\<lambda>i.
     and_then (into_buffer ''szSearchName'' MAX_PATH (pszJrn_WithoutExtention @ ''_capture_*.jrn'')) (\<lambda>_.
       map_res (capture_node fs (take i p)) listing)))"

fun GetLastCaptureList :: "StructCapture list \<Rightarrow> StructCapture option" where
  "GetLastCaptureList [] = None"
| "GetLastCaptureList [x] = Some x"
| "GetLastCaptureList (x # y # xs) = GetLastCaptureList (y # xs)"

section \<open>Opening and changing\<close>

definition capture_max :: "int \<Rightarrow> u32" where
  "capture_max n = (if n = 1 then 1024 * 1000 * 1000
                    else if 1 < n then of_int (1024 * 1000 * n)
                    else 1024 * 1000 * 1000)"

text \<open>
  The first run of \<open>OpenCapture\<close> (\<open>fChange\<close> false): number the new file after the last one
  found and mark that one's end.
\<close>

definition close_last :: "io_env \<Rightarrow> string list \<Rightarrow> cap \<Rightarrow> (bool \<times> cap) res" where
  "close_last env listing st =
     and_then (BuildCaptureList (files st) listing (g_szJrn_WithoutExtention st)) (\<lambda>pStList.
       case GetLastCaptureList pStList of
         None \<Rightarrow> Inr (True, st\<lparr>g_ulCaptureNum := 1, g_ulCaptureSize := 0\<rparr>)
       | Some pStLast \<Rightarrow>
           (let path = szFullFileName pStLast;
                num = ulNum pStLast + 1;
                st' = st\<lparr>g_ulCaptureNum := num, g_ulCaptureSize := sc_ulSize pStLast,
                         g_szPathCaptureMemo := path\<rparr>
            in if files st path \<noteq> None \<and> can_open env path then
                 (if can_write env path
                  then Inr (True, st'\<lparr>g_pFileCapture := None,
                              files := append_file path (mark ''EOF'' path num (now env)) (files st)\<rparr>)
                  else Inr (False, st'\<lparr>g_pFileCapture := None\<rparr>))
               else Inr (False, st'\<lparr>g_pFileCapture := None\<rparr>)))"

text \<open>While the capture runs (\<open>fChange\<close> true): mark the end of the current file and close it.\<close>

definition close_current :: "io_env \<Rightarrow> cap \<Rightarrow> (bool \<times> cap) res" where
  "close_current env st =
     and_then (nonnull ''g_pFileCapture'' (g_pFileCapture st)) (\<lambda>path.
       let num = g_ulCaptureNum st + 1;
           st' = st\<lparr>g_ulCaptureNum := num, g_pFileCapture := None\<rparr>
       in if can_write env path
          then Inr (True, st'\<lparr>files := append_file path (mark ''EOF'' (g_szPathCaptureMemo st) num (now env)) (files st)\<rparr>)
          else Inr (False, st'))"

definition open_new :: "io_env \<Rightarrow> bool \<Rightarrow> cap \<Rightarrow> (bool \<times> cap) res" where
  "open_new env fReturn st =
     and_then (into_buffer ''g_szPathCapture'' MAX_PATH
                 (capture_path (g_szJrn_WithoutExtention st) (g_ulCaptureNum st))) (\<lambda>path.
       let st1 = st\<lparr>g_ulCaptureSize := 0, g_ulCaptureCount := 0, g_szPathCapture := path,
                    g_szPathCaptureMemo := path\<rparr>
       in if \<not> can_open env path then Inr (False, st1\<lparr>g_pFileCapture := None\<rparr>)
          else let sof = mark ''SOF'' path (g_ulCaptureNum st) (now env);
                   st2 = st1\<lparr>g_ulCaptureCount := 1, g_pFileCapture := Some path\<rparr>
               in if can_write env path
                  then Inr (fReturn, st2\<lparr>g_ulCaptureSize := of_nat (length sof),
                              files := append_file path sof (files st)\<rparr>)
                  else Inr (False, st2\<lparr>files := append_file path [] (files st)\<rparr>))"

definition OpenCapture :: "io_env \<Rightarrow> string list \<Rightarrow> bool \<Rightarrow> cap \<Rightarrow> (bool \<times> cap) res" where
  "OpenCapture env listing fChange st0 =
     (let st = st0\<lparr>g_ulCaptureMax := capture_max (g_lCaptureAndProcess st0)\<rparr>
      in and_then (if fChange then close_current env st else close_last env listing st)
           (\<lambda>(ok, st'). open_new env ok st'))"

definition ChangeJournal :: "io_env \<Rightarrow> cap \<Rightarrow> (bool \<times> cap) res" where
  "ChangeJournal env st =
     and_then (nonnull ''g_pFileCapture'' (g_pFileCapture st)) (\<lambda>_. OpenCapture env [] True st)"

section \<open>Lemmas\<close>

lemma GetLastCaptureList_last: "xs \<noteq> [] \<Longrightarrow> GetLastCaptureList xs = Some (last xs)"
  by (induction xs rule: GetLastCaptureList.induct) auto

lemma length_show_dec_pad10: "length (show_dec_pad 10 (unat (n::u32))) = 10"
  using length_show_dec_u32 by (simp add: length_show_dec_pad)

lemma length_capture_path: "length (capture_path j n) = length j + 23"
  by (simp add: capture_path_def length_show_dec_pad10)

lemma capture_path_inj: "capture_path j m = capture_path j n \<Longrightarrow> m = n"
  using length_show_dec_pad10 [of m] length_show_dec_pad10 [of n]
  by (auto simp: capture_path_def word_unat_eq_iff dest!: show_dec_pad_inj)

text \<open>The name of a capture file without its directory, for a base name in which \<open>_capture_\<close>
  does not occur before its end.\<close>

definition plain_base :: "string \<Rightarrow> bool" where
  "plain_base base \<longleftrightarrow> strstr (base @ ''_capture_'') ''_capture_'' = Some (length base)
     \<and> CHR 0x5C \<notin> set base"

lemma capture_number_capture_path:
  assumes "plain_base base" and "int (unat n) \<le> long_max"
  shows "capture_number (capture_path base n) = Inr n"
proof -
  have s: "strstr (capture_path base n) ''_capture_'' = Some (length base)"
    using strstr_append [of "base @ ''_capture_''" "''_capture_''" "length base" "show_dec_pad 10 (unat n) @ ''.jrn''"] assms(1)
    by (simp add: plain_base_def capture_path_def)
  have nd: "CHR ''.'' \<notin> set (''_capture_'' @ show_dec_pad 10 (unat n))"
    using show_dec_pad_digits char_not_digit(4) by fastforce
  have dr: "drop (length base) (capture_path base n) = (''_capture_'' @ show_dec_pad 10 (unat n)) @ CHR ''.'' # ''jrn''"
    by (simp add: capture_path_def)
  have dot: "strchr ((''_capture_'' @ show_dec_pad 10 (unat n)) @ CHR ''.'' # ''jrn'') (CHR ''.'') = Some 19"
    using strchr_append [OF nd, of "''jrn''"] length_show_dec_pad10 [of n] by simp
  have num: "take 10 (drop 9 ((''_capture_'' @ show_dec_pad 10 (unat n)) @ CHR ''.'' # ''jrn'')) = show_dec_pad 10 (unat n)"
    using length_show_dec_pad10 [of n] by simp
  have "atol (show_dec_pad 10 (unat n)) = int (unat n)"
    using assms(2) by (simp add: atol_show_dec_pad)
  then show ?thesis
    by (simp only: capture_number_def s dr dot num nonnull_simps and_then_Inr Let_def)
      (simp add: length_show_dec_pad10)
qed

lemma BuildCaptureList_found:
  assumes "plain_base base" and "\<forall>n \<in> set ns. int (unat n) \<le> long_max"
    and "length dir + length base + 24 < MAX_PATH"
  shows "BuildCaptureList fs (map (capture_path base) ns) (dir @ CHR 0x5C # base)
         = Inr (map (\<lambda>n. \<lparr>szFullFileName = capture_path (dir @ CHR 0x5C # base) n,
                  szFileName = capture_path base n,
                  sc_ulSize = ddGetFileSize fs (capture_path (dir @ CHR 0x5C # base) n), ulNum = n\<rparr>) ns)"
proof -
  have c: "strrchr (dir @ CHR 0x5C # base) (CHR 0x5C) = Some (length dir)"
    using assms(1) by (intro strrchr_append) (simp add: plain_base_def)
  have node: "capture_node fs dir (capture_path base n)
      = Inr \<lparr>szFullFileName = capture_path (dir @ CHR 0x5C # base) n,
             szFileName = capture_path base n,
             sc_ulSize = ddGetFileSize fs (capture_path (dir @ CHR 0x5C # base) n), ulNum = n\<rparr>"
    if "n \<in> set ns" for n
    using that assms capture_number_capture_path [OF assms(1), of n]
    by (simp add: capture_node_def length_capture_path) (simp add: capture_path_def)
  have "map_res (capture_node fs dir) (map (capture_path base) ns) = Inr (map (\<lambda>n.
       \<lparr>szFullFileName = capture_path (dir @ CHR 0x5C # base) n, szFileName = capture_path base n,
        sc_ulSize = ddGetFileSize fs (capture_path (dir @ CHR 0x5C # base) n), ulNum = n\<rparr>) ns)"
    using node by (induction ns) auto
  then show ?thesis
    using assms(3) by (simp add: BuildCaptureList_def c)
qed

lemma close_last_found:
  assumes "plain_base base" and "\<forall>n \<in> set ns. int (unat n) \<le> long_max" and "ns \<noteq> []"
    and "length dir + length base + 24 < MAX_PATH"
    and "g_szJrn_WithoutExtention st = dir @ CHR 0x5C # base"
  shows "close_last env (map (capture_path base) ns) st =
    (let path = capture_path (dir @ CHR 0x5C # base) (last ns); num = last ns + 1;
         st' = st\<lparr>g_ulCaptureNum := num, g_ulCaptureSize := ddGetFileSize (files st) path,
                  g_szPathCaptureMemo := path\<rparr>
     in if files st path \<noteq> None \<and> can_open env path then
          (if can_write env path
           then Inr (True, st'\<lparr>g_pFileCapture := None,
                       files := append_file path (mark ''EOF'' path num (now env)) (files st)\<rparr>)
           else Inr (False, st'\<lparr>g_pFileCapture := None\<rparr>))
        else Inr (False, st'\<lparr>g_pFileCapture := None\<rparr>))"
  using assms
  by (simp add: close_last_def BuildCaptureList_found GetLastCaptureList_last last_map Let_def)

lemma close_last_num:
  assumes "plain_base base" and "\<forall>n \<in> set ns. int (unat n) \<le> long_max" and "ns \<noteq> []"
    and "length dir + length base + 24 < MAX_PATH"
    and "g_szJrn_WithoutExtention st = dir @ CHR 0x5C # base"
    and "close_last env (map (capture_path base) ns) st = Inr (ok, st')"
  shows "g_ulCaptureNum st' = last ns + 1"
  using assms(6) unfolding close_last_found [OF assms(1-5)]
  by (auto simp: Let_def split: if_splits)

lemma close_last_jrn:
  "close_last env listing st = Inr (ok, st') \<Longrightarrow> g_szJrn_WithoutExtention st' = g_szJrn_WithoutExtention st"
  unfolding close_last_def
  by (elim and_then_eq_InrE) (auto simp: Let_def split: option.splits if_splits)

lemma open_new_frame:
  "open_new env ok st = Inr (ok', st') \<Longrightarrow>
     g_ulCaptureNum st' = g_ulCaptureNum st
     \<and> g_szPathCapture st' = capture_path (g_szJrn_WithoutExtention st) (g_ulCaptureNum st)"
  unfolding open_new_def
  by (elim and_then_eq_InrE) (auto simp: Let_def split: if_splits)

section \<open>Properties\<close>

text \<open>A new run numbers its capture file after the last file found, and marks the end of that
  file with the new number; every other file is untouched, and the new one starts with a start
  mark.\<close>

theorem OpenCapture_continues_numbering:
  assumes "plain_base base" and "\<forall>n \<in> set ns. int (unat n) \<le> long_max" and "ns \<noteq> []"
    and "length dir + length base + 24 < MAX_PATH"
    and "g_szJrn_WithoutExtention st = dir @ CHR 0x5C # base"
    and "files st (capture_path (dir @ CHR 0x5C # base) (last ns)) = Some old"
    and "files st (capture_path (dir @ CHR 0x5C # base) (last ns + 1)) = None"
    and "\<forall>p. can_open env p" and "\<forall>p. can_write env p"
  shows "\<exists>st'. OpenCapture env (map (capture_path base) ns) False st = Inr (True, st')
     \<and> g_ulCaptureNum st' = last ns + 1
     \<and> g_pFileCapture st' = Some (capture_path (dir @ CHR 0x5C # base) (last ns + 1))
     \<and> files st' = (files st)(
          capture_path (dir @ CHR 0x5C # base) (last ns) \<mapsto>
            old @ mark ''EOF'' (capture_path (dir @ CHR 0x5C # base) (last ns)) (last ns + 1) (now env),
          capture_path (dir @ CHR 0x5C # base) (last ns + 1) \<mapsto>
            mark ''SOF'' (capture_path (dir @ CHR 0x5C # base) (last ns + 1)) (last ns + 1) (now env))"
proof -
  let ?jrn = "dir @ CHR 0x5C # base"
  have ne: "capture_path ?jrn (last ns) \<noteq> capture_path ?jrn (last ns + 1)"
    using capture_path_inj by fastforce
  have fits: "length (capture_path ?jrn n) < MAX_PATH" for n
    using assms(4) by (simp add: length_capture_path)
  let ?s = "st\<lparr>g_ulCaptureMax := capture_max (g_lCaptureAndProcess st)\<rparr>"
  have "close_last env (map (capture_path base) ns) ?s = Inr (True, ?s\<lparr>g_ulCaptureNum := last ns + 1,
      g_ulCaptureSize := ddGetFileSize (files st) (capture_path ?jrn (last ns)),
      g_szPathCaptureMemo := capture_path ?jrn (last ns), g_pFileCapture := None,
      files := append_file (capture_path ?jrn (last ns))
        (mark ''EOF'' (capture_path ?jrn (last ns)) (last ns + 1) (now env)) (files st)\<rparr>)"
    unfolding close_last_found [OF assms(1-4), of ?s env, simplified, OF assms(5)]
    using assms(6,8,9) by (simp add: Let_def)
  then show ?thesis
    using assms ne fits by (simp add: OpenCapture_def Let_def open_new_def append_file_def)
qed

definition demo_cap :: cap where
  "demo_cap = \<lparr>files = [''d'' @ CHR 0x5C # ''j_capture_0000000007.jrn'' \<mapsto> ''x''], g_pFileCapture = None,
     g_szPathCapture = [], g_szPathCaptureMemo = [], g_szJrn_WithoutExtention = ''d'' @ CHR 0x5C # ''j'',
     g_lCaptureAndProcess = 0, g_ulCaptureSize = 0, g_ulCaptureCount = 0, g_ulCaptureNum = 1,
     g_ulCaptureMax = 0\<rparr>"

definition demo_env :: io_env where
  "demo_env = \<lparr>can_open = (\<lambda>_. True), can_write = (\<lambda>_. True), now = ''2022-05-10 08:00:00.000''\<rparr>"

lemma demo_capture_path:
  "capture_path (''d'' @ CHR 0x5C # ''j'') 7 = ''d'' @ CHR 0x5C # ''j_capture_0000000007.jrn''"
  "capture_path (''d'' @ CHR 0x5C # ''j'') 8 = ''d'' @ CHR 0x5C # ''j_capture_0000000008.jrn''"
  by code_simp+

theorem OpenCapture_continues_numbering_witness:
  "\<exists>st'. OpenCapture demo_env (map (capture_path ''j'') [7]) False demo_cap = Inr (True, st')
     \<and> g_ulCaptureNum st' = 8"
proof -
  have a: "plain_base ''j''" by (simp add: plain_base_def)
  have b: "files demo_cap (capture_path (''d'' @ CHR 0x5C # ''j'') (last [7])) = Some ''x''"
    using demo_capture_path by (simp add: demo_cap_def)
  have c: "files demo_cap (capture_path (''d'' @ CHR 0x5C # ''j'') (last [7] + 1)) = None"
    using demo_capture_path by (simp add: demo_cap_def)
  show ?thesis
    using OpenCapture_continues_numbering [of "''j''" "[7]" "''d''" demo_cap "''x''" demo_env] a b c
    by (auto simp: demo_cap_def demo_env_def long_max_def MAX_PATH_def)
qed

text \<open>The name of the new file differs from every name the search returned, when the search
  returned the files in the order of their numbers.\<close>

theorem OpenCapture_fresh_name:
  assumes "plain_base base" and "\<forall>n \<in> set ns. int (unat n) \<le> long_max"
    and "sorted (map unat ns)"
    and "length dir + length base + 24 < MAX_PATH"
    and "g_szJrn_WithoutExtention st = dir @ CHR 0x5C # base"
    and "OpenCapture env (map (capture_path base) ns) False st = Inr (ok, st')"
  shows "g_szPathCapture st' \<notin> set (map (capture_path (dir @ CHR 0x5C # base)) ns)"
proof -
  let ?s = "st\<lparr>g_ulCaptureMax := capture_max (g_lCaptureAndProcess st)\<rparr>"
  obtain o1 s1 where c: "close_last env (map (capture_path base) ns) ?s = Inr (o1, s1)"
    and n: "open_new env o1 s1 = Inr (ok, st')"
    using assms(6) by (auto simp: OpenCapture_def Let_def elim!: and_then_eq_InrE)
  have p: "g_szPathCapture st' = capture_path (dir @ CHR 0x5C # base) (g_ulCaptureNum st')"
    using open_new_frame [OF n] close_last_jrn [OF c] assms(5) by simp
  have "unat n < unat (g_ulCaptureNum st')" if "n \<in> set ns" for n
  proof -
    have ne: "ns \<noteq> []" using that by auto
    have "g_ulCaptureNum st' = last ns + 1"
      using open_new_frame [OF n] close_last_num [OF assms(1,2) ne assms(4) _ c] assms(5) by simp
    moreover have "int (unat (last ns)) \<le> long_max" using assms(2) ne by simp
    ultimately have l: "unat (g_ulCaptureNum st') = unat (last ns) + 1"
      using unat_plus1_u32 by simp
    obtain us u where u: "ns = us @ [u]" using ne by (cases ns rule: rev_cases) auto
    then have "unat n \<le> unat (last ns)" using that assms(3) by (auto simp: sorted_append)
    then show ?thesis using l by simp
  qed
  then show ?thesis using p capture_path_inj by fastforce
qed

theorem OpenCapture_fresh_name_witness:
  "g_szPathCapture (snd (projr (OpenCapture demo_env (map (capture_path ''j'') [7]) False demo_cap)))
   \<notin> set (map (capture_path (''d'' @ CHR 0x5C # ''j'')) [7])"
proof -
  obtain st' where e: "OpenCapture demo_env (map (capture_path ''j'') [7]) False demo_cap = Inr (True, st')"
    using OpenCapture_continues_numbering_witness by blast
  have "g_szPathCapture st' \<notin> set (map (capture_path (''d'' @ CHR 0x5C # ''j'')) [7])"
    by (rule OpenCapture_fresh_name [OF _ _ _ _ _ e])
      (simp_all add: demo_cap_def long_max_def MAX_PATH_def plain_base_def)
  then show ?thesis using e by simp
qed

text \<open>C31: \<open>ChangeJournal\<close> ends the current file with an end mark, starts the file with the next
  number with a start mark, and resets the size to that mark.\<close>

theorem ChangeJournal_rotates:
  assumes "g_pFileCapture st = Some path" and "files st path = Some old"
    and "length (g_szJrn_WithoutExtention st) + 23 < MAX_PATH"
    and "path \<noteq> capture_path (g_szJrn_WithoutExtention st) (g_ulCaptureNum st + 1)"
    and "files st (capture_path (g_szJrn_WithoutExtention st) (g_ulCaptureNum st + 1)) = None"
    and "\<forall>p. can_open env p" and "\<forall>p. can_write env p"
  shows "\<exists>st'. ChangeJournal env st = Inr (True, st')
     \<and> g_ulCaptureNum st' = g_ulCaptureNum st + 1
     \<and> g_pFileCapture st' = Some (capture_path (g_szJrn_WithoutExtention st) (g_ulCaptureNum st + 1))
     \<and> files st' = (files st)(
          path \<mapsto> old @ mark ''EOF'' (g_szPathCaptureMemo st) (g_ulCaptureNum st + 1) (now env),
          capture_path (g_szJrn_WithoutExtention st) (g_ulCaptureNum st + 1) \<mapsto>
            mark ''SOF'' (capture_path (g_szJrn_WithoutExtention st) (g_ulCaptureNum st + 1)) (g_ulCaptureNum st + 1) (now env))
     \<and> g_ulCaptureSize st' = of_nat (length (mark ''SOF''
            (capture_path (g_szJrn_WithoutExtention st) (g_ulCaptureNum st + 1)) (g_ulCaptureNum st + 1) (now env)))"
  using assms
  by (simp add: ChangeJournal_def OpenCapture_def Let_def close_current_def open_new_def
      length_capture_path append_file_def)

theorem ChangeJournal_rotates_witness:
  "\<exists>st'. ChangeJournal demo_env (demo_cap\<lparr>g_pFileCapture := Some ''p'', files := [''p'' \<mapsto> ''x'']\<rparr>) = Inr (True, st')
     \<and> g_ulCaptureNum st' = 2"
proof -
  have "capture_path (''d'' @ CHR 0x5C # ''j'') 2 \<noteq> ''p''"
    by (simp add: capture_path_def)
  then show ?thesis
    using ChangeJournal_rotates [of "demo_cap\<lparr>g_pFileCapture := Some ''p'', files := [''p'' \<mapsto> ''x'']\<rparr>" "''p''" "''x''" demo_env]
    by (auto simp: demo_cap_def demo_env_def MAX_PATH_def)
qed

text \<open>A journal whose name itself contains \<open>_capture_\<close> is not read back: the number is taken
  from the first occurrence, and the text in between does not fit the array of 11 bytes.\<close>

theorem capture_number_misread:
  "capture_number (capture_path ''db_capture_test'' 1) = Inl (Out_of_bounds ''szNum'')"
  by (simp add: capture_number_def capture_path_def show_dec_pad_def show_dec.simps digit_char_def
      strchr_def)

end
