(* ===== verification/Line_Parser.thy ===== *)
theory Line_Parser
  imports Marks Checkpoint Capture_Files
begin

text \<open>
  The line automaton of the listener thread: what \<open>listenBinLogThread\<close> does with one line of
  the redirected standard output (\<open>ddMySqlBinLogCapture.cpp\<close>, from the line's terminating null
  byte to the next line). Lines are marks \<open>*!BEGIN!..\<close>, \<open>*!STMT!..\<close>, \<open>*!COMMIT!..\<close>,
  \<open>*!QUERY!..\<close>, \<open>*!START_BINLOG!..\<close>, \<open>*!END_BINLOG!..\<close>, \<open>*!FIRST_BINLOG!..\<close>,
  \<open>*!LAST_BINLOG!..\<close>, the row lines \<open>### ..\<close> that follow a statement mark, and others.

  The state holds the thread's local variables, the counters of \<open>g_AllDuration\<close> and the
  variables shared with the main thread. A pointer into the line is the rest of the line from
  there; reading behind the line's end (where the buffer holds bytes of other lines) is
  \<open>Out_of_bounds ''line''\<close>. Statements sent to the trace database are kept as text, in
  order; the trace log and the elapsed times are not modelled.
\<close>

section \<open>Data\<close>

record StRowCount =
  rc_ulCountBinLog :: u32
  rc_ulCountAllRow :: u32
  rc_ulCountRowtable :: u32
  rc_ulCountTransaction :: u32
  rc_ulCountInsert :: u32
  rc_ulCountUpdate :: u32
  rc_ulCountDelete :: u32

record cfg =
  g_lTraceBinLog :: int
  xai_written :: nat
  io :: io_env
  g_iMaxBufferLine :: nat
  g_iLenBufferOut :: nat

record lst =
  bStartOfStmt :: bool
  bQueryInProgress :: bool
  bDataColumnInProgress :: bool
  fLob :: bool
  szJournalEntry :: string
  l_szBinLogName :: string
  szTableName :: string
  szSchemaName :: string
  szXid :: string
  szSeqNo :: string
  l_ulPosition :: u32
  l_ulEndPosition :: u32
  l_ulIndex :: u32
  iNumField :: "16 word"
  iCountField :: "16 word"
  ulCountBinLog :: u32
  ulCountStatement :: u32
  ulCountTransaction :: u32
  ulCountTotalStatement :: u32
  ulCountTotalTransaction :: u32
  ulCountLine :: u32
  ulCountInsert :: u32
  ulCountUpdate :: u32
  ulCountDelete :: u32
  g_RowCount :: StRowCount
  g_StartBinLog :: BinLogSequence
  g_EndBinLog :: BinLogSequence
  g_StBinLogInfoFirst :: BinLogInfo
  g_StBinLogInfoLast :: BinLogInfo
  g_fStartBinlog :: bool
  g_fEndBinlog :: bool
  g_fFirstBinlog :: bool
  g_fLastBinlog :: bool
  g_hEventEndOfBinlog :: bool
  g_szLastBufferWork :: string
  ck :: ckpt
  trace_sql :: "string list"

section \<open>The trace database\<close>

text \<open>\<open>%d\<close> of an unsigned value, and \<open>%q\<close>, which doubles every quote.\<close>

definition show_d :: "u32 \<Rightarrow> string" where
  "show_d w = show_int (sint w)"

definition quote_q :: "string \<Rightarrow> string" where
  "quote_q s = concat (map (\<lambda>c. if c = CHR 0x27 then [CHR 0x27, CHR 0x27] else [c]) s)"

definition quoted :: "string \<Rightarrow> string" where
  "quoted s = CHR 0x27 # s @ [CHR 0x27]"

definition TraceBinLogDataContents :: "u32 \<Rightarrow> string \<Rightarrow> string list" where
  "TraceBinLogDataContents ulLine pszData =
     [''begin transaction;'',
      ''insert or ignore into CONTENTS (Line, Info) values('' @ show_d ulLine @ '', ''
        @ quoted (quote_q pszData) @ '');'',
      ''commit transaction;'']"

definition TraceBinLogDataEvents ::
  "string \<Rightarrow> u32 \<Rightarrow> string \<Rightarrow> u32 \<Rightarrow> u32 \<Rightarrow> u32 \<Rightarrow> string \<Rightarrow> string \<Rightarrow> string \<Rightarrow> string list" where
  "TraceBinLogDataEvents pszLogName ulLine pszEventType pos epos idx pszXid pszTableName pszCommand =
     [''begin transaction;'',
      ''insert or ignore into EVENTS (LogName, Line, EventType, Position, EndPosition, Idx, Xid, TableName, Command) values(''
        @ quoted pszLogName @ '', '' @ show_d ulLine @ '', '' @ quoted pszEventType @ '', '' @ show_d pos
        @ '', '' @ show_d epos @ '', '' @ show_d idx @ '', '' @ quoted pszXid @ '', ''
        @ quoted pszTableName @ '', '' @ quoted (quote_q pszCommand) @ '');'',
      ''commit transaction;'']"

definition trace_event ::
  "cfg \<Rightarrow> string \<Rightarrow> u32 \<Rightarrow> u32 \<Rightarrow> u32 \<Rightarrow> string \<Rightarrow> string \<Rightarrow> string \<Rightarrow> lst \<Rightarrow> lst" where
  "trace_event c etype pos epos idx xid table command s =
     (if g_lTraceBinLog c \<noteq> 0
      then s\<lparr>trace_sql := trace_sql s @ TraceBinLogDataEvents (l_szBinLogName s) (ulCountLine s)
                           etype pos epos idx xid table command\<rparr>
      else s)"

section \<open>Fields of a mark\<close>

definition BINLOG_SEP :: char where "BINLOG_SEP = CHR ''!''"

text \<open>\<open>pszEnd = strchr(pszLineWork, BINLOG_SEP); .. ddatol(pszLineWork, pszEnd - pszLineWork);
  pszLineWork = pszEnd + 1\<close>\<close>

definition num_field :: "string \<Rightarrow> (u32 \<times> string) res" where
  "num_field w = and_then (nonnull ''pszEnd'' (strchr w BINLOG_SEP)) (\<lambda>i.
     and_then (ddatol w (int i)) (\<lambda>v. Inr (of_int v, drop (Suc i) w)))"

text \<open>\<open>strncpy(dest, pszLineWork, pszEnd - pszLineWork)\<close> and the terminating null byte, into an
  array of \<open>n\<close> bytes.\<close>

definition text_field :: "string \<Rightarrow> nat \<Rightarrow> string \<Rightarrow> string res" where
  "text_field what n w = and_then (nonnull ''pszEnd'' (strchr w BINLOG_SEP)) (\<lambda>i.
     into_buffer what n (take i w))"

definition put_seq :: "string \<Rightarrow> u32 \<Rightarrow> u32 \<Rightarrow> BinLogSequence \<Rightarrow> BinLogSequence res" where
  "put_seq name pos idx q = and_then (strcpy_arr ''szBinLogName'' (szBinLogName q) name) (\<lambda>arr.
     Inr (q\<lparr>szBinLogName := arr, ulPosition := pos, ulIndex := idx\<rparr>))"

definition save :: "cfg \<Rightarrow> int \<Rightarrow> lst \<Rightarrow> lst" where
  "save c idx s = s\<lparr>ck := SaveInDisk (xai_written c) ''B'' idx (g_stBinLogSeqInProgess (ck s)) (ck s)\<rparr>"

definition progress :: "string \<Rightarrow> u32 \<Rightarrow> u32 \<Rightarrow> lst \<Rightarrow> lst res" where
  "progress name pos idx s = and_then (put_seq name pos idx (g_stBinLogSeqInProgess (ck s))) (\<lambda>q.
     Inr (s\<lparr>ck := (ck s)\<lparr>g_stBinLogSeqInProgess := q\<rparr>\<rparr>))"

section \<open>Row lines\<close>

definition je_at :: "nat \<Rightarrow> lst \<Rightarrow> char" where
  "je_at i s = (if i < length (szJournalEntry s) then szJournalEntry s ! i else NUL)"

text \<open>The columns of a row end with the first line that is not a column.\<close>

definition end_of_columns :: "cfg \<Rightarrow> string \<Rightarrow> lst \<Rightarrow> lst" where
  "end_of_columns c line s =
     (if bDataColumnInProgress s \<and> \<not> strneq line ''###   @'' 7
      then save c 1 (s\<lparr>bQueryInProgress := (if je_at 2 s \<noteq> CHR ''B'' then False else bQueryInProgress s),
                      bDataColumnInProgress := False\<rparr>)
      else s)"

definition on_column :: "string \<Rightarrow> lst \<Rightarrow> lst res" where
  "on_column line s =
     (let w = drop 7 line in
      and_then (nonnull ''pszEnd'' (strchr w (CHR ''=''))) (\<lambda>i.
      and_then (ddatol w (int i)) (\<lambda>v.
        Inr (s\<lparr>iNumField := of_int v, iCountField := iCountField s + 1, fLob := False\<rparr>))))"

definition after_saved :: "lst \<Rightarrow> bool" where
  "after_saved s \<longleftrightarrow>
     (0 < ulCountBinLog s
      \<or> (ulCountBinLog s = 0 \<and> l_ulPosition s \<noteq> ulPosition (g_stBinLogSeq (ck s)))
      \<or> (ulCountBinLog s = 0 \<and> l_ulPosition s = ulPosition (g_stBinLogSeq (ck s))
          \<and> ulIndex (g_stBinLogSeq (ck s)) < l_ulIndex s))"

definition count_row :: "lst \<Rightarrow> lst" where
  "count_row s = s\<lparr>
     g_RowCount := (g_RowCount s)\<lparr>
       rc_ulCountRowtable := rc_ulCountRowtable (g_RowCount s) + 1,
       rc_ulCountInsert := rc_ulCountInsert (g_RowCount s) + ulCountInsert s,
       rc_ulCountUpdate := rc_ulCountUpdate (g_RowCount s) + ulCountUpdate s,
       rc_ulCountDelete := rc_ulCountDelete (g_RowCount s) + ulCountDelete s\<rparr>,
     ulCountStatement := ulCountStatement s + 1,
     ulCountTotalStatement := ulCountTotalStatement s + 1,
     iCountField := 0, bQueryInProgress := True\<rparr>"

text \<open>A row operation starts: \<open>### INSERT INTO `db`.`table`\<close> and its kin.\<close>

definition row_operation :: "cfg \<Rightarrow> string \<Rightarrow> string \<Rightarrow> string \<Rightarrow> lst \<Rightarrow> lst" where
  "row_operation c line table schema s =
     (let s2 = s\<lparr>szTableName := table, szSchemaName := schema, l_ulIndex := l_ulIndex s + 1\<rparr>
      in if after_saved s2
         then trace_event c (szJournalEntry s2) (l_ulPosition s2) 0 (l_ulIndex s2) [] table line
                (count_row s2)
         else s2)"

definition on_query_found :: "cfg \<Rightarrow> string \<Rightarrow> nat \<Rightarrow> lst \<Rightarrow> lst res" where
  "on_query_found c line iOffsetCmd s =
     (let s1 = s\<lparr>g_RowCount := (g_RowCount s)\<lparr>rc_ulCountAllRow := rc_ulCountAllRow (g_RowCount s) + 1\<rparr>,
                 bQueryInProgress := False, bDataColumnInProgress := False\<rparr>
      in if length line < iOffsetCmd then Inl (Out_of_bounds ''line'')
         else let w = drop iOffsetCmd line; pszDot = strchr w (CHR ''.'')
         in and_then (into_buffer ''szTableName'' 500
                 (case pszDot of Some d \<Rightarrow> drop (Suc d) w | None \<Rightarrow> w)) (\<lambda>table.
            and_then (into_buffer ''szSchemaName'' 500
                 (case pszDot of Some d \<Rightarrow> take d w | None \<Rightarrow> [])) (\<lambda>schema.
              Inr (row_operation c line table schema s1))))"

definition on_row_line :: "cfg \<Rightarrow> string \<Rightarrow> lst \<Rightarrow> lst res" where
  "on_row_line c line s =
     (if bQueryInProgress s \<and> strneq line ''###   @'' 7 then on_column line s
      else if bQueryInProgress s \<and> strneq line ''### WHERE'' 9 then
        Inr (s\<lparr>bDataColumnInProgress := True, iCountField := 0,
               szJournalEntry := (if je_at 1 s = CHR ''U'' then (szJournalEntry s)[2 := CHR ''B'']
                                  else szJournalEntry s)\<rparr>)
      else if bQueryInProgress s \<and> strneq line ''### SET'' 7 then
        Inr (s\<lparr>bDataColumnInProgress := True,
               szJournalEntry := (if je_at 1 s = CHR ''U'' then (szJournalEntry s)[2 := CHR ''P'']
                                  else szJournalEntry s)\<rparr>)
      else if strneq line ''### INSERT'' 10 then
        on_query_found c line 16 (s\<lparr>szJournalEntry := ''RPT'', ulCountInsert := 1\<rparr>)
      else if strneq line ''### UPDATE'' 10 then
        on_query_found c line 11 (s\<lparr>szJournalEntry := ''RUX'', ulCountUpdate := 1\<rparr>)
      else if strneq line ''### DELETE'' 10 then
        on_query_found c line 16 (s\<lparr>szJournalEntry := ''RDL'', ulCountDelete := 1\<rparr>)
      else Inr s)"

section \<open>Marks\<close>

definition on_begin :: "cfg \<Rightarrow> string \<Rightarrow> lst \<Rightarrow> lst res" where
  "on_begin c line s =
     (let s1 = s\<lparr>ulCountTransaction := ulCountTransaction s + 1,
                 ulCountTotalTransaction := ulCountTotalTransaction s + 1,
                 g_RowCount := (g_RowCount s)\<lparr>rc_ulCountTransaction := rc_ulCountTransaction (g_RowCount s) + 1\<rparr>,
                 l_ulIndex := 0\<rparr>
      in and_then (num_field (drop 8 line)) (\<lambda>(pos, w1).
         and_then (num_field w1) (\<lambda>(epos, w2).
         and_then (case strchr w2 BINLOG_SEP of
                     Some i \<Rightarrow> into_buffer ''szSeqNo'' 21 (take i w2)
                   | None \<Rightarrow> Inr ''0'') (\<lambda>seqno.
           let s2 = s1\<lparr>l_ulPosition := pos, l_ulEndPosition := epos, szSeqNo := seqno\<rparr>
           in progress (l_szBinLogName s2) pos 0
                (trace_event c ''BEGIN'' pos epos 0 seqno [] [] s2)))))"

definition on_stmt :: "cfg \<Rightarrow> string \<Rightarrow> lst \<Rightarrow> lst res" where
  "on_stmt c line s =
     and_then (num_field (drop 7 line)) (\<lambda>(pos, w1).
     and_then (num_field w1) (\<lambda>(epos, _).
       let s1 = s\<lparr>bStartOfStmt := True, l_ulPosition := pos, l_ulEndPosition := epos\<rparr>
       in Inr ((trace_event c ''STMT'' pos epos 0 [] [] [] s1)
                 \<lparr>ulCountInsert := 0, ulCountUpdate := 0, ulCountDelete := 0\<rparr>)))"

definition on_commit :: "cfg \<Rightarrow> string \<Rightarrow> lst \<Rightarrow> lst res" where
  "on_commit c line s =
     (let s1 = s\<lparr>bQueryInProgress := False, bStartOfStmt := False, bDataColumnInProgress := False\<rparr>
      in and_then (num_field (drop 9 line)) (\<lambda>(pos, w1).
         and_then (num_field w1) (\<lambda>(epos, w2).
         and_then (text_field ''szXid'' 50 w2) (\<lambda>xid.
           let s2 = s1\<lparr>l_ulPosition := pos, l_ulIndex := 0, l_ulEndPosition := epos, szXid := xid\<rparr>
           in and_then (progress (l_szBinLogName s2) epos 0
                         (trace_event c ''COMMIT'' pos epos 0 xid [] [] s2)) (\<lambda>s3.
              Inr (save c 2 s3))))))"

definition on_query :: "cfg \<Rightarrow> string \<Rightarrow> lst \<Rightarrow> lst res" where
  "on_query c line s =
     and_then (num_field (drop 8 line)) (\<lambda>(pos, w1).
     and_then (num_field w1) (\<lambda>(epos, w2).
       let s1 = s\<lparr>l_ulPosition := pos, l_ulIndex := 0, l_ulEndPosition := epos\<rparr>
       in and_then (progress (l_szBinLogName s1) epos 0
                     (trace_event c ''QUERY'' pos epos 0 [] [] w2 s1)) (\<lambda>s2.
          Inr (save c 3 s2))))"

definition info_name :: "BinLogInfo \<Rightarrow> string" where
  "info_name i = cstr (bi_szBinLogName i)"

definition BIN_LOG_HEADER_SIZE :: u32 where "BIN_LOG_HEADER_SIZE = 4"

definition on_start_binlog :: "cfg \<Rightarrow> string \<Rightarrow> lst \<Rightarrow> lst res" where
  "on_start_binlog c line s =
     (let s1 = s\<lparr>g_fStartBinlog := True, g_fEndBinlog := False,
                 ulCountStatement := 0, ulCountTransaction := 0, ulCountLine := 0,
                 ulCountInsert := 0, ulCountUpdate := 0, ulCountDelete := 0,
                 ulCountBinLog := ulCountBinLog s + 1,
                 g_RowCount := (g_RowCount s)\<lparr>rc_ulCountBinLog := rc_ulCountBinLog (g_RowCount s) + 1\<rparr>\<rparr>
      in and_then (text_field ''szBinLogName'' 500 (drop 15 line)) (\<lambda>name.
           let s2 = trace_event c ''START_BINLOG'' 0 0 0 [] [] [] (s1\<lparr>l_szBinLogName := name\<rparr>)
           in if name \<noteq> info_name (g_StBinLogInfoFirst s2)
              then progress name BIN_LOG_HEADER_SIZE 0 s2
              else Inr s2))"

definition on_end_binlog :: "cfg \<Rightarrow> string \<Rightarrow> lst \<Rightarrow> lst res" where
  "on_end_binlog c line s =
     Inr (trace_event c ''END_BINLOG'' 0 0 0 [] [] [] (s\<lparr>g_fStartBinlog := False, g_fEndBinlog := True\<rparr>))"

definition on_first_binlog :: "cfg \<Rightarrow> string \<Rightarrow> lst \<Rightarrow> lst res" where
  "on_first_binlog c line s =
     (let s1 = s\<lparr>g_fFirstBinlog := True, g_fLastBinlog := False,
                 ulCountTotalStatement := 0, ulCountTotalTransaction := 0, ulCountBinLog := 0\<rparr>;
          q = g_stBinLogSeqInProgess (ck s)
      in and_then (text_field ''szBinLogName'' 500 (drop 15 line)) (\<lambda>name.
         and_then (put_seq name (ulPosition q) (ulIndex q) (g_StartBinLog s1)) (\<lambda>sb.
           Inr (trace_event c ''FIRST_BINLOG'' 0 0 0 [] [] []
                 (s1\<lparr>l_szBinLogName := name, g_StartBinLog := sb\<rparr>)))))"

definition on_last_binlog :: "cfg \<Rightarrow> string \<Rightarrow> lst \<Rightarrow> lst res" where
  "on_last_binlog c line s =
     (let s1 = trace_event c ''LAST_BINLOG'' 0 0 0 [] [] [] (s\<lparr>g_fFirstBinlog := False, g_fLastBinlog := True\<rparr>);
          q = g_stBinLogSeqInProgess (ck s)
      in if l_szBinLogName s1 = info_name (g_StBinLogInfoLast s1)
         then and_then (put_seq (l_szBinLogName s1) (ulPosition q) (ulIndex q) (g_EndBinLog s1)) (\<lambda>eb.
                Inr (s1\<lparr>g_EndBinLog := eb, ck := (ck s1)\<lparr>g_stBinLogSeq := q\<rparr>, g_hEventEndOfBinlog := True\<rparr>))
         else Inr s1)"

section \<open>One line\<close>

definition note_line :: "cfg \<Rightarrow> string \<Rightarrow> lst \<Rightarrow> lst res" where
  "note_line c line s =
     (let s1 = (if g_lTraceBinLog c \<noteq> 0
                then s\<lparr>trace_sql := trace_sql s @ TraceBinLogDataContents (ulCountLine s) line\<rparr> else s)
      in if 512 < length line \<and> length line < 1024 then Inl (Out_of_bounds ''g_szLastBufferWork'')
         else Inr (s1\<lparr>g_szLastBufferWork := take 512 line\<rparr>))"

definition dispatch :: "cfg \<Rightarrow> string \<Rightarrow> lst \<Rightarrow> lst res" where
  "dispatch c line s =
     (if bStartOfStmt s \<and> strneq line ''###'' 3 then on_row_line c line s
      else if strneq line ''*!BEGIN!'' 8 then on_begin c line s
      else if strneq line ''*!STMT!'' 7 then on_stmt c line s
      else if strneq line ''*!COMMIT!'' 9 then on_commit c line s
      else if strneq line ''*!QUERY!'' 8 then on_query c line s
      else if strneq line ''*!START_BINLOG!'' 15 then on_start_binlog c line s
      else if strneq line ''*!END_BINLOG!'' 13 then on_end_binlog c line s
      else if strneq line ''*!FIRST_BINLOG!'' 15 then on_first_binlog c line s
      else if strneq line ''*!LAST_BINLOG!'' 14 then on_last_binlog c line s
      else Inr s)"

definition handle_line :: "cfg \<Rightarrow> string \<Rightarrow> lst \<Rightarrow> lst res" where
  "handle_line c line s =
     and_then (note_line c line s) (\<lambda>s1.
     and_then (dispatch c line (end_of_columns c line s1)) (\<lambda>s2.
       Inr (s2\<lparr>ulCountLine := ulCountLine s2 + 1\<rparr>)))"

section \<open>What a line leaves unchanged\<close>

text \<open>Only four marks move the checkpoint in progress.\<close>

definition moves_checkpoint :: "string \<Rightarrow> bool" where
  "moves_checkpoint line \<longleftrightarrow> strneq line ''*!BEGIN!'' 8 \<or> strneq line ''*!COMMIT!'' 9
     \<or> strneq line ''*!QUERY!'' 8 \<or> strneq line ''*!START_BINLOG!'' 15"

lemma trace_event_frame [simp]:
  "ck (trace_event c e p ep i x tb cm s) = ck s"
  "fLob (trace_event c e p ep i x tb cm s) = fLob s"
  "bStartOfStmt (trace_event c e p ep i x tb cm s) = bStartOfStmt s"
  "bQueryInProgress (trace_event c e p ep i x tb cm s) = bQueryInProgress s"
  "bDataColumnInProgress (trace_event c e p ep i x tb cm s) = bDataColumnInProgress s"
  "szJournalEntry (trace_event c e p ep i x tb cm s) = szJournalEntry s"
  "l_szBinLogName (trace_event c e p ep i x tb cm s) = l_szBinLogName s"
  "l_ulPosition (trace_event c e p ep i x tb cm s) = l_ulPosition s"
  "l_ulEndPosition (trace_event c e p ep i x tb cm s) = l_ulEndPosition s"
  "ulCountLine (trace_event c e p ep i x tb cm s) = ulCountLine s"
  "l_ulIndex (trace_event c e p ep i x tb cm s) = l_ulIndex s"
  "ulCountBinLog (trace_event c e p ep i x tb cm s) = ulCountBinLog s"
  "g_RowCount (trace_event c e p ep i x tb cm s) = g_RowCount s"
  "g_EndBinLog (trace_event c e p ep i x tb cm s) = g_EndBinLog s"
  "g_StartBinLog (trace_event c e p ep i x tb cm s) = g_StartBinLog s"
  "g_StBinLogInfoFirst (trace_event c e p ep i x tb cm s) = g_StBinLogInfoFirst s"
  "g_StBinLogInfoLast (trace_event c e p ep i x tb cm s) = g_StBinLogInfoLast s"
  "g_hEventEndOfBinlog (trace_event c e p ep i x tb cm s) = g_hEventEndOfBinlog s"
  by (simp_all add: trace_event_def)

lemma count_row_frame [simp]:
  "ck (count_row s) = ck s" "fLob (count_row s) = fLob s"
  "bStartOfStmt (count_row s) = bStartOfStmt s"
  "bDataColumnInProgress (count_row s) = bDataColumnInProgress s"
  "szJournalEntry (count_row s) = szJournalEntry s"
  "l_szBinLogName (count_row s) = l_szBinLogName s"
  "bQueryInProgress (count_row s)"
  by (simp_all add: count_row_def)

lemma SaveInDisk_frame [simp]:
  "g_stBinLogSeqInProgess (SaveInDisk n t i q k) = g_stBinLogSeqInProgess k"
  "g_stBinLogSeq (SaveInDisk n t i q k) = g_stBinLogSeq k"
  "g_pFileJrnTransact (SaveInDisk n t i q k) = g_pFileJrnTransact k"
  by (simp_all add: SaveInDisk_def split: option.split)

lemma save_frame [simp]:
  "fLob (save c i s) = fLob s" "bStartOfStmt (save c i s) = bStartOfStmt s"
  "bQueryInProgress (save c i s) = bQueryInProgress s"
  "bDataColumnInProgress (save c i s) = bDataColumnInProgress s"
  "szJournalEntry (save c i s) = szJournalEntry s"
  "l_szBinLogName (save c i s) = l_szBinLogName s"
  "g_stBinLogSeqInProgess (ck (save c i s)) = g_stBinLogSeqInProgess (ck s)"
  "g_stBinLogSeq (ck (save c i s)) = g_stBinLogSeq (ck s)"
  by (simp_all add: save_def)

lemma end_of_columns_frame [simp]:
  "fLob (end_of_columns c line s) = fLob s"
  "bStartOfStmt (end_of_columns c line s) = bStartOfStmt s"
  "szJournalEntry (end_of_columns c line s) = szJournalEntry s"
  "l_szBinLogName (end_of_columns c line s) = l_szBinLogName s"
  "g_stBinLogSeqInProgess (ck (end_of_columns c line s)) = g_stBinLogSeqInProgess (ck s)"
  "g_stBinLogSeq (ck (end_of_columns c line s)) = g_stBinLogSeq (ck s)"
  by (simp_all add: end_of_columns_def)

lemma end_of_columns_ck:
  "ck (end_of_columns c line s) = ck s
   \<or> ck (end_of_columns c line s)
      = SaveInDisk (xai_written c) ''B'' 1 (g_stBinLogSeqInProgess (ck s)) (ck s)"
  by (simp add: end_of_columns_def save_def)

lemma note_line_frame:
  "note_line c line s = Inr t \<Longrightarrow> ck t = ck s \<and> fLob t = fLob s \<and> bStartOfStmt t = bStartOfStmt s
     \<and> bQueryInProgress t = bQueryInProgress s \<and> bDataColumnInProgress t = bDataColumnInProgress s
     \<and> szJournalEntry t = szJournalEntry s \<and> l_szBinLogName t = l_szBinLogName s
     \<and> l_ulIndex t = l_ulIndex s \<and> ulCountBinLog t = ulCountBinLog s
     \<and> g_StBinLogInfoFirst t = g_StBinLogInfoFirst s \<and> g_StBinLogInfoLast t = g_StBinLogInfoLast s"
  by (auto simp: note_line_def Let_def split: if_splits)

lemma progress_ck:
  "progress n p i s = Inr t \<Longrightarrow> \<exists>q. put_seq n p i (g_stBinLogSeqInProgess (ck s)) = Inr q
      \<and> t = s\<lparr>ck := (ck s)\<lparr>g_stBinLogSeqInProgess := q\<rparr>\<rparr>"
  by (auto simp: progress_def elim!: and_then_eq_InrE)

lemma put_seq_Inr:
  "put_seq n p i q = Inr q' \<Longrightarrow> ulPosition q' = p \<and> ulIndex q' = i
      \<and> length (szBinLogName q') = length (szBinLogName q)
      \<and> (NUL \<notin> set n \<longrightarrow> seq_name q' = n)"
  by (auto simp: put_seq_def seq_name_def strcpy_arr_length strcpy_arr_cstr elim!: and_then_eq_InrE)

text \<open>Row lines, whatever they hold, neither move the checkpoint nor write it.\<close>

lemma on_column_frame:
  "on_column line s = Inr t \<Longrightarrow> ck t = ck s \<and> bStartOfStmt t = bStartOfStmt s
      \<and> l_szBinLogName t = l_szBinLogName s \<and> \<not> fLob t"
  by (auto simp: on_column_def Let_def elim!: and_then_eq_InrE)

lemma row_operation_frame [simp]:
  "ck (row_operation c line tb sc s) = ck s"
  "bStartOfStmt (row_operation c line tb sc s) = bStartOfStmt s"
  "bDataColumnInProgress (row_operation c line tb sc s) = bDataColumnInProgress s"
  "szJournalEntry (row_operation c line tb sc s) = szJournalEntry s"
  "l_szBinLogName (row_operation c line tb sc s) = l_szBinLogName s"
  "fLob (row_operation c line tb sc s) = fLob s"
  by (simp_all add: row_operation_def Let_def)

lemma on_query_found_ok:
  "on_query_found c line n s = Inr t \<Longrightarrow> \<exists>table schema. t = row_operation c line table schema
     (s\<lparr>g_RowCount := (g_RowCount s)\<lparr>rc_ulCountAllRow := rc_ulCountAllRow (g_RowCount s) + 1\<rparr>,
        bQueryInProgress := False, bDataColumnInProgress := False\<rparr>)"
  unfolding on_query_found_def Let_def
  by (simp split: if_splits) (elim and_then_eq_InrE, blast)

lemma on_query_found_frame:
  "on_query_found c line n s = Inr t \<Longrightarrow> ck t = ck s \<and> bStartOfStmt t = bStartOfStmt s
      \<and> l_szBinLogName t = l_szBinLogName s \<and> fLob t = fLob s"
  by (drule on_query_found_ok) auto

lemma on_row_line_frame:
  "on_row_line c line s = Inr t \<Longrightarrow> ck t = ck s \<and> bStartOfStmt t = bStartOfStmt s
      \<and> l_szBinLogName t = l_szBinLogName s \<and> (fLob t \<longrightarrow> fLob s)"
  unfolding on_row_line_def
  by (elim if_eq_InrE; (drule on_column_frame | drule on_query_found_frame)?; clarsimp)

lemma on_stmt_frame:
  "on_stmt c line s = Inr t \<Longrightarrow> ck t = ck s \<and> l_szBinLogName t = l_szBinLogName s \<and> fLob t = fLob s"
  by (auto simp: on_stmt_def Let_def elim!: and_then_eq_InrE)

lemma on_end_binlog_frame:
  "on_end_binlog c line s = Inr t \<Longrightarrow> ck t = ck s \<and> l_szBinLogName t = l_szBinLogName s \<and> fLob t = fLob s"
  by (auto simp: on_end_binlog_def)

lemma on_first_binlog_frame:
  "on_first_binlog c line s = Inr t \<Longrightarrow> ck t = ck s \<and> fLob t = fLob s"
  by (auto simp: on_first_binlog_def Let_def elim!: and_then_eq_InrE)

lemma on_last_binlog_frame:
  "on_last_binlog c line s = Inr t \<Longrightarrow>
     (ck t = ck s \<or> ck t = (ck s)\<lparr>g_stBinLogSeq := g_stBinLogSeqInProgess (ck s)\<rparr>)
      \<and> l_szBinLogName t = l_szBinLogName s \<and> fLob t = fLob s"
  by (auto simp: on_last_binlog_def Let_def split: if_splits elim!: and_then_eq_InrE)

lemma on_begin_ck:
  "on_begin c line s = Inr t \<Longrightarrow> fLob t = fLob s \<and> l_szBinLogName t = l_szBinLogName s
     \<and> (\<exists>q. put_seq (l_szBinLogName s) (l_ulPosition t) 0 (g_stBinLogSeqInProgess (ck s)) = Inr q
         \<and> ck t = (ck s)\<lparr>g_stBinLogSeqInProgess := q\<rparr>)"
  by (auto simp: on_begin_def Let_def split: option.splits elim!: and_then_eq_InrE dest!: progress_ck)

lemma on_commit_ck:
  "on_commit c line s = Inr t \<Longrightarrow> fLob t = fLob s \<and> l_szBinLogName t = l_szBinLogName s
     \<and> (\<exists>q. put_seq (l_szBinLogName s) (l_ulEndPosition t) 0 (g_stBinLogSeqInProgess (ck s)) = Inr q
         \<and> ck t = SaveInDisk (xai_written c) ''B'' 2 q ((ck s)\<lparr>g_stBinLogSeqInProgess := q\<rparr>))"
  by (auto simp: on_commit_def Let_def text_field_def save_def elim!: and_then_eq_InrE dest!: progress_ck)

lemma on_query_ck:
  "on_query c line s = Inr t \<Longrightarrow> fLob t = fLob s \<and> l_szBinLogName t = l_szBinLogName s
     \<and> (\<exists>q. put_seq (l_szBinLogName s) (l_ulEndPosition t) 0 (g_stBinLogSeqInProgess (ck s)) = Inr q
         \<and> ck t = SaveInDisk (xai_written c) ''B'' 3 q ((ck s)\<lparr>g_stBinLogSeqInProgess := q\<rparr>))"
  by (auto simp: on_query_def Let_def save_def elim!: and_then_eq_InrE dest!: progress_ck)

lemma on_start_binlog_ck:
  "on_start_binlog c line s = Inr t \<Longrightarrow> fLob t = fLob s
     \<and> (ck t = ck s
        \<or> (\<exists>q. put_seq (l_szBinLogName t) BIN_LOG_HEADER_SIZE 0 (g_stBinLogSeqInProgess (ck s)) = Inr q
            \<and> ck t = (ck s)\<lparr>g_stBinLogSeqInProgess := q\<rparr>))"
  by (auto simp: on_start_binlog_def Let_def text_field_def split: if_splits elim!: and_then_eq_InrE dest!: progress_ck)

lemmas mark_frames = on_row_line_frame on_stmt_frame on_end_binlog_frame on_first_binlog_frame
  on_last_binlog_frame on_begin_ck on_commit_ck on_query_ck on_start_binlog_ck

end
