(* ===== verification/Line_Checkpoint.thy ===== *)
theory Line_Checkpoint
  imports Line_Parser
begin

text \<open>
  What the line automaton does to the checkpoint: which lines move it, what a later run finds
  in the \<open>.XAI\<close> file when the capture stops after any line, and the invariant of the automaton.
\<close>

section \<open>What a later run finds\<close>

lemma restart_seq_disk: "disk k = disk k' \<Longrightarrow> restart_seq jrn k = restart_seq jrn k'"
  by (auto simp: restart_seq_def InitParam_def FileExist_def Let_def and_then_def split: sum.splits)

lemma restart_seq_frame [simp]:
  "restart_seq jrn (k\<lparr>g_stBinLogSeq := q\<rparr>) = restart_seq jrn k"
  "restart_seq jrn (k\<lparr>g_stBinLogSeqInProgess := q\<rparr>) = restart_seq jrn k"
  by (rule restart_seq_disk, simp)+

lemma xai_open_frame [simp]:
  "xai_open jrn (k\<lparr>g_stBinLogSeq := q\<rparr>) = xai_open jrn k"
  "xai_open jrn (k\<lparr>g_stBinLogSeqInProgess := q\<rparr>) = xai_open jrn k"
  "xai_open jrn (SaveInDisk n t i q k) = xai_open jrn k"
  by (simp_all add: xai_open_def)

lemma restart_after_save:
  "xai_open jrn k \<Longrightarrow> wf_seq q \<Longrightarrow> restart_seq jrn (SaveInDisk SEQ_LEN t i q k) = Some q"
  by (rule xai.load_save)

lemma put_seq_wf: "put_seq n p i q = Inr q' \<Longrightarrow> wf_seq q' = wf_seq q"
  by (auto dest!: put_seq_Inr simp: wf_seq_def)

section \<open>The invariant of the automaton\<close>

text \<open>
  The checkpoint in progress is a well formed structure with index 0, and what a restart finds
  is well formed. The journal entry has its three characters as soon as a row operation was seen.
\<close>

definition ckpt_ok :: "ckpt \<Rightarrow> bool" where
  "ckpt_ok k \<longleftrightarrow> wf_seq (g_stBinLogSeqInProgess k) \<and> ulIndex (g_stBinLogSeqInProgess k) = 0"

lemma ckpt_ok_frame [simp]:
  "ckpt_ok (k\<lparr>g_stBinLogSeq := q\<rparr>) = ckpt_ok k"
  "ckpt_ok (SaveInDisk n t i q k) = ckpt_ok k"
  by (simp_all add: ckpt_ok_def)

lemma ckpt_ok_put:
  "put_seq n p 0 (g_stBinLogSeqInProgess k) = Inr q \<Longrightarrow> ckpt_ok k \<Longrightarrow>
     ckpt_ok (k\<lparr>g_stBinLogSeqInProgess := q\<rparr>)"
  by (auto simp: ckpt_ok_def put_seq_wf dest: put_seq_Inr)

lemma ckpt_ok_end_of_columns [simp]: "ckpt_ok (ck (end_of_columns c line s)) = ckpt_ok (ck s)"
  using end_of_columns_ck [of c line s] by auto

lemma dispatch_ckpt_ok:
  "dispatch c line s = Inr t \<Longrightarrow> ckpt_ok (ck s) \<Longrightarrow> ckpt_ok (ck t)"
  unfolding dispatch_def
  by (elim if_eq_InrE; (drule mark_frames)?; auto intro: ckpt_ok_put)

lemma handle_line_ckpt_ok:
  assumes "handle_line c line s = Inr t" and "ckpt_ok (ck s)"
  shows "ckpt_ok (ck t)"
proof -
  obtain s1 s2 where n: "note_line c line s = Inr s1"
    and d: "dispatch c line (end_of_columns c line s1) = Inr s2"
    and t: "t = s2\<lparr>ulCountLine := ulCountLine s2 + 1\<rparr>"
    using assms(1) by (auto simp: handle_line_def elim!: and_then_eq_InrE)
  have "ckpt_ok (ck s1)" using note_line_frame [OF n] assms(2) by simp
  then show ?thesis using dispatch_ckpt_ok [OF d] t by simp
qed

section \<open>Lines inside a transaction\<close>

text \<open>A line that does not move the checkpoint may still save it; \<open>saves_only\<close> describes the
  difference between the checkpoint state before and after.\<close>

definition saves_only :: "string \<Rightarrow> ckpt \<Rightarrow> ckpt \<Rightarrow> bool" where
  "saves_only jrn k k' \<longleftrightarrow> g_stBinLogSeqInProgess k' = g_stBinLogSeqInProgess k
     \<and> xai_open jrn k'
     \<and> restart_seq jrn k' \<in> {restart_seq jrn k, Some (g_stBinLogSeqInProgess k)}"

lemma saves_only_refl: "xai_open jrn k \<Longrightarrow> saves_only jrn k k"
  by (simp add: saves_only_def)

lemma saves_only_trans: "saves_only jrn k k' \<Longrightarrow> saves_only jrn k' k'' \<Longrightarrow> saves_only jrn k k''"
  by (auto simp: saves_only_def)

lemma saves_only_end_of_columns:
  assumes "xai_written c = SEQ_LEN" and "xai_open jrn (ck s)" and "wf_seq (g_stBinLogSeqInProgess (ck s))"
  shows "saves_only jrn (ck s) (ck (end_of_columns c line s))"
  using end_of_columns_ck [of c line s] assms
  by (auto simp: saves_only_def restart_after_save)

lemma dispatch_saves_only:
  "dispatch c line s = Inr t \<Longrightarrow> \<not> moves_checkpoint line \<Longrightarrow> xai_open jrn (ck s) \<Longrightarrow>
     saves_only jrn (ck s) (ck t)"
  unfolding dispatch_def moves_checkpoint_def
  by (elim if_eq_InrE; (drule mark_frames)?; auto simp: saves_only_def)

lemma handle_line_saves_only:
  assumes "handle_line c line s = Inr t" and "\<not> moves_checkpoint line"
    and "xai_written c = SEQ_LEN" and "xai_open jrn (ck s)" and "wf_seq (g_stBinLogSeqInProgess (ck s))"
  shows "saves_only jrn (ck s) (ck t)"
proof -
  obtain s1 s2 where n: "note_line c line s = Inr s1"
    and d: "dispatch c line (end_of_columns c line s1) = Inr s2"
    and t: "t = s2\<lparr>ulCountLine := ulCountLine s2 + 1\<rparr>"
    using assms(1) by (auto simp: handle_line_def elim!: and_then_eq_InrE)
  have k: "ck s1 = ck s" using note_line_frame [OF n] by simp
  have e: "saves_only jrn (ck s) (ck (end_of_columns c line s1))"
    using saves_only_end_of_columns [of c jrn s1 line] assms k by simp
  moreover have "xai_open jrn (ck (end_of_columns c line s1))"
    using e unfolding saves_only_def by blast
  ultimately have "saves_only jrn (ck (end_of_columns c line s1)) (ck s2)"
    using dispatch_saves_only [OF d assms(2)] by blast
  then show ?thesis using saves_only_trans [OF e] t by simp
qed

lemma lines_saves_only:
  assumes "fold_res (handle_line c) ls s = Inr t" and "\<forall>l \<in> set ls. \<not> moves_checkpoint l"
    and "xai_written c = SEQ_LEN" and "xai_open jrn (ck s)" and "wf_seq (g_stBinLogSeqInProgess (ck s))"
  shows "saves_only jrn (ck s) (ck t)"
proof (rule fold_res_invariant [where P = "\<lambda>u. saves_only jrn (ck s) (ck u)", OF assms(1)])
  show "saves_only jrn (ck s) (ck s)" using assms(4) by (rule saves_only_refl)
next
  fix l u v
  assume "l \<in> set ls" and u: "saves_only jrn (ck s) (ck u)" and h: "handle_line c l u = Inr v"
  then have "saves_only jrn (ck u) (ck v)"
    using handle_line_saves_only [OF h _ assms(3)] assms(2,5) by (auto simp: saves_only_def)
  then show "saves_only jrn (ck s) (ck v)" using saves_only_trans [OF u] by blast
qed

section \<open>Reading printed marks\<close>

text \<open>The value that the listener reads from a position printed by the library.\<close>

definition read_pos :: "u64 \<Rightarrow> u32" where
  "read_pos w = of_int (min long_max (int (unat w)))"

lemma unat_read_pos: "unat (read_pos w) = nat (min long_max (int (unat w)))"
proof -
  have "nat (min long_max (int (unat w))) < 4294967296" by (auto simp: long_max_def)
  moreover have "read_pos w = of_nat (nat (min long_max (int (unat w))))"
    by (simp add: read_pos_def long_max_def)
  ultimately show ?thesis by (simp add: unsigned_of_nat take_bit_nat_eq_self)
qed

lemma num_field_lld:
  assumes "unat w < 2 ^ 63"
  shows "num_field (show_lld w @ CHR ''!'' # rest) = Inr (read_pos w, rest)"
proof -
  have l: "length (show_dec (unat w)) \<le> 20" by (rule length_show_dec_u64)
  have s: "show_lld w = show_dec (unat w)" using assms by (rule show_lld_small)
  have c: "strchr (show_dec (unat w) @ CHR ''!'' # rest) BINLOG_SEP = Some (length (show_dec (unat w)))"
    unfolding BINLOG_SEP_def by (rule strchr_append) simp
  have d: "ddatol (show_dec (unat w) @ CHR ''!'' # rest) (int (length (show_dec (unat w))))
           = Inr (min long_max (int (unat w)))"
    by (rule ddatol_show_dec) (use l in simp)
  show ?thesis by (simp only: num_field_def s c nonnull_simps and_then_Inr d read_pos_def) simp
qed

text \<open>Which branch of the automaton a printed mark takes.\<close>

lemma dispatch_mark:
  "dispatch c (begin_mark p e q) s = on_begin c (begin_mark p e q) s"
  "dispatch c (stmt_mark p e i) s = on_stmt c (stmt_mark p e i) s"
  "dispatch c (commit_mark p e x i @ r) s = on_commit c (commit_mark p e x i @ r) s"
  "dispatch c (''*!QUERY!'' @ r) s = on_query c (''*!QUERY!'' @ r) s"
  "dispatch c (start_binlog_mark n i) s = on_start_binlog c (start_binlog_mark n i) s"
  "dispatch c (end_binlog_mark n i) s = on_end_binlog c (end_binlog_mark n i) s"
  "dispatch c (first_binlog_mark n i d) s = on_first_binlog c (first_binlog_mark n i d) s"
  "dispatch c (last_binlog_mark n i d) s = on_last_binlog c (last_binlog_mark n i d) s"
  by (simp_all add: dispatch_def strneq_def mark_defs)

lemma note_line_short:
  "length line \<le> 512 \<Longrightarrow> \<exists>s1. note_line c line s = Inr s1"
  by (simp add: note_line_def Let_def)

lemma handle_lineI:
  assumes "length line \<le> 512"
    and "\<And>s1. ck s1 = ck s \<Longrightarrow> l_szBinLogName s1 = l_szBinLogName s \<Longrightarrow>
           note_line c line s = Inr s1 \<Longrightarrow>
           \<exists>t. dispatch c line (end_of_columns c line s1) = Inr t \<and> P (t\<lparr>ulCountLine := ulCountLine t + 1\<rparr>)"
  shows "\<exists>t. handle_line c line s = Inr t \<and> P t"
proof -
  obtain s1 where n: "note_line c line s = Inr s1" using note_line_short assms(1) by blast
  obtain t where "dispatch c line (end_of_columns c line s1) = Inr t" "P (t\<lparr>ulCountLine := ulCountLine t + 1\<rparr>)"
    using assms(2) [OF _ _ n] note_line_frame [OF n] by blast
  then show ?thesis by (simp add: handle_line_def n)
qed

lemma put_seq_fits:
  assumes "length n < 50" and "NUL \<notin> set n" and "wf_seq q"
  shows "\<exists>q'. put_seq n p i q = Inr q' \<and> wf_seq q' \<and> seq_name q' = n \<and> ulPosition q' = p \<and> ulIndex q' = i"
proof -
  have "\<exists>q'. put_seq n p i q = Inr q'"
    using assms by (simp add: put_seq_def strcpy_arr_def wf_seq_def)
  then obtain q' where e: "put_seq n p i q = Inr q'" ..
  show ?thesis using put_seq_Inr [OF e] put_seq_wf [OF e] assms e by blast
qed

section \<open>The branches on printed marks\<close>

definition names_fit :: "lst \<Rightarrow> bool" where
  "names_fit s \<longleftrightarrow> length (l_szBinLogName s) < 50 \<and> NUL \<notin> set (l_szBinLogName s)
     \<and> wf_seq (g_stBinLogSeqInProgess (ck s))"

lemma progress_fits:
  assumes "length n < 50" and "NUL \<notin> set n" and "wf_seq (g_stBinLogSeqInProgess (ck s))"
  shows "\<exists>q. progress n p i s = Inr (s\<lparr>ck := (ck s)\<lparr>g_stBinLogSeqInProgess := q\<rparr>\<rparr>)
           \<and> wf_seq q \<and> seq_name q = n \<and> ulPosition q = p \<and> ulIndex q = i"
  using put_seq_fits [OF assms, of p i] by (auto simp: progress_def)

lemma progress_ex:
  assumes "length n < 50" and "NUL \<notin> set n" and "wf_seq (g_stBinLogSeqInProgess (ck s))" and "ck s = k"
  shows "\<exists>t. progress n p i s = Inr t \<and> (\<exists>q. ck t = k\<lparr>g_stBinLogSeqInProgess := q\<rparr>
           \<and> wf_seq q \<and> seq_name q = n \<and> ulPosition q = p \<and> ulIndex q = i)"
  using progress_fits [OF assms(1-3), of p i] assms(4) by auto

lemma progress_bind:
  assumes "length n < 50" and "NUL \<notin> set n" and "wf_seq (g_stBinLogSeqInProgess (ck s))"
  shows "\<exists>t. and_then (progress n p i s) (\<lambda>u. Inr (f u)) = Inr t"
  using progress_fits [OF assms, of p i] by auto

lemma on_begin_mark:
  assumes "unat p < 2 ^ 63" and "unat e < 2 ^ 63" and "unat n < 2 ^ 63" and "names_fit s"
  shows "\<exists>t q. on_begin c (begin_mark p e n) s = Inr t
           \<and> ck t = (ck s)\<lparr>g_stBinLogSeqInProgess := q\<rparr>
           \<and> wf_seq q \<and> seq_name q = l_szBinLogName s \<and> ulPosition q = read_pos p \<and> ulIndex q = 0"
proof -
  have d: "drop 8 (begin_mark p e n)
      = show_lld p @ CHR ''!'' # (show_lld e @ CHR ''!'' # (show_lld n @ CHR ''!'' # ''*''))"
    by (simp add: begin_mark_def)
  have sn: "show_lld n = show_dec (unat n)" using assms(3) by (rule show_lld_small)
  have c3: "strchr (show_lld n @ CHR ''!'' # ''*'') BINLOG_SEP = Some (length (show_lld n))"
    unfolding BINLOG_SEP_def sn by (rule strchr_append) simp
  have b: "into_buffer ''szSeqNo'' 21 (take (length (show_lld n)) (show_lld n @ CHR ''!'' # ''*'')) = Inr (show_lld n)"
    unfolding sn using length_show_dec_u64 [of n] by (simp add: into_buffer_def)
  show ?thesis
    unfolding on_begin_def Let_def d num_field_lld [OF assms(1)] num_field_lld [OF assms(2)]
      and_then_Inr prod.case c3 option.case b
    by (simp, rule progress_ex) (use assms(4) in \<open>simp_all add: names_fit_def\<close>)
qed

lemma on_commit_mark:
  assumes "unat p < 2 ^ 63" and "unat e < 2 ^ 63" and "names_fit s"
  shows "\<exists>t q. on_commit c (commit_mark p e x i @ r) s = Inr t
           \<and> ck t = SaveInDisk (xai_written c) ''B'' 2 q ((ck s)\<lparr>g_stBinLogSeqInProgess := q\<rparr>)
           \<and> \<not> bStartOfStmt t \<and> \<not> bQueryInProgress t \<and> \<not> bDataColumnInProgress t
           \<and> wf_seq q \<and> seq_name q = l_szBinLogName s \<and> ulPosition q = read_pos e \<and> ulIndex q = 0"
proof -
  have d: "drop 9 (commit_mark p e x i @ r) = show_lld p @ CHR ''!'' # (show_lld e @ CHR ''!'' #
      (show_dec (unat x) @ CHR ''!'' # (show_lu i @ ''!*'' @ r)))"
    by (simp add: commit_mark_def)
  have c3: "strchr (show_dec (unat x) @ CHR ''!'' # (show_lu i @ ''!*'' @ r)) BINLOG_SEP
            = Some (length (show_dec (unat x)))"
    unfolding BINLOG_SEP_def by (rule strchr_append) simp
  have b: "text_field ''szXid'' 50 (show_dec (unat x) @ CHR ''!'' # (show_lu i @ ''!*'' @ r))
           = Inr (show_dec (unat x))"
    unfolding text_field_def c3 using length_show_dec_u64 [of x] by (simp add: into_buffer_def)
  let ?s = "trace_event c ''COMMIT'' (read_pos p) (read_pos e) 0 (show_dec (unat x)) [] []
      (s\<lparr>bQueryInProgress := False, bStartOfStmt := False, bDataColumnInProgress := False,
         l_ulPosition := read_pos p, l_ulIndex := 0, l_ulEndPosition := read_pos e,
         szXid := show_dec (unat x)\<rparr>)"
  obtain q where "progress (l_szBinLogName s) (read_pos e) 0 ?s
        = Inr (?s\<lparr>ck := (ck ?s)\<lparr>g_stBinLogSeqInProgess := q\<rparr>\<rparr>)"
    and "wf_seq q" "seq_name q = l_szBinLogName s" "ulPosition q = read_pos e" "ulIndex q = 0"
    using progress_fits [of "l_szBinLogName s" ?s "read_pos e" 0] assms(3) by (auto simp: names_fit_def)
  then show ?thesis
    unfolding on_commit_def Let_def d num_field_lld [OF assms(1)] num_field_lld [OF assms(2)]
      and_then_Inr prod.case b
    by (intro exI [of _ "save c 2 (?s\<lparr>ck := (ck ?s)\<lparr>g_stBinLogSeqInProgess := q\<rparr>\<rparr>)"] exI [of _ q])
      (simp add: save_def)
qed

lemma names_fit_end_of_columns [simp]: "names_fit (end_of_columns c line s) = names_fit s"
  by (simp add: names_fit_def)

lemma length_show_lld: "unat w < 2 ^ 63 \<Longrightarrow> length (show_lld w) \<le> 20"
  using length_show_dec_u64 [of w] by (simp add: show_lld_small)

lemma length_begin_mark:
  "unat p < 2 ^ 63 \<Longrightarrow> unat e < 2 ^ 63 \<Longrightarrow> unat n < 2 ^ 63 \<Longrightarrow> length (begin_mark p e n) \<le> 512"
  using length_show_lld [of p] length_show_lld [of e] length_show_lld [of n] by (simp add: begin_mark_def)

lemma length_commit_mark:
  "unat p < 2 ^ 63 \<Longrightarrow> unat e < 2 ^ 63 \<Longrightarrow> length (commit_mark p e x i) \<le> 90"
  using length_show_lld [of p] length_show_lld [of e] length_show_dec_u64 [of x] length_show_dec_u32 [of i]
  by (simp add: commit_mark_def show_lu_def)

lemma begin_line:
  assumes "unat p < 2 ^ 63" and "unat e < 2 ^ 63" and "unat n < 2 ^ 63" and "names_fit s"
    and "xai_written c = SEQ_LEN" and "xai_open jrn (ck s)"
  shows "\<exists>t. handle_line c (begin_mark p e n) s = Inr t
           \<and> seq_name (g_stBinLogSeqInProgess (ck t)) = l_szBinLogName s
           \<and> ulPosition (g_stBinLogSeqInProgess (ck t)) = read_pos p
           \<and> ulIndex (g_stBinLogSeqInProgess (ck t)) = 0
           \<and> wf_seq (g_stBinLogSeqInProgess (ck t))
           \<and> xai_open jrn (ck t)
           \<and> restart_seq jrn (ck t) \<in> {restart_seq jrn (ck s), Some (g_stBinLogSeqInProgess (ck s))}"
proof (rule handle_lineI [OF length_begin_mark [OF assms(1-3)]])
  fix s1 :: lst
  assume k: "ck s1 = ck s" and n: "l_szBinLogName s1 = l_szBinLogName s"
  let ?e = "end_of_columns c (begin_mark p e n) s1"
  have "saves_only jrn (ck s1) (ck ?e)"
    using assms(4-6) k by (intro saves_only_end_of_columns) (simp_all add: names_fit_def)
  moreover have "names_fit ?e" using assms(4) k n by (simp add: names_fit_def)
  then obtain t q where "on_begin c (begin_mark p e n) ?e = Inr t"
      "ck t = (ck ?e)\<lparr>g_stBinLogSeqInProgess := q\<rparr>" "wf_seq q" "seq_name q = l_szBinLogName ?e"
      "ulPosition q = read_pos p" "ulIndex q = 0"
    using on_begin_mark [OF assms(1-3)] by blast
  ultimately show "\<exists>t. dispatch c (begin_mark p e n) ?e = Inr t
      \<and> seq_name (g_stBinLogSeqInProgess (ck (t\<lparr>ulCountLine := ulCountLine t + 1\<rparr>))) = l_szBinLogName s
      \<and> ulPosition (g_stBinLogSeqInProgess (ck (t\<lparr>ulCountLine := ulCountLine t + 1\<rparr>))) = read_pos p
      \<and> ulIndex (g_stBinLogSeqInProgess (ck (t\<lparr>ulCountLine := ulCountLine t + 1\<rparr>))) = 0
      \<and> wf_seq (g_stBinLogSeqInProgess (ck (t\<lparr>ulCountLine := ulCountLine t + 1\<rparr>)))
      \<and> xai_open jrn (ck (t\<lparr>ulCountLine := ulCountLine t + 1\<rparr>))
      \<and> restart_seq jrn (ck (t\<lparr>ulCountLine := ulCountLine t + 1\<rparr>))
          \<in> {restart_seq jrn (ck s), Some (g_stBinLogSeqInProgess (ck s))}"
    using k n by (auto simp: dispatch_mark saves_only_def)
qed

lemma commit_line:
  assumes "unat p < 2 ^ 63" and "unat e < 2 ^ 63" and "names_fit s" and "length r \<le> 100"
    and "xai_written c = SEQ_LEN" and "xai_open jrn (ck s)"
  shows "\<exists>t. handle_line c (commit_mark p e x i @ r) s = Inr t
           \<and> \<not> bStartOfStmt t \<and> \<not> bQueryInProgress t \<and> \<not> bDataColumnInProgress t
           \<and> xai_open jrn (ck t)
           \<and> restart_seq jrn (ck t) = Some (g_stBinLogSeqInProgess (ck t))
           \<and> seq_name (g_stBinLogSeqInProgess (ck t)) = l_szBinLogName s
           \<and> ulPosition (g_stBinLogSeqInProgess (ck t)) = read_pos e
           \<and> ulIndex (g_stBinLogSeqInProgess (ck t)) = 0 \<and> wf_seq (g_stBinLogSeqInProgess (ck t))"
proof (rule handle_lineI)
  show "length (commit_mark p e x i @ r) \<le> 512"
    using length_commit_mark [OF assms(1,2), of x i] assms(4) by simp
next
  fix s1 :: lst
  assume k: "ck s1 = ck s" and n: "l_szBinLogName s1 = l_szBinLogName s"
  let ?l = "commit_mark p e x i @ r"
  let ?e = "end_of_columns c ?l s1"
  have "xai_open jrn (ck ?e)"
    using end_of_columns_ck [of c ?l s1] k assms(6) by auto
  moreover have "names_fit ?e" using assms(3) k n by (simp add: names_fit_def)
  then obtain t q where "on_commit c ?l ?e = Inr t"
      "ck t = SaveInDisk (xai_written c) ''B'' 2 q ((ck ?e)\<lparr>g_stBinLogSeqInProgess := q\<rparr>)"
      "\<not> bStartOfStmt t" "\<not> bQueryInProgress t" "\<not> bDataColumnInProgress t"
      "wf_seq q" "seq_name q = l_szBinLogName ?e" "ulPosition q = read_pos e" "ulIndex q = 0"
    using on_commit_mark [OF assms(1,2)] by blast
  ultimately show "\<exists>t. dispatch c ?l ?e = Inr t
      \<and> \<not> bStartOfStmt (t\<lparr>ulCountLine := ulCountLine t + 1\<rparr>)
      \<and> \<not> bQueryInProgress (t\<lparr>ulCountLine := ulCountLine t + 1\<rparr>)
      \<and> \<not> bDataColumnInProgress (t\<lparr>ulCountLine := ulCountLine t + 1\<rparr>)
      \<and> xai_open jrn (ck (t\<lparr>ulCountLine := ulCountLine t + 1\<rparr>))
      \<and> restart_seq jrn (ck (t\<lparr>ulCountLine := ulCountLine t + 1\<rparr>))
          = Some (g_stBinLogSeqInProgess (ck (t\<lparr>ulCountLine := ulCountLine t + 1\<rparr>)))
      \<and> seq_name (g_stBinLogSeqInProgess (ck (t\<lparr>ulCountLine := ulCountLine t + 1\<rparr>))) = l_szBinLogName s
      \<and> ulPosition (g_stBinLogSeqInProgess (ck (t\<lparr>ulCountLine := ulCountLine t + 1\<rparr>))) = read_pos e
      \<and> ulIndex (g_stBinLogSeqInProgess (ck (t\<lparr>ulCountLine := ulCountLine t + 1\<rparr>))) = 0
      \<and> wf_seq (g_stBinLogSeqInProgess (ck (t\<lparr>ulCountLine := ulCountLine t + 1\<rparr>)))"
    using n assms(5) by (auto simp: dispatch_mark restart_after_save)
qed

section \<open>Properties\<close>

definition demo_cfg :: cfg where
  "demo_cfg = \<lparr>g_lTraceBinLog = 0, xai_written = SEQ_LEN, io = demo_env, g_iMaxBufferLine = 24, g_iLenBufferOut = 4\<rparr>"

definition demo_lst :: lst where
  "demo_lst = \<lparr>bStartOfStmt = False, bQueryInProgress = False, bDataColumnInProgress = False, fLob = False,
     szJournalEntry = [], l_szBinLogName = ''bin.000001'', szTableName = [], szSchemaName = [], szXid = [],
     szSeqNo = ''0'', l_ulPosition = 0, l_ulEndPosition = 0, l_ulIndex = 0, iNumField = 0, iCountField = 0,
     ulCountBinLog = 0, ulCountStatement = 0, ulCountTransaction = 0, ulCountTotalStatement = 0,
     ulCountTotalTransaction = 0, ulCountLine = 0, ulCountInsert = 0, ulCountUpdate = 0, ulCountDelete = 0,
     g_RowCount = \<lparr>rc_ulCountBinLog = 0, rc_ulCountAllRow = 0, rc_ulCountRowtable = 0, rc_ulCountTransaction = 0,
       rc_ulCountInsert = 0, rc_ulCountUpdate = 0, rc_ulCountDelete = 0\<rparr>,
     g_StartBinLog = zero_seq, g_EndBinLog = zero_seq,
     g_StBinLogInfoFirst = \<lparr>bi_szBinLogName = replicate 50 NUL, bi_ulSize = 0, bi_ulPosition = 0\<rparr>,
     g_StBinLogInfoLast = \<lparr>bi_szBinLogName = replicate 50 NUL, bi_ulSize = 0, bi_ulPosition = 0\<rparr>,
     g_fStartBinlog = False, g_fEndBinlog = False, g_fFirstBinlog = False, g_fLastBinlog = False,
     g_hEventEndOfBinlog = False, g_szLastBufferWork = [],
     ck = demo_ckpt\<lparr>disk := [''j.XAI'' \<mapsto> bytes_of_seq zero_seq]\<rparr>, trace_sql = []\<rparr>"

lemma demo_lst_ok:
  "names_fit demo_lst" "xai_open ''j'' (ck demo_lst)" "xai_written demo_cfg = SEQ_LEN"
  "g_stBinLogSeqInProgess (ck demo_lst) = zero_seq" "l_szBinLogName demo_lst = ''bin.000001''"
  "restart_seq ''j'' (ck demo_lst) = Some zero_seq"
proof -
  show "restart_seq ''j'' (ck demo_lst) = Some zero_seq"
    by (rule InitParam_reads [where rest = "[]"]) (simp_all add: demo_lst_def xai_path_def)
qed (simp_all add: demo_lst_def demo_cfg_def names_fit_def demo_ckpt_def xai_open_def xai_path_def)

text \<open>C19: a commit is durable: when the automaton reads the mark of a commit, what a restart finds
  in the \<open>.XAI\<close> file is the end position of that commit in the current binary log, index 0, and
  the statement and row flags are reset.\<close>

theorem commit_is_durable:
  assumes "unat p < 2 ^ 63" and "unat e < 2 ^ 63" and "names_fit s"
    and "xai_written c = SEQ_LEN" and "xai_open jrn (ck s)"
  shows "\<exists>t q. handle_line c (commit_mark p e x i) s = Inr t
           \<and> restart_seq jrn (ck t) = Some q \<and> g_stBinLogSeqInProgess (ck t) = q
           \<and> seq_name q = l_szBinLogName s \<and> ulIndex q = 0
           \<and> unat (ulPosition q) = nat (min long_max (int (unat e)))
           \<and> \<not> bStartOfStmt t \<and> \<not> bQueryInProgress t \<and> \<not> bDataColumnInProgress t"
  using commit_line [OF assms(1-3) _ assms(4,5), of "[]" x i] by (auto simp: unat_read_pos)

theorem commit_is_durable_witness:
  "\<exists>t q. handle_line demo_cfg (commit_mark 4 400 7 1) demo_lst = Inr t
       \<and> restart_seq ''j'' (ck t) = Some q \<and> seq_name q = ''bin.000001'' \<and> unat (ulPosition q) = 400"
  using commit_is_durable [of 4 400 demo_lst demo_cfg "''j''" 7 1] demo_lst_ok
  by (auto simp: long_max_def)

text \<open>A position beyond \<open>LONG_MAX\<close> (a binary log of more than 2 GB) is not kept: the checkpoint
  of such a commit is 2147483647, an offset inside some event, whatever the commit's position.\<close>

theorem commit_position_saturates:
  assumes "unat p < 2 ^ 63" and "2147483648 \<le> unat e" and "unat e < 2 ^ 63" and "names_fit s"
    and "xai_written c = SEQ_LEN" and "xai_open jrn (ck s)"
  shows "\<exists>t q. handle_line c (commit_mark p e x i) s = Inr t
           \<and> restart_seq jrn (ck t) = Some q \<and> ulPosition q = 2147483647"
proof -
  have "min long_max (int (unat e)) = 2147483647"
    using assms(2) unfolding long_max_def by linarith
  then have "read_pos e = 2147483647" by (simp only: read_pos_def) simp
  then show ?thesis
    using commit_line [OF assms(1,3,4) _ assms(5,6), of "[]" x i] by auto
qed

theorem commit_position_saturates_witness:
  "\<exists>t q. handle_line demo_cfg (commit_mark 4 3000000000 7 1) demo_lst = Inr t
       \<and> restart_seq ''j'' (ck t) = Some q \<and> ulPosition q = 2147483647"
  using commit_position_saturates [of 4 3000000000 demo_lst demo_cfg "''j''" 7 1] demo_lst_ok
  by simp

text \<open>C18: a capture that stops anywhere inside a transaction of rows resumes at or before its beginning, given that the
  file held the checkpoint in progress when it began: after the mark of a begin and any further lines that are not the mark of
  another begin, a commit, a query or a new binary log (so whatever rows they describe), a restart finds either the
  checkpoint from before or the position of that begin. A query inside the transaction, as in a log of statements,
  is not covered: it moves the checkpoint behind itself (\<open>query_saves_inside\<close>).\<close>

theorem restart_inside_transaction:
  assumes "unat p < 2 ^ 63" and "unat e < 2 ^ 63" and "unat n < 2 ^ 63" and "names_fit s"
    and "xai_written c = SEQ_LEN" and "xai_open jrn (ck s)"
    and "restart_seq jrn (ck s) = Some (g_stBinLogSeqInProgess (ck s))"
    and "\<forall>l \<in> set ls. \<not> moves_checkpoint l"
    and "fold_res (handle_line c) (begin_mark p e n # ls) s = Inr t"
  shows "\<exists>q. restart_seq jrn (ck t) = Some q
           \<and> (q = g_stBinLogSeqInProgess (ck s)
              \<or> seq_name q = l_szBinLogName s \<and> ulIndex q = 0
                \<and> unat (ulPosition q) = nat (min long_max (int (unat p))))"
proof -
  obtain u where u: "handle_line c (begin_mark p e n) s = Inr u"
    and q: "seq_name (g_stBinLogSeqInProgess (ck u)) = l_szBinLogName s"
      "ulPosition (g_stBinLogSeqInProgess (ck u)) = read_pos p"
      "ulIndex (g_stBinLogSeqInProgess (ck u)) = 0" "wf_seq (g_stBinLogSeqInProgess (ck u))"
      "xai_open jrn (ck u)"
      "restart_seq jrn (ck u) \<in> {restart_seq jrn (ck s), Some (g_stBinLogSeqInProgess (ck s))}"
    using begin_line [OF assms(1-6)] by blast
  have "fold_res (handle_line c) ls u = Inr t" using assms(9) u by simp
  then have "saves_only jrn (ck u) (ck t)"
    using lines_saves_only assms(5,8) q(4,5) by blast
  then show ?thesis using q assms(7) by (auto simp: saves_only_def unat_read_pos)
qed

lemma other_line:
  assumes "take 2 l \<noteq> ''*!''" and "take 3 l \<noteq> ''###''"
    and "length l \<le> 512 \<or> 1024 \<le> length l"
  shows "\<exists>t. handle_line c l s = Inr t \<and> fLob t = fLob s"
proof -
  have n: "\<not> strneq l m k" if "take 2 m = ''*!''" "2 \<le> k" for m k
  proof
    assume "strneq l m k"
    then have "take 2 (take k l) = take 2 (take k m)" by (simp add: strneq_def)
    then show False using that assms(1) by (simp add: min_def)
  qed
  have "\<exists>s1. note_line c l s = Inr s1"
    using assms(3) by (auto simp: note_line_def Let_def)
  then obtain s1 where s1: "note_line c l s = Inr s1" ..
  have "dispatch c l (end_of_columns c l s1) = Inr (end_of_columns c l s1)"
    using n assms(2) by (simp add: dispatch_def) (simp add: strneq_def)
  then show ?thesis using note_line_frame [OF s1] by (simp add: handle_line_def s1)
qed

theorem restart_inside_transaction_witness:
  "\<exists>t q. fold_res (handle_line demo_cfg) [begin_mark 4 40 1, ''# at 40''] demo_lst = Inr t
     \<and> restart_seq ''j'' (ck t) = Some q
     \<and> (q = zero_seq \<or> seq_name q = ''bin.000001'' \<and> ulIndex q = 0 \<and> unat (ulPosition q) = 4)"
proof -
  obtain u where u: "handle_line demo_cfg (begin_mark 4 40 1) demo_lst = Inr u"
    using begin_line [of 4 40 1 demo_lst demo_cfg "''j''"] demo_lst_ok by auto
  obtain t where t: "handle_line demo_cfg ''# at 40'' u = Inr t"
    using other_line [of "''# at 40''" demo_cfg u] by auto
  show ?thesis
    using restart_inside_transaction [of 4 40 1 demo_lst demo_cfg "''j''" "[''# at 40'']" t] u t demo_lst_ok
    by (auto simp: moves_checkpoint_def strneq_def long_max_def)
qed

text \<open>A query that is printed inside a transaction saves the checkpoint there: a restart resumes behind the query, in the
  middle of the transaction.\<close>

lemma on_query_mark:
  assumes "unat p < 2 ^ 63" and "unat e < 2 ^ 63" and "names_fit s"
  shows "\<exists>t q. on_query c (query_mark p e sql i) s = Inr t
           \<and> ck t = SaveInDisk (xai_written c) ''B'' 3 q ((ck s)\<lparr>g_stBinLogSeqInProgess := q\<rparr>)
           \<and> wf_seq q \<and> seq_name q = l_szBinLogName s \<and> ulPosition q = read_pos e \<and> bStartOfStmt t = bStartOfStmt s"
proof -
  have d: "drop 8 (query_mark p e sql i) = show_lld p @ CHR ''!'' # (show_lld e @ CHR ''!'' # (sql @ ''!'' @ show_lu i @ ''!''))"
    by (simp add: query_mark_def)
  let ?s = "trace_event c ''QUERY'' (read_pos p) (read_pos e) 0 [] [] (sql @ ''!'' @ show_lu i @ ''!'')
      (s\<lparr>l_ulPosition := read_pos p, l_ulIndex := 0, l_ulEndPosition := read_pos e\<rparr>)"
  obtain q where "progress (l_szBinLogName s) (read_pos e) 0 ?s
        = Inr (?s\<lparr>ck := (ck ?s)\<lparr>g_stBinLogSeqInProgess := q\<rparr>\<rparr>)"
    and "wf_seq q" "seq_name q = l_szBinLogName s" "ulPosition q = read_pos e"
    using progress_fits [of "l_szBinLogName s" ?s "read_pos e" 0] assms(3) by (auto simp: names_fit_def)
  then show ?thesis
    unfolding on_query_def Let_def d num_field_lld [OF assms(1)] num_field_lld [OF assms(2)] and_then_Inr prod.case
    by (intro exI [of _ "save c 3 (?s\<lparr>ck := (ck ?s)\<lparr>g_stBinLogSeqInProgess := q\<rparr>\<rparr>)"] exI [of _ q])
      (simp add: save_def)
qed

lemma query_saves_inside:
  assumes "unat p < 2 ^ 63" and "unat e < 2 ^ 63" and "names_fit s" and "length sql \<le> 400"
    and "xai_written c = SEQ_LEN" and "xai_open jrn (ck s)"
  shows "\<exists>t. handle_line c (query_mark p e sql i) s = Inr t \<and> (\<exists>q. restart_seq jrn (ck t) = Some q \<and> ulPosition q = read_pos e)"
proof -
  have "length (query_mark p e sql i) \<le> 512"
    using length_show_lld [OF assms(1)] length_show_lld [OF assms(2)] assms(4) length_show_dec_u32 [of i]
    by (simp add: query_mark_def show_lu_def)
  then show ?thesis
  proof (rule handle_lineI)
    fix s1 :: lst
    assume k: "ck s1 = ck s" and n: "l_szBinLogName s1 = l_szBinLogName s"
    let ?l = "query_mark p e sql i"
    let ?e = "end_of_columns c ?l s1"
    have "xai_open jrn (ck ?e)" using end_of_columns_ck [of c ?l s1] k assms(6) by auto
    moreover have "names_fit ?e" using assms(3) k n by (simp add: names_fit_def)
    then obtain t q where "on_query c ?l ?e = Inr t" "ck t = SaveInDisk (xai_written c) ''B'' 3 q ((ck ?e)\<lparr>g_stBinLogSeqInProgess := q\<rparr>)"
      "wf_seq q" "ulPosition q = read_pos e"
      using on_query_mark [OF assms(1,2)] by blast
    moreover have "dispatch c ?l ?e = on_query c ?l ?e" unfolding query_mark_def by (rule dispatch_mark(4))
    ultimately show "\<exists>t. dispatch c ?l ?e = Inr t
        \<and> (\<exists>q. restart_seq jrn (ck (t\<lparr>ulCountLine := ulCountLine t + 1\<rparr>)) = Some q \<and> ulPosition q = read_pos e)"
      using assms(5) by (auto simp: restart_after_save)
  qed
qed

text \<open>C38: the text of a query is not escaped: a query that contains a new line followed by the text
  of a commit mark is captured as two lines, and the second one is taken for a commit, so that the
  checkpoint jumps to a position chosen by whoever wrote the query.\<close>

theorem query_text_forges_commit:
  assumes "unat p < 2 ^ 63" and "unat e < 2 ^ 63" and "names_fit s"
    and "xai_written c = SEQ_LEN" and "xai_open jrn (ck s)"
    and "NL \<notin> set sql" and "length sql \<le> 400" and "unat forged < 2 ^ 63"
  shows "\<exists>l1 l2 t q. query_mark p e (sql @ NL # commit_mark 0 forged 0 0) i = l1 @ NL # l2
     \<and> NL \<notin> set l1 \<and> fold_res (handle_line c) [l1, l2] s = Inr t
     \<and> restart_seq jrn (ck t) = Some q \<and> unat (ulPosition q) = nat (min long_max (int (unat forged)))"
proof -
  define l1 where "l1 = ''*!QUERY!'' @ (show_lld p @ CHR ''!'' # (show_lld e @ CHR ''!'' # sql))"
  define r where "r = ''!'' @ show_lu i @ ''!''"
  have q: "query_mark p e (sql @ NL # commit_mark 0 forged 0 0) i = l1 @ NL # (commit_mark 0 forged 0 0 @ r)"
    by (simp add: query_mark_def l1_def r_def)
  have nl: "NL \<notin> set l1"
    using assms(6) by (simp add: l1_def show_lld_small [OF assms(1)] show_lld_small [OF assms(2)])
  have len: "length l1 \<le> 512" and rl: "length r \<le> 100"
    using length_show_lld [OF assms(1)] length_show_lld [OF assms(2)] assms(7) length_show_dec_u32 [of i]
    by (simp_all add: l1_def r_def show_lu_def)
  have "\<exists>u. handle_line c l1 s = Inr u \<and> names_fit u \<and> xai_open jrn (ck u)"
  proof (rule handle_lineI [OF len])
    fix s1 :: lst
    assume k: "ck s1 = ck s" and n: "l_szBinLogName s1 = l_szBinLogName s"
    let ?e = "end_of_columns c l1 s1"
    have f: "names_fit ?e" using assms(3) k n by (simp add: names_fit_def)
    have d: "drop 8 l1 = show_lld p @ CHR ''!'' # (show_lld e @ CHR ''!'' # sql)" by (simp add: l1_def)
    have "\<exists>t. on_query c l1 ?e = Inr t"
      unfolding on_query_def d num_field_lld [OF assms(1)] num_field_lld [OF assms(2)] and_then_Inr
        prod.case Let_def
      by (rule progress_bind) (use f in \<open>simp_all add: names_fit_def\<close>)
    then obtain t where t: "on_query c l1 ?e = Inr t" ..
    obtain qq where "put_seq (l_szBinLogName ?e) (l_ulEndPosition t) 0 (g_stBinLogSeqInProgess (ck ?e)) = Inr qq"
      and "ck t = SaveInDisk (xai_written c) ''B'' 3 qq ((ck ?e)\<lparr>g_stBinLogSeqInProgess := qq\<rparr>)"
      using on_query_ck [OF t] by blast
    then have "names_fit t" "xai_open jrn (ck t)"
      using on_query_ck [OF t] f assms(5) k n end_of_columns_ck [of c l1 s1]
      by (auto simp: names_fit_def dest: put_seq_wf)
    moreover have "dispatch c l1 ?e = on_query c l1 ?e"
      unfolding l1_def by (rule dispatch_mark(4))
    ultimately show "\<exists>t. dispatch c l1 ?e = Inr t
        \<and> names_fit (t\<lparr>ulCountLine := ulCountLine t + 1\<rparr>)
        \<and> xai_open jrn (ck (t\<lparr>ulCountLine := ulCountLine t + 1\<rparr>))"
      using t by (auto simp: names_fit_def)
  qed
  then obtain u where u: "handle_line c l1 s = Inr u" "names_fit u" "xai_open jrn (ck u)" by blast
  obtain t where "handle_line c (commit_mark 0 forged 0 0 @ r) u = Inr t"
      "restart_seq jrn (ck t) = Some (g_stBinLogSeqInProgess (ck t))"
      "ulPosition (g_stBinLogSeqInProgess (ck t)) = read_pos forged"
    using commit_line [OF _ assms(8) u(2) rl assms(4) u(3), of 0 0 0] by auto
  then have "fold_res (handle_line c) [l1, commit_mark 0 forged 0 0 @ r] s = Inr t
      \<and> restart_seq jrn (ck t) = Some (g_stBinLogSeqInProgess (ck t))
      \<and> unat (ulPosition (g_stBinLogSeqInProgess (ck t))) = nat (min long_max (int (unat forged)))"
    using u(1) unat_read_pos [of forged] by simp
  then show ?thesis using q nl by blast
qed

theorem query_text_forges_commit_witness:
  "\<exists>l1 l2 t q. query_mark 4 90 (''insert 1'' @ NL # commit_mark 0 123456 0 0) 1 = l1 @ NL # l2
     \<and> fold_res (handle_line demo_cfg) [l1, l2] demo_lst = Inr t
     \<and> restart_seq ''j'' (ck t) = Some q \<and> unat (ulPosition q) = 123456"
  using query_text_forges_commit [of 4 90 demo_lst demo_cfg "''j''" "''insert 1''" 123456 1] demo_lst_ok
  by (auto simp: long_max_def)

text \<open>The filter that is meant to skip rows already captured never skips one: the index of a
  checkpoint that the capture writes is always 0 and the index of a row starts at 1, so every row
  operation that names its table is counted and starts a row, whatever the position to resume from.\<close>

theorem row_filter_never_skips:
  assumes "ulIndex (g_stBinLogSeq (ck s)) = 0" and "l_ulIndex s \<noteq> 4294967295"
    and "iOffsetCmd \<le> length line" and "length line < 500"
  shows "\<exists>t. on_query_found c line iOffsetCmd s = Inr t \<and> bQueryInProgress t
           \<and> rc_ulCountRowtable (g_RowCount t) = rc_ulCountRowtable (g_RowCount s) + 1"
proof -
  let ?s = "s\<lparr>g_RowCount := (g_RowCount s)\<lparr>rc_ulCountAllRow := rc_ulCountAllRow (g_RowCount s) + 1\<rparr>,
               bQueryInProgress := False, bDataColumnInProgress := False\<rparr>"
  have i: "0 < l_ulIndex s + 1"
  proof -
    have "l_ulIndex s + 1 \<noteq> 0"
    proof
      assume "l_ulIndex s + 1 = 0"
      then have "l_ulIndex s = - 1" by (simp add: eq_neg_iff_add_eq_0)
      then show False using assms(2) by simp
    qed
    then show ?thesis by (simp add: word_neq_0_conv)
  qed
  have "\<exists>table schema. on_query_found c line iOffsetCmd s = Inr (row_operation c line table schema ?s)"
    using assms(3,4) by (auto simp: on_query_found_def Let_def split: option.splits)
  then obtain table schema where e: "on_query_found c line iOffsetCmd s = Inr (row_operation c line table schema ?s)"
    by blast
  have "after_saved (?s\<lparr>szTableName := table, szSchemaName := schema, l_ulIndex := l_ulIndex ?s + 1\<rparr>)"
    using i assms(1) by (cases "ulCountBinLog s = 0") (auto simp: after_saved_def word_neq_0_conv)
  then show ?thesis using e by (simp add: row_operation_def Let_def count_row_def)
qed

theorem row_filter_never_skips_witness:
  "\<exists>t. on_query_found demo_cfg ''### INSERT INTO `d`.`t`'' 16 demo_lst = Inr t \<and> bQueryInProgress t"
  using row_filter_never_skips [of demo_lst 16 "''### INSERT INTO `d`.`t`''" demo_cfg]
  by (auto simp: demo_lst_def demo_ckpt_def zero_seq_def)

lemma note_line_infos:
  "note_line c line s = Inr t \<Longrightarrow> g_EndBinLog t = g_EndBinLog s \<and> g_StBinLogInfoLast t = g_StBinLogInfoLast s"
  by (auto simp: note_line_def Let_def split: if_splits)

lemma end_of_columns_infos [simp]:
  "g_EndBinLog (end_of_columns c line s) = g_EndBinLog s"
  "g_StBinLogInfoLast (end_of_columns c line s) = g_StBinLogInfoLast s"
  by (simp_all add: end_of_columns_def save_def)

text \<open>The mark of the last binary log of a pass hands the checkpoint in progress over to the
  main thread, which reads \<open>g_stBinLogSeq\<close> to resume, and signals it; the file is not written.\<close>

theorem last_binlog_hands_over:
  assumes "length (last_binlog_mark name idx date) \<le> 512"
    and "l_szBinLogName s = info_name (g_StBinLogInfoLast s)"
    and "length (l_szBinLogName s) < length (szBinLogName (g_EndBinLog s))"
  shows "\<exists>t. handle_line c (last_binlog_mark name idx date) s = Inr t
     \<and> g_stBinLogSeq (ck t) = g_stBinLogSeqInProgess (ck s)
     \<and> g_stBinLogSeqInProgess (ck t) = g_stBinLogSeqInProgess (ck s)
     \<and> g_hEventEndOfBinlog t"
proof (rule handle_lineI [OF assms(1)])
  fix s1 :: lst
  assume k: "ck s1 = ck s" and n: "l_szBinLogName s1 = l_szBinLogName s"
    and nl: "note_line c (last_binlog_mark name idx date) s = Inr s1"
  let ?l = "last_binlog_mark name idx date"
  let ?e = "end_of_columns c ?l s1"
  have i: "g_EndBinLog ?e = g_EndBinLog s" "g_StBinLogInfoLast ?e = g_StBinLogInfoLast s"
    using note_line_infos [OF nl] by simp_all
  have "\<exists>t. on_last_binlog c ?l ?e = Inr t \<and> ck t = (ck ?e)\<lparr>g_stBinLogSeq := g_stBinLogSeqInProgess (ck ?e)\<rparr>
          \<and> g_hEventEndOfBinlog t"
    using i n assms(2,3) by (simp add: on_last_binlog_def Let_def put_seq_def strcpy_arr_def)
  then show "\<exists>t. dispatch c ?l ?e = Inr t
     \<and> g_stBinLogSeq (ck (t\<lparr>ulCountLine := ulCountLine t + 1\<rparr>)) = g_stBinLogSeqInProgess (ck s)
     \<and> g_stBinLogSeqInProgess (ck (t\<lparr>ulCountLine := ulCountLine t + 1\<rparr>)) = g_stBinLogSeqInProgess (ck s)
     \<and> g_hEventEndOfBinlog (t\<lparr>ulCountLine := ulCountLine t + 1\<rparr>)"
    using k by (auto simp: dispatch_mark)
qed

theorem last_binlog_hands_over_witness:
  "\<exists>t. handle_line demo_cfg (last_binlog_mark ''b'' 1 ''2022'')
        (demo_lst\<lparr>l_szBinLogName := [], ck := (ck demo_lst)\<lparr>g_stBinLogSeqInProgess := zero_seq\<lparr>ulPosition := 9\<rparr>\<rparr>\<rparr>) = Inr t
     \<and> ulPosition (g_stBinLogSeq (ck t)) = 9 \<and> g_hEventEndOfBinlog t"
proof -
  let ?s = "demo_lst\<lparr>l_szBinLogName := [], ck := (ck demo_lst)\<lparr>g_stBinLogSeqInProgess := zero_seq\<lparr>ulPosition := 9\<rparr>\<rparr>\<rparr>"
  have "length (last_binlog_mark ''b'' 1 ''2022'') \<le> 512"
    using length_show_dec_u32 [of 1] by (simp add: last_binlog_mark_def show_lu_def)
  moreover have "l_szBinLogName ?s = info_name (g_StBinLogInfoLast ?s)"
    by (simp add: demo_lst_def info_name_def cstr_def)
  moreover have "length (l_szBinLogName ?s) < length (szBinLogName (g_EndBinLog ?s))"
    by (simp add: demo_lst_def zero_seq_def)
  ultimately show ?thesis
    using last_binlog_hands_over [of "''b''" 1 "''2022''" ?s demo_cfg] by auto
qed

end
