(* ===== verification/Listener.thy ===== *)
theory Listener
  imports Line_Checkpoint
begin

text \<open>
  The buffer of the listener thread (\<open>listenBinLogThread\<close>): reads from the pipe
  (\<open>StdOutRedirect::GetBuffer\<close>) land in \<open>g_pszBufferStdOut\<close>; every line that is complete is
  appended to the capture file (changing the file when it is too long) and handed to the line
  automaton; a buffer that is full is moved, spilled (a long column value) or discarded.

  The buffers are arrays of \<open>g_iMaxBufferLine\<close> and \<open>g_iLenBufferOut\<close> bytes (\<open>LoadParam\<close> allocates
  them), the pointers into the first one are offsets. The scan of a buffer may jump back (when a
  spilled line was put back in the buffer), so it is a partial function: \<open>None\<close> is a scan that
  never ends.
\<close>

section \<open>State\<close>

record ls =
  buf :: "char list"
  pszBufferStart :: nat
  pszStartLine :: nat
  g_pszLine :: "char list"
  g_pszSavedLine :: "char list"
  la :: lst
  cp :: cap

text \<open>The string that starts at an offset of an array; an array without a null byte behind the
  offset is read beyond its end.\<close>

definition str_at :: "string \<Rightarrow> char list \<Rightarrow> nat \<Rightarrow> string res" where
  "str_at what arr off =
     (if NUL \<in> set (drop off arr) then Inr (cstr (drop off arr)) else Inl (Out_of_bounds what))"

definition poke :: "string \<Rightarrow> char list \<Rightarrow> nat \<Rightarrow> char \<Rightarrow> char list res" where
  "poke what arr i ch = (if i < length arr then Inr (arr[i := ch]) else Inl (Out_of_bounds what))"

section \<open>Reading the pipe\<close>

text \<open>\<open>GetBuffer\<close> stores what \<open>_read\<close> returned and a null byte behind it.\<close>

definition GetBuffer :: "char list \<Rightarrow> nat \<Rightarrow> char list \<Rightarrow> char list res" where
  "GetBuffer arr off bytes =
     (if bytes = [] then Inr arr
      else if length arr < off + length bytes then Inl (Out_of_bounds ''g_pszBufferStdOut'')
      else poke ''g_pszBufferStdOut''
             (take off arr @ bytes @ drop (off + length bytes) arr) (off + length bytes) NUL)"

section \<open>Writing the capture file\<close>

definition write_capture :: "cfg \<Rightarrow> char list \<Rightarrow> cap \<Rightarrow> cap res" where
  "write_capture c bytes k =
     and_then (nonnull ''g_pFileCapture'' (g_pFileCapture k)) (\<lambda>path.
       if can_write (io c) path
       then Inr (k\<lparr>files := append_file path bytes (files k),
                   g_ulCaptureSize := g_ulCaptureSize k + of_nat (length bytes)\<rparr>)
       else Inl Exit0)"

definition rotate_capture :: "cfg \<Rightarrow> cap \<Rightarrow> cap res" where
  "rotate_capture c k =
     (if g_ulCaptureMax k < g_ulCaptureSize k
      then and_then (ChangeJournal (io c) k) (\<lambda>(ok, k'). if ok then Inr k' else Inl Exit0)
      else Inr k)"

text \<open>What happens to one line that is complete, apart from the buffer.\<close>

definition line_step :: "cfg \<Rightarrow> string \<Rightarrow> cap \<times> lst \<Rightarrow> (cap \<times> lst) res" where
  "line_step c line st =
     and_then (write_capture c (line @ [NL]) (fst st)) (\<lambda>k.
     and_then (rotate_capture c k) (\<lambda>k'.
     and_then (handle_line c line (snd st)) (\<lambda>a. Inr (k', a))))"

section \<open>The scan of the buffer\<close>

text \<open>A line feed at offset \<open>work\<close>; the result is the offset at which the scan goes on.\<close>

definition on_newline :: "cfg \<Rightarrow> nat \<Rightarrow> ls \<Rightarrow> (nat \<times> ls) res" where
  "on_newline c work s =
     and_then (write_capture c (take (work + 1 - pszStartLine s) (drop (pszStartLine s) (buf s))) (cp s)) (\<lambda>k.
     and_then (rotate_capture c k) (\<lambda>k'.
     and_then (if fLob (la s)
               then and_then (str_at ''g_pszBufferStdOut'' (buf s) (work + 1)) (\<lambda>rest.
                    and_then (strcpy_arr ''g_pszSavedLine'' (g_pszSavedLine s) rest) (\<lambda>saved.
                    and_then (str_at ''g_pszLine'' (g_pszLine s) 0) (\<lambda>l.
                    and_then (strcpy_arr ''g_pszBufferStdOut'' (buf s) l) (\<lambda>b.
                      Inr (b, saved, length l)))))
               else Inr (buf s, g_pszSavedLine s, work)) (\<lambda>(b, saved, work1).
     and_then (poke ''g_pszBufferStdOut'' b work1 NUL) (\<lambda>b1.
     and_then (str_at ''g_pszBufferStdOut'' b1 (pszStartLine s)) (\<lambda>line.
     and_then (handle_line c line (la s)) (\<lambda>a.
       if fLob (la s) \<and> \<not> fLob a
       then and_then (str_at ''g_pszSavedLine'' saved 0) (\<lambda>r.
            and_then (strcpy_arr ''g_pszBufferStdOut'' b1 r) (\<lambda>b2.
              Inr (0, s\<lparr>buf := b2, pszStartLine := 0, g_pszSavedLine := saved, la := a, cp := k'\<rparr>)))
       else Inr (work1 + 1, s\<lparr>buf := b1, pszStartLine := work1 + 1, g_pszSavedLine := saved,
                                la := a, cp := k'\<rparr>)))))))"

partial_function (option) scan :: "cfg \<Rightarrow> nat \<Rightarrow> ls \<Rightarrow> (nat \<times> ls) res option" where
  "scan c work s =
     (if length (buf s) \<le> work then Some (Inl (Out_of_bounds ''g_pszBufferStdOut''))
      else if buf s ! work = NUL then Some (Inr (work, s))
      else if buf s ! work \<noteq> NL then scan c (Suc work) s
      else (case on_newline c work s of
              Inl e \<Rightarrow> Some (Inl e)
            | Inr r \<Rightarrow> scan c (fst r) (snd r)))"

section \<open>A buffer that is full\<close>

definition buffer_full :: "cfg \<Rightarrow> nat \<Rightarrow> ls \<Rightarrow> ls res" where
  "buffer_full c work s =
     (if g_iMaxBufferLine c < work + g_iLenBufferOut c then
        (if pszStartLine s = 0 \<or> pszStartLine s < g_iLenBufferOut c then
           (if bDataColumnInProgress (la s) then
              (let bytes = take (work - pszStartLine s) (drop (pszStartLine s) (buf s)) in
               and_then (write_capture c bytes (cp s)) (\<lambda>k.
               and_then (strcpy_arr ''g_pszLine'' (g_pszLine s) bytes) (\<lambda>l.
                 Inr (s\<lparr>la := (la s)\<lparr>fLob := True\<rparr>, cp := k, g_pszLine := l,
                        pszBufferStart := 0, pszStartLine := 0\<rparr>))))
            else Inr (s\<lparr>pszBufferStart := 0, pszStartLine := 0\<rparr>))
         else and_then (str_at ''g_pszBufferStdOut'' (buf s) (pszStartLine s)) (\<lambda>l.
              and_then (strcpy_arr ''g_pszBufferStdOut'' (buf s) l) (\<lambda>b.
                Inr (s\<lparr>buf := b, pszBufferStart := work - pszStartLine s, pszStartLine := 0\<rparr>))))
      else Inr (s\<lparr>pszBufferStart := work\<rparr>))"

definition on_bytes :: "cfg \<Rightarrow> char list \<Rightarrow> ls \<Rightarrow> ls res option" where
  "on_bytes c bytes s =
     (case GetBuffer (buf s) (pszBufferStart s) bytes of
        Inl e \<Rightarrow> Some (Inl e)
      | Inr b \<Rightarrow>
          (case scan c (pszBufferStart s) (s\<lparr>buf := b\<rparr>) of
             None \<Rightarrow> None
           | Some (Inl e) \<Rightarrow> Some (Inl e)
           | Some (Inr (work, s')) \<Rightarrow> Some (buffer_full c work s')))"

text \<open>
  The two loops of the thread over a sequence of reads. A read has the bytes that \<open>_read\<close>
  returned (none for an empty read, which leaves the inner loop), the value of \<open>g_fExitApp\<close> when
  it was processed, and whether the stop event was found signalled at the start of its round of
  the outer loop. The result says whether the thread terminated.
\<close>

datatype read = Read (bytes: "char list") (exit_app: bool) (stop_event: bool)

fun listen :: "cfg \<Rightarrow> bool \<Rightarrow> bool \<Rightarrow> read list \<Rightarrow> ls \<Rightarrow> (bool \<times> ls) res option" where
  "listen c first dwEvent [] s = Some (Inr (False, s))"
| "listen c first dwEvent (Read bs ex ev # rs) s =
     (let dwEvent' = (if first then ev else dwEvent) in
      if bs = [] then
        (if ex \<or> dwEvent' then Some (Inr (True, s)) else listen c True dwEvent' rs s)
      else (case on_bytes c bs s of
              None \<Rightarrow> None
            | Some (Inl e) \<Rightarrow> Some (Inl e)
            | Some (Inr s') \<Rightarrow> if ex then Some (Inr (True, s')) else listen c False dwEvent' rs s'))"

section \<open>Lines of a text\<close>

text \<open>The complete lines of a text that continues a line \<open>cur\<close>, and the unfinished one.\<close>

fun split_lines :: "string \<Rightarrow> string \<Rightarrow> string list \<times> string" where
  "split_lines cur [] = ([], cur)"
| "split_lines cur (ch # cs) =
     (if ch = NL then (cur # fst (split_lines [] cs), snd (split_lines [] cs))
      else split_lines (cur @ [ch]) cs)"

definition lines_nul :: "string list \<Rightarrow> string" where
  "lines_nul ls = concat (map (\<lambda>l. l @ [NUL]) ls)"

lemma lines_nul_simps [simp]: "lines_nul [] = []" "lines_nul (l # ls) = l @ NUL # lines_nul ls"
  by (simp_all add: lines_nul_def)

lemma split_lines_text: "lines_nl (fst (split_lines cur body)) @ snd (split_lines cur body) = cur @ body"
  by (induction cur body rule: split_lines.induct) auto

lemma split_lines_length:
  "length (lines_nul (fst (split_lines cur body))) + length (snd (split_lines cur body)) = length cur + length body"
  by (induction cur body rule: split_lines.induct) auto

lemma split_lines_append:
  "split_lines cur (a @ b) =
     (fst (split_lines cur a) @ fst (split_lines (snd (split_lines cur a)) b),
      snd (split_lines (snd (split_lines cur a)) b))"
  by (induction cur a rule: split_lines.induct) simp_all

lemma split_lines_NL_free:
  "NL \<notin> set cur \<Longrightarrow> NL \<notin> set (snd (split_lines cur body)) \<and> (\<forall>l \<in> set (fst (split_lines cur body)). NL \<notin> set l)"
  by (induction cur body rule: split_lines.induct) auto

lemma split_lines_NUL_free:
  "NUL \<notin> set cur \<Longrightarrow> NUL \<notin> set body \<Longrightarrow>
     NUL \<notin> set (snd (split_lines cur body)) \<and> (\<forall>l \<in> set (fst (split_lines cur body)). NUL \<notin> set l)"
proof (induction cur body rule: split_lines.induct)
  case (1 cur)
  then show ?case by simp
next
  case (2 cur ch cs)
  show ?case
  proof (cases "ch = NL")
    case True
    have "NUL \<notin> set cs" using 2(5) by simp
    then have "NUL \<notin> set (snd (split_lines [] cs)) \<and> (\<forall>l \<in> set (fst (split_lines [] cs)). NUL \<notin> set l)"
      using 2(1) [OF True] by simp
    moreover have "split_lines cur (ch # cs) = (cur # fst (split_lines [] cs), snd (split_lines [] cs))"
      using True by simp
    ultimately show ?thesis using 2(4) by simp
  next
    case False
    have "NUL \<notin> set (cur @ [ch])" "NUL \<notin> set cs" using 2(4,5) by auto
    then show ?thesis using 2(3) False by simp
  qed
qed

text \<open>An unfinished line is the start of the next one.\<close>

lemma split_lines_partial:
  "(\<forall>l \<in> set (fst (split_lines cur body)). length l \<le> n) \<Longrightarrow> length (snd (split_lines cur body)) \<le> n \<Longrightarrow>
     length cur \<le> n"
proof (induction cur body rule: split_lines.induct)
  case (1 cur)
  then show ?case by simp
next
  case (2 cur ch cs)
  then show ?case by (cases "ch = NL") fastforce+
qed

section \<open>The scan handles exactly the complete lines\<close>

lemma dispatch_fLob:
  "dispatch c line s = Inr t \<Longrightarrow> fLob t \<Longrightarrow> fLob s"
  unfolding dispatch_def
  by (elim if_eq_InrE; (drule mark_frames)?; auto)

lemma handle_line_fLob:
  assumes "handle_line c line s = Inr t" and "fLob t"
  shows "fLob s"
proof -
  obtain s1 s2 where n: "note_line c line s = Inr s1"
    and d: "dispatch c line (end_of_columns c line s1) = Inr s2"
    and t: "t = s2\<lparr>ulCountLine := ulCountLine s2 + 1\<rparr>"
    using assms(1) by (auto simp: handle_line_def elim!: and_then_eq_InrE)
  show ?thesis using dispatch_fLob [OF d] note_line_frame [OF n] t assms(2) by simp
qed

lemma str_at_text:
  "NUL \<notin> set body \<Longrightarrow> str_at what (pre @ body @ NUL # post) (length pre) = Inr body"
  by (simp add: str_at_def)

lemma on_newline_text:
  assumes "buf s = pre @ cur @ NL # post" and "pszStartLine s = length pre"
    and "NUL \<notin> set cur" and "\<not> fLob (la s)"
  shows "on_newline c (length pre + length cur) s =
     and_then (line_step c cur (cp s, la s)) (\<lambda>(k, a).
       Inr (length pre + length cur + 1,
            s\<lparr>buf := pre @ cur @ NUL # post, pszStartLine := length pre + length cur + 1, la := a, cp := k\<rparr>))"
proof -
  have w: "take (length pre + length cur + 1 - pszStartLine s) (drop (pszStartLine s) (buf s)) = cur @ [NL]"
    using assms(1,2) by simp
  have p: "poke ''g_pszBufferStdOut'' (buf s) (length pre + length cur) NUL = Inr (pre @ cur @ NUL # post)"
    using assms(1) by (simp add: poke_def list_update_append)
  have l: "str_at ''g_pszBufferStdOut'' (pre @ cur @ NUL # post) (pszStartLine s) = Inr cur"
    using assms(2,3) by (simp add: str_at_text)
  show ?thesis
    unfolding on_newline_def line_step_def w
    using assms(4) by (simp add: p l and_then_assoc cong: and_then_cong)
qed

text \<open>Without a spilled line the scan is a fold of \<open>line_step\<close> over the complete lines.\<close>

definition scan_spec :: "cfg \<Rightarrow> string \<Rightarrow> string \<Rightarrow> string \<Rightarrow> string \<Rightarrow> ls \<Rightarrow> (nat \<times> ls) res" where
  "scan_spec c pre cur body post s =
     and_then (fold_res (line_step c) (fst (split_lines cur body)) (cp s, la s)) (\<lambda>(k, a).
       let pre' = pre @ lines_nul (fst (split_lines cur body)); rest = snd (split_lines cur body) in
       Inr (length pre + length cur + length body,
            s\<lparr>buf := pre' @ rest @ NUL # post, pszStartLine := length pre', la := a, cp := k\<rparr>))"

lemma line_step_fLob:
  "line_step c l (k, a) = Inr (k', a') \<Longrightarrow> \<not> fLob a \<Longrightarrow> \<not> fLob a'"
  by (auto simp: line_step_def dest: handle_line_fLob elim!: and_then_eq_InrE)

lemma scan_text:
  assumes "buf s = pre @ cur @ body @ NUL # post" and "pszStartLine s = length pre"
    and "NUL \<notin> set cur" and "NUL \<notin> set body" and "\<not> fLob (la s)"
  shows "scan c (length pre + length cur) s = Some (scan_spec c pre cur body post s)"
  using assms
proof (induction body arbitrary: pre cur s)
  case Nil
  then have "buf s ! (length pre + length cur) = NUL" "\<not> length (buf s) \<le> length pre + length cur"
    by (simp_all add: nth_append)
  then have "scan c (length pre + length cur) s = Some (Inr (length pre + length cur, s))"
    by (subst scan.simps) simp
  moreover have "s\<lparr>buf := pre @ cur @ NUL # post, pszStartLine := length pre, la := la s, cp := cp s\<rparr> = s"
    using Nil.prems by (cases s) simp
  ultimately show ?case by (simp add: scan_spec_def)
next
  case (Cons ch cs)
  let ?w = "length pre + length cur"
  have at: "buf s ! ?w = ch" "\<not> length (buf s) \<le> ?w" and nz: "ch \<noteq> NUL"
    using Cons.prems by (auto simp: nth_append)
  show ?case
  proof (cases "ch = NL")
    case False
    have "scan c ?w s = scan c (Suc ?w) s"
      by (subst scan.simps) (simp only: at nz False if_False if_True simp_thms)
    also have "\<dots> = Some (scan_spec c pre (cur @ [ch]) cs post s)"
      using Cons.IH [of s pre "cur @ [ch]"] Cons.prems by simp
    also have "scan_spec c pre (cur @ [ch]) cs post s = scan_spec c pre cur (ch # cs) post s"
      using False by (simp add: scan_spec_def)
    finally show ?thesis .
  next
    case True
    have b: "buf s = pre @ cur @ NL # (cs @ NUL # post)" using Cons.prems(1) True by simp
    have step: "scan c ?w s = (case on_newline c ?w s of Inl e \<Rightarrow> Some (Inl e) | Inr r \<Rightarrow> scan c (fst r) (snd r))"
      by (subst scan.simps) (use at nz True in simp)
    note n = on_newline_text [OF b Cons.prems(2,3,5), of c]
    show ?thesis
    proof (cases "line_step c cur (cp s, la s)")
      case (Inl e)
      then show ?thesis using True by (simp add: step n scan_spec_def)
    next
      case (Inr ka)
      obtain k a where ka: "ka = (k, a)" by (cases ka)
      let ?s' = "s\<lparr>buf := pre @ cur @ NUL # cs @ NUL # post, pszStartLine := ?w + 1, la := a, cp := k\<rparr>"
      have fa: "\<not> fLob a" using line_step_fLob [of c cur "cp s" "la s" k a] Inr ka Cons.prems(5) by simp
      have "scan c (length (pre @ cur @ [NUL]) + length ([]::string)) ?s' = Some (scan_spec c (pre @ cur @ [NUL]) [] cs post ?s')"
        by (rule Cons.IH) (use fa Cons.prems(4) in simp_all)
      moreover have "scan c ?w s = scan c (length (pre @ cur @ [NUL]) + length ([]::string)) ?s'"
        using Inr ka by (simp add: step n)
      ultimately show ?thesis using True Inr ka
        by (simp add: scan_spec_def Let_def ac_simps)
    qed
  qed
qed

section \<open>Chunks do not matter\<close>

text \<open>The buffer holds exactly the unfinished line \<open>pend\<close> from \<open>pszStartLine\<close> on, with room for
  another read.\<close>

definition holds :: "cfg \<Rightarrow> string \<Rightarrow> ls \<Rightarrow> bool" where
  "holds c pend s \<longleftrightarrow> length (buf s) = g_iMaxBufferLine c
     \<and> pszStartLine s + length pend = pszBufferStart s
     \<and> take (length pend) (drop (pszStartLine s) (buf s)) = pend
     \<and> pszBufferStart s + g_iLenBufferOut c \<le> g_iMaxBufferLine c
     \<and> NUL \<notin> set pend \<and> \<not> fLob (la s)"

lemma holds_split:
  assumes "holds c pend s"
  obtains pre post where "buf s = pre @ pend @ post" "length pre = pszStartLine s"
    "length pre + length pend = pszBufferStart s"
proof -
  let ?n = "pszStartLine s"
  have "buf s = take ?n (buf s) @ take (length pend) (drop ?n (buf s)) @ drop (length pend) (drop ?n (buf s))"
    by (metis append_take_drop_id)
  then show ?thesis
    using assms that [of "take ?n (buf s)" "drop (length pend) (drop ?n (buf s))"]
    by (simp add: holds_def)
qed

lemma GetBuffer_text:
  assumes "length arr = n" and "off + length bs < n" and "bs \<noteq> []"
  shows "GetBuffer arr off bs = Inr (take off arr @ bs @ NUL # drop (off + length bs + 1) arr)"
proof -
  have ne: "drop (off + length bs) arr \<noteq> []" using assms by simp
  have "(take off arr @ bs @ drop (off + length bs) arr)[off + length bs := NUL]
        = take off arr @ bs @ (drop (off + length bs) arr)[0 := NUL]"
    using assms by (simp add: list_update_append)
  also have "(drop (off + length bs) arr)[0 := NUL] = NUL # drop (off + length bs + 1) arr"
    using ne by (cases "drop (off + length bs) arr") (auto simp: drop_Suc tl_drop [symmetric] drop_tl)
  finally show ?thesis using assms by (simp add: GetBuffer_def poke_def)
qed

lemma buffer_full_moves:
  assumes "buf s = pre @ rest @ NUL # post" and "pszStartLine s = length pre"
    and "NUL \<notin> set rest" and "\<not> fLob (la s)" and "length (buf s) = g_iMaxBufferLine c"
    and "length rest + 2 * g_iLenBufferOut c \<le> g_iMaxBufferLine c" and "0 < g_iLenBufferOut c"
  shows "\<exists>s'. buffer_full c (length pre + length rest) s = Inr s' \<and> holds c rest s'
           \<and> cp s' = cp s \<and> la s' = la s"
proof (cases "g_iMaxBufferLine c < length pre + length rest + g_iLenBufferOut c")
  case True
  then have "g_iLenBufferOut c < length pre" using assms(6) by linarith
  moreover from this have "pre \<noteq> []" by auto
  moreover have "str_at ''g_pszBufferStdOut'' (buf s) (pszStartLine s) = Inr rest"
    using assms(1-3) by (simp add: str_at_text)
  moreover have "length rest < length (buf s)" using assms(1) by simp
  ultimately have "buffer_full c (length pre + length rest) s
      = Inr (s\<lparr>buf := rest @ NUL # drop (Suc (length rest)) (buf s), pszBufferStart := length rest, pszStartLine := 0\<rparr>)"
    using True assms(2) by (simp add: buffer_full_def strcpy_arr_def)
  then show ?thesis using assms by (simp add: holds_def)
next
  case False
  then show ?thesis using assms by (simp add: buffer_full_def holds_def)
qed

lemma on_bytes_text:
  assumes "holds c pend s" and "bs \<noteq> []" and "NUL \<notin> set bs" and "length bs < g_iLenBufferOut c"
    and "length (snd (split_lines pend bs)) + 2 * g_iLenBufferOut c \<le> g_iMaxBufferLine c"
  shows "case fold_res (line_step c) (fst (split_lines pend bs)) (cp s, la s) of
           Inl e \<Rightarrow> on_bytes c bs s = Some (Inl e)
         | Inr ka \<Rightarrow> \<exists>s'. on_bytes c bs s = Some (Inr s') \<and> holds c (snd (split_lines pend bs)) s'
                        \<and> (cp s', la s') = ka"
proof -
  obtain pre post where sp: "buf s = pre @ pend @ post" "length pre = pszStartLine s"
    "length pre + length pend = pszBufferStart s"
    using holds_split [OF assms(1)] .
  let ?o = "pszBufferStart s" and ?rest = "snd (split_lines pend bs)" and ?ls = "fst (split_lines pend bs)"
  define post' where "post' = drop (?o + length bs + 1) (buf s)"
  define b where "b = pre @ pend @ bs @ NUL # post'"
  have fit: "?o + length bs < g_iMaxBufferLine c" and lb: "length (buf s) = g_iMaxBufferLine c"
    using assms(1,4) by (auto simp: holds_def)
  have "take ?o (buf s) = pre @ pend" using sp by simp
  then have g: "GetBuffer (buf s) ?o bs = Inr b"
    using GetBuffer_text [OF lb fit assms(2)] by (simp add: b_def post'_def)
  have lenb: "length b = g_iMaxBufferLine c"
    using fit lb sp by (simp add: b_def post'_def)
  have nf: "\<not> fLob (la s)" and np: "NUL \<notin> set pend" using assms(1) by (simp_all add: holds_def)
  have "scan c (length pre + length pend) (s\<lparr>buf := b\<rparr>) = Some (scan_spec c pre pend bs post' (s\<lparr>buf := b\<rparr>))"
    by (rule scan_text) (use sp np assms(3) nf in \<open>simp_all add: b_def\<close>)
  then have sc: "scan c ?o (s\<lparr>buf := b\<rparr>) = Some (scan_spec c pre pend bs post' (s\<lparr>buf := b\<rparr>))"
    using sp(3) by simp
  show ?thesis
  proof (cases "fold_res (line_step c) ?ls (cp s, la s)")
    case (Inl e)
    then show ?thesis using g sc by (simp add: on_bytes_def scan_spec_def)
  next
    case (Inr ka)
    obtain k a where ka: "ka = (k, a)" by (cases ka)
    let ?s1 = "s\<lparr>buf := (pre @ lines_nul ?ls) @ ?rest @ NUL # post', pszStartLine := length (pre @ lines_nul ?ls),
                la := a, cp := k\<rparr>"
    have fa: "\<not> fLob a"
      by (rule fold_res_invariant [OF Inr, of "\<lambda>st. \<not> fLob (snd st)", unfolded ka, simplified])
        (use nf line_step_fLob in \<open>auto\<close>)
    have nr: "NUL \<notin> set ?rest" using split_lines_NUL_free [OF np assms(3)] by simp
    have len: "length (lines_nul ?ls) + length ?rest = length pend + length bs" by (rule split_lines_length)
    then have work: "length pre + length pend + length bs = length (pre @ lines_nul ?ls) + length ?rest" by simp
    have "length ((pre @ lines_nul ?ls) @ ?rest @ NUL # post') = g_iMaxBufferLine c"
      using lenb len by (simp add: b_def)
    then obtain s' where "buffer_full c (length (pre @ lines_nul ?ls) + length ?rest) ?s1 = Inr s'"
        "holds c ?rest s'" "cp s' = k" "la s' = a"
      using buffer_full_moves [of ?s1 "pre @ lines_nul ?ls" ?rest post' c] nr fa assms(4,5) by auto
    moreover have "scan_spec c pre pend bs post' (s\<lparr>buf := b\<rparr>) = Inr (length (pre @ lines_nul ?ls) + length ?rest, ?s1)"
      using Inr ka by (simp add: scan_spec_def Let_def work)
    ultimately show ?thesis using g sc Inr ka by (simp add: on_bytes_def)
  qed
qed

text \<open>The bytes of a sequence of reads, none of which ends the thread.\<close>

definition stream :: "read list \<Rightarrow> char list" where
  "stream rs = concat (map bytes rs)"

lemma stream_simps [simp]: "stream [] = []" "stream (Read bs ex ev # rs) = bs @ stream rs"
  by (simp_all add: stream_def)

definition quiet_reads :: "cfg \<Rightarrow> read list \<Rightarrow> bool" where
  "quiet_reads c rs \<longleftrightarrow> (\<forall>r \<in> set rs. \<not> exit_app r \<and> \<not> stop_event r \<and> length (bytes r) < g_iLenBufferOut c
                          \<and> NUL \<notin> set (bytes r))"

definition short_lines :: "cfg \<Rightarrow> string list \<times> string \<Rightarrow> bool" where
  "short_lines c lr \<longleftrightarrow> (\<forall>l \<in> set (snd lr # fst lr). length l + 2 * g_iLenBufferOut c \<le> g_iMaxBufferLine c)"

lemma short_lines_partial:
  assumes "short_lines c (split_lines r body)"
  shows "length r + 2 * g_iLenBufferOut c \<le> g_iMaxBufferLine c"
proof -
  have "2 * g_iLenBufferOut c \<le> g_iMaxBufferLine c" using assms by (auto simp: short_lines_def)
  moreover have "length r \<le> g_iMaxBufferLine c - 2 * g_iLenBufferOut c"
    by (rule split_lines_partial [of r body]) (use assms in \<open>auto simp: short_lines_def\<close>)
  ultimately show ?thesis by linarith
qed

lemma listen_text:
  assumes "holds c pend s" and "quiet_reads c rs" and "short_lines c (split_lines pend (stream rs))"
  shows "case fold_res (line_step c) (fst (split_lines pend (stream rs))) (cp s, la s) of
           Inl e \<Rightarrow> listen c f False rs s = Some (Inl e)
         | Inr ka \<Rightarrow> \<exists>s'. listen c f False rs s = Some (Inr (False, s'))
                        \<and> holds c (snd (split_lines pend (stream rs))) s' \<and> (cp s', la s') = ka"
  using assms
proof (induction rs arbitrary: pend s f)
  case Nil
  then show ?case by simp
next
  case (Cons r rs)
  obtain bs where r: "r = Read bs False False" "length bs < g_iLenBufferOut c" "NUL \<notin> set bs"
    using Cons.prems(2) by (cases r) (auto simp: quiet_reads_def)
  have q: "quiet_reads c rs" using Cons.prems(2) by (simp add: quiet_reads_def)
  show ?case
  proof (cases "bs = []")
    case True
    then show ?thesis using Cons.IH [OF Cons.prems(1) q, of True] Cons.prems(3)
      unfolding r(1) by (auto split: sum.splits)
  next
    case False
    let ?l1 = "fst (split_lines pend bs)" and ?r1 = "snd (split_lines pend bs)"
    have sp: "split_lines pend (bs @ stream rs) = (?l1 @ fst (split_lines ?r1 (stream rs)), snd (split_lines ?r1 (stream rs)))"
      by (rule split_lines_append)
    then have sh: "short_lines c (split_lines ?r1 (stream rs))"
      using Cons.prems(3) unfolding r(1) by (auto simp: short_lines_def sp)
    note step = on_bytes_text [OF Cons.prems(1) False r(3,2) short_lines_partial [OF sh]]
    show ?thesis
    proof (cases "fold_res (line_step c) ?l1 (cp s, la s)")
      case (Inl e)
      then show ?thesis using step False unfolding r(1) by (simp add: sp fold_res_append)
    next
      case (Inr ka)
      then obtain s1 where s1: "on_bytes c bs s = Some (Inr s1)" "holds c ?r1 s1" "(cp s1, la s1) = ka"
        using step by auto
      then show ?thesis using Cons.IH [OF s1(2) q sh, of False] False Inr unfolding r(1)
        by (auto simp: sp fold_res_append split: sum.splits)
    qed
  qed
qed

section \<open>An append only sink\<close>

text \<open>
  What the capture file is to the listener: a store whose contents grow by the bytes written.
  Lines written one by one leave their text, in order.
\<close>

locale append_sink =
  fixes put :: "char list \<Rightarrow> 'store \<Rightarrow> 'store res"
    and content :: "'store \<Rightarrow> char list"
  assumes content_put: "put bs d = Inr d' \<Longrightarrow> content d' = content d @ bs"
begin

lemma content_writes:
  "fold_res put bss d = Inr d' \<Longrightarrow> content d' = content d @ concat bss"
proof (induction bss arbitrary: d)
  case Nil
  then show ?case by simp
next
  case (Cons bs bss)
  then obtain u where "put bs d = Inr u" "fold_res put bss u = Inr d'"
    by (auto elim: and_then_eq_InrE)
  then show ?case using Cons.IH content_put by simp
qed

end

definition capture_content :: "cap \<Rightarrow> char list" where
  "capture_content k = (case g_pFileCapture k of None \<Rightarrow> []
     | Some path \<Rightarrow> (case files k path of None \<Rightarrow> [] | Some bs \<Rightarrow> bs))"

interpretation capture: append_sink "write_capture c" capture_content for c :: cfg
  by unfold_locales
    (auto simp: write_capture_def capture_content_def append_file_def Let_def split: if_splits
      elim!: and_then_eq_InrE)

text \<open>While the file is short enough, a line step only writes.\<close>

lemma write_capture_size:
  "write_capture c bs k = Inr k' \<Longrightarrow> g_ulCaptureSize k' = g_ulCaptureSize k + of_nat (length bs)
     \<and> g_ulCaptureMax k' = g_ulCaptureMax k"
  by (auto simp: write_capture_def split: if_splits elim!: and_then_eq_InrE)

lemma line_step_writes:
  assumes "line_step c l (k, a) = Inr (k', a')"
    and "unat (g_ulCaptureSize k) + length l + 1 \<le> unat (g_ulCaptureMax k)"
  shows "write_capture c (l @ [NL]) k = Inr k'"
    and "unat (g_ulCaptureSize k') = unat (g_ulCaptureSize k) + length l + 1"
    and "g_ulCaptureMax k' = g_ulCaptureMax k"
proof -
  obtain k1 where w: "write_capture c (l @ [NL]) k = Inr k1" and r: "rotate_capture c k1 = Inr k'"
    using assms(1) by (auto simp: line_step_def elim!: and_then_eq_InrE)
  note z = write_capture_size [OF w]
  have lt: "unat (g_ulCaptureSize k) + length (l @ [NL]) < 2 ^ 32"
  proof -
    have "unat (g_ulCaptureMax k) < 2 ^ 32" using unsigned_less [of "g_ulCaptureMax k"] by simp
    then show ?thesis using assms(2) by simp
  qed
  then have u: "unat (g_ulCaptureSize k1) = unat (g_ulCaptureSize k) + length (l @ [NL])"
    using z by (simp add: unat_word_ariths unsigned_of_nat take_bit_nat_eq_self)
  then have "\<not> g_ulCaptureMax k1 < g_ulCaptureSize k1"
    using z assms(2) by (simp add: word_less_nat_alt)
  then have "k' = k1" using r by (simp add: rotate_capture_def)
  then show "write_capture c (l @ [NL]) k = Inr k'"
    "unat (g_ulCaptureSize k') = unat (g_ulCaptureSize k) + length l + 1"
    "g_ulCaptureMax k' = g_ulCaptureMax k"
    using w u z by simp_all
qed

lemma line_steps_write:
  assumes "fold_res (line_step c) ls (k, a) = Inr (k', a')"
    and "unat (g_ulCaptureSize k) + length (lines_nl ls) \<le> unat (g_ulCaptureMax k)"
  shows "fold_res (write_capture c) (map (\<lambda>l. l @ [NL]) ls) k = Inr k'"
  using assms
proof (induction ls arbitrary: k a)
  case Nil
  then show ?case by simp
next
  case (Cons l ls)
  then obtain k1 a1 where s: "line_step c l (k, a) = Inr (k1, a1)"
    and r: "fold_res (line_step c) ls (k1, a1) = Inr (k', a')"
    by (auto elim: and_then_eq_InrE)
  have "unat (g_ulCaptureSize k) + length l + 1 \<le> unat (g_ulCaptureMax k)"
    using Cons.prems(2) by simp
  note w = line_step_writes [OF s this]
  have "unat (g_ulCaptureSize k1) + length (lines_nl ls) \<le> unat (g_ulCaptureMax k1)"
    using w Cons.prems(2) by simp
  then show ?case using Cons.IH [OF r] w(1) by simp
qed

section \<open>Properties\<close>


definition demo_ls :: ls where
  "demo_ls = \<lparr>buf = replicate 24 (CHR ''?''), pszBufferStart = 0, pszStartLine = 0,
     g_pszLine = replicate 24 (CHR ''?''), g_pszSavedLine = replicate 4 (CHR ''?''), la = demo_lst,
     cp = demo_cap\<lparr>g_pFileCapture := Some ''c.jrn'', files := [''c.jrn'' \<mapsto> []], g_ulCaptureMax := 1000\<rparr>\<rparr>"

lemma demo_ls_holds: "holds demo_cfg [] demo_ls"
  by (simp add: holds_def demo_ls_def demo_cfg_def demo_lst_def)


text \<open>C29: how the operating system cuts the output into reads makes no difference as long as no read fills its buffer
  completely, which is a fault (\<open>full_read_overflows\<close>), and no line comes close to the size of the line buffer
  (\<open>short_lines\<close>): two such sequences of reads with the same bytes, without null bytes and without a request to
  end, leave the same capture files, checkpoint and automaton.\<close>

theorem chunks_do_not_matter:
  assumes "holds c [] s" and "quiet_reads c rs" and "quiet_reads c rs'" and "stream rs = stream rs'"
    and "short_lines c (split_lines [] (stream rs))"
  shows "map_option (map_sum id (\<lambda>(ended, s'). (cp s', la s'))) (listen c True False rs s)
         = map_option (map_sum id (\<lambda>(ended, s'). (cp s', la s'))) (listen c True False rs' s)"
  using listen_text [OF assms(1,2,5), of True] listen_text [OF assms(1,3) assms(5) [unfolded assms(4)], of True] assms(4)
  by (auto split: sum.splits)

theorem chunks_do_not_matter_witness:
  "map_option (map_sum id (\<lambda>(ended, s'). (cp s', la s')))
     (listen demo_cfg True False [Read ''ab'' False False, Read [CHR ''c'', NL] False False] demo_ls)
   = map_option (map_sum id (\<lambda>(ended, s'). (cp s', la s')))
     (listen demo_cfg True False [Read ''a'' False False, Read [CHR ''b'', CHR ''c'', NL] False False] demo_ls)"
  using chunks_do_not_matter [OF demo_ls_holds, of "[Read ''ab'' False False, Read [CHR ''c'', NL] False False]"
      "[Read ''a'' False False, Read [CHR ''b'', CHR ''c'', NL] False False]"]
  by (simp add: quiet_reads_def short_lines_def demo_cfg_def)


lemma demo_line_step: "\<exists>k a. line_step demo_cfg ''abc'' (cp demo_ls, la demo_ls) = Inr (k, a)"
proof -
  obtain t where "handle_line demo_cfg ''abc'' (la demo_ls) = Inr t"
    using other_line [of "''abc''" demo_cfg "la demo_ls"] by auto
  then show ?thesis
    by (simp add: line_step_def write_capture_def demo_ls_def demo_cfg_def demo_env_def demo_cap_def
        rotate_capture_def)
qed


text \<open>A read that fills the rest of the line buffer writes its terminating null byte one byte
  behind the buffer: the loop asks for \<open>g_iLenBufferOut\<close> bytes as soon as they fit, without room for
  the terminator.\<close>

theorem full_read_overflows:
  assumes "holds c pend s" and "pszBufferStart s + g_iLenBufferOut c = g_iMaxBufferLine c"
    and "length bs = g_iLenBufferOut c" and "bs \<noteq> []"
  shows "on_bytes c bs s = Some (Inl (Out_of_bounds ''g_pszBufferStdOut''))"
  using assms by (simp add: on_bytes_def GetBuffer_def poke_def holds_def)

theorem full_read_overflows_witness:
  "on_bytes demo_cfg ''abcd'' (demo_ls\<lparr>pszBufferStart := 20, pszStartLine := 20\<rparr>)
   = Some (Inl (Out_of_bounds ''g_pszBufferStdOut''))"
  by (rule full_read_overflows [of _ "[]"]) (simp_all add: holds_def demo_ls_def demo_cfg_def demo_lst_def)

section \<open>Lines longer than the buffer\<close>

text \<open>The spilled state: the head of the line is in \<open>g_pszLine\<close> and in the capture file, the buffer is
  filled again from its start.\<close>

definition spilled :: "string \<Rightarrow> ls \<Rightarrow> bool" where
  "spilled head s \<longleftrightarrow> fLob (la s) \<and> pszBufferStart s = 0 \<and> pszStartLine s = 0
     \<and> (\<exists>post. g_pszLine s = head @ NUL # post) \<and> NUL \<notin> set head \<and> length head < length (buf s)"

text \<open>When the buffer is full and the line under construction belongs to a row's columns, the
  part read so far goes to the capture file and is kept; nothing of it is lost.\<close>

theorem buffer_full_spills:
  assumes "buf s = l @ NUL # post" and "pszStartLine s = 0" and "NUL \<notin> set l"
    and "g_iMaxBufferLine c < length l + g_iLenBufferOut c" and "bDataColumnInProgress (la s)"
    and "write_capture c l (cp s) = Inr k"
    and "length (g_pszLine s) = length (buf s)"
  shows "\<exists>s'. buffer_full c (length l) s = Inr s' \<and> spilled l s' \<and> cp s' = k
           \<and> capture_content k = capture_content (cp s) @ l"
proof -
  have len: "length l < length (g_pszLine s)" using assms(1,7) by simp
  have "buffer_full c (length l) s = Inr (s\<lparr>la := (la s)\<lparr>fLob := True\<rparr>, cp := k,
          g_pszLine := l @ NUL # drop (Suc (length l)) (g_pszLine s), pszBufferStart := 0, pszStartLine := 0\<rparr>)"
    using assms(1,2,4,5,6) len by (simp add: buffer_full_def strcpy_arr_def)
  then show ?thesis
    using assms(1,3) capture.content_put [OF assms(6)] by (auto simp: spilled_def)
qed

definition demo_row :: lst where
  "demo_row = demo_lst\<lparr>bStartOfStmt := True, bQueryInProgress := True, bDataColumnInProgress := True,
     szJournalEntry := ''RPT''\<rparr>"

theorem buffer_full_spills_witness:
  "\<exists>s'. buffer_full demo_cfg (length ''###   @1=0123456789abc'')
          (demo_ls\<lparr>la := demo_row, buf := ''###   @1=0123456789abc'' @ [NUL, NUL]\<rparr>) = Inr s'
     \<and> spilled ''###   @1=0123456789abc'' s'"
proof -
  let ?s = "demo_ls\<lparr>la := demo_row, buf := ''###   @1=0123456789abc'' @ [NUL, NUL]\<rparr>"
  have "\<exists>k. write_capture demo_cfg ''###   @1=0123456789abc'' (cp ?s) = Inr k"
    by (simp add: write_capture_def demo_ls_def demo_cfg_def demo_env_def demo_cap_def)
  then obtain k where k: "write_capture demo_cfg ''###   @1=0123456789abc'' (cp ?s) = Inr k" ..
  have "\<exists>s'. buffer_full demo_cfg (length ''###   @1=0123456789abc'') ?s = Inr s'
      \<and> spilled ''###   @1=0123456789abc'' s' \<and> cp s' = k
      \<and> capture_content k = capture_content (cp ?s) @ ''###   @1=0123456789abc''"
    by (rule buffer_full_spills [of _ _ "[NUL]"]) (use k in \<open>simp_all add: demo_ls_def demo_cfg_def demo_row_def\<close>)
  then show ?thesis by blast
qed

lemma spilled_newline:
  assumes "spilled head s" and "buf s = tailp @ NL # next_bytes @ NUL # post" and "NUL \<notin> set tailp" and "NUL \<notin> set next_bytes"
    and "length next_bytes < length (g_pszSavedLine s)"
    and "write_capture c (tailp @ [NL]) (cp s) = Inr k" and "rotate_capture c k = Inr k'"
    and "handle_line c head (la s) = Inr a"
  shows "on_newline c (length tailp) s =
     (let saved = next_bytes @ NUL # drop (Suc (length next_bytes)) (g_pszSavedLine s);
          b1 = head @ NUL # drop (Suc (length head)) (buf s)
      in if \<not> fLob a
         then Inr (0, s\<lparr>buf := next_bytes @ NUL # drop (Suc (length next_bytes)) b1, pszStartLine := 0, g_pszSavedLine := saved,
                        la := a, cp := k'\<rparr>)
         else Inr (length head + 1, s\<lparr>buf := b1, pszStartLine := length head + 1, g_pszSavedLine := saved,
                        la := a, cp := k'\<rparr>))"
proof -
  obtain p where sp: "fLob (la s)" "pszStartLine s = 0" "g_pszLine s = head @ NUL # p" "NUL \<notin> set head"
    "length head < length (buf s)" using assms(1) by (auto simp: spilled_def)
  define b1 where "b1 = head @ NUL # drop (Suc (length head)) (buf s)"
  define saved where "saved = next_bytes @ NUL # drop (Suc (length next_bytes)) (g_pszSavedLine s)"
  have w: "take (length tailp + 1 - pszStartLine s) (drop (pszStartLine s) (buf s)) = tailp @ [NL]"
    using assms(2) sp(2) by simp
  have r: "str_at ''g_pszBufferStdOut'' (buf s) (length tailp + 1) = Inr next_bytes"
    using assms(2,4) by (simp add: str_at_def)
  have sv: "strcpy_arr ''g_pszSavedLine'' (g_pszSavedLine s) next_bytes = Inr saved"
    using assms(5) by (simp add: strcpy_arr_def saved_def)
  have l: "str_at ''g_pszLine'' (g_pszLine s) 0 = Inr head" using sp(3,4) by (simp add: str_at_def)
  have b: "strcpy_arr ''g_pszBufferStdOut'' (buf s) head = Inr b1"
    using sp(5) by (simp add: strcpy_arr_def b1_def)
  have lb1: "length b1 = length (buf s)" using sp(5) by (simp add: b1_def)
  have p: "poke ''g_pszBufferStdOut'' b1 (length head) NUL = Inr b1"
    using sp(5) lb1 by (simp add: poke_def) (simp add: b1_def)
  have line: "str_at ''g_pszBufferStdOut'' b1 (pszStartLine s) = Inr head"
    using sp(2,4) by (simp add: str_at_def b1_def)
  have s0: "str_at ''g_pszSavedLine'' saved 0 = Inr next_bytes"
    using assms(4) by (simp add: str_at_def saved_def)
  have lm: "length next_bytes < length b1" using lb1 assms(2) by simp
  then have b2: "strcpy_arr ''g_pszBufferStdOut'' b1 next_bytes = Inr (next_bytes @ NUL # drop (Suc (length next_bytes)) b1)"
    by (simp add: strcpy_arr_def)
  have "on_newline c (length tailp) s =
     (if \<not> fLob a
      then Inr (0, s\<lparr>buf := next_bytes @ NUL # drop (Suc (length next_bytes)) b1, pszStartLine := 0, g_pszSavedLine := saved,
                     la := a, cp := k'\<rparr>)
      else Inr (length head + 1, s\<lparr>buf := b1, pszStartLine := length head + 1, g_pszSavedLine := saved,
                     la := a, cp := k'\<rparr>))"
    unfolding on_newline_def w
    by (simp add: assms(6-8) sp(1) r sv l b p line s0 b2 del: One_nat_def)
  then show ?thesis by (simp add: Let_def b1_def saved_def)
qed

text \<open>The head of a column line, as the automaton sees it.\<close>

lemma handle_column_line:
  assumes "strneq head ''###   @'' 7" and "bStartOfStmt s" and "bQueryInProgress s" and "bDataColumnInProgress s"
    and "strchr (drop 7 head) (CHR ''='') = Some i" and "i < 128" and "length head \<le> 512 \<or> 1024 \<le> length head"
  shows "\<exists>t. handle_line c head s = Inr t \<and> \<not> fLob t \<and> ck t = ck s \<and> bStartOfStmt t
           \<and> bQueryInProgress t \<and> bDataColumnInProgress t"
proof -
  have "\<exists>s1. note_line c head s = Inr s1"
    using assms(7) by (auto simp: note_line_def Let_def)
  then obtain s1 where s1: "note_line c head s = Inr s1" ..
  note f = note_line_frame [OF s1]
  have e: "end_of_columns c head s1 = s1" using assms(1) by (simp add: end_of_columns_def)
  have "strneq head ''###'' 3"
  proof -
    have "take 3 (take 7 head) = take 3 (take 7 ''###   @'')" using assms(1) by (simp add: strneq_def)
    then show ?thesis by (simp add: strneq_def)
  qed
  then have d: "dispatch c head s1 = on_column head s1"
    using f assms(1-3) by (simp add: dispatch_def on_row_line_def)
  have "\<exists>t. on_column head s1 = Inr t \<and> \<not> fLob t \<and> ck t = ck s \<and> bStartOfStmt t
           \<and> bQueryInProgress t \<and> bDataColumnInProgress t"
    using f assms(2-6) by (simp add: on_column_def Let_def ddatol_def)
  then show ?thesis using s1 e d by (auto simp: handle_line_def)
qed

text \<open>C30: when the rest of a spilled column arrives, the capture file gets it, the automaton handles
  the kept head as the column's line, and the scan resumes at the start of the buffer with exactly
  the bytes that followed the line: no byte is skipped and none is handled twice.\<close>

theorem spilled_column_resumes:
  assumes "spilled head s" and "buf s = tailp @ NL # next_bytes @ NUL # post"
    and "NUL \<notin> set tailp" and "NUL \<notin> set next_bytes" and "length next_bytes < length (g_pszSavedLine s)"
    and "strneq head ''###   @'' 7" and "bStartOfStmt (la s)" and "bQueryInProgress (la s)"
    and "bDataColumnInProgress (la s)" and "strchr (drop 7 head) (CHR ''='') = Some i" and "i < 128"
    and "length head \<le> 512 \<or> 1024 \<le> length head"
    and "write_capture c (tailp @ [NL]) (cp s) = Inr k" and "\<not> g_ulCaptureMax k < g_ulCaptureSize k"
  shows "\<exists>s' post'. on_newline c (length tailp) s = Inr (0, s') \<and> buf s' = next_bytes @ NUL # post'
           \<and> pszStartLine s' = 0 \<and> \<not> fLob (la s') \<and> cp s' = k
           \<and> capture_content (cp s') = capture_content (cp s) @ tailp @ [NL]
           \<and> handle_line c head (la s) = Inr (la s')"
proof -
  obtain a where a: "handle_line c head (la s) = Inr a" "\<not> fLob a"
    using handle_column_line [OF assms(6-12)] by blast
  have r: "rotate_capture c k = Inr k" using assms(14) by (simp add: rotate_capture_def)
  show ?thesis
    using spilled_newline [OF assms(1-5,13) r a(1)] a capture.content_put [OF assms(13)]
    by (simp add: Let_def)
qed

text \<open>A column value that fills the buffer twice is not recognised any more: the kept text is then
  a piece of the value, not the head of its line, so the flag of the spilled line stays set, and the
  text that followed the line is not put back.\<close>

theorem unrecognised_spill_sticks:
  assumes "spilled head s" and "buf s = tailp @ NL # next_bytes @ NUL # post"
    and "NUL \<notin> set tailp" and "NUL \<notin> set next_bytes" and "length next_bytes < length (g_pszSavedLine s)"
    and "take 2 head \<noteq> ''*!''" and "take 3 head \<noteq> ''###''" and "length head \<le> 512 \<or> 1024 \<le> length head"
    and "write_capture c (tailp @ [NL]) (cp s) = Inr k" and "\<not> g_ulCaptureMax k < g_ulCaptureSize k"
  shows "\<exists>s'. on_newline c (length tailp) s = Inr (length head + 1, s') \<and> fLob (la s')
           \<and> pszStartLine s' = length head + 1 \<and> g_pszLine s' = g_pszLine s"
proof -
  obtain a where a: "handle_line c head (la s) = Inr a" "fLob a = fLob (la s)"
    using other_line [OF assms(6-8)] by blast
  have r: "rotate_capture c k = Inr k" using assms(10) by (simp add: rotate_capture_def)
  have "fLob a" using a(2) assms(1) by (simp add: spilled_def)
  then show ?thesis
    using spilled_newline [OF assms(1-5,9) r a(1)] by (simp add: Let_def)
qed

definition demo_spilled :: "string \<Rightarrow> ls" where
  "demo_spilled head = demo_ls\<lparr>la := demo_row\<lparr>fLob := True\<rparr>, g_pszLine := head @ NUL # replicate 4 (CHR ''?''),
     buf := ''ab'' @ NL # ''c'' @ NUL # replicate 19 (CHR ''?'')\<rparr>"

lemma demo_spilled_ok:
  "NUL \<notin> set head \<Longrightarrow> length head < 24 \<Longrightarrow> spilled head (demo_spilled head)"
  "buf (demo_spilled head) = ''ab'' @ NL # ''c'' @ NUL # replicate 19 (CHR ''?'')"
  "length (g_pszSavedLine (demo_spilled head)) = 4"
  "la (demo_spilled head) = demo_row\<lparr>fLob := True\<rparr>" "cp (demo_spilled head) = cp demo_ls"
  by (simp_all add: demo_spilled_def spilled_def demo_ls_def)

lemma demo_write:
  "\<exists>k. write_capture demo_cfg (''ab'' @ [NL]) (cp demo_ls) = Inr k \<and> \<not> g_ulCaptureMax k < g_ulCaptureSize k"
  by (simp add: write_capture_def demo_ls_def demo_cfg_def demo_env_def demo_cap_def)

theorem spilled_column_resumes_witness:
  "\<exists>s'. on_newline demo_cfg (length ''ab'') (demo_spilled ''###   @1=0'') = Inr (0, s') \<and> \<not> fLob (la s')"
proof -
  obtain k where k: "write_capture demo_cfg (''ab'' @ [NL]) (cp demo_ls) = Inr k" "\<not> g_ulCaptureMax k < g_ulCaptureSize k"
    using demo_write by blast
  show ?thesis
    using spilled_column_resumes [of "''###   @1=0''" "demo_spilled ''###   @1=0''" "''ab''" "''c''"
        "replicate 19 (CHR ''?'')" 1 demo_cfg k] k
    by (auto simp: demo_spilled_ok demo_row_def strneq_def strchr_def)
qed

theorem unrecognised_spill_sticks_witness:
  "\<exists>s'. on_newline demo_cfg (length ''ab'') (demo_spilled ''0123'') = Inr (length ''0123'' + 1, s') \<and> fLob (la s')"
proof -
  obtain k where k: "write_capture demo_cfg (''ab'' @ [NL]) (cp demo_ls) = Inr k" "\<not> g_ulCaptureMax k < g_ulCaptureSize k"
    using demo_write by blast
  show ?thesis
    using unrecognised_spill_sticks [of "''0123''" "demo_spilled ''0123''" "''ab''" "''c''"
        "replicate 19 (CHR ''?'')" demo_cfg k] k
    by (auto simp: demo_spilled_ok)
qed

text \<open>Outside the columns of a row, a line that fills the buffer is dropped: the bytes read so
  far reach neither the capture file nor the automaton.\<close>

theorem long_line_dropped:
  assumes "buf s = pre @ l @ NUL # post" and "pszStartLine s = length pre" and "length pre < g_iLenBufferOut c"
    and "g_iMaxBufferLine c < length pre + length l + g_iLenBufferOut c" and "\<not> bDataColumnInProgress (la s)"
  shows "\<exists>s'. buffer_full c (length pre + length l) s = Inr s' \<and> cp s' = cp s \<and> la s' = la s
           \<and> g_pszLine s' = g_pszLine s \<and> pszBufferStart s' = 0 \<and> pszStartLine s' = 0"
  using assms by (simp add: buffer_full_def)

theorem long_line_dropped_witness:
  "\<exists>s'. buffer_full demo_cfg 22 (demo_ls\<lparr>buf := replicate 22 (CHR ''q'') @ NUL # [NUL]\<rparr>) = Inr s'
     \<and> capture_content (cp s') = []"
  using long_line_dropped [of "demo_ls\<lparr>buf := replicate 22 (CHR ''q'') @ NUL # [NUL]\<rparr>" "[]"
      "replicate 22 (CHR ''q'')" "[NUL]" demo_cfg]
  by (auto simp: demo_ls_def demo_cfg_def demo_lst_def capture_content_def)

end
