(* ===== verification/Journal.thy ===== *)
theory Journal
  imports Listener
begin

text \<open>
  The main thread of the capture: \<open>LoadBinLog\<close> and \<open>LoadMasterStatus\<close> ask the server which
  binary logs exist and where its log ends, \<open>ReadJournal\<close> repeats passes over the logs from the
  checkpoint on: print the mark of the first log, have the library print each log from its
  position, print the mark of the last log, wait for the listener to reach it.

  The server's answers, the library's reading of one log and the outcome of waiting are
  parameters. The state shared with the listener (checkpoints, flags, log information) is the
  record \<open>lst\<close>; the output of the library is a queue of lines that the listener handles at any
  time, so that a pass of the main thread and the listener interleave.

  The two threads share the checkpoints without a lock. The model keeps account of it: when the main
  thread reads or writes a checkpoint while lines are not yet handled, the run is \<open>raced\<close>, and from
  then on the checkpoints may hold anything.
\<close>

section \<open>State\<close>

record rj =
  g_pStBinLogInfo :: "BinLogInfo list"
  g_iNbBinLog :: nat
  g_StMasterStatus :: BinLogInfo
  g_StBinLogSequenceStartRead :: BinLogSequence
  iStartIdx :: nat
  fGoAhead :: bool
  fError :: bool
  rj_ulIndex :: u32
  fhasTimeout :: bool
  g_ulLastBinlogTimeout :: u32

definition zero_info :: BinLogInfo where
  "zero_info = \<lparr>bi_szBinLogName = replicate 50 NUL, bi_ulSize = 0, bi_ulPosition = 0\<rparr>"

text \<open>An answer of the server: whether \<open>hMyExecStatement\<close> and \<open>hMyGetResult\<close> succeeded, and the
  first two columns of the rows.\<close>

record answer =
  exec_ok :: bool
  result_ok :: bool
  rows :: "(string \<times> string) list"

section \<open>Questions to the server\<close>

text \<open>An entry of the reallocated array, whose bytes were \<open>junk\<close>.\<close>

definition log_entry :: "char list \<Rightarrow> string \<times> string \<Rightarrow> BinLogInfo res" where
  "log_entry junk row = and_then (strcpy_arr ''szBinLogName'' junk (fst row)) (\<lambda>name.
     Inr \<lparr>bi_szBinLogName = name, bi_ulSize = strtoul (snd row), bi_ulPosition = BIN_LOG_HEADER_SIZE\<rparr>)"

definition LoadBinLog :: "char list \<Rightarrow> answer \<Rightarrow> rj \<Rightarrow> (bool \<times> rj) res" where
  "LoadBinLog junk a st =
     (let st0 = st\<lparr>g_iNbBinLog := 0\<rparr> in
      if exec_ok a \<and> result_ok a
      then and_then (map_res (log_entry junk) (rows a)) (\<lambda>infos.
             Inr (True, st0\<lparr>g_pStBinLogInfo := (if infos = [] then g_pStBinLogInfo st else infos),
                            g_iNbBinLog := length infos\<rparr>))
      else Inr (False, st0))"

definition LoadMasterStatus :: "answer \<Rightarrow> rj \<Rightarrow> (bool \<times> rj) res" where
  "LoadMasterStatus a st =
     (let st0 = st\<lparr>g_iNbBinLog := 0, g_StMasterStatus := zero_info\<rparr> in
      if exec_ok a \<and> result_ok a
      then (case rows a of
              [] \<Rightarrow> Inr (False, st0)
            | (name, pos) # _ \<Rightarrow>
                and_then (strcpy_arr ''szBinLogName'' (bi_szBinLogName zero_info) name) (\<lambda>arr.
                  Inr (True, st0\<lparr>g_StMasterStatus :=
                    \<lparr>bi_szBinLogName = arr, bi_ulSize = 0, bi_ulPosition = strtoul pos\<rparr>\<rparr>)))
      else Inr (False, st0))"

section \<open>Where a pass starts\<close>

text \<open>The loop over the logs: every log with the saved name gets the saved position; the last one
  found is where the pass starts.\<close>

fun mark_logs :: "string \<Rightarrow> u32 \<Rightarrow> nat \<Rightarrow> BinLogInfo list \<Rightarrow> nat option \<times> BinLogInfo list" where
  "mark_logs name pos i [] = (None, [])"
| "mark_logs name pos i (x # xs) =
     (let (found, ys) = mark_logs name pos (Suc i) xs in
      if info_name x = name
      then (Some (case found of None \<Rightarrow> i | Some j \<Rightarrow> j), x\<lparr>bi_ulPosition := pos\<rparr> # ys)
      else (found, x # ys))"

definition find_start :: "lst \<Rightarrow> rj \<Rightarrow> rj" where
  "find_start s st =
     (let q = g_stBinLogSeq (ck s) in
      case mark_logs (seq_name q) (ulPosition q) 0 (take (g_iNbBinLog st) (g_pStBinLogInfo st)) of
        (None, infos) \<Rightarrow> st\<lparr>fError := True\<rparr>
      | (Some i, infos) \<Rightarrow> st\<lparr>g_pStBinLogInfo := infos @ drop (g_iNbBinLog st) (g_pStBinLogInfo st),
                                 iStartIdx := i, fGoAhead := True\<rparr>)"

text \<open>Without a checkpoint the next pass starts at the end of the server's log.\<close>

definition start_at_master :: "cfg \<Rightarrow> answer \<Rightarrow> lst \<Rightarrow> rj \<Rightarrow> (lst \<times> rj) res" where
  "start_at_master c a s st =
     and_then (LoadMasterStatus a st) (\<lambda>(ok, st').
       if ok then
         and_then (put_seq (info_name (g_StMasterStatus st')) (bi_ulPosition (g_StMasterStatus st')) 0
                     (g_stBinLogSeq (ck s))) (\<lambda>q.
           Inr (s\<lparr>ck := SaveInDisk (xai_written c) ''M'' 4 q ((ck s)\<lparr>g_stBinLogSeq := q\<rparr>)\<rparr>, st'))
       else Inr (s, st'))"

text \<open>\<open>memset(&g_AllDuration, ...)\<close>, and the flags of a new round.\<close>

definition zero_duration :: "lst \<Rightarrow> lst" where
  "zero_duration s =
     s\<lparr>g_RowCount := \<lparr>rc_ulCountBinLog = 0, rc_ulCountAllRow = 0, rc_ulCountRowtable = 0,
         rc_ulCountTransaction = 0, rc_ulCountInsert = 0, rc_ulCountUpdate = 0, rc_ulCountDelete = 0\<rparr>,
       g_StartBinLog := zero_seq, g_EndBinLog := zero_seq\<rparr>"

definition zero_flags :: "lst \<Rightarrow> lst" where
  "zero_flags s = s\<lparr>g_fStartBinlog := False, g_fEndBinlog := False, g_fFirstBinlog := False,
     g_fLastBinlog := False\<rparr>"

definition begin_round :: "cfg \<Rightarrow> char list \<Rightarrow> answer \<Rightarrow> answer \<Rightarrow> lst \<Rightarrow> rj \<Rightarrow> (lst \<times> rj) res" where
  "begin_round c junk logs master s st =
     and_then (LoadBinLog junk logs (st\<lparr>fGoAhead := False\<rparr>)) (\<lambda>(ok, st1).
       if \<not> ok then Inr (zero_duration s, st1\<lparr>fError := True\<rparr>)
       else
         (let s1 = zero_flags (zero_duration s); st2 = st1\<lparr>fError := False\<rparr>
          in if seq_name (g_stBinLogSeq (ck s)) \<noteq> []
             then Inr (s1, find_start s1 st2)
             else start_at_master c master s1 st2))"

lemma zero_frames [simp]:
  "ck (zero_duration s) = ck s" "ck (zero_flags s) = ck s"
  by (simp_all add: zero_duration_def zero_flags_def)

section \<open>One pass\<close>

text \<open>\<open>PrintfResult\<close> uses the message as the format of \<open>fprintf\<close>.\<close>

fun PrintfResult :: "string \<Rightarrow> string res" where
  "PrintfResult [] = Inr []"
| "PrintfResult (ch # cs) =
     (if ch = CHR ''%'' then
        (case cs of
           [] \<Rightarrow> Inl (Out_of_bounds ''format'')
         | d # ds \<Rightarrow> if d = CHR ''%'' then and_then (PrintfResult ds) (\<lambda>r. Inr (CHR ''%'' # r))
                     else Inl (Out_of_bounds ''format''))
      else and_then (PrintfResult cs) (\<lambda>r. Inr (ch # r)))"

definition start_pass :: "string \<Rightarrow> lst \<Rightarrow> rj \<Rightarrow> (string \<times> lst \<times> rj) res" where
  "start_pass date s st =
     (if length (g_pStBinLogInfo st) \<le> iStartIdx st then Inl (Out_of_bounds ''g_pStBinLogInfo'')
      else let info = g_pStBinLogInfo st ! iStartIdx st; idx = rj_ulIndex st + 1 in
        and_then (PrintfResult (first_binlog_mark (info_name info) idx date)) (\<lambda>text.
        and_then (put_seq (info_name info) (bi_ulPosition info) 0 (g_stBinLogSeqInProgess (ck s))) (\<lambda>q.
          Inr (text,
               s\<lparr>g_StBinLogInfoFirst := info, g_StBinLogInfoLast := zero_info,
                 ck := (ck s)\<lparr>g_stBinLogSeqInProgess := q\<rparr>\<rparr>,
               st\<lparr>rj_ulIndex := idx\<rparr>))))"

text \<open>The library reads one log: \<open>memcpy\<close> of a \<open>BinLogInfo\<close> into a \<open>BinLogSequence\<close> first.\<close>

definition read_log :: "(string \<Rightarrow> u32 \<Rightarrow> u32 \<Rightarrow> Exit_status \<times> string list) \<Rightarrow> nat \<Rightarrow> rj \<Rightarrow> (string list \<times> rj) res" where
  "read_log StartReadBinLog i st =
     (if length (g_pStBinLogInfo st) \<le> i then Inl (Out_of_bounds ''g_pStBinLogInfo'')
      else let info = g_pStBinLogInfo st ! i;
               r = StartReadBinLog (info_name info) (bi_ulPosition info) (rj_ulIndex st)
           in Inr (snd r, st\<lparr>g_StBinLogSequenceStartRead := seq_of_bytes (bytes_of_info info),
                             fhasTimeout := False,
                             fError := (if fst r \<noteq> OK_CONTINUE then True else fError st)\<rparr>))"

text \<open>The loop over the logs, from \<open>i\<close> on, with \<open>k\<close> logs left; \<open>exits i\<close> is the value of
  \<open>g_fExitApp\<close> after log \<open>i\<close>, which leaves the loop before \<open>pStBinLogInfo\<close> is advanced. The result
  has the lines printed and the index that \<open>pStBinLogInfo\<close> is left at.\<close>

fun read_logs :: "(string \<Rightarrow> u32 \<Rightarrow> u32 \<Rightarrow> Exit_status \<times> string list) \<Rightarrow> (nat \<Rightarrow> bool) \<Rightarrow> nat \<Rightarrow> nat \<Rightarrow> rj
    \<Rightarrow> (string list \<times> nat \<times> rj) res" where
  "read_logs lib exits i 0 st = Inr ([], i, st)"
| "read_logs lib exits i (Suc k) st =
     and_then (read_log lib i st) (\<lambda>(out, st').
       if exits i then Inr (out, i, st')
       else and_then (read_logs lib exits (Suc i) k st') (\<lambda>(out', p, st''). Inr (out @ out', p, st'')))"

text \<open>\<open>pStBinLogInfo--\<close> and the mark of the last log.\<close>

definition end_pass :: "string \<Rightarrow> nat \<Rightarrow> lst \<Rightarrow> rj \<Rightarrow> (string \<times> lst) res" where
  "end_pass date p s st =
     (if p = 0 \<or> length (g_pStBinLogInfo st) < p then Inl (Out_of_bounds ''g_pStBinLogInfo'')
      else let info = g_pStBinLogInfo st ! (p - 1) in
        and_then (PrintfResult (last_binlog_mark (info_name info) (rj_ulIndex st) date)) (\<lambda>text.
          Inr (text, s\<lparr>g_StBinLogInfoLast := info\<rparr>)))"

text \<open>One wait of 100 ms for the listener's event (an event that resets itself).\<close>

datatype wait_result = WAIT_OBJECT_0 | WAIT_TIMEOUT | WAIT_FAILED | WAIT_ABANDONED

text \<open>The waits, with the value of \<open>g_fEndBinlog\<close> seen after each: the last result counts.\<close>

fun wait_end :: "(wait_result \<times> bool) list \<Rightarrow> wait_result" where
  "wait_end [] = WAIT_TIMEOUT"
| "wait_end ((w, done_flag) # ws) =
     (if w = WAIT_TIMEOUT \<and> \<not> done_flag \<and> ws \<noteq> [] then wait_end ws else w)"

definition after_wait :: "wait_result \<Rightarrow> lst \<Rightarrow> rj \<Rightarrow> lst \<times> rj" where
  "after_wait w s st =
     (if w = WAIT_OBJECT_0 then (s, st)
      else (s\<lparr>ck := (ck s)\<lparr>g_stBinLogSeq := g_stBinLogSeqInProgess (ck s)\<rparr>\<rparr>,
            if w = WAIT_TIMEOUT
            then st\<lparr>fhasTimeout := True, g_ulLastBinlogTimeout := g_ulLastBinlogTimeout st + 1\<rparr>
            else st))"

section \<open>The threads together\<close>

text \<open>
  What a printed line says by itself about how far its reader has come: the position of a begin, the
  end of a commit and of a query, in the log that the lines before named, and the first position of a
  log that starts. The fields of a mark are separated by exclamation marks.
\<close>

fun mark_fields :: "string \<Rightarrow> string list" where
  "mark_fields [] = [[]]"
| "mark_fields (ch # cs) =
     (if ch = CHR ''!'' then [] # mark_fields cs else (ch # hd (mark_fields cs)) # tl (mark_fields cs))"

definition mark_number :: "nat \<Rightarrow> string \<Rightarrow> u32" where
  "mark_number k w = of_int (atol (mark_fields w ! k))"

definition line_reaches :: "string \<Rightarrow> string \<Rightarrow> (string \<times> u32) list" where
  "line_reaches log l =
     (if strneq l ''*!BEGIN!'' 8 then [(cstr log, mark_number 0 (drop 8 l))]
      else if strneq l ''*!COMMIT!'' 9 then [(cstr log, mark_number 1 (drop 9 l))]
      else if strneq l ''*!QUERY!'' 8 then [(cstr log, mark_number 1 (drop 8 l))]
      else if strneq l ''*!START_BINLOG!'' 15 then [(cstr (hd (mark_fields (drop 15 l))), 4)]
      else [])"

text \<open>
  The main thread is at the top of a round, about to read log \<open>i\<close>, waiting for the listener, or
  out of the loop. \<open>queue\<close> holds the lines that were printed and not yet handled; the
  listener takes the first line of the queue at any time. Two components are not part of the program.
  \<open>points\<close> records every position that the server reported as the end of its log and every position
  that a line handled by the listener says it has reached, as the line has it and not as the
  checkpoint has it. \<open>raced\<close> says that the main thread has touched a checkpoint (the choice of the
  start, the beginning of a pass, the copy behind a wait that the event did not end) while there were
  lines for the listener.
\<close>

datatype main_pc = Top | Reading nat | Waiting | Ended

record sys =
  pc :: main_pc
  mj :: rj
  sl :: lst
  cf :: cap
  queue :: "string list"
  points :: "(string \<times> u32) list"
  raced :: bool

definition seq_pos :: "BinLogSequence \<Rightarrow> string \<times> u32" where
  "seq_pos q = (seq_name q, ulPosition q)"

definition reported :: "answer \<Rightarrow> (string \<times> u32) list" where
  "reported a = map (\<lambda>r. (cstr (fst r), strtoul (snd r))) (take 1 (rows a))"

text \<open>A round ends with the test \<open>dwEvent == WAIT_OBJECT_0 || fError || g_fExitApp\<close>, whose parts
  about the exit are \<open>stop\<close>; a round that finds \<open>g_fExitApp\<close> set at its start ends the loop at
  once (\<open>exit_top\<close>), and the request for the exit sets the listener's event, too, which ends the wait
  and then the loop (\<open>exit_wait\<close>). A step is a line of the listener or a stretch of the main thread that only the
  listener's handling of a line can disturb; where it can, because both touch a checkpoint, \<open>torn\<close>
  lets the checkpoints and the file become anything, as C++ does for a data race. What the other
  steps say of a raced run therefore is one of its possibilities only.\<close>

definition next_round :: "bool \<Rightarrow> rj \<Rightarrow> main_pc" where
  "next_round stop st = (if stop \<or> fError st then Ended else Top)"

inductive sys_step :: "cfg \<Rightarrow> sys \<Rightarrow> sys \<Rightarrow> bool" for c :: cfg where
  exit_top: "sys_step c g (g\<lparr>pc := Ended, sl := zero_duration (sl g)\<rparr>)"
    if "pc g = Top"
| round_idle: "sys_step c g (g\<lparr>pc := next_round stop st, sl := s, mj := st, points := reported master @ points g,
                             raced := raced g \<or> queue g \<noteq> []\<rparr>)"
    if "pc g = Top" and "begin_round c junk logs master (sl g) (mj g) = Inr (s, st)" and "\<not> fGoAhead st"
| round_start: "sys_step c g (g\<lparr>pc := Reading (iStartIdx st'), sl := s', mj := st', queue := queue g @ [text],
                              raced := raced g \<or> queue g \<noteq> []\<rparr>)"
    if "pc g = Top" and "begin_round c junk logs master (sl g) (mj g) = Inr (s, st)" and "fGoAhead st"
      and "start_pass date s st = Inr (text, s', st')"
| read_one: "sys_step c g (g\<lparr>pc := Reading (Suc i), mj := st, queue := queue g @ out\<rparr>)"
    if "pc g = Reading i" and "i < g_iNbBinLog (mj g)" and "read_log lib i (mj g) = Inr (out, st)"
| read_end: "sys_step c g (g\<lparr>pc := Waiting, sl := s, queue := queue g @ [text]\<rparr>)"
    if "pc g = Reading p" and "p = g_iNbBinLog (mj g)" and "end_pass date p (sl g) (mj g) = Inr (text, s)"
| read_break: "sys_step c g (g\<lparr>pc := Waiting, sl := s, queue := queue g @ [text]\<rparr>)"
    if "pc g = Reading (Suc i)" and "end_pass date i (sl g) (mj g) = Inr (text, s)"
| signalled: "sys_step c g (g\<lparr>pc := next_round stop (mj g), sl := (sl g)\<lparr>g_hEventEndOfBinlog := False\<rparr>\<rparr>)"
    if "pc g = Waiting" and "g_hEventEndOfBinlog (sl g)"
| exit_wait: "sys_step c g (g\<lparr>pc := Ended, sl := (sl g)\<lparr>g_hEventEndOfBinlog := False\<rparr>\<rparr>)"
    if "pc g = Waiting"
| not_signalled: "sys_step c g (g\<lparr>pc := next_round stop st, sl := s, mj := st, raced := raced g \<or> queue g \<noteq> []\<rparr>)"
    if "pc g = Waiting" and "w \<noteq> WAIT_OBJECT_0" and "after_wait w (sl g) (mj g) = (s, st)"
| listener: "sys_step c g (g\<lparr>sl := s, cf := k, queue := ls,
                           points := line_reaches (l_szBinLogName (sl g)) l @ points g\<rparr>)"
    if "queue g = l # ls" and "line_step c l (cf g, sl g) = Inr (k, s)"
| torn: "sys_step c g (g\<lparr>sl := (sl g)\<lparr>ck := k\<rparr>\<rparr>)"
    if "raced g"

section \<open>Lemmas\<close>

lemma mark_logs_names:
  "length (snd (mark_logs name pos i xs)) = length xs
   \<and> map info_name (snd (mark_logs name pos i xs)) = map info_name xs"
  by (induction xs arbitrary: i) (auto simp: Let_def info_name_def split_beta)

text \<open>The log found has the saved name and gets the saved position.\<close>

lemma mark_logs_found:
  "mark_logs name pos i xs = (Some j, ys) \<Longrightarrow>
     i \<le> j \<and> j < i + length xs \<and> info_name (xs ! (j - i)) = name
     \<and> info_name (ys ! (j - i)) = name \<and> bi_ulPosition (ys ! (j - i)) = pos"
proof (induction xs arbitrary: i j ys)
  case Nil
  then show ?case by simp
next
  case (Cons x xs)
  obtain f zs where r: "mark_logs name pos (Suc i) xs = (f, zs)" by fastforce
  show ?case
  proof (cases f)
    case None
    then show ?thesis using Cons.prems r by (auto simp: Let_def info_name_def split: if_splits)
  next
    case (Some k)
    have k: "Suc i \<le> k" "k < Suc i + length xs" "info_name (xs ! (k - Suc i)) = name"
      "info_name (zs ! (k - Suc i)) = name" "bi_ulPosition (zs ! (k - Suc i)) = pos"
      using Cons.IH [of "Suc i" k zs] r Some by auto
    have d: "k - i = Suc (k - Suc i)" using k(1) by simp
    show ?thesis using Cons.prems r Some k by (auto simp: Let_def d split: if_splits)
  qed
qed

lemma mark_logs_None:
  "fst (mark_logs name pos i xs) = None \<longleftrightarrow> (\<forall>x \<in> set xs. info_name x \<noteq> name)"
  by (induction xs arbitrary: i) (auto simp: Let_def split_beta)

lemma PrintfResult_plain: "CHR ''%'' \<notin> set msg \<Longrightarrow> PrintfResult msg = Inr msg"
  by (induction msg) auto

text \<open>Every log but the last is a log whose reading did not stop the loop.\<close>

lemma read_logs_all:
  assumes "i + k \<le> length (g_pStBinLogInfo st)" and "\<forall>j. i \<le> j \<and> j < i + k \<longrightarrow> \<not> exits j"
  shows "\<exists>out st'. read_logs lib exits i k st = Inr (out, i + k, st')
           \<and> g_pStBinLogInfo st' = g_pStBinLogInfo st \<and> rj_ulIndex st' = rj_ulIndex st
           \<and> out = concat (map (\<lambda>x. snd (lib (info_name x) (bi_ulPosition x) (rj_ulIndex st)))
                            (take k (drop i (g_pStBinLogInfo st))))"
  using assms
proof (induction k arbitrary: i st)
  case 0
  then show ?case by simp
next
  case (Suc k)
  let ?x = "g_pStBinLogInfo st ! i"
  obtain st1 where s1: "read_log lib i st = Inr (snd (lib (info_name ?x) (bi_ulPosition ?x) (rj_ulIndex st)), st1)"
    "g_pStBinLogInfo st1 = g_pStBinLogInfo st" "rj_ulIndex st1 = rj_ulIndex st"
    using Suc.prems(1) by (auto simp: read_log_def Let_def)
  have "take (Suc k) (drop i (g_pStBinLogInfo st)) = ?x # take k (drop (Suc i) (g_pStBinLogInfo st))"
    using Suc.prems(1) by (simp add: Cons_nth_drop_Suc [symmetric])
  then show ?case
    using Suc.IH [of "Suc i" st1] Suc.prems s1 by auto
qed

section \<open>Where a pass starts\<close>

lemma mark_logs_later:
  "mark_logs name pos i xs = (Some j, ys) \<Longrightarrow> j - i < k \<Longrightarrow> k < length xs \<Longrightarrow> ys ! k = xs ! k"
proof (induction xs arbitrary: i j ys k)
  case Nil
  then show ?case by simp
next
  case (Cons x xs)
  obtain f zs where r: "mark_logs name pos (Suc i) xs = (f, zs)" by fastforce
  obtain k' where k': "k = Suc k'" using Cons.prems(2) by (cases k) auto
  show ?case
  proof (cases f)
    case None
    have "zs = xs"
      using r None
    proof -
      have "fst (mark_logs name pos n ws) = None \<Longrightarrow> snd (mark_logs name pos n ws) = ws" for n ws
        by (induction ws arbitrary: n) (auto simp: Let_def split_beta split: if_splits)
      then show ?thesis using r None by (metis fst_conv snd_conv)
    qed
    then show ?thesis using Cons.prems r None k' by (auto simp: Let_def split: if_splits)
  next
    case (Some m)
    have "Suc i \<le> m" using mark_logs_found [of name pos "Suc i" xs m zs] r Some by simp
    then show ?thesis using Cons.IH [of "Suc i" m zs k'] Cons.prems r Some k'
      by (auto simp: Let_def split: if_splits)
  qed
qed

lemma LoadBinLog_ok:
  "LoadBinLog junk a st = Inr (True, st') \<Longrightarrow> 0 < g_iNbBinLog st' \<Longrightarrow>
     g_iNbBinLog st' = length (g_pStBinLogInfo st') \<and> length (g_pStBinLogInfo st') = length (rows a)
     \<and> (\<forall>x \<in> set (g_pStBinLogInfo st'). bi_ulPosition x = BIN_LOG_HEADER_SIZE)
     \<and> fGoAhead st' = fGoAhead st \<and> rj_ulIndex st' = rj_ulIndex st"
proof -
  assume a: "LoadBinLog junk a st = Inr (True, st')" "0 < g_iNbBinLog st'"
  then obtain infos where m: "map_res (log_entry junk) (rows a) = Inr infos"
    and st': "st' = st\<lparr>g_iNbBinLog := length infos, g_pStBinLogInfo := infos\<rparr>"
    by (auto simp: LoadBinLog_def Let_def split: if_splits elim!: and_then_eq_InrE)
  have "map_res (log_entry junk) rs = Inr is \<Longrightarrow> \<forall>x \<in> set is. bi_ulPosition x = BIN_LOG_HEADER_SIZE" for rs "is"
    by (induction rs arbitrary: "is") (auto simp: log_entry_def elim!: and_then_eq_InrE)
  then show ?thesis using m st' map_res_length [OF m] by simp
qed

lemma start_at_master_idle:
  "start_at_master c a s st = Inr (s', st') \<Longrightarrow> fGoAhead st' = fGoAhead st \<and> fError st' = fError st"
  by (auto simp: start_at_master_def LoadMasterStatus_def Let_def split: if_splits list.splits prod.splits
      elim!: and_then_eq_InrE)

text \<open>The outcome of the first half of a round that goes ahead.\<close>

lemma begin_round_goes:
  assumes "begin_round c junk logs master s st = Inr (s1, st1)" and "fGoAhead st1"
  shows "seq_name (g_stBinLogSeq (ck s)) \<noteq> []" and "ck s1 = ck s"
    and "iStartIdx st1 < length (g_pStBinLogInfo st1)" and "g_iNbBinLog st1 = length (g_pStBinLogInfo st1)"
    and "info_name (g_pStBinLogInfo st1 ! iStartIdx st1) = seq_name (g_stBinLogSeq (ck s))"
    and "bi_ulPosition (g_pStBinLogInfo st1 ! iStartIdx st1) = ulPosition (g_stBinLogSeq (ck s))"
    and "\<forall>k. iStartIdx st1 < k \<and> k < g_iNbBinLog st1 \<longrightarrow> bi_ulPosition (g_pStBinLogInfo st1 ! k) = BIN_LOG_HEADER_SIZE"
    and "rj_ulIndex st1 = rj_ulIndex st"
proof -
  let ?q = "g_stBinLogSeq (ck s)"
  obtain ok st0 where l: "LoadBinLog junk logs (st\<lparr>fGoAhead := False\<rparr>) = Inr (ok, st0)"
    using assms(1) by (auto simp: begin_round_def elim!: and_then_eq_InrE)
  have ok: "ok"
  proof (rule ccontr)
    assume "\<not> ok"
    then have "\<not> fGoAhead st0"
      using l by (auto simp: LoadBinLog_def Let_def split: if_splits elim!: and_then_eq_InrE)
    then show False using assms l \<open>\<not> ok\<close> by (auto simp: begin_round_def Let_def)
  qed
  have idle: "\<not> fGoAhead st0"
    using l by (auto simp: LoadBinLog_def Let_def split: if_splits elim!: and_then_eq_InrE)
  show ne: "seq_name ?q \<noteq> []"
  proof
    assume "seq_name ?q = []"
    then have "\<exists>u. start_at_master c master u (st0\<lparr>fError := False\<rparr>) = Inr (s1, st1)"
      using assms(1) l ok by (auto simp: begin_round_def Let_def)
    then show False using start_at_master_idle idle assms(2) by fastforce
  qed
  have u: "ck s1 = ck s \<and> st1 = find_start s1 (st0\<lparr>fError := False\<rparr>)"
    using assms(1) l ok ne by (auto simp: begin_round_def Let_def)
  have "0 < g_iNbBinLog st0"
  proof (rule ccontr)
    assume "\<not> 0 < g_iNbBinLog st0"
    then show False using u assms(2) idle by (simp add: find_start_def Let_def)
  qed
  from LoadBinLog_ok [OF l [unfolded ok [THEN eqTrueI]] this]
  have b: "g_iNbBinLog st0 = length (g_pStBinLogInfo st0)"
    "\<forall>x \<in> set (g_pStBinLogInfo st0). bi_ulPosition x = BIN_LOG_HEADER_SIZE" "rj_ulIndex st0 = rj_ulIndex st"
    by simp_all
  obtain i ys where m: "mark_logs (seq_name ?q) (ulPosition ?q) 0 (g_pStBinLogInfo st0) = (Some i, ys)"
    and st1: "st1 = st0\<lparr>fError := False, g_pStBinLogInfo := ys, iStartIdx := i, fGoAhead := True\<rparr>"
    using u assms(2) b idle by (auto simp: find_start_def Let_def split: prod.splits option.splits)
  have len: "length ys = length (g_pStBinLogInfo st0)"
    using mark_logs_names [of "seq_name ?q" "ulPosition ?q" 0 "g_pStBinLogInfo st0"] m by simp
  note fd = mark_logs_found [OF m]
  show "ck s1 = ck s" using u by simp
  show "iStartIdx st1 < length (g_pStBinLogInfo st1)" "g_iNbBinLog st1 = length (g_pStBinLogInfo st1)"
    using st1 fd len b by simp_all
  show "info_name (g_pStBinLogInfo st1 ! iStartIdx st1) = seq_name ?q"
    "bi_ulPosition (g_pStBinLogInfo st1 ! iStartIdx st1) = ulPosition ?q" "rj_ulIndex st1 = rj_ulIndex st"
    using st1 fd b by simp_all
  show "\<forall>k. iStartIdx st1 < k \<and> k < g_iNbBinLog st1 \<longrightarrow> bi_ulPosition (g_pStBinLogInfo st1 ! k) = BIN_LOG_HEADER_SIZE"
  proof (intro allI impI)
    fix k
    assume k: "iStartIdx st1 < k \<and> k < g_iNbBinLog st1"
    then have "ys ! k = g_pStBinLogInfo st0 ! k"
      using mark_logs_later [OF m, of k] st1 b by simp
    then show "bi_ulPosition (g_pStBinLogInfo st1 ! k) = BIN_LOG_HEADER_SIZE"
      using k st1 b by simp
  qed
qed

section \<open>Checkpoints are never ahead of the listener\<close>

definition ckpt_in :: "string \<Rightarrow> (string \<times> u32) list \<Rightarrow> ckpt \<Rightarrow> bool" where
  "ckpt_in jrn ps k \<longleftrightarrow>
     xai_open jrn k \<and> wf_seq (g_stBinLogSeqInProgess k) \<and> wf_seq (g_stBinLogSeq k)
     \<and> seq_pos (g_stBinLogSeqInProgess k) \<in> set ps \<and> seq_pos (g_stBinLogSeq k) \<in> set ps
     \<and> (\<forall>q. restart_seq jrn k = Some q \<longrightarrow> seq_pos q \<in> set ps)"

definition ck_follows :: "string \<Rightarrow> ckpt \<Rightarrow> ckpt \<Rightarrow> bool" where
  "ck_follows jrn k k' \<longleftrightarrow> xai_open jrn k' \<and> wf_seq (g_stBinLogSeqInProgess k')
     \<and> g_stBinLogSeq k' \<in> {g_stBinLogSeq k, g_stBinLogSeqInProgess k}
     \<and> restart_seq jrn k' \<in> {restart_seq jrn k, Some (g_stBinLogSeqInProgess k), Some (g_stBinLogSeqInProgess k')}"

definition may_follow :: "cfg \<Rightarrow> string \<Rightarrow> lst \<Rightarrow> bool" where
  "may_follow c jrn s \<longleftrightarrow> xai_written c = SEQ_LEN \<and> xai_open jrn (ck s) \<and> wf_seq (g_stBinLogSeqInProgess (ck s))"

lemma ck_follows_simps:
  "may_follow c jrn s \<Longrightarrow> ck t = ck s \<Longrightarrow> ck_follows jrn (ck s) (ck t)"
  "may_follow c jrn s \<Longrightarrow> ck t = (ck s)\<lparr>g_stBinLogSeq := g_stBinLogSeqInProgess (ck s)\<rparr> \<Longrightarrow> ck_follows jrn (ck s) (ck t)"
  "may_follow c jrn s \<Longrightarrow> put_seq n p 0 (g_stBinLogSeqInProgess (ck s)) = Inr q
     \<Longrightarrow> ck t = (ck s)\<lparr>g_stBinLogSeqInProgess := q\<rparr> \<Longrightarrow> ck_follows jrn (ck s) (ck t)"
  "may_follow c jrn s \<Longrightarrow> put_seq n p 0 (g_stBinLogSeqInProgess (ck s)) = Inr q
     \<Longrightarrow> ck t = SaveInDisk (xai_written c) th i q ((ck s)\<lparr>g_stBinLogSeqInProgess := q\<rparr>) \<Longrightarrow> ck_follows jrn (ck s) (ck t)"
  by (auto simp: may_follow_def ck_follows_def put_seq_wf restart_after_save)

lemma mark_follows:
  "may_follow c jrn s \<Longrightarrow> on_row_line c line s = Inr t \<Longrightarrow> ck_follows jrn (ck s) (ck t)"
  "may_follow c jrn s \<Longrightarrow> on_stmt c line s = Inr t \<Longrightarrow> ck_follows jrn (ck s) (ck t)"
  "may_follow c jrn s \<Longrightarrow> on_end_binlog c line s = Inr t \<Longrightarrow> ck_follows jrn (ck s) (ck t)"
  "may_follow c jrn s \<Longrightarrow> on_first_binlog c line s = Inr t \<Longrightarrow> ck_follows jrn (ck s) (ck t)"
  "may_follow c jrn s \<Longrightarrow> on_last_binlog c line s = Inr t \<Longrightarrow> ck_follows jrn (ck s) (ck t)"
  "may_follow c jrn s \<Longrightarrow> on_begin c line s = Inr t \<Longrightarrow> ck_follows jrn (ck s) (ck t)"
  "may_follow c jrn s \<Longrightarrow> on_commit c line s = Inr t \<Longrightarrow> ck_follows jrn (ck s) (ck t)"
  "may_follow c jrn s \<Longrightarrow> on_query c line s = Inr t \<Longrightarrow> ck_follows jrn (ck s) (ck t)"
  "may_follow c jrn s \<Longrightarrow> on_start_binlog c line s = Inr t \<Longrightarrow> ck_follows jrn (ck s) (ck t)"
  by (drule mark_frames; elim conjE disjE exE; (erule (2) ck_follows_simps | erule (1) ck_follows_simps))+

lemma dispatch_follows:
  "dispatch c line s = Inr t \<Longrightarrow> may_follow c jrn s \<Longrightarrow> ck_follows jrn (ck s) (ck t)"
  unfolding dispatch_def
  by (elim if_eq_InrE; (erule (1) mark_follows [rotated])?; simp add: ck_follows_simps)

lemma handle_line_follows:
  assumes "handle_line c line s = Inr t" and "xai_written c = SEQ_LEN" and "xai_open jrn (ck s)"
    and "wf_seq (g_stBinLogSeqInProgess (ck s))"
  shows "ck_follows jrn (ck s) (ck t)"
proof -
  obtain s1 s2 where n: "note_line c line s = Inr s1"
    and d: "dispatch c line (end_of_columns c line s1) = Inr s2"
    and t: "t = s2\<lparr>ulCountLine := ulCountLine s2 + 1\<rparr>"
    using assms(1) by (auto simp: handle_line_def elim!: and_then_eq_InrE)
  let ?e = "end_of_columns c line s1"
  have k: "ck s1 = ck s" using note_line_frame [OF n] by simp
  have e: "saves_only jrn (ck s) (ck ?e)"
    using saves_only_end_of_columns [of c jrn s1 line] assms k by simp
  then have "ck_follows jrn (ck ?e) (ck s2)"
    using dispatch_follows [OF d] assms(2,4) by (simp add: saves_only_def may_follow_def)
  then show ?thesis using e k t by (auto simp: ck_follows_def saves_only_def)
qed

lemma strcpy_arr_name:
  assumes "strcpy_arr what old name = Inr arr"
  shows "cstr arr = cstr name"
proof (cases "NUL \<in> set name")
  case True
  then have "takeWhile (\<lambda>c. c \<noteq> NUL) (name @ w) = takeWhile (\<lambda>c. c \<noteq> NUL) name" for w
    by (intro takeWhile_append1) auto
  then show ?thesis using assms by (auto simp: strcpy_arr_def cstr_def split: if_splits)
next
  case False
  then show ?thesis using strcpy_arr_cstr [OF False assms] by (simp add: cstr_nul_free)
qed

lemma put_seq_pos: "put_seq n p i q = Inr q' \<Longrightarrow> seq_pos q' = (cstr n, p)"
  by (auto simp: put_seq_def seq_pos_def seq_name_def dest: strcpy_arr_name elim!: and_then_eq_InrE)

lemma mark_fields_not_Nil [simp]: "mark_fields w \<noteq> []"
  by (induction w) auto

lemma mark_fields_sep:
  "strchr w BINLOG_SEP = Some i \<Longrightarrow> mark_fields w = take i w # mark_fields (drop (Suc i) w)"
proof (induction w arbitrary: i)
  case Nil
  then show ?case by (simp add: strchr_def)
next
  case (Cons ch w)
  show ?case
  proof (cases "ch = CHR ''!''")
    case True
    then show ?thesis using Cons.prems by (simp add: strchr_def BINLOG_SEP_def)
  next
    case False
    then have "strchr w BINLOG_SEP = Some (i - 1)" "i = Suc (i - 1)"
      using Cons.prems by (auto simp: strchr_def BINLOG_SEP_def split: if_splits)
    then obtain j where "strchr w BINLOG_SEP = Some j" "i = Suc j" by metis
    then show ?thesis using Cons.IH [of j] False by simp
  qed
qed

lemma num_field_reads:
  "num_field w = Inr (v, w') \<Longrightarrow> \<exists>i. strchr w BINLOG_SEP = Some i \<and> v = of_int (atol (take i w)) \<and> w' = drop (Suc i) w"
  by (auto simp: num_field_def nonnull_def ddatol_def split: option.splits if_splits elim!: and_then_eq_InrE)

lemma mark_numbers:
  "num_field w = Inr (v, w') \<Longrightarrow> v = mark_number 0 w"
  "num_field w = Inr (v, w') \<Longrightarrow> num_field w' = Inr (v', w'') \<Longrightarrow> v' = mark_number 1 w"
  by (auto dest!: num_field_reads simp: mark_number_def mark_fields_sep)

text \<open>The checkpoint in progress only moves to the point that the line says it has reached.\<close>

lemma on_mark_reaches:
  "on_begin c line s = Inr t \<Longrightarrow> seq_pos (g_stBinLogSeqInProgess (ck t)) = (cstr (l_szBinLogName s), mark_number 0 (drop 8 line))"
  "on_commit c line s = Inr t \<Longrightarrow> seq_pos (g_stBinLogSeqInProgess (ck t)) = (cstr (l_szBinLogName s), mark_number 1 (drop 9 line))"
  "on_query c line s = Inr t \<Longrightarrow> seq_pos (g_stBinLogSeqInProgess (ck t)) = (cstr (l_szBinLogName s), mark_number 1 (drop 8 line))"
  "on_start_binlog c line s = Inr t \<Longrightarrow> g_stBinLogSeqInProgess (ck t) = g_stBinLogSeqInProgess (ck s)
     \<or> seq_pos (g_stBinLogSeqInProgess (ck t)) = (cstr (hd (mark_fields (drop 15 line))), 4)"
proof -
  show "on_begin c line s = Inr t \<Longrightarrow>
      seq_pos (g_stBinLogSeqInProgess (ck t)) = (cstr (l_szBinLogName s), mark_number 0 (drop 8 line))"
    unfolding on_begin_def Let_def
    by (elim and_then_eq_InrE) (auto elim!: and_then_eq_InrE dest!: progress_ck put_seq_pos dest: mark_numbers)
  show "on_commit c line s = Inr t \<Longrightarrow>
      seq_pos (g_stBinLogSeqInProgess (ck t)) = (cstr (l_szBinLogName s), mark_number 1 (drop 9 line))"
    unfolding on_commit_def Let_def
    by (elim and_then_eq_InrE) (auto elim!: and_then_eq_InrE dest!: progress_ck put_seq_pos dest: mark_numbers)
  show "on_query c line s = Inr t \<Longrightarrow>
      seq_pos (g_stBinLogSeqInProgess (ck t)) = (cstr (l_szBinLogName s), mark_number 1 (drop 8 line))"
    unfolding on_query_def Let_def
    by (elim and_then_eq_InrE) (auto elim!: and_then_eq_InrE dest!: progress_ck put_seq_pos dest: mark_numbers)
  show "on_start_binlog c line s = Inr t \<Longrightarrow> g_stBinLogSeqInProgess (ck t) = g_stBinLogSeqInProgess (ck s)
     \<or> seq_pos (g_stBinLogSeqInProgess (ck t)) = (cstr (hd (mark_fields (drop 15 line))), 4)"
    unfolding on_start_binlog_def Let_def
    by (auto simp: text_field_def nonnull_def into_buffer_def mark_fields_sep BIN_LOG_HEADER_SIZE_def
        split: if_splits option.splits elim!: and_then_eq_InrE dest!: progress_ck put_seq_pos)
qed

lemma dispatch_reaches:
  assumes "dispatch c line s = Inr t"
  shows "g_stBinLogSeqInProgess (ck t) = g_stBinLogSeqInProgess (ck s)
    \<or> seq_pos (g_stBinLogSeqInProgess (ck t)) \<in> set (line_reaches (l_szBinLogName s) line)"
  using assms unfolding dispatch_def line_reaches_def
  by (auto split: if_splits dest: on_mark_reaches mark_frames)

lemma handle_line_reaches:
  assumes "handle_line c line s = Inr t"
  shows "g_stBinLogSeqInProgess (ck t) = g_stBinLogSeqInProgess (ck s)
    \<or> seq_pos (g_stBinLogSeqInProgess (ck t)) \<in> set (line_reaches (l_szBinLogName s) line)"
proof -
  obtain s1 s2 where n: "note_line c line s = Inr s1"
    and d: "dispatch c line (end_of_columns c line s1) = Inr s2"
    and t: "t = s2\<lparr>ulCountLine := ulCountLine s2 + 1\<rparr>"
    using assms by (auto simp: handle_line_def elim!: and_then_eq_InrE)
  show ?thesis using dispatch_reaches [OF d] note_line_frame [OF n] t by simp
qed

lemma start_at_master_ck:
  assumes "start_at_master c a s st = Inr (s', st')" and "xai_written c = SEQ_LEN" and "xai_open jrn (ck s)"
    and "wf_seq (g_stBinLogSeq (ck s))"
  shows "ck s' = ck s \<or> (\<exists>q. seq_pos q \<in> set (reported a) \<and> wf_seq q
            \<and> g_stBinLogSeq (ck s') = q \<and> g_stBinLogSeqInProgess (ck s') = g_stBinLogSeqInProgess (ck s)
            \<and> xai_open jrn (ck s') \<and> restart_seq jrn (ck s') = Some q)"
proof -
  obtain ok st1 where m: "LoadMasterStatus a st = Inr (ok, st1)"
    using assms(1) by (auto simp: start_at_master_def elim!: and_then_eq_InrE)
  show ?thesis
  proof (cases ok)
    case False
    then show ?thesis using assms(1) m by (simp add: start_at_master_def)
  next
    case True
    obtain q where q: "put_seq (info_name (g_StMasterStatus st1)) (bi_ulPosition (g_StMasterStatus st1)) 0
          (g_stBinLogSeq (ck s)) = Inr q"
      and s': "s' = s\<lparr>ck := SaveInDisk (xai_written c) ''M'' 4 q ((ck s)\<lparr>g_stBinLogSeq := q\<rparr>)\<rparr>"
      using assms(1) m True by (auto simp: start_at_master_def elim!: and_then_eq_InrE)
    obtain name pos rs arr where r: "rows a = (name, pos) # rs"
      and arr: "strcpy_arr ''szBinLogName'' (bi_szBinLogName zero_info) name = Inr arr"
      and ms: "g_StMasterStatus st1 = \<lparr>bi_szBinLogName = arr, bi_ulSize = 0, bi_ulPosition = strtoul pos\<rparr>"
      using m True by (auto simp: LoadMasterStatus_def Let_def split: if_splits list.splits elim!: and_then_eq_InrE)
    have "cstr arr = cstr name" by (rule strcpy_arr_name [OF arr])
    then have "seq_pos q = (cstr name, strtoul pos)"
      using put_seq_Inr [OF q] ms by (simp add: seq_pos_def info_name_def)
    moreover have "wf_seq q" using put_seq_wf [OF q] assms(4) by simp
    ultimately show ?thesis
      using s' r assms(2,3) by (auto simp: reported_def restart_after_save)
  qed
qed

lemma begin_round_ck:
  assumes "begin_round c junk logs master s st = Inr (s', st')" and "xai_written c = SEQ_LEN"
    and "xai_open jrn (ck s)" and "wf_seq (g_stBinLogSeq (ck s))"
  shows "ck s' = ck s \<or> (\<exists>q. seq_pos q \<in> set (reported master) \<and> wf_seq q
            \<and> g_stBinLogSeq (ck s') = q \<and> g_stBinLogSeqInProgess (ck s') = g_stBinLogSeqInProgess (ck s)
            \<and> xai_open jrn (ck s') \<and> restart_seq jrn (ck s') = Some q)"
proof -
  obtain ok st1 where l: "LoadBinLog junk logs (st\<lparr>fGoAhead := False\<rparr>) = Inr (ok, st1)"
    using assms(1) by (auto simp: begin_round_def elim!: and_then_eq_InrE)
  show ?thesis
  proof (cases "ok \<and> seq_name (g_stBinLogSeq (ck s)) = []")
    case False
    then show ?thesis using assms(1) l by (auto simp: begin_round_def Let_def split: if_splits)
  next
    case True
    then have "start_at_master c master (zero_flags (zero_duration s)) (st1\<lparr>fError := False\<rparr>) = Inr (s', st')"
      using assms(1) l by (simp add: begin_round_def Let_def)
    from start_at_master_ck [OF this assms(2), of jrn] show ?thesis using assms(3,4) by simp
  qed
qed

lemma NUL_info_name [simp]: "NUL \<notin> set (info_name i)"
  by (simp add: info_name_def)

lemma start_pass_ck:
  assumes "start_pass date s st = Inr (text, s', st')"
  shows "\<exists>q. ck s' = (ck s)\<lparr>g_stBinLogSeqInProgess := q\<rparr> \<and> ulIndex q = 0
            \<and> seq_pos q = (info_name (g_pStBinLogInfo st ! iStartIdx st), bi_ulPosition (g_pStBinLogInfo st ! iStartIdx st))
            \<and> wf_seq q = wf_seq (g_stBinLogSeqInProgess (ck s))"
proof -
  let ?i = "g_pStBinLogInfo st ! iStartIdx st"
  obtain q where q: "put_seq (info_name ?i) (bi_ulPosition ?i) 0 (g_stBinLogSeqInProgess (ck s)) = Inr q"
    and s': "ck s' = (ck s)\<lparr>g_stBinLogSeqInProgess := q\<rparr>"
    using assms by (auto simp: start_pass_def Let_def split: if_splits elim!: and_then_eq_InrE)
  show ?thesis using put_seq_Inr [OF q] put_seq_wf [OF q] s' by (intro exI [of _ q]) (simp add: seq_pos_def)
qed

lemma end_pass_ck: "end_pass date p s st = Inr (text, s') \<Longrightarrow> ck s' = ck s"
  by (auto simp: end_pass_def Let_def split: if_splits elim!: and_then_eq_InrE)

lemma ckpt_in_mono: "ckpt_in jrn ps k \<Longrightarrow> set ps \<subseteq> set ps' \<Longrightarrow> ckpt_in jrn ps' k"
  by (auto simp: ckpt_in_def)

lemma ckpt_in_listener:
  assumes "ckpt_in jrn ps k" and "ck_follows jrn k k'"
    and "g_stBinLogSeqInProgess k' = g_stBinLogSeqInProgess k \<or> seq_pos (g_stBinLogSeqInProgess k') \<in> set ps'"
  shows "ckpt_in jrn (ps' @ ps) k'"
proof -
  have "seq_pos (g_stBinLogSeqInProgess k') \<in> set (ps' @ ps)" using assms(1,3) by (auto simp: ckpt_in_def)
  then show ?thesis using assms(1,2) by (auto simp: ckpt_in_def ck_follows_def)
qed

lemma ckpt_in_round:
  assumes "begin_round c junk logs master s st = Inr (s', st')" and "xai_written c = SEQ_LEN"
    and "ckpt_in jrn ps (ck s)"
  shows "ckpt_in jrn (reported master @ ps) (ck s')"
  using begin_round_ck [OF assms(1,2), of jrn] assms(3) by (auto simp: ckpt_in_def)

lemma ckpt_in_start_pass:
  assumes b: "begin_round c junk logs master s0 st0 = Inr (s, st)" and g: "fGoAhead st"
    and p: "start_pass date s st = Inr (text, s', st')" and i: "ckpt_in jrn ps (ck s0)"
  shows "ckpt_in jrn ps (ck s')"
proof -
  note r = begin_round_goes [OF b g]
  obtain q where "ck s' = (ck s)\<lparr>g_stBinLogSeqInProgess := q\<rparr>" "seq_pos q = seq_pos (g_stBinLogSeq (ck s0))"
    "wf_seq q = wf_seq (g_stBinLogSeqInProgess (ck s))"
    using start_pass_ck [OF p] r(5,6) by (auto simp: seq_pos_def)
  then show ?thesis using i r(2) by (simp add: ckpt_in_def)
qed

lemma line_step_ck:
  assumes "line_step c l (k, s) = Inr (k', s')" and "xai_written c = SEQ_LEN"
    and "xai_open jrn (ck s)" and "wf_seq (g_stBinLogSeqInProgess (ck s))"
  shows "ck_follows jrn (ck s) (ck s')"
    and "g_stBinLogSeqInProgess (ck s') = g_stBinLogSeqInProgess (ck s)
      \<or> seq_pos (g_stBinLogSeqInProgess (ck s')) \<in> set (line_reaches (l_szBinLogName s) l)"
proof -
  have "handle_line c l s = Inr s'" using assms(1) by (auto simp: line_step_def elim!: and_then_eq_InrE)
  then show "ck_follows jrn (ck s) (ck s')" "g_stBinLogSeqInProgess (ck s') = g_stBinLogSeqInProgess (ck s)
      \<or> seq_pos (g_stBinLogSeqInProgess (ck s')) \<in> set (line_reaches (l_szBinLogName s) l)"
    using handle_line_follows assms(2-4) handle_line_reaches by blast+
qed

inductive_cases sys_stepE: "sys_step c g g'"

lemma raced_stays: "sys_step c g g' \<Longrightarrow> raced g \<Longrightarrow> raced g'"
  by (erule sys_stepE) auto

lemma raced_never: "(sys_step c)\<^sup>*\<^sup>* g g' \<Longrightarrow> \<not> raced g' \<Longrightarrow> \<not> raced g"
  by (induction rule: rtranclp_induct) (auto dest: raced_stays)

lemma sys_step_ckpt_in:
  assumes "sys_step c g g'" and c: "xai_written c = SEQ_LEN" and "ckpt_in jrn (points g) (ck (sl g))" and "\<not> raced g'"
  shows "ckpt_in jrn (points g') (ck (sl g'))"
  using assms(1,3)
proof cases
  case (round_idle junk logs master s st stop)
  then show ?thesis using ckpt_in_round [OF round_idle(3) c] assms(3) by simp
next
  case (round_start junk logs master s st date m s' st')
  then show ?thesis using ckpt_in_start_pass [OF round_start(3,4,5)] assms(3) by simp
next
  case (read_end p date m s)
  then show ?thesis using assms(3) by (simp add: end_pass_ck)
next
  case (read_break i date m s)
  then show ?thesis using assms(3) by (simp add: end_pass_ck)
next
  case (not_signalled w s st stop)
  then show ?thesis using assms(3) by (auto simp: after_wait_def ckpt_in_def split: if_splits)
next
  case (listener l ls k s)
  have "xai_open jrn (ck (sl g))" "wf_seq (g_stBinLogSeqInProgess (ck (sl g)))"
    using assms(3) by (simp_all add: ckpt_in_def)
  from ckpt_in_listener [OF assms(3) line_step_ck [OF listener(3) c this]] show ?thesis
    using listener(1) by simp
next
  case (torn k)
  then show ?thesis using assms(4) by simp
qed (simp_all add: assms(3))

lemma sys_steps_ckpt_in:
  "(sys_step c)\<^sup>*\<^sup>* g g' \<Longrightarrow> xai_written c = SEQ_LEN \<Longrightarrow> ckpt_in jrn (points g) (ck (sl g)) \<Longrightarrow> \<not> raced g'
     \<Longrightarrow> ckpt_in jrn (points g') (ck (sl g'))"
proof (induction rule: rtranclp_induct)
  case (step y z)
  then show ?case using sys_step_ckpt_in raced_stays by blast
qed

section \<open>Runs without a race\<close>

text \<open>The listener's event is set by the mark of the last log only, and by nothing else.\<close>

lemma event_kept:
  "on_row_line c line s = Inr t \<Longrightarrow> g_hEventEndOfBinlog t = g_hEventEndOfBinlog s"
  "on_begin c line s = Inr t \<Longrightarrow> g_hEventEndOfBinlog t = g_hEventEndOfBinlog s"
  "on_stmt c line s = Inr t \<Longrightarrow> g_hEventEndOfBinlog t = g_hEventEndOfBinlog s"
  "on_commit c line s = Inr t \<Longrightarrow> g_hEventEndOfBinlog t = g_hEventEndOfBinlog s"
  "on_query c line s = Inr t \<Longrightarrow> g_hEventEndOfBinlog t = g_hEventEndOfBinlog s"
  "on_start_binlog c line s = Inr t \<Longrightarrow> g_hEventEndOfBinlog t = g_hEventEndOfBinlog s"
  "on_end_binlog c line s = Inr t \<Longrightarrow> g_hEventEndOfBinlog t = g_hEventEndOfBinlog s"
  "on_first_binlog c line s = Inr t \<Longrightarrow> g_hEventEndOfBinlog t = g_hEventEndOfBinlog s"
proof -
  have p: "progress n p i s = Inr t \<Longrightarrow> g_hEventEndOfBinlog t = g_hEventEndOfBinlog s" for n p i s t
    by (drule progress_ck) auto
  have sv: "g_hEventEndOfBinlog (save c i s) = g_hEventEndOfBinlog s" for i s by (simp add: save_def)
  have col: "on_column line s = Inr t \<Longrightarrow> g_hEventEndOfBinlog t = g_hEventEndOfBinlog s" for s t
    by (auto simp: on_column_def Let_def elim!: and_then_eq_InrE)
  have cr: "g_hEventEndOfBinlog (count_row s) = g_hEventEndOfBinlog s" for s by (simp add: count_row_def)
  have ro: "g_hEventEndOfBinlog (row_operation c line tb sc s) = g_hEventEndOfBinlog s" for tb sc s
    by (simp add: row_operation_def Let_def cr)
  have qf: "on_query_found c line n s = Inr t \<Longrightarrow> g_hEventEndOfBinlog t = g_hEventEndOfBinlog s" for n s t
    by (drule on_query_found_ok) (auto simp: ro)
  show "on_row_line c line s = Inr t \<Longrightarrow> g_hEventEndOfBinlog t = g_hEventEndOfBinlog s"
    unfolding on_row_line_def
    by (elim if_eq_InrE; (drule col | drule qf)?; clarsimp simp: cr)
  show "on_begin c line s = Inr t \<Longrightarrow> g_hEventEndOfBinlog t = g_hEventEndOfBinlog s"
    by (auto simp: on_begin_def Let_def split: option.splits elim!: and_then_eq_InrE dest!: p)
  show "on_stmt c line s = Inr t \<Longrightarrow> g_hEventEndOfBinlog t = g_hEventEndOfBinlog s"
    by (auto simp: on_stmt_def Let_def elim!: and_then_eq_InrE)
  show "on_commit c line s = Inr t \<Longrightarrow> g_hEventEndOfBinlog t = g_hEventEndOfBinlog s"
    by (auto simp: on_commit_def Let_def sv elim!: and_then_eq_InrE dest!: p)
  show "on_query c line s = Inr t \<Longrightarrow> g_hEventEndOfBinlog t = g_hEventEndOfBinlog s"
    by (auto simp: on_query_def Let_def sv elim!: and_then_eq_InrE dest!: p)
  show "on_start_binlog c line s = Inr t \<Longrightarrow> g_hEventEndOfBinlog t = g_hEventEndOfBinlog s"
    by (auto simp: on_start_binlog_def Let_def split: if_splits elim!: and_then_eq_InrE dest!: p)
  show "on_end_binlog c line s = Inr t \<Longrightarrow> g_hEventEndOfBinlog t = g_hEventEndOfBinlog s"
    by (auto simp: on_end_binlog_def)
  show "on_first_binlog c line s = Inr t \<Longrightarrow> g_hEventEndOfBinlog t = g_hEventEndOfBinlog s"
    by (auto simp: on_first_binlog_def Let_def elim!: and_then_eq_InrE)
qed

definition last_mark :: "string \<Rightarrow> bool" where
  "last_mark l \<longleftrightarrow> strneq l ''*!LAST_BINLOG!'' 14"

lemma dispatch_event:
  "dispatch c line s = Inr t \<Longrightarrow> \<not> last_mark line \<Longrightarrow> g_hEventEndOfBinlog t = g_hEventEndOfBinlog s"
  unfolding dispatch_def last_mark_def by (auto split: if_splits dest: event_kept)

lemma handle_line_event:
  assumes "handle_line c line s = Inr t" and "\<not> last_mark line"
  shows "g_hEventEndOfBinlog t = g_hEventEndOfBinlog s"
proof -
  obtain s1 s2 where n: "note_line c line s = Inr s1"
    and d: "dispatch c line (end_of_columns c line s1) = Inr s2"
    and t: "t = s2\<lparr>ulCountLine := ulCountLine s2 + 1\<rparr>"
    using assms(1) by (auto simp: handle_line_def elim!: and_then_eq_InrE)
  have "g_hEventEndOfBinlog s2 = g_hEventEndOfBinlog (end_of_columns c line s1)"
    by (rule dispatch_event [OF d assms(2)])
  also have "\<dots> = g_hEventEndOfBinlog s1" by (simp add: end_of_columns_def save_def)
  also have "\<dots> = g_hEventEndOfBinlog s" using n by (auto simp: note_line_def Let_def split: if_splits)
  finally show ?thesis using t by simp
qed

lemma line_step_event:
  "line_step c l (k, s) = Inr (k', s') \<Longrightarrow> \<not> last_mark l \<Longrightarrow> g_hEventEndOfBinlog s' = g_hEventEndOfBinlog s"
  by (auto simp: line_step_def dest: handle_line_event elim!: and_then_eq_InrE)

lemma main_event:
  "begin_round c junk logs master s st = Inr (s', st') \<Longrightarrow> g_hEventEndOfBinlog s' = g_hEventEndOfBinlog s"
  "start_pass date s st = Inr (m, s', st') \<Longrightarrow> g_hEventEndOfBinlog s' = g_hEventEndOfBinlog s"
  "end_pass date p s st = Inr (m, s') \<Longrightarrow> g_hEventEndOfBinlog s' = g_hEventEndOfBinlog s"
proof -
  show "begin_round c junk logs master s st = Inr (s', st') \<Longrightarrow> g_hEventEndOfBinlog s' = g_hEventEndOfBinlog s"
    by (auto simp: begin_round_def start_at_master_def zero_duration_def zero_flags_def Let_def
        split: if_splits prod.splits elim!: and_then_eq_InrE)
  show "start_pass date s st = Inr (m, s', st') \<Longrightarrow> g_hEventEndOfBinlog s' = g_hEventEndOfBinlog s"
    by (auto simp: start_pass_def Let_def split: if_splits elim!: and_then_eq_InrE)
  show "end_pass date p s st = Inr (m, s') \<Longrightarrow> g_hEventEndOfBinlog s' = g_hEventEndOfBinlog s"
    by (auto simp: end_pass_def Let_def split: if_splits elim!: and_then_eq_InrE)
qed

lemma first_mark_not_last:
  "start_pass date s st = Inr (m, s', st') \<Longrightarrow> \<not> last_mark m"
  by (auto simp: start_pass_def first_binlog_mark_def last_mark_def strneq_def Let_def split: if_splits
      elim!: and_then_eq_InrE)

text \<open>A step that leaves the wait because of the event, or one that prints no mark of a last log
  while it reads a log.\<close>

definition timely :: "sys \<Rightarrow> sys \<Rightarrow> bool" where
  "timely g g' \<longleftrightarrow>
     (pc g = Waiting \<and> pc g' \<noteq> Waiting \<longrightarrow> g_hEventEndOfBinlog (sl g) \<and> \<not> g_hEventEndOfBinlog (sl g'))
     \<and> (\<forall>i j. pc g = Reading i \<and> pc g' = Reading j \<longrightarrow> (\<forall>l \<in> set (queue g'). \<not> last_mark l))"

text \<open>The event is set by the last line of a pass, so the main thread goes on when the queue is empty.\<close>

fun in_order :: "main_pc \<Rightarrow> bool \<Rightarrow> string list \<Rightarrow> bool" where
  "in_order Top event ls \<longleftrightarrow> ls = [] \<and> \<not> event"
| "in_order (Reading i) event ls \<longleftrightarrow> (\<forall>l \<in> set ls. \<not> last_mark l) \<and> \<not> event"
| "in_order Waiting event ls \<longleftrightarrow> (\<forall>l \<in> set (butlast ls). \<not> last_mark l) \<and> (event \<longrightarrow> ls = [])"
| "in_order Ended event ls \<longleftrightarrow> True"

definition orderly :: "sys \<Rightarrow> bool" where
  "orderly g \<longleftrightarrow> \<not> raced g \<and> in_order (pc g) (g_hEventEndOfBinlog (sl g)) (queue g)"

lemma in_order_next:
  "in_order pc0 event (l # ls) \<Longrightarrow> event' = event \<or> last_mark l \<Longrightarrow> in_order pc0 event' ls"
  by (cases pc0; cases ls) (auto split: if_splits)

lemma orderly_step:
  assumes "sys_step c g g'" and "timely g g'" and "orderly g"
  shows "orderly g'"
  using assms(1)
proof cases
  case exit_top
  then show ?thesis using assms(3) by (simp add: orderly_def)
next
  case (round_idle junk logs master s st stop)
  then show ?thesis using assms(3) main_event(1) [OF round_idle(3)] by (auto simp: orderly_def next_round_def)
next
  case (round_start junk logs master s st date m s' st')
  then show ?thesis
    using assms(3) main_event(1) [OF round_start(3)] main_event(2) [OF round_start(5)] first_mark_not_last [OF round_start(5)]
    by (simp add: orderly_def)
next
  case (read_one i lib out st)
  then show ?thesis using assms(2,3) by (auto simp: orderly_def timely_def)
next
  case (read_end p date m s)
  then show ?thesis using assms(3) main_event(3) [OF read_end(4)] by (auto simp: orderly_def)
next
  case (read_break i date m s)
  then show ?thesis using assms(3) main_event(3) [OF read_break(3)] by (auto simp: orderly_def)
next
  case (signalled stop)
  then show ?thesis using assms(3) by (auto simp: orderly_def next_round_def)
next
  case exit_wait
  then show ?thesis using assms(3) by (simp add: orderly_def)
next
  case (not_signalled w s st stop)
  then have "pc g' \<noteq> Waiting" by (simp add: next_round_def)
  then have "g_hEventEndOfBinlog (sl g) \<and> \<not> g_hEventEndOfBinlog (sl g')" using assms(2) not_signalled(2) by (simp add: timely_def)
  then show ?thesis using not_signalled assms(3) by (auto simp: orderly_def next_round_def)
next
  case (listener l ls k s)
  have "g_hEventEndOfBinlog s = g_hEventEndOfBinlog (sl g) \<or> last_mark l"
    using line_step_event [OF listener(3)] by blast
  then show ?thesis using listener assms(3) in_order_next [of "pc g" "g_hEventEndOfBinlog (sl g)" l ls]
    by (simp add: orderly_def)
next
  case (torn k)
  then show ?thesis using assms(3) by (simp add: orderly_def)
qed

section \<open>A pass over the logs\<close>

definition printable :: "string \<Rightarrow> bool" where
  "printable m \<longleftrightarrow> CHR ''%'' \<notin> set m"

lemma show_dec_printable [simp]: "CHR ''%'' \<notin> set (show_dec n)"
  by (auto dest: show_dec_digits simp: is_digit_def)

lemma pass_marks_printable:
  "printable n \<Longrightarrow> printable date \<Longrightarrow> PrintfResult (first_binlog_mark n idx date) = Inr (first_binlog_mark n idx date)"
  "printable n \<Longrightarrow> printable date \<Longrightarrow> PrintfResult (last_binlog_mark n idx date) = Inr (last_binlog_mark n idx date)"
  by (rule PrintfResult_plain, simp add: printable_def first_binlog_mark_def last_binlog_mark_def show_lu_def)+

lemma start_pass_Inr:
  assumes "iStartIdx st < length (g_pStBinLogInfo st)" and "info = g_pStBinLogInfo st ! iStartIdx st"
    and "printable (info_name info)" and "printable date"
    and "length (info_name info) < 50" and "wf_seq (g_stBinLogSeqInProgess (ck s))"
  shows "\<exists>s' st'. start_pass date s st = Inr (first_binlog_mark (info_name info) (rj_ulIndex st + 1) date, s', st')
           \<and> st' = st\<lparr>rj_ulIndex := rj_ulIndex st + 1\<rparr>"
  using assms put_seq_fits [of "info_name info" "g_stBinLogSeqInProgess (ck s)" "bi_ulPosition info" 0]
  by (auto simp: start_pass_def Let_def pass_marks_printable)

lemma sys_reads:
  fixes lib :: "string \<Rightarrow> u32 \<Rightarrow> u32 \<Rightarrow> Exit_status \<times> string list"
  assumes "pc g = Reading i" and "i + k = g_iNbBinLog (mj g)" and "i + k \<le> length (g_pStBinLogInfo (mj g))"
  shows "\<exists>g'. (sys_step c)\<^sup>*\<^sup>* g g' \<and> pc g' = Reading (i + k) \<and> sl g' = sl g
           \<and> g_iNbBinLog (mj g') = g_iNbBinLog (mj g) \<and> g_pStBinLogInfo (mj g') = g_pStBinLogInfo (mj g)
           \<and> rj_ulIndex (mj g') = rj_ulIndex (mj g)
           \<and> queue g' = queue g @ concat (map (\<lambda>x. snd (lib (info_name x) (bi_ulPosition x) (rj_ulIndex (mj g))))
                                     (take k (drop i (g_pStBinLogInfo (mj g)))))"
  using assms
proof (induction k arbitrary: i g)
  case 0
  then show ?case by auto
next
  case (Suc k)
  let ?x = "g_pStBinLogInfo (mj g) ! i"
  let ?o = "snd (lib (info_name ?x) (bi_ulPosition ?x) (rj_ulIndex (mj g)))"
  obtain st1 where s1: "read_log lib i (mj g) = Inr (?o, st1)"
    "g_pStBinLogInfo st1 = g_pStBinLogInfo (mj g)" "rj_ulIndex st1 = rj_ulIndex (mj g)"
    "g_iNbBinLog st1 = g_iNbBinLog (mj g)"
    using Suc.prems(3) by (auto simp: read_log_def Let_def)
  let ?g = "g\<lparr>pc := Reading (Suc i), mj := st1, queue := queue g @ ?o\<rparr>"
  have step: "sys_step c g ?g" using Suc.prems s1(1) by (intro read_one) simp_all
  have d: "take (Suc k) (drop i (g_pStBinLogInfo (mj g))) = ?x # take k (drop (Suc i) (g_pStBinLogInfo (mj g)))"
    using Suc.prems(3) by (simp add: Cons_nth_drop_Suc [symmetric])
  obtain g' where g': "(sys_step c)\<^sup>*\<^sup>* ?g g'" "pc g' = Reading (Suc i + k)" "sl g' = sl g"
    "g_iNbBinLog (mj g') = g_iNbBinLog (mj g)" "g_pStBinLogInfo (mj g') = g_pStBinLogInfo (mj g)"
    "rj_ulIndex (mj g') = rj_ulIndex (mj g)"
    "queue g' = queue g @ ?o @ concat (map (\<lambda>x. snd (lib (info_name x) (bi_ulPosition x) (rj_ulIndex (mj g))))
                                     (take k (drop (Suc i) (g_pStBinLogInfo (mj g)))))"
    using Suc.IH [of ?g "Suc i"] Suc.prems s1 by auto
  have "(sys_step c)\<^sup>*\<^sup>* g g'" using step g'(1) by (rule converse_rtranclp_into_rtranclp)
  then show ?case using g' d by auto
qed

section \<open>Properties\<close>

text \<open>C2: in every interleaving of the main thread and the listener in which the main thread does not touch
  a checkpoint while lines are unhandled, what a restart finds in the \<open>.XAI\<close> file is a position that was
  reported by the server as the end of its log while no checkpoint existed, one that a line handled by
  the listener says it has reached, or one from the start: a checkpoint is never ahead of the lines that have been
  captured. The condition (\<open>raced\<close>) is needed, since the threads share the checkpoints without a lock; a run whose waits
  are all ended by the listener's event meets it, as a theorem below shows, a timeout with lines in the pipe does
  not, and then a copied checkpoint can name a place that was never reached.\<close>

theorem restart_never_ahead:
  assumes "(sys_step c)\<^sup>*\<^sup>* g g'" and "\<not> raced g'" and "xai_written c = SEQ_LEN" and "ckpt_in jrn (points g) (ck (sl g))"
    and "restart_seq jrn (ck (sl g')) = Some q"
  shows "seq_pos q \<in> set (points g')"
proof -
  have "ckpt_in jrn (points g') (ck (sl g'))"
    by (rule sys_steps_ckpt_in [OF assms(1,3,4,2)])
  then show ?thesis using assms(5) by (simp add: ckpt_in_def)
qed

text \<open>The single stores of the listener and the single loads of \<open>memcpy\<close>, on the checkpoint in progress
  and the copy.\<close>

datatype access = Store_name "char list" | Store_pos u32 | Store_idx u32 | Load_name | Load_pos | Load_idx

fun do_access :: "access \<Rightarrow> BinLogSequence \<times> BinLogSequence \<Rightarrow> BinLogSequence \<times> BinLogSequence" where
  "do_access (Store_name n) (q, r) = (q\<lparr>szBinLogName := n\<rparr>, r)"
| "do_access (Store_pos p) (q, r) = (q\<lparr>ulPosition := p\<rparr>, r)"
| "do_access (Store_idx i) (q, r) = (q\<lparr>ulIndex := i\<rparr>, r)"
| "do_access Load_name (q, r) = (q, r\<lparr>szBinLogName := szBinLogName q\<rparr>)"
| "do_access Load_pos (q, r) = (q, r\<lparr>ulPosition := ulPosition q\<rparr>)"
| "do_access Load_idx (q, r) = (q, r\<lparr>ulIndex := ulIndex q\<rparr>)"

definition store_seq :: "BinLogSequence \<Rightarrow> access list" where
  "store_seq q = [Store_name (szBinLogName q), Store_pos (ulPosition q), Store_idx (ulIndex q)]"

definition load_seq :: "access list" where
  "load_seq = [Load_name, Load_pos, Load_idx]"

text \<open>Behind a wait that the event did not end, the main thread copies the checkpoint in progress while
  the listener may be at the mark of a new log: the copy can have the name of the new log with the position
  of the old one, so that the next pass skips the beginning of the new log.\<close>

lemma checkpoint_torn:
  "\<exists>as \<in> shuffles (store_seq new) load_seq. fold do_access as (old, r)
     = (new, \<lparr>szBinLogName = szBinLogName new, ulPosition = ulPosition old, ulIndex = ulIndex old\<rparr>)"
proof -
  let ?as = "[Store_name (szBinLogName new), Load_name, Load_pos, Load_idx, Store_pos (ulPosition new), Store_idx (ulIndex new)]"
  have "?as \<in> shuffles (store_seq new) load_seq" by (simp add: store_seq_def load_seq_def)
  moreover have "fold do_access ?as (old, r)
     = (new, \<lparr>szBinLogName = szBinLogName new, ulPosition = ulPosition old, ulIndex = ulIndex old\<rparr>)"
    by (cases new; cases r) simp
  ultimately show ?thesis by blast
qed

definition demo_rj :: rj where
  "demo_rj = \<lparr>g_pStBinLogInfo = [], g_iNbBinLog = 0, g_StMasterStatus = zero_info,
     g_StBinLogSequenceStartRead = zero_seq, iStartIdx = 0, fGoAhead = False, fError = False, rj_ulIndex = 0,
     fhasTimeout = False, g_ulLastBinlogTimeout = 0\<rparr>"

definition demo_sys :: sys where
  "demo_sys = \<lparr>pc = Top, mj = demo_rj, sl = demo_lst, cf = cp demo_ls, queue = [commit_mark 4 400 7 1],
     points = [seq_pos zero_seq], raced = False\<rparr>"

lemma demo_ckpt_in: "ckpt_in ''j'' (points demo_sys) (ck (sl demo_sys))"
  using demo_lst_ok by (simp add: ckpt_in_def demo_sys_def demo_lst_def demo_ckpt_def)

lemma demo_commit:
  "\<exists>g' q. sys_step demo_cfg demo_sys g' \<and> \<not> raced g' \<and> restart_seq ''j'' (ck (sl g')) = Some q \<and> ulPosition q = 400"
proof -
  obtain t where t: "handle_line demo_cfg (commit_mark 4 400 7 1) demo_lst = Inr t"
    "restart_seq ''j'' (ck t) = Some (g_stBinLogSeqInProgess (ck t))"
    "ulPosition (g_stBinLogSeqInProgess (ck t)) = read_pos 400"
    using commit_line [of 4 400 demo_lst "[]" demo_cfg "''j''" 7 1] demo_lst_ok by auto
  have len: "length (commit_mark 4 400 7 1) \<le> 100"
    using length_commit_mark [of 4 400 7 1] by simp
  then have "of_nat (Suc (length (commit_mark 4 400 7 1))) \<le> (1000 :: u32)"
    by (simp add: word_le_nat_alt unat_of_nat del: of_nat_Suc)
  then have "\<not> (1000 :: u32) < 1 + of_nat (length (commit_mark 4 400 7 1))"
    by (simp add: not_less)
  then obtain k where "line_step demo_cfg (commit_mark 4 400 7 1) (cf demo_sys, sl demo_sys) = Inr (k, t)"
    using t(1) by (auto simp: line_step_def write_capture_def demo_sys_def demo_ls_def demo_cfg_def demo_env_def
        demo_cap_def rotate_capture_def)
  from sys_step.listener [OF _ this, of "[]"] t(2,3) show ?thesis
    by (intro exI [of _ "g_stBinLogSeqInProgess (ck t)"] exI, auto simp: demo_sys_def read_pos_def long_max_def)
qed

theorem restart_never_ahead_witness:
  "\<exists>g' q. sys_step demo_cfg demo_sys g' \<and> restart_seq ''j'' (ck (sl g')) = Some q \<and> ulPosition q = 400
        \<and> seq_pos q \<in> set (points g')"
proof -
  obtain g' q where g: "sys_step demo_cfg demo_sys g'" "\<not> raced g'" "restart_seq ''j'' (ck (sl g')) = Some q" "ulPosition q = 400"
    using demo_commit by blast
  then have "seq_pos q \<in> set (points g')"
    using restart_never_ahead [OF r_into_rtranclp _ demo_lst_ok(3) demo_ckpt_in, of g' q] by blast
  then show ?thesis using g by blast
qed

text \<open>C3: a pass prints everything the library reads: from the top of a round that goes ahead, the
  threads can reach the wait for the listener with, behind the lines not yet handled, the mark of
  the first log, the output of the library for each log from the starting log to the last, in the
  server's order, and the mark of the last log. The first log is read from the checkpoint, the
  others from behind their header, all with the number of the pass.\<close>

theorem full_pass:
  fixes lib :: "string \<Rightarrow> u32 \<Rightarrow> u32 \<Rightarrow> Exit_status \<times> string list"
  assumes "pc g = Top" and "begin_round c junk logs master (sl g) (mj g) = Inr (s, st)" and "fGoAhead st"
    and "\<forall>x \<in> set (g_pStBinLogInfo st). printable (info_name x) \<and> length (info_name x) < 50" and "printable date"
    and "wf_seq (g_stBinLogSeqInProgess (ck (sl g)))"
  shows "\<exists>g' x xs. (sys_step c)\<^sup>*\<^sup>* g g' \<and> pc g' = Waiting
     \<and> drop (iStartIdx st) (g_pStBinLogInfo st) = x # xs
     \<and> (info_name x, bi_ulPosition x) = seq_pos (g_stBinLogSeq (ck (sl g)))
     \<and> (\<forall>y \<in> set xs. bi_ulPosition y = BIN_LOG_HEADER_SIZE)
     \<and> queue g' = queue g @ first_binlog_mark (info_name x) (rj_ulIndex (mj g) + 1) date
          # concat (map (\<lambda>y. snd (lib (info_name y) (bi_ulPosition y) (rj_ulIndex (mj g) + 1))) (x # xs))
          @ [last_binlog_mark (info_name (last (x # xs))) (rj_ulIndex (mj g) + 1) date]"
proof -
  note r = begin_round_goes [OF assms(2,3)]
  let ?i = "iStartIdx st" and ?ls = "g_pStBinLogInfo st" and ?n = "rj_ulIndex (mj g) + 1"
  let ?out = "\<lambda>ys. concat (map (\<lambda>y. snd (lib (info_name y) (bi_ulPosition y) ?n)) ys)"
  have x: "drop ?i ?ls = ?ls ! ?i # drop (Suc ?i) ?ls" using r(3) by (simp add: Cons_nth_drop_Suc)
  have p: "printable (info_name (?ls ! k)) \<and> length (info_name (?ls ! k)) < 50" if "k < length ?ls" for k
    using assms(4) that by simp
  obtain s' st' where s': "start_pass date s st = Inr (first_binlog_mark (info_name (?ls ! ?i)) ?n date, s', st')"
    "st' = st\<lparr>rj_ulIndex := ?n\<rparr>"
    using start_pass_Inr [OF r(3) refl] p [OF r(3)] assms(5,6) r(2,8) by metis
  let ?g = "g\<lparr>pc := Reading ?i, sl := s', mj := st',
              queue := queue g @ [first_binlog_mark (info_name (?ls ! ?i)) ?n date], raced := raced g \<or> queue g \<noteq> []\<rparr>"
  have s1: "sys_step c g ?g"
    using round_start [OF assms(1-3) s'(1)] s'(2) by simp
  obtain g2 where g2: "(sys_step c)\<^sup>*\<^sup>* ?g g2" "pc g2 = Reading (length ?ls)"
    "g_iNbBinLog (mj g2) = length ?ls" "g_pStBinLogInfo (mj g2) = ?ls" "rj_ulIndex (mj g2) = ?n"
    "queue g2 = queue g @ first_binlog_mark (info_name (?ls ! ?i)) ?n date # ?out (drop ?i ?ls)"
    using sys_reads [of ?g ?i "length ?ls - ?i" c lib] r(3,4) s'(2) by auto
  have l: "length ?ls \<noteq> 0" using r(3) by auto
  then have "info_name (?ls ! (length ?ls - 1)) = info_name (last (drop ?i ?ls))"
    using r(3) by (simp add: last_conv_nth)
  then obtain s2 where e: "end_pass date (length ?ls) (sl g2) (mj g2)
      = Inr (last_binlog_mark (info_name (last (drop ?i ?ls))) ?n date, s2)"
    using l g2 p [of "length ?ls - 1"] assms(5) by (auto simp: end_pass_def Let_def pass_marks_printable)
  have s3: "sys_step c g2 (g2\<lparr>pc := Waiting, sl := s2,
      queue := queue g2 @ [last_binlog_mark (info_name (last (drop ?i ?ls))) ?n date]\<rparr>)"
    using read_end [OF g2(2) _ e] g2(3) by simp
  have "\<forall>y \<in> set (drop (Suc ?i) ?ls). bi_ulPosition y = BIN_LOG_HEADER_SIZE"
    using r(4,7) by (auto simp: in_set_conv_nth)
  then show ?thesis
    using converse_rtranclp_into_rtranclp [OF s1 rtranclp.rtrancl_into_rtrancl [OF g2(1) s3]] x r(5,6) g2(6)
    by (intro exI [of _ "g2\<lparr>pc := Waiting, sl := s2,
      queue := queue g2 @ [last_binlog_mark (info_name (last (drop ?i ?ls))) ?n date]\<rparr>"]
        exI [of _ "?ls ! ?i"] exI [of _ "drop (Suc ?i) ?ls"]) (simp add: seq_pos_def)
qed

definition demo_answer :: answer where
  "demo_answer = \<lparr>exec_ok = True, result_ok = True,
     rows = [(''bin.000001'', ''500''), (''bin.000002'', ''300'')]\<rparr>"

definition demo_resume :: sys where
  "demo_resume = demo_sys\<lparr>sl := demo_lst\<lparr>ck := demo_ckpt\<lparr>g_stBinLogSeq :=
     \<lparr>szBinLogName = ''bin.000001'' @ replicate 40 NUL, ulPosition = 400, ulIndex = 0\<rparr>\<rparr>\<rparr>\<rparr>"

lemma cstr_Nil [simp]: "cstr (NUL # xs) = []"
  by (simp add: cstr_def)

lemma cstr_Cons [simp]: "c \<noteq> NUL \<Longrightarrow> cstr (c # xs) = c # cstr xs"
  by (simp add: cstr_def)

lemma demo_round:
  "\<exists>s st. begin_round demo_cfg (replicate 50 NUL) demo_answer demo_answer (sl demo_resume) (mj demo_resume) = Inr (s, st)
     \<and> fGoAhead st \<and> iStartIdx st = 0 \<and> map info_name (g_pStBinLogInfo st) = [''bin.000001'', ''bin.000002'']"
  by (simp add: begin_round_def LoadBinLog_def demo_answer_def demo_resume_def demo_sys_def demo_rj_def log_entry_def
      strcpy_arr_def find_start_def seq_name_def info_name_def Let_def numeral_eq_Suc)

theorem full_pass_witness:
  "\<exists>g'. (sys_step demo_cfg)\<^sup>*\<^sup>* demo_resume g' \<and> pc g' = Waiting
     \<and> queue g' = [commit_mark 4 400 7 1, first_binlog_mark ''bin.000001'' 1 ''d'', ''bin.000001'', ''bin.000002'',
                     last_binlog_mark ''bin.000002'' 1 ''d'']"
proof -
  obtain s st where b: "begin_round demo_cfg (replicate 50 NUL) demo_answer demo_answer (sl demo_resume) (mj demo_resume) = Inr (s, st)"
    "fGoAhead st" "iStartIdx st = 0" "map info_name (g_pStBinLogInfo st) = [''bin.000001'', ''bin.000002'']"
    using demo_round by metis
  obtain u v where uv: "g_pStBinLogInfo st = [u, v]" "info_name u = ''bin.000001''" "info_name v = ''bin.000002''"
    using b(4) by auto
  have "pc demo_resume = Top" "\<forall>x \<in> set (g_pStBinLogInfo st). printable (info_name x) \<and> length (info_name x) < 50"
    "printable ''d''" "wf_seq (g_stBinLogSeqInProgess (ck (sl demo_resume)))"
    using uv by (simp_all add: printable_def demo_resume_def demo_sys_def demo_ckpt_def)
  from full_pass [OF this(1) b(1,2) this(2-4), of "\<lambda>n p i. (OK_CONTINUE, [n])"] show ?thesis
    using b(3) uv by (auto simp: demo_resume_def demo_sys_def demo_rj_def)
qed



lemma log_entries_names:
  "map_res (log_entry junk) rs = Inr infos \<Longrightarrow> x \<in> set infos \<Longrightarrow> \<exists>r \<in> set rs. info_name x = cstr (fst r)"
  by (induction rs arbitrary: infos) (auto simp: log_entry_def info_name_def strcpy_arr_name elim!: and_then_eq_InrE)

lemma LoadBinLog_missing:
  assumes "LoadBinLog junk a st = Inr (True, st1)" and "\<forall>r \<in> set (rows a). cstr (fst r) \<noteq> name"
  shows "fst (mark_logs name pos i (take (g_iNbBinLog st1) (g_pStBinLogInfo st1))) = None"
proof -
  have "info_name x \<noteq> name" if "x \<in> set (take (g_iNbBinLog st1) (g_pStBinLogInfo st1))" for x
    using assms that in_set_takeD
    by (fastforce simp: LoadBinLog_def Let_def split: if_splits elim!: and_then_eq_InrE dest!: log_entries_names)
  then show ?thesis by (simp add: mark_logs_None)
qed

text \<open>C39: a round whose checkpoint names a log that the server does not list, or whose question
  about the logs fails, is the last one: the capture ends, and the checkpoint is kept.\<close>

theorem round_ends_capture:
  assumes "begin_round c junk logs master s st = Inr (s', st')"
    and "\<not> exec_ok logs \<or> \<not> result_ok logs
         \<or> seq_name (g_stBinLogSeq (ck s)) \<noteq> []
             \<and> (\<forall>r \<in> set (rows logs). cstr (fst r) \<noteq> seq_name (g_stBinLogSeq (ck s)))"
  shows "\<not> fGoAhead st' \<and> next_round stop st' = Ended \<and> ck s' = ck s"
proof -
  let ?n = "seq_name (g_stBinLogSeq (ck s))"
  obtain ok st1 where l: "LoadBinLog junk logs (st\<lparr>fGoAhead := False\<rparr>) = Inr (ok, st1)"
    using assms(1) by (auto simp: begin_round_def elim!: and_then_eq_InrE)
  have f: "\<not> fGoAhead st1"
    using l by (auto simp: LoadBinLog_def Let_def split: if_splits elim!: and_then_eq_InrE)
  show ?thesis
  proof (cases ok)
    case False
    then show ?thesis using assms(1) l f by (auto simp: begin_round_def Let_def next_round_def)
  next
    case True
    then have n: "?n \<noteq> []" "\<forall>r \<in> set (rows logs). cstr (fst r) \<noteq> ?n"
      using assms(2) l by (auto simp: LoadBinLog_def Let_def split: if_splits)
    have "fst (mark_logs ?n (ulPosition (g_stBinLogSeq (ck s))) 0 (take (g_iNbBinLog st1) (g_pStBinLogInfo st1))) = None"
      using LoadBinLog_missing n(2) l True by simp
    then show ?thesis
      using assms(1) l True n f by (auto simp: begin_round_def Let_def find_start_def next_round_def split: prod.splits)
  qed
qed

theorem round_ends_capture_witness:
  "\<exists>s' st'. begin_round demo_cfg [] \<lparr>exec_ok = True, result_ok = True, rows = []\<rparr> demo_answer (sl demo_resume) (mj demo_resume)
              = Inr (s', st') \<and> next_round False st' = Ended"
proof -
  have "\<exists>s' st'. begin_round demo_cfg [] \<lparr>exec_ok = True, result_ok = True, rows = []\<rparr> demo_answer
                    (sl demo_resume) (mj demo_resume) = Inr (s', st')"
    by (simp add: begin_round_def LoadBinLog_def demo_resume_def demo_sys_def demo_rj_def find_start_def seq_name_def
        Let_def numeral_eq_Suc)
  moreover have "seq_name (g_stBinLogSeq (ck (sl demo_resume))) \<noteq> []"
    by (simp add: demo_resume_def seq_name_def)
  ultimately show ?thesis using round_ends_capture [of demo_cfg] by fastforce
qed

text \<open>When the wait for the listener times out, the next pass starts again from the point that the
  listener has reached: the lines that are still queued stay queued, and the log that the listener
  was in is read a second time from its last checkpoint, so that what the queue holds behind that
  point is captured twice and nothing is lost.\<close>

theorem timeout_reads_again:
  assumes "pc g = Waiting" and "\<not> fError (mj g)"
    and "after_wait WAIT_TIMEOUT (sl g) (mj g) = (s0, st0)"
    and "begin_round c junk logs master s0 st0 = Inr (s, st)" and "fGoAhead st"
    and "start_pass date s st = Inr (m, s', st')"
  shows "\<exists>g'. (sys_step c)\<^sup>*\<^sup>* g g' \<and> pc g' = Reading (iStartIdx st) \<and> queue g' = queue g @ [m]
     \<and> (info_name (g_pStBinLogInfo st ! iStartIdx st), bi_ulPosition (g_pStBinLogInfo st ! iStartIdx st))
         = seq_pos (g_stBinLogSeqInProgess (ck (sl g)))"
proof -
  have s0: "g_stBinLogSeq (ck s0) = g_stBinLogSeqInProgess (ck (sl g))" "fError st0 = fError (mj g)"
    using assms(3) by (auto simp: after_wait_def)
  let ?g = "g\<lparr>pc := next_round False st0, sl := s0, mj := st0, raced := raced g \<or> queue g \<noteq> []\<rparr>"
  have a: "sys_step c g ?g"
    using not_signalled [OF assms(1) _ assms(3)] by simp
  have i: "iStartIdx st' = iStartIdx st"
    using assms(6) by (auto simp: start_pass_def Let_def split: if_splits elim!: and_then_eq_InrE)
  have "pc ?g = Top" using s0 assms(2) by (simp add: next_round_def)
  then have b: "sys_step c ?g (?g\<lparr>pc := Reading (iStartIdx st'), sl := s', mj := st', queue := queue ?g @ [m],
      raced := raced ?g \<or> queue ?g \<noteq> []\<rparr>)"
    using round_start [of ?g c junk logs master s st date m s' st'] assms(4-6) by simp
  show ?thesis
    using converse_rtranclp_into_rtranclp [where r = "sys_step c", OF a r_into_rtranclp [where r = "sys_step c", OF b]] i
      begin_round_goes(5,6) [OF assms(4,5)] s0(1) by (auto simp: seq_pos_def)
qed

definition demo_waiting :: sys where
  "demo_waiting = demo_resume\<lparr>pc := Waiting, sl := demo_lst\<lparr>ck := demo_ckpt\<lparr>g_stBinLogSeqInProgess :=
     \<lparr>szBinLogName = ''bin.000001'' @ replicate 40 NUL, ulPosition = 400, ulIndex = 0\<rparr>\<rparr>\<rparr>\<rparr>"

theorem timeout_reads_again_witness:
  "\<exists>g' m. (sys_step demo_cfg)\<^sup>*\<^sup>* demo_waiting g' \<and> pc g' = Reading 0 \<and> queue g' = [commit_mark 4 400 7 1, m]"
proof -
  let ?a = "after_wait WAIT_TIMEOUT (sl demo_waiting) (mj demo_waiting)"
  have "\<exists>s st m s' st'. begin_round demo_cfg (replicate 50 NUL) demo_answer demo_answer (fst ?a) (snd ?a) = Inr (s, st)
     \<and> fGoAhead st \<and> iStartIdx st = 0 \<and> start_pass ''d'' s st = Inr (m, s', st')"
    by (simp add: begin_round_def LoadBinLog_def demo_answer_def demo_resume_def demo_sys_def demo_rj_def log_entry_def
        strcpy_arr_def find_start_def seq_name_def info_name_def Let_def numeral_eq_Suc demo_waiting_def after_wait_def
        start_pass_def put_seq_def first_binlog_mark_def show_lu_def PrintfResult_plain)
  then obtain s st m s' st' where b: "begin_round demo_cfg (replicate 50 NUL) demo_answer demo_answer (fst ?a) (snd ?a) = Inr (s, st)"
     "fGoAhead st" "iStartIdx st = 0" "start_pass ''d'' s st = Inr (m, s', st')" by metis
  have "pc demo_waiting = Waiting" "\<not> fError (mj demo_waiting)"
    by (simp_all add: demo_waiting_def demo_resume_def demo_sys_def demo_rj_def)
  from timeout_reads_again [OF this prod.collapse [symmetric] b(1,2,4)] show ?thesis
    using b(3) by (auto simp: demo_waiting_def demo_resume_def demo_sys_def)
qed

text \<open>Asked to exit while the first log of a pass is read, the main thread takes the log before
  it for the last one: if the pass started at the first entry of the list, it reads before the
  array, otherwise it announces a log that it did not read.\<close>

theorem exit_in_first_log:
  assumes "begin_round c junk logs master s st = Inr (s1, st1)" and "fGoAhead st1"
    and "start_pass date s1 st1 = Inr (m, s2, st2)" and "exits (iStartIdx st2)"
    and "\<forall>x \<in> set (g_pStBinLogInfo st1). printable (info_name x)" and "printable date"
  shows "\<exists>out st3. read_logs lib exits (iStartIdx st2) (g_iNbBinLog st2 - iStartIdx st2) st2
                     = Inr (out, iStartIdx st2, st3)
     \<and> (case iStartIdx st2 of
           0 \<Rightarrow> end_pass date (iStartIdx st2) s2 st3 = Inl (Out_of_bounds ''g_pStBinLogInfo'')
         | Suc i \<Rightarrow> \<exists>t. end_pass date (iStartIdx st2) s2 st3
                     = Inr (last_binlog_mark (info_name (g_pStBinLogInfo st1 ! i)) (rj_ulIndex st2) date, t))"
proof -
  note r = begin_round_goes [OF assms(1,2)]
  have st2: "iStartIdx st2 = iStartIdx st1" "g_pStBinLogInfo st2 = g_pStBinLogInfo st1" "g_iNbBinLog st2 = g_iNbBinLog st1"
    using assms(3) by (auto simp: start_pass_def Let_def split: if_splits elim!: and_then_eq_InrE)
  obtain k where k: "g_iNbBinLog st2 - iStartIdx st2 = Suc k"
    using r(3,4) st2 by (metis Suc_diff_Suc)
  obtain out st3 where s3: "read_log lib (iStartIdx st2) st2 = Inr (out, st3)"
    "g_pStBinLogInfo st3 = g_pStBinLogInfo st1" "rj_ulIndex st3 = rj_ulIndex st2"
    using r(3) st2 by (auto simp: read_log_def Let_def)
  have p: "printable (info_name (g_pStBinLogInfo st1 ! i))" if "iStartIdx st1 = Suc i" for i
    using assms(5) r(3) that by simp
  show ?thesis
    using k s3 assms(4,6) p r(3) st2
    by (auto simp: end_pass_def Let_def pass_marks_printable split: nat.splits)
qed

theorem exit_in_first_log_witness:
  "\<exists>out st2 st3 s2. read_logs (\<lambda>n p i. (OK_CONTINUE, [n])) (\<lambda>i. i = 0) 0 2 st2 = Inr (out, 0, st3)
     \<and> end_pass ''d'' 0 s2 st3 = Inl (Out_of_bounds ''g_pStBinLogInfo'')"
proof -
  obtain s st where b: "begin_round demo_cfg (replicate 50 NUL) demo_answer demo_answer (sl demo_resume) (mj demo_resume) = Inr (s, st)"
    "fGoAhead st" "iStartIdx st = 0" "map info_name (g_pStBinLogInfo st) = [''bin.000001'', ''bin.000002'']"
    using demo_round by metis
  obtain u v where uv: "g_pStBinLogInfo st = [u, v]" "info_name u = ''bin.000001''" "info_name v = ''bin.000002''"
    using b(4) by auto
  have n: "g_iNbBinLog st = 2" "ck s = ck (sl demo_resume)"
    using begin_round_goes [OF b(1,2)] uv by simp_all
  have p: "\<forall>x \<in> set (g_pStBinLogInfo st). printable (info_name x)" "printable ''d''"
    using uv by (simp_all add: printable_def)
  obtain s2 st2 where s: "start_pass ''d'' s st = Inr (first_binlog_mark ''bin.000001'' (rj_ulIndex st + 1) ''d'', s2, st2)"
     "st2 = st\<lparr>rj_ulIndex := rj_ulIndex st + 1\<rparr>"
  proof -
    have "iStartIdx st < length (g_pStBinLogInfo st)" "u = g_pStBinLogInfo st ! iStartIdx st"
      "printable (info_name u)" "length (info_name u) < 50" using b(3) uv p by simp_all
    moreover have "wf_seq (g_stBinLogSeqInProgess (ck s))" using n by (simp add: demo_resume_def demo_ckpt_def)
    ultimately show ?thesis using start_pass_Inr [of st u "''d''" s] p(2) uv(2) that by metis
  qed
  show ?thesis
    using exit_in_first_log [OF b(1,2) s(1) _ p, of "\<lambda>i. i = 0" "\<lambda>n p i. (OK_CONTINUE, [n])"] b(3) n s(2) by auto
qed

text \<open>The names of the server's logs are copied into arrays of 50 bytes without a test: a log
  whose name has 50 characters or more overruns its array when the list is loaded.\<close>

theorem LoadBinLog_long_name:
  assumes "exec_ok a" and "result_ok a" and "length junk = 50" and "r \<in> set (rows a)" and "50 \<le> length (fst r)"
  shows "LoadBinLog junk a st = Inl (Out_of_bounds ''szBinLogName'')"
proof -
  have "r \<in> set rs \<Longrightarrow> map_res (log_entry junk) rs = Inl (Out_of_bounds ''szBinLogName'')" for rs
    using assms(3,5) by (induction rs) (auto simp: log_entry_def strcpy_arr_def split: if_splits)
  then show ?thesis using assms(1,2,4) by (simp add: LoadBinLog_def)
qed

theorem LoadBinLog_long_name_witness:
  "LoadBinLog (replicate 50 NUL) \<lparr>exec_ok = True, result_ok = True, rows = [(replicate 60 (CHR ''b''), ''4'')]\<rparr> demo_rj
     = Inl (Out_of_bounds ''szBinLogName'')"
  by (rule LoadBinLog_long_name [of _ _ "(replicate 60 (CHR ''b''), ''4'')"]) simp_all

text \<open>The record of where the library starts to read is copied from a structure with another
  layout: its position is the size of the log and its index is the position.\<close>

theorem start_read_mixed_up:
  assumes "read_log lib i st = Inr (out, st')" and "length (bi_szBinLogName (g_pStBinLogInfo st ! i)) = 50"
  shows "seq_name (g_StBinLogSequenceStartRead st') = info_name (g_pStBinLogInfo st ! i)
     \<and> ulPosition (g_StBinLogSequenceStartRead st') = bi_ulSize (g_pStBinLogInfo st ! i)
     \<and> ulIndex (g_StBinLogSequenceStartRead st') = bi_ulPosition (g_pStBinLogInfo st ! i)"
  using assms by (auto simp: read_log_def Let_def seq_of_bytes_def bytes_of_info_def seq_name_def info_name_def
      split: if_splits)

theorem start_read_mixed_up_witness:
  "\<exists>out st'. read_log (\<lambda>n p i. (OK_CONTINUE, [n])) 0
      (demo_rj\<lparr>g_pStBinLogInfo := [\<lparr>bi_szBinLogName = ''bin.000001'' @ replicate 40 NUL, bi_ulSize = 500, bi_ulPosition = 4\<rparr>]\<rparr>)
        = Inr (out, st') \<and> ulPosition (g_StBinLogSequenceStartRead st') = 500"
proof -
  let ?st = "demo_rj\<lparr>g_pStBinLogInfo := [\<lparr>bi_szBinLogName = ''bin.000001'' @ replicate 40 NUL, bi_ulSize = 500, bi_ulPosition = 4\<rparr>]\<rparr>"
  obtain out st' where r: "read_log (\<lambda>n p i. (OK_CONTINUE, [n])) 0 ?st = Inr (out, st')"
    by (simp add: read_log_def Let_def)
  show ?thesis using start_read_mixed_up [OF r] r by simp
qed

end
