(* ===== verification/Arguments.thy ===== *)
theory Arguments
  imports Registry Journal
begin

text \<open>
  The texts that the start of the capture takes apart: the command line argument
  \<open>instance/schema/user/password\<close> (\<open>SearchArg\<close>), the entry of the repository in the registry
  (\<open>GetRepositoryFullPathName\<close>) and the version of the server (\<open>GetMySQLVersion\<close>).
  Trace output and the texts of error messages are left out.
\<close>

section \<open>The command line argument\<close>

record args =
  g_szInstance :: "char list"
  g_szSchema :: "char list"
  g_szUser :: "char list"
  g_szPassword :: "char list"

definition no_args :: args where
  "no_args = \<lparr>g_szInstance = replicate 400 NUL, g_szSchema = replicate 400 NUL,
     g_szUser = replicate 100 NUL, g_szPassword = replicate 100 NUL\<rparr>"

text \<open>\<open>*p = 0\<close>.\<close>

definition clear_first :: "char list \<Rightarrow> char list" where
  "clear_first arr = arr[0 := NUL]"

text \<open>The last parts, from behind the schema on; the password is used as the format of \<open>sprintf\<close>,
  which \<open>PrintfResult\<close> of \<open>Journal\<close> describes.\<close>

definition user_and_password :: "string \<Rightarrow> args \<Rightarrow> (bool \<times> args) res" where
  "user_and_password s st =
     (let i = ddstrchr s (CHR ''/'') in
      if 1 < i then
        and_then (copy_in ''pszUser'' (g_szUser st) (take (nat (i - 1)) s)) (\<lambda>user.
          if i + 1 < int (length s)
          then and_then (PrintfResult (drop (nat i) s)) (\<lambda>pw.
               and_then (strcpy_arr ''pszPassword'' (g_szPassword st) pw) (\<lambda>password.
                 Inr (True, st\<lparr>g_szUser := user, g_szPassword := password\<rparr>)))
          else Inr (True, st\<lparr>g_szUser := user, g_szPassword := clear_first (g_szPassword st)\<rparr>))
      else Inr (True, st\<lparr>g_szUser := clear_first (g_szUser st), g_szPassword := clear_first (g_szPassword st)\<rparr>))"

text \<open>The part from the schema on.\<close>

definition schema_and_rest :: "string \<Rightarrow> args \<Rightarrow> (bool \<times> args) res" where
  "schema_and_rest s st =
     (let i = ddstrchr s (CHR ''/'') in
      if 1 < i then
        and_then (copy_in ''g_szSchema'' (g_szSchema st) (take (nat (i - 1)) s)) (\<lambda>schema.
          let st1 = st\<lparr>g_szSchema := schema\<rparr> in
          if i + 1 < int (length s) then user_and_password (drop (nat i) s) st1
          else Inr (True, st1\<lparr>g_szUser := clear_first (g_szUser st), g_szPassword := clear_first (g_szPassword st)\<rparr>))
      else Inr (False, st))"

text \<open>\<open>pszArgument\<close> is the memory from the argument on: \<open>cpyrtrim\<close> copies 1024 bytes of it.\<close>

definition SearchArg :: "char list \<Rightarrow> args \<Rightarrow> (bool \<times> args) res" where
  "SearchArg pszArgument st =
     and_then (cpyrtrim (replicate 4096 NUL) pszArgument 1024) (\<lambda>buf.
       let s = cstr buf; i = ddstrchr s (CHR ''/'') in
       if 1 < i then
         and_then (copy_in ''g_szInstance'' (g_szInstance st) (take (nat (i - 1)) s)) (\<lambda>inst.
           let st1 = st\<lparr>g_szInstance := inst\<rparr> in
           if i + 1 < int (length s) then schema_and_rest (drop (nat i) s) st1 else Inr (False, st1))
       else Inr (False, st))"

section \<open>The repository\<close>

definition GetRepositoryFullPathName :: "string \<Rightarrow> string \<Rightarrow> string res" where
  "GetRepositoryFullPathName pszPathSource pszRepositoryEntry =
     and_then (into_buffer ''szPath'' 512 pszPathSource) (\<lambda>p.
       if p = [] then Inl (Out_of_bounds ''szPath'')
       else
         let szPath = (if last p = CHR 0x5C then butlast p else p);
             szLower = tolowerStr pszRepositoryEntry 512
         in case (strstr szLower ''driver'', strstr szLower ''database'') of
              (Some d, Some i) \<Rightarrow>
                (let pszDataBase = drop i szLower in
                 and_then (nonnull ''pszName'' (strrchr pszDataBase (CHR ''=''))) (\<lambda>j.
                   into_buffer ''szRepositoryFullPathName'' 1000
                     (if strrchr pszDataBase (CHR 0x5C) \<noteq> None then drop (Suc j) pszDataBase
                      else szPath @ CHR 0x5C # drop (Suc j) pszDataBase)))
            | _ \<Rightarrow>
                into_buffer ''szRepositoryFullPathName'' 1000
                  (if strrchr pszRepositoryEntry (CHR 0x5C) \<noteq> None then pszRepositoryEntry
                   else szPath @ CHR 0x5C # pszRepositoryEntry))"

section \<open>The version of the server\<close>

text \<open>The answer to the question: whether the calls succeeded, the row and its column.\<close>

record version_answer2 =
  va_exec_ok :: bool
  va_result_ok :: bool
  va_row :: "string option option"

definition version_digits :: "string \<Rightarrow> string" where
  "version_digits s = filter (\<lambda>c. c \<noteq> CHR ''.'' \<and> c \<noteq> CHR '' '') s"

text \<open>The result, \<open>g_szMySqlVersion\<close> and \<open>g_iMySQLVersion\<close>, whose old value is \<open>old\<close>.\<close>

definition GetMySQLVersion :: "version_answer2 \<Rightarrow> int \<Rightarrow> (bool \<times> string \<times> int) res" where
  "GetMySQLVersion a old =
     (if \<not> va_exec_ok a \<or> \<not> va_result_ok a then Inr (False, [], old)
      else case va_row a of
        None \<Rightarrow> Inr (True, [], old)
      | Some v \<Rightarrow>
          and_then (nonnull ''pszValue'' v) (\<lambda>pszValue.
          and_then (into_buffer ''g_szMySqlVersion'' 255 pszValue) (\<lambda>version.
            case strrchr version (CHR ''-'') of
              None \<Rightarrow> Inr (False, version, old)
            | Some p \<Rightarrow>
                (let szVersion = version_digits (take p version) in
                 if length szVersion < 20 then Inr (True, version, atol szVersion)
                 else Inl (Out_of_bounds ''szVersion'')))))"

section \<open>Lemmas\<close>

lemma dropWhile_not_last: "xs \<noteq> [] \<Longrightarrow> \<not> P (last xs) \<Longrightarrow> \<exists>ys. rev (dropWhile P (rev (xs @ rest))) = xs @ ys"
  by (induction rest rule: rev_induct) (auto simp: dropWhile_append, cases xs rule: rev_cases, auto)

lemma cstr_rtrim:
  assumes "NUL \<notin> set s"
  shows "cstr (rtrim (s @ NUL # rest)) = s"
proof -
  obtain ys where "rtrim ((s @ [NUL]) @ rest) = (s @ [NUL]) @ ys"
    using dropWhile_not_last [of "s @ [NUL]" "\<lambda>c. c = CHR '' ''" rest] by (auto simp: rtrim_def)
  then show ?thesis using assms by simp
qed

lemma copied_argument:
  assumes "NUL \<notin> set s" and "length s < 1024" and "1024 \<le> length (s @ NUL # rest)"
  shows "\<exists>d. cpyrtrim (replicate 4096 NUL) (s @ NUL # rest) 1024 = Inr d \<and> cstr d = s"
proof -
  have t: "take 1024 (s @ NUL # rest) = s @ NUL # take (1024 - Suc (length s)) rest"
    using assms(2) by (simp add: take_Cons')
  obtain d where "cpyrtrim (replicate 4096 NUL) (s @ NUL # rest) 1024 = Inr d"
    "cstr d = cstr (rtrim (take 1024 (s @ NUL # rest)))"
    using cpyrtrim_rtrim [of 1024 "s @ NUL # rest" "replicate 4096 NUL"] assms(3) by auto
  then show ?thesis using cstr_rtrim [OF assms(1)] t by auto
qed

lemma ddstrchr_none: "c \<notin> set s \<Longrightarrow> ddstrchr s c = - 1"
  by (simp add: ddstrchr_def split: option.splits)

text \<open>A part before a slash: the position found, and the text behind it.\<close>

lemma part_found:
  assumes "CHR ''/'' \<notin> set part"
  shows "ddstrchr (part @ CHR ''/'' # rest) (CHR ''/'') = int (length part) + 1"
    and "take (nat (int (length part) + 1 - 1)) (part @ CHR ''/'' # rest) = part"
    and "drop (nat (int (length part) + 1)) (part @ CHR ''/'' # rest) = rest"
  using assms by (simp_all add: nat_add_distrib)

lemma copy_in_zeros:
  "length s \<le> n \<Longrightarrow> copy_in what (replicate n NUL) s = Inr (s @ replicate (n - length s) NUL)"
  by (simp add: copy_in_def drop_replicate)

lemma strcpy_arr_zeros:
  "length s < n \<Longrightarrow> strcpy_arr what (replicate n NUL) s = Inr (s @ replicate (n - length s) NUL)"
  by (simp add: strcpy_arr_def drop_replicate replicate_Suc [symmetric] Suc_diff_Suc del: replicate_Suc)

lemma clear_first_zeros [simp]: "clear_first (replicate n NUL) = replicate n NUL"
  by (cases n) (simp_all add: clear_first_def)

definition zero_pad :: "nat \<Rightarrow> string \<Rightarrow> char list" where
  "zero_pad n s = s @ replicate (n - length s) NUL"

text \<open>An argument in memory, followed by at least as much as \<open>cpyrtrim\<close> reads.\<close>

definition argument_at :: "string \<Rightarrow> char list \<Rightarrow> char list" where
  "argument_at s rest = s @ NUL # rest"

definition is_part :: "string \<Rightarrow> bool" where
  "is_part s \<longleftrightarrow> s \<noteq> [] \<and> NUL \<notin> set s \<and> CHR ''/'' \<notin> set s"

lemma user_and_password_full:
  assumes "is_part user" and "length user \<le> 100" and "2 \<le> length pw" and "length pw < 100" and "CHR ''%'' \<notin> set pw"
  shows "user_and_password (user @ CHR ''/'' # pw) (no_args\<lparr>g_szInstance := a, g_szSchema := b\<rparr>)
    = Inr (True, \<lparr>g_szInstance = a, g_szSchema = b, g_szUser = zero_pad 100 user, g_szPassword = zero_pad 100 pw\<rparr>)"
proof -
  have c: "CHR ''/'' \<notin> set user" "0 < length user" using assms(1) by (simp_all add: is_part_def)
  show ?thesis
    using assms(2-5) c
    by (simp add: user_and_password_def part_found no_args_def copy_in_zeros strcpy_arr_zeros PrintfResult_plain
        zero_pad_def Let_def nat_add_distrib)
qed

lemma SearchArg_first:
  assumes "is_part inst" and "length inst \<le> 400" and "NUL \<notin> set s" and "2 \<le> length s"
    and "length inst + length s < 1023" and "1024 \<le> length (argument_at (inst @ CHR ''/'' # s) rest)"
  shows "SearchArg (argument_at (inst @ CHR ''/'' # s) rest) no_args
    = schema_and_rest s (no_args\<lparr>g_szInstance := zero_pad 400 inst\<rparr>)"
proof -
  have c: "CHR ''/'' \<notin> set inst" "0 < length inst" "NUL \<notin> set (inst @ CHR ''/'' # s)"
    using assms(1,3) by (simp_all add: is_part_def)
  obtain d where d: "cpyrtrim (replicate 4096 NUL) (argument_at (inst @ CHR ''/'' # s) rest) 1024 = Inr d"
    "cstr d = inst @ CHR ''/'' # s"
    using copied_argument [OF c(3)] assms(5,6) by (auto simp: argument_at_def)
  show ?thesis using d(1) assms(2,4) c(1,2)
    by (simp add: SearchArg_def d part_found no_args_def copy_in_zeros zero_pad_def Let_def nat_add_distrib)
qed

lemma schema_and_rest_first:
  assumes "is_part schema" and "length schema \<le> 400" and "2 \<le> length s"
  shows "schema_and_rest (schema @ CHR ''/'' # s) (no_args\<lparr>g_szInstance := a\<rparr>)
    = user_and_password s (no_args\<lparr>g_szInstance := a, g_szSchema := zero_pad 400 schema\<rparr>)"
proof -
  have c: "CHR ''/'' \<notin> set schema" "0 < length schema" using assms(1) by (simp_all add: is_part_def)
  show ?thesis using assms(2,3) c
    by (simp add: schema_and_rest_def part_found no_args_def copy_in_zeros zero_pad_def Let_def nat_add_distrib)
qed

section \<open>Properties\<close>

text \<open>C33: \<open>SearchArg\<close> splits \<open>instance/schema/user/password\<close> into its four parts, when the first
  three are not empty and have no slash and the password has at least two characters and no
  percent sign; the password may have slashes. The memory behind the argument is read up to 1024
  bytes from its start, but does not matter.\<close>

theorem search_arg_splits:
  assumes "is_part inst" and "is_part schema" and "is_part user" and "NUL \<notin> set pw" and "CHR ''%'' \<notin> set pw"
    and "2 \<le> length pw" and "length inst < 400" and "length schema < 400" and "length user < 100" and "length pw < 100"
    and "1024 \<le> length (argument_at (inst @ CHR ''/'' # schema @ CHR ''/'' # user @ CHR ''/'' # pw) rest)"
  shows "SearchArg (argument_at (inst @ CHR ''/'' # schema @ CHR ''/'' # user @ CHR ''/'' # pw) rest) no_args
    = Inr (True, \<lparr>g_szInstance = zero_pad 400 inst, g_szSchema = zero_pad 400 schema,
                  g_szUser = zero_pad 100 user, g_szPassword = zero_pad 100 pw\<rparr>)"
proof -
  have n: "NUL \<notin> set (schema @ CHR ''/'' # user @ CHR ''/'' # pw)"
    using assms(2-4) by (simp add: is_part_def)
  show ?thesis
    using SearchArg_first [OF assms(1) _ n, of rest] schema_and_rest_first [OF assms(2), of "user @ CHR ''/'' # pw"]
      user_and_password_full [OF assms(3) _ assms(6) _ assms(5)] assms(6-11)
    by simp
qed

theorem search_arg_splits_witness:
  "SearchArg (argument_at ''srv@db/shop/cdc/s/ecret'' (replicate 2000 (CHR ''x''))) no_args
    = Inr (True, \<lparr>g_szInstance = zero_pad 400 ''srv@db'', g_szSchema = zero_pad 400 ''shop'',
                  g_szUser = zero_pad 100 ''cdc'', g_szPassword = zero_pad 100 ''s/ecret''\<rparr>)"
  using search_arg_splits [of "''srv@db''" "''shop''" "''cdc''" "''s/ecret''" "replicate 2000 (CHR ''x'')"]
  by (simp add: is_part_def argument_at_def)

text \<open>A password of one character is dropped without an error.\<close>

theorem one_char_password:
  assumes "is_part inst" and "is_part schema" and "is_part user" and "ch \<noteq> NUL"
    and "length inst < 400" and "length schema < 400" and "length user < 100"
    and "1024 \<le> length (argument_at (inst @ CHR ''/'' # schema @ CHR ''/'' # user @ CHR ''/'' # [ch]) rest)"
  shows "SearchArg (argument_at (inst @ CHR ''/'' # schema @ CHR ''/'' # user @ CHR ''/'' # [ch]) rest) no_args
    = Inr (True, \<lparr>g_szInstance = zero_pad 400 inst, g_szSchema = zero_pad 400 schema,
                  g_szUser = zero_pad 100 user, g_szPassword = replicate 100 NUL\<rparr>)"
proof -
  have n: "NUL \<notin> set (schema @ CHR ''/'' # user @ CHR ''/'' # [ch])"
    using assms(2-4) by (simp add: is_part_def)
  have c: "CHR ''/'' \<notin> set user" "0 < length user" using assms(3) by (simp_all add: is_part_def)
  have "user_and_password (user @ CHR ''/'' # [ch]) (no_args\<lparr>g_szInstance := a, g_szSchema := b\<rparr>)
    = Inr (True, \<lparr>g_szInstance = a, g_szSchema = b, g_szUser = zero_pad 100 user, g_szPassword = replicate 100 NUL\<rparr>)"
    for a b
    using assms(7) c
    by (simp add: user_and_password_def part_found no_args_def copy_in_zeros zero_pad_def Let_def nat_add_distrib)
  then show ?thesis
    using SearchArg_first [OF assms(1) _ n, of rest] schema_and_rest_first [OF assms(2), of "user @ CHR ''/'' # [ch]"]
      assms(5-8) c(2)
    by (simp add: Suc_le_eq)
qed

theorem one_char_password_witness:
  "SearchArg (argument_at ''srv@db/shop/cdc/s'' (replicate 2000 (CHR ''x''))) no_args
    = Inr (True, \<lparr>g_szInstance = zero_pad 400 ''srv@db'', g_szSchema = zero_pad 400 ''shop'',
                  g_szUser = zero_pad 100 ''cdc'', g_szPassword = replicate 100 NUL\<rparr>)"
  using one_char_password [of "''srv@db''" "''shop''" "''cdc''" "CHR ''s''" "replicate 2000 (CHR ''x'')"]
  by (simp add: is_part_def argument_at_def)

lemma to_lower_special [simp]:
  "to_lower c = CHR ''='' \<longleftrightarrow> c = CHR ''=''" "to_lower c = CHR 0x5C \<longleftrightarrow> c = CHR 0x5C"
proof -
  have u: "to_lower c \<noteq> CHR ''='' \<and> to_lower c \<noteq> CHR 0x5C" if "65 \<le> (of_char c :: nat)" "(of_char c :: nat) \<le> 90"
  proof -
    have "(of_char (to_lower c) :: nat) = of_char c + 32" using that by (simp add: to_lower_def)
    moreover have "(of_char (CHR ''='') :: nat) = 61" "(of_char (CHR 0x5C) :: nat) = 92" by simp_all
    ultimately show ?thesis using that by auto
  qed
  show "to_lower c = CHR ''='' \<longleftrightarrow> c = CHR ''=''" "to_lower c = CHR 0x5C \<longleftrightarrow> c = CHR 0x5C"
    using u by (auto simp: to_lower_def)
qed

lemma to_lower_set [simp]:
  "CHR ''='' \<in> to_lower ` set s \<longleftrightarrow> CHR ''='' \<in> set s" "CHR 0x5C \<in> to_lower ` set s \<longleftrightarrow> CHR 0x5C \<in> set s"
proof -
  have "CHR ''='' = to_lower c \<longleftrightarrow> c = CHR ''=''" "CHR 0x5C = to_lower c \<longleftrightarrow> c = CHR 0x5C" for c
    using to_lower_special by metis+
  then show "CHR ''='' \<in> to_lower ` set s \<longleftrightarrow> CHR ''='' \<in> set s"
    "CHR 0x5C \<in> to_lower ` set s \<longleftrightarrow> CHR 0x5C \<in> set s"
    by (auto simp: image_iff)
qed

lemma to_lower_letters:
  "to_lower (CHR ''A'') = CHR ''a''" "to_lower (CHR ''B'') = CHR ''b''" "to_lower (CHR ''C'') = CHR ''c''" "to_lower (CHR ''D'') = CHR ''d''"
  "to_lower (CHR ''E'') = CHR ''e''" "to_lower (CHR ''F'') = CHR ''f''" "to_lower (CHR ''G'') = CHR ''g''" "to_lower (CHR ''H'') = CHR ''h''"
  "to_lower (CHR ''I'') = CHR ''i''" "to_lower (CHR ''J'') = CHR ''j''" "to_lower (CHR ''K'') = CHR ''k''" "to_lower (CHR ''L'') = CHR ''l''"
  "to_lower (CHR ''M'') = CHR ''m''" "to_lower (CHR ''N'') = CHR ''n''" "to_lower (CHR ''O'') = CHR ''o''" "to_lower (CHR ''P'') = CHR ''p''"
  "to_lower (CHR ''Q'') = CHR ''q''" "to_lower (CHR ''R'') = CHR ''r''" "to_lower (CHR ''S'') = CHR ''s''" "to_lower (CHR ''T'') = CHR ''t''"
  "to_lower (CHR ''U'') = CHR ''u''" "to_lower (CHR ''V'') = CHR ''v''" "to_lower (CHR ''W'') = CHR ''w''" "to_lower (CHR ''X'') = CHR ''x''"
  "to_lower (CHR ''Y'') = CHR ''y''" "to_lower (CHR ''Z'') = CHR ''z''"
  by code_simp+

lemma strrchr_None_iff: "strrchr s c = None \<longleftrightarrow> c \<notin> set s"
  by (simp add: strrchr_def)

definition no_backslash_at_end :: "string \<Rightarrow> string" where
  "no_backslash_at_end s = (if last s = CHR 0x5C then butlast s else s)"

lemma length_no_backslash: "length (no_backslash_at_end s) \<le> length s"
  by (simp add: no_backslash_at_end_def)

text \<open>The name in a connection string \<open>Driver=...;Database=<name>\<close> is taken in lower case; a
  name without a directory is put behind the source path. The comment of the function shows the
  name in its original case.\<close>

theorem repository_of_connection_string:
  assumes "src \<noteq> []" and "length src < 480" and "length (pre @ ''Database='' @ name) < 512"
    and "strstr (map to_lower pre) ''driver'' = Some d"
    and "strstr (map to_lower pre @ ''database'') ''database'' = Some (length pre)"
    and "CHR ''='' \<notin> set name"
  shows "GetRepositoryFullPathName src (pre @ ''Database='' @ name)
    = Inr (if CHR 0x5C \<in> set name then map to_lower name
           else no_backslash_at_end src @ CHR 0x5C # map to_lower name)"
proof -
  define t where "t = ''database='' @ map to_lower name"
  have l: "tolowerStr (pre @ ''Database='' @ name) 512 = map to_lower pre @ t"
    using assms(3) by (simp add: t_def tolowerStr_fits to_lower_letters) (simp add: to_lower_def)
  have d: "strstr (map to_lower pre @ t) ''driver'' = Some d"
    using strstr_append [OF assms(4)] by simp
  have i: "strstr (map to_lower pre @ t) ''database'' = Some (length pre)"
    using strstr_append [OF assms(5), of "CHR ''='' # map to_lower name"] by (simp add: t_def)
  have e: "strrchr t (CHR ''='') = Some 8" "drop (Suc 8) t = map to_lower name"
    using strrchr_append [of "CHR ''=''" "map to_lower name" "''database''"] assms(6) by (simp_all add: t_def)
  have b: "strrchr t (CHR 0x5C) = None \<longleftrightarrow> CHR 0x5C \<notin> set name"
    by (simp add: t_def strrchr_None_iff)
  have n: "length name < 512" "length (no_backslash_at_end src) < 480"
    using assms(2,3) length_no_backslash [of src] by simp_all
  have "GetRepositoryFullPathName src (pre @ ''Database='' @ name) =
    into_buffer ''szRepositoryFullPathName'' 1000
      (if strrchr t (CHR 0x5C) \<noteq> None then map to_lower name else no_backslash_at_end src @ CHR 0x5C # map to_lower name)"
    using assms(1,2)
    by (simp only: GetRepositoryFullPathName_def l d i Let_def option.case prod.case)
      (simp add: no_backslash_at_end_def e(1) e(2) [simplified])
  then show ?thesis using n by (simp add: b del: not_None_eq)
qed

theorem repository_of_connection_string_witness:
  "GetRepositoryFullPathName ''c:'' (''Driver={SQLite3 ODBC Driver};'' @ ''Database='' @ ''SFRDEV04@db2.db3'')
    = Inr (''c:'' @ CHR 0x5C # ''sfrdev04@db2.db3'')"
  using repository_of_connection_string [of "''c:''" "''Driver={SQLite3 ODBC Driver};''" "''SFRDEV04@db2.db3''" 0]
  by (simp add: to_lower_letters no_backslash_at_end_def) (simp add: to_lower_def)

text \<open>A path that contains both words is taken for a connection string, and has no equals sign.\<close>

lemma repository_path_misread:
  "GetRepositoryFullPathName ''c:'' (''d:'' @ CHR 0x5C # ''drivers'' @ CHR 0x5C # ''database.db3'')
    = Inl (Null_pointer ''pszName'')"
  by (simp add: GetRepositoryFullPathName_def tolowerStr_def to_lower_def strrchr_def)

text \<open>A version that has twenty characters other than dots and blanks before its last hyphen
  is written past the end of \<open>szVersion\<close>; the packages of MariaDB for Ubuntu have such versions.\<close>

theorem version_overflows:
  assumes "va_exec_ok a" and "va_result_ok a" and "va_row a = Some (Some (v @ CHR ''-'' # suf))"
    and "CHR ''-'' \<notin> set suf" and "length (v @ CHR ''-'' # suf) < 255"
  shows "GetMySQLVersion a old =
    (if length (version_digits v) < 20 then Inr (True, v @ CHR ''-'' # suf, atol (version_digits v))
     else Inl (Out_of_bounds ''szVersion''))"
  using assms by (simp add: GetMySQLVersion_def strrchr_append)

theorem version_overflows_witness:
  "GetMySQLVersion \<lparr>va_exec_ok = True, va_result_ok = True,
      va_row = Some (Some (''10.3.23-MariaDB-1:10.3.23+maria~bionic'' @ CHR ''-'' # ''log''))\<rparr> 0
   = Inl (Out_of_bounds ''szVersion'')"
  using version_overflows [of "\<lparr>va_exec_ok = True, va_result_ok = True,
      va_row = Some (Some (''10.3.23-MariaDB-1:10.3.23+maria~bionic'' @ CHR ''-'' # ''log''))\<rparr>"
      "''10.3.23-MariaDB-1:10.3.23+maria~bionic''" "''log''" 0]
  by (simp add: version_digits_def)

lemma version_number:
  "GetMySQLVersion \<lparr>va_exec_ok = True, va_result_ok = True, va_row = Some (Some ''10.3.23-MariaDB-log'')\<rparr> 0
     = Inr (True, ''10.3.23-MariaDB-log'', 10323)"
  by (simp add: GetMySQLVersion_def strrchr_def version_digits_def atol_def is_space_def is_digit_def
      digit_val_def long_max_def long_min_def Let_def)

text \<open>A server whose version has no hyphen is not accepted.\<close>

lemma version_without_hyphen:
  "va_exec_ok a \<Longrightarrow> va_result_ok a \<Longrightarrow> va_row a = Some (Some v) \<Longrightarrow> CHR ''-'' \<notin> set v \<Longrightarrow> length v < 255
     \<Longrightarrow> GetMySQLVersion a old = Inr (False, v, old)"
  by (simp add: GetMySQLVersion_def strrchr_None_iff [THEN iffD2])

end
