(* ===== verification/Threads.thy ===== *)
theory Threads
  imports Journal
begin

text \<open>
  The threads, events and pipes around the capture: the wrapper of events in
  \<open>synchronization.h\<close>, the redirection of the standard output in \<open>StdOutRedirect.h\<close>, the start
  and the stop of the listener's thread, and the thread that waits on a named pipe for the
  message that ends the capture, with the command that sends it.

  The outcomes of the calls of the operating system are parameters. Trace output is left out.
\<close>

section \<open>Events\<close>

record event =
  has_handle :: bool
  signalled :: bool
  manual_reset :: bool

definition new_event :: "bool \<Rightarrow> bool \<Rightarrow> event" where
  "new_event manual created = \<lparr>has_handle = created, signalled = False, manual_reset = manual\<rparr>"

definition Set :: "event \<Rightarrow> bool \<times> event" where
  "Set e = (if has_handle e then (True, e\<lparr>signalled := True\<rparr>) else (False, e))"

definition Clear :: "event \<Rightarrow> bool \<times> event" where
  "Clear e = (if has_handle e then (True, e\<lparr>signalled := False\<rparr>) else (False, e))"

text \<open>The outcome of a wait whose time runs out with the event in this state; an event without
  manual reset is reset by the wait that finds it signalled.\<close>

definition Wait :: "event \<Rightarrow> wait_result \<times> event" where
  "Wait e =
     (if \<not> has_handle e then (WAIT_FAILED, e)
      else if signalled e then (WAIT_OBJECT_0, if manual_reset e then e else e\<lparr>signalled := False\<rparr>)
      else (WAIT_TIMEOUT, e))"

definition CheckEvent :: "event \<Rightarrow> bool" where
  "CheckEvent e = has_handle e"

section \<open>The redirection of the standard output\<close>

record redirect =
  pipe_open :: bool
  to_pipe :: bool
  rd_error :: int

definition redirect_Start :: "bool \<Rightarrow> bool \<Rightarrow> redirect \<Rightarrow> int \<times> redirect" where
  "redirect_Start pipe_ok dup_ok r =
     (let r1 = r\<lparr>rd_error := 0\<rparr> in
      if \<not> pipe_ok then (- 1, r1)
      else if \<not> dup_ok then (- 1, r1\<lparr>pipe_open := True\<rparr>)
      else (0, r1\<lparr>pipe_open := True, to_pipe := True\<rparr>))"

definition redirect_Stop :: "bool \<Rightarrow> redirect \<Rightarrow> int \<times> redirect" where
  "redirect_Stop dup_ok r = (if \<not> dup_ok then (- 1, r) else (0, r\<lparr>to_pipe := False, pipe_open := False\<rparr>))"

section \<open>The threads of the process\<close>

text \<open>\<open>g_hEventEndOfBinlog\<close> is also part of the state of the listener; here it is with its handle.\<close>

record threads =
  g_fExitApp :: bool
  g_hEventExit :: event
  g_hEvent_B :: event
  te_hEventEndOfBinlog :: event
  g_stdoutRedirect :: redirect
  g_hThread_B :: bool
  g_hThreadPipe :: bool

definition new_threads :: "bool \<Rightarrow> bool \<Rightarrow> bool \<Rightarrow> threads" where
  "new_threads exit_created b_created end_created =
     \<lparr>g_fExitApp = False, g_hEventExit = new_event False exit_created, g_hEvent_B = new_event False b_created,
      te_hEventEndOfBinlog = new_event False end_created,
      g_stdoutRedirect = \<lparr>pipe_open = False, to_pipe = False, rd_error = 0\<rparr>,
      g_hThread_B = False, g_hThreadPipe = False\<rparr>"

text \<open>What the operating system answers to the calls of \<open>StartThread\<close> and \<open>InitThreadPipe\<close>.\<close>

record os_start =
  os_pipe :: bool
  os_dup :: bool
  os_thread :: bool
  os_named_pipe :: bool
  os_pipe_thread :: bool

text \<open>The result of the redirection is not looked at.\<close>

definition StartThread :: "os_start \<Rightarrow> threads \<Rightarrow> bool \<times> threads" where
  "StartThread os t =
     (let ok1 = CheckEvent (g_hEventExit t);
          t1 = t\<lparr>g_stdoutRedirect := snd (redirect_Start (os_pipe os) (os_dup os) (g_stdoutRedirect t))\<rparr>;
          ok2 = CheckEvent (g_hEvent_B t1);
          ok3 = CheckEvent (te_hEventEndOfBinlog t1);
          t2 = t1\<lparr>g_hThread_B := os_thread os\<rparr>
      in (ok1 \<and> ok2 \<and> ok3 \<and> os_thread os, t2))"

definition STILL_ACTIVE :: int where "STILL_ACTIVE = 259"

text \<open>\<open>GetExitCodeThread\<close>: whether it succeeds, and what \<open>dwExitCode\<close> holds behind it (an
  uninitialised value when it fails).\<close>

definition IsAliveThread :: "bool \<Rightarrow> int \<Rightarrow> bool" where
  "IsAliveThread got dwExitCode =
     (let fReturn = got in if dwExitCode = STILL_ACTIVE then True else False)"

definition stop_one_thread :: "wait_result \<Rightarrow> bool \<Rightarrow> int \<Rightarrow> bool" where
  "stop_one_thread dwRep got dwExitCode =
     (let r1 = (dwRep = WAIT_OBJECT_0);
          r2 = (if \<not> got then False else r1)
      in if dwExitCode = STILL_ACTIVE then False else r2)"

text \<open>The result of \<open>Set\<close> is overwritten.\<close>

definition StopThread :: "bool \<Rightarrow> wait_result \<Rightarrow> bool \<Rightarrow> int \<Rightarrow> threads \<Rightarrow> bool \<times> threads" where
  "StopThread dup_ok dwRep got dwExitCode t =
     (let t1 = t\<lparr>g_stdoutRedirect := snd (redirect_Stop dup_ok (g_stdoutRedirect t))\<rparr>;
          (fReturn, e) = Set (g_hEvent_B t1);
          t2 = t1\<lparr>g_hEvent_B := e\<rparr>
      in (stop_one_thread dwRep got dwExitCode, t2))"

section \<open>The message that ends the capture\<close>

definition InitThreadPipe :: "os_start \<Rightarrow> threads \<Rightarrow> threads" where
  "InitThreadPipe os t = (if os_named_pipe os then t\<lparr>g_hThreadPipe := os_pipe_thread os\<rparr> else t)"

text \<open>What a round of the thread finds at its pipe.\<close>

datatype pipe_event = Connect_failed | Read_failed | Message int

definition end_message :: "int \<Rightarrow> bool" where
  "end_message iMessage \<longleftrightarrow> iMessage = 1 \<or> iMessage = 2 \<or> iMessage = 3"

definition set_exit :: "threads \<Rightarrow> threads" where
  "set_exit t = t\<lparr>g_fExitApp := True, g_hEventExit := snd (Set (g_hEventExit t)),
                  te_hEventEndOfBinlog := snd (Set (te_hEventEndOfBinlog t))\<rparr>"

text \<open>The loop of the thread; the result says whether it has terminated.\<close>

fun ListenPipeThread :: "pipe_event list \<Rightarrow> threads \<Rightarrow> bool \<times> threads" where
  "ListenPipeThread [] t = (False, t)"
| "ListenPipeThread (e # es) t =
     (case e of
        Connect_failed \<Rightarrow> (True, t)
      | Read_failed \<Rightarrow> ListenPipeThread es t
      | Message m \<Rightarrow> if end_message m then (True, set_exit t) else ListenPipeThread es t)"

text \<open>An attempt of the sender to open the pipe: opened, with the outcome of writing; busy, with
  the outcome of waiting for it; another error. Without further attempts it is still trying.\<close>

datatype attempt = Opened bool | Busy bool | Open_error

fun send_attempts :: "attempt list \<Rightarrow> bool option" where
  "send_attempts [] = None"
| "send_attempts (a # as) =
     (case a of
        Opened written \<Rightarrow> Some written
      | Busy waited \<Rightarrow> if waited then send_attempts as else Some False
      | Open_error \<Rightarrow> Some False)"

definition SendMessageToLogReader :: "string \<Rightarrow> int \<Rightarrow> attempt list \<Rightarrow> (bool option \<times> int) res" where
  "SendMessageToLogReader pszProcessSender iMessage attempts =
     and_then (into_buffer ''g_szPipeName'' 256
                 (CHR 0x5C # CHR 0x5C # ''.'' @ CHR 0x5C # ''pipe'' @ CHR 0x5C # pszProcessSender)) (\<lambda>_.
       Inr (send_attempts attempts, iMessage))"

definition StopProcess :: "string \<Rightarrow> attempt list \<Rightarrow> (bool option \<times> int) res" where
  "StopProcess pszProcessName attempts = SendMessageToLogReader pszProcessName 1 attempts"

section \<open>Properties\<close>

lemma ListenPipeThread_before:
  assumes "\<forall>e \<in> set es. e \<noteq> Connect_failed \<and> (\<forall>m. e = Message m \<longrightarrow> \<not> end_message m)"
  shows "ListenPipeThread (es @ rest) t = ListenPipeThread rest t"
  using assms by (induction es) (auto split: pipe_event.splits)

text \<open>The command \<open>STOP\<close> ends the capture: the message that \<open>StopProcess\<close> sends when it
  succeeds makes the thread at the pipe set \<open>g_fExitApp\<close> and signal the events that the main
  thread waits for, whatever failed reads and other messages came before it.\<close>

theorem stop_command_received:
  assumes "StopProcess pname attempts = Inr (Some True, m)"
    and "\<forall>e \<in> set es. e \<noteq> Connect_failed \<and> (\<forall>k. e = Message k \<longrightarrow> \<not> end_message k)"
    and "has_handle (g_hEventExit t)" and "has_handle (te_hEventEndOfBinlog t)"
  shows "\<exists>t'. ListenPipeThread (es @ Message m # rest) t = (True, t') \<and> g_fExitApp t'
           \<and> fst (Wait (g_hEventExit t')) = WAIT_OBJECT_0 \<and> fst (Wait (te_hEventEndOfBinlog t')) = WAIT_OBJECT_0
           \<and> \<not> signalled (snd (Wait (g_hEventExit t'))) = (\<not> manual_reset (g_hEventExit t))"
proof -
  have "end_message m"
    using assms(1) by (auto simp: StopProcess_def SendMessageToLogReader_def end_message_def elim!: and_then_eq_InrE)
  then show ?thesis
    using ListenPipeThread_before [OF assms(2)] assms(3,4) by (simp add: set_exit_def Set_def Wait_def)
qed

theorem stop_command_received_witness:
  "StopProcess ''capture.exe'' [Busy True, Opened True] = Inr (Some True, 1)
   \<and> (\<exists>t'. ListenPipeThread [Read_failed, Message 7, Message 1] (new_threads True True True) = (True, t') \<and> g_fExitApp t')"
proof -
  have s: "StopProcess ''capture.exe'' [Busy True, Opened True] = Inr (Some True, 1)"
    by (simp add: StopProcess_def SendMessageToLogReader_def)
  then show ?thesis
    using stop_command_received [OF s, of "[Read_failed, Message 7]" "new_threads True True True" "[]"]
    by (auto simp: end_message_def new_threads_def new_event_def)
qed

text \<open>A connection that fails ends the thread: the capture cannot be stopped by a message any more.\<close>

lemma connect_failed_deaf:
  "ListenPipeThread (Connect_failed # es) t = (True, t)"
  by simp

text \<open>A redirection that fails is not noticed: the start succeeds all the same.\<close>

lemma StartThread_ignores_redirection:
  "fst (StartThread (os\<lparr>os_pipe := False\<rparr>) t) = fst (StartThread (os\<lparr>os_pipe := True\<rparr>) t)"
  by (simp add: StartThread_def Let_def CheckEvent_def)

text \<open>The result of stopping the listener does not depend on whether its event could be set.\<close>

lemma StopThread_ignores_event:
  "fst (StopThread d w got code t) = (w = WAIT_OBJECT_0 \<and> got \<and> code \<noteq> STILL_ACTIVE)"
  by (auto simp: StopThread_def stop_one_thread_def Let_def split: prod.splits)

end
