(* ===== verification/Startup.thy ===== *)
theory Startup
  imports Arguments Threads
begin

text \<open>
  \<open>main\<close> of \<open>ddMySqlBinLogCapture.cpp\<close>: the commands of the command line, and the start and the
  end of a capture as the sequence of steps that it is in the code, with \<open>iReturn\<close>, which most but
  not all steps look at. The libraries are loaded by \<open>LoadMySQLLib\<close> and \<open>LoaddbinlogDll\<close>
  (\<open>ddbinlogdll.cpp\<close>), the journal is looked up by \<open>SearchJrnPath\<close>.

  The answers of the operating system, the database and the libraries are the record \<open>env\<close>. What
  \<open>ReadJournal\<close> and the listener do to the checkpoint and the capture between the start and the
  end is a parameter here; \<open>Journal\<close> describes it. Messages, durations and the trace file are left
  out, except for the computation of the trace file's name.
\<close>

section \<open>The libraries\<close>

record dll =
  dll_present :: bool
  dll_has :: "string \<Rightarrow> bool"

text \<open>The functions are looked up in order up to the first one that is missing.\<close>

fun load_procs :: "(string \<Rightarrow> bool) \<Rightarrow> string list \<Rightarrow> bool \<times> string list" where
  "load_procs has [] = (True, [])"
| "load_procs has (p # ps) =
     (if has p then (let (ok, ls) = load_procs has ps in (ok, p # ls)) else (False, []))"

definition mysql_procs :: "string list" where
  "mysql_procs = [''MySetVerbosity'', ''MyInitDB'', ''MyFreeDB'', ''MySetOptionDB'', ''MyOpenConnection'',
     ''MyCloseConnection'', ''MyGetErrormessage'', ''MyGetErrorNum'', ''MyGetSqlState'', ''MyFreeStatement'',
     ''MyExecStatement'', ''MyGetResult'', ''MyGetResultValue'', ''MyGetFetchRow'', ''MyGetAffectedRows'',
     ''MyGetInfo'', ''MyGetResultCount'', ''MyGetNumField'', ''MyGetResultLength'', ''MyGetResultField'']"

definition binlog_procs :: "string list" where
  "binlog_procs = [''main_binlog'', ''InitMySql'', ''MySetVerbose'', ''MySetTrace'', ''InitRemoteReadBinLog'',
     ''FreeReadBinLog'', ''StartReadBinLog'', ''PrintfResult'']"

definition LoadMySQLLib :: "dll \<Rightarrow> bool \<times> string list" where
  "LoadMySQLLib lib = (if dll_present lib then load_procs (dll_has lib) mysql_procs else (False, []))"

definition LoaddbinlogDll :: "dll \<Rightarrow> bool \<times> string list" where
  "LoaddbinlogDll lib = (if dll_present lib then load_procs (dll_has lib) binlog_procs else (False, []))"

text \<open>A call through a pointer to a function that was not found.\<close>

definition call_proc :: "string list \<Rightarrow> string \<Rightarrow> 'a \<Rightarrow> 'a res" where
  "call_proc loaded p x = (if p \<in> set loaded then Inr x else Inl (Null_pointer p))"

section \<open>The journal\<close>

text \<open>The answer of the repository: an exception of the wrapper, no row, or the first column.\<close>

datatype jrn_answer = Jrn_exception | Jrn_eof | Jrn_field "string option"

text \<open>The result and \<open>g_szJrnName\<close>; the statement is composed in an array of 1024 bytes.\<close>

definition SearchJrnPath :: "jrn_answer \<Rightarrow> char list \<Rightarrow> char list \<Rightarrow> char list \<Rightarrow> char list \<Rightarrow> (bool \<times> char list) res" where
  "SearchJrnPath answer path_arr db_arr schema_arr jrn_arr =
     (let jrn0 = clear_first jrn_arr in
      and_then (c_string ''g_szPathSource'' path_arr) (\<lambda>src.
      and_then (c_string ''g_szDataBaseName'' db_arr) (\<lambda>entry.
      and_then (GetRepositoryFullPathName src entry) (\<lambda>full.
      and_then (into_buffer ''g_szFullDataBase'' 512 full) (\<lambda>_.
      and_then (c_string ''g_szSchema'' schema_arr) (\<lambda>schema.
      and_then (into_buffer ''g_szSQL'' 1024 (''SELECT JRNFILE FROM JOURNAL WHERE DB ='' @ [CHR 0x27] @ schema @ [CHR 0x27, CHR '';''])) (\<lambda>_.
        case answer of
          Jrn_exception \<Rightarrow> Inr (False, jrn0)
        | Jrn_eof \<Rightarrow> Inr (False, jrn0)
        | Jrn_field v \<Rightarrow>
            and_then (nonnull ''pszJournal'' v) (\<lambda>pszJournal.
            and_then (cpyrtrim jrn0 (pszJournal @ [NUL]) (length pszJournal)) (\<lambda>jrn.
            and_then (c_string ''g_szJrnName'' jrn) (\<lambda>jname.
            and_then (into_buffer ''g_szDiskBufferTmpFileName'' 400 (jname @ ''.TMP'')) (\<lambda>_.
              Inr (True, jrn))))))))))))"

text \<open>The directory of the journal and the path of the capture files in its working area.\<close>

definition journal_paths :: "string \<Rightarrow> string res" where
  "journal_paths g_szJrnName =
     and_then (into_buffer ''g_szJrnPath'' 260 g_szJrnName) (\<lambda>jp.
     and_then (nonnull ''p'' (strrchr jp (CHR 0x5C))) (\<lambda>i.
       let dir = take i jp; jrn = drop (Suc i) jp in
       and_then (into_buffer ''g_szWorkingArea'' 260 (dir @ CHR 0x5C # ''WORKING_AREA'')) (\<lambda>_.
         into_buffer ''g_szJrn_WithoutExtention'' 260 (dir @ CHR 0x5C # ''WORKING_AREA'' @ CHR 0x5C # jrn))))"

text \<open>The directory of the trace file, cut off at the last backslash of the journal's name.\<close>

definition trace_directory :: "string \<Rightarrow> (char list) res" where
  "trace_directory g_szJrnName =
     and_then (nonnull ''pszFileName'' (strrchr g_szJrnName (CHR 0x5C))) (\<lambda>i.
       ddstrncpy (replicate 4096 NUL) g_szJrnName (int i) True)"

section \<open>State and environment\<close>

datatype step_name =
  A_SearchArg | A_LoadParam | A_LoadMySQLLib | A_LoaddbinlogDll | A_OpenConnection | A_GetMySQLVersion
  | A_SearchJrnPath | A_InitParam | A_OpenCapture | A_InitReadBinLog | A_StartThread | A_TraceDB
  | A_ReadJournal | A_StopThread | A_FreeReadBinLog

record boot =
  b_ok :: bool
  b_log :: "(step_name \<times> bool) list"
  b_args :: args
  b_params :: params
  b_registry :: registry
  b_mysql :: "string list"
  b_binlog :: "string list"
  b_version :: int
  b_jrn :: "char list"
  b_ckpt :: ckpt
  b_cap :: cap
  b_threads :: threads

record env =
  e_reg :: reg_env
  e_alloc :: "u32 \<Rightarrow> bool"
  e_dll :: "string \<Rightarrow> dll"
  e_init_db :: bool
  e_connect :: "string \<Rightarrow> string \<Rightarrow> string \<Rightarrow> int \<Rightarrow> bool"
  e_version :: version_answer2
  e_journal :: jrn_answer
  e_xai_open :: "open_mode \<Rightarrow> string \<Rightarrow> bool"
  e_io :: io_env
  e_listing :: "string list"
  e_init_reader :: Exit_status
  e_os :: os_start
  e_trace_db :: bool
  e_capture :: "ckpt \<times> cap \<Rightarrow> ckpt \<times> cap"
  e_stop :: "bool \<times> wait_result \<times> bool \<times> int"
  e_free_reader :: Exit_status

text \<open>The outcome of a step; a failure sets \<open>iReturn\<close>.\<close>

definition outcome :: "step_name \<Rightarrow> bool \<Rightarrow> boot \<Rightarrow> boot" where
  "outcome a ok st = st\<lparr>b_ok := b_ok st \<and> ok, b_log := b_log st @ [(a, ok)]\<rparr>"

text \<open>A step that is left out when a step before it has failed.\<close>

definition when_ok :: "(boot \<Rightarrow> boot res) \<Rightarrow> boot \<Rightarrow> boot res" where
  "when_ok f st = (if b_ok st then f st else Inr st)"

section \<open>The steps of the start\<close>

definition InitGlobal :: "boot \<Rightarrow> boot" where
  "InitGlobal st =
     st\<lparr>b_ckpt := (b_ckpt st)\<lparr>g_stBinLogSeqInProgess := zero_seq, g_StBinLogSequenceXai := zero_seq\<rparr>\<rparr>"

definition do_LoadParam :: "env \<Rightarrow> boot \<Rightarrow> boot res" where
  "do_LoadParam env st =
     and_then (LoadParam (e_reg env) (e_alloc env) (g_szInstance (b_args st)) (g_szSchema (b_args st))
                 (g_szUser (b_args st)) (b_registry st)) (\<lambda>(ok, p, reg).
       Inr (outcome A_LoadParam ok (st\<lparr>b_params := p, b_registry := reg,
              b_cap := (b_cap st)\<lparr>g_lCaptureAndProcess := sint (par_lCaptureAndProcess p)\<rparr>\<rparr>)))"

definition dll_name :: "char list \<Rightarrow> string res" where
  "dll_name arr = and_then (c_string ''name'' arr) (\<lambda>s. into_buffer ''szDriverName'' 512 (s @ ''.dll''))"

text \<open>The libraries are loaded whatever happened before, and \<open>hInitMySql\<close> and \<open>hMySetTrace\<close> are
  called without a test.\<close>

definition do_load_libraries :: "env \<Rightarrow> boot \<Rightarrow> boot res" where
  "do_load_libraries env st =
     and_then (dll_name (g_szDbDriverName (b_params st))) (\<lambda>driver.
       let (ok1, procs1) = LoadMySQLLib (e_dll env driver);
           st1 = outcome A_LoadMySQLLib ok1 (st\<lparr>b_mysql := procs1\<rparr>)
       in and_then (dll_name (g_szBinlogLibName (b_params st))) (\<lambda>reader.
          let (ok2, procs2) = LoaddbinlogDll (e_dll env reader);
              st2 = outcome A_LoaddbinlogDll ok2 (st1\<lparr>b_binlog := procs2\<rparr>)
          in and_then (call_proc procs2 ''InitMySql'' st2) (\<lambda>st3. call_proc procs2 ''MySetTrace'' st3)))"

definition OpenConnection :: "env \<Rightarrow> boot \<Rightarrow> bool res" where
  "OpenConnection env st =
     (if \<not> e_init_db env then call_proc (b_mysql st) ''MyCloseConnection'' False
      else and_then (c_string ''g_szServer'' (g_szServer (b_params st))) (\<lambda>server.
           and_then (c_string ''g_szUser'' (g_szUser (b_args st))) (\<lambda>user.
           and_then (c_string ''g_szPassword'' (g_szPassword (b_args st))) (\<lambda>password.
             if e_connect env server user password (g_iPort (b_params st)) then Inr True
             else call_proc (b_mysql st) ''MyCloseConnection'' False))))"

definition do_OpenConnection :: "env \<Rightarrow> boot \<Rightarrow> boot res" where
  "do_OpenConnection env st =
     and_then (OpenConnection env st) (\<lambda>ok. Inr (outcome A_OpenConnection ok st))"

definition do_GetMySQLVersion :: "env \<Rightarrow> boot \<Rightarrow> boot res" where
  "do_GetMySQLVersion env st =
     and_then (GetMySQLVersion (e_version env) (b_version st)) (\<lambda>(ok, v, n).
       Inr (outcome A_GetMySQLVersion ok (st\<lparr>b_version := n\<rparr>)))"

definition do_SearchJrnPath :: "env \<Rightarrow> boot \<Rightarrow> boot res" where
  "do_SearchJrnPath env st =
     and_then (SearchJrnPath (e_journal env) (g_szPathSource (b_params st)) (g_szDataBaseName (b_params st))
                 (g_szSchema (b_args st)) (b_jrn st)) (\<lambda>(ok, jrn).
       Inr (outcome A_SearchJrnPath ok (st\<lparr>b_jrn := jrn\<rparr>)))"

definition do_trace_file :: "boot \<Rightarrow> boot res" where
  "do_trace_file st =
     (if g_lActivateTrace (b_params st) = 0 then Inr st
      else and_then (c_string ''g_szJrnName'' (b_jrn st)) (\<lambda>jrn. and_then (trace_directory jrn) (\<lambda>_. Inr st)))"

definition do_journal_paths :: "boot \<Rightarrow> boot res" where
  "do_journal_paths st =
     and_then (c_string ''g_szJrnName'' (b_jrn st)) (\<lambda>jrn. and_then (journal_paths jrn) (\<lambda>p.
       Inr (st\<lparr>b_cap := (b_cap st)\<lparr>g_szJrn_WithoutExtention := p\<rparr>\<rparr>)))"

definition do_InitParam :: "env \<Rightarrow> boot \<Rightarrow> boot res" where
  "do_InitParam env st =
     and_then (c_string ''g_szJrnName'' (b_jrn st)) (\<lambda>jrn. and_then (InitParam (e_xai_open env) jrn (b_ckpt st)) (\<lambda>(ok, k).
       Inr (outcome A_InitParam ok (st\<lparr>b_ckpt := k\<rparr>))))"

definition do_OpenCapture :: "env \<Rightarrow> boot \<Rightarrow> boot res" where
  "do_OpenCapture env st =
     and_then (OpenCapture (e_io env) (e_listing env) False (b_cap st)) (\<lambda>(ok, k).
       Inr (outcome A_OpenCapture ok (st\<lparr>b_cap := k\<rparr>)))"

definition do_InitReadBinLog :: "env \<Rightarrow> boot \<Rightarrow> boot res" where
  "do_InitReadBinLog env st =
     call_proc (b_binlog st) ''InitRemoteReadBinLog'' (outcome A_InitReadBinLog (e_init_reader env = OK_CONTINUE) st)"

definition do_StartThread :: "env \<Rightarrow> boot \<Rightarrow> boot res" where
  "do_StartThread env st =
     (let (ok, t) = StartThread (e_os env) (b_threads st)
      in Inr (outcome A_StartThread ok (st\<lparr>b_threads := t\<rparr>)))"

definition do_trace_db :: "env \<Rightarrow> boot \<Rightarrow> boot res" where
  "do_trace_db env st =
     (if 0 < sint (par_lTraceBinLog (b_params st)) then Inr (outcome A_TraceDB (e_trace_db env) st) else Inr st)"

text \<open>The steps of the start in order, once the argument has been taken apart.\<close>

definition start_steps :: "env \<Rightarrow> (boot \<Rightarrow> boot res) list" where
  "start_steps env =
     [when_ok (do_LoadParam env), do_load_libraries env, when_ok (do_OpenConnection env),
      when_ok (do_GetMySQLVersion env), do_SearchJrnPath env, do_trace_file, when_ok do_journal_paths,
      when_ok (do_InitParam env), when_ok (do_OpenCapture env), when_ok (do_InitReadBinLog env),
      when_ok (do_StartThread env), \<lambda>st. Inr (st\<lparr>b_threads := InitThreadPipe (e_os env) (b_threads st)\<rparr>),
      do_trace_db env]"

definition start_up :: "env \<Rightarrow> char list \<Rightarrow> boot \<Rightarrow> (bool \<times> boot) res" where
  "start_up env argument st0 =
     and_then (SearchArg argument (b_args st0)) (\<lambda>(ok, a).
       let st1 = outcome A_SearchArg ok ((InitGlobal st0)\<lparr>b_args := a\<rparr>) in
       if \<not> ok then Inr (False, st1)
       else and_then (fold_res (\<lambda>f. f) (start_steps env) st1) (\<lambda>st2. Inr (True, st2)))"

section \<open>The capture and its end\<close>

definition do_ReadJournal :: "env \<Rightarrow> boot \<Rightarrow> boot res" where
  "do_ReadJournal env st =
     (let (k, c) = e_capture env (b_ckpt st, b_cap st)
      in Inr (outcome A_ReadJournal True (st\<lparr>b_ckpt := k, b_cap := c\<rparr>)))"

definition do_StopThread :: "env \<Rightarrow> boot \<Rightarrow> boot res" where
  "do_StopThread env st =
     (let (dup, w, got, code) = e_stop env; (ok, t) = StopThread dup w got code (b_threads st)
      in Inr (outcome A_StopThread ok (st\<lparr>b_threads := t\<rparr>)))"

definition do_FreeReadBinLog :: "env \<Rightarrow> boot \<Rightarrow> boot res" where
  "do_FreeReadBinLog env st =
     call_proc (b_binlog st) ''FreeReadBinLog'' (outcome A_FreeReadBinLog (e_free_reader env = OK_CONTINUE) st)"

text \<open>\<open>Cleanup\<close> closes the files and frees the buffers.\<close>

definition Cleanup :: "boot \<Rightarrow> boot" where
  "Cleanup st = st\<lparr>b_ckpt := (b_ckpt st)\<lparr>g_pFileJrnTransact := None\<rparr>,
                    b_cap := (b_cap st)\<lparr>g_pFileCapture := None\<rparr>\<rparr>"

definition end_steps :: "env \<Rightarrow> (boot \<Rightarrow> boot res) list" where
  "end_steps env =
     [when_ok (do_ReadJournal env), when_ok (do_StopThread env), when_ok (do_FreeReadBinLog env),
      \<lambda>st. call_proc (b_mysql st) ''MyFreeDB'' (Cleanup st)]"

text \<open>The exit code of the process and its last state.\<close>

definition run_capture :: "env \<Rightarrow> char list \<Rightarrow> boot \<Rightarrow> (int \<times> boot) res" where
  "run_capture env argument st0 =
     and_then (start_up env argument st0) (\<lambda>(started, st).
       if \<not> started then Inr (1, st)
       else and_then (fold_res (\<lambda>f. f) (end_steps env) st) (\<lambda>st'. Inr (if b_ok st' then 0 else 1, st')))"

section \<open>The command line\<close>

datatype command =
  Missing_argument | Dsp_xai string | Stop_process string | Crt_xai string string string string | Capture string

definition main_command :: "string list \<Rightarrow> command" where
  "main_command argv =
     (if length argv \<le> 1 then Missing_argument
      else if argv ! 1 = ''DSPXAI'' \<and> length argv = 3 then Dsp_xai (argv ! 2)
      else if argv ! 1 = ''STOP'' \<and> length argv = 3 then Stop_process (argv ! 2)
      else if argv ! 1 = ''CRTXAI'' \<and> length argv = 6 then Crt_xai (argv ! 2) (argv ! 3) (argv ! 4) (argv ! 5)
      else Capture (argv ! 1))"

section \<open>What the steps do to the result\<close>

text \<open>A step appends its entries to the log, and \<open>iReturn\<close> remembers whether one of them failed;
  a mandatory step makes all its entries as long as nothing has failed.\<close>

definition may_run :: "step_name list \<Rightarrow> (boot \<Rightarrow> boot res) \<Rightarrow> bool" where
  "may_run ns f \<longleftrightarrow> (\<forall>st st'. f st = Inr st' \<longrightarrow>
     (\<exists>xs. b_log st' = b_log st @ xs \<and> fst ` set xs \<subseteq> set ns \<and> (b_ok st' \<longleftrightarrow> b_ok st \<and> (\<forall>x \<in> set xs. snd x))))"

definition runs_as :: "step_name list \<Rightarrow> (boot \<Rightarrow> boot res) \<Rightarrow> bool" where
  "runs_as ns f \<longleftrightarrow> may_run ns f \<and>
     (\<forall>st st'. f st = Inr st' \<longrightarrow> b_ok st' \<longrightarrow> b_log st' = b_log st @ map (\<lambda>a. (a, True)) ns)"

text \<open>A step that leaves a part of the state alone.\<close>

definition keeps :: "(boot \<Rightarrow> 'a) \<Rightarrow> (boot \<Rightarrow> boot res) \<Rightarrow> bool" where
  "keeps part f \<longleftrightarrow> (\<forall>st st'. f st = Inr st' \<longrightarrow> part st' = part st)"

named_theorems step_facts "what the steps of main do"

lemma may_run_steps: "list_all2 may_run nss fs \<Longrightarrow> may_run (concat nss) (fold_res (\<lambda>f. f) fs)"
proof (induction rule: list_all2_induct)
  case Nil
  show ?case by (simp add: may_run_def)
next
  case (Cons ns nss f fs)
  show ?case unfolding may_run_def
  proof (intro allI impI)
    fix st st'
    assume "fold_res (\<lambda>f. f) (f # fs) st = Inr st'"
    then obtain u where u: "f st = Inr u" "fold_res (\<lambda>f. f) fs u = Inr st'" by (auto elim: and_then_eq_InrE)
    obtain xs where xs: "b_log u = b_log st @ xs" "fst ` set xs \<subseteq> set ns" "b_ok u \<longleftrightarrow> b_ok st \<and> (\<forall>x \<in> set xs. snd x)"
      using Cons.hyps(1) u(1) unfolding may_run_def by metis
    obtain ys where ys: "b_log st' = b_log u @ ys" "fst ` set ys \<subseteq> set (concat nss)"
      "b_ok st' \<longleftrightarrow> b_ok u \<and> (\<forall>x \<in> set ys. snd x)"
      using Cons.IH u(2) unfolding may_run_def by metis
    show "\<exists>zs. b_log st' = b_log st @ zs \<and> fst ` set zs \<subseteq> set (concat (ns # nss))
        \<and> (b_ok st' \<longleftrightarrow> b_ok st \<and> (\<forall>x \<in> set zs. snd x))"
      using xs ys by (intro exI [of _ "xs @ ys"]) auto
  qed
qed

lemma runs_as_ok: "runs_as ns f \<Longrightarrow> f st = Inr st' \<Longrightarrow> b_ok st' \<Longrightarrow> b_ok st \<and> b_log st' = b_log st @ map (\<lambda>a. (a, True)) ns"
  unfolding runs_as_def may_run_def by metis

lemma runs_as_may [step_facts]: "runs_as ns f \<Longrightarrow> may_run ns f"
  by (simp add: runs_as_def)

lemma runs_as_steps: "list_all2 runs_as nss fs \<Longrightarrow> runs_as (concat nss) (fold_res (\<lambda>f. f) fs)"
proof (induction rule: list_all2_induct)
  case Nil
  show ?case by (simp add: runs_as_def may_run_def)
next
  case (Cons ns nss f fs)
  have "may_run (concat nss) (fold_res (\<lambda>f. f) fs)" "may_run ns f"
    using Cons by (simp_all add: runs_as_def)
  then have m: "may_run (concat (ns # nss)) (fold_res (\<lambda>f. f) (f # fs))"
  proof -
    assume a: "may_run (concat nss) (fold_res (\<lambda>f. f) fs)" "may_run ns f"
    have "may_run (concat [ns, concat nss]) (fold_res (\<lambda>f. f) [f, fold_res (\<lambda>f. f) fs])"
      using a by (intro may_run_steps) simp
    moreover have "fold_res (\<lambda>f. f) [f, fold_res (\<lambda>f. f) fs] = fold_res (\<lambda>f. f) (f # fs)"
      by (rule ext) (auto simp: and_then_def split: sum.splits)
    ultimately show ?thesis by simp
  qed
  show ?case unfolding runs_as_def
  proof (intro conjI allI impI m)
    fix st st'
    assume r: "fold_res (\<lambda>f. f) (f # fs) st = Inr st'" and ok: "b_ok st'"
    then obtain u where u: "f st = Inr u" "fold_res (\<lambda>f. f) fs u = Inr st'" by (auto elim: and_then_eq_InrE)
    show "b_log st' = b_log st @ map (\<lambda>a. (a, True)) (concat (ns # nss))"
      using runs_as_ok [OF Cons.IH u(2) ok] runs_as_ok [OF Cons.hyps(1) u(1)] by simp
  qed
qed

lemma keeps_steps: "\<forall>f \<in> set fs. keeps part f \<Longrightarrow> keeps part (fold_res (\<lambda>f. f) fs)"
proof (induction fs)
  case Nil
  then show ?case by (simp add: keeps_def)
next
  case (Cons f fs)
  have k: "keeps part f" "keeps part (fold_res (\<lambda>f. f) fs)" using Cons by auto
  show ?case unfolding keeps_def
  proof (intro allI impI)
    fix st st'
    assume "fold_res (\<lambda>f. f) (f # fs) st = Inr st'"
    then obtain u where u: "f st = Inr u" "fold_res (\<lambda>f. f) fs u = Inr st'" by (auto elim: and_then_eq_InrE)
    show "part st' = part st" using k u unfolding keeps_def by metis
  qed
qed

lemma when_ok_simps [simp]: "b_ok st \<Longrightarrow> when_ok f st = f st" "\<not> b_ok st \<Longrightarrow> when_ok f st = Inr st"
  by (simp_all add: when_ok_def)

lemma when_ok_runs [step_facts]:
  assumes "runs_as ns f"
  shows "runs_as ns (when_ok f)"
  unfolding runs_as_def
proof (intro conjI allI impI)
  show "may_run ns (when_ok f)"
    unfolding may_run_def
  proof (intro allI impI)
    fix st st'
    assume r: "when_ok f st = Inr st'"
    show "\<exists>xs. b_log st' = b_log st @ xs \<and> fst ` set xs \<subseteq> set ns \<and> (b_ok st' \<longleftrightarrow> b_ok st \<and> (\<forall>x \<in> set xs. snd x))"
    proof (cases "b_ok st")
      case True
      then have "f st = Inr st'" using r by simp
      then show ?thesis using assms unfolding runs_as_def may_run_def by blast
    next
      case False
      then have "st' = st" using r by simp
      then show ?thesis using False by (intro exI [of _ "[]"]) simp
    qed
  qed
  fix st st'
  assume r: "when_ok f st = Inr st'" and ok: "b_ok st'"
  have "b_ok st" using r ok by (cases "b_ok st") auto
  then show "b_log st' = b_log st @ map (\<lambda>a. (a, True)) ns" using r ok assms by (simp add: runs_as_def)
qed

lemma when_ok_keeps [step_facts]: "keeps part f \<Longrightarrow> keeps part (when_ok f)"
  by (simp add: keeps_def when_ok_def)

lemma outcome_simps [simp]:
  "b_ok (outcome a ok st) = (b_ok st \<and> ok)" "b_log (outcome a ok st) = b_log st @ [(a, ok)]"
  "b_ckpt (outcome a ok st) = b_ckpt st" "b_jrn (outcome a ok st) = b_jrn st" "b_cap (outcome a ok st) = b_cap st"
  "b_binlog (outcome a ok st) = b_binlog st" "b_mysql (outcome a ok st) = b_mysql st"
  by (simp_all add: outcome_def)

lemma runs_as_one:
  "(\<And>st st'. f st = Inr st' \<Longrightarrow> \<exists>ok. b_log st' = b_log st @ [(a, ok)] \<and> b_ok st' = (b_ok st \<and> ok)) \<Longrightarrow> runs_as [a] f"
  unfolding runs_as_def may_run_def by (fastforce)

lemma runs_as_none:
  "(\<And>st st'. f st = Inr st' \<Longrightarrow> b_log st' = b_log st \<and> b_ok st' = b_ok st) \<Longrightarrow> runs_as [] f"
  unfolding runs_as_def may_run_def by (fastforce)

lemmas step_defs = do_LoadParam_def do_OpenConnection_def do_GetMySQLVersion_def do_SearchJrnPath_def
  do_trace_file_def do_journal_paths_def do_InitParam_def do_OpenCapture_def do_InitReadBinLog_def
  do_StartThread_def do_ReadJournal_def do_StopThread_def do_FreeReadBinLog_def call_proc_def

lemma step_runs [step_facts]:
  "runs_as [A_LoadParam] (do_LoadParam env)" "runs_as [A_OpenConnection] (do_OpenConnection env)"
  "runs_as [A_GetMySQLVersion] (do_GetMySQLVersion env)" "runs_as [A_SearchJrnPath] (do_SearchJrnPath env)"
  "runs_as [A_InitParam] (do_InitParam env)" "runs_as [A_OpenCapture] (do_OpenCapture env)"
  "runs_as [A_InitReadBinLog] (do_InitReadBinLog env)" "runs_as [A_StartThread] (do_StartThread env)"
  "runs_as [A_ReadJournal] (do_ReadJournal env)" "runs_as [A_StopThread] (do_StopThread env)"
  "runs_as [A_FreeReadBinLog] (do_FreeReadBinLog env)"
  by (rule runs_as_one; fastforce simp: step_defs split: prod.splits if_splits elim!: and_then_eq_InrE)+

lemma quiet_runs [step_facts]:
  "runs_as [] do_trace_file" "runs_as [] do_journal_paths" "runs_as [] (\<lambda>st. Inr (st\<lparr>b_threads := g st\<rparr>))"
  "runs_as [] (\<lambda>st. call_proc (b_mysql st) p (Cleanup st))"
  by (rule runs_as_none; auto simp: step_defs Cleanup_def split: if_splits elim!: and_then_eq_InrE)+

lemma libraries_run [step_facts]: "runs_as [A_LoadMySQLLib, A_LoaddbinlogDll] (do_load_libraries env)"
  unfolding runs_as_def may_run_def
  by (fastforce simp: do_load_libraries_def call_proc_def Let_def split: prod.splits if_splits elim!: and_then_eq_InrE)

lemma trace_db_may_run [step_facts]: "may_run [A_TraceDB] (do_trace_db env)"
  by (auto simp: may_run_def do_trace_db_def)

lemma steps_keep_ckpt [step_facts]:
  "keeps b_ckpt (do_LoadParam env)" "keeps b_ckpt (do_load_libraries env)" "keeps b_ckpt (do_OpenConnection env)"
  "keeps b_ckpt (do_GetMySQLVersion env)" "keeps b_ckpt (do_SearchJrnPath env)" "keeps b_ckpt do_trace_file"
  "keeps b_ckpt do_journal_paths" "keeps b_ckpt (do_OpenCapture env)" "keeps b_ckpt (do_InitReadBinLog env)"
  "keeps b_ckpt (do_StartThread env)" "keeps b_ckpt (\<lambda>st. Inr (st\<lparr>b_threads := g st\<rparr>))" "keeps b_ckpt (do_trace_db env)"
  by (auto simp: keeps_def step_defs do_load_libraries_def do_trace_db_def Let_def split: prod.splits if_splits
      elim!: and_then_eq_InrE)

lemma steps_keep_jrn [step_facts]:
  "keeps b_jrn (do_InitParam env)" "keeps b_jrn (do_OpenCapture env)" "keeps b_jrn (do_InitReadBinLog env)"
  "keeps b_jrn (do_StartThread env)" "keeps b_jrn (\<lambda>st. Inr (st\<lparr>b_threads := g st\<rparr>))" "keeps b_jrn (do_trace_db env)"
  by (auto simp: keeps_def step_defs do_trace_db_def Let_def split: prod.splits if_splits elim!: and_then_eq_InrE)

section \<open>The start as a whole\<close>

definition new_ckpt :: "(string \<Rightarrow> char list option) \<Rightarrow> ckpt" where
  "new_ckpt d = \<lparr>disk = d, g_pFileJrnTransact = None, g_stBinLogSeq = zero_seq, g_stBinLogSeqInProgess = zero_seq,
     g_StBinLogSequenceXai = zero_seq, g_nSaveInDiskIndex = 0, g_cSaveInDiskThread = CHR ''X''\<rparr>"

definition no_params :: params where
  "no_params = \<lparr>g_szPathSource = replicate 400 NUL, g_szDataBaseName = replicate 512 NUL, g_szPort = replicate 100 NUL,
     g_iPort = 3306, g_szServer = replicate 400 NUL, g_szDBpub = replicate 400 NUL, settings = [], par_iMaxBufferLine = 0\<rparr>"

text \<open>A new process: the registry, the checkpoint files and the capture files as they are found.\<close>

definition new_boot :: "registry \<Rightarrow> (string \<Rightarrow> char list option) \<Rightarrow> cap \<Rightarrow> threads \<Rightarrow> boot" where
  "new_boot reg d c t = \<lparr>b_ok = True, b_log = [], b_args = no_args, b_params = no_params, b_registry = reg,
     b_mysql = [], b_binlog = [], b_version = 0, b_jrn = replicate 400 NUL, b_ckpt = new_ckpt d, b_cap = c,
     b_threads = t\<rparr>"

definition start_names :: "step_name list" where
  "start_names = [A_SearchArg, A_LoadParam, A_LoadMySQLLib, A_LoaddbinlogDll, A_OpenConnection, A_GetMySQLVersion,
     A_SearchJrnPath, A_InitParam, A_OpenCapture, A_InitReadBinLog, A_StartThread]"

definition all_true :: "step_name list \<Rightarrow> (step_name \<times> bool) list" where
  "all_true ns = map (\<lambda>a. (a, True)) ns"

lemma all_true_append: "all_true (xs @ ys) = all_true xs @ all_true ys"
  by (simp add: all_true_def)

lemma fold_res_snoc: "fold_res f (xs @ [x]) st = and_then (fold_res f xs st) (f x)"
  by (simp add: fold_res_append) (cases "fold_res f xs st"; simp add: and_then_def split: sum.splits)

lemma start_steps_run:
  "runs_as (tl start_names) (fold_res (\<lambda>f. f) (butlast (start_steps env)))"
proof -
  have "runs_as (concat [[A_LoadParam], [A_LoadMySQLLib, A_LoaddbinlogDll], [A_OpenConnection], [A_GetMySQLVersion],
      [A_SearchJrnPath], [], [], [A_InitParam], [A_OpenCapture], [A_InitReadBinLog], [A_StartThread], []])
    (fold_res (\<lambda>f. f) (butlast (start_steps env)))"
    by (rule runs_as_steps) (simp add: start_steps_def step_facts)
  then show ?thesis by (simp add: start_names_def)
qed

lemma start_steps_last: "start_steps env = butlast (start_steps env) @ [do_trace_db env]"
  by (simp add: start_steps_def)

lemma fold_start_steps:
  "fold_res (\<lambda>f. f) (start_steps env) st = and_then (fold_res (\<lambda>f. f) (butlast (start_steps env)) st) (do_trace_db env)"
  by (metis start_steps_last fold_res_snoc)

text \<open>The log and the result of a start.\<close>

lemma start_up_log:
  assumes "start_up env argument (new_boot reg d c t) = Inr (started, st)"
  shows "fst ` set (b_log st) \<subseteq> insert A_TraceDB (set start_names)" and "b_ok st \<longleftrightarrow> (\<forall>x \<in> set (b_log st). snd x)"
    and "b_ok st \<Longrightarrow> started \<and> (\<exists>ys. b_log st = all_true start_names @ ys)"
proof -
  let ?st = "\<lambda>ok a. outcome A_SearchArg ok ((InitGlobal (new_boot reg d c t))\<lparr>b_args := a\<rparr>)"
  have i: "b_log (?st ok a) = [(A_SearchArg, ok)] \<and> b_ok (?st ok a) = ok" for ok a
    by (simp add: InitGlobal_def new_boot_def)
  obtain ok a where s: "SearchArg argument no_args = Inr (ok, a)"
    using assms by (auto simp: start_up_def new_boot_def elim: and_then_eq_InrE)
  have "fst ` set (b_log st) \<subseteq> insert A_TraceDB (set start_names) \<and> (b_ok st \<longleftrightarrow> (\<forall>x \<in> set (b_log st). snd x))
    \<and> (b_ok st \<longrightarrow> started \<and> (\<exists>ys. b_log st = all_true start_names @ ys))"
  proof (cases ok)
    case False
    then have "st = ?st ok a" "\<not> started"
      using assms s by (simp_all add: start_up_def Let_def new_boot_def)
    then show ?thesis using i [of ok a] False by (auto simp: start_names_def)
  next
    case True
    obtain u where u: "fold_res (\<lambda>f. f) (butlast (start_steps env)) (?st ok a) = Inr u" "do_trace_db env u = Inr st"
      and started
      using assms s True
      by (auto simp: start_up_def Let_def new_boot_def fold_start_steps elim!: and_then_eq_InrE)
    obtain xs where xs: "b_log u = b_log (?st ok a) @ xs" "fst ` set xs \<subseteq> set (tl start_names)"
      "b_ok u \<longleftrightarrow> b_ok (?st ok a) \<and> (\<forall>x \<in> set xs. snd x)"
      using start_steps_run [of env] u(1) unfolding runs_as_def may_run_def by metis
    obtain ys where ys: "b_log st = b_log u @ ys" "fst ` set ys \<subseteq> {A_TraceDB}"
      "b_ok st \<longleftrightarrow> b_ok u \<and> (\<forall>x \<in> set ys. snd x)"
      using trace_db_may_run [of env] u(2) unfolding may_run_def by (metis empty_set list.simps(15))
    have n: "set (tl start_names) \<subseteq> set start_names" "A_SearchArg \<in> set start_names"
      by (simp_all add: start_names_def)
    have "b_log st = all_true start_names @ ys" if "b_ok st"
      using runs_as_ok [OF start_steps_run u(1)] that ys i [of ok a] True
      by (simp add: all_true_def start_names_def)
    then have "b_ok st \<longrightarrow> started \<and> (\<exists>ys. b_log st = all_true start_names @ ys)" using \<open>started\<close> by blast
    moreover have "fst ` set (b_log st) \<subseteq> insert A_TraceDB (set start_names)"
      "b_ok st \<longleftrightarrow> (\<forall>x \<in> set (b_log st). snd x)"
      using xs ys i [of ok a] True n by auto
    ultimately show ?thesis by blast
  qed
  then show "fst ` set (b_log st) \<subseteq> insert A_TraceDB (set start_names)" "b_ok st \<longleftrightarrow> (\<forall>x \<in> set (b_log st). snd x)"
    "b_ok st \<Longrightarrow> started \<and> (\<exists>ys. b_log st = all_true start_names @ ys)"
    by blast+
qed

section \<open>The checkpoint at the start\<close>

lemma InitParam_ready:
  assumes "InitParam openable jrn k = Inr (True, k')"
  shows "openable Mode_r (xai_path jrn) \<Longrightarrow> restart_seq jrn k = Some (g_stBinLogSeq k')"
    and "restart_seq jrn k' = Some (g_stBinLogSeq k')" and "xai_open jrn k'" and "wf_seq (g_stBinLogSeq k')" and "g_stBinLogSeqInProgess k' = g_stBinLogSeqInProgess k"
proof -
  have l: "length (xai_path jrn) < 400" using assms by (auto simp: InitParam_def elim: and_then_eq_InrE)
  have z: "length (bytes_of_seq zero_seq) = 58" by (simp add: bytes_of_seq_def zero_seq_def)
  have w: "wf_seq (seq_of_bytes (overwrite (take SEQ_LEN c) (bytes_of_seq zero_seq)))" for c
    using z by (simp add: wf_seq_def seq_of_bytes_def overwrite_def SEQ_LEN_def)
  show "openable Mode_r (xai_path jrn) \<Longrightarrow> restart_seq jrn k = Some (g_stBinLogSeq k')"
    "restart_seq jrn k' = Some (g_stBinLogSeq k')" "xai_open jrn k'" "wf_seq (g_stBinLogSeq k')" "g_stBinLogSeqInProgess k' = g_stBinLogSeqInProgess k"
    using assms l w seq_of_bytes_of_seq [of zero_seq "[]"]
    by (auto simp: InitParam_def FileExist_def restart_seq_def xai_open_def Let_def overwrite_def wf_seq_def zero_seq_def
        split: if_splits)
qed

text \<open>A start that succeeds, divided at the reading of the checkpoint.\<close>

lemma start_up_init_param:
  assumes "start_up env argument (new_boot reg d c t) = Inr (started, st)" and "b_ok st"
  obtains jrn where "jrn = cstr (b_jrn st)" "InitParam (e_xai_open env) jrn (new_ckpt d) = Inr (True, b_ckpt st)"
proof -
  have started using start_up_log(3) [OF assms] by simp
  let ?pre = "take 7 (start_steps env)" and ?post = "drop 8 (start_steps env)"
  have split: "start_steps env = ?pre @ when_ok (do_InitParam env) # ?post"
    by (simp add: start_steps_def)
  obtain a where f: "fold_res (\<lambda>f. f) (start_steps env)
      (outcome A_SearchArg True ((InitGlobal (new_boot reg d c t))\<lparr>b_args := a\<rparr>)) = Inr st"
    using assms(1) \<open>started\<close> by (auto simp: start_up_def Let_def elim!: and_then_eq_InrE split: if_splits)
  obtain u1 u2 where u: "fold_res (\<lambda>f. f) ?pre (outcome A_SearchArg True ((InitGlobal (new_boot reg d c t))\<lparr>b_args := a\<rparr>)) = Inr u1"
    "when_ok (do_InitParam env) u1 = Inr u2" "fold_res (\<lambda>f. f) ?post u2 = Inr st"
    using f by (subst (asm) split) (auto simp: fold_res_append elim!: and_then_eq_InrE)
  have k: "keeps b_ckpt (fold_res (\<lambda>f. f) ?pre)" "keeps b_ckpt (fold_res (\<lambda>f. f) ?post)" "keeps b_jrn (fold_res (\<lambda>f. f) ?post)"
    by (rule keeps_steps; simp add: start_steps_def step_facts)+
  have m: "may_run [A_OpenCapture, A_InitReadBinLog, A_StartThread, A_TraceDB] (fold_res (\<lambda>f. f) ?post)"
  proof -
    have "may_run (concat [[A_OpenCapture], [A_InitReadBinLog], [A_StartThread], [], [A_TraceDB]]) (fold_res (\<lambda>f. f) ?post)"
      by (rule may_run_steps) (simp add: start_steps_def step_facts)
    then show ?thesis by simp
  qed
  have ok2: "b_ok u2" using m u(3) assms(2) unfolding may_run_def by blast
  then have ok1: "b_ok u1" using u(2) by (cases "b_ok u1") auto
  have c1: "b_ckpt u1 = new_ckpt d"
    using k(1) u(1) by (simp add: keeps_def InitGlobal_def new_boot_def new_ckpt_def)
  have c2: "b_ckpt st = b_ckpt u2" "b_jrn st = b_jrn u2" using k(2,3) u(3) unfolding keeps_def by metis+
  have "b_jrn u2 = b_jrn u1" using steps_keep_jrn(1) u(2) ok1 unfolding keeps_def by (metis when_ok_simps(1))
  then have "InitParam (e_xai_open env) (cstr (b_jrn st)) (new_ckpt d) = Inr (True, b_ckpt st)"
    using u(2) ok1 ok2 c1 c2 by (auto simp: do_InitParam_def c_string_eq_Inr elim!: and_then_eq_InrE)
  then show thesis using that by blast
qed

lemma start_up_ckpt_in:
  assumes "start_up env argument (new_boot reg d c t) = Inr (started, st)" and "b_ok st"
  shows "ckpt_in (cstr (b_jrn st)) [seq_pos zero_seq, seq_pos (g_stBinLogSeq (b_ckpt st))] (b_ckpt st)"
    and "e_xai_open env Mode_r (xai_path (cstr (b_jrn st)))
      \<Longrightarrow> restart_seq (cstr (b_jrn st)) (new_ckpt d) = Some (g_stBinLogSeq (b_ckpt st))"
proof -
  from start_up_init_param [OF assms]
  have i: "InitParam (e_xai_open env) (cstr (b_jrn st)) (new_ckpt d) = Inr (True, b_ckpt st)" by metis
  note r = InitParam_ready [OF i]
  show "e_xai_open env Mode_r (xai_path (cstr (b_jrn st)))
      \<Longrightarrow> restart_seq (cstr (b_jrn st)) (new_ckpt d) = Some (g_stBinLogSeq (b_ckpt st))" by (rule r(1))
  show "ckpt_in (cstr (b_jrn st)) [seq_pos zero_seq, seq_pos (g_stBinLogSeq (b_ckpt st))] (b_ckpt st)"
    using r(2-5) by (simp add: ckpt_in_def new_ckpt_def wf_seq_def zero_seq_def)
qed

section \<open>Properties\<close>

text \<open>C24: the logs are read only when everything that has to be ready is ready: if a run reached
  \<open>ReadJournal\<close>, all steps of the start had been made, in order, and had succeeded. The exit code
  of a run is zero exactly if no step failed, and then the logs were read.\<close>

theorem capture_only_when_ready:
  assumes "run_capture env argument (new_boot reg d c t) = Inr (code, st)"
  shows "(A_ReadJournal \<in> fst ` set (b_log st) \<longrightarrow> (\<exists>ys. b_log st = all_true start_names @ ys))
    \<and> (code = 0 \<longleftrightarrow> (\<forall>x \<in> set (b_log st). snd x))
    \<and> (code = 0 \<longrightarrow> (A_ReadJournal, True) \<in> set (b_log st))"
proof -
  obtain started u where s: "start_up env argument (new_boot reg d c t) = Inr (started, u)"
    using assms by (auto simp: run_capture_def elim: and_then_eq_InrE)
  note l = start_up_log [OF s]
  have no: "A_ReadJournal \<notin> fst ` set (b_log u)" using l(1) by (auto simp: start_names_def)
  show ?thesis
  proof (cases started)
    case False
    then have "st = u" "code = 1" "\<not> b_ok u" using assms s l(3) by (auto simp: run_capture_def)
    then show ?thesis using no l(2) by auto
  next
    case True
    have e: "runs_as (concat [[A_ReadJournal], [A_StopThread], [A_FreeReadBinLog], []]) (fold_res (\<lambda>f. f) (end_steps env))"
      by (rule runs_as_steps) (simp add: end_steps_def step_facts)
    have f: "fold_res (\<lambda>f. f) (end_steps env) u = Inr st" and code: "code = (if b_ok st then 0 else 1)"
      using assms s True by (auto simp: run_capture_def elim!: and_then_eq_InrE)
    obtain xs where xs: "b_log st = b_log u @ xs" "b_ok st \<longleftrightarrow> b_ok u \<and> (\<forall>x \<in> set xs. snd x)"
      using e f unfolding runs_as_def may_run_def by metis
    have r: "b_log st = b_log u" if "\<not> b_ok u"
    proof -
      have "when_ok g v = Inr w \<Longrightarrow> \<not> b_ok v \<Longrightarrow> w = v" for g v w by simp
      then show ?thesis using f that by (auto simp: end_steps_def call_proc_def Cleanup_def split: if_splits)
    qed
    have "\<exists>ys. b_log st = all_true start_names @ ys" if "A_ReadJournal \<in> fst ` set (b_log st)"
    proof -
      have "b_ok u" using r no that by auto
      then show ?thesis using l(3) xs(1) by auto
    qed
    moreover have "(A_ReadJournal, True) \<in> set (b_log st)" if "b_ok st"
      using runs_as_ok [OF e f that] by simp
    ultimately show ?thesis using code xs l(2) by auto
  qed
qed

text \<open>A run in which everything succeeds: the registry has the three entries that must exist and
  does not let others be created, there is no checkpoint and no capture file yet.\<close>

definition demo_reg :: registry where
  "demo_reg = \<lparr>reg_sections = \<lambda>s. True,
     reg_values = \<lambda>s k. if k = ''PathSource'' then Some (REG_SZ, ''c:'')
                       else if k = ''Repository'' then Some (REG_SZ, ''r.db3'')
                       else if k = ''Port'' then Some (REG_SZ, ''3306'') else None\<rparr>"

definition demo_boot_env :: env where
  "demo_boot_env = \<lparr>e_reg = demo_reg_env\<lparr>may_create := \<lambda>s. False\<rparr>, e_alloc = \<lambda>n. True,
     e_dll = \<lambda>s. \<lparr>dll_present = True, dll_has = \<lambda>p. True\<rparr>, e_init_db = True, e_connect = \<lambda>h u p n. True,
     e_version = \<lparr>va_exec_ok = True, va_result_ok = True, va_row = Some (Some ''10.3.23-MariaDB-log'')\<rparr>,
     e_journal = Jrn_field (Some (''d:'' @ CHR 0x5C # ''j'')), e_xai_open = \<lambda>_ _. True, e_io = demo_env, e_listing = [],
     e_init_reader = OK_CONTINUE,
     e_os = \<lparr>os_pipe = True, os_dup = True, os_thread = True, os_named_pipe = True, os_pipe_thread = True\<rparr>,
     e_trace_db = True, e_capture = \<lambda>x. x, e_stop = (True, WAIT_OBJECT_0, True, 0), e_free_reader = OK_CONTINUE\<rparr>"

definition demo_new_boot :: "(string \<Rightarrow> char list option) \<Rightarrow> boot" where
  "demo_new_boot d = new_boot demo_reg d demo_cap (new_threads True True True)"

definition demo_argument :: "char list" where
  "demo_argument = argument_at ''srv@db/shop/cdc/secret'' (replicate 2000 (CHR ''x''))"

lemma demo_get:
  assumes "length (reg_entry sect) < 512"
  shows "GetRegistryValue (demo_reg_env\<lparr>may_create := m\<rparr>) demo_reg sect k t pd =
    Inr (case reg_values demo_reg (reg_entry sect) k of None \<Rightarrow> (False, pd)
         | Some (t', d) \<Rightarrow> if length pd < length d then (False, take (length pd) (d @ pd))
                          else (t = t', d @ drop (length d) pd))"
  using assms by (auto simp: GetRegistryValue_def demo_reg_def demo_reg_env_def)

lemma demo_reg_values:
  "reg_values demo_reg s k = (if k = ''PathSource'' then Some (REG_SZ, ''c:'')
     else if k = ''Repository'' then Some (REG_SZ, ''r.db3'') else if k = ''Port'' then Some (REG_SZ, ''3306'') else None)"
  by (simp add: demo_reg_def)

lemma demo_set:
  assumes "length (reg_entry sect) < 512"
  shows "SetRegistryValue (demo_reg_env\<lparr>may_create := \<lambda>s. False\<rparr>) reg sect k t d = Inr (False, reg)"
  using assms by (simp add: SetRegistryValue_def)

lemma demo_settings:
  assumes "length (reg_entry sect) < 512"
  shows "read_settings (e_reg demo_boot_env) sect param_table demo_reg =
    Inr ([Long_value 0, Long_value 0, Long_value 0, Long_value 10, Long_value 0, Long_value 0, Long_value 0,
          String_value (zero_pad 512 ''ddBinlogLib''), String_value (zero_pad 512 ''ddMySql''), Long_value 33,
          Long_value 0, Long_value 0], demo_reg)"
  using assms
  by (simp add: param_table_def read_setting_def ReadOrCreateRegistryLong_def ReadOrCreateRegistryString_def demo_get
      demo_boot_env_def demo_reg_values demo_set zero_pad_def strcpy_arr_zeros)

lemma c_string_zero_pad [simp]: "NUL \<notin> set s \<Longrightarrow> length s < n \<Longrightarrow> c_string what (zero_pad n s) = Inr s"
  unfolding zero_pad_def by (rule c_string_zeros) simp_all

definition demo_args :: args where
  "demo_args = \<lparr>g_szInstance = zero_pad 400 ''srv@db'', g_szSchema = zero_pad 400 ''shop'',
                g_szUser = zero_pad 100 ''cdc'', g_szPassword = zero_pad 100 ''secret''\<rparr>"

lemma demo_SearchArg:
  "SearchArg demo_argument no_args = Inr (True, demo_args)"
proof -
  have n: "NUL \<notin> set ''shop/cdc/secret''" by simp
  show ?thesis
    using SearchArg_first [of "''srv@db''", OF _ _ n, of "replicate 2000 (CHR ''x'')"]
      schema_and_rest_first [of "''shop''" "''cdc/secret''"] user_and_password_full [of "''cdc''" "''secret''"]
    by (simp add: is_part_def argument_at_def demo_args_def demo_argument_def)
qed

definition demo_params :: params where
  "demo_params = \<lparr>g_szPathSource = zero_pad 400 ''c:'', g_szDataBaseName = zero_pad 512 ''r.db3'',
     g_szPort = zero_pad 100 ''3306'', g_iPort = 3306, g_szServer = zero_pad 400 ''srv'', g_szDBpub = zero_pad 400 ''shop'',
     settings = [Long_value 0, Long_value 0, Long_value 0, Long_value 10, Long_value 0, Long_value 0, Long_value 0,
          String_value (zero_pad 512 ''ddBinlogLib''), String_value (zero_pad 512 ''ddMySql''), Long_value 33,
          Long_value 0, Long_value 0], par_iMaxBufferLine = 33 * 1024\<rparr>"

lemma table_values:
  "long_value (v0 # vs) 0 = (case v0 of Long_value w \<Rightarrow> w | String_value s \<Rightarrow> 0)"
  "long_value [v0, v1, v2, v3, v4, v5, v6, v7, v8, Long_value w, v10, v11] 9 = w"
  "long_value [v0, v1, v2, v3, Long_value w, v5, v6, v7, v8, v9, v10, v11] 4 = w"
  "long_value [v0, v1, v2, v3, v4, v5, v6, v7, v8, v9, Long_value w, v11] 10 = w"
  "string_value [v0, v1, v2, v3, v4, v5, v6, String_value s, v8, v9, v10, v11] 7 = s"
  "string_value [v0, v1, v2, v3, v4, v5, v6, v7, String_value s, v9, v10, v11] 8 = s"
  by (simp_all add: numeral_eq_Suc)

lemma demo_LoadParam:
  "LoadParam (e_reg demo_boot_env) (e_alloc demo_boot_env) (g_szInstance demo_args) (g_szSchema demo_args)
     (g_szUser demo_args) demo_reg = Inr (True, demo_params, demo_reg)"
proof -
  have e: "e_reg demo_boot_env = demo_reg_env\<lparr>may_create := \<lambda>s. False\<rparr>" by (simp add: demo_boot_env_def)
  have s: "length (reg_entry (instance_section ''srv@db'')) < 512" "length (instance_section ''srv@db'') < 255"
    by (simp_all add: reg_entry_def instance_section_def)
  have srv: "server_name ''srv@db'' = Inr (zero_pad 400 ''srv'')"
    by (simp add: server_name_def strchr_def copy_in_def drop_replicate zero_pad_def)
  have g: "GetRegistryString (e_reg demo_boot_env) demo_reg global_section ''PathSource'' (replicate 400 NUL)
      = Inr (True, zero_pad 400 ''c:'')"
    "GetRegistryString (e_reg demo_boot_env) demo_reg (instance_section ''srv@db'') ''Repository'' (replicate 512 NUL)
      = Inr (True, zero_pad 512 ''r.db3'')"
    "GetRegistryString (e_reg demo_boot_env) demo_reg (instance_section ''srv@db'') ''Port'' (replicate 100 NUL)
      = Inr (True, zero_pad 100 ''3306'')"
    using s by (simp_all add: e GetRegistryString_def demo_get reg_entry_def global_section_def demo_reg_values
        drop_replicate zero_pad_def)
  have p: "atol ''3306'' = 3306"
    by (simp add: atol_def is_space_def is_digit_def digit_val_def long_max_def long_min_def)
  have d: "strcpy_arr ''g_szDBpub'' (replicate 400 NUL) ''shop'' = Inr (zero_pad 400 ''shop'')"
    by (simp add: strcpy_arr_zeros zero_pad_def)
  have al: "e_alloc demo_boot_env n" for n by (simp add: demo_boot_env_def)
  show ?thesis
    using s
    by (simp add: LoadParam_def demo_args_def g srv p d demo_settings [OF s(1)] Let_def param_message_def
        demo_params_def al table_values)
qed

lemma load_procs_all [simp]: "load_procs (\<lambda>p. True) ps = (True, ps)"
  by (induction ps) auto

lemma demo_dlls:
  "dll_name (g_szDbDriverName demo_params) = Inr ''ddMySql.dll''" "dll_name (g_szBinlogLibName demo_params) = Inr ''ddBinlogLib.dll''"
  "LoadMySQLLib (e_dll demo_boot_env n) = (True, mysql_procs)" "LoaddbinlogDll (e_dll demo_boot_env n) = (True, binlog_procs)"
  by (simp_all add: dll_name_def demo_params_def table_values LoadMySQLLib_def LoaddbinlogDll_def demo_boot_env_def)

lemma demo_procs:
  "call_proc binlog_procs ''InitMySql'' z = Inr z" "call_proc binlog_procs ''MySetTrace'' z = Inr z"
  "call_proc binlog_procs ''InitRemoteReadBinLog'' z = Inr z" "call_proc binlog_procs ''FreeReadBinLog'' z = Inr z"
  "call_proc mysql_procs ''MyFreeDB'' z = Inr z"
  by (simp_all add: call_proc_def binlog_procs_def mysql_procs_def)

definition demo_jrn :: string where
  "demo_jrn = ''d:'' @ CHR 0x5C # ''j''"

lemma demo_SearchJrnPath:
  "SearchJrnPath (e_journal demo_boot_env) (g_szPathSource demo_params) (g_szDataBaseName demo_params)
     (g_szSchema demo_args) (replicate 400 NUL) = Inr (True, zero_pad 400 demo_jrn)"
proof -
  have n: "tolowerStr ''r.db3'' 512 = ''r.db3''" by (simp add: tolowerStr_def to_lower_def)
  have g: "GetRepositoryFullPathName ''c:'' ''r.db3'' = Inr (''c:'' @ CHR 0x5C # ''r.db3'')"
    by (simp add: GetRepositoryFullPathName_def n strrchr_def Let_def)
  have c: "cpyrtrim (replicate 400 NUL) (demo_jrn @ [NUL]) (length demo_jrn) = Inr (zero_pad 400 demo_jrn)"
    by (simp add: cpyrtrim_def demo_jrn_def zero_pad_def Let_def drop_replicate numeral_eq_Suc)
  have j: "e_journal demo_boot_env = Jrn_field (Some demo_jrn)" by (simp add: demo_boot_env_def demo_jrn_def)
  show ?thesis using c
    by (simp add: SearchJrnPath_def demo_params_def demo_args_def g j Let_def) (simp add: demo_jrn_def)
qed

lemma demo_journal_paths:
  "journal_paths demo_jrn = Inr (''d:'' @ CHR 0x5C # ''WORKING_AREA'' @ CHR 0x5C # ''j'')"
  by (simp add: journal_paths_def demo_jrn_def strrchr_def MAX_PATH_def)

lemma demo_InitParam: "\<exists>k. InitParam (e_xai_open demo_boot_env) demo_jrn (new_ckpt d) = Inr (True, k)"
  by (simp add: InitParam_def FileExist_def demo_boot_env_def new_ckpt_def xai_path_def demo_jrn_def Let_def)

lemma demo_OpenCapture:
  assumes "g_szJrn_WithoutExtention k = ''d:'' @ CHR 0x5C # ''WORKING_AREA'' @ CHR 0x5C # ''j''"
  shows "\<exists>k'. OpenCapture (e_io demo_boot_env) (e_listing demo_boot_env) False k = Inr (True, k')"
proof -
  have e: "e_io demo_boot_env = demo_env" "e_listing demo_boot_env = []" by (simp_all add: demo_boot_env_def)
  show ?thesis
    by (simp add: OpenCapture_def close_last_def BuildCaptureList_def open_new_def e demo_env_def assms MAX_PATH_def
        strrchr_def length_capture_path Let_def)
qed

lemma demo_version:
  "GetMySQLVersion (e_version demo_boot_env) old = Inr (True, ''10.3.23-MariaDB-log'', 10323)"
  by (simp add: GetMySQLVersion_def strrchr_def version_digits_def atol_def is_space_def is_digit_def
      digit_val_def long_max_def long_min_def Let_def demo_boot_env_def)

lemma demo_connection:
  "b_params st = demo_params \<Longrightarrow> b_args st = demo_args \<Longrightarrow> OpenConnection demo_boot_env st = Inr True"
  by (simp add: OpenConnection_def demo_params_def demo_args_def) (simp add: demo_boot_env_def)

lemma demo_threads:
  "\<exists>t'. StartThread (e_os demo_boot_env) (new_threads True True True) = (True, t')"
  by (simp add: StartThread_def demo_boot_env_def new_threads_def new_event_def CheckEvent_def Let_def)

lemma new_boot_simps [simp]:
  "InitGlobal (new_boot reg d c t) = new_boot reg d c t" "b_ok (new_boot reg d c t)" "b_log (new_boot reg d c t) = []"
  "b_args (new_boot reg d c t) = no_args" "b_registry (new_boot reg d c t) = reg" "b_version (new_boot reg d c t) = 0"
  "b_jrn (new_boot reg d c t) = replicate 400 NUL" "b_ckpt (new_boot reg d c t) = new_ckpt d"
  "b_cap (new_boot reg d c t) = c" "b_threads (new_boot reg d c t) = t"
  by (simp_all add: InitGlobal_def new_boot_def new_ckpt_def)

lemma demo_start_up:
  "\<exists>st. start_up demo_boot_env demo_argument (demo_new_boot d)
      = Inr (True, st) \<and> b_ok st \<and> b_mysql st = mysql_procs \<and> b_binlog st = binlog_procs \<and> b_jrn st = zero_pad 400 demo_jrn"
proof -
  have j: "c_string w (zero_pad 400 demo_jrn) = Inr demo_jrn" for w by (simp add: demo_jrn_def)
  have q: "sint (par_lTraceBinLog demo_params) = 0" "g_lActivateTrace demo_params = 0"
    "sint (par_lCaptureAndProcess demo_params) = 0"
    by (simp_all add: demo_params_def table_values)
  obtain k' where k': "OpenCapture (e_io demo_boot_env) (e_listing demo_boot_env) False
      (demo_cap\<lparr>g_lCaptureAndProcess := 0, g_szJrn_WithoutExtention := ''d:'' @ CHR 0x5C # ''WORKING_AREA'' @ CHR 0x5C # ''j''\<rparr>) = Inr (True, k')"
    using demo_OpenCapture [of "demo_cap\<lparr>g_lCaptureAndProcess := 0, g_szJrn_WithoutExtention := ''d:'' @ CHR 0x5C # ''WORKING_AREA'' @ CHR 0x5C # ''j''\<rparr>"]
    by auto
  obtain k2 where k2: "InitParam (e_xai_open demo_boot_env) demo_jrn (new_ckpt d) = Inr (True, k2)"
    using demo_InitParam by blast
  obtain t' where t': "StartThread (e_os demo_boot_env) (new_threads True True True) = (True, t')"
    using demo_threads by blast
  have r: "e_init_reader demo_boot_env = OK_CONTINUE" by (simp add: demo_boot_env_def)
  show ?thesis
    by (simp add: start_up_def demo_SearchArg start_steps_def outcome_def when_ok_def step_defs(1-10) do_load_libraries_def
        do_trace_db_def demo_LoadParam demo_dlls demo_procs demo_connection demo_version demo_SearchJrnPath
        demo_journal_paths k2 q j k' [simplified] t' r demo_new_boot_def Let_def)
qed

theorem capture_only_when_ready_witness:
  "\<exists>st. run_capture demo_boot_env demo_argument (demo_new_boot (\<lambda>s. None))
      = Inr (0, st) \<and> (A_ReadJournal, True) \<in> set (b_log st) \<and> (\<exists>ys. b_log st = all_true start_names @ ys)"
proof -
  obtain u where u: "start_up demo_boot_env demo_argument (demo_new_boot (\<lambda>s. None)) = Inr (True, u)" "b_ok u" "b_mysql u = mysql_procs"
    "b_binlog u = binlog_procs"
    using demo_start_up by blast
  have e: "e_capture demo_boot_env = (\<lambda>x. x)" "e_stop demo_boot_env = (True, WAIT_OBJECT_0, True, 0)"
    "e_free_reader demo_boot_env = OK_CONTINUE"
    by (simp_all add: demo_boot_env_def)
  obtain t where t: "StopThread True WAIT_OBJECT_0 True 0 (b_threads u) = (True, t)"
    using StopThread_ignores_event [of True WAIT_OBJECT_0 True 0 "b_threads u"]
    by (cases "StopThread True WAIT_OBJECT_0 True 0 (b_threads u)") (auto simp: STILL_ACTIVE_def)
  obtain st where s: "run_capture demo_boot_env demo_argument (demo_new_boot (\<lambda>s. None)) = Inr (0, st)"
    using u t e by (simp add: run_capture_def end_steps_def do_ReadJournal_def do_StopThread_def do_FreeReadBinLog_def
        demo_procs outcome_def Cleanup_def)
  from capture_only_when_ready [OF s [unfolded demo_new_boot_def]] s show ?thesis by force
qed

text \<open>If the library of the reader is missing, or lacks \<open>InitMySql\<close>, the capture does not end
  with the error that it has reported: it calls the function through a null pointer.\<close>

theorem missing_library_crashes:
  assumes "SearchArg argument no_args = Inr (True, a)"
    and "do_LoadParam env (outcome A_SearchArg True ((new_boot reg d c t)\<lparr>b_args := a\<rparr>)) = Inr u"
    and "dll_name (g_szDbDriverName (b_params u)) = Inr driver"
    and "dll_name (g_szBinlogLibName (b_params u)) = Inr reader"
    and "\<not> dll_present (e_dll env reader) \<or> \<not> dll_has (e_dll env reader) ''InitMySql''"
  shows "start_up env argument (new_boot reg d c t) = Inl (Null_pointer ''InitMySql'')"
proof -
  have "b_ok (outcome A_SearchArg True ((new_boot reg d c t)\<lparr>b_args := a\<rparr>))" by (simp add: new_boot_def)
  moreover have "''InitMySql'' \<notin> set (snd (LoaddbinlogDll (e_dll env reader)))"
    using assms(5) by (auto simp: LoaddbinlogDll_def binlog_procs_def split: prod.splits)
  moreover have "b_params (st\<lparr>b_mysql := p\<rparr>) = b_params st" "b_params (outcome x ok st) = b_params st" for st p x ok
    by (simp_all add: outcome_def)
  ultimately show ?thesis
    using assms(1-4) by (auto simp: start_up_def start_steps_def do_load_libraries_def call_proc_def Let_def split: prod.splits)
qed

theorem missing_library_crashes_witness:
  "start_up (demo_boot_env\<lparr>e_dll := \<lambda>n. \<lparr>dll_present = False, dll_has = \<lambda>p. False\<rparr>\<rparr>)
     demo_argument (demo_new_boot (\<lambda>s. None)) = Inl (Null_pointer ''InitMySql'')"
proof -
  let ?env = "demo_boot_env\<lparr>e_dll := \<lambda>n. \<lparr>dll_present = False, dll_has = \<lambda>p. False\<rparr>\<rparr>"
  obtain u where u: "do_LoadParam ?env (outcome A_SearchArg True
      ((new_boot demo_reg (\<lambda>s. None) demo_cap (new_threads True True True))\<lparr>b_args := demo_args\<rparr>)) = Inr u"
    "b_params u = demo_params"
    by (simp add: do_LoadParam_def demo_LoadParam outcome_def)
  show ?thesis
    using missing_library_crashes [OF demo_SearchArg u(1), of "''ddMySql.dll''" "''ddBinlogLib.dll''"] u(2)
    by (simp add: demo_new_boot_def demo_dlls)
qed

end
