(* ===== verification/Driver.thy ===== *)
theory Driver
  imports Startup
begin

text \<open>
  The database driver \<open>ddMariadb.cpp\<close>, a thin layer over the client library of the server, and the
  questions of the capture as the calls of the driver that they are: \<open>LoadBinLog\<close>,
  \<open>LoadMasterStatus\<close>, \<open>GetMySQLVersion\<close> and \<open>OpenConnection\<close> of the capture. The lemmas show
  that these sequences of calls refine the definitions of \<open>Journal\<close>, \<open>Arguments\<close> and \<open>Startup\<close>,
  in which the answer of the server is one value.

  The client library is a parameter: a record of its functions over a state of any type, with the
  names of \<open>mysql.h\<close>. Messages under \<open>verbosity\<close> are left out.
\<close>

section \<open>The client library\<close>

text \<open>A connection and a result are non-null pointers, a row is a list of columns, where \<open>NULL\<close> is
  \<open>None\<close>.\<close>

type_synonym row = "string option list"

record 'c client =
  mysql_init :: "'c \<Rightarrow> nat option \<times> 'c"
  mysql_options :: "nat \<Rightarrow> string \<Rightarrow> 'c \<Rightarrow> 'c"
  mysql_real_connect :: "nat \<Rightarrow> string \<Rightarrow> string \<Rightarrow> string \<Rightarrow> int \<Rightarrow> 'c \<Rightarrow> bool \<times> 'c"
  mysql_close :: "nat \<Rightarrow> 'c \<Rightarrow> 'c"
  mariadb_cancel :: "'c \<Rightarrow> 'c"
  mysql_error :: "nat \<Rightarrow> 'c \<Rightarrow> string option"
  mysql_errno :: "nat \<Rightarrow> 'c \<Rightarrow> u32"
  mysql_sqlstate :: "nat \<Rightarrow> 'c \<Rightarrow> string option"
  mysql_query :: "nat option \<Rightarrow> string \<Rightarrow> 'c \<Rightarrow> int \<times> 'c"
  mysql_use_result :: "nat \<Rightarrow> 'c \<Rightarrow> nat option \<times> 'c"
  mysql_fetch_row :: "nat \<Rightarrow> 'c \<Rightarrow> row option \<times> 'c"
  mysql_free_result :: "nat \<Rightarrow> 'c \<Rightarrow> 'c"
  mysql_affected_rows :: "nat option \<Rightarrow> 'c \<Rightarrow> 64 word"
  mysql_info :: "nat \<Rightarrow> 'c \<Rightarrow> string option"
  mysql_num_rows :: "nat \<Rightarrow> 'c \<Rightarrow> 64 word"
  mysql_num_fields :: "nat \<Rightarrow> 'c \<Rightarrow> u32"
  mysql_fetch_lengths :: "nat \<Rightarrow> 'c \<Rightarrow> u32 list option"
  mysql_fetch_fields :: "nat \<Rightarrow> 'c \<Rightarrow> string list option"

section \<open>Results of the driver\<close>

definition mySUCCESS :: int where "mySUCCESS = 0"
definition myERROR_HANDLE_CONNECTION :: int where "myERROR_HANDLE_CONNECTION = -1"
definition myERROR_HANDLE_QUERY :: int where "myERROR_HANDLE_QUERY = -2"
definition myERROR_HANDLE_MSG :: int where "myERROR_HANDLE_MSG = -3"
definition myERROR_HANDLE_RESULT :: int where "myERROR_HANDLE_RESULT = -4"
definition myERROR_HANDLE_INIT :: int where "myERROR_HANDLE_INIT = -5"
definition myERROR_HANDLE_ROW :: int where "myERROR_HANDLE_ROW = -6"
definition myERROR_NO_DATA :: int where "myERROR_NO_DATA = -8"
definition myERROR_PARAM :: int where "myERROR_PARAM = -9"

lemmas driver_codes = mySUCCESS_def myERROR_HANDLE_CONNECTION_def myERROR_HANDLE_QUERY_def
  myERROR_HANDLE_MSG_def myERROR_HANDLE_RESULT_def myERROR_HANDLE_INIT_def myERROR_HANDLE_ROW_def
  myERROR_NO_DATA_def myERROR_PARAM_def

text \<open>The value through a handle, and the result that most functions compute from the handle and
  that value.\<close>

definition through :: "'h option \<Rightarrow> ('h \<Rightarrow> 'a option) \<Rightarrow> 'a option" where
  "through handle f = (case handle of None \<Rightarrow> None | Some h \<Rightarrow> f h)"

definition result_code :: "'h option \<Rightarrow> int \<Rightarrow> 'a option \<Rightarrow> int \<Rightarrow> int" where
  "result_code handle no_handle value no_value =
     (if handle = None then no_handle else if value = None then no_value else mySUCCESS)"

lemma result_code_success [simp]:
  "result_code h a v b = mySUCCESS \<longleftrightarrow> h \<noteq> None \<and> v \<noteq> None" if "a \<noteq> mySUCCESS" "b \<noteq> mySUCCESS"
  using that by (auto simp: result_code_def)

section \<open>The connection\<close>

definition MyInitDB :: "'c client \<Rightarrow> 'c \<Rightarrow> int \<times> nat option \<times> 'c" where
  "MyInitDB api c =
     (let (handle, c1) = mysql_init api c
      in (if handle = None then myERROR_HANDLE_INIT else mySUCCESS, handle, c1))"

definition MyFreeDB :: "'c client \<Rightarrow> 'c \<Rightarrow> int \<times> 'c" where
  "MyFreeDB api c = (mySUCCESS, mariadb_cancel api c)"

definition MySetOptionDB :: "'c client \<Rightarrow> nat option \<Rightarrow> string \<Rightarrow> 'c \<Rightarrow> int \<times> 'c" where
  "MySetOptionDB api handle option c =
     (case handle of None \<Rightarrow> (myERROR_HANDLE_INIT, c) | Some h \<Rightarrow> (mySUCCESS, mysql_options api h option c))"

text \<open>The protocol is compared with a literal of the driver as a pointer, which no argument of
  another module equals: it is always TCP.\<close>

definition MyOpenConnection :: "'c client \<Rightarrow> nat option \<Rightarrow> string option \<Rightarrow> string option \<Rightarrow> string option \<Rightarrow> int
    \<Rightarrow> bool \<Rightarrow> 'c \<Rightarrow> int \<times> 'c" where
  "MyOpenConnection api handle pszHost pszUser pszPassword iPort fAutoReconnect c =
     (case (pszHost, pszUser, pszPassword) of
        (Some host, Some user, Some password) \<Rightarrow>
          (case handle of
             None \<Rightarrow> (myERROR_HANDLE_INIT, c)
           | Some h \<Rightarrow>
               (let (ok, c1) = mysql_real_connect api h host user password iPort
                                 (mysql_options api h ''PROTOCOL=TCP'' c)
                in if ok then (mySUCCESS, if fAutoReconnect then mysql_options api h ''reconnect=1'' c1 else c1)
                   else (myERROR_HANDLE_CONNECTION, c1)))
      | _ \<Rightarrow> (myERROR_PARAM, c))"

definition MyCloseConnection :: "'c client \<Rightarrow> nat option \<Rightarrow> 'c \<Rightarrow> int \<times> 'c" where
  "MyCloseConnection api handle c =
     (case handle of None \<Rightarrow> (myERROR_HANDLE_INIT, c) | Some h \<Rightarrow> (mySUCCESS, mysql_close api h c))"

section \<open>Errors\<close>

definition MyGetErrormessage :: "'c client \<Rightarrow> nat option \<Rightarrow> 'c \<Rightarrow> int \<times> string option" where
  "MyGetErrormessage api handle c =
     (let hMsg = through handle (\<lambda>h. mysql_error api h c)
      in (result_code handle myERROR_HANDLE_INIT hMsg myERROR_HANDLE_MSG, hMsg))"

text \<open>The test for the null pointer comes behind its use.\<close>

definition MyGetErrorNum :: "'c client \<Rightarrow> nat option \<Rightarrow> bool \<Rightarrow> 'c \<Rightarrow> (int \<times> u32) res" where
  "MyGetErrorNum api handle place c =
     (if \<not> place then Inl (Null_pointer ''hMsg'')
      else case handle of
             None \<Rightarrow> Inr (myERROR_HANDLE_INIT, 0)
           | Some h \<Rightarrow> Inr (mySUCCESS, mysql_errno api h c))"

definition MyGetSqlState :: "'c client \<Rightarrow> nat option \<Rightarrow> 'c \<Rightarrow> int \<times> string option" where
  "MyGetSqlState api handle c =
     (let hMsg = through handle (\<lambda>h. mysql_sqlstate api h c)
      in (result_code handle myERROR_HANDLE_INIT hMsg myERROR_HANDLE_MSG, hMsg))"

section \<open>Statements and results\<close>

text \<open>The client is called before the test of the handle.\<close>

definition MyExecStatement :: "'c client \<Rightarrow> nat option \<Rightarrow> string option \<Rightarrow> 'c \<Rightarrow> int \<times> 'c" where
  "MyExecStatement api handle query c =
     (case query of
        None \<Rightarrow> (myERROR_PARAM, c)
      | Some sql \<Rightarrow>
          (let (r, c1) = mysql_query api handle sql c
           in (if handle = None then myERROR_HANDLE_INIT else if r \<noteq> 0 then myERROR_HANDLE_QUERY else mySUCCESS, c1)))"

definition MyFreeStatement :: "'c client \<Rightarrow> nat option \<Rightarrow> 'c \<Rightarrow> int \<times> 'c" where
  "MyFreeStatement api hQuery c =
     (case hQuery of None \<Rightarrow> (myERROR_HANDLE_QUERY, c) | Some q \<Rightarrow> (mySUCCESS, mysql_free_result api q c))"

definition MyGetResult :: "'c client \<Rightarrow> nat option \<Rightarrow> 'c \<Rightarrow> int \<times> nat option \<times> 'c" where
  "MyGetResult api handle c =
     (case handle of
        None \<Rightarrow> (myERROR_HANDLE_INIT, None, c)
      | Some h \<Rightarrow>
          (let (q, c1) = mysql_use_result api h c
           in (if q = None then myERROR_HANDLE_QUERY else mySUCCESS, q, c1)))"

definition MyGetResultValue :: "row option \<Rightarrow> nat \<Rightarrow> (int \<times> string option) res" where
  "MyGetResultValue hRow nColumn =
     (case hRow of
        None \<Rightarrow> Inr (myERROR_HANDLE_ROW, None)
      | Some cols \<Rightarrow>
          if nColumn < length cols
          then Inr (if cols ! nColumn = None then myERROR_HANDLE_RESULT else mySUCCESS, cols ! nColumn)
          else Inl (Out_of_bounds ''hRow''))"

text \<open>No row is no data, whether the rows are at their end or the connection is lost.\<close>

definition MyGetFetchRow :: "'c client \<Rightarrow> nat option \<Rightarrow> bool \<Rightarrow> 'c \<Rightarrow> int \<times> row option \<times> 'c" where
  "MyGetFetchRow api hQuery place c =
     (if \<not> place then (myERROR_HANDLE_ROW, None, c)
      else case hQuery of
             None \<Rightarrow> (myERROR_HANDLE_QUERY, None, c)
           | Some q \<Rightarrow>
               (let (hRow, c1) = mysql_fetch_row api q c
                in (if hRow = None then myERROR_NO_DATA else mySUCCESS, hRow, c1)))"

text \<open>The counts are cut to 32 bits and share their range with the errors.\<close>

definition MyGetAffectedRows :: "'c client \<Rightarrow> nat option \<Rightarrow> 'c \<Rightarrow> int" where
  "MyGetAffectedRows api handle c =
     (let n = (ucast (mysql_affected_rows api handle c) :: u32)
      in if handle = None then myERROR_HANDLE_INIT else sint n)"

definition MyGetInfo :: "'c client \<Rightarrow> nat option \<Rightarrow> 'c \<Rightarrow> int \<times> string option" where
  "MyGetInfo api handle c =
     (let hMsg = through handle (\<lambda>h. mysql_info api h c)
      in (result_code handle myERROR_HANDLE_INIT hMsg myERROR_HANDLE_MSG, hMsg))"

definition MyGetResultCount :: "'c client \<Rightarrow> nat option \<Rightarrow> 'c \<Rightarrow> int" where
  "MyGetResultCount api hQuery c =
     (case hQuery of None \<Rightarrow> myERROR_HANDLE_QUERY | Some q \<Rightarrow> sint (ucast (mysql_num_rows api q c) :: u32))"

definition MyGetNumField :: "'c client \<Rightarrow> nat option \<Rightarrow> 'c \<Rightarrow> int" where
  "MyGetNumField api hQuery c =
     (case hQuery of None \<Rightarrow> myERROR_HANDLE_QUERY | Some q \<Rightarrow> sint (mysql_num_fields api q c))"

definition MyGetResultLength :: "'c client \<Rightarrow> nat option \<Rightarrow> bool \<Rightarrow> 'c \<Rightarrow> int \<times> u32 list option" where
  "MyGetResultLength api hQuery place c =
     (if \<not> place then (myERROR_HANDLE_INIT, None)
      else let hLength = through hQuery (\<lambda>q. mysql_fetch_lengths api q c)
           in (result_code hQuery myERROR_HANDLE_QUERY hLength myERROR_HANDLE_RESULT, hLength))"

definition MyGetResultField :: "'c client \<Rightarrow> nat option \<Rightarrow> bool \<Rightarrow> 'c \<Rightarrow> int \<times> string list option" where
  "MyGetResultField api hQuery place c =
     (if \<not> place then (myERROR_HANDLE_INIT, None)
      else let hField = through hQuery (\<lambda>q. mysql_fetch_fields api q c)
           in (result_code hQuery myERROR_HANDLE_QUERY hField myERROR_HANDLE_RESULT, hField))"

section \<open>The questions of the capture as calls\<close>

text \<open>The three calls behind a failure; the first byte of the state is read through its pointer.\<close>

definition db_error :: "'c client \<Rightarrow> nat option \<Rightarrow> 'c \<Rightarrow> u32 res" where
  "db_error api handle c =
     (let (_, hMsg) = MyGetErrormessage api handle c
      in and_then (MyGetErrorNum api handle True c) (\<lambda>(_, uiMySqlError).
         let (_, hSqlState) = MyGetSqlState api handle c
         in and_then (nonnull ''hSqlState'' hSqlState) (\<lambda>_. Inr uiMySqlError)))"

definition check_call :: "'c client \<Rightarrow> nat option \<Rightarrow> int \<Rightarrow> 'c \<Rightarrow> bool res" where
  "check_call api handle lResult c =
     (if lResult \<noteq> mySUCCESS then and_then (db_error api handle c) (\<lambda>_. Inr False) else Inr True)"

text \<open>The start of \<open>LoadBinLog\<close> and \<open>LoadMasterStatus\<close>: the result is asked for whether or not the
  statement was executed.\<close>

definition ask :: "'c client \<Rightarrow> nat option \<Rightarrow> string \<Rightarrow> 'c \<Rightarrow> (bool \<times> nat option \<times> 'c) res" where
  "ask api handle sql c =
     (let (r1, c1) = MyExecStatement api handle (Some sql) c
      in and_then (check_call api handle r1 c1) (\<lambda>ok1.
         let (r2, hQuery, c2) = MyGetResult api handle c1
         in and_then (check_call api handle r2 c2) (\<lambda>ok2. Inr (ok1 \<and> ok2, hQuery, c2))))"

text \<open>The two columns of a row, whose results are not looked at.\<close>

definition two_columns :: "row option \<Rightarrow> (string option \<times> string option) res" where
  "two_columns hRow =
     and_then (MyGetResultValue hRow 0) (\<lambda>(_, pszColumn1).
     and_then (MyGetResultValue hRow 1) (\<lambda>(_, pszColumn2). Inr (pszColumn1, pszColumn2)))"

definition row_entry :: "char list \<Rightarrow> row option \<Rightarrow> BinLogInfo res" where
  "row_entry junk hRow =
     and_then (two_columns hRow) (\<lambda>(p1, p2).
     and_then (nonnull ''pszColumn1'' p1) (\<lambda>name.
     and_then (strcpy_arr ''szBinLogName'' junk name) (\<lambda>arr.
     and_then (nonnull ''pszColumn2'' p2) (\<lambda>size.
       Inr \<lparr>bi_szBinLogName = arr, bi_ulSize = strtoul size, bi_ulPosition = BIN_LOG_HEADER_SIZE\<rparr>))))"

text \<open>The loop over the rows has no value when the client never stops to deliver rows.\<close>

partial_function (option) load_rows :: "'c client \<Rightarrow> char list \<Rightarrow> nat option \<Rightarrow> BinLogInfo list \<Rightarrow> 'c
    \<Rightarrow> (BinLogInfo list \<times> 'c) res option" where
  "load_rows api junk hQuery infos c =
     (case MyGetFetchRow api hQuery True c of (lResult, hRow, c1) \<Rightarrow>
        if lResult \<noteq> mySUCCESS then Some (Inr (infos, c1))
        else case row_entry junk hRow of
               Inl e \<Rightarrow> Some (Inl e)
             | Inr info \<Rightarrow> load_rows api junk hQuery (infos @ [info]) c1)"

definition LoadBinLog_calls :: "'c client \<Rightarrow> char list \<Rightarrow> nat option \<Rightarrow> rj \<Rightarrow> 'c \<Rightarrow> (bool \<times> rj \<times> 'c) res option" where
  "LoadBinLog_calls api junk g_hDatabase st c =
     (let st0 = st\<lparr>g_iNbBinLog := 0\<rparr> in
      case ask api g_hDatabase ''SHOW MASTER LOGS'' c of
        Inl e \<Rightarrow> Some (Inl e)
      | Inr (ok, hQuery, c1) \<Rightarrow>
          if \<not> ok then Some (Inr (False, st0, snd (MyFreeStatement api hQuery c1)))
          else map_option (\<lambda>r. and_then r (\<lambda>(infos, c2).
                 Inr (True, st0\<lparr>g_pStBinLogInfo := (if infos = [] then g_pStBinLogInfo st else infos),
                                g_iNbBinLog := length infos\<rparr>,
                      snd (MyFreeStatement api hQuery c2)))) (load_rows api junk hQuery [] c1))"

definition LoadMasterStatus_calls :: "'c client \<Rightarrow> nat option \<Rightarrow> rj \<Rightarrow> 'c \<Rightarrow> (bool \<times> rj \<times> 'c) res" where
  "LoadMasterStatus_calls api g_hDatabase st c =
     (let st0 = st\<lparr>g_iNbBinLog := 0, g_StMasterStatus := zero_info\<rparr> in
      and_then (ask api g_hDatabase ''SHOW MASTER STATUS'' c) (\<lambda>(ok, hQuery, c1).
        if \<not> ok then Inr (False, st0, snd (MyFreeStatement api hQuery c1))
        else let (lResult, hRow, c2) = MyGetFetchRow api hQuery True c1
             in if lResult \<noteq> mySUCCESS then Inr (False, st0, snd (MyFreeStatement api hQuery c2))
                else and_then (two_columns hRow) (\<lambda>(p1, p2).
                     and_then (nonnull ''pszBinLogName'' p1) (\<lambda>name.
                     and_then (strcpy_arr ''szBinLogName'' (bi_szBinLogName zero_info) name) (\<lambda>arr.
                     and_then (nonnull ''pszPosition'' p2) (\<lambda>pos.
                       Inr (True, st0\<lparr>g_StMasterStatus :=
                              \<lparr>bi_szBinLogName = arr, bi_ulSize = 0, bi_ulPosition = strtoul pos\<rparr>\<rparr>,
                            snd (MyFreeStatement api hQuery c2))))))))"

text \<open>The version: here the result is asked for only when the statement was executed, and a missing
  row is no error.\<close>

definition version_query :: string where
  "version_query = ''SHOW VARIABLES LIKE '' @ CHR 0x27 # ''version'' @ [CHR 0x27]"

definition free_if_any :: "'c client \<Rightarrow> nat option \<Rightarrow> 'c \<Rightarrow> 'c" where
  "free_if_any api hQuery c = (if hQuery = None then c else snd (MyFreeStatement api hQuery c))"

definition GetMySQLVersion_calls :: "'c client \<Rightarrow> nat option \<Rightarrow> int \<Rightarrow> 'c \<Rightarrow> ((bool \<times> string \<times> int) \<times> 'c) res" where
  "GetMySQLVersion_calls api g_hDatabase old c =
     (let (r1, c1) = MyExecStatement api g_hDatabase (Some version_query) c
      in if r1 \<noteq> mySUCCESS then and_then (db_error api g_hDatabase c1) (\<lambda>_. Inr ((False, [], old), c1))
         else let (r2, hQuery, c2) = MyGetResult api g_hDatabase c1
              in if r2 \<noteq> mySUCCESS
                 then and_then (db_error api g_hDatabase c2) (\<lambda>_. Inr ((False, [], old), free_if_any api hQuery c2))
                 else let (r3, hRow, c3) = MyGetFetchRow api hQuery True c2
                      in if r3 \<noteq> mySUCCESS then Inr ((True, [], old), free_if_any api hQuery c3)
                         else and_then (MyGetResultValue hRow 1) (\<lambda>(_, pszValue).
                              and_then (nonnull ''pszValue'' pszValue) (\<lambda>v.
                              and_then (into_buffer ''g_szMySqlVersion'' 255 v) (\<lambda>version.
                              and_then (case strrchr version (CHR ''-'') of
                                          None \<Rightarrow> Inr (False, version, old)
                                        | Some p \<Rightarrow>
                                            (let szVersion = version_digits (take p version) in
                                             if length szVersion < 20 then Inr (True, version, atol szVersion)
                                             else Inl (Out_of_bounds ''szVersion''))) (\<lambda>res.
                                Inr (res, free_if_any api hQuery c3))))))"

text \<open>On a failure the global connection is closed, which is the one that was asked for.\<close>

definition OpenConnection_calls :: "'c client \<Rightarrow> string \<Rightarrow> string \<Rightarrow> string \<Rightarrow> int \<Rightarrow> 'c \<Rightarrow> (bool \<times> nat option \<times> 'c) res" where
  "OpenConnection_calls api server pszUser pszPassword port c =
     (let (r1, hDb, c1) = MyInitDB api c
      in if r1 \<noteq> mySUCCESS then Inr (False, hDb, snd (MyCloseConnection api hDb c1))
         else let (r2, c2) = MyOpenConnection api hDb (Some server) (Some pszUser) (Some pszPassword) port True c1
              in if r2 \<noteq> mySUCCESS
                 then and_then (db_error api hDb c2) (\<lambda>_. Inr (False, hDb, snd (MyCloseConnection api hDb c2)))
                 else Inr (True, hDb, c2))"

section \<open>What a client answers\<close>

text \<open>The rows of a result in order, with their first two columns, and then no row.\<close>

fun delivers :: "'c client \<Rightarrow> nat \<Rightarrow> (string \<times> string) list \<Rightarrow> 'c \<Rightarrow> bool" where
  "delivers api q [] c = (fst (mysql_fetch_row api q c) = None)"
| "delivers api q ((a, b) # rs) c =
     (case mysql_fetch_row api q c of
        (None, _) \<Rightarrow> False
      | (Some cols, c1) \<Rightarrow> take 2 cols = [Some a, Some b] \<and> delivers api q rs c1)"

text \<open>The answer \<open>a\<close> stands for what the client does with a question.\<close>

definition answers :: "'c client \<Rightarrow> nat \<Rightarrow> string \<Rightarrow> answer \<Rightarrow> 'c \<Rightarrow> bool" where
  "answers api h sql a c =
     (let (r, c1) = mysql_query api (Some h) sql c; (q, c2) = mysql_use_result api h c1
      in exec_ok a = (r = 0) \<and> result_ok a = (q \<noteq> None)
         \<and> (case q of None \<Rightarrow> True | Some q' \<Rightarrow> r \<noteq> 0 \<or> delivers api q' (rows a) c2))"

text \<open>The state of an error is always a string.\<close>

definition has_sqlstate :: "'c client \<Rightarrow> nat \<Rightarrow> bool" where
  "has_sqlstate api h \<longleftrightarrow> (\<forall>c. mysql_sqlstate api h c \<noteq> None)"

section \<open>Lemmas\<close>

lemma and_then_Inr_right [simp]: "and_then m Inr = m"
  by (cases m) auto

lemma driver_code_neq [simp]:
  "myERROR_HANDLE_CONNECTION \<noteq> mySUCCESS" "myERROR_HANDLE_QUERY \<noteq> mySUCCESS" "myERROR_HANDLE_MSG \<noteq> mySUCCESS"
  "myERROR_HANDLE_RESULT \<noteq> mySUCCESS" "myERROR_HANDLE_INIT \<noteq> mySUCCESS" "myERROR_HANDLE_ROW \<noteq> mySUCCESS"
  "myERROR_NO_DATA \<noteq> mySUCCESS" "myERROR_PARAM \<noteq> mySUCCESS"
  by (simp_all add: driver_codes)

lemma first_two: "take 2 cols = [x, y] \<Longrightarrow> \<exists>rest. cols = x # y # rest"
  by (cases cols; cases "tl cols") (auto simp: numeral_eq_Suc)

lemma two_columns_simp [simp]: "two_columns (Some (x # y # rest)) = Inr (x, y)"
  by (simp add: two_columns_def MyGetResultValue_def)

lemma row_entry_simp [simp]: "row_entry junk (Some (Some a # Some b # rest)) = log_entry junk (a, b)"
  by (cases "strcpy_arr ''szBinLogName'' junk a") (simp_all add: row_entry_def log_entry_def)

lemma db_error_ok [simp]:
  assumes "has_sqlstate api h"
  shows "db_error api (Some h) c = Inr (mysql_errno api h c)"
proof -
  obtain s where "mysql_sqlstate api h c = Some s" using assms by (auto simp: has_sqlstate_def)
  then show ?thesis by (simp add: db_error_def MyGetErrorNum_def MyGetSqlState_def through_def Let_def split_beta)
qed

lemma check_call_ok [simp]: "has_sqlstate api h \<Longrightarrow> check_call api (Some h) r c = Inr (r = mySUCCESS)"
  by (simp add: check_call_def)

lemma ask_answered:
  assumes "answers api h sql a c" and "has_sqlstate api h"
  obtains hQuery c1 where "ask api (Some h) sql c = Inr (exec_ok a \<and> result_ok a, hQuery, c1)"
    and "exec_ok a \<and> result_ok a \<longrightarrow> (\<exists>q. hQuery = Some q \<and> delivers api q (rows a) c1)"
proof -
  obtain r c1 where e: "mysql_query api (Some h) sql c = (r, c1)" by fastforce
  obtain q c2 where u: "mysql_use_result api h c1 = (q, c2)" by fastforce
  have "ask api (Some h) sql c = Inr (r = 0 \<and> q \<noteq> None, q, c2)"
    using e u assms(2) by (simp add: ask_def MyExecStatement_def MyGetResult_def)
  moreover have "exec_ok a = (r = 0)" "result_ok a = (q \<noteq> None)"
    "r = 0 \<and> q \<noteq> None \<longrightarrow> (\<exists>q'. q = Some q' \<and> delivers api q' (rows a) c2)"
    using assms(1) e u by (auto simp: answers_def)
  ultimately show ?thesis using that by simp
qed

text \<open>The loop reads the rows and stops.\<close>

lemma load_rows_delivered:
  "delivers api q rs c \<Longrightarrow>
     \<exists>r. load_rows api junk (Some q) infos c = Some r
       \<and> and_then r (\<lambda>(xs, _). Inr xs) = and_then (map_res (log_entry junk) rs) (\<lambda>xs. Inr (infos @ xs))"
proof (induction rs arbitrary: infos c)
  case Nil
  then show ?case by (subst load_rows.simps) (simp add: MyGetFetchRow_def split_beta)
next
  case (Cons r rs)
  obtain a b where r: "r = (a, b)" by (cases r)
  obtain rest c1 where f: "mysql_fetch_row api q c = (Some (Some a # Some b # rest), c1)" "delivers api q rs c1"
    using Cons.prems r first_two by (fastforce split: prod.splits option.splits)
  show ?case
  proof (cases "log_entry junk (a, b)")
    case (Inl e)
    then show ?thesis using f r by (subst load_rows.simps) (simp add: MyGetFetchRow_def)
  next
    case (Inr x)
    obtain res where "load_rows api junk (Some q) (infos @ [x]) c1 = Some res"
      "and_then res (\<lambda>(xs, _). Inr xs) = and_then (map_res (log_entry junk) rs) (\<lambda>xs. Inr ((infos @ [x]) @ xs))"
      using Cons.IH [OF f(2)] by blast
    then show ?thesis using f r Inr
      by (subst load_rows.simps) (simp add: MyGetFetchRow_def and_then_assoc)
  qed
qed

text \<open>The result of a question without the state of the client.\<close>

definition forget_client :: "(bool \<times> rj \<times> 'c) res \<Rightarrow> (bool \<times> rj) res" where
  "forget_client r = and_then r (\<lambda>(ok, st, _). Inr (ok, st))"

lemma fetch_delivered:
  assumes "delivers api q rs c"
  shows "\<exists>c1. case rs of
           [] \<Rightarrow> mysql_fetch_row api q c = (None, c1)
         | (a, b) # _ \<Rightarrow> (\<exists>rest. mysql_fetch_row api q c = (Some (Some a # Some b # rest), c1))"
  using assms by (cases rs) (auto simp: split_beta prod_eq_iff dest!: first_two split: prod.splits option.splits)

lemma LoadBinLog_calls_answer:
  assumes "answers api h ''SHOW MASTER LOGS'' a c" and "has_sqlstate api h"
  shows "map_option forget_client (LoadBinLog_calls api junk (Some h) st c) = Some (LoadBinLog junk a st)"
proof -
  obtain hQuery c1 where ask: "ask api (Some h) ''SHOW MASTER LOGS'' c = Inr (exec_ok a \<and> result_ok a, hQuery, c1)"
    and q: "exec_ok a \<and> result_ok a \<longrightarrow> (\<exists>q. hQuery = Some q \<and> delivers api q (rows a) c1)"
    by (rule ask_answered [OF assms])
  show ?thesis
  proof (cases "exec_ok a \<and> result_ok a")
    case True
    obtain r where "load_rows api junk hQuery [] c1 = Some r"
      "and_then r (\<lambda>(xs, _). Inr xs) = and_then (map_res (log_entry junk) (rows a)) Inr"
      using q True load_rows_delivered [of api _ "rows a" c1 junk "[]"] by auto
    then show ?thesis using True ask
      by (cases r; cases "map_res (log_entry junk) (rows a)")
         (auto simp: LoadBinLog_calls_def LoadBinLog_def forget_client_def Let_def)
  qed (use ask in \<open>auto simp: LoadBinLog_calls_def LoadBinLog_def forget_client_def Let_def\<close>)
qed

text \<open>The status of the server's log through the driver; only the first row is fetched.\<close>

lemma LoadMasterStatus_refined:
  assumes "answers api h ''SHOW MASTER STATUS'' a c" and "has_sqlstate api h"
  shows "forget_client (LoadMasterStatus_calls api (Some h) st c) = LoadMasterStatus a st"
proof -
  obtain hQuery c1 where ask: "ask api (Some h) ''SHOW MASTER STATUS'' c = Inr (exec_ok a \<and> result_ok a, hQuery, c1)"
    and q: "exec_ok a \<and> result_ok a \<longrightarrow> (\<exists>q. hQuery = Some q \<and> delivers api q (rows a) c1)"
    by (rule ask_answered [OF assms])
  show ?thesis
  proof (cases "exec_ok a \<and> result_ok a")
    case True
    then obtain q where "hQuery = Some q" "delivers api q (rows a) c1" using q by blast
    then show ?thesis using True ask fetch_delivered [of api q "rows a" c1]
      by (cases "rows a")
         (auto simp: LoadMasterStatus_calls_def LoadMasterStatus_def forget_client_def MyGetFetchRow_def Let_def
            and_then_assoc)
  qed (use ask in \<open>auto simp: LoadMasterStatus_calls_def LoadMasterStatus_def forget_client_def Let_def\<close>)
qed

text \<open>The answer to the question about the version.\<close>

definition answers_version :: "'c client \<Rightarrow> nat \<Rightarrow> version_answer2 \<Rightarrow> 'c \<Rightarrow> bool" where
  "answers_version api h a c =
     (let (r, c1) = mysql_query api (Some h) version_query c; (q, c2) = mysql_use_result api h c1
      in va_exec_ok a = (r = 0) \<and> va_result_ok a = (q \<noteq> None)
         \<and> (case q of None \<Rightarrow> True
            | Some q' \<Rightarrow> (case fst (mysql_fetch_row api q' c2) of
                            None \<Rightarrow> va_row a = None
                          | Some cols \<Rightarrow> 1 < length cols \<and> va_row a = Some (cols ! 1))))"

lemma GetMySQLVersion_refined:
  assumes "answers_version api h a c" and "has_sqlstate api h"
  shows "and_then (GetMySQLVersion_calls api (Some h) old c) (\<lambda>(r, _). Inr r) = GetMySQLVersion a old"
proof -
  obtain r c1 where e: "mysql_query api (Some h) version_query c = (r, c1)" by fastforce
  obtain q c2 where u: "mysql_use_result api h c1 = (q, c2)" by fastforce
  show ?thesis
    using assms e u
    by (auto simp: GetMySQLVersion_calls_def GetMySQLVersion_def answers_version_def MyExecStatement_def MyGetResult_def
        MyGetFetchRow_def MyGetResultValue_def and_then_assoc Let_def split_beta
        split: option.splits)
qed

text \<open>The connection; a handle that could not be connected is closed.\<close>

lemma OpenConnection_refined:
  assumes "c_string ''g_szServer'' (g_szServer (b_params st)) = Inr server"
    and "c_string ''g_szUser'' (g_szUser (b_args st)) = Inr user"
    and "c_string ''g_szPassword'' (g_szPassword (b_args st)) = Inr password"
    and "mysql_init api c = (handle, c1)" and "e_init_db env = (handle \<noteq> None)"
    and "\<And>h. handle = Some h \<Longrightarrow> has_sqlstate api h \<and>
           e_connect env server user password (g_iPort (b_params st))
             = fst (mysql_real_connect api h server user password (g_iPort (b_params st))
                      (mysql_options api h ''PROTOCOL=TCP'' c1))"
    and "''MyCloseConnection'' \<in> set (b_mysql st)"
  shows "and_then (OpenConnection_calls api server user password (g_iPort (b_params st)) c) (\<lambda>(ok, _). Inr ok)
       = OpenConnection env st"
  using assms by (auto simp: OpenConnection_calls_def OpenConnection_def MyInitDB_def MyOpenConnection_def call_proc_def
      Let_def split_beta)

section \<open>Properties\<close>

text \<open>C10: the list of the logs through the driver: when the client answers the question as the answer
  \<open>a\<close> says, the calls of \<open>LoadBinLog\<close> end, and their result is the one of \<open>LoadBinLog\<close> for \<open>a\<close>,
  faults included.\<close>

theorem LoadBinLog_refined:
  assumes "answers api h ''SHOW MASTER LOGS'' a c" and "has_sqlstate api h"
  shows "map_option forget_client (LoadBinLog_calls api junk (Some h) st c) = Some (LoadBinLog junk a st)"
  by (rule LoadBinLog_calls_answer [OF assms])

text \<open>A client over the rows that are left, which loses the connection when they are used up.\<close>

definition demo_client :: "row list client" where
  "demo_client =
     \<lparr>mysql_init = (\<lambda>c. (Some 1, c)), mysql_options = (\<lambda>h opt c. c), mysql_real_connect = (\<lambda>h s u p n c. (True, c)),
      mysql_close = (\<lambda>h c. []), mariadb_cancel = (\<lambda>c. c), mysql_error = (\<lambda>h c. Some ''Lost connection''),
      mysql_errno = (\<lambda>h c. 2013), mysql_sqlstate = (\<lambda>h c. Some ''HY000''),
      mysql_query = (\<lambda>h sql c. (0, c)), mysql_use_result = (\<lambda>h c. (Some 2, c)),
      mysql_fetch_row = (\<lambda>q c. case c of [] \<Rightarrow> (None, []) | r # rs \<Rightarrow> (Some r, rs)), mysql_free_result = (\<lambda>q c. []),
      mysql_affected_rows = (\<lambda>h c. 0), mysql_info = (\<lambda>h c. None), mysql_num_rows = (\<lambda>q c. 0),
      mysql_num_fields = (\<lambda>q c. 2), mysql_fetch_lengths = (\<lambda>q c. None), mysql_fetch_fields = (\<lambda>q c. None)\<rparr>"

definition demo_rows :: "row list" where
  "demo_rows = [[Some ''bin.000001'', Some ''500'', Some ''No''], [Some ''bin.000002'', Some ''300'']]"

lemma demo_client_answers:
  "answers demo_client 1 ''SHOW MASTER LOGS'' demo_answer demo_rows" "has_sqlstate demo_client 1"
  by (simp_all add: answers_def has_sqlstate_def demo_client_def demo_rows_def demo_answer_def)

theorem LoadBinLog_refined_witness:
  "map_option forget_client (LoadBinLog_calls demo_client (replicate 50 NUL) (Some 1) demo_rj demo_rows)
     = Some (LoadBinLog (replicate 50 NUL) demo_answer demo_rj)"
  by (rule LoadBinLog_refined [OF demo_client_answers])

text \<open>C40: a list of the logs that breaks off: when the connection is lost after some rows, the driver reports the
  end of the rows and the list is taken for complete; if the log of the checkpoint is not among these
  rows, the round fails as for a log that the server does not have any more, and the capture ends.\<close>

theorem lost_connection_ends_capture:
  assumes "answers api h ''SHOW MASTER LOGS'' a c" and "has_sqlstate api h" and "exec_ok a" and "result_ok a"
    and "\<forall>r \<in> set (rows a). cstr (fst r) \<noteq> seq_name (g_stBinLogSeq (ck s))"
    and "LoadBinLog_calls api junk (Some h) (st\<lparr>fGoAhead := False\<rparr>) c = Some (Inr (ok, st1, c'))"
  shows "ok \<and> next_round stop (find_start s st1) = Ended"
proof -
  have "forget_client (Inr (ok, st1, c')) = LoadBinLog junk a (st\<lparr>fGoAhead := False\<rparr>)"
    using LoadBinLog_calls_answer [OF assms(1,2), of junk "st\<lparr>fGoAhead := False\<rparr>"] assms(6) by simp
  then have l: "LoadBinLog junk a (st\<lparr>fGoAhead := False\<rparr>) = Inr (ok, st1)" by (simp add: forget_client_def)
  then have ok: ok using assms(3,4) by (auto simp: LoadBinLog_def Let_def elim!: and_then_eq_InrE)
  then have "fst (mark_logs (seq_name (g_stBinLogSeq (ck s))) (ulPosition (g_stBinLogSeq (ck s))) 0
                (take (g_iNbBinLog st1) (g_pStBinLogInfo st1))) = None"
    using LoadBinLog_missing [OF _ assms(5)] l by simp
  then show ?thesis using ok by (auto simp: find_start_def Let_def next_round_def split: prod.splits)
qed

definition demo_behind :: lst where
  "demo_behind = demo_lst\<lparr>ck := demo_ckpt\<lparr>g_stBinLogSeq :=
     \<lparr>szBinLogName = ''bin.000003'' @ replicate 40 NUL, ulPosition = 400, ulIndex = 0\<rparr>\<rparr>\<rparr>"

theorem lost_connection_ends_capture_witness:
  "\<exists>st1 c'. LoadBinLog_calls demo_client (replicate 50 NUL) (Some 1) (demo_rj\<lparr>fGoAhead := False\<rparr>) demo_rows
              = Some (Inr (True, st1, c'))
     \<and> mysql_errno demo_client 1 c' = 2013 \<and> next_round False (find_start demo_behind st1) = Ended"
proof -
  let ?r = "LoadBinLog_calls demo_client (replicate 50 NUL) (Some 1) (demo_rj\<lparr>fGoAhead := False\<rparr>) demo_rows"
  have "map_option forget_client ?r = Some (LoadBinLog (replicate 50 NUL) demo_answer (demo_rj\<lparr>fGoAhead := False\<rparr>))"
    by (rule LoadBinLog_calls_answer [OF demo_client_answers])
  moreover obtain ok st2 where "LoadBinLog (replicate 50 NUL) demo_answer (demo_rj\<lparr>fGoAhead := False\<rparr>) = Inr (ok, st2)"
    by (simp add: LoadBinLog_def demo_answer_def log_entry_def strcpy_arr_def)
  ultimately obtain st1 c' where r: "?r = Some (Inr (ok, st1, c'))"
    by (auto simp: forget_client_def elim!: and_then_eq_InrE)
  have n: "seq_name (g_stBinLogSeq (ck demo_behind)) = ''bin.000003''"
    by (simp add: demo_behind_def seq_name_def numeral_eq_Suc)
  have "exec_ok demo_answer" "result_ok demo_answer"
    "\<forall>x \<in> set (rows demo_answer). cstr (fst x) \<noteq> seq_name (g_stBinLogSeq (ck demo_behind))"
    by (simp_all add: n demo_answer_def)
  from lost_connection_ends_capture [OF demo_client_answers this r, of False]
  have "ok \<and> next_round False (find_start demo_behind st1) = Ended" .
  then show ?thesis using r by (auto simp: demo_client_def)
qed

end
