(* ===== verification/Temporal.thy ===== *)
theory Temporal
  imports Marks "HOL-Library.Signed_Division"
begin

unbundle bit_operations_syntax

text \<open>
  The temporal types of a row as the MariaDB sources store and print them:
  \<open>sql/compat56.cc\<close> (the packed \<open>TIME\<close>, \<open>DATETIME\<close> and \<open>TIMESTAMP\<close> of MySQL 5.6, written by
  the server and read by the library), the big endian macros of \<open>include/myisampack.h\<close> and the
  formatting functions of \<open>sql-common/my_time.c\<close>.

  Bytes are characters; the numbers they spell are integers, with the conversions of C
  (\<open>uint_of\<close>, \<open>longlong_of\<close>) where a value may leave the range of its type. C's \<open>/\<close> and \<open>%\<close>
  round towards zero: \<open>sdiv\<close> and \<open>smod\<close>.
\<close>

section \<open>Bytes and integers\<close>

definition ubyte :: "char \<Rightarrow> int" where
  "ubyte c = int (of_char c)"

definition byte_of :: "int \<Rightarrow> char" where
  "byte_of i = char_of (nat (i mod 256))"

text \<open>Conversions between the integer types of C, which wrap around.\<close>

definition uint_of :: "int \<Rightarrow> int" where
  "uint_of i = i mod 2 ^ 32"

definition signed_of :: "nat \<Rightarrow> int \<Rightarrow> int" where
  "signed_of w i = (i + 2 ^ (w - 1)) mod 2 ^ w - 2 ^ (w - 1)"

definition longlong_of :: "int \<Rightarrow> int" where
  "longlong_of i = signed_of 64 i"

text \<open>\<open>mi_uint2korr\<close> to \<open>mi_uint8korr\<close> read an unsigned big endian number of that many bytes,
  \<open>mi_sint1korr\<close> to \<open>mi_sint4korr\<close> a signed one.\<close>

fun mi_be :: "int \<Rightarrow> string \<Rightarrow> int" where
  "mi_be acc [] = acc"
| "mi_be acc (c # cs) = mi_be (256 * acc + ubyte c) cs"

definition mi_ukorr :: "nat \<Rightarrow> string \<Rightarrow> int" where
  "mi_ukorr n p = mi_be 0 (take n p)"

definition mi_skorr :: "nat \<Rightarrow> string \<Rightarrow> int" where
  "mi_skorr n p = signed_of (8 * n) (mi_ukorr n p)"

text \<open>\<open>mi_int1store\<close> to \<open>mi_int6store\<close>: the low bytes of the number, the highest first.\<close>

fun mi_store :: "nat \<Rightarrow> int \<Rightarrow> string" where
  "mi_store 0 v = []"
| "mi_store (Suc n) v = mi_store n (v div 256) @ [byte_of v]"

lemma ubyte_range [simp]: "0 \<le> ubyte c" "ubyte c < 256" "ubyte c \<le> 255"
proof -
  have "(of_char c :: nat) = of_char c mod 256" by (simp only: of_char_mod_256)
  then have "(of_char c :: nat) < 256" by (metis mod_less_divisor zero_less_numeral)
  then show "0 \<le> ubyte c" "ubyte c < 256" "ubyte c \<le> 255" unfolding ubyte_def by linarith+
qed

lemma ubyte_byte_of [simp]: "ubyte (byte_of i) = i mod 256"
proof -
  have "nat (i mod 256) < 256" using pos_mod_bound [of 256 i] by linarith
  then have "nat (i mod 256) mod 256 = nat (i mod 256)" by simp
  then show ?thesis by (simp add: ubyte_def byte_of_def of_char_of)
qed

lemma byte_of_ubyte [simp]: "byte_of (ubyte c) = c"
proof -
  have "ubyte c mod 256 = ubyte c" by (rule mod_pos_pos_trivial) simp_all
  then have "nat (ubyte c mod 256) = of_char c" by (simp only: ubyte_def nat_int)
  then show ?thesis by (simp only: byte_of_def char_of_char)
qed

lemma length_mi_store [simp]: "length (mi_store n v) = n"
  by (induction n arbitrary: v) simp_all

lemma mi_be_append: "mi_be a (xs @ ys) = mi_be (mi_be a xs) ys"
  by (induction xs arbitrary: a) simp_all

lemma mi_be_acc: "mi_be a xs = a * 256 ^ length xs + mi_be 0 xs"
proof (induction xs arbitrary: a)
  case (Cons c xs)
  show ?case using Cons [of "256 * a + ubyte c"] Cons [of "ubyte c"]
    by (simp add: algebra_simps)
qed simp

lemma mi_be_range: "0 \<le> mi_be 0 xs \<and> mi_be 0 xs < 256 ^ length xs"
proof (induction xs rule: rev_induct)
  case (snoc c xs)
  have "mi_be 0 (xs @ [c]) = 256 * mi_be 0 xs + ubyte c" by (simp add: mi_be_append)
  moreover have "mi_be 0 xs + 1 \<le> 256 ^ length xs" using snoc by simp
  moreover have "0 \<le> ubyte c" "ubyte c < 256" by simp_all
  moreover have "(256::int) ^ length (xs @ [c]) = 256 * 256 ^ length xs" by simp
  ultimately show ?case using snoc by linarith
qed simp

lemma mi_be_store: "mi_be 0 (mi_store n v) = v mod 256 ^ n"
proof (induction n arbitrary: v)
  case (Suc n)
  have "mi_be 0 (mi_store (Suc n) v) = 256 * (v div 256 mod 256 ^ n) + v mod 256"
    by (simp add: mi_be_append Suc)
  also have "\<dots> = v mod (256 * 256 ^ n)" by (simp add: zmod_zmult2_eq)
  finally show ?case by simp
qed simp

lemma mi_ukorr_store [simp]: "mi_ukorr n (mi_store n v @ rest) = v mod 256 ^ n"
  by (simp add: mi_ukorr_def mi_be_store)

lemma mi_ukorr_store' [simp]: "mi_ukorr n (mi_store n v) = v mod 256 ^ n"
  by (simp add: mi_ukorr_def mi_be_store)

lemma mi_store_be: "mi_store (length xs) (mi_be 0 xs) = xs"
proof (induction xs rule: rev_induct)
  case (snoc c xs)
  have "(256 * mi_be 0 xs + ubyte c) div 256 = mi_be 0 xs" by simp
  moreover have "byte_of (256 * mi_be 0 xs + ubyte c) = byte_of (ubyte c)"
    by (simp add: byte_of_def)
  ultimately show ?case using snoc by (simp add: mi_be_append)
qed simp

lemma mi_ukorr_range: "0 \<le> mi_ukorr n p" "n \<le> length p \<Longrightarrow> mi_ukorr n p < 256 ^ n"
  using mi_be_range [of "take n p"] by (simp_all add: mi_ukorr_def)

lemma mi_ukorr_less: "n \<le> k \<Longrightarrow> mi_ukorr n p < 256 ^ k"
proof -
  assume "n \<le> k"
  then have "length (take n p) \<le> k" by simp
  then have "(256::int) ^ length (take n p) \<le> 256 ^ k" by (rule power_increasing) simp
  then show ?thesis using mi_be_range [of "take n p"] unfolding mi_ukorr_def by linarith
qed

lemma signed_of_id: "0 < w \<Longrightarrow> - (2 ^ (w - 1)) \<le> i \<Longrightarrow> i < 2 ^ (w - 1) \<Longrightarrow> signed_of w i = i"
proof -
  assume w: "0 < w" and a: "- (2 ^ (w - 1)) \<le> i" "i < 2 ^ (w - 1)"
  have "(2::int) ^ w = 2 * 2 ^ (w - 1)" using w by (cases w) simp_all
  then have "(i + 2 ^ (w - 1)) mod 2 ^ w = i + 2 ^ (w - 1)"
    using a by (intro mod_pos_pos_trivial) linarith+
  then show ?thesis by (simp add: signed_of_def)
qed

lemma longlong_of_id: "- (2 ^ 63) \<le> i \<Longrightarrow> i < 2 ^ 63 \<Longrightarrow> longlong_of i = i"
  unfolding longlong_of_def by (rule signed_of_id) simp_all

lemma uint_of_id [simp]: "0 \<le> i \<Longrightarrow> i < 2 ^ 32 \<Longrightarrow> uint_of i = i"
  by (simp add: uint_of_def)

lemma uint_of_nonneg [simp]: "0 \<le> uint_of i"
  by (simp add: uint_of_def)

lemma push_bit_or:
  assumes "0 \<le> y" "y < 2 ^ n"
  shows "push_bit n (x::int) OR y = x * 2 ^ n + y"
proof -
  have y: "take_bit n y = y" using assms by (simp add: take_bit_eq_mod)
  have "push_bit n x AND take_bit n y = 0" by (rule bit_eqI) (simp add: bit_simps)
  then have "push_bit n x AND y = 0" by (simp only: y)
  then have "push_bit n x OR y = push_bit n x + y" by (simp add: disjunctive_add_eq_or)
  then show ?thesis by (simp add: push_bit_eq_mult)
qed

section \<open>Broken down times\<close>

datatype timestamp_type = MYSQL_TIMESTAMP_NONE | MYSQL_TIMESTAMP_ERROR | MYSQL_TIMESTAMP_DATE
  | MYSQL_TIMESTAMP_DATETIME | MYSQL_TIMESTAMP_TIME

record mysql_time =
  year :: int
  month :: int
  day :: int
  hour :: int
  minute :: int
  second :: int
  second_part :: int
  neg :: bool
  time_type :: timestamp_type

record timeval =
  tv_sec :: int
  tv_usec :: int

text \<open>The macros of \<open>sql/compat56.h\<close>: a packed value has 24 bits of microseconds.\<close>

definition packed_int_part :: "int \<Rightarrow> int" where
  "packed_int_part x = x div 2 ^ 24"

definition packed_frac_part :: "int \<Rightarrow> int" where
  "packed_frac_part x = x smod 2 ^ 24"

definition packed_make :: "int \<Rightarrow> int \<Rightarrow> int" where
  "packed_make i f = longlong_of (i * 2 ^ 24 + f)"

section \<open>Packed times\<close>

definition TIME_to_longlong_time_packed :: "mysql_time \<Rightarrow> int" where
  "TIME_to_longlong_time_packed t =
     (let hms = signed_of 32 (push_bit 12 (day t * 24 + hour t) OR push_bit 6 (minute t) OR second t);
          tmp = packed_make hms (second_part t)
      in if neg t then - tmp else tmp)"

definition TIME_from_longlong_time_packed :: "int \<Rightarrow> mysql_time" where
  "TIME_from_longlong_time_packed nr =
     (let tmp = (if nr < 0 then - nr else nr);
          hms = signed_of 32 (packed_int_part tmp)
      in \<lparr> year = 0, month = 0, day = 0, hour = uint_of (hms div 2 ^ 12) mod 2 ^ 10,
           minute = uint_of (hms div 2 ^ 6) mod 2 ^ 6, second = uint_of hms mod 2 ^ 6,
           second_part = uint_of (packed_frac_part tmp), neg = nr < 0, time_type = MYSQL_TIMESTAMP_TIME \<rparr>)"

definition my_time_binary_length :: "nat \<Rightarrow> nat" where
  "my_time_binary_length dec = 3 + (dec + 1) div 2"

definition TIMEF_OFS :: int where "TIMEF_OFS = 0x800000000000"
definition TIMEF_INT_OFS :: int where "TIMEF_INT_OFS = 0x800000"

definition my_time_packed_to_binary :: "int \<Rightarrow> nat \<Rightarrow> string" where
  "my_time_packed_to_binary nr dec =
     (if dec = 1 \<or> dec = 2 then
        mi_store 3 (TIMEF_INT_OFS + packed_int_part nr) @ mi_store 1 (packed_frac_part nr sdiv 10000)
      else if dec = 3 \<or> dec = 4 then
        mi_store 3 (TIMEF_INT_OFS + packed_int_part nr) @ mi_store 2 (packed_frac_part nr sdiv 100)
      else if dec = 5 \<or> dec = 6 then mi_store 6 (nr + TIMEF_OFS)
      else mi_store 3 (TIMEF_INT_OFS + packed_int_part nr))"

text \<open>A negative value is stored with its fraction in reverse order: with one or two bytes of
  fraction that are not all zero the integral part is one too low.\<close>

definition unreverse_frac :: "int \<Rightarrow> int \<Rightarrow> int \<Rightarrow> int \<Rightarrow> int" where
  "unreverse_frac intpart frac m k =
     (if intpart < 0 \<and> frac \<noteq> 0 then packed_make (intpart + 1) ((frac - m) * k)
      else packed_make intpart (frac * k))"

definition my_time_packed_from_binary :: "string \<Rightarrow> nat \<Rightarrow> int" where
  "my_time_packed_from_binary p dec =
     (if dec = 1 \<or> dec = 2 then
        unreverse_frac (mi_ukorr 3 p - TIMEF_INT_OFS) (mi_ukorr 1 (drop 3 p)) 0x100 10000
      else if dec = 3 \<or> dec = 4 then
        unreverse_frac (mi_ukorr 3 p - TIMEF_INT_OFS) (mi_ukorr 2 (drop 3 p)) 0x10000 100
      else if dec = 5 \<or> dec = 6 then mi_ukorr 6 p - TIMEF_OFS
      else packed_make (mi_ukorr 3 p - TIMEF_INT_OFS) 0)"

section \<open>Packed dates with times\<close>

definition TIME_to_longlong_datetime_packed :: "mysql_time \<Rightarrow> int" where
  "TIME_to_longlong_datetime_packed t =
     (let ymd = uint_of (push_bit 5 (year t * 13 + month t) OR day t);
          hms = uint_of (push_bit 12 (hour t) OR push_bit 6 (minute t) OR second t);
          tmp = packed_make (push_bit 17 ymd OR hms) (second_part t)
      in if neg t then - tmp else tmp)"

text \<open>The fields are unsigned: a negative remainder or quotient (the lowest value has no
  opposite) wraps around.\<close>

definition TIME_from_longlong_datetime_packed :: "int \<Rightarrow> mysql_time" where
  "TIME_from_longlong_datetime_packed nr =
     (let tmp = (if nr < 0 then longlong_of (- nr) else nr);
          ymdhms = packed_int_part tmp;
          ymd = ymdhms div 2 ^ 17;
          ym = ymd div 2 ^ 5;
          hms = ymdhms smod 2 ^ 17
      in \<lparr> year = uint_of (ym sdiv 13), month = uint_of (ym smod 13), day = uint_of (ymd smod 2 ^ 5),
           hour = uint_of (hms div 2 ^ 12), minute = uint_of (hms div 2 ^ 6 smod 2 ^ 6),
           second = uint_of (hms smod 2 ^ 6), second_part = uint_of (packed_frac_part tmp),
           neg = nr < 0, time_type = MYSQL_TIMESTAMP_DATETIME \<rparr>)"

definition my_datetime_binary_length :: "nat \<Rightarrow> nat" where
  "my_datetime_binary_length dec = 5 + (dec + 1) div 2"

definition DATETIMEF_INT_OFS :: int where "DATETIMEF_INT_OFS = 0x8000000000"

definition my_datetime_packed_from_binary :: "string \<Rightarrow> nat \<Rightarrow> int" where
  "my_datetime_packed_from_binary p dec =
     (let intpart = mi_ukorr 5 p - DATETIMEF_INT_OFS
      in if dec = 1 \<or> dec = 2 then packed_make intpart (mi_skorr 1 (drop 5 p) * 10000)
         else if dec = 3 \<or> dec = 4 then packed_make intpart (mi_skorr 2 (drop 5 p) * 100)
         else if dec = 5 \<or> dec = 6 then packed_make intpart (mi_skorr 3 (drop 5 p))
         else packed_make intpart 0)"

definition my_datetime_packed_to_binary :: "int \<Rightarrow> nat \<Rightarrow> string" where
  "my_datetime_packed_to_binary nr dec =
     mi_store 5 (packed_int_part nr + DATETIMEF_INT_OFS) @
     (if dec = 1 \<or> dec = 2 then mi_store 1 (packed_frac_part nr sdiv 10000)
      else if dec = 3 \<or> dec = 4 then mi_store 2 (packed_frac_part nr sdiv 100)
      else if dec = 5 \<or> dec = 6 then mi_store 3 (packed_frac_part nr)
      else [])"

section \<open>Timestamps\<close>

definition my_timestamp_binary_length :: "nat \<Rightarrow> nat" where
  "my_timestamp_binary_length dec = 4 + (dec + 1) div 2"

text \<open>\<open>tv_sec\<close> is a \<open>long\<close>.\<close>

definition my_timestamp_from_binary :: "string \<Rightarrow> nat \<Rightarrow> timeval" where
  "my_timestamp_from_binary p dec =
     \<lparr> tv_sec = signed_of 32 (mi_ukorr 4 p),
       tv_usec =
         (if dec = 1 \<or> dec = 2 then mi_ukorr 1 (drop 4 p) * 10000
          else if dec = 3 \<or> dec = 4 then mi_skorr 2 (drop 4 p) * 100
          else if dec = 5 \<or> dec = 6 then mi_skorr 3 (drop 4 p)
          else 0) \<rparr>"

definition my_timestamp_to_binary :: "timeval \<Rightarrow> nat \<Rightarrow> string" where
  "my_timestamp_to_binary tm dec =
     mi_store 4 (tv_sec tm) @
     (if dec = 1 \<or> dec = 2 then mi_store 1 (tv_usec tm sdiv 10000)
      else if dec = 3 \<or> dec = 4 then mi_store 2 (tv_usec tm sdiv 100)
      else if dec = 5 \<or> dec = 6 then mi_store 3 (tv_usec tm)
      else [])"

section \<open>Texts\<close>

definition MAX_DATE_STRING_REP_LENGTH :: nat where "MAX_DATE_STRING_REP_LENGTH = 30"
definition AUTO_SEC_PART_DIGITS :: nat where "AUTO_SEC_PART_DIGITS = 39"
definition TIME_SECOND_PART_DIGITS :: nat where "TIME_SECOND_PART_DIGITS = 6"

text \<open>The number, padded with zeros to exactly that many digits.\<close>

fun fmt_number :: "int \<Rightarrow> nat \<Rightarrow> string" where
  "fmt_number val 0 = []"
| "fmt_number val (Suc digits) = fmt_number (val div 10) digits @ [digit_char (nat (val mod 10))]"

text \<open>\<open>longlong10_to_str\<close> with the radix 10 takes its argument as unsigned.\<close>

definition longlong10_unsigned :: "int \<Rightarrow> string" where
  "longlong10_unsigned i = show_dec (nat (i mod 2 ^ 64))"

text \<open>More than six digits index \<open>log_10_int\<close> below its start.\<close>

definition sec_part_shift :: "int \<Rightarrow> nat \<Rightarrow> int res" where
  "sec_part_shift part digits =
     (if digits > TIME_SECOND_PART_DIGITS then Inl (Out_of_bounds ''log_10_int'')
      else Inr (part sdiv 10 ^ (TIME_SECOND_PART_DIGITS - digits)))"

definition frac_str :: "int \<Rightarrow> nat \<Rightarrow> string res" where
  "frac_str part digits =
     (if digits = 0 then Inr []
      else and_then (sec_part_shift part digits) (\<lambda>v. Inr (CHR ''.'' # fmt_number (uint_of v) digits)))"

definition second_digits :: "mysql_time \<Rightarrow> nat \<Rightarrow> nat" where
  "second_digits t digits =
     (if digits = AUTO_SEC_PART_DIGITS then if second_part t \<noteq> 0 then TIME_SECOND_PART_DIGITS else 0
      else digits)"

definition hms_str :: "mysql_time \<Rightarrow> string" where
  "hms_str t = CHR '':'' # fmt_number (minute t) 2 @ CHR '':'' # fmt_number (second t) 2"

text \<open>More than two digits only for the hours of a duration.\<close>

definition hour_str :: "int \<Rightarrow> string" where
  "hour_str h = (if h > 99 then longlong10_unsigned h else fmt_number h 2)"

definition my_time_to_str :: "mysql_time \<Rightarrow> nat \<Rightarrow> string res" where
  "my_time_to_str t digits =
     (let day = (if year t \<noteq> 0 \<or> month t \<noteq> 0 then 0 else day t);
          hour = uint_of (day * 24 + hour t)
      in and_then (frac_str (second_part t) (second_digits t digits)) (\<lambda>f. Inr (
           (if neg t then ''-'' else []) @ hour_str hour @ hms_str t @ f)))"

definition my_datetime_to_str :: "mysql_time \<Rightarrow> nat \<Rightarrow> string res" where
  "my_datetime_to_str t digits =
     and_then (frac_str (second_part t) (second_digits t digits)) (\<lambda>f. Inr (
       fmt_number (year t) 4 @ CHR ''-'' # fmt_number (month t) 2 @ CHR ''-'' # fmt_number (day t) 2 @
       CHR '' '' # fmt_number (hour t) 2 @ hms_str t @ f))"

definition my_timeval_to_str :: "timeval \<Rightarrow> nat \<Rightarrow> string res" where
  "my_timeval_to_str tm dec =
     and_then (frac_str (tv_usec tm) dec) (\<lambda>f. Inr (longlong10_unsigned (tv_sec tm) @ f))"

section \<open>Round trips\<close>

text \<open>A duration the server can store: at most 838 hours, as many digits of the microseconds as
  the column has, and no negative zero.\<close>

definition storable_time :: "mysql_time \<Rightarrow> nat \<Rightarrow> bool" where
  "storable_time t dec \<longleftrightarrow>
     dec \<le> 6 \<and> year t = 0 \<and> month t = 0 \<and> day t = 0 \<and> 0 \<le> hour t \<and> hour t \<le> 838 \<and>
     0 \<le> minute t \<and> minute t < 60 \<and> 0 \<le> second t \<and> second t < 60 \<and>
     0 \<le> second_part t \<and> second_part t < 1000000 \<and> second_part t mod 10 ^ (6 - dec) = 0 \<and>
     (neg t \<longrightarrow> hour t \<noteq> 0 \<or> minute t \<noteq> 0 \<or> second t \<noteq> 0 \<or> second_part t \<noteq> 0) \<and>
     time_type t = MYSQL_TIMESTAMP_TIME"

text \<open>The sign and the magnitude of a packed value.\<close>

lemma smod_nonneg: "0 \<le> (a::int) \<Longrightarrow> 0 < b \<Longrightarrow> a smod b = a mod b"
  by (simp add: signed_modulo_int_def sgn_if)

lemma sdiv_nonneg: "0 \<le> (a::int) \<Longrightarrow> 0 < b \<Longrightarrow> a sdiv b = a div b"
  by (simp add: signed_divide_int_def sgn_if)

lemma packed_parts_pos:
  assumes "0 \<le> i" "0 \<le> f" "f < 2 ^ 24"
  shows "packed_int_part (i * 2 ^ 24 + f) = i" "packed_frac_part (i * 2 ^ 24 + f) = f"
  using assms by (simp_all add: packed_int_part_def packed_frac_part_def smod_nonneg)

lemma packed_parts_neg:
  assumes "0 \<le> i" "0 \<le> f" "f < 2 ^ 24"
  shows "packed_int_part (- (i * 2 ^ 24 + f)) = (if f = 0 then - i else - i - 1)"
    and "packed_frac_part (- (i * 2 ^ 24 + f)) = - f"
proof -
  show "packed_int_part (- (i * 2 ^ 24 + f)) = (if f = 0 then - i else - i - 1)"
    using assms by (simp add: packed_int_part_def) linarith
  show "packed_frac_part (- (i * 2 ^ 24 + f)) = - f"
    using assms packed_parts_pos(2) [OF assms] by (simp only: packed_frac_part_def minus_smod_eq)
qed

lemma packed_make_id:
  assumes "- (2 ^ 39) \<le> i" "i < 2 ^ 39" "0 \<le> i * 2 ^ 24 + f + 2 ^ 63" "i * 2 ^ 24 + f < 2 ^ 63"
  shows "packed_make i f = i * 2 ^ 24 + f"
  unfolding packed_make_def by (rule longlong_of_id) (use assms in linarith)+

lemma dvd_div_scale: "(f::int) mod b = 0 \<Longrightarrow> c dvd b \<Longrightarrow> f div c * c = f"
  by (meson dvd_div_mult_self dvd_trans mod_0_imp_dvd)

lemma frac_scale:
  "dec = 1 \<or> dec = 2 \<Longrightarrow> f mod 10 ^ (6 - dec) = 0 \<Longrightarrow> f div 10000 * 10000 = (f::int)"
  "dec = 3 \<or> dec = 4 \<Longrightarrow> f mod 10 ^ (6 - dec) = 0 \<Longrightarrow> f div 100 * 100 = f"
  by (elim disjE; hypsubst; rule dvd_div_scale, assumption, simp)+

text \<open>Undoing the reverse order of a fraction of one or two bytes.\<close>

lemma unreverse_pos:
  assumes "0 \<le> i" "i < 2 ^ 23" "0 \<le> g" "g < m" "g * k < 2 ^ 24" "0 \<le> k"
  shows "unreverse_frac i (g mod m) m k = i * 2 ^ 24 + g * k"
proof -
  have "0 \<le> g * k" using assms by simp
  then show ?thesis using assms by (simp add: unreverse_frac_def packed_make_id)
qed

lemma unreverse_neg:
  assumes "0 \<le> i" "i < 2 ^ 23" "0 \<le> g" "g < m" "g * k < 2 ^ 24" "0 \<le> k"
  shows "unreverse_frac (if g = 0 then - i else - i - 1) (- g mod m) m k = - (i * 2 ^ 24 + g * k)"
proof (cases "g = 0")
  case True
  then show ?thesis using assms by (simp add: unreverse_frac_def packed_make_id)
next
  case False
  then have "- g mod m = m - g" using assms by (simp add: zmod_zminus1_eq_if)
  moreover have "0 \<le> g * k" using assms by simp
  moreover have "packed_make (- i) (- (g * k)) = - i * 2 ^ 24 + - (g * k)"
    by (rule packed_make_id) (use assms \<open>0 \<le> g * k\<close> in \<open>(simp; linarith)+\<close>)
  ultimately show ?thesis using assms False by (simp add: unreverse_frac_def)
qed

lemma time_int_byte:
  "- (2 ^ 23) \<le> i \<Longrightarrow> i < 2 ^ 23 \<Longrightarrow> (TIMEF_INT_OFS + i) mod 256 ^ 3 - TIMEF_INT_OFS = i"
  by (simp add: TIMEF_INT_OFS_def)

lemma time_dec_cases:
  "my_time_packed_from_binary (my_time_packed_to_binary nr 0) 0 =
     packed_make ((TIMEF_INT_OFS + packed_int_part nr) mod 256 ^ 3 - TIMEF_INT_OFS) 0"
  "dec = 1 \<or> dec = 2 \<Longrightarrow> my_time_packed_from_binary (my_time_packed_to_binary nr dec) dec =
     unreverse_frac ((TIMEF_INT_OFS + packed_int_part nr) mod 256 ^ 3 - TIMEF_INT_OFS)
       ((packed_frac_part nr sdiv 10000) mod 0x100) 0x100 10000"
  "dec = 3 \<or> dec = 4 \<Longrightarrow> my_time_packed_from_binary (my_time_packed_to_binary nr dec) dec =
     unreverse_frac ((TIMEF_INT_OFS + packed_int_part nr) mod 256 ^ 3 - TIMEF_INT_OFS)
       ((packed_frac_part nr sdiv 100) mod 0x10000) 0x10000 100"
  "dec = 5 \<or> dec = 6 \<Longrightarrow> my_time_packed_from_binary (my_time_packed_to_binary nr dec) dec =
     (nr + TIMEF_OFS) mod 256 ^ 6 - TIMEF_OFS"
  by (auto simp: my_time_packed_to_binary_def my_time_packed_from_binary_def mi_ukorr_def
      mi_be_store [of 1, simplified] mi_be_store power_numeral_reduce)

lemma time_binary_roundtrip:
  assumes i: "0 \<le> i" "i < 2 ^ 23" and f: "0 \<le> f" "f < 1000000"
    and dec: "dec \<le> 6" "f mod 10 ^ (6 - dec) = 0"
    and nr: "nr = i * 2 ^ 24 + f \<or> nr = - (i * 2 ^ 24 + f)"
  shows "my_time_packed_from_binary (my_time_packed_to_binary nr dec) dec = nr"
proof -
  have f24: "f < 2 ^ 24" using f by simp
  note pos = packed_parts_pos [OF i(1) f(1) f24] and ng = packed_parts_neg [OF i(1) f(1) f24]
  have ib: "(TIMEF_INT_OFS + i) mod 256 ^ 3 - TIMEF_INT_OFS = i"
    "(TIMEF_INT_OFS + (if f = 0 then - i else - i - 1)) mod 256 ^ 3 - TIMEF_INT_OFS
       = (if f = 0 then - i else - i - 1)"
    by (rule time_int_byte; use i in simp)+
  consider "dec = 0" | "dec = 1 \<or> dec = 2" | "dec = 3 \<or> dec = 4" | "dec = 5 \<or> dec = 6"
    using dec(1) by linarith
  then show ?thesis
  proof cases
    case 1
    then have "f = 0" using dec f by simp
    then show ?thesis using 1 nr i pos ng ib by (auto simp: time_dec_cases(1) packed_make_id)
  next
    case 2
    have c: "f div 10000 * 10000 = f" by (rule frac_scale(1) [OF 2 dec(2)])
    have b: "0 \<le> f div 10000" "f div 10000 < 0x100" "f div 10000 * 10000 < 2 ^ 24" using f c by auto
    have z: "(f div 10000 = 0) = (f = 0)" using c by linarith
    have up: "unreverse_frac i (f div 10000 mod 0x100) 0x100 10000 = i * 2 ^ 24 + f"
      using unreverse_pos [OF i b] c by simp
    have un: "unreverse_frac (if f = 0 then - i else - i - 1) (- (f div 10000) mod 0x100) 0x100 10000
                = - (i * 2 ^ 24 + f)"
      using unreverse_neg [OF i b] c z by simp
    show ?thesis unfolding time_dec_cases(2) [OF 2]
      using nr by (elim disjE)
        (simp_all only: pos ng ib minus_sdiv_eq sdiv_nonneg [OF f(1)] zero_less_numeral up un)
  next
    case 3
    have c: "f div 100 * 100 = f" by (rule frac_scale(2) [OF 3 dec(2)])
    have b: "0 \<le> f div 100" "f div 100 < 0x10000" "f div 100 * 100 < 2 ^ 24" using f c by auto
    have z: "(f div 100 = 0) = (f = 0)" using c by linarith
    have up: "unreverse_frac i (f div 100 mod 0x10000) 0x10000 100 = i * 2 ^ 24 + f"
      using unreverse_pos [OF i b] c by simp
    have un: "unreverse_frac (if f = 0 then - i else - i - 1) (- (f div 100) mod 0x10000) 0x10000 100
                = - (i * 2 ^ 24 + f)"
      using unreverse_neg [OF i b] c z by simp
    show ?thesis unfolding time_dec_cases(3) [OF 3]
      using nr by (elim disjE)
        (simp_all only: pos ng ib minus_sdiv_eq sdiv_nonneg [OF f(1)] zero_less_numeral up un)
  next
    case 4
    show ?thesis unfolding time_dec_cases(4) [OF 4] using nr i f by (auto simp: TIMEF_OFS_def)
  qed
qed

text \<open>The fields of a time are disjoint groups of bits.\<close>

lemma hms_bits:
  assumes "0 \<le> m" "m < 60" "0 \<le> s" "s < 60"
  shows "push_bit 12 h OR push_bit 6 m OR s = h * 2 ^ 12 + m * 2 ^ 6 + (s::int)"
proof -
  have "push_bit 6 m OR s = m * 2 ^ 6 + s" using assms by (intro push_bit_or) auto
  moreover have "push_bit 12 h OR (m * 2 ^ 6 + s) = h * 2 ^ 12 + (m * 2 ^ 6 + s)"
    using assms by (intro push_bit_or) auto
  ultimately show ?thesis by simp
qed

lemma hms_parts:
  assumes "0 \<le> h" "h < 2 ^ 10" "0 \<le> m" "m < 60" "0 \<le> s" "s < (60::int)"
  shows "(h * 2 ^ 12 + m * 2 ^ 6 + s) div 2 ^ 12 = h"
    "(h * 2 ^ 12 + m * 2 ^ 6 + s) div 2 ^ 6 mod 2 ^ 6 = m"
    "(h * 2 ^ 12 + m * 2 ^ 6 + s) mod 2 ^ 6 = s"
    "0 \<le> h * 2 ^ 12 + m * 2 ^ 6 + s" "h * 2 ^ 12 + m * 2 ^ 6 + s < 2 ^ 22"
proof -
  have eq: "h * 2 ^ 12 + m * 2 ^ 6 + s = (h * 2 ^ 6 + m) * 2 ^ 6 + s" by simp
  have d: "(h * 2 ^ 12 + m * 2 ^ 6 + s) div 2 ^ 6 = h * 2 ^ 6 + m" unfolding eq using assms by simp
  show "(h * 2 ^ 12 + m * 2 ^ 6 + s) div 2 ^ 6 mod 2 ^ 6 = m" unfolding d using assms by simp
  show "(h * 2 ^ 12 + m * 2 ^ 6 + s) mod 2 ^ 6 = s"
    unfolding eq by (subst mod_mult_self3) (use assms in simp)
qed (use assms in auto)

lemma time_packed_roundtrip:
  assumes "storable_time t dec"
  obtains i f where "0 \<le> i" "i < 2 ^ 23" "0 \<le> f" "f < 1000000" "f mod 10 ^ (6 - dec) = 0"
    "TIME_to_longlong_time_packed t = (if neg t then - (i * 2 ^ 24 + f) else i * 2 ^ 24 + f)"
    "TIME_from_longlong_time_packed (TIME_to_longlong_time_packed t) = t"
proof -
  note st = assms [unfolded storable_time_def]
  define i where "i = hour t * 2 ^ 12 + minute t * 2 ^ 6 + second t"
  define f where "f = second_part t"
  have p: "i div 2 ^ 12 = hour t" "i div 2 ^ 6 mod 2 ^ 6 = minute t" "i mod 2 ^ 6 = second t"
    "0 \<le> i" "i < 2 ^ 22" unfolding i_def by (rule hms_parts; use st in simp)+
  have f: "0 \<le> f" "f < 2 ^ 24" using st by (simp_all add: f_def)
  have hms: "signed_of 32 (push_bit 12 (day t * 24 + hour t) OR push_bit 6 (minute t) OR second t) = i"
  proof -
    have "push_bit 12 (day t * 24 + hour t) OR push_bit 6 (minute t) OR second t = i"
      using hms_bits [of "minute t" "second t" "hour t"] st by (simp add: i_def)
    then show ?thesis using p(4,5) by (simp add: signed_of_id)
  qed
  have mk: "packed_make i f = i * 2 ^ 24 + f" using p(4,5) f by (simp add: packed_make_id)
  have to: "TIME_to_longlong_time_packed t = (if neg t then - (i * 2 ^ 24 + f) else i * 2 ^ 24 + f)"
    unfolding TIME_to_longlong_time_packed_def Let_def hms f_def [symmetric] mk ..
  have nz: "neg t \<Longrightarrow> 0 < i * 2 ^ 24 + f"
  proof -
    assume "neg t"
    then have "i \<noteq> 0 \<or> f \<noteq> 0" using st p(1-3) by (auto simp: f_def)
    then show ?thesis using p(4) f(1) by auto
  qed
  have mag: "(if neg t then - TIME_to_longlong_time_packed t else TIME_to_longlong_time_packed t)
       = i * 2 ^ 24 + f"
    and sgn: "(TIME_to_longlong_time_packed t < 0) = neg t"
    using nz p(4) f(1) unfolding to by auto
  have frm: "TIME_from_longlong_time_packed (TIME_to_longlong_time_packed t) = t"
  proof -
    have "signed_of 32 i = i" using p(4,5) by (simp add: signed_of_id)
    moreover have "uint_of (hour t) mod 2 ^ 10 = hour t" using st by simp
    moreover have "uint_of (i div 2 ^ 6) mod 2 ^ 6 = minute t"
      using p by (subst uint_of_id) (auto intro: order_le_less_trans [of _ i])
    moreover have "uint_of i mod 2 ^ 6 = second t" using p by simp
    moreover have "uint_of f = second_part t" using f by (simp add: f_def)
    ultimately show ?thesis
      unfolding TIME_from_longlong_time_packed_def Let_def mag sgn packed_parts_pos [OF p(4) f] p(1)
      by (intro mysql_time.equality) (simp_all add: st p(1) del: power_numeral)
  qed
  show thesis
    by (rule that [of i f]) (use st p(4,5) to frm in \<open>simp_all add: f_def\<close>)
qed

lemma time_roundtrip:
  assumes "storable_time t dec"
  shows "TIME_from_longlong_time_packed
           (my_time_packed_from_binary (my_time_packed_to_binary (TIME_to_longlong_time_packed t) dec) dec) = t"
proof -
  obtain i f where "0 \<le> i" "i < 2 ^ 23" "0 \<le> f" "f < 1000000" "f mod 10 ^ (6 - dec) = 0"
    "TIME_to_longlong_time_packed t = (if neg t then - (i * 2 ^ 24 + f) else i * 2 ^ 24 + f)"
    "TIME_from_longlong_time_packed (TIME_to_longlong_time_packed t) = t"
    by (rule time_packed_roundtrip [OF assms])
  moreover have "dec \<le> 6" using assms by (simp add: storable_time_def)
  ultimately show ?thesis using time_binary_roundtrip [of i f dec "TIME_to_longlong_time_packed t"]
    by (metis (full_types))
qed

text \<open>A date with a time that the server can store.\<close>

definition storable_datetime :: "mysql_time \<Rightarrow> nat \<Rightarrow> bool" where
  "storable_datetime t dec \<longleftrightarrow>
     dec \<le> 6 \<and> 0 \<le> year t \<and> year t \<le> 9999 \<and> 0 \<le> month t \<and> month t \<le> 12 \<and>
     0 \<le> day t \<and> day t \<le> 31 \<and> 0 \<le> hour t \<and> hour t < 24 \<and>
     0 \<le> minute t \<and> minute t < 60 \<and> 0 \<le> second t \<and> second t < 60 \<and>
     0 \<le> second_part t \<and> second_part t < 1000000 \<and> second_part t mod 10 ^ (6 - dec) = 0 \<and>
     \<not> neg t \<and> time_type t = MYSQL_TIMESTAMP_DATETIME"

lemma mi_skorr_store: "0 < n \<Longrightarrow> 0 \<le> v \<Longrightarrow> v < 2 ^ (8 * n - 1) \<Longrightarrow> mi_skorr n (mi_store n v) = v"
proof -
  assume n: "0 < n" and v: "0 \<le> v" "v < 2 ^ (8 * n - 1)"
  have p: "(256::int) ^ n = 2 ^ (8 * n)" by (simp add: power_mult)
  have "(2::int) ^ (8 * n - 1) \<le> 2 ^ (8 * n)" by (rule power_increasing) auto
  then have "v mod 256 ^ n = v" unfolding p using v by (intro mod_pos_pos_trivial) linarith+
  then show ?thesis using n v by (simp add: mi_skorr_def signed_of_id)
qed

lemma datetime_binary_roundtrip:
  assumes i: "0 \<le> i" "i < 2 ^ 39" and f: "0 \<le> f" "f < 1000000"
    and dec: "dec \<le> 6" "f mod 10 ^ (6 - dec) = 0"
  shows "my_datetime_packed_from_binary (my_datetime_packed_to_binary (i * 2 ^ 24 + f) dec) dec
           = i * 2 ^ 24 + f"
proof -
  have f24: "f < 2 ^ 24" using f by simp
  note pos = packed_parts_pos [OF i(1) f(1) f24] and sd = sdiv_nonneg [OF f(1)]
  have ib: "(i + DATETIMEF_INT_OFS) mod 256 ^ 5 - DATETIMEF_INT_OFS = i"
    using i by (simp add: DATETIMEF_INT_OFS_def)
  have mk: "packed_make i f = i * 2 ^ 24 + f" using i f by (simp add: packed_make_id)
  consider "dec = 0" | "dec = 1 \<or> dec = 2" | "dec = 3 \<or> dec = 4" | "dec = 5 \<or> dec = 6"
    using dec(1) by linarith
  then show ?thesis
  proof cases
    case 1
    then have "f = 0" using dec f by simp
    then show ?thesis using 1 pos ib mk
      by (simp add: my_datetime_packed_to_binary_def my_datetime_packed_from_binary_def Let_def
          del: power_numeral)
  next
    case 2
    have c: "f div 10000 * 10000 = f" by (rule frac_scale(1) [OF 2 dec(2)])
    have s: "mi_skorr 1 (mi_store 1 (f div 10000)) = f div 10000"
      by (rule mi_skorr_store) (use f in auto)
    show ?thesis using 2 pos ib mk c s sd
      by (auto simp: my_datetime_packed_to_binary_def my_datetime_packed_from_binary_def Let_def
          simp del: mi_store.simps power_numeral One_nat_def)
  next
    case 3
    have c: "f div 100 * 100 = f" by (rule frac_scale(2) [OF 3 dec(2)])
    have s: "mi_skorr 2 (mi_store 2 (f div 100)) = f div 100"
      by (rule mi_skorr_store) (use f in auto)
    show ?thesis using 3 pos ib mk c s sd
      by (auto simp: my_datetime_packed_to_binary_def my_datetime_packed_from_binary_def Let_def
          simp del: mi_store.simps power_numeral)
  next
    case 4
    have s: "mi_skorr 3 (mi_store 3 f) = f" by (rule mi_skorr_store) (use f in auto)
    show ?thesis using 4 pos ib mk s
      by (auto simp: my_datetime_packed_to_binary_def my_datetime_packed_from_binary_def Let_def
          simp del: mi_store.simps power_numeral)
  qed
qed

lemma datetime_packed_roundtrip:
  assumes "storable_datetime t dec"
  obtains i where "0 \<le> i" "i < 2 ^ 39"
    "TIME_to_longlong_datetime_packed t = i * 2 ^ 24 + second_part t"
    "TIME_from_longlong_datetime_packed (TIME_to_longlong_datetime_packed t) = t"
proof -
  note st = assms [unfolded storable_datetime_def]
  define ym where "ym = year t * 13 + month t"
  define ymd where "ymd = ym * 2 ^ 5 + day t"
  define hms where "hms = hour t * 2 ^ 12 + minute t * 2 ^ 6 + second t"
  define i where "i = ymd * 2 ^ 17 + hms"
  define f where "f = second_part t"
  have p: "hms div 2 ^ 12 = hour t" "hms div 2 ^ 6 mod 2 ^ 6 = minute t" "hms mod 2 ^ 6 = second t"
    "0 \<le> hms" "hms < 2 ^ 22" unfolding hms_def by (rule hms_parts; use st in simp)+
  have h17: "hms < 2 ^ 17" using st unfolding hms_def by simp
  have f: "0 \<le> f" "f < 2 ^ 24" using st by (simp_all add: f_def)
  have ym: "ym sdiv 13 = year t" "ym smod 13 = month t" "0 \<le> ym" "ym < 2 ^ 17"
    using st by (simp_all add: ym_def sdiv_nonneg smod_nonneg)
  have ymd: "ymd div 2 ^ 5 = ym" "ymd smod 2 ^ 5 = day t" "0 \<le> ymd" "ymd < 2 ^ 22"
    using st ym(3,4) by (simp_all add: ymd_def smod_nonneg)
  have i: "i div 2 ^ 17 = ymd" "i smod 2 ^ 17 = hms" "0 \<le> i" "i < 2 ^ 39"
    using p(4) h17 ymd(3,4) by (simp_all add: i_def smod_nonneg)
  have 1: "uint_of (push_bit 5 (year t * 13 + month t) OR day t) = ymd"
    using st ymd(3,4) by (subst push_bit_or) (simp_all add: ymd_def ym_def)
  have 2: "uint_of (push_bit 12 (hour t) OR push_bit 6 (minute t) OR second t) = hms"
    using st p(4,5) by (subst hms_bits) (simp_all only: hms_def [symmetric], simp)
  have 3: "push_bit 17 ymd OR hms = i" using p(4) h17 unfolding i_def by (rule push_bit_or)
  have mk: "packed_make i f = i * 2 ^ 24 + f" using i(3,4) f by (simp add: packed_make_id)
  have to: "TIME_to_longlong_datetime_packed t = i * 2 ^ 24 + f"
    using st by (simp only: TIME_to_longlong_datetime_packed_def Let_def 1 2 3 f_def [symmetric] mk if_False)
  have n: "(i * 2 ^ 24 + f < 0) = False" using i(3) f(1) by simp
  have u: "uint_of (year t) = year t" "uint_of (month t) = month t" "uint_of (day t) = day t"
    "uint_of (hour t) = hour t" "uint_of (minute t) = minute t" "uint_of (second t) = second t"
    "uint_of (second_part t) = second_part t"
    using st by simp_all
  have "hms div 2 ^ 6 smod 2 ^ 6 = minute t" "hms smod 2 ^ 6 = second t"
    using p by (simp_all add: smod_nonneg)
  then have frm: "TIME_from_longlong_datetime_packed (TIME_to_longlong_datetime_packed t) = t"
    unfolding TIME_from_longlong_datetime_packed_def Let_def to n if_False
      packed_parts_pos [OF i(3) f] i(1,2) ymd(1,2) ym(1,2) p(1)
    by (intro mysql_time.equality) (simp_all add: f_def u st del: power_numeral)
  show thesis by (rule that [of i]) (use i(3,4) to frm in \<open>simp_all add: f_def\<close>)
qed

lemma datetime_roundtrip:
  assumes "storable_datetime t dec"
  shows "TIME_from_longlong_datetime_packed
           (my_datetime_packed_from_binary (my_datetime_packed_to_binary (TIME_to_longlong_datetime_packed t) dec) dec) = t"
proof -
  obtain i where "0 \<le> i" "i < 2 ^ 39"
    "TIME_to_longlong_datetime_packed t = i * 2 ^ 24 + second_part t"
    "TIME_from_longlong_datetime_packed (TIME_to_longlong_datetime_packed t) = t"
    by (rule datetime_packed_roundtrip [OF assms])
  then show ?thesis using datetime_binary_roundtrip [of i "second_part t" dec] assms
    by (simp add: storable_datetime_def)
qed

text \<open>A timestamp with the microseconds its column keeps. The seconds go up to the year 2038.\<close>

definition storable_timestamp :: "timeval \<Rightarrow> nat \<Rightarrow> bool" where
  "storable_timestamp tm dec \<longleftrightarrow>
     dec \<le> 6 \<and> 0 \<le> tv_sec tm \<and> tv_sec tm < 2 ^ 31 \<and> 0 \<le> tv_usec tm \<and> tv_usec tm < 1000000 \<and>
     tv_usec tm mod 10 ^ (6 - dec) = 0"

lemma timestamp_roundtrip:
  assumes "storable_timestamp tm dec"
  shows "my_timestamp_from_binary (my_timestamp_to_binary tm dec) dec = tm"
proof -
  define f where "f = tv_usec tm"
  note st = assms [unfolded storable_timestamp_def, folded f_def]
  have f: "0 \<le> f" "f < 1000000" using st by auto
  note sd = sdiv_nonneg [OF f(1)]
  have s: "signed_of 32 (tv_sec tm) = tv_sec tm" using st by (simp add: signed_of_id)
  consider "dec = 0" | "dec = 1 \<or> dec = 2" | "dec = 3 \<or> dec = 4" | "dec = 5 \<or> dec = 6"
    using st by linarith
  then have "tv_usec (my_timestamp_from_binary (my_timestamp_to_binary tm dec) dec) = f"
  proof cases
    case 1
    then show ?thesis using st f by (simp add: my_timestamp_from_binary_def)
  next
    case 2
    then have c: "f div 10000 * 10000 = f" using frac_scale(1) [OF 2, of f] st by simp
    have "mi_ukorr 1 (mi_store 1 (f div 10000)) = f div 10000"
      unfolding mi_ukorr_store' using f by simp
    then show ?thesis using 2 c sd
      by (auto simp: my_timestamp_to_binary_def my_timestamp_from_binary_def f_def [symmetric]
          simp del: mi_store.simps One_nat_def mi_ukorr_store')
  next
    case 3
    then have c: "f div 100 * 100 = f" using frac_scale(2) [OF 3, of f] st by simp
    have "mi_skorr 2 (mi_store 2 (f div 100)) = f div 100"
      by (rule mi_skorr_store) (use f in auto)
    then show ?thesis using 3 c sd
      by (auto simp: my_timestamp_to_binary_def my_timestamp_from_binary_def f_def [symmetric]
          simp del: mi_store.simps)
  next
    case 4
    have "mi_skorr 3 (mi_store 3 f) = f" by (rule mi_skorr_store) (use f in auto)
    then show ?thesis using 4
      by (auto simp: my_timestamp_to_binary_def my_timestamp_from_binary_def f_def [symmetric]
          simp del: mi_store.simps)
  qed
  moreover have "tv_sec (my_timestamp_from_binary (my_timestamp_to_binary tm dec) dec) = tv_sec tm"
    using st s by (simp add: my_timestamp_from_binary_def my_timestamp_to_binary_def del: mi_store.simps)
  ultimately show ?thesis by (simp add: f_def)
qed

section \<open>The texts\<close>

lemma length_fmt_number [simp]: "length (fmt_number v d) = d"
  by (induction d arbitrary: v) simp_all

lemma fmt_number_digits: "c \<in> set (fmt_number v d) \<Longrightarrow> is_digit c"
  by (induction d arbitrary: v) auto

lemma dec_val_fmt_number: "dec_val a (fmt_number v d) = a * 10 ^ d + nat (v mod 10 ^ d)"
proof (induction d arbitrary: v)
  case (Suc d)
  have "dec_val a (fmt_number v (Suc d))
      = 10 * (a * 10 ^ d + nat (v div 10 mod 10 ^ d)) + nat (v mod 10)"
    by (simp add: dec_val_append fmt_number_digits Suc)
  moreover have "nat (v mod 10 ^ Suc d) = 10 * nat (v div 10 mod 10 ^ d) + nat (v mod 10)"
    by (simp add: zmod_zmult2_eq nat_add_distrib nat_mult_distrib)
  ultimately show ?case by simp
qed simp

lemma fmt_number_inj:
  assumes "fmt_number v d = fmt_number w d" "0 \<le> v" "v < 10 ^ d" "0 \<le> w" "w < 10 ^ d"
  shows "v = w"
proof -
  have "dec_val 0 (fmt_number v d) = dec_val 0 (fmt_number w d)" by (simp only: assms(1))
  then show ?thesis using assms(2-5) by (simp add: dec_val_fmt_number)
qed

definition time_char :: "char \<Rightarrow> bool" where
  "time_char c \<longleftrightarrow> is_digit c \<or> c \<in> set ''-: .''"

lemma frac_str_ok:
  assumes "d \<le> 6 \<or> d = 0"
  obtains s where "frac_str v d = Inr s" "length s \<le> 7" "\<forall>c \<in> set s. time_char c"
  using assms fmt_number_digits
  by (cases "d = 0") (auto simp: frac_str_def sec_part_shift_def TIME_SECOND_PART_DIGITS_def time_char_def)

lemma length_show_dec_le: "n < 10 ^ k \<Longrightarrow> 0 < k \<Longrightarrow> k \<le> m \<Longrightarrow> length (show_dec n) \<le> m"
  using length_show_dec [of k n] by simp

lemma hms_str_ok: "length (hms_str t) = 6" "c \<in> set (hms_str t) \<Longrightarrow> time_char c"
  using fmt_number_digits by (auto simp: hms_str_def time_char_def)

lemma my_time_to_str_ok:
  assumes "dec \<le> 6" "year t = 0" "month t = 0" "day t = 0" "0 \<le> hour t" "hour t < 1024"
  obtains s where "my_time_to_str t dec = Inr s" "length s \<le> 18" "\<forall>c \<in> set s. time_char c"
proof -
  have "second_digits t dec \<le> 6" using assms(1) by (simp add: second_digits_def AUTO_SEC_PART_DIGITS_def)
  then obtain f where f: "frac_str (second_part t) (second_digits t dec) = Inr f"
    "length f \<le> 7" "\<forall>c \<in> set f. time_char c" using frac_str_ok by blast
  define h where "h = hour_str (hour t)"
  have "length (show_dec (nat (hour t))) \<le> 4"
    by (rule length_show_dec_le [of _ 4]) (use assms in auto)
  then have h: "length h \<le> 4" using assms by (simp add: h_def hour_str_def longlong10_unsigned_def)
  have hc: "\<forall>c \<in> set h. time_char c" using fmt_number_digits show_dec_digits
    by (auto simp: h_def hour_str_def longlong10_unsigned_def time_char_def)
  have eq: "my_time_to_str t dec = Inr ((if neg t then ''-'' else []) @ h @ hms_str t @ f)"
    using assms f(1) by (simp add: my_time_to_str_def h_def Let_def)
  show thesis
  proof (rule that [OF eq])
    show "length ((if neg t then ''-'' else []) @ h @ hms_str t @ f) \<le> 18"
      using h f(2) by (simp add: hms_str_ok)
    show "\<forall>c \<in> set ((if neg t then ''-'' else []) @ h @ hms_str t @ f). time_char c"
      using hc f(3) hms_str_ok(2) by (auto simp: time_char_def)
  qed
qed

lemma my_datetime_to_str_ok:
  assumes "dec \<le> 6"
  obtains s where "my_datetime_to_str t dec = Inr s" "length s \<le> 26" "\<forall>c \<in> set s. time_char c"
proof -
  have "second_digits t dec \<le> 6" using assms(1) by (simp add: second_digits_def AUTO_SEC_PART_DIGITS_def)
  then obtain f where f: "frac_str (second_part t) (second_digits t dec) = Inr f"
    "length f \<le> 7" "\<forall>c \<in> set f. time_char c" using frac_str_ok by blast
  define s where "s = fmt_number (year t) 4 @ CHR ''-'' # fmt_number (month t) 2 @ CHR ''-'' #
    fmt_number (day t) 2 @ CHR '' '' # fmt_number (hour t) 2 @ hms_str t @ f"
  have "my_datetime_to_str t dec = Inr s" using f(1) by (simp add: my_datetime_to_str_def s_def)
  moreover have "length s \<le> 26" using f(2) by (simp add: s_def hms_str_ok)
  moreover have "\<forall>c \<in> set s. time_char c" unfolding s_def
    using f(3) hms_str_ok(2) fmt_number_digits by (auto simp: time_char_def)
  ultimately show thesis by (rule that)
qed

lemma my_timeval_to_str_ok:
  assumes "dec \<le> 6"
  obtains s where "my_timeval_to_str tm dec = Inr s" "length s \<le> 27" "\<forall>c \<in> set s. time_char c"
proof -
  obtain f where f: "frac_str (tv_usec tm) dec = Inr f" "length f \<le> 7" "\<forall>c \<in> set f. time_char c"
    using frac_str_ok assms by blast
  have "length (longlong10_unsigned (tv_sec tm)) \<le> 20" unfolding longlong10_unsigned_def
    by (rule length_show_dec_le [of _ 20]) auto
  then show thesis
    using f show_dec_digits
    by (intro that [of "longlong10_unsigned (tv_sec tm) @ f"])
      (auto simp: my_timeval_to_str_def longlong10_unsigned_def time_char_def)
qed

text \<open>Texts of equal values only: a value that the server can store is determined by its text.\<close>

lemma div_less_mult: "0 < (k::int) \<Longrightarrow> a < k * c \<Longrightarrow> a div k < c"
proof (rule ccontr)
  assume k: "0 < k" and a: "a < k * c" and "\<not> a div k < c"
  then have "k * c \<le> k * (a div k)" by simp
  also have "\<dots> \<le> a" using k by (simp add: minus_mod_eq_mult_div [symmetric])
  finally show False using a by simp
qed

lemma frac_str_inj:
  assumes eq: "frac_str f dec = frac_str g dec" and dec: "dec \<le> 6"
    and f: "0 \<le> f" "f < 1000000" "f mod 10 ^ (6 - dec) = 0"
    and g: "0 \<le> g" "g < 1000000" "g mod 10 ^ (6 - dec) = 0"
  shows "f = g"
proof (cases "dec = 0")
  case True
  then show ?thesis using f g by simp
next
  case False
  have p: "(1000000::int) = 10 ^ (6 - dec) * 10 ^ dec" using dec by (simp add: power_add [symmetric])
  have d: "f div 10 ^ (6 - dec) < 10 ^ dec" "g div 10 ^ (6 - dec) < 10 ^ dec"
    using f(2) g(2) unfolding p by (auto intro: div_less_mult)
  have u: "(10::int) ^ dec \<le> 10 ^ 6" using dec by (intro power_increasing) auto
  have "fmt_number (uint_of (f div 10 ^ (6 - dec))) dec = fmt_number (uint_of (g div 10 ^ (6 - dec))) dec"
    using eq False dec f(1) g(1)
    by (simp add: frac_str_def sec_part_shift_def TIME_SECOND_PART_DIGITS_def sdiv_nonneg)
  moreover have "uint_of (f div 10 ^ (6 - dec)) = f div 10 ^ (6 - dec)"
    "uint_of (g div 10 ^ (6 - dec)) = g div 10 ^ (6 - dec)"
    using d u f(1) g(1) by (simp_all add: pos_imp_zdiv_nonneg_iff)
  ultimately have "f div 10 ^ (6 - dec) = g div 10 ^ (6 - dec)"
    using fmt_number_inj [of "f div 10 ^ (6 - dec)" dec "g div 10 ^ (6 - dec)"] d f(1) g(1)
    by (simp add: pos_imp_zdiv_nonneg_iff)
  then show ?thesis using f(3) g(3) by (metis div_mult_mod_eq)
qed

lemma second_digits_id [simp]: "dec \<le> 6 \<Longrightarrow> second_digits t dec = dec"
  by (simp add: second_digits_def AUTO_SEC_PART_DIGITS_def)

lemma hms_str_inj:
  assumes "hms_str t @ f = hms_str u @ g"
    and "0 \<le> minute t" "minute t < 60" "0 \<le> second t" "second t < 60"
    and "0 \<le> minute u" "minute u < 60" "0 \<le> second u" "second u < 60"
  shows "minute t = minute u" "second t = second u" "f = g"
proof -
  have "fmt_number (minute t) 2 = fmt_number (minute u) 2 \<and>
      fmt_number (second t) 2 = fmt_number (second u) 2 \<and> f = g"
    using assms(1) by (simp add: hms_str_def del: fmt_number.simps)
  then show "minute t = minute u" "second t = second u" "f = g"
    using assms(2-) fmt_number_inj by auto
qed

lemma my_datetime_to_str_inj:
  assumes t: "storable_datetime t dec" and u: "storable_datetime u dec"
    and eq: "my_datetime_to_str t dec = my_datetime_to_str u dec"
  shows "t = u"
proof -
  note st = t [unfolded storable_datetime_def] and su = u [unfolded storable_datetime_def]
  obtain f g where f: "frac_str (second_part t) dec = Inr f" and g: "frac_str (second_part u) dec = Inr g"
    using frac_str_ok [of dec] st by metis
  have "fmt_number (year t) 4 = fmt_number (year u) 4 \<and> fmt_number (month t) 2 = fmt_number (month u) 2 \<and>
      fmt_number (day t) 2 = fmt_number (day u) 2 \<and> fmt_number (hour t) 2 = fmt_number (hour u) 2 \<and>
      hms_str t @ f = hms_str u @ g"
    using eq f g st by (simp add: my_datetime_to_str_def del: fmt_number.simps)
  then have e: "year t = year u" "month t = month u" "day t = day u" "hour t = hour u"
    and h: "hms_str t @ f = hms_str u @ g"
    using fmt_number_inj st su by auto
  note ms = hms_str_inj [OF h]
  have "minute t = minute u" "second t = second u" "f = g" using st su by (intro ms; simp)+
  moreover have "second_part t = second_part u"
    by (rule frac_str_inj [of _ dec]) (use f g \<open>f = g\<close> st su in simp_all)
  ultimately show ?thesis using e st su by (intro mysql_time.equality) simp_all
qed

lemma time_char_not_digit: "\<not> is_digit (CHR ''-'')" "\<not> is_digit (CHR '':'')"
  by (simp_all add: is_digit_def)

lemma split_at_first:
  "c \<notin> set xs \<Longrightarrow> c \<notin> set ys \<Longrightarrow> xs @ c # xs' = ys @ c # ys' \<Longrightarrow> xs = ys \<and> xs' = ys'"
proof (induction xs arbitrary: ys)
  case Nil
  then show ?case by (cases ys) auto
next
  case (Cons x xs)
  then show ?case by (cases ys) auto
qed

lemma my_time_to_str_inj:
  assumes t: "storable_time t dec" and u: "storable_time u dec"
    and eq: "my_time_to_str t dec = my_time_to_str u dec"
  shows "t = u"
proof -
  note st = t [unfolded storable_time_def] and su = u [unfolded storable_time_def]
  obtain f g where f: "frac_str (second_part t) dec = Inr f" and g: "frac_str (second_part u) dec = Inr g"
    using frac_str_ok [of dec] st by metis
  have hv: "dec_val 0 (hour_str (hour v)) = nat (hour v)" "\<forall>c \<in> set (hour_str (hour v)). is_digit c"
    if "0 \<le> hour v" "hour v \<le> 838" for v :: mysql_time
    using that fmt_number_digits show_dec_digits
    by (auto simp: hour_str_def longlong10_unsigned_def dec_val_show_dec dec_val_fmt_number)
  have ne: "hour_str i \<noteq> []" for i
    by (simp add: hour_str_def longlong10_unsigned_def numeral_eq_Suc)
  have tx: "(if neg t then ''-'' else []) @ hour_str (hour t) @ hms_str t @ f
      = (if neg u then ''-'' else []) @ hour_str (hour u) @ hms_str u @ g"
    using eq f g st su by (simp add: my_time_to_str_def Let_def)
  have m: "CHR ''-'' \<notin> set (hour_str (hour t))" "CHR ''-'' \<notin> set (hour_str (hour u))" "CHR '':'' \<notin> set (hour_str (hour t))" "CHR '':'' \<notin> set (hour_str (hour u))"
  proof -
    have "\<forall>c \<in> set (hour_str (hour t)). is_digit c" "\<forall>c \<in> set (hour_str (hour u)). is_digit c"
      by (rule hv(2); use st su in simp)+
    then show "CHR ''-'' \<notin> set (hour_str (hour t))" "CHR ''-'' \<notin> set (hour_str (hour u))"
      "CHR '':'' \<notin> set (hour_str (hour t))" "CHR '':'' \<notin> set (hour_str (hour u))"
      using time_char_not_digit by blast+
  qed
  have sg: "neg t = neg u"
    using tx m(1,2) ne [of "hour t"] ne [of "hour u"] by (cases "hour_str (hour t)"; cases "hour_str (hour u)") (auto split: if_splits)
  then have "hour_str (hour t) @ hms_str t @ f = hour_str (hour u) @ hms_str u @ g" using tx by auto
  then have hh: "hour_str (hour t) = hour_str (hour u)" and h: "hms_str t @ f = hms_str u @ g"
    using split_at_first [OF m(3,4)] unfolding hms_str_def append_Cons append_assoc by blast+
  have "nat (hour t) = nat (hour u)" using hv(1) [of t] hv(1) [of u] hh st su by simp
  moreover have "0 \<le> hour t" "0 \<le> hour u" using st su by auto
  ultimately have hr: "hour t = hour u" by simp
  note ms = hms_str_inj [OF h]
  have "minute t = minute u" "second t = second u" "f = g" using st su by (intro ms; simp)+
  moreover have "second_part t = second_part u"
    by (rule frac_str_inj [of _ dec]) (use f g \<open>f = g\<close> st su in simp_all)
  ultimately show ?thesis using sg hr st su by (intro mysql_time.equality) simp_all
qed

end
