(* ===== verification/Sql_Decimal.thy ===== *)
theory Sql_Decimal
  imports Temporal
begin

text \<open>
  \<open>DECIMAL\<close> values: \<open>strings/decimal.c\<close> of the MariaDB sources. The server stores a value of
  the type \<open>DECIMAL(precision, scale)\<close> with \<open>decimal2bin\<close>; the library reads it back with
  \<open>bin2decimal\<close> and prints it with \<open>decimal2string\<close>.

  Digits are kept in groups of nine (\<open>dec1\<close>, 32 bits signed): the groups before the point are
  aligned at their end, those after it at their start. The scale may exceed the precision here,
  since both come unchecked from the log.
\<close>

section \<open>Data\<close>

datatype dec_error = E_DEC_OK | E_DEC_TRUNCATED | E_DEC_OVERFLOW | E_DEC_BAD_NUM

text \<open>\<open>buf\<close> is the array from its first digit group on; the object's \<open>len\<close> is always
  \<open>DECIMAL_BUFF_LENGTH\<close> for a \<open>my_decimal\<close>.\<close>

record decimal_t =
  intg :: int
  frac :: int
  sign :: bool
  buf :: "int list"

definition DECIMAL_BUFF_LENGTH :: int where "DECIMAL_BUFF_LENGTH = 9"
definition DECIMAL_MAX_STR_LENGTH :: nat where "DECIMAL_MAX_STR_LENGTH = 83"
definition DIG_MAX :: int where "DIG_MAX = 999999999"

definition decimal_make_zero :: decimal_t where
  "decimal_make_zero = \<lparr> intg = 1, frac = 0, sign = False, buf = [0] \<rparr>"

definition dig2bytes :: "int \<Rightarrow> int res" where
  "dig2bytes i =
     (if i < 0 \<or> 9 < i then Inl (Out_of_bounds ''dig2bytes'')
      else Inr ([0, 1, 1, 2, 2, 3, 3, 4, 4, 4] ! nat i))"

definition ROUND_UP :: "int \<Rightarrow> int" where
  "ROUND_UP x = (x + (if x > 0 then 8 else 0)) sdiv 9"

text \<open>A group at an index of the array.\<close>

definition dec1_at :: "int list \<Rightarrow> int \<Rightarrow> int res" where
  "dec1_at b i = (if i < 0 \<or> int (length b) \<le> i then Inl (Out_of_bounds ''buf'') else Inr (b ! nat i))"

text \<open>\<open>x / 9\<close> and what is left of it: whole groups and the digits of the odd one.\<close>

definition groups9 :: "int \<Rightarrow> int" where "groups9 x = x sdiv 9"
definition odd9 :: "int \<Rightarrow> int" where "odd9 x = x - groups9 x * 9"

section \<open>Sizes\<close>

definition dec_bytes :: "int \<Rightarrow> int res" where
  "dec_bytes x = and_then (dig2bytes (odd9 x)) (\<lambda>b. Inr (groups9 x * 4 + b))"

definition decimal_bin_size :: "int \<Rightarrow> int \<Rightarrow> int res" where
  "decimal_bin_size precision scale =
     and_then (dec_bytes (precision - scale)) (\<lambda>i. and_then (dec_bytes scale) (\<lambda>f. Inr (i + f)))"

section \<open>Leading zeroes\<close>

text \<open>The two loops of \<open>remove_leading_zeroes\<close>: groups that are zero, then the digits of the
  first one that is not.\<close>

fun skip_zero_groups :: "int \<Rightarrow> int \<Rightarrow> int list \<Rightarrow> (int list \<times> int) res" where
  "skip_zero_groups i n b =
     (if n \<le> 0 then Inr (b, n)
      else case b of [] \<Rightarrow> Inl (Out_of_bounds ''buf'')
        | x # xs \<Rightarrow> if x = 0 then skip_zero_groups 9 (n - i) xs else Inr (b, n))"

fun skip_zero_digits :: "nat \<Rightarrow> int \<Rightarrow> int \<Rightarrow> int res" where
  "skip_zero_digits i x n =
     (if x < 10 ^ i then
        case i of 0 \<Rightarrow> Inl (Out_of_bounds ''powers10'') | Suc j \<Rightarrow> skip_zero_digits j x (n - 1)
      else Inr n)"

declare skip_zero_groups.simps [simp del] skip_zero_digits.simps [simp del]

definition remove_leading_zeroes :: "decimal_t \<Rightarrow> (int list \<times> int) res" where
  "remove_leading_zeroes d =
     and_then (skip_zero_groups ((intg d - 1) smod 9 + 1) (intg d) (buf d)) (\<lambda>(b, n).
       if n > 0 then
         and_then (dec1_at b 0) (\<lambda>x.
         and_then (skip_zero_digits (nat ((n - 1) smod 9)) x n) (\<lambda>n'. Inr (b, n')))
       else Inr (b, 0))"

section \<open>The stored form of a decimal\<close>

text \<open>\<open>goto err\<close> is \<open>None\<close>.\<close>

definition try_then :: "'a option res \<Rightarrow> ('a \<Rightarrow> 'b option res) \<Rightarrow> 'b option res" where
  "try_then m f = and_then m (\<lambda>r. case r of None \<Rightarrow> Inr None | Some x \<Rightarrow> f x)"

lemma try_then_simps [simp]:
  "try_then (Inr (Some x)) f = f x"
  "try_then (Inr None) f = Inr None"
  "try_then (Inl e) f = Inl e"
  by (simp_all add: try_then_def)

text \<open>A big endian number of so many bytes at a position of the copy, with the mask applied.\<close>

definition read_dec1 :: "string \<Rightarrow> int \<Rightarrow> int \<Rightarrow> int \<Rightarrow> int res" where
  "read_dec1 d pos n mk =
     (if pos < 0 \<or> int (length d) < pos + n then Inl (Out_of_bounds ''d_copy'')
      else Inr (mi_skorr (nat n) (drop (nat pos) d) XOR mk))"

text \<open>Storing a group before the point: leading zero groups take no place.\<close>

definition keep_intg :: "int \<Rightarrow> int \<Rightarrow> int list \<times> int \<Rightarrow> int list \<times> int" where
  "keep_intg x k st =
     (case st of (b, n) \<Rightarrow> if b \<noteq> [] \<or> x \<noteq> 0 then (b @ [x], n) else (b, n - k))"

fun read_intg :: "nat \<Rightarrow> string \<Rightarrow> int \<Rightarrow> int \<Rightarrow> int list \<times> int \<Rightarrow> (int list \<times> int) option res" where
  "read_intg 0 d pos mk st = Inr (Some st)"
| "read_intg (Suc k) d pos mk st =
     and_then (read_dec1 d pos 4 mk) (\<lambda>x.
       if x mod 2 ^ 32 > DIG_MAX then Inr None
       else read_intg k d (pos + 4) mk (keep_intg x 9 st))"

fun read_frac :: "nat \<Rightarrow> string \<Rightarrow> int \<Rightarrow> int \<Rightarrow> int list \<Rightarrow> int list option res" where
  "read_frac 0 d pos mk b = Inr (Some b)"
| "read_frac (Suc k) d pos mk b =
     and_then (read_dec1 d pos 4 mk) (\<lambda>x.
       if x mod 2 ^ 32 > DIG_MAX then Inr None else read_frac k d (pos + 4) mk (b @ [x]))"

text \<open>The odd groups. The first is compared with the power of ten after the one it must be
  below; the product of the last wraps around.\<close>

definition read_first :: "string \<Rightarrow> int \<Rightarrow> int \<Rightarrow> int \<Rightarrow> int list \<times> int \<Rightarrow> (int list \<times> int) option res" where
  "read_first d pos intg0x mk st =
     (if intg0x = 0 then Inr (Some st)
      else and_then (dig2bytes intg0x) (\<lambda>i. and_then (read_dec1 d pos i mk) (\<lambda>x.
        if x mod 2 ^ 64 \<ge> 10 ^ nat (intg0x + 1) then Inr None else Inr (Some (keep_intg x intg0x st)))))"

definition read_last :: "string \<Rightarrow> int \<Rightarrow> int \<Rightarrow> int \<Rightarrow> int list \<Rightarrow> int list option res" where
  "read_last d pos frac0x mk b =
     (if frac0x = 0 then Inr (Some b)
      else and_then (dig2bytes frac0x) (\<lambda>i. and_then (read_dec1 d pos i mk) (\<lambda>x.
        let y = signed_of 32 (x * 10 ^ nat (9 - frac0x))
        in if y mod 2 ^ 32 > DIG_MAX then Inr None else Inr (Some (b @ [y])))))"

text \<open>What the value keeps of its groups when it has more than the buffer: whole groups and odd
  digits before and after the point, the first byte read, and the error.\<close>

definition fix_intg_frac :: "int \<Rightarrow> int \<Rightarrow> (int \<times> int \<times> int \<times> int \<times> int \<times> dec_error) res" where
  "fix_intg_frac ig scale =
     (let intg0 = groups9 ig; intg0x = odd9 ig; frac0 = groups9 scale; frac0x = odd9 scale;
          intg1 = intg0 + (if intg0x > 0 then 1 else 0); frac1 = frac0 + (if frac0x > 0 then 1 else 0)
      in if intg1 + frac1 > DECIMAL_BUFF_LENGTH then
           if intg1 > DECIMAL_BUFF_LENGTH then
             and_then (dig2bytes intg0x) (\<lambda>b.
             Inr (DECIMAL_BUFF_LENGTH, 0, 0, 0, b + 4 * (intg0 - DECIMAL_BUFF_LENGTH), E_DEC_OVERFLOW))
           else Inr (intg0, intg0x, DECIMAL_BUFF_LENGTH - intg1, 0, 0, E_DEC_TRUNCATED)
         else Inr (intg0, intg0x, frac0, frac0x, 0, E_DEC_OK))"

text \<open>The bytes are copied, which reads that many of them, and the first bit is flipped.\<close>

definition copy_flipped :: "string \<Rightarrow> int \<Rightarrow> string res" where
  "copy_flipped from bin_size =
     (if bin_size \<le> 0 then Inl (Out_of_bounds ''d_copy'')
      else if int (length from) < bin_size then Inl (Out_of_bounds ''m_rows_buf'')
      else case take (nat bin_size) from of [] \<Rightarrow> Inr []
             | c # cs \<Rightarrow> Inr (byte_of (ubyte c XOR 0x80) # cs))"

definition bin_mask :: "string \<Rightarrow> int" where
  "bin_mask from = (case from of [] \<Rightarrow> -1 | c # _ \<Rightarrow> if ubyte c AND 0x80 \<noteq> 0 then 0 else -1)"

definition bin2decimal :: "string \<Rightarrow> int \<Rightarrow> int \<Rightarrow> (decimal_t \<times> dec_error) res" where
  "bin2decimal from precision scale =
     and_then (decimal_bin_size precision scale) (\<lambda>bin_size.
     and_then (copy_flipped from bin_size) (\<lambda>d.
     and_then (fix_intg_frac (precision - scale) scale) (\<lambda>(intg0, intg0x, frac0, frac0x, pos, err).
     and_then (dig2bytes intg0x) (\<lambda>b0.
       let mk = bin_mask from;
           pos1 = pos + b0;
           pos2 = pos1 + 4 * max intg0 0;
           pos3 = pos2 + 4 * max frac0 0;
           digits =
             try_then (read_first d pos intg0x mk ([], intg0 * 9 + intg0x)) (\<lambda>st.
             try_then (read_intg (nat intg0) d pos1 mk st) (\<lambda>(b, n).
             try_then (read_frac (nat frac0) d pos2 mk b) (\<lambda>b.
             try_then (read_last d pos3 frac0x mk b) (\<lambda>b. Inr (Some (b, n))))))
       in and_then digits (\<lambda>r. case r of
            None \<Rightarrow> Inr (decimal_make_zero, E_DEC_BAD_NUM)
          | Some (b, n) \<Rightarrow>
              Inr (if n = 0 \<and> frac0 * 9 + frac0x = 0 then decimal_make_zero
                   else \<lparr> intg = n, frac = frac0 * 9 + frac0x, sign = (mk \<noteq> 0), buf = b \<rparr>, err))))))"

section \<open>Storing a decimal\<close>

text \<open>The integral part: what is missing on the left is filled with the mask; digits that do
  not fit are dropped. Then the number of whole groups and odd digits to write, from where in
  the array, and the bytes of the filling.\<close>

definition bin_intg ::
  "int \<Rightarrow> int \<Rightarrow> int \<Rightarrow> int \<Rightarrow> (int \<times> int \<times> int \<times> string \<times> dec_error) res" where
  "bin_intg ig from_intg isize0 mk =
     (let intg0 = groups9 ig; intg0x = odd9 ig; intg1 = groups9 from_intg; intg1x = odd9 from_intg
      in if ig < from_intg then
           Inr (intg0, intg0x,
                intg1 - intg0 + (if intg1x > 0 then 1 else 0) - (if intg0x > 0 then 1 else 0),
                [], E_DEC_OVERFLOW)
         else and_then (dec_bytes from_intg) (\<lambda>isize1.
                Inr (intg1, intg1x, 0, replicate (nat (isize0 - isize1)) (byte_of mk), E_DEC_OK)))"

text \<open>The fraction: the whole groups and odd digits to write, and the bytes filled at the end.\<close>

definition bin_frac :: "int \<Rightarrow> int \<Rightarrow> int \<Rightarrow> int \<Rightarrow> (int \<times> int \<times> int) \<times> dec_error option" where
  "bin_frac from_frac scale fsize0 fsize1 =
     (let frac0 = groups9 scale; frac0x = odd9 scale; frac1 = groups9 from_frac; frac1x = odd9 from_frac
      in if fsize0 < fsize1 then ((frac0, frac0x, 0), Some E_DEC_TRUNCATED)
         else if fsize0 > fsize1 \<and> frac1x \<noteq> 0 then
           if frac0 = frac1 then ((frac1, frac0x, 0), None)
           else ((frac1 + 1, 0, fsize0 - fsize1), None)
         else ((frac1, frac1x, fsize0 - fsize1), None))"

text \<open>\<open>while (frac1x < lim && dig2bytes[frac1x] == i) frac1x++\<close>: at most nine steps.\<close>

fun widen_frac :: "nat \<Rightarrow> int \<Rightarrow> int \<Rightarrow> int \<Rightarrow> int" where
  "widen_frac 0 frac1x lim i = frac1x"
| "widen_frac (Suc k) frac1x lim i =
     (if frac1x < lim \<and> dig2bytes frac1x = Inr i then widen_frac k (frac1x + 1) lim i else frac1x)"

fun store_groups :: "int list \<Rightarrow> int \<Rightarrow> nat \<Rightarrow> int \<Rightarrow> string res" where
  "store_groups b at 0 mk = Inr []"
| "store_groups b at (Suc k) mk =
     and_then (dec1_at b at) (\<lambda>x.
     and_then (store_groups b (at + 1) k mk) (\<lambda>s. Inr (mi_store 4 (x XOR mk) @ s)))"

definition store_first :: "int list \<Rightarrow> int \<Rightarrow> int \<Rightarrow> int \<Rightarrow> string res" where
  "store_first b at intg1x mk =
     (if intg1x = 0 then Inr []
      else and_then (dig2bytes intg1x) (\<lambda>i. and_then (dec1_at b at) (\<lambda>x.
        Inr (mi_store (nat i) ((x smod 10 ^ nat intg1x) XOR mk)))))"

definition store_last :: "int list \<Rightarrow> int \<Rightarrow> int \<Rightarrow> int \<Rightarrow> int \<Rightarrow> string res" where
  "store_last b at frac1x lim mk =
     (if frac1x = 0 then Inr []
      else and_then (dig2bytes frac1x) (\<lambda>i. and_then (dec1_at b at) (\<lambda>x.
        Inr (mi_store (nat i) ((x sdiv 10 ^ nat (9 - widen_frac 9 frac1x lim i)) XOR mk)))))"

definition flip_first :: "string \<Rightarrow> string" where
  "flip_first s = (case s of [] \<Rightarrow> [] | c # cs \<Rightarrow> byte_of (ubyte c XOR 0x80) # cs)"

definition decimal2bin :: "decimal_t \<Rightarrow> int \<Rightarrow> int \<Rightarrow> (string \<times> dec_error) res" where
  "decimal2bin from precision scale =
     and_then (dec_bytes (precision - scale)) (\<lambda>isize0.
     and_then (dec_bytes scale) (\<lambda>fsize0.
     and_then (dec_bytes (frac from)) (\<lambda>fsize1.
     and_then (remove_leading_zeroes from) (\<lambda>(b0, from_intg).
       let zero = (from_intg + fsize1 = 0);
           mk = (if zero then 0 else if sign from then -1 else 0);
           b = (if zero then [0] else b0)
       in and_then (bin_intg (if zero then 1 else precision - scale) from_intg isize0 mk) (\<lambda>(intg1, intg1x, skip, pad, err).
          let ((frac1, frac1x, fill), ferr) = bin_frac (frac from) scale fsize0 fsize1;
              at1 = skip + (if intg1x \<noteq> 0 then 1 else 0);
              at2 = at1 + max 0 (intg1 + frac1);
              lim = (if frac1 < groups9 scale then 9 else odd9 scale)
          in and_then (store_first b skip intg1x mk) (\<lambda>s1.
             and_then (store_groups b at1 (nat (intg1 + frac1)) mk) (\<lambda>s2.
             and_then (store_last b at2 frac1x lim mk) (\<lambda>s3.
               let out = pad @ s1 @ s2 @ s3;
                   room = nat (isize0 + fsize0) - length out
               in Inr (flip_first (out @ replicate (min (nat fill) room) (byte_of mk)),
                       case ferr of Some e \<Rightarrow> e | None \<Rightarrow> err)))))))))"

section \<open>The text of a decimal\<close>

text \<open>The digits of a group from the highest on, and so many of its lowest digits.\<close>

fun high_digits :: "int \<Rightarrow> nat \<Rightarrow> string" where
  "high_digits x 0 = []"
| "high_digits x (Suc i) =
     (let y = x sdiv 10 ^ 8 in byte_of (48 + y) # high_digits ((x - y * 10 ^ 8) * 10) i)"

fun low_digits :: "int \<Rightarrow> nat \<Rightarrow> string" where
  "low_digits x 0 = []"
| "low_digits x (Suc i) = low_digits (x sdiv 10) i @ [byte_of (48 + (x - x sdiv 10 * 10))]"

fun frac_digits :: "int list \<Rightarrow> int \<Rightarrow> nat \<Rightarrow> string res" where
  "frac_digits b at n =
     (if n = 0 then Inr []
      else and_then (dec1_at b at) (\<lambda>x. and_then (frac_digits b (at + 1) (n - 9)) (\<lambda>s.
           Inr (high_digits x (min n 9) @ s))))"

fun intg_digits :: "int list \<Rightarrow> int \<Rightarrow> nat \<Rightarrow> string res" where
  "intg_digits b at n =
     (if n = 0 then Inr []
      else and_then (dec1_at b (at - 1)) (\<lambda>x. and_then (intg_digits b (at - 1) (n - 9)) (\<lambda>s.
           Inr (s @ low_digits x (min n 9)))))"

declare frac_digits.simps [simp del] intg_digits.simps [simp del]

text \<open>What is printed when the text is too long for the buffer: the digits before and after the
  point, and the error.\<close>

definition fit_text :: "int \<Rightarrow> int \<Rightarrow> int \<Rightarrow> int \<Rightarrow> int \<times> int \<times> dec_error" where
  "fit_text len room ig fr =
     (if len > room then
        let j = len - room;
            err = (if fr \<noteq> 0 \<and> j \<le> fr + 1 then E_DEC_TRUNCATED else E_DEC_OVERFLOW);
            j = (if fr \<noteq> 0 \<and> j \<ge> fr + 1 then j - 1 else j)
        in if j > fr then (ig - (j - fr), 0, err) else (ig, fr - j, err)
      else (ig, fr, E_DEC_OK))"

text \<open>\<open>decimal2string\<close> with \<open>fixed_precision\<close> 0, the only way the library calls it; the filling
  character is 0.\<close>

definition decimal2string :: "decimal_t \<Rightarrow> int \<Rightarrow> (string \<times> dec_error) res" where
  "decimal2string from to_len =
     and_then (remove_leading_zeroes from) (\<lambda>(b0, n0).
       let (b, n) = (if n0 + frac from = 0 then ([0], 1) else (b0, n0));
           intg_len = (if n = 0 then 1 else n);
           len = (if sign from then 1 else 0) + intg_len + (if frac from \<noteq> 0 then 1 else 0) + frac from;
           (ig, fr, err) = fit_text len (to_len - 1) n (frac from)
       in and_then (frac_digits b (ROUND_UP ig) (nat fr)) (\<lambda>fs.
          and_then (intg_digits b (ROUND_UP ig) (nat ig)) (\<lambda>is.
          Inr ((if sign from then ''-'' else []) @
               replicate (nat (intg_len - ig - (if ig = 0 then 1 else 0))) NUL @
               (if ig = 0 then ''0'' else is) @
               (if fr \<noteq> 0 then CHR ''.'' # fs else []), err))))"

section \<open>Digits and groups\<close>

text \<open>The number that groups of nine digits spell, and well formed decimals.\<close>

definition groups_value :: "int list \<Rightarrow> int" where
  "groups_value b = foldl (\<lambda>a x. a * 10 ^ 9 + x) 0 b"

definition group_ok :: "int \<Rightarrow> bool" where
  "group_ok x \<longleftrightarrow> 0 \<le> x \<and> x < 10 ^ 9"

lemma groups_value_simps [simp]:
  "groups_value [] = 0"
  "groups_value (b @ [x]) = groups_value b * 10 ^ 9 + x"
  by (simp_all add: groups_value_def)

lemma groups_value_acc: "foldl (\<lambda>a x. a * 10 ^ 9 + x) c b = c * (10 ^ 9) ^ length b + groups_value b"
proof (induction b rule: rev_induct)
  case (snoc x b)
  then show ?case by (simp add: groups_value_def algebra_simps)
qed (simp add: groups_value_def)

lemma groups_value_Cons: "groups_value (x # b) = x * (10 ^ 9) ^ length b + groups_value b"
  unfolding groups_value_def [of "x # b"] using groups_value_acc [of x b] by simp

lemma groups_value_range: "\<forall>x \<in> set b. group_ok x \<Longrightarrow> 0 \<le> groups_value b \<and> groups_value b < (10 ^ 9) ^ length b"
proof (induction b rule: rev_induct)
  case (snoc x b)
  then have "0 \<le> x" "x < 10 ^ 9" "0 \<le> groups_value b" "groups_value b + 1 \<le> (10 ^ 9) ^ length b"
    by (simp_all add: group_ok_def)
  moreover from this(4) have "(groups_value b + 1) * 10 ^ 9 \<le> (10 ^ 9) ^ length b * 10 ^ 9"
    by (intro mult_right_mono) simp_all
  ultimately show ?case by simp
qed simp

lemma groups_value_zeros [simp]: "groups_value (replicate m 0 @ b) = groups_value b"
  by (induction m) (simp_all add: groups_value_Cons)

lemma groups_value_dropWhile: "groups_value (dropWhile (\<lambda>x. x = 0) g) = groups_value g"
proof -
  have "takeWhile (\<lambda>x. x = 0) g = replicate (length (takeWhile (\<lambda>x. x = 0) g)) 0"
    by (rule replicate_eqI) (auto dest: set_takeWhileD)
  then show ?thesis by (metis groups_value_zeros takeWhile_dropWhile_id)
qed

lemma byte_of_digit: "0 \<le> d \<Longrightarrow> d < 10 \<Longrightarrow> byte_of (48 + d) = digit_char (nat d)"
  by (simp add: byte_of_def digit_char_def nat_add_distrib add.commute)

lemma byte_of_48: "byte_of 48 = CHR ''0''" and digit_char_0: "digit_char 0 = CHR ''0''"
  by code_simp+

lemma low_digits_fmt: "0 \<le> x \<Longrightarrow> low_digits x n = fmt_number x n"
proof (induction n arbitrary: x)
  case (Suc n)
  have "x - x div 10 * 10 = x mod 10" by (simp add: minus_div_mult_eq_mod)
  then show ?case using Suc by (simp add: sdiv_nonneg byte_of_digit)
qed simp

lemma fmt_number_split:
  assumes "0 \<le> x" "x < 10 ^ k"
  shows "fmt_number (a * 10 ^ k + x) (m + k) = fmt_number a m @ fmt_number x k"
  using assms
proof (induction k arbitrary: x)
  case (Suc k)
  have "x div 10 < 10 ^ k" using Suc.prems by (intro div_less_mult) auto
  moreover have "(a * 10 ^ Suc k + x) div 10 = a * 10 ^ k + x div 10"
    by (simp add: div_add1_eq)
  moreover have "(a * 10 ^ Suc k + x) mod 10 = x mod 10" by (simp add: mod_add_left_eq [symmetric])
  ultimately show ?case using Suc by simp
next
  case 0
  then have "x = 0" by simp
  then show ?case by simp
qed

lemma high_digits_fmt:
  "0 \<le> x \<Longrightarrow> x < 10 ^ 9 \<Longrightarrow> n \<le> 9 \<Longrightarrow> high_digits x n = take n (fmt_number x 9)"
proof (induction n arbitrary: x)
  case (Suc n)
  define y where "y = x div 10 ^ 8"
  define r where "r = x mod 10 ^ 8"
  have r: "0 \<le> r" "r < 10 ^ 8" and y: "0 \<le> y" "y < 10"
    using Suc.prems by (simp_all add: r_def y_def)
  have x: "x = y * 10 ^ 8 + r" unfolding y_def r_def by (rule div_mult_mod_eq [symmetric])
  have sd: "x sdiv 10 ^ 8 = y" using Suc.prems by (simp add: sdiv_nonneg y_def)
  have "high_digits x (Suc n) = digit_char (nat y) # high_digits (r * 10) n"
    unfolding high_digits.simps Let_def sd using y by (simp add: byte_of_digit x)
  also have "high_digits (r * 10) n = take n (fmt_number (r * 10) 9)"
    using r Suc.prems(3) by (intro Suc.IH) auto
  also have "fmt_number (r * 10) 9 = fmt_number r 8 @ [digit_char 0]"
    using fmt_number.simps(2) [of "r * 10" 8] by simp
  also have "take n (fmt_number r 8 @ [digit_char 0]) = take n (fmt_number r 8)"
    using Suc.prems(3) by simp
  also have "digit_char (nat y) # take n (fmt_number r 8) = take (Suc n) (fmt_number y 1 @ fmt_number r 8)"
    using y by simp
  also have "fmt_number y 1 @ fmt_number r 8 = fmt_number x 9"
    using fmt_number_split [OF r, of y 1] x by simp
  finally show ?case .
qed simp

lemma show_dec_fmt: "10 ^ L \<le> v \<Longrightarrow> v < 10 ^ Suc L \<Longrightarrow> fmt_number v (Suc L) = show_dec (nat v)"
proof (induction L arbitrary: v)
  case 0
  then show ?case by (subst show_dec.simps) simp
next
  case (Suc L)
  have "10 ^ L \<le> v div 10" using zdiv_mono1 [OF Suc.prems(1), of 10] by simp
  moreover have "v div 10 < 10 ^ Suc L" using Suc.prems(2) by (intro div_less_mult) auto
  ultimately have IH: "fmt_number (v div 10) (Suc L) = show_dec (nat (v div 10))" by (rule Suc.IH)
  have "(10::int) \<le> 10 ^ Suc L" by simp
  then have "10 \<le> v" using Suc.prems(1) by linarith
  then have "show_dec (nat v) = show_dec (nat v div 10) @ [digit_char (nat v mod 10)]"
    by (subst show_dec.simps) simp
  moreover have "nat v div 10 = nat (v div 10)" "nat v mod 10 = nat (v mod 10)"
    using \<open>10 \<le> v\<close> by (simp_all add: nat_div_distrib nat_mod_distrib)
  ultimately show ?case by (simp only: fmt_number.simps(2) [of v "Suc L"] IH)
qed

section \<open>Leading zeroes are dropped\<close>

text \<open>The groups before and after the point.\<close>

definition intg_groups :: "decimal_t \<Rightarrow> int list" where
  "intg_groups d = take (nat (ROUND_UP (intg d))) (buf d)"

definition frac_groups :: "decimal_t \<Rightarrow> int list" where
  "frac_groups d = drop (nat (ROUND_UP (intg d))) (buf d)"

lemma ROUND_UP_div: "ROUND_UP x = (if x > 0 then (x + 8) div 9 else x sdiv 9)"
  by (simp add: ROUND_UP_def sdiv_nonneg)

lemma ROUND_UP_groups: "1 \<le> i \<Longrightarrow> i \<le> 9 \<Longrightarrow> 0 \<le> k \<Longrightarrow> ROUND_UP (9 * k + i) = k + 1"
  unfolding ROUND_UP_div by simp

lemma ROUND_UP_nonneg [simp]: "0 \<le> x \<Longrightarrow> 0 \<le> ROUND_UP x"
  by (simp add: ROUND_UP_def sdiv_nonneg pos_imp_zdiv_nonneg_iff)

text \<open>As many groups as the digits need, the digits that do not count being zero.\<close>

definition intg_ok :: "int \<Rightarrow> int list \<Rightarrow> bool" where
  "intg_ok ig gs \<longleftrightarrow> 0 \<le> ig \<and> int (length gs) = ROUND_UP ig \<and> (\<forall>x \<in> set gs. group_ok x) \<and>
     (odd9 ig > 0 \<longrightarrow> hd gs < 10 ^ nat (odd9 ig))"

definition frac_ok :: "int \<Rightarrow> int list \<Rightarrow> bool" where
  "frac_ok sc fs \<longleftrightarrow> 0 \<le> sc \<and> int (length fs) = ROUND_UP sc \<and> (\<forall>x \<in> set fs. group_ok x) \<and>
     (odd9 sc > 0 \<longrightarrow> last fs mod 10 ^ nat (9 - odd9 sc) = 0)"

lemma groups9_odd9: "0 \<le> x \<Longrightarrow> groups9 x = x div 9" "0 \<le> x \<Longrightarrow> odd9 x = x mod 9"
  by (simp_all add: groups9_def odd9_def sdiv_nonneg minus_div_mult_eq_mod)

lemma odd9_range: "0 \<le> x \<Longrightarrow> 0 \<le> odd9 x \<and> odd9 x \<le> 8"
  using pos_mod_bound [of 9 x] by (simp add: groups9_odd9)

lemma ROUND_UP_groups9: "0 \<le> x \<Longrightarrow> ROUND_UP x = groups9 x + (if odd9 x > 0 then 1 else 0)"
proof -
  assume x: "0 \<le> x"
  define q r where "q = x div 9" and "r = x mod 9"
  have qr: "x = 9 * q + r" "0 \<le> q" "0 \<le> r" "r < 9" using x by (simp_all add: q_def r_def)
  have "ROUND_UP (9 * q + r) = q + (if r > 0 then 1 else 0)"
  proof (cases "r = 0")
    case False
    then show ?thesis using qr(2-) by (subst ROUND_UP_groups) auto
  next
    case True
    then show ?thesis using qr(2) ROUND_UP_groups [of 9 "q - 1"]
      by (cases "q = 0") (auto simp: ROUND_UP_def)
  qed
  then show ?thesis using x by (simp add: groups9_odd9 q_def [symmetric] r_def [symmetric] qr(1) [symmetric])
qed

definition decimal_ok :: "decimal_t \<Rightarrow> bool" where
  "decimal_ok d \<longleftrightarrow> intg_ok (intg d) (intg_groups d) \<and> frac_ok (frac d) (frac_groups d)"

lemma skip_zero_groups_eq:
  assumes "G \<noteq> []" "n = 9 * (int (length G) - 1) + i" "1 \<le> i" "i \<le> 9"
  shows "skip_zero_groups i n (G @ R) =
    (if \<forall>x \<in> set G. x = 0 then Inr (R, 0)
     else Inr (dropWhile (\<lambda>x. x = 0) G @ R,
            9 * (int (length (dropWhile (\<lambda>x. x = 0) G)) - 1) + (if hd G = 0 then 9 else i)))"
  using assms
proof (induction G arbitrary: i n)
  case (Cons x xs)
  have n: "0 < n" using Cons.prems by simp
  show ?case
  proof (cases "x = 0")
    case False
    then show ?thesis using Cons.prems n by (subst skip_zero_groups.simps) simp
  next
    case True
    then have s: "skip_zero_groups i n ((x # xs) @ R) = skip_zero_groups 9 (n - i) (xs @ R)"
      using n by (subst skip_zero_groups.simps) simp
    show ?thesis
    proof (cases "xs = []")
      case True
      then show ?thesis using s \<open>x = 0\<close> Cons.prems by (simp add: skip_zero_groups.simps [of 9 0])
    next
      case False
      have "skip_zero_groups 9 (n - i) (xs @ R) =
        (if \<forall>x \<in> set xs. x = 0 then Inr (R, 0)
         else Inr (dropWhile (\<lambda>x. x = 0) xs @ R,
            9 * (int (length (dropWhile (\<lambda>x. x = 0) xs)) - 1) + 9))"
        using Cons.IH [of "n - i" 9] False Cons.prems by (simp add: algebra_simps)
      then show ?thesis using s \<open>x = 0\<close> by simp
    qed
  qed
qed simp

lemma skip_zero_digits_eq:
  assumes "0 < x"
  obtains m where "m \<le> j" "10 ^ m \<le> x" "x < 10 ^ Suc j \<longrightarrow> x < 10 ^ Suc m"
    "skip_zero_digits j x n = Inr (n - int (j - m))"
  using assms
proof (induction j arbitrary: n thesis)
  case 0
  then show ?case by (intro "0.prems"(1) [of 0]) (simp_all add: skip_zero_digits.simps)
next
  case (Suc j)
  show ?case
  proof (cases "x < 10 ^ Suc j")
    case False
    then show ?thesis using Suc.prems by (intro Suc.prems(1) [of "Suc j"]) (simp_all add: skip_zero_digits.simps)
  next
    case True
    obtain m where m: "m \<le> j" "10 ^ m \<le> x" "x < 10 ^ Suc m"
      "skip_zero_digits j x (n - 1) = Inr (n - 1 - int (j - m))"
      using Suc.IH [OF _ Suc.prems(2)] True by blast
    moreover have "skip_zero_digits (Suc j) x n = skip_zero_digits j x (n - 1)"
      using True by (simp add: skip_zero_digits.simps [of "Suc j"])
    moreover have "n - 1 - int (j - m) = n - int (Suc j - m)" using m(1) by simp
    ultimately show ?thesis using Suc.prems(1) [of m] by simp
  qed
qed

lemma groups_value_bounds:
  assumes "10 ^ m \<le> x" "x < 10 ^ Suc m" "\<forall>y \<in> set b. group_ok y"
  shows "10 ^ (9 * length b + m) \<le> groups_value (x # b)"
    and "groups_value (x # b) < 10 ^ Suc (9 * length b + m)"
proof -
  note r = groups_value_range [OF assms(3)]
  have p: "((10::int) ^ 9) ^ length b = 10 ^ (9 * length b)" by (simp only: power_mult)
  have "10 ^ m * 10 ^ (9 * length b) \<le> x * 10 ^ (9 * length b)" using assms(1) by simp
  then show "10 ^ (9 * length b + m) \<le> groups_value (x # b)"
    using r unfolding groups_value_Cons p power_add mult.commute [of _ "10 ^ m"] by linarith
  have "(x + 1) * 10 ^ (9 * length b) \<le> 10 ^ Suc m * 10 ^ (9 * length b)"
    using assms(2) by (intro mult_right_mono) auto
  then show "groups_value (x # b) < 10 ^ Suc (9 * length b + m)"
    using r unfolding groups_value_Cons p add_Suc_right [symmetric] power_add
      mult.commute [of _ "10 ^ Suc m"] distrib_right by linarith
qed

text \<open>The digits that count, their groups and their value.\<close>

definition significant :: "int list \<Rightarrow> int \<Rightarrow> bool" where
  "significant b n \<longleftrightarrow>
     (if b = [] then n = 0
      else \<exists>m<9. n = 9 * (int (length b) - 1) + int m + 1 \<and> 10 ^ m \<le> hd b \<and> hd b < 10 ^ Suc m)"

lemma odd9_of_pred: "0 < x \<Longrightarrow> odd9 x = (if (x - 1) mod 9 + 1 = 9 then 0 else (x - 1) mod 9 + 1)"
proof -
  assume x: "0 < x"
  have "x mod 9 = ((x - 1) mod 9 + 1) mod 9" using mod_add_left_eq [of "x - 1" 9 1] by simp
  moreover have "(x - 1) mod 9 + 1 \<le> 9" "0 \<le> (x - 1) mod 9" using pos_mod_bound [of 9 "x - 1"] by simp_all
  ultimately show ?thesis using x by (auto simp: groups9_odd9)
qed

text \<open>The first group that is not zero and the digits left of it.\<close>

lemma skip_zero_first:
  assumes pos: "0 < n" and G: "int (length G) = ROUND_UP n" "\<exists>x \<in> set G. x \<noteq> 0" "\<forall>x \<in> set G. 0 \<le> x"
  obtains x xs i where "dropWhile (\<lambda>x. x = 0) G = x # xs" "1 \<le> i" "i \<le> 9" "0 < x" "x \<in> set G"
    "skip_zero_groups ((n - 1) smod 9 + 1) n (G @ F) = Inr (x # xs @ F, 9 * int (length xs) + i)"
    "9 * int (length xs) + i \<le> n" "i = 9 \<or> G = x # xs \<and> i = (n - 1) mod 9 + 1"
proof -
  define i where "i = (n - 1) mod 9 + 1"
  define k where "k = (n - 1) div 9"
  have i: "1 \<le> i" "i \<le> 9" and k: "0 \<le> k" and n: "n = 9 * k + i"
    using pos by (simp_all add: i_def k_def minus_mod_eq_mult_div [symmetric])
  have "ROUND_UP n = k + 1" unfolding n using i k by (rule ROUND_UP_groups)
  then have lenG: "int (length G) = k + 1" using G(1) by simp
  then have ne: "G \<noteq> []" using k by auto
  have sm: "(n - 1) smod 9 + 1 = i" using pos by (simp add: i_def smod_nonneg)
  define b where "b = dropWhile (\<lambda>x. x = 0) G"
  have bne: "b \<noteq> []" using G(2) by (auto simp: b_def dropWhile_eq_Nil_conv)
  then obtain x xs where b: "b = x # xs" by (cases b) auto
  have "x \<noteq> 0" using b hd_dropWhile [of "\<lambda>x. x = 0" G] bne by (simp add: b_def)
  moreover have xG: "x \<in> set G" using b set_dropWhileD [of x "\<lambda>x. x = 0" G] by (simp add: b_def)
  ultimately have x: "0 < x" using G(3) by force
  define i' where "i' = (if hd G = 0 then 9 else i)"
  have i': "1 \<le> i'" "i' \<le> 9" using i by (simp_all add: i'_def)
  have s1: "skip_zero_groups i n (G @ F) = Inr (x # xs @ F, 9 * int (length xs) + i')"
    using skip_zero_groups_eq [of G n i F] ne lenG n i G(2) by (simp add: b_def [symmetric] b i'_def)
  have "length b \<le> length G" unfolding b_def by (rule length_dropWhile_le)
  have "9 * int (length xs) + i' \<le> n \<and> (i' = 9 \<or> G = x # xs \<and> i' = i)"
  proof (cases "hd G = 0")
    case False
    then have "b = G" using ne by (cases G) (auto simp: b_def)
    then have "G = x # xs" "i' = i" using b False by (simp_all add: i'_def)
    then show ?thesis using i lenG n by simp
  next
    case True
    then have "length b < length G" using ne length_dropWhile_le [of "\<lambda>x. x = 0" "tl G"]
      by (cases G) (auto simp: b_def less_Suc_eq_le)
    then show ?thesis using True i i' lenG n b by (simp add: i'_def)
  qed
  then show thesis
    using b s1 i' x xG by (intro that [of x xs i']) (simp_all add: b_def sm i_def [symmetric])
qed

lemma remove_leading_zeroes_weak:
  assumes n0: "0 \<le> intg d" and len: "int (length (intg_groups d)) = ROUND_UP (intg d)"
    and grp: "\<forall>x \<in> set (intg_groups d). group_ok x"
  obtains b n where "remove_leading_zeroes d = Inr (b @ frac_groups d, n)"
    "b = dropWhile (\<lambda>x. x = 0) (intg_groups d)" "ROUND_UP n = int (length b)" "0 \<le> n" "n \<le> intg d"
    "intg_ok (intg d) (intg_groups d) \<Longrightarrow> significant b n"
proof -
  define G where "G = intg_groups d"
  define F where "F = frac_groups d"
  define b where "b = dropWhile (\<lambda>x. x = 0) G"
  have buf: "buf d = G @ F" by (simp add: G_def F_def intg_groups_def frac_groups_def)
  note rl = remove_leading_zeroes_def [of d, unfolded buf]
  show thesis
  proof (cases "intg d = 0 \<or> (\<forall>x \<in> set G. x = 0)")
    case True
    have "remove_leading_zeroes d = Inr (F, 0)"
    proof (cases "intg d = 0")
      case True
      then have "G = []" by (simp add: G_def intg_groups_def ROUND_UP_div)
      then show ?thesis using True by (simp add: rl skip_zero_groups.simps)
    next
      case False
      define i where "i = (intg d - 1) mod 9 + 1"
      define k where "k = (intg d - 1) div 9"
      have i: "1 \<le> i" "i \<le> 9" "0 \<le> k" and n: "intg d = 9 * k + i"
        using False n0 by (simp_all add: i_def k_def minus_mod_eq_mult_div [symmetric])
      have "int (length G) = k + 1" using len i unfolding G_def n by (simp add: ROUND_UP_groups)
      moreover have "(intg d - 1) smod 9 + 1 = i" using False n0 by (simp add: i_def smod_nonneg)
      ultimately show ?thesis
        using skip_zero_groups_eq [of G "intg d" i F] True i n False by (cases "G = []") (simp_all add: rl)
    qed
    moreover have "b = []" using True by (auto simp: b_def G_def intg_groups_def ROUND_UP_div)
    ultimately show ?thesis using n0
      by (intro that [of b 0]) (simp_all add: b_def significant_def F_def G_def [symmetric] ROUND_UP_def)
  next
    case False
    then have pos: "0 < intg d" and ex: "\<exists>x \<in> set G. x \<noteq> 0" using n0 by auto
    have nn: "\<forall>x \<in> set G. 0 \<le> x" using grp by (simp add: G_def group_ok_def)
    obtain x xs i where s: "b = x # xs" "1 \<le> i" "i \<le> 9" "0 < x" "x \<in> set G"
      "skip_zero_groups ((intg d - 1) smod 9 + 1) (intg d) (G @ F) = Inr (x # xs @ F, 9 * int (length xs) + i)"
      "9 * int (length xs) + i \<le> intg d" "i = 9 \<or> G = x # xs \<and> i = (intg d - 1) mod 9 + 1"
      using skip_zero_first [OF pos len [folded G_def] ex nn, of F] unfolding b_def by blast
    define n1 where "n1 = 9 * int (length xs) + i"
    have n1: "nat ((n1 - 1) smod 9) = nat (i - 1)" "0 < n1"
    proof -
      have e: "n1 - 1 = (i - 1) + 9 * int (length xs)" by (simp add: n1_def)
      have "(n1 - 1) smod 9 = (n1 - 1) mod 9" using s(2) by (simp add: e smod_nonneg)
      then show "nat ((n1 - 1) smod 9) = nat (i - 1)" unfolding e using s(2,3) by simp
      show "0 < n1" using s(2) by (simp add: n1_def)
    qed
    obtain m where m: "m \<le> nat (i - 1)" "10 ^ m \<le> x" "x < 10 ^ Suc (nat (i - 1)) \<longrightarrow> x < 10 ^ Suc m"
      "skip_zero_digits (nat (i - 1)) x n1 = Inr (n1 - int (nat (i - 1) - m))"
      using skip_zero_digits_eq [OF s(4)] by metis
    define n2 where "n2 = 9 * int (length xs) + (int m + 1)"
    have n2: "n1 - int (nat (i - 1) - m) = n2" "n2 \<le> intg d" "m < 9"
      using m(1) s(2,3,7) by (simp_all add: n1_def n2_def)
    have "remove_leading_zeroes d = Inr (b @ F, n2)"
      using s(6) n1 m(4) n2 by (simp add: rl n1_def [symmetric] s(1) dec1_at_def)
    moreover have "ROUND_UP n2 = int (length b)"
      unfolding n2_def using n2(3) s(1) by (subst ROUND_UP_groups) auto
    moreover have "significant b n2" if g: "intg_ok (intg d) G"
    proof -
      have xg: "x < 10 ^ 9" using grp s(5) by (simp add: G_def group_ok_def)
      have si: "Suc (nat (i - 1)) = nat i" using s(2) by simp
      have "x < 10 ^ nat i"
      proof (cases "i = 9")
        case False
        then have "odd9 (intg d) = i" "G = x # xs" using s(2,3,8) pos odd9_of_pred [OF pos] by auto
        then show ?thesis using g s(2) by (simp add: intg_ok_def)
      qed (use xg in simp)
      then show ?thesis using m(2,3) n2(3) s(1) unfolding si by (auto simp: significant_def n2_def)
    qed
    ultimately show ?thesis using n2(2)
      by (intro that [of b n2]) (simp_all add: b_def F_def G_def [symmetric] n2_def)
  qed
qed

lemma remove_leading_zeroes_ok:
  assumes ok: "decimal_ok d"
  obtains b n where "remove_leading_zeroes d = Inr (b @ frac_groups d, n)"
    "b = dropWhile (\<lambda>x. x = 0) (intg_groups d)" "significant b n" "0 \<le> n" "n \<le> intg d"
  using ok remove_leading_zeroes_weak [of d thesis] by (auto simp: decimal_ok_def intg_ok_def)

section \<open>What is printed\<close>

text \<open>The text of a decimal: its integral part as a number and the digits of its fraction.\<close>

definition decimal_text :: "decimal_t \<Rightarrow> string" where
  "decimal_text d =
     (if sign d then ''-'' else []) @ show_dec (nat (groups_value (intg_groups d))) @
     (if frac d = 0 then []
      else CHR ''.'' # take (nat (frac d)) (concat (map (\<lambda>x. fmt_number x 9) (frac_groups d))))"

lemma intg_digits_ok:
  assumes "\<forall>x \<in> set b. group_ok x" "n \<le> 9 * length b" "9 * length b < n + 9"
  shows "intg_digits (b @ F) (int (length b)) n = Inr (fmt_number (groups_value b) n)"
  using assms
proof (induction b arbitrary: n F rule: rev_induct)
  case Nil
  then show ?case by (simp add: intg_digits.simps)
next
  case (snoc x b)
  have x: "0 \<le> x" "x < 10 ^ 9" using snoc.prems by (simp_all add: group_ok_def)
  have n: "n \<noteq> 0" using snoc.prems by simp
  have at: "dec1_at ((b @ [x]) @ F) (int (length (b @ [x])) - 1) = Inr x"
    by (simp add: dec1_at_def nth_append)
  have IH: "intg_digits (b @ [x] @ F) (int (length b)) (n - 9) = Inr (fmt_number (groups_value b) (n - 9))"
    using snoc.prems by (intro snoc.IH) auto
  have "intg_digits ((b @ [x]) @ F) (int (length (b @ [x]))) n
      = Inr (fmt_number (groups_value b) (n - 9) @ fmt_number x (min n 9))"
    using n at IH x by (subst intg_digits.simps) (simp add: low_digits_fmt)
  also have "fmt_number (groups_value b) (n - 9) @ fmt_number x (min n 9)
      = fmt_number (groups_value (b @ [x])) n"
  proof (cases "n \<le> 9")
    case True
    then have "b = []" using snoc.prems(3) by (cases b) auto
    then show ?thesis using True by (simp add: groups_value_Cons)
  next
    case False
    then show ?thesis using fmt_number_split [OF x, of "groups_value b" "n - 9"] by simp
  qed
  finally show ?case .
qed

lemma frac_digits_ok:
  assumes "\<forall>x \<in> set fs. group_ok x" "n \<le> 9 * length fs"
  shows "frac_digits (p @ fs) (int (length p)) n = Inr (take n (concat (map (\<lambda>x. fmt_number x 9) fs)))"
  using assms
proof (induction fs arbitrary: n p)
  case Nil
  then show ?case by (simp add: frac_digits.simps)
next
  case (Cons x fs)
  show ?case
  proof (cases "n = 0")
    case True
    then show ?thesis by (simp add: frac_digits.simps)
  next
    case False
    have x: "0 \<le> x" "x < 10 ^ 9" using Cons.prems by (simp_all add: group_ok_def)
    have at: "dec1_at (p @ x # fs) (int (length p)) = Inr x" by (simp add: dec1_at_def nth_append)
    have IH: "frac_digits (p @ x # fs) (int (length p) + 1) (n - 9)
        = Inr (take (n - 9) (concat (map (\<lambda>x. fmt_number x 9) fs)))"
      using Cons.IH [of "n - 9" "p @ [x]"] Cons.prems by (simp add: add.commute)
    have "frac_digits (p @ x # fs) (int (length p)) n
        = Inr (take (min n 9) (fmt_number x 9) @ take (n - 9) (concat (map (\<lambda>x. fmt_number x 9) fs)))"
      using False at IH high_digits_fmt [OF x, of "min n 9"] by (subst frac_digits.simps) simp
    then show ?thesis by (cases "n \<le> 9") simp_all
  qed
qed

lemma significant_digits:
  assumes "significant b n" "b \<noteq> []" "\<forall>x \<in> set b. group_ok x"
  shows "ROUND_UP n = int (length b)" "0 < n" "nat n \<le> 9 * length b" "9 * length b < nat n + 9"
    "fmt_number (groups_value b) (nat n) = show_dec (nat (groups_value b))"
proof -
  obtain m where m: "m < 9" "n = 9 * (int (length b) - 1) + int m + 1" "10 ^ m \<le> hd b" "hd b < 10 ^ Suc m"
    using assms by (auto simp: significant_def)
  obtain x xs where b: "b = x # xs" using assms(2) by (cases b) auto
  have n: "n = 9 * int (length xs) + (int m + 1)" using m(2) b by simp
  show "ROUND_UP n = int (length b)" unfolding n using m(1) b by (subst ROUND_UP_groups) auto
  show "0 < n" using n by simp
  show "nat n \<le> 9 * length b" "9 * length b < nat n + 9" using n b m(1) by auto
  have nn: "nat n = Suc (9 * length xs + m)" using n by simp
  show "fmt_number (groups_value b) (nat n) = show_dec (nat (groups_value b))"
    unfolding nn b by (rule show_dec_fmt; rule groups_value_bounds) (use m(3,4) b assms(3) in simp_all)
qed

lemma decimal2string_ok:
  assumes ok: "decimal_ok d" and len: "intg d + frac d \<le> 79"
  shows "decimal2string d (int DECIMAL_MAX_STR_LENGTH) = Inr (decimal_text d, E_DEC_OK)"
proof -
  obtain b n where r: "remove_leading_zeroes d = Inr (b @ frac_groups d, n)"
    "b = dropWhile (\<lambda>x. x = 0) (intg_groups d)" "significant b n" "0 \<le> n" "n \<le> intg d"
    by (rule remove_leading_zeroes_ok [OF ok])
  have bok: "\<forall>x \<in> set (intg_groups d). group_ok x" "\<forall>x \<in> set (frac_groups d). group_ok x"
    using ok by (simp_all add: decimal_ok_def intg_ok_def frac_ok_def)
  have bg: "\<forall>x \<in> set b. group_ok x" using bok(1) set_dropWhileD unfolding r(2) by fast
  have v: "groups_value (intg_groups d) = groups_value b" by (simp add: r(2) groups_value_dropWhile)
  have fr: "0 \<le> frac d" using ok by (simp add: decimal_ok_def frac_ok_def)
  have lf: "nat (frac d) \<le> 9 * length (frac_groups d)"
  proof -
    have "int (length (frac_groups d)) = ROUND_UP (frac d)"
      using ok by (simp add: decimal_ok_def frac_ok_def)
    then show ?thesis using fr by (auto simp: ROUND_UP_div split: if_splits)
  qed
  have fit: "fit_text l 82 i f = (i, f, E_DEC_OK)" if "l \<le> 82" for l i f
    using that by (simp add: fit_text_def)
  have fd: "frac_digits (b @ frac_groups d) (int (length b)) (nat (frac d)) =
      Inr (take (nat (frac d)) (concat (map (\<lambda>x. fmt_number x 9) (frac_groups d))))"
    by (rule frac_digits_ok [OF bok(2) lf])
  show ?thesis
  proof (cases "b = []")
    case True
    then have "n = 0" using r(3) by (simp add: significant_def)
    show ?thesis
    proof (cases "frac d = 0")
      case True
      have i: "intg_digits [0] 1 1 = Inr ''0''"
        by (simp add: intg_digits.simps dec1_at_def byte_of_48)
      show ?thesis using r(1) \<open>n = 0\<close> \<open>b = []\<close> True v i
        by (simp add: decimal2string_def fit DECIMAL_MAX_STR_LENGTH_def decimal_text_def ROUND_UP_def
            frac_digits.simps show_dec.simps digit_char_0)
    next
      case False
      then show ?thesis using r(1) \<open>n = 0\<close> \<open>b = []\<close> v fd len fr r(4,5)
        by (simp add: decimal2string_def fit DECIMAL_MAX_STR_LENGTH_def decimal_text_def ROUND_UP_def
            intg_digits.simps show_dec.simps digit_char_0)
    qed
  next
    case False
    note sg = significant_digits [OF r(3) False bg]
    have id: "intg_digits (b @ frac_groups d) (int (length b)) (nat n) = Inr (show_dec (nat (groups_value b)))"
      using intg_digits_ok [OF bg sg(3,4)] sg(5) by simp
    show ?thesis using r(1) sg(1,2) v fd id len fr r(4,5)
      by (simp add: decimal2string_def fit DECIMAL_MAX_STR_LENGTH_def decimal_text_def)
  qed
qed

end
