(* ===== verification/Decimal_Storage.thy ===== *)
theory Decimal_Storage
  imports Sql_Decimal
begin

text \<open>
  What a decimal is in the log and what is read back of it: \<open>decimal2bin\<close> stores digit groups,
  big endian, inverted for a negative number (\<open>stored_form\<close>), \<open>bin2decimal\<close> reads them back without
  leading zero groups, and the text of what is read is the text of what was stored. Whatever the
  bytes, for a column type the server allows what is read is printed within the buffer.
\<close>

section \<open>Reading back what was stored\<close>

text \<open>One group in so many bytes; the mask of a negative number inverts them.\<close>

definition dec_block :: "int \<Rightarrow> nat \<Rightarrow> int \<Rightarrow> string" where
  "dec_block mk i x = mi_store i (x XOR mk)"

definition dig_bytes :: "int \<Rightarrow> nat" where
  "dig_bytes r = [0, 1, 1, 2, 2, 3, 3, 4, 4, 4] ! nat r"

text \<open>The bytes of a decimal with \<open>ig\<close> digits before the point in the groups \<open>gs\<close> and \<open>sc\<close>
  digits after it in the groups \<open>fs\<close>.\<close>

definition stored_intg :: "int \<Rightarrow> int \<Rightarrow> int list \<Rightarrow> string" where
  "stored_intg mk ig gs =
     (if odd9 ig = 0 then concat (map (dec_block mk 4) gs)
      else dec_block mk (dig_bytes (odd9 ig)) (hd gs) @ concat (map (dec_block mk 4) (tl gs)))"

definition stored_frac :: "int \<Rightarrow> int \<Rightarrow> int list \<Rightarrow> string" where
  "stored_frac mk sc fs =
     (if odd9 sc = 0 then concat (map (dec_block mk 4) fs)
      else concat (map (dec_block mk 4) (butlast fs)) @
           dec_block mk (dig_bytes (odd9 sc)) (last fs div 10 ^ nat (9 - odd9 sc)))"

lemma digit_cases: "0 \<le> r \<Longrightarrow> r \<le> 9 \<Longrightarrow>
    r = 0 \<or> r = 1 \<or> r = 2 \<or> r = 3 \<or> r = 4 \<or> r = 5 \<or> r = 6 \<or> r = 7 \<or> r = 8 \<or> r = (9::int)"
  by presburger

lemma dig2bytes_ok: "0 \<le> r \<Longrightarrow> r \<le> 9 \<Longrightarrow> dig2bytes r = Inr (int (dig_bytes r))"
  by (drule (1) digit_cases) (auto simp: dig2bytes_def dig_bytes_def)

lemma dig_bytes_pos: "0 < r \<Longrightarrow> r \<le> 9 \<Longrightarrow> 0 < dig_bytes r \<and> dig_bytes r \<le> 4"
  by (frule digit_cases [OF less_imp_le]) (auto simp: dig_bytes_def)

lemma dig_bytes_fits: "0 < r \<Longrightarrow> r \<le> 9 \<Longrightarrow> (10::int) ^ nat r \<le> 2 ^ (8 * dig_bytes r - 1)"
  by (frule digit_cases [OF less_imp_le]) (auto simp: dig_bytes_def)

lemma dig_bytes_mono: "0 \<le> q \<Longrightarrow> q \<le> r \<Longrightarrow> r \<le> 9 \<Longrightarrow> dig_bytes q \<le> dig_bytes r"
  using digit_cases [of q] digit_cases [of r] by (auto simp: dig_bytes_def)

lemma mi_skorr_store_signed:
  assumes "0 < n" "- (2 ^ (8 * n - 1)) \<le> v" "v < 2 ^ (8 * n - 1)"
  shows "mi_skorr n (mi_store n v @ s) = v"
proof -
  have p: "(256::int) ^ n = 2 ^ (8 * n)" by (simp add: power_mult)
  have "mi_skorr n (mi_store n v @ s) = signed_of (8 * n) v"
    by (simp add: mi_skorr_def signed_of_def p mod_add_left_eq)
  then show ?thesis using assms by (simp add: signed_of_id)
qed

lemma xor_mask: "mk = 0 \<or> mk = -1 \<Longrightarrow> (x::int) XOR mk = (if mk = 0 then x else - x - 1)"
  by (auto simp: not_int_def)

lemma read_block:
  assumes mk: "mk = 0 \<or> mk = -1" and x: "0 < i" "0 \<le> x" "x < 2 ^ (8 * i - 1)"
  shows "read_dec1 (p @ dec_block mk i x @ s) (int (length p)) (int i) mk = Inr x"
proof -
  have "mi_skorr i (dec_block mk i x @ s) = x XOR mk"
    unfolding dec_block_def by (rule mi_skorr_store_signed) (use x xor_mask [OF mk] in auto)
  moreover have "(x XOR mk) XOR mk = x" by (simp add: xor.assoc)
  ultimately show ?thesis by (simp add: read_dec1_def dec_block_def)
qed

lemma length_dec_block [simp]: "length (dec_block mk i x) = i"
  by (simp add: dec_block_def)

lemma group_ok_fits: "group_ok x \<Longrightarrow> 0 \<le> x \<and> x < 2 ^ (8 * 4 - 1) \<and> \<not> DIG_MAX < x \<and> \<not> DIG_MAX < x mod 2 ^ 32"
  by (auto simp: group_ok_def DIG_MAX_def)

lemma read_intg_ok:
  assumes mk: "mk = 0 \<or> mk = -1" and "\<forall>x \<in> set gs. group_ok x"
  shows "read_intg (length gs) (p @ concat (map (dec_block mk 4) gs) @ s) (int (length p)) mk st
    = Inr (Some (foldl (\<lambda>st x. keep_intg x 9 st) st gs))"
  using assms(2)
proof (induction gs arbitrary: p st)
  case (Cons x gs)
  have "read_dec1 (p @ dec_block mk 4 x @ concat (map (dec_block mk 4) gs) @ s) (int (length p)) 4 mk = Inr x"
    using read_block [OF mk, of 4 x p] group_ok_fits [of x] Cons.prems by simp
  moreover have "read_intg (length gs) (p @ dec_block mk 4 x @ concat (map (dec_block mk 4) gs) @ s)
      (int (length p) + 4) mk (keep_intg x 9 st)
      = Inr (Some (foldl (\<lambda>st x. keep_intg x 9 st) (keep_intg x 9 st) gs))"
    using Cons.IH [of "p @ dec_block mk 4 x" "keep_intg x 9 st"] Cons.prems
    by (simp add: add.commute)
  ultimately show ?case using group_ok_fits [of x] Cons.prems by simp
qed simp

lemma read_frac_ok:
  assumes mk: "mk = 0 \<or> mk = -1" and "\<forall>x \<in> set fs. group_ok x"
  shows "read_frac (length fs) (p @ concat (map (dec_block mk 4) fs) @ s) (int (length p)) mk b
    = Inr (Some (b @ fs))"
  using assms(2)
proof (induction fs arbitrary: p b)
  case (Cons x fs)
  have "read_dec1 (p @ dec_block mk 4 x @ concat (map (dec_block mk 4) fs) @ s) (int (length p)) 4 mk = Inr x"
    using read_block [OF mk, of 4 x p] group_ok_fits [of x] Cons.prems by simp
  moreover have "read_frac (length fs) (p @ dec_block mk 4 x @ concat (map (dec_block mk 4) fs) @ s)
      (int (length p) + 4) mk (b @ [x]) = Inr (Some (b @ [x] @ fs))"
    using Cons.IH [of "p @ dec_block mk 4 x" "b @ [x]"] Cons.prems
    by (simp add: add.commute)
  ultimately show ?case using group_ok_fits [of x] Cons.prems by simp
qed simp

lemma keep_intg_simps [simp]:
  "b \<noteq> [] \<Longrightarrow> keep_intg x k (b, n) = (b @ [x], n)"
  "keep_intg x k ([], n) = (if x = 0 then ([], n - k) else ([x], n))"
  by (simp_all add: keep_intg_def)

lemma keep_fold:
  "foldl (\<lambda>st x. keep_intg x 9 st) (b, n) gs =
     (if b \<noteq> [] then (b @ gs, n)
      else (dropWhile (\<lambda>x. x = 0) gs,
            n - 9 * int (length gs - length (dropWhile (\<lambda>x. x = 0) gs))))"
proof (induction gs arbitrary: b n)
  case (Cons x gs)
  have "length (dropWhile (\<lambda>x. x = 0) gs) \<le> length gs" by (rule length_dropWhile_le)
  then show ?case by (simp add: Cons of_nat_diff algebra_simps)
qed simp

text \<open>The first bit, flipped in the stored form, tells the sign.\<close>

lemma ubyte_xor: "(ubyte c XOR 0x80) mod 256 = ubyte c XOR 0x80"
proof -
  have "(ubyte c XOR 0x80) mod 256 = take_bit 8 (ubyte c XOR 0x80)" by (simp add: take_bit_eq_mod)
  also have "\<dots> = take_bit 8 (ubyte c) XOR take_bit 8 0x80" by (rule take_bit_xor)
  also have "take_bit 8 (ubyte c) = ubyte c" by (simp add: take_bit_eq_mod)
  finally show ?thesis by (simp add: take_bit_eq_mod)
qed

lemma flip_flip: "byte_of (ubyte (byte_of (ubyte c XOR 0x80)) XOR 0x80) = c"
  by (simp add: ubyte_xor xor.assoc)

lemma copy_flip_first: "S \<noteq> [] \<Longrightarrow> copy_flipped (flip_first S @ rest) (int (length S)) = Inr S"
proof -
  assume "S \<noteq> []"
  then obtain c cs where S: "S = c # cs" by (cases S) auto
  have "nat (1 + int (length cs)) = Suc (length cs)" by simp
  then show ?thesis by (simp add: S copy_flipped_def flip_first_def ubyte_xor xor.assoc)
qed

lemma high_bit: "(ubyte (byte_of (ubyte c XOR 0x80)) AND 0x80 \<noteq> 0) \<longleftrightarrow> ubyte c < 128"
proof -
  have "ubyte (byte_of (ubyte c XOR 0x80)) AND 0x80 = (ubyte c XOR 0x80) AND 2 ^ 7"
    by (simp add: ubyte_xor)
  then have "(ubyte (byte_of (ubyte c XOR 0x80)) AND 0x80 \<noteq> 0) \<longleftrightarrow> bit (ubyte c XOR 0x80) 7"
    by (simp only: and_exp_eq_0_iff_not_bit not_not)
  also have "bit (ubyte c XOR 0x80) 7 \<longleftrightarrow> \<not> bit (ubyte c) 7"
  proof -
    have "bit (0x80::int) 7" by (simp add: bit_iff_odd)
    then show ?thesis by (simp add: bit_xor_iff del: bit_numeral_simps)
  qed
  also have "bit (ubyte c) 7 \<longleftrightarrow> \<not> ubyte c < 128"
  proof -
    have "0 \<le> ubyte c" "ubyte c < 256" by simp_all
    then have "ubyte c div 128 = 0 \<or> ubyte c div 128 = 1" "(ubyte c div 128 = 0) = (ubyte c < 128)" by linarith+
    then show ?thesis by (auto simp: bit_iff_odd)
  qed
  finally show ?thesis by simp
qed

lemma mi_store_head: "mi_store (Suc n) v = byte_of (v div 256 ^ n) # mi_store n v"
proof (induction n arbitrary: v)
  case (Suc n)
  have "v div 256 div 256 ^ n = v div 256 ^ Suc n" by (simp add: zdiv_zmult2_eq)
  then show ?case using Suc [of "v div 256"] by simp
qed simp

lemma neg_div:
  assumes "0 < k"
  shows "(- x - 1) div k = - (x div k) - (1::int)"
proof -
  define r where "r = x mod k"
  have r: "0 \<le> r" "r < k" using assms by (simp_all add: r_def)
  have e: "- x - 1 = (k - 1 - r) + (- (x div k) - 1) * k"
    using div_mult_mod_eq [of x k] by (simp add: r_def algebra_simps)
  have z: "(k - 1 - r) div k = 0" using r by (intro div_pos_pos_trivial) auto
  show ?thesis unfolding e using z assms by simp
qed

lemma bin_mask_block:
  assumes mk: "mk = 0 \<or> mk = -1" and i: "0 < i" and x: "0 \<le> x" "x < 2 ^ (8 * i - 1)"
  shows "bin_mask (flip_first (dec_block mk i x @ s) @ rest) = mk"
proof -
  obtain n where n: "i = Suc n" using i by (cases i) auto
  define q where "q = x div 256 ^ n"
  have "8 * i - 1 = 8 * n + 7" by (simp add: n)
  then have "(2::int) ^ (8 * i - 1) = 256 ^ n * 128" by (simp add: power_add power_mult)
  then have q: "0 \<le> q" "q < 128" using x by (auto simp: q_def pos_imp_zdiv_nonneg_iff intro: div_less_mult)
  have neg: "(- x - 1) div 256 ^ n = - q - 1"
    unfolding q_def by (rule neg_div) simp
  have "(- q - 1 + 256) mod 256 = (- q - 1) mod 256" by (rule mod_add_self2)
  then have "(- q - 1) mod 256 = 255 - q" using q by (simp add: mod_pos_pos_trivial)
  define c where "c = byte_of ((x XOR mk) div 256 ^ n)"
  have "ubyte c < 128 \<longleftrightarrow> mk = 0"
    using mk q \<open>(- q - 1) mod 256 = 255 - q\<close> by (auto simp: c_def xor_mask neg q_def [symmetric])
  moreover have "dec_block mk i x = c # mi_store n (x XOR mk)"
    by (simp only: dec_block_def n mi_store_head c_def)
  ultimately have "bin_mask (flip_first (dec_block mk i x @ s) @ rest) = (if mk = 0 then 0 else -1)"
    by (simp only: flip_first_def bin_mask_def append_Cons list.case high_bit)
  then show ?thesis using mk by auto
qed

text \<open>The form of what is stored: blocks, the first of which tells the sign.\<close>

lemma stored_head:
  assumes g: "intg_ok ig gs" and f: "frac_ok sc fs" and pos: "0 < ig + sc"
  obtains i x s where "stored_intg mk ig gs @ stored_frac mk sc fs = dec_block mk i x @ s"
    "0 < i" "0 \<le> x" "x < 2 ^ (8 * i - 1)"
proof -
  have ig: "0 \<le> ig" and sc: "0 \<le> sc" using g f by (simp_all add: intg_ok_def frac_ok_def)
  note ru = ROUND_UP_groups9 [OF ig] ROUND_UP_groups9 [OF sc] odd9_range [OF ig] odd9_range [OF sc]
  show thesis
  proof (cases "0 < ig")
    case True
    then have "gs \<noteq> []" using g ru by (auto simp: intg_ok_def groups9_odd9 split: if_splits)
    then obtain x xs where gs: "gs = x # xs" by (cases gs) auto
    have x: "group_ok x" using g gs by (simp add: intg_ok_def)
    show ?thesis
    proof (cases "odd9 ig = 0")
      case True
      then show ?thesis using group_ok_fits [OF x] gs
        by (intro that [of 4 x]) (simp_all add: stored_intg_def)
    next
      case False
      have r: "0 < odd9 ig" "odd9 ig \<le> 9" using False ru by auto
      have "x < 10 ^ nat (odd9 ig)" using g gs r by (simp add: intg_ok_def)
      then show ?thesis using dig_bytes_fits [OF r] dig_bytes_pos [OF r] group_ok_fits [OF x] gs False
        by (intro that [of "dig_bytes (odd9 ig)" x]) (simp_all add: stored_intg_def)
    qed
  next
    case False
    then have "0 < sc" "ig = 0" using pos ig by auto
    then have e: "stored_intg mk ig gs = []" using g by (auto simp: stored_intg_def intg_ok_def groups9_odd9 ROUND_UP_def)
    have "fs \<noteq> []" using f ru \<open>0 < sc\<close> by (auto simp: frac_ok_def groups9_odd9 split: if_splits)
    then obtain x xs where fs: "fs = x # xs" by (cases fs) auto
    have x: "group_ok x" using f fs by (simp add: frac_ok_def)
    show ?thesis
    proof (cases "odd9 sc = 0 \<or> xs \<noteq> []")
      case True
      then show ?thesis using group_ok_fits [OF x] fs e
        by (intro that [of 4 x "if odd9 sc = 0 then concat (map (dec_block mk 4) xs)
            else concat (map (dec_block mk 4) (butlast xs)) @
              dec_block mk (dig_bytes (odd9 sc)) (last fs div 10 ^ nat (9 - odd9 sc))"])
          (auto simp: stored_frac_def)
    next
      case False
      have r: "0 < odd9 sc" "odd9 sc \<le> 9" using False ru by auto
      define y where "y = x div 10 ^ nat (9 - odd9 sc)"
      have "(10::int) ^ 9 = 10 ^ nat (9 - odd9 sc) * 10 ^ nat (odd9 sc)"
        using r by (simp only: power_add [symmetric]) (simp add: nat_add_distrib [symmetric])
      then have "0 \<le> y" "y < 10 ^ nat (odd9 sc)" using x
        by (auto simp: y_def group_ok_def pos_imp_zdiv_nonneg_iff intro!: div_less_mult)
      then show ?thesis using dig_bytes_fits [OF r] dig_bytes_pos [OF r] fs False e
        by (intro that [of "dig_bytes (odd9 sc)" y]) (simp_all add: stored_frac_def y_def)
    qed
  qed
qed

lemma concat_blocks_length [simp]: "length (concat (map (dec_block mk 4) gs)) = 4 * length gs"
  by (induction gs) simp_all

lemma stored_size:
  assumes "intg_ok ig gs" "frac_ok sc fs"
  shows "dec_bytes ig = Inr (int (length (stored_intg mk ig gs)))"
    "dec_bytes sc = Inr (int (length (stored_frac mk sc fs)))"
proof -
  have ig: "0 \<le> ig" and sc: "0 \<le> sc" using assms by (simp_all add: intg_ok_def frac_ok_def)
  note ru = ROUND_UP_groups9 [OF ig] ROUND_UP_groups9 [OF sc] odd9_range [OF ig] odd9_range [OF sc]
  have l: "int (length gs) = groups9 ig + (if odd9 ig > 0 then 1 else 0)"
    "int (length fs) = groups9 sc + (if odd9 sc > 0 then 1 else 0)"
    using assms ru by (simp_all add: intg_ok_def frac_ok_def)
  have 0: "dig_bytes 0 = 0" by (simp add: dig_bytes_def)
  have "gs \<noteq> []" if "0 < odd9 ig" using l that ig by (auto simp: groups9_odd9)
  then show "dec_bytes ig = Inr (int (length (stored_intg mk ig gs)))"
    using l ru 0 dig2bytes_ok [of "odd9 ig"] by (cases "odd9 ig = 0"; cases gs) (auto simp: dec_bytes_def stored_intg_def)
  have "fs \<noteq> []" if "0 < odd9 sc" using l that sc by (auto simp: groups9_odd9)
  then show "dec_bytes sc = Inr (int (length (stored_frac mk sc fs)))"
    using l ru 0 dig2bytes_ok [of "odd9 sc"]
    by (cases "odd9 sc = 0"; cases fs rule: rev_cases) (auto simp: dec_bytes_def stored_frac_def)
qed

definition bin_digits :: "int \<Rightarrow> int list \<Rightarrow> int" where
  "bin_digits ig gs =
     (let b = dropWhile (\<lambda>x. x = 0) gs in if b = gs then ig else 9 * int (length b))"

lemma read_intg_part:
  assumes mk: "mk = 0 \<or> mk = -1" and g: "intg_ok ig gs"
  shows "try_then (read_first (stored_intg mk ig gs @ s) 0 (odd9 ig) mk ([], groups9 ig * 9 + odd9 ig))
      (\<lambda>st. read_intg (nat (groups9 ig)) (stored_intg mk ig gs @ s) (int (dig_bytes (odd9 ig))) mk st)
    = Inr (Some (dropWhile (\<lambda>x. x = 0) gs, bin_digits ig gs))"
proof -
  have ig: "0 \<le> ig" using g by (simp add: intg_ok_def)
  have e: "groups9 ig * 9 + odd9 ig = ig" by (simp add: odd9_def)
  have l: "int (length gs) = groups9 ig + (if odd9 ig > 0 then 1 else 0)"
    using g ROUND_UP_groups9 [OF ig] by (simp add: intg_ok_def)
  have g0: "0 \<le> groups9 ig" using ig by (simp add: groups9_odd9)
  have gok: "\<forall>x \<in> set gs. group_ok x" using g by (simp add: intg_ok_def)
  have dl: "length (dropWhile (\<lambda>x. x = 0) xs) \<le> length xs" for xs :: "int list"
    by (rule length_dropWhile_le)
  show ?thesis
  proof (cases "odd9 ig = 0")
    case True
    have n: "nat (groups9 ig) = length gs" using l True by simp
    have "dig_bytes 0 = 0" by (simp add: dig_bytes_def)
    moreover have "bin_digits ig gs = ig - 9 * int (length gs - length (dropWhile (\<lambda>x. x = 0) gs))"
      using e True l dl [of gs] by (auto simp: bin_digits_def Let_def of_nat_diff)
    ultimately show ?thesis
      using read_intg_ok [OF mk gok, of "[]" s "([], ig)"] True n e
      by (simp add: read_first_def stored_intg_def keep_fold)
  next
    case False
    then have r: "0 < odd9 ig" "odd9 ig \<le> 9" using odd9_range [OF ig] by auto
    obtain x xs where gs: "gs = x # xs" using l r g0 by (cases gs) auto
    have n: "nat (groups9 ig) = length xs" using l r gs by simp
    have x: "0 \<le> x" "x < 10 ^ nat (odd9 ig)" using g gs r by (auto simp: intg_ok_def group_ok_def)
    define i where "i = dig_bytes (odd9 ig)"
    define d where "d = dec_block mk i x @ concat (map (dec_block mk 4) xs) @ s"
    have d: "stored_intg mk ig gs @ s = d" using False by (simp add: stored_intg_def gs d_def i_def)
    have ri: "read_dec1 d 0 (int i) mk = Inr x"
      using read_block [OF mk, of i x "[]"] dig_bytes_pos [OF r] dig_bytes_fits [OF r] x
      by (simp add: d_def i_def)
    have "(10::int) ^ nat (odd9 ig) \<le> 10 ^ nat (odd9 ig + 1)" "(10::int) ^ nat (odd9 ig) \<le> 10 ^ 9"
      by (rule power_increasing; use r in simp)+
    then have "x < 10 ^ nat (odd9 ig + 1)" "x < 10 ^ 9" using x by linarith+
    then have "\<not> 10 ^ nat (odd9 ig + 1) \<le> x mod 2 ^ 64" using x by (subst mod_pos_pos_trivial) auto
    then have "read_first d 0 (odd9 ig) mk ([], ig) = Inr (Some (keep_intg x (odd9 ig) ([], ig)))"
      using False dig2bytes_ok [of "odd9 ig"] r ri by (simp add: read_first_def i_def)
    moreover have "read_intg (length xs) d (int i) mk st
        = Inr (Some (foldl (\<lambda>st x. keep_intg x 9 st) st xs))" for st
      using read_intg_ok [OF mk, of xs "dec_block mk i x" s st] gok gs by (simp add: d_def)
    moreover have "dropWhile (\<lambda>x. x = 0) xs \<noteq> 0 # xs" using dl [of xs] by (metis Suc_n_not_le_n length_Cons)
    ultimately show ?thesis unfolding d n i_def [symmetric] e using e l gs dl [of xs]
      by (simp add: keep_fold bin_digits_def Let_def of_nat_diff r)
  qed
qed

lemma read_frac_part:
  assumes mk: "mk = 0 \<or> mk = -1" and f: "frac_ok sc fs"
  shows "try_then (read_frac (nat (groups9 sc)) (p @ stored_frac mk sc fs @ s) (int (length p)) mk b)
      (\<lambda>b. read_last (p @ stored_frac mk sc fs @ s) (int (length p) + 4 * groups9 sc) (odd9 sc) mk b)
    = Inr (Some (b @ fs))"
proof -
  have sc: "0 \<le> sc" using f by (simp add: frac_ok_def)
  have l: "int (length fs) = groups9 sc + (if odd9 sc > 0 then 1 else 0)"
    using f ROUND_UP_groups9 [OF sc] by (simp add: frac_ok_def)
  have g0: "0 \<le> groups9 sc" using sc by (simp add: groups9_odd9)
  have fok: "\<forall>x \<in> set fs. group_ok x" using f by (simp add: frac_ok_def)
  show ?thesis
  proof (cases "odd9 sc = 0")
    case True
    then have n: "nat (groups9 sc) = length fs" using l by simp
    then show ?thesis
      using read_frac_ok [OF mk fok, of p s b] True by (simp add: read_last_def stored_frac_def)
  next
    case False
    then have r: "0 < odd9 sc" "odd9 sc \<le> 9" using odd9_range [OF sc] by auto
    then obtain ys x where fs: "fs = ys @ [x]" using l g0 by (cases fs rule: rev_cases) auto
    have n: "nat (groups9 sc) = length ys" and n': "groups9 sc = int (length ys)" using l r fs by auto
    have x: "group_ok x" and xm: "x mod 10 ^ nat (9 - odd9 sc) = 0" using fok fs f r by (auto simp: frac_ok_def)
    define y where "y = x div 10 ^ nat (9 - odd9 sc)"
    define i where "i = dig_bytes (odd9 sc)"
    have yx: "y * 10 ^ nat (9 - odd9 sc) = x" using xm by (auto simp: y_def)
    have "(10::int) ^ 9 = 10 ^ nat (9 - odd9 sc) * 10 ^ nat (odd9 sc)"
      using r by (simp only: power_add [symmetric]) (simp add: nat_add_distrib [symmetric])
    then have y: "0 \<le> y" "y < 10 ^ nat (odd9 sc)" using x
      by (auto simp: y_def group_ok_def pos_imp_zdiv_nonneg_iff intro!: div_less_mult)
    define q where "q = p @ concat (map (dec_block mk 4) ys)"
    have d: "p @ stored_frac mk sc fs @ s = q @ dec_block mk i y @ s"
      using False by (simp add: stored_frac_def fs q_def i_def y_def)
    have "read_dec1 (q @ dec_block mk i y @ s) (int (length q)) (int i) mk = Inr y"
      using read_block [OF mk, of i y q s] dig_bytes_pos [OF r] dig_bytes_fits [OF r] y by (simp add: i_def)
    moreover have "signed_of 32 x = x" using group_ok_fits [OF x] by (intro signed_of_id) auto
    ultimately have rl: "read_last (q @ dec_block mk i y @ s) (int (length q)) (odd9 sc) mk (b @ ys)
        = Inr (Some (b @ fs))"
      using False dig2bytes_ok [of "odd9 sc"] r group_ok_fits [OF x]
      by (simp add: read_last_def i_def [symmetric] yx fs Let_def)
    have "read_frac (length ys) (q @ dec_block mk i y @ s) (int (length p)) mk b = Inr (Some (b @ ys))"
      using read_frac_ok [OF mk, of ys p "dec_block mk i y @ s" b] fok fs by (simp add: q_def)
    moreover have "int (length p) + 4 * groups9 sc = int (length q)" by (simp add: q_def n')
    ultimately show ?thesis unfolding d n using rl by simp
  qed
qed

lemma fix_intg_frac_ok:
  assumes "0 \<le> ig" "0 \<le> sc" "ROUND_UP ig + ROUND_UP sc \<le> 9"
  shows "fix_intg_frac ig sc = Inr (groups9 ig, odd9 ig, groups9 sc, odd9 sc, 0, E_DEC_OK)"
  using assms ROUND_UP_groups9 [of ig] ROUND_UP_groups9 [of sc]
  by (simp add: fix_intg_frac_def DECIMAL_BUFF_LENGTH_def Let_def)

lemma try_then_assoc: "try_then (try_then m f) g = try_then m (\<lambda>x. try_then (f x) g)"
  by (auto simp: try_then_def and_then_def split: sum.splits option.splits)

lemma bin2decimal_stored:
  assumes mk: "mk = 0 \<or> mk = -1" and g: "intg_ok ig gs" and f: "frac_ok sc fs"
    and fits: "ROUND_UP ig + ROUND_UP sc \<le> 9" and pos: "0 < ig + sc"
  shows "bin2decimal (flip_first (stored_intg mk ig gs @ stored_frac mk sc fs) @ rest) (ig + sc) sc =
    Inr (if bin_digits ig gs = 0 \<and> sc = 0 then decimal_make_zero
         else \<lparr> intg = bin_digits ig gs, frac = sc, sign = (mk \<noteq> 0),
                buf = dropWhile (\<lambda>x. x = 0) gs @ fs \<rparr>, E_DEC_OK)"
proof -
  define S where "S = stored_intg mk ig gs @ stored_frac mk sc fs"
  have ig: "0 \<le> ig" and sc: "0 \<le> sc" using g f by (simp_all add: intg_ok_def frac_ok_def)
  have "0 \<le> groups9 ig" "0 \<le> groups9 sc" using ig sc by (simp_all add: groups9_odd9)
  then have mx: "max (groups9 ig) 0 = groups9 ig" "max (groups9 sc) 0 = groups9 sc" by auto
  obtain i x s where h: "S = dec_block mk i x @ s" "0 < i" "0 \<le> x" "x < 2 ^ (8 * i - 1)"
    using stored_head [OF g f pos] unfolding S_def by blast
  have bm: "bin_mask (flip_first S @ rest) = mk" unfolding h(1) by (rule bin_mask_block [OF mk h(2-)])
  have "S \<noteq> []" using h(1,2) by (metis append_is_Nil_conv length_dec_block list.size(3) not_less_zero)
  note sz = stored_size [OF g f, of mk]
  have bs: "decimal_bin_size (ig + sc) sc = Inr (int (length S))"
    by (simp add: decimal_bin_size_def sz S_def)
  note cp = copy_flip_first [OF \<open>S \<noteq> []\<close>, of rest]
  have db: "dig2bytes (odd9 ig) = Inr (int (dig_bytes (odd9 ig)))"
    using dig2bytes_ok odd9_range [OF ig] by simp
  have li: "int (dig_bytes (odd9 ig)) + 4 * groups9 ig = int (length (stored_intg mk ig gs))"
    using sz(1) db by (simp add: dec_bytes_def)
  have ri: "try_then (read_first S 0 (odd9 ig) mk ([], groups9 ig * 9 + odd9 ig))
      (\<lambda>st. read_intg (nat (groups9 ig)) S (int (dig_bytes (odd9 ig))) mk st)
    = Inr (Some (dropWhile (\<lambda>x. x = 0) gs, bin_digits ig gs))"
    unfolding S_def by (rule read_intg_part [OF mk g])
  have rf: "try_then (read_frac (nat (groups9 sc)) S (int (length (stored_intg mk ig gs))) mk b)
      (\<lambda>b. read_last S (int (length (stored_intg mk ig gs)) + 4 * groups9 sc) (odd9 sc) mk b)
    = Inr (Some (b @ fs))" for b
    using read_frac_part [OF mk f, of "stored_intg mk ig gs" "[]" b] by (simp add: S_def)
  have e: "groups9 sc * 9 + odd9 sc = sc" by (simp add: odd9_def)
  have "try_then (read_first S 0 (odd9 ig) mk ([], groups9 ig * 9 + odd9 ig)) (\<lambda>st.
      try_then (read_intg (nat (groups9 ig)) S (int (dig_bytes (odd9 ig))) mk st) (\<lambda>(b, n).
      try_then (read_frac (nat (groups9 sc)) S (int (length (stored_intg mk ig gs))) mk b) (\<lambda>b.
      try_then (read_last S (int (length (stored_intg mk ig gs)) + 4 * groups9 sc) (odd9 sc) mk b)
        (\<lambda>b. Inr (Some (b, n))))))
    = try_then (try_then (read_first S 0 (odd9 ig) mk ([], groups9 ig * 9 + odd9 ig))
        (\<lambda>st. read_intg (nat (groups9 ig)) S (int (dig_bytes (odd9 ig))) mk st))
        (\<lambda>(b, n). try_then (try_then (read_frac (nat (groups9 sc)) S (int (length (stored_intg mk ig gs))) mk b)
          (\<lambda>b. read_last S (int (length (stored_intg mk ig gs)) + 4 * groups9 sc) (odd9 sc) mk b))
          (\<lambda>b. Inr (Some (b, n))))"
    by (simp add: try_then_assoc)
  also have "\<dots> = Inr (Some (dropWhile (\<lambda>x. x = 0) gs @ fs, bin_digits ig gs))"
    by (simp add: ri rf)
  finally show ?thesis
    unfolding S_def [symmetric] bin2decimal_def bs bm
    by (simp add: cp fix_intg_frac_ok [OF ig sc fits] db mx li e Let_def)
qed

section \<open>Storing and reading back\<close>

text \<open>A number is made longer by repeating its sign.\<close>

lemma dec_block_extend:
  assumes mk: "mk = 0 \<or> mk = -1" and x: "0 \<le> x" "x < 256 ^ i"
  shows "replicate k (byte_of mk) @ dec_block mk i x = dec_block mk (k + i) x"
proof (induction k)
  case (Suc k)
  have "(256::int) ^ i \<le> 256 ^ (k + i)" by (rule power_increasing) auto
  then have "x < 256 ^ (k + i)" using x by linarith
  then have "(x XOR mk) div 256 ^ (k + i) = mk"
    using mk x(1) neg_div [of "256 ^ (k + i)" x] by (auto simp: xor_mask)
  then show ?case using Suc by (simp add: dec_block_def mi_store_head del: mi_store.simps)
qed simp

lemma dec_block_Nil_iff [simp]: "dec_block mk i x = [] \<longleftrightarrow> i = 0"
  by (metis length_0_conv length_dec_block)

lemma dec_block_zero:
  assumes "mk = 0 \<or> mk = -1"
  shows "dec_block mk i 0 = replicate i (byte_of mk)"
  using dec_block_extend [OF assms, of 0 0 i] by (simp add: dec_block_def)

lemma dec1_at_length: "dec1_at (p @ x # s) (int (length p)) = Inr x"
  by (simp add: dec1_at_def nth_append)

lemma store_groups_ok:
  "store_groups (p @ gs @ s) (int (length p)) (length gs) mk = Inr (concat (map (dec_block mk 4) gs))"
proof (induction gs arbitrary: p)
  case (Cons x gs)
  have "dec1_at (p @ x # gs @ s) (int (length p)) = Inr x" by (rule dec1_at_length)
  moreover have "store_groups (p @ x # gs @ s) (int (length p) + 1) (length gs) mk
      = Inr (concat (map (dec_block mk 4) gs))"
    using Cons.IH [of "p @ [x]"] by (simp add: add.commute)
  ultimately show ?case by (simp add: dec_block_def [of mk 4 x])
qed simp

lemma significant_ok:
  assumes "significant b n" "\<forall>x \<in> set b. group_ok x" "0 \<le> n"
  shows "intg_ok n b"
proof (cases "b = []")
  case True
  then show ?thesis using assms by (simp add: significant_def intg_ok_def ROUND_UP_def groups9_odd9)
next
  case False
  then obtain m where m: "m < 9" "n = 9 * (int (length b) - 1) + int m + 1" "hd b < 10 ^ Suc m"
    using assms(1) by (auto simp: significant_def)
  have n: "n = (int m + 1) + 9 * (int (length b) - 1)" using m(2) by simp
  have "odd9 n = n mod 9" by (rule groups9_odd9(2) [OF assms(3)])
  also have "\<dots> = (int m + 1) mod 9" unfolding n by (rule mod_mult_self2)
  finally have "odd9 n = (if m < 8 then int m + 1 else 0)" using m(1) by (cases "m = 8") auto
  then have "0 < odd9 n \<Longrightarrow> hd b < 10 ^ nat (odd9 n)" using m by (cases "m < 8") (auto simp: nat_add_distrib)
  then show ?thesis using significant_digits(1) [OF assms(1) False assms(2)] assms by (simp add: intg_ok_def)
qed

text \<open>The groups of a number with more digits: zeroes in front.\<close>

definition padded :: "int \<Rightarrow> int list \<Rightarrow> int list" where
  "padded ig b = replicate (nat (ROUND_UP ig) - length b) 0 @ b"

lemma ROUND_UP_mono: "0 \<le> n \<Longrightarrow> n \<le> m \<Longrightarrow> ROUND_UP n \<le> ROUND_UP m"
  unfolding ROUND_UP_div by (auto intro: zdiv_mono1)

lemma padded_ok:
  assumes b: "intg_ok n b" and n: "n \<le> ig"
  shows "intg_ok ig (padded ig b)"
proof -
  have n0: "0 \<le> n" using b by (simp add: intg_ok_def)
  have l: "int (length b) = ROUND_UP n" and le: "ROUND_UP n \<le> ROUND_UP ig"
    using b ROUND_UP_mono [OF n0 n] by (simp_all add: intg_ok_def)
  have "hd (padded ig b) < 10 ^ nat (odd9 ig)" if o: "0 < odd9 ig"
  proof (cases "length b < nat (ROUND_UP ig)")
    case True
    then show ?thesis by (simp add: padded_def)
  next
    case False
    then have e: "ROUND_UP n = ROUND_UP ig" "padded ig b = b" using l le by (auto simp: padded_def)
    have r: "odd9 n = n - groups9 n * 9" "odd9 ig = ig - groups9 ig * 9" by (simp_all add: odd9_def)
    have g: "groups9 ig = groups9 n" "0 < odd9 n" "odd9 n \<le> odd9 ig"
      using e(1) o n r ROUND_UP_groups9 [OF n0] ROUND_UP_groups9 [of ig] odd9_range [of n] odd9_range [of ig] n0
      by (auto split: if_splits)
    have "hd b < 10 ^ nat (odd9 n)" using b g(2) by (simp add: intg_ok_def)
    also have "(10::int) ^ nat (odd9 n) \<le> 10 ^ nat (odd9 ig)" using g(3) by (intro power_increasing) auto
    finally show ?thesis using e by simp
  qed
  moreover have "int (length (padded ig b)) = ROUND_UP ig" using l le by (simp add: padded_def)
  moreover have "\<forall>x \<in> set (padded ig b). group_ok x"
    using b by (auto simp: padded_def intg_ok_def group_ok_def)
  ultimately show ?thesis using n0 n by (simp add: intg_ok_def)
qed

lemma stored_padded:
  assumes mk: "mk = 0 \<or> mk = -1" and b: "intg_ok n b" and n: "n \<le> ig"
  shows "replicate (length (stored_intg mk ig (padded ig b)) - length (stored_intg mk n b)) (byte_of mk)
      @ stored_intg mk n b = stored_intg mk ig (padded ig b)"
proof -
  have n0: "0 \<le> n" and ig0: "0 \<le> ig" and l: "int (length b) = ROUND_UP n"
    using b n by (simp_all add: intg_ok_def)
  have le: "ROUND_UP n \<le> ROUND_UP ig" by (rule ROUND_UP_mono [OF n0 n])
  note ru = ROUND_UP_groups9 [OF n0] ROUND_UP_groups9 [OF ig0]
  note od = odd9_range [OF n0] odd9_range [OF ig0]
  have gn: "0 \<le> groups9 n" using n0 by (simp add: groups9_odd9)
  have full: "\<exists>k. concat (map (dec_block mk 4) b) = replicate k (byte_of mk) @ stored_intg mk n b"
  proof (cases "odd9 n = 0")
    case True
    then show ?thesis by (intro exI [of _ 0]) (simp add: stored_intg_def)
  next
    case False
    then obtain x xs where bx: "b = x # xs" using l ru(1) od gn by (cases b) auto
    define i where "i = dig_bytes (odd9 n)"
    have r: "0 < odd9 n" "odd9 n \<le> 9" using False od by auto
    have "x < 10 ^ nat (odd9 n)" "0 \<le> x" using b bx r by (auto simp: intg_ok_def group_ok_def)
    moreover have "(2::int) ^ (8 * i - 1) \<le> 2 ^ (8 * i)" by (rule power_increasing) auto
    ultimately have x: "0 \<le> x" "x < 256 ^ i" using dig_bytes_fits [OF r] by (auto simp: i_def power_mult)
    have "dec_block mk 4 x = replicate (4 - i) (byte_of mk) @ dec_block mk i x"
      using dec_block_extend [OF mk x, of "4 - i"] dig_bytes_pos [OF r] by (simp add: i_def)
    then show ?thesis using False by (intro exI [of _ "4 - i"]) (simp add: stored_intg_def bx i_def)
  qed
  have "\<exists>k. stored_intg mk ig (padded ig b) = replicate k (byte_of mk) @ stored_intg mk n b"
  proof (cases "length b < nat (ROUND_UP ig)")
    case True
    then obtain z where z: "nat (ROUND_UP ig) - length b = Suc z" by (metis Suc_diff_Suc)
    define i where "i = (if odd9 ig = 0 then 4 else dig_bytes (odd9 ig))"
    have zs: "concat (replicate m (replicate 4 c)) = replicate (4 * m) c" for m and c :: char
      by (induction m) (simp_all add: replicate_add [symmetric])
    have "stored_intg mk ig (padded ig b) = replicate (i + 4 * z) (byte_of mk) @ concat (map (dec_block mk 4) b)"
      using dec_block_zero [OF mk] by (simp add: padded_def z stored_intg_def i_def zs replicate_add)
    then show ?thesis using full by (metis append_assoc replicate_add)
  next
    case False
    then have e: "ROUND_UP n = ROUND_UP ig" "padded ig b = b" using l le by (auto simp: padded_def)
    show ?thesis
    proof (cases "odd9 ig = 0")
      case True
      then show ?thesis using full e by (simp add: stored_intg_def)
    next
      case False
      have r: "odd9 n = n - groups9 n * 9" "odd9 ig = ig - groups9 ig * 9" by (simp_all add: odd9_def)
      have g: "0 < odd9 n" "odd9 n \<le> odd9 ig" using e(1) False r ru od n by (auto split: if_splits)
      then obtain x xs where bx: "b = x # xs" using l ru(1) gn by (cases b) auto
      define i where "i = dig_bytes (odd9 n)"
      define j where "j = dig_bytes (odd9 ig)"
      have r9: "odd9 n \<le> 9" using od by auto
      have "x < 10 ^ nat (odd9 n)" "0 \<le> x" using b bx g by (auto simp: intg_ok_def group_ok_def)
      moreover have "(2::int) ^ (8 * i - 1) \<le> 2 ^ (8 * i)" by (rule power_increasing) auto
      ultimately have x: "0 \<le> x" "x < 256 ^ i" using dig_bytes_fits [OF g(1) r9] by (auto simp: i_def power_mult)
      have "i \<le> j" unfolding i_def j_def using g od by (intro dig_bytes_mono) auto
      then have "dec_block mk j x = replicate (j - i) (byte_of mk) @ dec_block mk i x"
        using dec_block_extend [OF mk x, of "j - i"] by simp
      then show ?thesis using False g e by (intro exI [of _ "j - i"]) (simp add: stored_intg_def bx i_def j_def)
    qed
  qed
  then obtain k where k: "stored_intg mk ig (padded ig b) = replicate k (byte_of mk) @ stored_intg mk n b" ..
  then show ?thesis by simp
qed

lemma widen_frac_id [simp]: "widen_frac k f f i = f"
  by (cases k) simp_all

lemma store_intg_frac:
  assumes b: "intg_ok n b" and f: "frac_ok sc fs"
  obtains s1 s2 s3 where
    "store_first (b @ fs) 0 (odd9 n) mk = Inr s1"
    "store_groups (b @ fs) (if odd9 n \<noteq> 0 then 1 else 0) (nat (groups9 n + groups9 sc)) mk = Inr s2"
    "store_last (b @ fs) ((if odd9 n \<noteq> 0 then 1 else 0) + max 0 (groups9 n + groups9 sc)) (odd9 sc) (odd9 sc) mk
      = Inr s3"
    "s1 @ s2 @ s3 = stored_intg mk n b @ stored_frac mk sc fs"
proof -
  have n0: "0 \<le> n" and sc0: "0 \<le> sc" and l: "int (length b) = ROUND_UP n" "int (length fs) = ROUND_UP sc"
    using b f by (simp_all add: intg_ok_def frac_ok_def)
  note ru = ROUND_UP_groups9 [OF n0] ROUND_UP_groups9 [OF sc0]
  note od = odd9_range [OF n0] odd9_range [OF sc0]
  have gn: "0 \<le> groups9 n" "0 \<le> groups9 sc" using n0 sc0 by (simp_all add: groups9_odd9)
  define p where "p = (if odd9 n = 0 then [] else [hd b])"
  define g where "g = (if odd9 n = 0 then b else tl b)"
  define h where "h = (if odd9 sc = 0 then fs else butlast fs)"
  define q where "q = (if odd9 sc = 0 then [] else [last fs])"
  have b: "b = p @ g" using l(1) ru(1) od gn by (cases b) (auto simp: p_def g_def split: if_splits)
  have fs: "fs = h @ q" using l(2) ru(2) od gn by (cases fs rule: rev_cases) (auto simp: h_def q_def split: if_splits)
  have lp: "int (length p) = (if odd9 n \<noteq> 0 then 1 else 0)" by (simp add: p_def)
  have lq: "int (length q) = (if odd9 sc \<noteq> 0 then 1 else 0)" by (simp add: q_def)
  have "int (length b) = int (length p) + int (length g)" by (subst b) simp
  moreover have "int (length fs) = int (length h) + int (length q)" by (subst fs) simp
  ultimately have lg: "int (length g) = groups9 n" "int (length h) = groups9 sc"
    using l ru od lp lq by (auto split: if_splits)
  have c: "nat (groups9 n + groups9 sc) = length (g @ h)" using lg gn by (simp add: nat_add_distrib flip: lg)
  have s2: "store_groups (b @ fs) (if odd9 n \<noteq> 0 then 1 else 0) (nat (groups9 n + groups9 sc)) mk
      = Inr (concat (map (dec_block mk 4) (g @ h)))"
    using store_groups_ok [of p "g @ h" q mk] unfolding c lp [symmetric] by (simp add: b fs)
  have s1: "store_first (b @ fs) 0 (odd9 n) mk
      = Inr (if odd9 n = 0 then [] else dec_block mk (dig_bytes (odd9 n)) (hd b))"
  proof (cases "odd9 n = 0")
    case True
    then show ?thesis by (simp add: store_first_def)
  next
    case False
    then have bx: "b = hd b # g" by (subst b) (simp add: p_def)
    have "0 \<le> hd b" "hd b < 10 ^ nat (odd9 n)"
      using assms(1) False od bx by (auto simp: intg_ok_def group_ok_def) (metis list.set_intros(1))+
    then have "hd b smod 10 ^ nat (odd9 n) = hd b" by (simp add: smod_nonneg)
    moreover have "dec1_at (b @ fs) 0 = Inr (hd b)" by (subst bx) (simp add: dec1_at_def)
    ultimately show ?thesis using False dig2bytes_ok [of "odd9 n"] od by (simp add: store_first_def dec_block_def)
  qed
  have s3: "store_last (b @ fs) ((if odd9 n \<noteq> 0 then 1 else 0) + max 0 (groups9 n + groups9 sc)) (odd9 sc) (odd9 sc) mk
      = Inr (if odd9 sc = 0 then [] else dec_block mk (dig_bytes (odd9 sc)) (last fs div 10 ^ nat (9 - odd9 sc)))"
  proof (cases "odd9 sc = 0")
    case True
    then show ?thesis by (simp add: store_last_def)
  next
    case False
    then have fx: "fs = h @ [last fs]" by (subst fs) (simp add: q_def)
    have "0 \<le> last fs" using f fx by (simp add: frac_ok_def group_ok_def) (metis last_in_set append_is_Nil_conv list.distinct(1))
    then have "last fs sdiv 10 ^ nat (9 - odd9 sc) = last fs div 10 ^ nat (9 - odd9 sc)" by (simp add: sdiv_nonneg)
    moreover have "dec1_at (b @ fs) ((if odd9 n \<noteq> 0 then 1 else 0) + max 0 (groups9 n + groups9 sc)) = Inr (last fs)"
    proof -
      have "(if odd9 n \<noteq> 0 then 1 else 0) + max 0 (groups9 n + groups9 sc) = int (length (p @ g @ h))"
        unfolding lp [symmetric] lg [symmetric] by simp
      moreover have "b @ fs = (p @ g @ h) @ [last fs]" using b fx by (metis append_assoc)
      ultimately show ?thesis by (simp only: dec1_at_length)
    qed
    ultimately show ?thesis using False dig2bytes_ok [of "odd9 sc"] od by (simp add: store_last_def dec_block_def)
  qed
  show thesis
    by (rule that [OF s1 s2 s3]) (simp add: stored_intg_def stored_frac_def g_def h_def)
qed

text \<open>What a decimal is worth in the log: its sign, its digits before the point without leading
  zeroes, and its fraction.\<close>

definition log_decimal :: "decimal_t \<Rightarrow> bool" where
  "log_decimal d \<longleftrightarrow> decimal_ok d \<and> (sign d \<longrightarrow> frac d \<noteq> 0 \<or> groups_value (intg_groups d) \<noteq> 0)"

definition mask_of :: "decimal_t \<Rightarrow> int" where
  "mask_of d = (if sign d then -1 else 0)"

definition stored_form :: "decimal_t \<Rightarrow> int \<Rightarrow> string" where
  "stored_form d ig =
     stored_intg (mask_of d) ig (padded ig (dropWhile (\<lambda>x. x = 0) (intg_groups d))) @
     stored_frac (mask_of d) (frac d) (frac_groups d)"

lemma decimal2bin_ok:
  assumes d: "log_decimal d" and ig: "intg d \<le> ig"
  shows "decimal2bin d (ig + frac d) (frac d) = Inr (flip_first (stored_form d ig), E_DEC_OK)"
proof -
  have ok: "decimal_ok d" using d by (simp add: log_decimal_def)
  define mk where "mk = mask_of d"
  define sc where "sc = frac d"
  define fs where "fs = frac_groups d"
  have mk: "mk = 0 \<or> mk = -1" by (simp add: mk_def mask_of_def)
  obtain b n where r: "remove_leading_zeroes d = Inr (b @ fs, n)"
    "b = dropWhile (\<lambda>x. x = 0) (intg_groups d)" "significant b n" "0 \<le> n" "n \<le> intg d"
    unfolding fs_def by (rule remove_leading_zeroes_ok [OF ok])
  have bg: "\<forall>x \<in> set b. group_ok x"
    using ok set_dropWhileD unfolding r(2) decimal_ok_def intg_ok_def by fast
  have b: "intg_ok n b" by (rule significant_ok [OF r(3) bg r(4)])
  have f: "frac_ok sc fs" using ok by (simp add: sc_def fs_def decimal_ok_def)
  have n: "n \<le> ig" using r(5) ig by simp
  have g: "intg_ok ig (padded ig b)" by (rule padded_ok [OF b n])
  define P where "P = stored_intg mk ig (padded ig b)"
  define F where "F = stored_frac mk sc fs"
  have sz: "dec_bytes ig = Inr (int (length P))" "dec_bytes sc = Inr (int (length F))"
    "dec_bytes n = Inr (int (length (stored_intg mk n b)))"
    using stored_size [OF g f] stored_size [OF b f] by (simp_all add: P_def F_def)
  have pad: "replicate (length P - length (stored_intg mk n b)) (byte_of mk) @ stored_intg mk n b = P"
    unfolding P_def by (rule stored_padded [OF mk b n])
  have mn: "length (stored_intg mk n b) \<le> length P" by (metis pad length_append le_add2)
  have sf: "stored_form d ig = P @ F" by (simp add: stored_form_def P_def F_def mk_def sc_def fs_def r(2))
  have bf: "bin_frac sc sc (int (length F)) (int (length F)) = ((groups9 sc, odd9 sc, 0), None)"
    by (simp add: bin_frac_def Let_def)
  obtain s1 s2 s3 where s:
    "store_first (b @ fs) 0 (odd9 n) mk = Inr s1"
    "store_groups (b @ fs) (if odd9 n \<noteq> 0 then 1 else 0) (nat (groups9 n + groups9 sc)) mk = Inr s2"
    "store_last (b @ fs) ((if odd9 n \<noteq> 0 then 1 else 0) + max 0 (groups9 n + groups9 sc)) (odd9 sc) (odd9 sc) mk
      = Inr s3"
    "s1 @ s2 @ s3 = stored_intg mk n b @ F"
    unfolding F_def by (rule store_intg_frac [OF b f])
  show ?thesis
  proof (cases "n + int (length F) = 0")
    case True
    then have n0: "n = 0" and F: "length F = 0" using r(4) by linarith+
    then have be: "b = []" using significant_digits(2) [OF r(3) _ bg] by auto
    have sc0: "sc = 0"
    proof (rule ccontr)
      assume "sc \<noteq> 0"
      then have "0 < sc" using f by (simp add: frac_ok_def)
      then have "fs \<noteq> []" using f by (auto simp: frac_ok_def ROUND_UP_div)
      then show False using F f odd9_range [of sc] dig_bytes_pos [of "odd9 sc"]
        by (cases fs) (auto simp: F_def stored_frac_def frac_ok_def split: if_splits)
    qed
    have "groups_value (intg_groups d) = groups_value b" by (simp add: r(2) groups_value_dropWhile)
    then have mk0: "mk = 0" using d sc0 be by (auto simp: log_decimal_def mk_def mask_of_def sc_def)
    have e: "stored_intg k 0 [] = []" for k by (simp add: stored_intg_def groups9_odd9)
    have "P = replicate (length P) (byte_of 0)" using pad unfolding n0 be e mk0 by simp
    then show ?thesis
      using sz(1) F r(1) n0 sc0 sz(2)
      by (simp add: decimal2bin_def sf sc_def [symmetric] bin_intg_def bin_frac_def Let_def dec_bytes_def
          groups9_odd9 dig2bytes_def store_first_def store_last_def)
  next
    case False
    have bi: "bin_intg ig n (int (length P)) mk = Inr (groups9 n, odd9 n, 0,
        replicate (length P - length (stored_intg mk n b)) (byte_of mk), E_DEC_OK)"
      using n mn by (simp add: bin_intg_def Let_def sz(3) nat_diff_distrib)
    have z: "(n + int (length F) = 0) = False" using False by simp
    have mkd: "(if sign d then -1 else 0) = mk" by (simp add: mk_def mask_of_def)
    have eq: "replicate (length P - length (stored_intg mk n b)) (byte_of mk) @ stored_intg mk n b @ F = P @ F"
      using pad by (metis append_assoc)
    show ?thesis
      unfolding decimal2bin_def sf sc_def [symmetric] add_diff_cancel_right' sz(1,2) r(1) and_then_Inr
        prod.case Let_def z if_False mkd bi bf add_0 s(1-3)
      by (simp add: s) (simp only: eq)
  qed
qed

text \<open>What is read back has the sign, the digits before the point and the fraction of the
  decimal that was stored, so it has its text.\<close>

lemma intg_groups_append: "intg_ok n b \<Longrightarrow> take (nat (ROUND_UP n)) (b @ fs) = b \<and> drop (nat (ROUND_UP n)) (b @ fs) = fs"
  by (auto simp: intg_ok_def)

lemma bin_digits_ok:
  assumes g: "intg_ok ig gs"
  shows "intg_ok (bin_digits ig gs) (dropWhile (\<lambda>x. x = 0) gs)" "bin_digits ig gs \<le> ig"
proof -
  define b where "b = dropWhile (\<lambda>x. x = 0) gs"
  have l: "length b \<le> length gs" unfolding b_def by (rule length_dropWhile_le)
  have bg: "\<forall>x \<in> set b. group_ok x" using g set_dropWhileD unfolding b_def intg_ok_def by fast
  have ig: "0 \<le> ig" using g by (simp add: intg_ok_def)
  have ru: "ROUND_UP (9 * int k) = int k" for k
    by (simp add: ROUND_UP_div)
  have "intg_ok (bin_digits ig gs) b \<and> bin_digits ig gs \<le> ig"
  proof (cases "b = gs")
    case True
    then show ?thesis using g by (simp add: bin_digits_def b_def [symmetric] Let_def)
  next
    case False
    have "length b < length gs" using False l suffix_dropWhile [of "\<lambda>x. x = 0" gs]
      by (metis b_def le_neq_implies_less suffix_order.antisym_conv suffix_length_le dropWhile_eq_self_iff length_0_conv takeWhile_dropWhile_id append_self_conv2 length_append add_cancel_left_left)
    moreover have "int (length gs) = ROUND_UP ig" using g by (simp add: intg_ok_def)
    ultimately have "9 * int (length b) \<le> ig" using ROUND_UP_groups9 [OF ig] odd9_range [OF ig]
      by (auto simp: odd9_def split: if_splits)
    moreover have "odd9 (9 * int (length b)) = 0" by (simp add: groups9_odd9)
    ultimately show ?thesis using False bg
      by (simp add: bin_digits_def b_def [symmetric] Let_def intg_ok_def ru)
  qed
  then show "intg_ok (bin_digits ig gs) (dropWhile (\<lambda>x. x = 0) gs)" "bin_digits ig gs \<le> ig"
    by (simp_all add: b_def)
qed

lemma stored_form_read_back:
  assumes d: "log_decimal d" and ig: "intg d \<le> ig" and pos: "0 < ig + frac d"
    and fits: "ROUND_UP ig + ROUND_UP (frac d) \<le> 9"
  obtains e where "bin2decimal (flip_first (stored_form d ig) @ rest) (ig + frac d) (frac d) = Inr (e, E_DEC_OK)"
    "decimal_ok e" "decimal_text e = decimal_text d" "intg e + frac e \<le> max 1 (ig + frac d)"
proof -
  have ok: "decimal_ok d" using d by (simp add: log_decimal_def)
  define b0 where "b0 = dropWhile (\<lambda>x. x = 0) (intg_groups d)"
  define gs where "gs = padded ig b0"
  obtain n where r: "significant b0 n" "0 \<le> n" "n \<le> intg d"
    using remove_leading_zeroes_ok [OF ok] b0_def by metis
  have "\<forall>x \<in> set b0. group_ok x"
    using ok set_dropWhileD unfolding b0_def decimal_ok_def intg_ok_def by fast
  then have b0: "intg_ok n b0" by (rule significant_ok [OF r(1) _ r(2)])
  then have g: "intg_ok ig gs" unfolding gs_def using r(3) ig by (intro padded_ok [OF b0]) auto
  have f: "frac_ok (frac d) (frac_groups d)" using ok by (simp add: decimal_ok_def)
  have v: "groups_value gs = groups_value (intg_groups d)"
    by (simp add: gs_def padded_def b0_def groups_value_dropWhile)
  define b where "b = dropWhile (\<lambda>x. x = 0) gs"
  define m where "m = bin_digits ig gs"
  have vb: "groups_value b = groups_value (intg_groups d)" using v by (simp add: b_def groups_value_dropWhile)
  have m: "intg_ok m b" "m \<le> ig" using bin_digits_ok [OF g] by (simp_all add: m_def b_def)
  have mk: "mask_of d = 0 \<or> mask_of d = -1" by (simp add: mask_of_def)
  have sg: "(mask_of d \<noteq> 0) = sign d" by (simp add: mask_of_def)
  define e where "e = (if m = 0 \<and> frac d = 0 then decimal_make_zero
      else \<lparr> intg = m, frac = frac d, sign = sign d, buf = b @ frac_groups d \<rparr>)"
  have rd: "bin2decimal (flip_first (stored_form d ig) @ rest) (ig + frac d) (frac d) = Inr (e, E_DEC_OK)"
    using bin2decimal_stored [OF mk g f fits pos, of rest]
    by (simp add: stored_form_def b0_def [symmetric] gs_def [symmetric] m_def [symmetric] b_def [symmetric] sg e_def)
  show thesis
  proof (cases "m = 0 \<and> frac d = 0")
    case True
    then have "b = []" using m(1) by (simp add: intg_ok_def ROUND_UP_def)
    then have z: "groups_value (intg_groups d) = 0" using vb by simp
    then have "\<not> sign d" using d True by (simp add: log_decimal_def)
    then have "decimal_text d = ''0''" using z True by (simp add: decimal_text_def show_dec.simps digit_char_0)
    moreover have "decimal_text decimal_make_zero = ''0''" "decimal_ok decimal_make_zero"
      by (simp_all add: decimal_text_def decimal_make_zero_def intg_groups_def frac_groups_def ROUND_UP_def
          groups_value_def show_dec.simps digit_char_0 decimal_ok_def intg_ok_def frac_ok_def group_ok_def groups9_odd9)
    ultimately show ?thesis using rd True by (intro that [OF rd]) (simp_all add: e_def decimal_make_zero_def)
  next
    case False
    note ta = intg_groups_append [OF m(1), of "frac_groups d"]
    show ?thesis
    proof (rule that [OF rd])
      show "decimal_ok e" using False m f ta
        by (auto simp: e_def decimal_ok_def intg_groups_def [of "\<lparr>intg = _, frac = _, sign = _, buf = _\<rparr>"]
            frac_groups_def [of "\<lparr>intg = _, frac = _, sign = _, buf = _\<rparr>"])
      show "decimal_text e = decimal_text d" using False ta vb
        by (simp add: e_def decimal_text_def intg_groups_def [of "\<lparr>intg = _, frac = _, sign = _, buf = _\<rparr>"]
            frac_groups_def [of "\<lparr>intg = _, frac = _, sign = _, buf = _\<rparr>"])
      show "intg e + frac e \<le> max 1 (ig + frac d)" using False m(2) by (auto simp: e_def)
    qed
  qed
qed

section \<open>Any bytes\<close>

text \<open>Whatever the bytes hold, what is read consists of groups of nine digits, as many as its
  digits need, and is printed.\<close>

definition weak_ok :: "decimal_t \<Rightarrow> bool" where
  "weak_ok d \<longleftrightarrow> 0 \<le> intg d \<and> 0 \<le> frac d \<and> (\<forall>x \<in> set (buf d). group_ok x) \<and>
     int (length (buf d)) = ROUND_UP (intg d) + ROUND_UP (frac d)"

lemma read_dec1_total:
  "0 \<le> pos \<Longrightarrow> pos + n \<le> int (length d) \<Longrightarrow> \<exists>x. read_dec1 d pos n mk = Inr x"
  by (simp add: read_dec1_def)

lemma below_base: "\<not> DIG_MAX < x mod 2 ^ 32 \<Longrightarrow> - (2 ^ 31) \<le> x \<Longrightarrow> x < 2 ^ 31 \<Longrightarrow> group_ok x"
proof (cases "0 \<le> x")
  case True
  then show "\<not> DIG_MAX < x mod 2 ^ 32 \<Longrightarrow> x < 2 ^ 31 \<Longrightarrow> group_ok x" by (simp add: group_ok_def DIG_MAX_def)
next
  case False
  assume a: "\<not> DIG_MAX < x mod 2 ^ 32" "- (2 ^ 31) \<le> x"
  have "x mod 2 ^ 32 = (x + 2 ^ 32) mod 2 ^ 32" by simp
  also have "\<dots> = x + 2 ^ 32" using False a(2) by (intro mod_pos_pos_trivial) auto
  finally show "group_ok x" using a False by (simp add: DIG_MAX_def)
qed

lemma signed_of_range: "0 < w \<Longrightarrow> - (2 ^ (w - 1)) \<le> signed_of w i \<and> signed_of w i < 2 ^ (w - 1)"
proof -
  assume "0 < w"
  then have "(2::int) ^ w = 2 * 2 ^ (w - 1)" by (cases w) simp_all
  moreover have "0 \<le> (i + 2 ^ (w - 1)) mod 2 ^ w" "(i + 2 ^ (w - 1)) mod 2 ^ w < 2 ^ w" by simp_all
  ultimately show ?thesis unfolding signed_of_def by linarith
qed

lemma read_dec1_range:
  assumes r: "read_dec1 d pos n mk = Inr x" and mk: "mk = 0 \<or> mk = -1" and n: "0 < n" "n \<le> 4"
  shows "- (2 ^ 31) \<le> x" "x < 2 ^ 31"
proof -
  define v where "v = mi_skorr (nat n) (drop (nat pos) d)"
  have x: "x = v XOR mk" using r by (auto simp: read_dec1_def v_def split: if_splits)
  have "- (2 ^ (8 * nat n - 1)) \<le> v \<and> v < 2 ^ (8 * nat n - 1)"
    unfolding v_def mi_skorr_def using n by (intro signed_of_range) simp
  moreover have "(2::int) ^ (8 * nat n - 1) \<le> 2 ^ 31" using n by (intro power_increasing) auto
  ultimately show "- (2 ^ 31) \<le> x" "x < 2 ^ 31" using mk unfolding x by (auto simp: xor_mask)
qed

lemma read_intg_total:
  assumes "0 \<le> pos" "pos + 4 * int k \<le> int (length d)" "mk = 0 \<or> mk = -1"
    and "\<forall>x \<in> set b. group_ok x"
    and "n = 9 * int (length b) + 9 * int k \<or> b \<noteq> [] \<and> (\<exists>r. 0 < r \<and> r < 9 \<and> n = r + 9 * (int (length b) - 1) + 9 * int k)"
  shows "read_intg k d pos mk (b, n) = Inr None \<or>
    (\<exists>b' n'. read_intg k d pos mk (b, n) = Inr (Some (b', n')) \<and> (\<forall>x \<in> set b'. group_ok x) \<and>
       0 \<le> n' \<and> n' \<le> n \<and> ROUND_UP n' = int (length b'))"
  using assms
proof (induction k arbitrary: pos b n)
  case 0
  have "ROUND_UP n = int (length b)"
    using "0.prems"(5) ROUND_UP_groups [of _ "int (length b) - 1"] by (cases b) (auto simp: ROUND_UP_div)
  then show ?case using "0.prems" by (auto simp: Suc_le_eq)
next
  case (Suc k)
  obtain x where x: "read_dec1 d pos 4 mk = Inr x" using read_dec1_total [of pos 4 d mk] Suc.prems by auto
  have rg: "- (2 ^ 31) \<le> x" "x < 2 ^ 31" using read_dec1_range [OF x Suc.prems(3)] by auto
  show ?case
  proof (cases "DIG_MAX < x mod 2 ^ 32")
    case True
    then show ?thesis by (simp add: x)
  next
    case False
    then have ok: "group_ok x" using below_base rg by blast
    obtain b1 n1 where kp: "keep_intg x 9 (b, n) = (b1, n1)" by fastforce
    have k1: "n1 \<le> n" "\<forall>x \<in> set b1. group_ok x"
      "n1 = 9 * int (length b1) + 9 * int k \<or> b1 \<noteq> [] \<and> (\<exists>r. 0 < r \<and> r < 9 \<and> n1 = r + 9 * (int (length b1) - 1) + 9 * int k)"
      using kp ok Suc.prems(4,5) by (auto simp: keep_intg_def split: if_splits)
    have "read_intg k d (pos + 4) mk (b1, n1) = Inr None \<or>
      (\<exists>b' n'. read_intg k d (pos + 4) mk (b1, n1) = Inr (Some (b', n')) \<and> (\<forall>x \<in> set b'. group_ok x) \<and>
       0 \<le> n' \<and> n' \<le> n1 \<and> ROUND_UP n' = int (length b'))"
      using Suc.prems(1-3) k1(2,3) by (intro Suc.IH) auto
    then show ?thesis using False k1(1) by (auto simp: x kp)
  qed
qed

lemma read_frac_total:
  assumes "0 \<le> pos" "pos + 4 * int k \<le> int (length d)" "mk = 0 \<or> mk = -1" "\<forall>x \<in> set b. group_ok x"
  shows "read_frac k d pos mk b = Inr None \<or>
    (\<exists>b'. read_frac k d pos mk b = Inr (Some b') \<and> (\<forall>x \<in> set b'. group_ok x) \<and> length b' = length b + k)"
  using assms
proof (induction k arbitrary: pos b)
  case (Suc k)
  obtain x where x: "read_dec1 d pos 4 mk = Inr x" using read_dec1_total [of pos 4 d mk] Suc.prems by auto
  have rg: "- (2 ^ 31) \<le> x" "x < 2 ^ 31" using read_dec1_range [OF x Suc.prems(3)] by auto
  show ?case
  proof (cases "DIG_MAX < x mod 2 ^ 32")
    case True
    then show ?thesis by (simp add: x)
  next
    case False
    then have "\<forall>y \<in> set (b @ [x]). group_ok y" using below_base rg Suc.prems by auto
    then have "read_frac k d (pos + 4) mk (b @ [x]) = Inr None \<or>
      (\<exists>b'. read_frac k d (pos + 4) mk (b @ [x]) = Inr (Some b') \<and> (\<forall>x \<in> set b'. group_ok x) \<and>
        length b' = length (b @ [x]) + k)"
      using Suc.prems(1-3) by (intro Suc.IH) auto
    then show ?thesis using False by (auto simp: x)
  qed
qed simp

lemma read_first_total:
  assumes mk: "mk = 0 \<or> mk = -1" and ig: "0 \<le> ig"
    and len: "int (dig_bytes (odd9 ig)) \<le> int (length d)"
  shows "read_first d 0 (odd9 ig) mk ([], ig) = Inr None \<or>
    (\<exists>b n. read_first d 0 (odd9 ig) mk ([], ig) = Inr (Some (b, n)) \<and> (\<forall>x \<in> set b. group_ok x) \<and> n \<le> ig \<and>
       (n = 9 * int (length b) + 9 * int (nat (groups9 ig)) \<or> b \<noteq> [] \<and>
        (\<exists>r. 0 < r \<and> r < 9 \<and> n = r + 9 * (int (length b) - 1) + 9 * int (nat (groups9 ig)))))"
proof -
  have g: "int (nat (groups9 ig)) = groups9 ig" using ig by (simp add: groups9_odd9)
  have e: "ig = 9 * groups9 ig + odd9 ig" by (simp add: odd9_def)
  show ?thesis
  proof (cases "odd9 ig = 0")
    case True
    then show ?thesis using e g by (simp add: read_first_def)
  next
    case False
    then have r: "0 < odd9 ig" "odd9 ig \<le> 9" "odd9 ig < 9" using odd9_range [OF ig] by auto
    obtain x where x: "read_dec1 d 0 (int (dig_bytes (odd9 ig))) mk = Inr x"
      using read_dec1_total [of 0 "int (dig_bytes (odd9 ig))" d mk] len by auto
    have rg: "- (2 ^ 31) \<le> x" "x < 2 ^ 31" using read_dec1_range [OF x mk] dig_bytes_pos [OF r(1,2)] by auto
    have db: "dig2bytes (odd9 ig) = Inr (int (dig_bytes (odd9 ig)))" using r by (simp add: dig2bytes_ok)
    show ?thesis
    proof (cases "10 ^ nat (odd9 ig + 1) \<le> x mod 2 ^ 64")
      case True
      then show ?thesis using False by (simp add: read_first_def db x)
    next
      case le: False
      have p: "(10::int) ^ nat (odd9 ig + 1) \<le> 10 ^ 9" using r by (intro power_increasing) auto
      have "0 \<le> x"
      proof (rule ccontr)
        assume n: "\<not> 0 \<le> x"
        have "x mod 2 ^ 64 = (x + 2 ^ 64) mod 2 ^ 64" by simp
        also have "\<dots> = x + 2 ^ 64" using n rg by (intro mod_pos_pos_trivial) auto
        finally show False using le p rg by simp
      qed
      then have "group_ok x" using le p rg by (simp add: group_ok_def)
      then show ?thesis using False le e g r by (auto simp: read_first_def db x)
    qed
  qed
qed

lemma read_last_total:
  assumes mk: "mk = 0 \<or> mk = -1" and sc: "0 \<le> sc" and pos: "0 \<le> pos"
    and len: "pos + int (dig_bytes (odd9 sc)) \<le> int (length d)" and b: "\<forall>x \<in> set b. group_ok x"
  shows "read_last d pos (odd9 sc) mk b = Inr None \<or>
    (\<exists>b'. read_last d pos (odd9 sc) mk b = Inr (Some b') \<and> (\<forall>x \<in> set b'. group_ok x) \<and>
       length b' = length b + (if odd9 sc = 0 then 0 else 1))"
proof (cases "odd9 sc = 0")
  case True
  then show ?thesis using b by (simp add: read_last_def)
next
  case False
  then have r: "0 < odd9 sc" "odd9 sc \<le> 9" using odd9_range [OF sc] by auto
  obtain x where x: "read_dec1 d pos (int (dig_bytes (odd9 sc))) mk = Inr x"
    using read_dec1_total [OF pos len] by auto
  define y where "y = signed_of 32 (x * 10 ^ nat (9 - odd9 sc))"
  have "group_ok y" if "\<not> DIG_MAX < y mod 2 ^ 32"
    using below_base [OF that] signed_of_range [of 32 "x * 10 ^ nat (9 - odd9 sc)"] by (simp add: y_def)
  then show ?thesis using False b dig2bytes_ok [of "odd9 sc"] r
    by (auto simp: read_last_def x Let_def y_def [symmetric])
qed

lemma bin_mask_cases: "bin_mask s = 0 \<or> bin_mask s = -1"
  by (auto simp: bin_mask_def split: list.splits)

lemma weak_ok_zero: "weak_ok decimal_make_zero"
  by (simp add: weak_ok_def decimal_make_zero_def group_ok_def ROUND_UP_def)

lemma bin2decimal_total:
  assumes ig: "0 \<le> ig" and sc: "0 \<le> sc" and pos: "0 < ig + sc" and fits: "ROUND_UP ig + ROUND_UP sc \<le> 9"
    and size: "decimal_bin_size (ig + sc) sc = Inr z" and len: "z \<le> int (length from)"
  obtains d e where "bin2decimal from (ig + sc) sc = Inr (d, e)" "weak_ok d" "intg d + frac d \<le> max 1 (ig + sc)"
proof -
  define mk where "mk = bin_mask from"
  have mk: "mk = 0 \<or> mk = -1" unfolding mk_def by (rule bin_mask_cases)
  have g0: "0 \<le> groups9 ig" "0 \<le> groups9 sc" using ig sc by (simp_all add: groups9_odd9)
  have db: "dig2bytes (odd9 ig) = Inr (int (dig_bytes (odd9 ig)))" "dig2bytes (odd9 sc) = Inr (int (dig_bytes (odd9 sc)))"
    using odd9_range [OF ig] odd9_range [OF sc] by (simp_all add: dig2bytes_ok)
  have z: "z = groups9 ig * 4 + int (dig_bytes (odd9 ig)) + (groups9 sc * 4 + int (dig_bytes (odd9 sc)))"
    using size by (simp add: decimal_bin_size_def dec_bytes_def db)
  have zp: "0 < z"
  proof -
    have "odd9 ig > 0 \<or> groups9 ig > 0 \<or> odd9 sc > 0 \<or> groups9 sc > 0"
      using pos ig sc g0 odd9_range [OF ig] odd9_range [OF sc] by (auto simp: odd9_def)
    then show ?thesis using g0 dig_bytes_pos [of "odd9 ig"] dig_bytes_pos [of "odd9 sc"]
        odd9_range [OF ig] odd9_range [OF sc] by (auto simp: z)
  qed
  obtain d where cp: "copy_flipped from z = Inr d" and ld: "int (length d) = z"
  proof -
    have ne: "take (nat z) from \<noteq> []" using zp len by auto
    then obtain c cs where t: "take (nat z) from = c # cs" by (cases "take (nat z) from") auto
    then have "length (c # cs) = nat z" using len by (metis length_take min_absorb2 nat_le_iff)
    then show thesis using zp len t by (intro that [of "byte_of (ubyte c XOR 0x80) # cs"])
        (simp_all add: copy_flipped_def del: length_greater_0_conv)
  qed
  have e: "groups9 ig * 9 + odd9 ig = ig" "groups9 sc * 9 + odd9 sc = sc" by (simp_all add: odd9_def)
  have mx: "max (groups9 ig) 0 = groups9 ig" "max (groups9 sc) 0 = groups9 sc" using g0 by auto
  define p1 where "p1 = int (dig_bytes (odd9 ig))"
  define p2 where "p2 = p1 + 4 * groups9 ig"
  define p3 where "p3 = p2 + 4 * groups9 sc"
  define digits where "digits =
    try_then (read_first d 0 (odd9 ig) mk ([], ig)) (\<lambda>st.
    try_then (read_intg (nat (groups9 ig)) d p1 mk st) (\<lambda>(b, n).
    try_then (read_frac (nat (groups9 sc)) d p2 mk b) (\<lambda>b.
    try_then (read_last d p3 (odd9 sc) mk b) (\<lambda>b. Inr (Some (b, n))))))"
  have bd: "bin2decimal from (ig + sc) sc = and_then digits (\<lambda>r. case r of
       None \<Rightarrow> Inr (decimal_make_zero, E_DEC_BAD_NUM)
     | Some (b, n) \<Rightarrow> Inr (if n = 0 \<and> sc = 0 then decimal_make_zero
                else \<lparr> intg = n, frac = sc, sign = (mk \<noteq> 0), buf = b \<rparr>, E_DEC_OK))"
    unfolding bin2decimal_def size digits_def p3_def p2_def p1_def
    by (simp add: cp fix_intg_frac_ok [OF ig sc fits] db mx e(1) Let_def mk_def [symmetric])
      (unfold e, rule refl)
  have "digits = Inr None \<or> (\<exists>b n. digits = Inr (Some (b, n)) \<and> (\<forall>x \<in> set b. group_ok x) \<and>
      0 \<le> n \<and> n \<le> ig \<and> int (length b) = ROUND_UP n + ROUND_UP sc)"
  proof -
    have ps: "0 \<le> p1" "p1 + 4 * int (nat (groups9 ig)) = p2" "0 \<le> p2" "p2 + 4 * int (nat (groups9 sc)) = p3"
      "0 \<le> p3" "p3 + int (dig_bytes (odd9 sc)) = int (length d)" "p1 \<le> int (length d)"
      using g0 ld by (simp_all add: p1_def p2_def p3_def z)
    have le: "p2 \<le> int (length d)" "p3 \<le> int (length d)" using ps by linarith+
    have rsc: "int (nat (groups9 sc)) + (if odd9 sc = 0 then 0 else 1) = ROUND_UP sc"
      using ROUND_UP_groups9 [OF sc] g0 odd9_range [OF sc] by auto
    show ?thesis
    proof (cases "read_first d 0 (odd9 ig) mk ([], ig) = Inr None")
      case True
      then show ?thesis by (simp add: digits_def)
    next
      case False
      then obtain b n where f: "read_first d 0 (odd9 ig) mk ([], ig) = Inr (Some (b, n))"
        "\<forall>x \<in> set b. group_ok x" "n \<le> ig" and nb:
        "n = 9 * int (length b) + 9 * int (nat (groups9 ig)) \<or> b \<noteq> [] \<and>
          (\<exists>r. 0 < r \<and> r < 9 \<and> n = r + 9 * (int (length b) - 1) + 9 * int (nat (groups9 ig)))"
        using read_first_total [OF mk ig ps(7) [unfolded p1_def]] by blast
      have rt: "read_intg (nat (groups9 ig)) d p1 mk (b, n) = Inr None \<or>
        (\<exists>b' n'. read_intg (nat (groups9 ig)) d p1 mk (b, n) = Inr (Some (b', n')) \<and> (\<forall>x \<in> set b'. group_ok x) \<and>
          0 \<le> n' \<and> n' \<le> n \<and> ROUND_UP n' = int (length b'))"
        by (rule read_intg_total [OF ps(1) _ mk f(2) nb]) (use ps(2) le in simp)
      show ?thesis
      proof (cases "read_intg (nat (groups9 ig)) d p1 mk (b, n) = Inr None")
        case True
        then show ?thesis by (simp add: digits_def f)
      next
        case False
        then obtain b' n' where r: "read_intg (nat (groups9 ig)) d p1 mk (b, n) = Inr (Some (b', n'))"
          "\<forall>x \<in> set b'. group_ok x" "0 \<le> n'" "n' \<le> n" "ROUND_UP n' = int (length b')"
          using rt by blast
        have ft: "read_frac (nat (groups9 sc)) d p2 mk b' = Inr None \<or>
          (\<exists>b2. read_frac (nat (groups9 sc)) d p2 mk b' = Inr (Some b2) \<and> (\<forall>x \<in> set b2. group_ok x) \<and>
            length b2 = length b' + nat (groups9 sc))"
          by (rule read_frac_total [OF ps(3) _ mk r(2)]) (use ps(4) le in simp)
        show ?thesis
        proof (cases "read_frac (nat (groups9 sc)) d p2 mk b' = Inr None")
          case True
          then show ?thesis by (simp add: digits_def f r)
        next
          case False
          then obtain b2 where b2: "read_frac (nat (groups9 sc)) d p2 mk b' = Inr (Some b2)"
            "\<forall>x \<in> set b2. group_ok x" "length b2 = length b' + nat (groups9 sc)" using ft by blast
          have "read_last d p3 (odd9 sc) mk b2 = Inr None \<or>
            (\<exists>b3. read_last d p3 (odd9 sc) mk b2 = Inr (Some b3) \<and> (\<forall>x \<in> set b3. group_ok x) \<and>
              length b3 = length b2 + (if odd9 sc = 0 then 0 else 1))"
            by (rule read_last_total [OF mk sc ps(5) _ b2(2)]) (use ps(6) in simp)
          then show ?thesis using f r b2 rsc by (auto simp: digits_def split: if_splits)
        qed
      qed
    qed
  qed
  then show thesis
  proof (elim disjE exE conjE)
    assume "digits = Inr None"
    then show thesis using weak_ok_zero pos by (intro that [of decimal_make_zero]) (auto simp: bd decimal_make_zero_def)
  next
    fix b n
    assume "digits = Inr (Some (b, n))" "\<forall>x \<in> set b. group_ok x" "0 \<le> n" "n \<le> ig"
      "int (length b) = ROUND_UP n + ROUND_UP sc"
    then show thesis using weak_ok_zero sc
      by (intro that [of "if n = 0 \<and> sc = 0 then decimal_make_zero
            else \<lparr> intg = n, frac = sc, sign = (mk \<noteq> 0), buf = b \<rparr>"])
        (auto simp: bd weak_ok_def, auto simp: decimal_make_zero_def)
  qed
qed

lemma ROUND_UP_covers: "0 \<le> n \<Longrightarrow> n \<le> 9 * ROUND_UP n \<and> 9 * ROUND_UP n < n + 9"
  using odd9_range [of n] by (auto simp: ROUND_UP_groups9 odd9_def)

lemma decimal2string_weak:
  assumes d: "weak_ok d" and len: "intg d + frac d \<le> 79"
  obtains s where "decimal2string d (int DECIMAL_MAX_STR_LENGTH) = Inr (s, E_DEC_OK)"
    "int (length s) \<le> intg d + frac d + 3" "\<forall>c \<in> set s. time_char c"
proof -
  have i0: "0 \<le> intg d" and fr: "0 \<le> frac d" and gr: "\<forall>x \<in> set (buf d). group_ok x"
    and bl: "int (length (buf d)) = ROUND_UP (intg d) + ROUND_UP (frac d)" using d by (simp_all add: weak_ok_def)
  have li: "int (length (intg_groups d)) = ROUND_UP (intg d)" "int (length (frac_groups d)) = ROUND_UP (frac d)"
  proof -
    have "length (buf d) = nat (ROUND_UP (intg d)) + nat (ROUND_UP (frac d))"
      using bl ROUND_UP_nonneg [OF i0] ROUND_UP_nonneg [OF fr] by linarith
    then show "int (length (intg_groups d)) = ROUND_UP (intg d)" "int (length (frac_groups d)) = ROUND_UP (frac d)"
      using i0 fr by (simp_all add: intg_groups_def frac_groups_def)
  qed
  have gi: "\<forall>x \<in> set (intg_groups d). group_ok x" "\<forall>x \<in> set (frac_groups d). group_ok x"
    using gr unfolding intg_groups_def frac_groups_def by (blast dest: in_set_takeD in_set_dropD)+
  obtain b n where r: "remove_leading_zeroes d = Inr (b @ frac_groups d, n)"
    "b = dropWhile (\<lambda>x. x = 0) (intg_groups d)" "ROUND_UP n = int (length b)" "0 \<le> n" "n \<le> intg d"
    by (rule remove_leading_zeroes_weak [OF i0 li(1) gi(1)])
  have bg: "\<forall>x \<in> set b. group_ok x" using gi(1) set_dropWhileD unfolding r(2) by fast
  have fit: "fit_text l 82 i f = (i, f, E_DEC_OK)" if "l \<le> 82" for l i f
    using that by (simp add: fit_text_def)
  define fs where "fs = take (nat (frac d)) (concat (map (\<lambda>x. fmt_number x 9) (frac_groups d)))"
  define is' where "is' = fmt_number (groups_value b) (nat n)"
  have fd: "frac_digits (b @ frac_groups d) (int (length b)) (nat (frac d)) = Inr fs"
    unfolding fs_def by (rule frac_digits_ok [OF gi(2)]) (use ROUND_UP_covers [OF fr] li(2) in linarith)
  have id: "intg_digits (b @ frac_groups d) (int (length b)) (nat n) = Inr is'"
    unfolding is'_def by (rule intg_digits_ok [OF bg]) (use ROUND_UP_covers [OF r(4)] r(3,4) in linarith)+
  have fc: "\<forall>c \<in> set fs. is_digit c" "int (length fs) \<le> frac d"
    using fr by (auto simp: fs_def dest!: in_set_takeD fmt_number_digits)
  have ic: "\<forall>c \<in> set is'. is_digit c" "int (length is') = n"
    using r(4) fmt_number_digits by (auto simp: is'_def)
  have i: "intg_digits [0] 1 1 = Inr ''0''" by (simp add: intg_digits.simps dec1_at_def byte_of_48)
  define s where "s = (if sign d then ''-'' else []) @ (if n = 0 then ''0'' else is') @
      (if frac d \<noteq> 0 then CHR ''.'' # fs else [])"
  have "decimal2string d (int DECIMAL_MAX_STR_LENGTH) = Inr (s, E_DEC_OK)"
  proof (cases "n + frac d = 0")
    case True
    then have "n = 0" "frac d = 0" using r(4) fr by auto
    then show ?thesis using r(1) i
      by (simp add: decimal2string_def fit DECIMAL_MAX_STR_LENGTH_def ROUND_UP_def frac_digits.simps s_def)
  next
    case False
    then show ?thesis using r fd id len fr
      by (simp add: decimal2string_def fit DECIMAL_MAX_STR_LENGTH_def s_def)
  qed
  moreover have "int (length s) \<le> intg d + frac d + 3" using fc(2) ic(2) r(4,5) fr by (simp add: s_def)
  moreover have "\<forall>c \<in> set s. time_char c" using fc(1) ic(1) by (auto simp: s_def time_char_def)
  ultimately show thesis by (rule that)
qed

end
