(* ===== verification/Row_Values.thy ===== *)
theory Row_Values
  imports Decimal_Storage
begin

text \<open>
  Column values of row events: \<open>log_event_print_value\<close> of \<open>sql/log_event.cc\<close> with its helpers, and
  the table definition it works on (\<open>table_def\<close> of \<open>sql/rpl_utility.cc\<close>): how long a value is, and how
  it is printed. The value is the rest of the rows of the event from its first byte; reading behind
  the rows is \<open>Out_of_bounds ''m_rows_buf''\<close>. Writing to the cache of the print state never fails.

  Two texts are parameters (\<open>float_env\<close>): what \<open>sprintf\<close> makes of the four bytes of a \<open>float\<close> with
  \<open>%-20g\<close> and of the eight bytes of a \<open>double\<close> with \<open>%-.20g\<close>.
\<close>

section \<open>Column types\<close>

abbreviation (input) MYSQL_TYPE_DECIMAL :: nat where "MYSQL_TYPE_DECIMAL \<equiv> 0"
abbreviation (input) MYSQL_TYPE_TINY :: nat where "MYSQL_TYPE_TINY \<equiv> 1"
abbreviation (input) MYSQL_TYPE_SHORT :: nat where "MYSQL_TYPE_SHORT \<equiv> 2"
abbreviation (input) MYSQL_TYPE_LONG :: nat where "MYSQL_TYPE_LONG \<equiv> 3"
abbreviation (input) MYSQL_TYPE_FLOAT :: nat where "MYSQL_TYPE_FLOAT \<equiv> 4"
abbreviation (input) MYSQL_TYPE_DOUBLE :: nat where "MYSQL_TYPE_DOUBLE \<equiv> 5"
abbreviation (input) MYSQL_TYPE_NULL :: nat where "MYSQL_TYPE_NULL \<equiv> 6"
abbreviation (input) MYSQL_TYPE_TIMESTAMP :: nat where "MYSQL_TYPE_TIMESTAMP \<equiv> 7"
abbreviation (input) MYSQL_TYPE_LONGLONG :: nat where "MYSQL_TYPE_LONGLONG \<equiv> 8"
abbreviation (input) MYSQL_TYPE_INT24 :: nat where "MYSQL_TYPE_INT24 \<equiv> 9"
abbreviation (input) MYSQL_TYPE_DATE :: nat where "MYSQL_TYPE_DATE \<equiv> 10"
abbreviation (input) MYSQL_TYPE_TIME :: nat where "MYSQL_TYPE_TIME \<equiv> 11"
abbreviation (input) MYSQL_TYPE_DATETIME :: nat where "MYSQL_TYPE_DATETIME \<equiv> 12"
abbreviation (input) MYSQL_TYPE_YEAR :: nat where "MYSQL_TYPE_YEAR \<equiv> 13"
abbreviation (input) MYSQL_TYPE_NEWDATE :: nat where "MYSQL_TYPE_NEWDATE \<equiv> 14"
abbreviation (input) MYSQL_TYPE_VARCHAR :: nat where "MYSQL_TYPE_VARCHAR \<equiv> 15"
abbreviation (input) MYSQL_TYPE_BIT :: nat where "MYSQL_TYPE_BIT \<equiv> 16"
abbreviation (input) MYSQL_TYPE_TIMESTAMP2 :: nat where "MYSQL_TYPE_TIMESTAMP2 \<equiv> 17"
abbreviation (input) MYSQL_TYPE_DATETIME2 :: nat where "MYSQL_TYPE_DATETIME2 \<equiv> 18"
abbreviation (input) MYSQL_TYPE_TIME2 :: nat where "MYSQL_TYPE_TIME2 \<equiv> 19"
abbreviation (input) MYSQL_TYPE_BLOB_COMPRESSED :: nat where "MYSQL_TYPE_BLOB_COMPRESSED \<equiv> 140"
abbreviation (input) MYSQL_TYPE_VARCHAR_COMPRESSED :: nat where "MYSQL_TYPE_VARCHAR_COMPRESSED \<equiv> 141"
abbreviation (input) MYSQL_TYPE_NEWDECIMAL :: nat where "MYSQL_TYPE_NEWDECIMAL \<equiv> 246"
abbreviation (input) MYSQL_TYPE_ENUM :: nat where "MYSQL_TYPE_ENUM \<equiv> 247"
abbreviation (input) MYSQL_TYPE_SET :: nat where "MYSQL_TYPE_SET \<equiv> 248"
abbreviation (input) MYSQL_TYPE_TINY_BLOB :: nat where "MYSQL_TYPE_TINY_BLOB \<equiv> 249"
abbreviation (input) MYSQL_TYPE_MEDIUM_BLOB :: nat where "MYSQL_TYPE_MEDIUM_BLOB \<equiv> 250"
abbreviation (input) MYSQL_TYPE_LONG_BLOB :: nat where "MYSQL_TYPE_LONG_BLOB \<equiv> 251"
abbreviation (input) MYSQL_TYPE_BLOB :: nat where "MYSQL_TYPE_BLOB \<equiv> 252"
abbreviation (input) MYSQL_TYPE_VAR_STRING :: nat where "MYSQL_TYPE_VAR_STRING \<equiv> 253"
abbreviation (input) MYSQL_TYPE_STRING :: nat where "MYSQL_TYPE_STRING \<equiv> 254"
abbreviation (input) MYSQL_TYPE_GEOMETRY :: nat where "MYSQL_TYPE_GEOMETRY \<equiv> 255"

section \<open>Little endian numbers\<close>

text \<open>\<open>uint2korr\<close> to \<open>uint8korr\<close> and \<open>sint2korr\<close> to \<open>sint8korr\<close>.\<close>

fun le_val :: "string \<Rightarrow> int" where
  "le_val [] = 0"
| "le_val (c # cs) = ubyte c + 256 * le_val cs"

definition ukorr :: "nat \<Rightarrow> string \<Rightarrow> int" where
  "ukorr n p = le_val (take n p)"

definition skorr :: "nat \<Rightarrow> string \<Rightarrow> int" where
  "skorr n p = signed_of (8 * n) (ukorr n p)"

text \<open>The bytes that are read must be bytes of the rows.\<close>

definition need :: "nat \<Rightarrow> string \<Rightarrow> 'a res \<Rightarrow> 'a res" where
  "need n p r = (if length p < n then Inl (Out_of_bounds ''m_rows_buf'') else r)"

section \<open>The table definition\<close>

record table_def =
  m_type :: "nat list"
  m_field_metadata :: "nat list"
  m_field_metadata_size :: nat
  m_null_bits :: "nat list"

text \<open>What a type stores in the metadata of the table map: nothing, one byte, or two with the high
  or the low one first.\<close>

definition metadata_of :: "nat \<Rightarrow> nat list \<Rightarrow> (nat \<times> nat list) res" where
  "metadata_of t md =
     (if t \<in> {MYSQL_TYPE_TINY_BLOB, MYSQL_TYPE_BLOB, MYSQL_TYPE_BLOB_COMPRESSED, MYSQL_TYPE_MEDIUM_BLOB,
              MYSQL_TYPE_LONG_BLOB, MYSQL_TYPE_DOUBLE, MYSQL_TYPE_FLOAT, MYSQL_TYPE_GEOMETRY,
              MYSQL_TYPE_TIME2, MYSQL_TYPE_DATETIME2, MYSQL_TYPE_TIMESTAMP2} then
        case md of a # r \<Rightarrow> Inr (a, r) | _ \<Rightarrow> Inl (Out_of_bounds ''field_metadata'')
      else if t \<in> {MYSQL_TYPE_SET, MYSQL_TYPE_ENUM, MYSQL_TYPE_STRING, MYSQL_TYPE_NEWDECIMAL} then
        case md of a # b # r \<Rightarrow> Inr (a * 256 + b, r) | _ \<Rightarrow> Inl (Out_of_bounds ''field_metadata'')
      else if t \<in> {MYSQL_TYPE_BIT, MYSQL_TYPE_VARCHAR, MYSQL_TYPE_VARCHAR_COMPRESSED} then
        case md of a # b # r \<Rightarrow> Inr (a + b * 256, r) | _ \<Rightarrow> Inl (Out_of_bounds ''field_metadata'')
      else Inr (0, md))"

fun unpack_metadata :: "nat list \<Rightarrow> nat list \<Rightarrow> nat list res" where
  "unpack_metadata [] md = Inr []"
| "unpack_metadata (t # ts) md =
     and_then (metadata_of t md) (\<lambda>(x, r). and_then (unpack_metadata ts r) (\<lambda>xs. Inr (x # xs)))"

definition new_table_def :: "nat list \<Rightarrow> nat list \<Rightarrow> nat list \<Rightarrow> table_def res" where
  "new_table_def types field_metadata null_bitmap =
     and_then (if types \<noteq> [] \<and> field_metadata \<noteq> [] then unpack_metadata types field_metadata
               else Inr (replicate (length types) 0)) (\<lambda>md.
     Inr \<lparr> m_type = types, m_field_metadata = md, m_field_metadata_size = length field_metadata,
           m_null_bits = null_bitmap \<rparr>)"

definition td_size :: "table_def \<Rightarrow> nat" where
  "td_size td = length (m_type td)"

text \<open>The type of a column: a string may be an enumeration or a set.\<close>

definition td_type :: "table_def \<Rightarrow> nat \<Rightarrow> nat" where
  "td_type td i =
     (let t = m_type td ! i; real_type = m_field_metadata td ! i div 256
      in if t = MYSQL_TYPE_STRING then
           if real_type = MYSQL_TYPE_ENUM \<or> real_type = MYSQL_TYPE_SET then real_type else t
         else if t = MYSQL_TYPE_DATE then MYSQL_TYPE_NEWDATE
         else t)"

definition field_metadata :: "table_def \<Rightarrow> nat \<Rightarrow> nat" where
  "field_metadata td i = (if m_field_metadata_size td \<noteq> 0 then m_field_metadata td ! i else 0)"

definition maybe_null :: "table_def \<Rightarrow> nat \<Rightarrow> bool" where
  "maybe_null td i = odd (m_null_bits td ! (i div 8) div 2 ^ (i mod 8))"

section \<open>The length of a value\<close>

definition NO_SIZE :: int where "NO_SIZE = 2 ^ 32 - 1"

text \<open>\<open>calc_field_size\<close>: bytes of the value, from the type, the metadata and the bytes. A type it
  does not know has the largest length.\<close>

definition calc_field_size :: "nat \<Rightarrow> nat \<Rightarrow> string \<Rightarrow> int res" where
  "calc_field_size t meta master_data =
     (if t = MYSQL_TYPE_NEWDECIMAL then
        and_then (decimal_bin_size (int (meta div 256)) (int (meta mod 256))) (\<lambda>n. Inr (uint_of n))
      else if t \<in> {MYSQL_TYPE_DECIMAL, MYSQL_TYPE_FLOAT, MYSQL_TYPE_DOUBLE} then Inr (int meta)
      else if t \<in> {MYSQL_TYPE_SET, MYSQL_TYPE_ENUM, MYSQL_TYPE_STRING} then
        if meta div 256 mod 256 = MYSQL_TYPE_SET \<or> meta div 256 mod 256 = MYSQL_TYPE_ENUM
        then Inr (int (meta mod 256))
        else need 1 master_data (Inr (ukorr 1 master_data + 1))
      else if t \<in> {MYSQL_TYPE_YEAR, MYSQL_TYPE_TINY} then Inr 1
      else if t = MYSQL_TYPE_SHORT then Inr 2
      else if t = MYSQL_TYPE_INT24 then Inr 3
      else if t = MYSQL_TYPE_LONG then Inr 4
      else if t = MYSQL_TYPE_LONGLONG then Inr 8
      else if t = MYSQL_TYPE_NULL then Inr 0
      else if t \<in> {MYSQL_TYPE_NEWDATE, MYSQL_TYPE_DATE, MYSQL_TYPE_TIME} then Inr 3
      else if t = MYSQL_TYPE_TIME2 then Inr (int (my_time_binary_length meta))
      else if t = MYSQL_TYPE_TIMESTAMP then Inr 4
      else if t = MYSQL_TYPE_TIMESTAMP2 then Inr (int (my_timestamp_binary_length meta))
      else if t = MYSQL_TYPE_DATETIME then Inr 8
      else if t = MYSQL_TYPE_DATETIME2 then Inr (int (my_datetime_binary_length meta))
      else if t = MYSQL_TYPE_BIT then
        Inr (int (meta div 256 mod 256 + (if meta mod 256 > 0 then 1 else 0)))
      else if t \<in> {MYSQL_TYPE_VARCHAR, MYSQL_TYPE_VARCHAR_COMPRESSED} then
        if meta > 255 then need 2 master_data (Inr (2 + ukorr 2 master_data))
        else need 1 master_data (Inr (1 + ukorr 1 master_data))
      else if t \<in> {MYSQL_TYPE_TINY_BLOB, MYSQL_TYPE_MEDIUM_BLOB, MYSQL_TYPE_LONG_BLOB, MYSQL_TYPE_BLOB,
                   MYSQL_TYPE_BLOB_COMPRESSED, MYSQL_TYPE_GEOMETRY} then
        if 1 \<le> meta \<and> meta \<le> 4
        then need meta master_data (Inr (uint_of (ukorr meta master_data + int meta)))
        else Inr (int meta)
      else Inr NO_SIZE)"

section \<open>Texts of values\<close>

text \<open>\<open>%02x\<close> of a byte.\<close>

definition hex_digit :: "nat \<Rightarrow> char" where
  "hex_digit d = (if d < 10 then digit_char d else char_of (87 + d))"

definition hex2 :: "char \<Rightarrow> string" where
  "hex2 c = (let b = of_char c :: nat in [hex_digit (b div 16), hex_digit (b mod 16)])"

definition BACKSLASH :: char where "BACKSLASH = CHR 0x5C"
definition QUOTE :: char where "QUOTE = CHR 0x27"

text \<open>One byte of a quoted string. The first test comes first: quotes and backslashes are above.\<close>

definition quoted_byte :: "char \<Rightarrow> string" where
  "quoted_byte c =
     (if ubyte c > 0x1F then [c]
      else if c = QUOTE then [BACKSLASH, QUOTE]
      else if c = BACKSLASH then [BACKSLASH, BACKSLASH]
      else BACKSLASH # CHR ''x'' # hex2 c)"

definition my_b_write_quoted :: "string \<Rightarrow> string" where
  "my_b_write_quoted s = QUOTE # concat (map quoted_byte s) @ [QUOTE]"

definition my_b_write_bit :: "string \<Rightarrow> nat \<Rightarrow> string" where
  "my_b_write_bit p nbits =
     (let nbits8 = (nbits + 7) div 8 * 8; skip_bits = nbits8 - nbits
      in CHR ''b'' # QUOTE #
         map (\<lambda>b. if odd (ubyte (p ! (b div 8)) div 2 ^ (7 - b mod 8)) then CHR ''1'' else CHR ''0'')
           [skip_bits..<nbits8] @ [QUOTE])"

text \<open>A string after its length, of one or two bytes.\<close>

definition with_length :: "nat \<Rightarrow> string \<Rightarrow> (string \<times> nat) res" where
  "with_length n p =
     need n p (let len = nat (ukorr n p)
       in need (n + len) p (Inr (my_b_write_quoted (take len (drop n p)), len + n)))"

definition my_b_write_quoted_with_length :: "string \<Rightarrow> nat \<Rightarrow> (string \<times> nat) res" where
  "my_b_write_quoted_with_length p len = (if len < 256 then with_length 1 p else with_length 2 p)"

definition my_b_write_sint32_and_uint32 :: "int \<Rightarrow> int \<Rightarrow> string" where
  "my_b_write_sint32_and_uint32 si ui =
     show_int si @ (if si < 0 then '' ('' @ show_dec (nat ui) @ '')'' else [])"

text \<open>\<open>%0\<close>\<^emph>\<open>n\<close>\<open>d\<close> of a number that is not negative.\<close>

definition pad_int :: "nat \<Rightarrow> int \<Rightarrow> string" where
  "pad_int n i = show_dec_pad n (nat i)"

section \<open>log_event_print_value\<close>

record float_env =
  float_text :: "string \<Rightarrow> string"
  double_text :: "string \<Rightarrow> string"

text \<open>What is reported for a type that cannot be printed; the caches are then written to the file.\<close>

datatype diag = Found_Old_DECIMAL | Unknown_column_type nat nat

text \<open>The text written, the bytes scanned (0 for an error), the name of the type for the comment.\<close>

record pvalue =
  pv_text :: string
  pv_size :: nat
  pv_typestr :: string
  pv_diag :: "diag option"

definition pv :: "string \<Rightarrow> nat \<Rightarrow> string \<Rightarrow> pvalue" where
  "pv s n ty = \<lparr> pv_text = s, pv_size = n, pv_typestr = ty, pv_diag = None \<rparr>"

definition pv_report :: "diag \<Rightarrow> pvalue" where
  "pv_report d = \<lparr> pv_text = [], pv_size = 0, pv_typestr = [], pv_diag = Some d \<rparr>"

text \<open>A value of so many bytes, or \<open>NULL\<close>.\<close>

definition fixed_value :: "string \<Rightarrow> nat \<Rightarrow> (string \<Rightarrow> string) \<Rightarrow> string option \<Rightarrow> pvalue res" where
  "fixed_value ty n f p =
     (case p of None \<Rightarrow> Inr (pv ''NULL'' 1 ty) | Some b \<Rightarrow> need n b (Inr (pv (f b) n ty)))"

definition var_value :: "string \<Rightarrow> (string \<Rightarrow> (string \<times> nat) res) \<Rightarrow> string option \<Rightarrow> pvalue res" where
  "var_value ty f p =
     (case p of None \<Rightarrow> Inr (pv ''NULL'' 1 ty)
      | Some b \<Rightarrow> and_then (f b) (\<lambda>(s, n). Inr (pv s n ty)))"

definition show_nat_arg :: "string \<Rightarrow> nat \<Rightarrow> string" where
  "show_nat_arg name n = name @ ''('' @ show_dec n @ '')''"

definition int_text :: "nat \<Rightarrow> string \<Rightarrow> string" where
  "int_text n b = my_b_write_sint32_and_uint32 (skorr n b) (ukorr n b)"

definition longlong_text :: "string \<Rightarrow> string" where
  "longlong_text b =
     show_int (skorr 8 b) @ (if skorr 8 b < 0 then '' ('' @ show_dec (nat (ukorr 8 b)) @ '')'' else [])"

definition datetime_text :: "string \<Rightarrow> string" where
  "datetime_text b =
     (let i64 = ukorr 8 b; d = uint_of (i64 div 1000000); t = i64 mod 1000000
      in QUOTE # pad_int 4 (d div 10000) @ ''-'' @ pad_int 2 (d mod 10000 div 100) @ ''-'' @ pad_int 2 (d mod 100)
         @ '' '' @ pad_int 2 (t div 10000) @ '':'' @ pad_int 2 (t mod 10000 div 100) @ '':'' @ pad_int 2 (t mod 100)
         @ [QUOTE])"

definition time_text :: "string \<Rightarrow> string" where
  "time_text b =
     (let tmp = skorr 3 b; i32 = \<bar>tmp\<bar>
      in QUOTE # (if tmp < 0 then ''-'' else []) @ pad_int 2 (i32 div 10000) @ '':''
         @ pad_int 2 (i32 mod 10000 div 100) @ '':'' @ pad_int 2 (i32 mod 100) @ [QUOTE])"

definition newdate_text :: "string \<Rightarrow> string" where
  "newdate_text b =
     (let tmp = ukorr 3 b; y = tmp div 2 ^ 9; m = tmp div 2 ^ 5 mod 2 ^ 4; d = tmp mod 2 ^ 5
      in QUOTE # [byte_of (48 + y div 1000), byte_of (48 + y div 100 mod 10), byte_of (48 + y div 10 mod 10),
            byte_of (48 + y mod 10), CHR '':'', byte_of (48 + m div 10), byte_of (48 + m mod 10), CHR '':'',
            byte_of (48 + d div 10), byte_of (48 + d mod 10), QUOTE])"

definition date_text :: "string \<Rightarrow> string" where
  "date_text b =
     (let i32 = ukorr 3 b
      in QUOTE # pad_int 4 (i32 div 512) @ '':'' @ pad_int 2 (i32 div 32 mod 16) @ '':'' @ pad_int 2 (i32 mod 32)
         @ [QUOTE])"

text \<open>A text made in a buffer on the stack, for the two with a fraction in quotes.\<close>

definition stack_text :: "(string res) \<Rightarrow> string res" where
  "stack_text r = and_then r (\<lambda>s. into_buffer ''buf'' MAX_DATE_STRING_REP_LENGTH s)"

definition timestamp2_text :: "nat \<Rightarrow> string \<Rightarrow> (string \<times> nat) res" where
  "timestamp2_text meta b =
     need (my_timestamp_binary_length meta) b
       (and_then (stack_text (my_timeval_to_str (my_timestamp_from_binary b meta) meta)) (\<lambda>s.
        Inr (s, my_timestamp_binary_length meta)))"

definition datetime2_text :: "nat \<Rightarrow> string \<Rightarrow> (string \<times> nat) res" where
  "datetime2_text meta b =
     need (my_datetime_binary_length meta) b
       (and_then (stack_text (my_datetime_to_str
          (TIME_from_longlong_datetime_packed (my_datetime_packed_from_binary b meta)) meta)) (\<lambda>s.
        Inr (my_b_write_quoted s, my_datetime_binary_length meta)))"

definition time2_text :: "nat \<Rightarrow> string \<Rightarrow> (string \<times> nat) res" where
  "time2_text meta b =
     need (my_time_binary_length meta) b
       (and_then (stack_text (my_time_to_str
          (TIME_from_longlong_time_packed (my_time_packed_from_binary b meta)) meta)) (\<lambda>s.
        Inr (my_b_write_quoted s, my_time_binary_length meta)))"

text \<open>The result of \<open>binary2my_decimal\<close> is not looked at.\<close>

definition decimal_value_text :: "nat \<Rightarrow> nat \<Rightarrow> string \<Rightarrow> (string \<times> nat) res" where
  "decimal_value_text precision decimals b =
     and_then (decimal_bin_size (int precision) (int decimals)) (\<lambda>bin_size.
     and_then (bin2decimal b (int precision) (int decimals)) (\<lambda>(dec, _).
     and_then (decimal2string dec (int DECIMAL_MAX_STR_LENGTH)) (\<lambda>(s, _).
     and_then (into_buffer ''buff'' (DECIMAL_MAX_STR_LENGTH + 1) s) (\<lambda>s.
     Inr (s, nat bin_size)))))"

text \<open>The declared length of a \<open>CHAR\<close> and the type its metadata stands for.\<close>

definition string_meta :: "nat \<Rightarrow> nat \<times> nat" where
  "string_meta meta =
     (if meta \<ge> 256 then
        let byte0 = meta div 256; byte1 = meta mod 256; top = byte0 div 16 mod 4
        in if top \<noteq> 3 then (byte1 + (3 - top) * 256, byte0 + (3 - top) * 16)
           else (byte1, MYSQL_TYPE_STRING)
      else (meta, MYSQL_TYPE_STRING))"

definition log_event_print_value :: "float_env \<Rightarrow> string option \<Rightarrow> nat \<Rightarrow> nat \<Rightarrow> pvalue res" where
  "log_event_print_value fe p type0 meta =
     (let (len, t) = (if type0 = MYSQL_TYPE_STRING then string_meta meta else (0, type0))
      in if t = MYSQL_TYPE_LONG then fixed_value ''INT'' 4 (int_text 4) p
         else if t = MYSQL_TYPE_TINY then fixed_value ''TINYINT'' 1 (int_text 1) p
         else if t = MYSQL_TYPE_SHORT then fixed_value ''SHORTINT'' 2 (int_text 2) p
         else if t = MYSQL_TYPE_INT24 then fixed_value ''MEDIUMINT'' 3 (int_text 3) p
         else if t = MYSQL_TYPE_LONGLONG then fixed_value ''LONGINT'' 8 longlong_text p
         else if t = MYSQL_TYPE_NEWDECIMAL then
           var_value (''DECIMAL('' @ show_dec (meta div 256) @ '','' @ show_dec (meta mod 256) @ '')'')
             (decimal_value_text (meta div 256) (meta mod 256)) p
         else if t = MYSQL_TYPE_FLOAT then fixed_value ''FLOAT'' 4 (\<lambda>b. float_text fe (take 4 b)) p
         else if t = MYSQL_TYPE_DOUBLE then fixed_value ''DOUBLE'' 8 (\<lambda>b. double_text fe (take 8 b)) p
         else if t = MYSQL_TYPE_BIT then
           (let nbits = meta div 256 * 8 + meta mod 256
            in fixed_value (show_nat_arg ''BIT'' nbits) ((nbits + 7) div 8) (\<lambda>b. my_b_write_bit b nbits) p)
         else if t = MYSQL_TYPE_TIMESTAMP then fixed_value ''TIMESTAMP'' 4 (\<lambda>b. show_int (skorr 4 b)) p
         else if t = MYSQL_TYPE_TIMESTAMP2 then
           var_value (show_nat_arg ''TIMESTAMP'' meta) (timestamp2_text meta) p
         else if t = MYSQL_TYPE_DATETIME then fixed_value ''DATETIME'' 8 datetime_text p
         else if t = MYSQL_TYPE_DATETIME2 then
           var_value (show_nat_arg ''DATETIME'' meta) (datetime2_text meta) p
         else if t = MYSQL_TYPE_TIME then fixed_value ''TIME'' 3 time_text p
         else if t = MYSQL_TYPE_TIME2 then var_value (show_nat_arg ''TIME'' meta) (time2_text meta) p
         else if t = MYSQL_TYPE_NEWDATE then fixed_value ''DATE'' 3 newdate_text p
         else if t = MYSQL_TYPE_DATE then fixed_value ''DATE'' 3 date_text p
         else if t = MYSQL_TYPE_YEAR then fixed_value ''YEAR'' 1 (\<lambda>b. pad_int 4 (ukorr 1 b + 1900)) p
         else if t = MYSQL_TYPE_ENUM then
           if meta mod 256 = 1 then fixed_value ''ENUM(1 byte)'' 1 (\<lambda>b. show_int (ukorr 1 b)) p
           else if meta mod 256 = 2 then fixed_value ''ENUM(2 bytes)'' 2 (\<lambda>b. show_int (ukorr 2 b)) p
           else Inr (pv (''!! Unknown ENUM packlen='' @ show_dec (meta mod 256)) 0 [])
         else if t = MYSQL_TYPE_SET then
           fixed_value (''SET('' @ show_dec (meta mod 256) @ '' bytes)'') (meta mod 256)
             (\<lambda>b. my_b_write_bit b (meta mod 256 * 8)) p
         else if t = MYSQL_TYPE_BLOB then
           if meta = 1 then var_value ''TINYBLOB/TINYTEXT'' (with_length 1) p
           else if meta = 2 then var_value ''BLOB/TEXT'' (with_length 2) p
           else if meta = 3 then var_value ''MEDIUMBLOB/MEDIUMTEXT'' (with_length 3) p
           else if meta = 4 then var_value ''LONGBLOB/LONGTEXT'' (with_length 4) p
           else Inr (pv (''!! Unknown BLOB packlen='' @ show_dec len) 0 [])
         else if t = MYSQL_TYPE_VARCHAR \<or> t = MYSQL_TYPE_VAR_STRING then
           var_value (show_nat_arg ''VARSTRING'' meta) (\<lambda>b. my_b_write_quoted_with_length b meta) p
         else if t = MYSQL_TYPE_STRING then
           var_value (show_nat_arg ''STRING'' len) (\<lambda>b. my_b_write_quoted_with_length b len) p
         else if t = MYSQL_TYPE_DECIMAL then Inr (pv_report Found_Old_DECIMAL)
         else Inr (pv_report (Unknown_column_type t meta)))"

end
