(* ===== verification/Value_Text.thy ===== *)
theory Value_Text
  imports Row_Values
begin

text \<open>
  What the printed text of a column value says. Times, dates and timestamps that the server can
  store print as their text and are determined by it; a decimal that the server stores prints as its
  digits; a quoted string without backslashes is determined by its text.
\<close>

section \<open>Times, dates and timestamps\<close>

text \<open>A temporal value of a column, with the digits its type keeps.\<close>

datatype temporal = Time mysql_time | Datetime mysql_time | Timestamp timeval

fun temporal_type :: "temporal \<Rightarrow> nat" where
  "temporal_type (Time t) = MYSQL_TYPE_TIME2"
| "temporal_type (Datetime t) = MYSQL_TYPE_DATETIME2"
| "temporal_type (Timestamp tm) = MYSQL_TYPE_TIMESTAMP2"

fun temporal_type_name :: "temporal \<Rightarrow> string" where
  "temporal_type_name (Time t) = ''TIME''"
| "temporal_type_name (Datetime t) = ''DATETIME''"
| "temporal_type_name (Timestamp tm) = ''TIMESTAMP''"

fun storable :: "temporal \<Rightarrow> nat \<Rightarrow> bool" where
  "storable (Time t) dec = storable_time t dec"
| "storable (Datetime t) dec = storable_datetime t dec"
| "storable (Timestamp tm) dec = storable_timestamp tm dec"

text \<open>The bytes the server stores for it and the text the library has for it.\<close>

fun temporal_bytes :: "temporal \<Rightarrow> nat \<Rightarrow> string" where
  "temporal_bytes (Time t) dec = my_time_packed_to_binary (TIME_to_longlong_time_packed t) dec"
| "temporal_bytes (Datetime t) dec = my_datetime_packed_to_binary (TIME_to_longlong_datetime_packed t) dec"
| "temporal_bytes (Timestamp tm) dec = my_timestamp_to_binary tm dec"

fun temporal_text :: "temporal \<Rightarrow> nat \<Rightarrow> string res" where
  "temporal_text (Time t) dec = and_then (my_time_to_str t dec) (\<lambda>s. Inr (my_b_write_quoted s))"
| "temporal_text (Datetime t) dec = and_then (my_datetime_to_str t dec) (\<lambda>s. Inr (my_b_write_quoted s))"
| "temporal_text (Timestamp tm) dec = my_timeval_to_str tm dec"

section \<open>Values among other bytes\<close>

lemma mi_ukorr_append [simp]: "n \<le> length p \<Longrightarrow> mi_ukorr n (p @ rest) = mi_ukorr n p"
  by (simp add: mi_ukorr_def)

lemma mi_skorr_append [simp]: "n \<le> length p \<Longrightarrow> mi_skorr n (p @ rest) = mi_skorr n p"
  by (simp add: mi_skorr_def)

lemma my_time_packed_from_binary_append:
  "my_time_binary_length dec \<le> length p \<Longrightarrow> my_time_packed_from_binary (p @ rest) dec = my_time_packed_from_binary p dec"
  by (auto simp: my_time_packed_from_binary_def my_time_binary_length_def)

lemma my_datetime_packed_from_binary_append:
  "my_datetime_binary_length dec \<le> length p \<Longrightarrow>
     my_datetime_packed_from_binary (p @ rest) dec = my_datetime_packed_from_binary p dec"
  by (auto simp: my_datetime_packed_from_binary_def my_datetime_binary_length_def Let_def)

lemma my_timestamp_from_binary_append:
  "my_timestamp_binary_length dec \<le> length p \<Longrightarrow>
     my_timestamp_from_binary (p @ rest) dec = my_timestamp_from_binary p dec"
  by (auto simp: my_timestamp_from_binary_def my_timestamp_binary_length_def)

lemma length_packed [simp]:
  assumes "dec \<le> 6"
  shows "length (my_time_packed_to_binary i dec) = my_time_binary_length dec"
    "length (my_datetime_packed_to_binary i dec) = my_datetime_binary_length dec"
    "length (my_timestamp_to_binary tm dec) = my_timestamp_binary_length dec"
proof -
  have "dec = 0 \<or> dec = 1 \<or> dec = 2 \<or> dec = 3 \<or> dec = 4 \<or> dec = 5 \<or> dec = 6" using assms by arith
  then show "length (my_time_packed_to_binary i dec) = my_time_binary_length dec"
    "length (my_datetime_packed_to_binary i dec) = my_datetime_binary_length dec"
    "length (my_timestamp_to_binary tm dec) = my_timestamp_binary_length dec"
    by (auto simp: my_time_packed_to_binary_def my_time_binary_length_def my_datetime_packed_to_binary_def
        my_datetime_binary_length_def my_timestamp_to_binary_def my_timestamp_binary_length_def)
qed

lemma temporal_value_text:
  assumes "storable v dec"
  shows "log_event_print_value fe (Some (temporal_bytes v dec @ rest)) (temporal_type v) dec =
    and_then (temporal_text v dec) (\<lambda>s.
      Inr (pv s (length (temporal_bytes v dec)) (show_nat_arg (temporal_type_name v) dec)))"
proof (cases v)
  case (Time t)
  then have st: "storable_time t dec" and d: "dec \<le> 6" using assms by (simp_all add: storable_time_def)
  obtain s where "my_time_to_str t dec = Inr s" "length s \<le> 18"
    using my_time_to_str_ok [of dec t] st by (auto simp: storable_time_def)
  then show ?thesis using Time d time_roundtrip [OF st]
    by (simp add: log_event_print_value_def var_value_def time2_text_def need_def stack_text_def
        my_time_packed_from_binary_append MAX_DATE_STRING_REP_LENGTH_def)
next
  case (Datetime t)
  then have st: "storable_datetime t dec" and d: "dec \<le> 6" using assms by (simp_all add: storable_datetime_def)
  obtain s where "my_datetime_to_str t dec = Inr s" "length s \<le> 26"
    using my_datetime_to_str_ok [OF d, of t] by blast
  then show ?thesis using Datetime d datetime_roundtrip [OF st]
    by (simp add: log_event_print_value_def var_value_def datetime2_text_def need_def stack_text_def
        my_datetime_packed_from_binary_append MAX_DATE_STRING_REP_LENGTH_def)
next
  case (Timestamp tm)
  then have st: "storable_timestamp tm dec" and d: "dec \<le> 6" using assms by (simp_all add: storable_timestamp_def)
  obtain s where "my_timeval_to_str tm dec = Inr s" "length s \<le> 27"
    using my_timeval_to_str_ok [OF d, of tm] by blast
  then show ?thesis using Timestamp d timestamp_roundtrip [OF st]
    by (simp add: log_event_print_value_def var_value_def timestamp2_text_def need_def stack_text_def
        my_timestamp_from_binary_append MAX_DATE_STRING_REP_LENGTH_def)
qed

lemma my_timeval_to_str_inj:
  assumes t: "storable_timestamp t dec" and u: "storable_timestamp u dec"
    and eq: "my_timeval_to_str t dec = my_timeval_to_str u dec"
  shows "t = u"
proof -
  note st = t [unfolded storable_timestamp_def] and su = u [unfolded storable_timestamp_def]
  obtain f g where f: "frac_str (tv_usec t) dec = Inr f" and g: "frac_str (tv_usec u) dec = Inr g"
    using frac_str_ok [of dec] st by metis
  have e: "longlong10_unsigned (tv_sec t) @ f = longlong10_unsigned (tv_sec u) @ g"
    using eq f g by (simp add: my_timeval_to_str_def)
  have hd: "s = [] \<or> \<not> is_digit (hd s)" if "frac_str v dec = Inr s" for v s
    using that by (auto simp: frac_str_def is_digit_def split: if_splits elim!: and_then_eq_InrE)
  have v: "dec_val 0 (longlong10_unsigned (tv_sec x) @ s) = nat (tv_sec x)"
    if "storable_timestamp x dec" "frac_str (tv_usec x) dec = Inr s" for x s
    using that dec_val_stop [of "longlong10_unsigned (tv_sec x)" s 0] hd [OF that(2)] show_dec_digits
    by (auto simp: longlong10_unsigned_def dec_val_show_dec storable_timestamp_def)
  have "nat (tv_sec t) = nat (tv_sec u)" using v [OF t f] v [OF u g] e by simp
  then have s: "tv_sec t = tv_sec u" using st su by linarith
  then have "f = g" using e by simp
  then have "tv_usec t = tv_usec u" using frac_str_inj f g st su by metis
  with s show ?thesis by simp
qed

lemma concat_singletons: "concat (map (\<lambda>c. [c]) s) = s"
  by (induction s) simp_all

lemma my_b_write_quoted_plain:
  assumes "\<forall>c \<in> set s. ubyte c > 0x1F"
  shows "my_b_write_quoted s = QUOTE # s @ [QUOTE]"
proof -
  have "map quoted_byte s = map (\<lambda>c. [c]) s" using assms by (auto simp: quoted_byte_def)
  then show ?thesis by (simp only: my_b_write_quoted_def concat_singletons)
qed

lemma time_char_above: "time_char c \<Longrightarrow> ubyte c > 0x1F"
  by (auto simp: time_char_def is_digit_def ubyte_def)

lemma temporal_text_chars:
  "storable_time t dec \<Longrightarrow> \<exists>s. my_time_to_str t dec = Inr s \<and> (\<forall>c \<in> set s. time_char c)"
  "storable_datetime t dec \<Longrightarrow> \<exists>s. my_datetime_to_str t dec = Inr s \<and> (\<forall>c \<in> set s. time_char c)"
proof -
  assume t: "storable_time t dec"
  show "\<exists>s. my_time_to_str t dec = Inr s \<and> (\<forall>c \<in> set s. time_char c)"
    by (rule my_time_to_str_ok [of dec t]) (use t in \<open>simp_all add: storable_time_def\<close>)
next
  assume t: "storable_datetime t dec"
  show "\<exists>s. my_datetime_to_str t dec = Inr s \<and> (\<forall>c \<in> set s. time_char c)"
    by (rule my_datetime_to_str_ok [of dec t]) (use t in \<open>simp_all add: storable_datetime_def\<close>)
qed

lemma quoted_text_inj:
  assumes "\<exists>s. m = Inr s \<and> (\<forall>c \<in> set s. time_char c)" "\<exists>s. n = Inr s \<and> (\<forall>c \<in> set s. time_char c)"
    and "and_then m (\<lambda>s. Inr (my_b_write_quoted s)) = and_then n (\<lambda>s. Inr (my_b_write_quoted s))"
  shows "m = n"
  using assms my_b_write_quoted_plain time_char_above by fastforce

lemma temporal_text_inj:
  assumes st: "storable v dec" "storable w dec" and ty: "temporal_type v = temporal_type w"
    and eq: "temporal_text v dec = temporal_text w dec"
  shows "v = w"
proof (cases v)
  case (Time a)
  then obtain b where w: "w = Time b" using ty by (cases w) auto
  have "storable_time a dec" "storable_time b dec" using st Time w by simp_all
  then show ?thesis
    using quoted_text_inj [OF temporal_text_chars(1) temporal_text_chars(1)] my_time_to_str_inj eq Time w by simp
next
  case (Datetime a)
  then obtain b where w: "w = Datetime b" using ty by (cases w) auto
  have "storable_datetime a dec" "storable_datetime b dec" using st Datetime w by simp_all
  then show ?thesis
    using quoted_text_inj [OF temporal_text_chars(2) temporal_text_chars(2)] my_datetime_to_str_inj eq Datetime w
    by simp
next
  case (Timestamp a)
  then obtain b where w: "w = Timestamp b" using ty by (cases w) auto
  then show ?thesis using my_timeval_to_str_inj [of a dec b] st eq Timestamp by simp
qed

section \<open>Decimals\<close>

lemma stored_form_length:
  assumes d: "log_decimal d" and ig: "intg d \<le> ig"
  shows "decimal_bin_size (ig + frac d) (frac d) = Inr (int (length (stored_form d ig)))"
proof -
  have ok: "decimal_ok d" using d by (simp add: log_decimal_def)
  define b where "b = dropWhile (\<lambda>x. x = 0) (intg_groups d)"
  obtain n where r: "significant b n" "0 \<le> n" "n \<le> intg d"
    using remove_leading_zeroes_ok [OF ok] b_def by metis
  have "\<forall>x \<in> set b. group_ok x"
    using ok set_dropWhileD unfolding b_def decimal_ok_def intg_ok_def by fast
  then have "intg_ok n b" by (rule significant_ok [OF r(1) _ r(2)])
  then have g: "intg_ok ig (padded ig b)" using r(3) ig by (intro padded_ok [of n]) auto
  have f: "frac_ok (frac d) (frac_groups d)" using ok by (simp add: decimal_ok_def)
  show ?thesis using stored_size [OF g f, of "mask_of d"]
    by (simp add: decimal_bin_size_def stored_form_def b_def [symmetric])
qed

lemma precision_fits:
  assumes "0 \<le> ig" "0 \<le> sc" "ig + sc \<le> 65"
  shows "ROUND_UP ig + ROUND_UP sc \<le> 9"
proof -
  have "9 * ROUND_UP ig + 9 * ROUND_UP sc \<le> ig + sc + 16"
    using ROUND_UP_covers [OF assms(1)] ROUND_UP_covers [OF assms(2)] by linarith
  then show ?thesis using assms(3) by linarith
qed

lemma decimal_meta [simp]: "s < 256 \<Longrightarrow> (256 * p + s) div 256 = (p::nat)" "s < 256 \<Longrightarrow> (256 * p + s) mod 256 = (s::nat)"
  by simp_all

lemma length_flip_first [simp]: "length (flip_first s) = length s"
  by (cases s) (simp_all add: flip_first_def)

lemma decimal_ok_weak: "decimal_ok d \<Longrightarrow> weak_ok d"
proof -
  assume ok: "decimal_ok d"
  have ig: "0 \<le> intg d" "int (length (intg_groups d)) = ROUND_UP (intg d)" "\<forall>x \<in> set (intg_groups d). group_ok x"
    and fr: "0 \<le> frac d" "int (length (frac_groups d)) = ROUND_UP (frac d)" "\<forall>x \<in> set (frac_groups d). group_ok x"
    using ok by (simp_all add: decimal_ok_def intg_ok_def frac_ok_def)
  have b: "buf d = intg_groups d @ frac_groups d" by (simp add: intg_groups_def frac_groups_def)
  show ?thesis unfolding weak_ok_def b set_append length_append of_nat_add ig(2) fr(2)
    using ig(1,3) fr(1,3) by (simp add: ball_Un)
qed

lemma decimal_value_text_stored:
  assumes d: "log_decimal d" and sc: "frac d = int scale" and p: "0 < precision" "precision \<le> 65" "scale \<le> precision"
    and ig: "intg d \<le> int (precision - scale)" and b: "decimal2bin d (int precision) (int scale) = Inr (b, e)"
  shows "decimal_value_text precision scale (b @ rest) = Inr (decimal_text d, length b)" "e = E_DEC_OK"
proof -
  define iw where "iw = int (precision - scale)"
  have pr: "int precision = iw + frac d" using p(3) by (simp add: iw_def sc)
  note igw = ig [folded iw_def]
  have be: "b = flip_first (stored_form d iw)" "e = E_DEC_OK"
    using b decimal2bin_ok [OF d igw] unfolding pr sc [symmetric] by simp_all
  then show "e = E_DEC_OK" by simp
  have fit: "ROUND_UP iw + ROUND_UP (frac d) \<le> 9"
  proof (rule precision_fits)
    show "0 \<le> iw" "0 \<le> frac d" by (simp_all add: iw_def sc)
    show "iw + frac d \<le> 65" using p(2) pr by linarith
  qed
  have pos: "0 < iw + frac d" using p(1) pr by linarith
  obtain x where x: "bin2decimal (b @ rest) (iw + frac d) (frac d) = Inr (x, E_DEC_OK)"
    "decimal_ok x" "decimal_text x = decimal_text d" "intg x + frac x \<le> max 1 (iw + frac d)"
    unfolding be(1) by (rule stored_form_read_back [OF d igw pos fit])
  have l: "intg x + frac x \<le> 65" using x(4) pr p(1,2) by simp
  have s: "decimal2string x (int DECIMAL_MAX_STR_LENGTH) = Inr (decimal_text d, E_DEC_OK)"
    using decimal2string_ok [OF x(2)] x(3) l by simp
  have w: "length (decimal_text d) \<le> 68"
    by (rule decimal2string_weak [OF decimal_ok_weak [OF x(2)]]) (use l s in auto)
  have z: "decimal_bin_size (int precision) (int scale) = Inr (int (length b))"
    using stored_form_length [OF d igw] by (simp add: pr sc [symmetric] be(1))
  show "decimal_value_text precision scale (b @ rest) = Inr (decimal_text d, length b)"
    using x(1) [folded pr, unfolded sc] s w z by (simp add: decimal_value_text_def DECIMAL_MAX_STR_LENGTH_def)
qed

lemma decimal_value_text_any:
  assumes p: "0 < precision" "precision \<le> 65" "scale \<le> precision"
    and z: "decimal_bin_size (int precision) (int scale) = Inr z" "z \<le> int (length b)"
  obtains s where "decimal_value_text precision scale b = Inr (s, nat z)" "length s \<le> precision + 3"
    "\<forall>c \<in> set s. time_char c"
proof -
  define iw where "iw = int (precision - scale)"
  have pr: "int precision = iw + int scale" "0 \<le> iw" using p(3) by (simp_all add: iw_def)
  have fit: "ROUND_UP iw + ROUND_UP (int scale) \<le> 9"
    using p(2) pr by (intro precision_fits) linarith+
  have pos: "0 < iw + int scale" using p(1) pr by linarith
  obtain d e where d: "bin2decimal b (int precision) (int scale) = Inr (d, e)" "weak_ok d"
    "intg d + frac d \<le> max 1 (int precision)"
    unfolding pr(1) by (rule bin2decimal_total [OF pr(2) _ pos fit z(1) [unfolded pr(1)] z(2)]) simp_all
  then have l: "intg d + frac d \<le> int precision" using p(1) by simp
  obtain s where s: "decimal2string d (int DECIMAL_MAX_STR_LENGTH) = Inr (s, E_DEC_OK)"
    "int (length s) \<le> intg d + frac d + 3" "\<forall>c \<in> set s. time_char c"
    by (rule decimal2string_weak [OF d(2)]) (use l p(2) in auto)
  show thesis
  proof (rule that [OF _ _ s(3)])
    show "decimal_value_text precision scale b = Inr (s, nat z)"
      using z(1) d(1) s(1,2) l p(2) by (simp add: decimal_value_text_def DECIMAL_MAX_STR_LENGTH_def)
    show "length s \<le> precision + 3" using s(2) l by linarith
  qed
qed

lemma decimal_overlong_read:
  "log_event_print_value fe (Some [CHR 0xFF]) MYSQL_TYPE_NEWDECIMAL (256 * 2) = Inr (pv ''27'' 1 ''DECIMAL(2,0)'')"
  by code_simp

section \<open>Values identified by their text\<close>

lemma digit_chars:
  "digit_char 0 = CHR ''0''" "digit_char (Suc 0) = CHR ''1''" "digit_char 1 = CHR ''1''" "digit_char 2 = CHR ''2''"
  "digit_char 3 = CHR ''3''" "digit_char 4 = CHR ''4''" "digit_char 5 = CHR ''5''" "digit_char 6 = CHR ''6''"
  "digit_char 7 = CHR ''7''" "digit_char 8 = CHR ''8''" "digit_char 9 = CHR ''9''"
  by code_simp+

text \<open>C20: A time, date or timestamp that the server can store in a column with so many digits of the
  second prints as its text, from exactly the bytes that the server writes, whatever follows them.\<close>

theorem temporal_value_printed:
  assumes "storable v dec"
  shows "\<exists>s. temporal_text v dec = Inr s \<and>
    log_event_print_value fe (Some (temporal_bytes v dec @ rest)) (temporal_type v) dec =
      Inr (pv s (length (temporal_bytes v dec)) (show_nat_arg (temporal_type_name v) dec))"
proof -
  have "\<exists>s. temporal_text v dec = Inr s"
  proof (cases v)
    case (Timestamp tm)
    have "dec \<le> 6" using assms Timestamp by (simp add: storable_timestamp_def)
    then show ?thesis using my_timeval_to_str_ok [of dec tm] Timestamp by fastforce
  qed (use assms temporal_text_chars in fastforce)+
  then show ?thesis using temporal_value_text [OF assms] by fastforce
qed

definition leap_day :: mysql_time where
  "leap_day = \<lparr> year = 2024, month = 2, day = 29, hour = 23, minute = 59, second = 58, second_part = 123000,
     neg = False, time_type = MYSQL_TIMESTAMP_DATETIME \<rparr>"

theorem temporal_value_printed_witness:
  "log_event_print_value \<lparr> float_text = id, double_text = id \<rparr> (Some (temporal_bytes (Datetime leap_day) 3 @ ''x'')) MYSQL_TYPE_DATETIME2 3 =
     Inr (pv (my_b_write_quoted ''2024-02-29 23:59:58.123'') 7 ''DATETIME(3)'')"
proof -
  have st: "storable (Datetime leap_day) 3" by (simp add: storable_datetime_def leap_day_def)
  have "my_datetime_to_str leap_day 3 = Inr ''2024-02-29 23:59:58.123''" by code_simp
  moreover have "show_nat_arg ''DATETIME'' 3 = ''DATETIME(3)''" by code_simp
  ultimately show ?thesis using temporal_value_printed [OF st, of "\<lparr> float_text = id, double_text = id \<rparr>" "''x''"] by (simp add: my_datetime_binary_length_def)
qed

text \<open>C21: The printed text determines it: two storable values of one column type that print the same
  text are equal.\<close>

theorem temporal_value_identified:
  assumes "storable v dec" "storable w dec" "temporal_type v = temporal_type w"
    and "log_event_print_value fe (Some (temporal_bytes v dec @ rest)) (temporal_type v) dec = Inr p"
    and "log_event_print_value fe (Some (temporal_bytes w dec @ rest')) (temporal_type w) dec = Inr q"
    and "pv_text p = pv_text q"
  shows "v = w"
proof (rule temporal_text_inj [OF assms(1-3)])
  have "temporal_text v dec = Inr (pv_text p)" "temporal_text w dec = Inr (pv_text q)"
    using assms(4,5) unfolding temporal_value_text [OF assms(1)] temporal_value_text [OF assms(2)]
    by (auto simp: pv_def elim!: and_then_eq_InrE)
  then show "temporal_text v dec = temporal_text w dec" using assms(6) by simp
qed

theorem temporal_value_identified_witness:
  "storable (Timestamp \<lparr> tv_sec = 1700000000, tv_usec = 500000 \<rparr>) 1 \<and>
   (log_event_print_value \<lparr> float_text = id, double_text = id \<rparr> (Some (temporal_bytes (Timestamp \<lparr> tv_sec = 1700000000, tv_usec = 500000 \<rparr>) 1 @ []))
      MYSQL_TYPE_TIMESTAMP2 1 = Inr (pv ''1700000000.5'' 5 ''TIMESTAMP(1)''))"
proof -
  let ?v = "Timestamp \<lparr> tv_sec = 1700000000, tv_usec = 500000 \<rparr>"
  have st: "storable ?v 1" by (simp add: storable_timestamp_def)
  have s: "my_timeval_to_str \<lparr> tv_sec = 1700000000, tv_usec = 500000 \<rparr> 1 = Inr ''1700000000.5''"
    by (simp add: my_timeval_to_str_def frac_str_def sec_part_shift_def TIME_SECOND_PART_DIGITS_def
        longlong10_unsigned_def show_dec.simps digit_chars sdiv_nonneg)
  have n: "show_nat_arg ''TIMESTAMP'' 1 = ''TIMESTAMP(1)''" by code_simp
  have e: "log_event_print_value \<lparr> float_text = id, double_text = id \<rparr> (Some (temporal_bytes ?v 1 @ [])) (temporal_type ?v) 1
    = Inr (pv ''1700000000.5'' 5 ''TIMESTAMP(1)'')"
    unfolding temporal_value_text [OF st] using s n by (simp add: my_timestamp_binary_length_def)
  show ?thesis using temporal_value_identified [OF st st refl e e refl] st e by simp
qed

text \<open>C22: A decimal with the digits of its column is stored by \<open>decimal2bin\<close> without loss and prints
  as its digits: the sign, the significant digits before the point and the whole fraction, whatever
  bytes follow.\<close>

theorem decimal_value_printed:
  assumes "log_decimal d" "frac d = int scale" "0 < precision" "precision \<le> 65" "scale \<le> precision"
    and "intg d \<le> int (precision - scale)" "decimal2bin d (int precision) (int scale) = Inr (b, e)"
  shows "e = E_DEC_OK \<and> log_event_print_value fe (Some (b @ rest)) MYSQL_TYPE_NEWDECIMAL (256 * precision + scale) =
    Inr (pv (decimal_text d) (length b) (''DECIMAL('' @ show_dec precision @ '','' @ show_dec scale @ '')''))"
proof -
  have "scale < 256" using assms(4,5) by simp
  then show ?thesis using decimal_value_text_stored [OF assms]
    by (simp add: log_event_print_value_def var_value_def)
qed

text \<open>The example of the comment above \<open>decimal2bin\<close>.\<close>

theorem decimal_value_printed_witness:
  "log_event_print_value \<lparr> float_text = id, double_text = id \<rparr> (Some (map char_of [0x81, 0x0D, 0xFB, 0x38, 0xD2, 0x04, 0xD2 :: nat] @ ''x''))
     MYSQL_TYPE_NEWDECIMAL (256 * 14 + 4) = Inr (pv ''1234567890.1234'' 7 ''DECIMAL(14,4)'')"
proof -
  let ?d = "\<lparr> intg = 10, frac = 4, sign = False, buf = [1, 234567890, 123400000] \<rparr>"
  have g: "intg_groups ?d = [1, 234567890]" "frac_groups ?d = [123400000]" "ROUND_UP 10 = 2" "ROUND_UP 4 = 1"
    "odd9 10 = 1" "odd9 4 = 4" by code_simp+
  have "log_decimal ?d"
    by (simp add: log_decimal_def decimal_ok_def intg_ok_def frac_ok_def g group_ok_def)
  moreover have "decimal_text ?d = ''1234567890.1234''"
  proof -
    have v: "groups_value [1, 234567890] = 1234567890" "fmt_number 123400000 9 = ''123400000''" by code_simp+
    show ?thesis by (simp add: decimal_text_def g v show_dec.simps digit_chars)
  qed
  moreover have "decimal2bin ?d 14 4 = Inr (map char_of [0x81, 0x0D, 0xFB, 0x38, 0xD2, 0x04, 0xD2 :: nat], E_DEC_OK)"
    by code_simp
  moreover have "show_dec 14 = ''14''" "show_dec 4 = ''4''" by code_simp+
  ultimately show ?thesis 
    using decimal_value_printed [of ?d 4 14 "map char_of [0x81, 0x0D, 0xFB, 0x38, 0xD2, 0x04, 0xD2 :: nat]" E_DEC_OK "\<lparr> float_text = id, double_text = id \<rparr>" "''x''"]
    by (simp add: numeral_eq_Suc)
qed

section \<open>Quoting\<close>

lemma ubyte_Char [simp]: "ubyte (Char b0 b1 b2 b3 b4 b5 b6 b7) = of_char (Char b0 b1 b2 b3 b4 b5 b6 b7)"
  by (simp add: ubyte_def)

lemma ubyte_QUOTE [simp]: "ubyte QUOTE = 39" "ubyte BACKSLASH = 92"
  by (simp_all add: QUOTE_def BACKSLASH_def)

text \<open>A byte above 31 is one character; another is a backslash, an \<open>x\<close> and two digits.\<close>

lemma hex2_inj: "hex2 c = hex2 d \<Longrightarrow> c = d"
proof -
  have v: "of_char (hex_digit x) = (if x < 10 then 48 + x else 87 + x :: nat)" if "x < 16" for x
    using that by (simp add: hex_digit_def of_char_digit_char)
  have h: "a = b" if e: "hex_digit a = hex_digit b" and l: "a < 16" "b < 16" for a b
    using arg_cong [OF e, of "of_char :: char \<Rightarrow> nat"] l unfolding v [OF l(1)] v [OF l(2)] by (auto split: if_splits)
  assume a: "hex2 c = hex2 d"
  have l: "(of_char x :: nat) div 16 < 16" "(of_char x :: nat) mod 16 < 16" for x
    using ubyte_range(2) [of x] by (simp_all add: ubyte_def less_mult_imp_div_less)
  have "(of_char c :: nat) div 16 = of_char d div 16" "(of_char c :: nat) mod 16 = of_char d mod 16"
    using a h l by (simp_all add: hex2_def Let_def)
  then have "(of_char c :: nat) = of_char d" by (metis div_mult_mod_eq)
  then show "c = d" by simp
qed

lemma quoted_byte_cases:
  obtains (above) "ubyte c > 0x1F" "quoted_byte c = [c]"
    | (below) "\<not> ubyte c > 0x1F" "quoted_byte c = BACKSLASH # CHR ''x'' # hex2 c"
proof (cases "ubyte c > 0x1F")
  case False
  then have "c \<noteq> QUOTE" "c \<noteq> BACKSLASH" by auto
  with False show thesis by (intro below) (simp_all add: quoted_byte_def)
qed (simp add: above quoted_byte_def)

lemma quoted_bytes_inj:
  assumes "concat (map quoted_byte s) = concat (map quoted_byte t)"
    and "BACKSLASH \<notin> set s" "BACKSLASH \<notin> set t"
  shows "s = t"
  using assms
proof (induction s arbitrary: t)
  case Nil
  have "quoted_byte c \<noteq> []" for c by (simp add: quoted_byte_def)
  with Nil show ?case by (cases t) auto
next
  case (Cons c s)
  have "quoted_byte c \<noteq> []" by (simp add: quoted_byte_def)
  then obtain d u where t: "t = d # u" using Cons.prems(1) by (cases t) auto
  have e: "quoted_byte c @ concat (map quoted_byte s) = quoted_byte d @ concat (map quoted_byte u)"
    using Cons.prems(1) by (simp add: t)
  have b: "c \<noteq> BACKSLASH" "d \<noteq> BACKSLASH" "BACKSLASH \<notin> set s" "BACKSLASH \<notin> set u"
    using Cons.prems by (auto simp: t)
  have l: "length (hex2 x) = 2" for x by (simp add: hex2_def Let_def)
  have "c = d \<and> concat (map quoted_byte s) = concat (map quoted_byte u)"
  proof (cases c rule: quoted_byte_cases)
    case above
    then show ?thesis using e b by (cases d rule: quoted_byte_cases) auto
  next
    case below
    then show ?thesis using e b l hex2_inj by (cases d rule: quoted_byte_cases) auto
  qed
  then show ?case using Cons.IH b by (simp add: t)
qed

text \<open>Two strings without a backslash that print the same are the same. (Quotes stay as they
  are, so the printed text can end early for a reader, but nothing is lost.)\<close>

lemma quoted_string_identified:
  assumes "my_b_write_quoted s = my_b_write_quoted t" "BACKSLASH \<notin> set s" "BACKSLASH \<notin> set t"
  shows "s = t"
  using assms quoted_bytes_inj by (simp add: my_b_write_quoted_def)

text \<open>The tests for quotes and backslashes come after the one for printable bytes, so neither is
  escaped: a backslash and the escape of a control character print alike.\<close>

lemma quoted_string_ambiguous:
  "my_b_write_quoted [BACKSLASH, CHR ''x'', CHR ''0'', CHR ''1''] = my_b_write_quoted [CHR 0x01]"
  "my_b_write_quoted [QUOTE] = [QUOTE, QUOTE, QUOTE]"
  by code_simp+

end
