(* ===== verification/Value_Size.thy ===== *)
theory Value_Size
  imports Value_Text
begin

text \<open>
  The two readers of a column value, \<open>calc_field_size\<close> of \<open>sql/rpl_utility.cc\<close> and
  \<open>log_event_print_value\<close> of \<open>sql/log_event.cc\<close>: for the metadata that the server writes, every value
  that fits the rows prints without a fault and without a control character over the bytes the first
  one counts, and the bytes behind a value do not count. Where they disagree is shown last.
\<close>

section \<open>Every value of a supported column\<close>

text \<open>No control character: nothing that would end the line.\<close>

definition plain :: "string \<Rightarrow> bool" where
  "plain s \<longleftrightarrow> (\<forall>c \<in> set s. ubyte c > 0x1F)"

text \<open>Metadata as the server writes it (\<open>save_field_metadata\<close> of its field classes) for the types
  this printer knows; the second clause leaves out strings of 256 bytes or more.\<close>

definition column_ok :: "nat \<Rightarrow> nat \<Rightarrow> bool" where
  "column_ok t meta \<longleftrightarrow>
     (if t = MYSQL_TYPE_NEWDECIMAL then 0 < meta div 256 \<and> meta div 256 \<le> 65 \<and> meta mod 256 \<le> meta div 256
      else if t = MYSQL_TYPE_STRING then
        snd (string_meta meta) = MYSQL_TYPE_STRING \<and> fst (string_meta meta) < 256 \<and>
        meta div 256 mod 256 \<notin> {MYSQL_TYPE_ENUM, MYSQL_TYPE_SET}
      else if t = MYSQL_TYPE_FLOAT then meta = 4
      else if t = MYSQL_TYPE_DOUBLE then meta = 8
      else if t = MYSQL_TYPE_BIT then 0 < meta \<and> meta < 65536 \<and> meta mod 256 \<le> 7
      else if t = MYSQL_TYPE_ENUM then meta div 256 = MYSQL_TYPE_ENUM \<and> meta mod 256 \<in> {1, 2}
      else if t = MYSQL_TYPE_SET then meta div 256 = MYSQL_TYPE_SET \<and> 0 < meta mod 256
      else if t \<in> {MYSQL_TYPE_TIME2, MYSQL_TYPE_DATETIME2, MYSQL_TYPE_TIMESTAMP2} then meta \<le> 6
      else if t = MYSQL_TYPE_BLOB then 1 \<le> meta \<and> meta \<le> 4
      else t \<in> {MYSQL_TYPE_VARCHAR, MYSQL_TYPE_LONG, MYSQL_TYPE_TINY, MYSQL_TYPE_SHORT, MYSQL_TYPE_INT24,
                MYSQL_TYPE_LONGLONG, MYSQL_TYPE_TIMESTAMP, MYSQL_TYPE_DATETIME, MYSQL_TYPE_TIME,
                MYSQL_TYPE_NEWDATE, MYSQL_TYPE_YEAR})"

named_theorems plain_intro "texts without control characters"

lemma plain_simps [simp]:
  "plain []" "plain (c # s) \<longleftrightarrow> ubyte c > 0x1F \<and> plain s" "plain (s @ t) \<longleftrightarrow> plain s \<and> plain t"
  by (auto simp: plain_def)

lemma ubyte_digit [simp]: "is_digit c \<Longrightarrow> ubyte c > 0x1F"
  by (simp add: is_digit_def ubyte_def)

lemma plain_show_dec [simp, plain_intro]: "plain (show_dec n)"
  using show_dec_digits by (auto simp: plain_def)

lemma plain_show_int [simp, plain_intro]: "plain (show_int i)"
  by (simp add: show_int_def)

lemma plain_pad_int [simp, plain_intro]: "plain (pad_int n i)"
  by (auto simp: plain_def pad_int_def show_dec_pad_def show_dec_digits)

lemma plain_time_chars: "\<forall>c \<in> set s. time_char c \<Longrightarrow> plain s"
  by (auto simp: plain_def time_char_def is_digit_def ubyte_def)

lemma plain_hex2 [simp]: "plain (hex2 c)"
proof -
  have "ubyte (hex_digit d) > 0x1F" if "d < 16" for d
    using that by (auto simp: hex_digit_def ubyte_def digit_char_def)
  moreover have "of_char c div 16 < (16::nat)"
    using ubyte_range(2) [of c] by (simp add: ubyte_def less_mult_imp_div_less)
  ultimately show ?thesis by (simp add: hex2_def Let_def)
qed

lemma plain_quoted_byte: "plain (quoted_byte c)"
  by (auto simp: quoted_byte_def)

lemma plain_my_b_write_quoted [simp, plain_intro]: "plain (my_b_write_quoted s)"
  using plain_quoted_byte by (auto simp: my_b_write_quoted_def plain_def)

lemma plain_my_b_write_bit [simp, plain_intro]: "plain (my_b_write_bit p n)"
  by (auto simp: my_b_write_bit_def Let_def plain_def)

lemma plain_int_text [simp, plain_intro]: "plain (int_text n b)" "plain (longlong_text b)"
  by (simp_all add: int_text_def my_b_write_sint32_and_uint32_def longlong_text_def)

lemma plain_date_texts [simp, plain_intro]: "plain (datetime_text b)" "plain (time_text b)"
  by (simp_all add: datetime_text_def time_text_def Let_def)

lemma le_val_range: "0 \<le> le_val p \<and> le_val p < 256 ^ length p"
proof (induction p)
  case (Cons c p)
  have "le_val p + 1 \<le> 256 ^ length p" using Cons by linarith
  moreover have "0 \<le> ubyte c" "ubyte c < 256" by simp_all
  moreover have "(256::int) ^ length (c # p) = 256 * 256 ^ length p" by simp
  ultimately show ?case using Cons unfolding le_val.simps by linarith
qed simp

lemma ukorr_range: "0 \<le> ukorr n p" "ukorr n p < 256 ^ n"
proof -
  show "0 \<le> ukorr n p" using le_val_range [of "take n p"] by (simp add: ukorr_def)
  have "(256::int) ^ length (take n p) \<le> 256 ^ n" by (rule power_increasing) simp_all
  then show "ukorr n p < 256 ^ n" using le_val_range [of "take n p"] unfolding ukorr_def by linarith
qed

lemma digit_byte: "0 \<le> x \<Longrightarrow> x \<le> 40 \<Longrightarrow> ubyte (byte_of (48 + x)) > 0x1F"
proof -
  assume "0 \<le> x" "x \<le> 40"
  then have "(48 + x) mod 256 = 48 + x" by (intro mod_pos_pos_trivial) simp_all
  then show ?thesis using \<open>0 \<le> x\<close> by simp
qed

lemma plain_newdate_text [simp, plain_intro]: "plain (newdate_text b)"
proof -
  define v where "v = ukorr 3 b"
  have v: "0 \<le> v" "v < 2 ^ 24" using ukorr_range [of 3 b] by (simp_all add: v_def)
  define y where "y = v div 2 ^ 9"
  have y: "0 \<le> y" "y < 32768" using v by (simp_all add: y_def pos_imp_zdiv_nonneg_iff div_less_mult)
  have y1: "y div 1000 \<le> 40" using div_less_mult [of 1000 y 41] y by simp
  have small: "x mod 10 \<le> 40" "x mod 2 ^ 4 div 10 \<le> 40" "x mod 2 ^ 5 div 10 \<le> 40"
    "0 \<le> x mod 10" "0 \<le> x mod 2 ^ 4 div 10" "0 \<le> x mod 2 ^ 5 div 10" for x :: int
  proof -
    have "x mod 10 < 10" by simp
    then show "x mod 10 \<le> 40" by linarith
    have "x mod 2 ^ 4 < 10 * 41" "x mod 2 ^ 5 < 10 * 41"
      using pos_mod_bound [of "2 ^ 4" x] pos_mod_bound [of "2 ^ 5" x] by simp_all
    then show "x mod 2 ^ 4 div 10 \<le> 40" "x mod 2 ^ 5 div 10 \<le> 40"
      using div_less_mult [of 10 _ 41] by force+
  qed (simp_all add: pos_imp_zdiv_nonneg_iff)
  show ?thesis
    unfolding newdate_text_def Let_def v_def [symmetric] y_def [symmetric]
    using y(1) y1 small by (auto intro!: digit_byte simp: pos_imp_zdiv_nonneg_iff)
qed

lemma my_time_from_any:
  assumes "dec \<le> 6"
  shows "\<exists>s. my_time_to_str (TIME_from_longlong_time_packed i) dec = Inr s \<and> length s \<le> 18 \<and> plain s"
proof -
  let ?t = "TIME_from_longlong_time_packed i"
  have "year ?t = 0" "month ?t = 0" "day ?t = 0" "0 \<le> hour ?t" "hour ?t < 1024"
    by (simp_all add: TIME_from_longlong_time_packed_def Let_def)
  then obtain s where "my_time_to_str ?t dec = Inr s" "length s \<le> 18" "\<forall>c \<in> set s. time_char c"
    using my_time_to_str_ok [OF assms] by metis
  then show ?thesis using plain_time_chars by blast
qed

lemma temporal_texts_any:
  assumes "dec \<le> 6"
  shows "my_time_binary_length dec \<le> length b \<Longrightarrow> \<exists>s. time2_text dec b = Inr (s, my_time_binary_length dec) \<and> plain s"
    "my_datetime_binary_length dec \<le> length b \<Longrightarrow> \<exists>s. datetime2_text dec b = Inr (s, my_datetime_binary_length dec) \<and> plain s"
    "my_timestamp_binary_length dec \<le> length b \<Longrightarrow> \<exists>s. timestamp2_text dec b = Inr (s, my_timestamp_binary_length dec) \<and> plain s"
proof -
  show "my_time_binary_length dec \<le> length b \<Longrightarrow> \<exists>s. time2_text dec b = Inr (s, my_time_binary_length dec) \<and> plain s"
    using my_time_from_any [OF assms, of "my_time_packed_from_binary b dec"]
    by (auto simp: time2_text_def need_def stack_text_def MAX_DATE_STRING_REP_LENGTH_def)
  obtain s where "my_datetime_to_str (TIME_from_longlong_datetime_packed (my_datetime_packed_from_binary b dec)) dec = Inr s"
    "length s \<le> 26" by (rule my_datetime_to_str_ok [OF assms])
  then show "my_datetime_binary_length dec \<le> length b \<Longrightarrow> \<exists>s. datetime2_text dec b = Inr (s, my_datetime_binary_length dec) \<and> plain s"
    by (auto simp: datetime2_text_def need_def stack_text_def MAX_DATE_STRING_REP_LENGTH_def)
  obtain u where "my_timeval_to_str (my_timestamp_from_binary b dec) dec = Inr u"
    "length u \<le> 27" "\<forall>c \<in> set u. time_char c" by (rule my_timeval_to_str_ok [OF assms])
  then show "my_timestamp_binary_length dec \<le> length b \<Longrightarrow> \<exists>s. timestamp2_text dec b = Inr (s, my_timestamp_binary_length dec) \<and> plain s"
    using plain_time_chars by (auto simp: timestamp2_text_def need_def stack_text_def MAX_DATE_STRING_REP_LENGTH_def)
qed

lemma with_length_any:
  "n \<le> length b \<Longrightarrow> int n + ukorr n b \<le> int (length b) \<Longrightarrow>
     \<exists>s. with_length n b = Inr (s, nat (int n + ukorr n b)) \<and> plain s"
  using ukorr_range [of n b] by (simp add: with_length_def need_def Let_def nat_add_distrib add.commute)

text \<open>The text of the floating point types is a parameter; it has no control characters.\<close>

definition plain_floats :: "float_env \<Rightarrow> bool" where
  "plain_floats fe \<longleftrightarrow> (\<forall>b. plain (float_text fe b) \<and> plain (double_text fe b))"

named_theorems print_value_simps "the printer on each type"

lemma print_value_fixed [print_value_simps]:
  "log_event_print_value fe p MYSQL_TYPE_LONG meta = fixed_value ''INT'' 4 (int_text 4) p"
  "log_event_print_value fe p MYSQL_TYPE_TINY meta = fixed_value ''TINYINT'' 1 (int_text 1) p"
  "log_event_print_value fe p MYSQL_TYPE_SHORT meta = fixed_value ''SHORTINT'' 2 (int_text 2) p"
  "log_event_print_value fe p MYSQL_TYPE_INT24 meta = fixed_value ''MEDIUMINT'' 3 (int_text 3) p"
  "log_event_print_value fe p MYSQL_TYPE_LONGLONG meta = fixed_value ''LONGINT'' 8 longlong_text p"
  "log_event_print_value fe p MYSQL_TYPE_FLOAT meta = fixed_value ''FLOAT'' 4 (\<lambda>b. float_text fe (take 4 b)) p"
  "log_event_print_value fe p MYSQL_TYPE_DOUBLE meta = fixed_value ''DOUBLE'' 8 (\<lambda>b. double_text fe (take 8 b)) p"
  "log_event_print_value fe p MYSQL_TYPE_TIMESTAMP meta = fixed_value ''TIMESTAMP'' 4 (\<lambda>b. show_int (skorr 4 b)) p"
  "log_event_print_value fe p MYSQL_TYPE_DATETIME meta = fixed_value ''DATETIME'' 8 datetime_text p"
  "log_event_print_value fe p MYSQL_TYPE_TIME meta = fixed_value ''TIME'' 3 time_text p"
  "log_event_print_value fe p MYSQL_TYPE_NEWDATE meta = fixed_value ''DATE'' 3 newdate_text p"
  "log_event_print_value fe p MYSQL_TYPE_YEAR meta = fixed_value ''YEAR'' 1 (\<lambda>b. pad_int 4 (ukorr 1 b + 1900)) p"
  by (simp_all add: log_event_print_value_def)

lemma print_value_long [print_value_simps]:
  "log_event_print_value fe p MYSQL_TYPE_NEWDECIMAL meta =
     var_value (''DECIMAL('' @ show_dec (meta div 256) @ '','' @ show_dec (meta mod 256) @ '')'')
       (decimal_value_text (meta div 256) (meta mod 256)) p"
  "log_event_print_value fe p MYSQL_TYPE_TIMESTAMP2 meta = var_value (show_nat_arg ''TIMESTAMP'' meta) (timestamp2_text meta) p"
  "log_event_print_value fe p MYSQL_TYPE_DATETIME2 meta = var_value (show_nat_arg ''DATETIME'' meta) (datetime2_text meta) p"
  "log_event_print_value fe p MYSQL_TYPE_TIME2 meta = var_value (show_nat_arg ''TIME'' meta) (time2_text meta) p"
  "log_event_print_value fe p MYSQL_TYPE_VARCHAR meta =
     var_value (show_nat_arg ''VARSTRING'' meta) (\<lambda>b. my_b_write_quoted_with_length b meta) p"
  by (simp_all add: log_event_print_value_def)

lemma print_value_bits [print_value_simps]:
  "log_event_print_value fe p MYSQL_TYPE_BIT meta =
     (let nbits = meta div 256 * 8 + meta mod 256
      in fixed_value (show_nat_arg ''BIT'' nbits) ((nbits + 7) div 8) (\<lambda>b. my_b_write_bit b nbits) p)"
  "log_event_print_value fe p MYSQL_TYPE_SET meta =
     fixed_value (''SET('' @ show_dec (meta mod 256) @ '' bytes)'') (meta mod 256)
       (\<lambda>b. my_b_write_bit b (meta mod 256 * 8)) p"
  by (simp_all add: log_event_print_value_def)

lemma print_value_enum [print_value_simps]:
  "meta mod 256 = 1 \<Longrightarrow> log_event_print_value fe p MYSQL_TYPE_ENUM meta = fixed_value ''ENUM(1 byte)'' 1 (\<lambda>b. show_int (ukorr 1 b)) p"
  "meta mod 256 = 2 \<Longrightarrow> log_event_print_value fe p MYSQL_TYPE_ENUM meta = fixed_value ''ENUM(2 bytes)'' 2 (\<lambda>b. show_int (ukorr 2 b)) p"
  by (simp_all add: log_event_print_value_def)

lemma print_value_blob [print_value_simps]:
  assumes "1 \<le> meta" "meta \<le> 4"
  obtains ty where "log_event_print_value fe p MYSQL_TYPE_BLOB meta = var_value ty (with_length meta) p" "plain ty"
proof -
  have "meta = 1 \<or> meta = 2 \<or> meta = 3 \<or> meta = 4" using assms by arith
  then show thesis by (elim disjE) (rule that, simp add: log_event_print_value_def, simp)+
qed
 
lemma print_value_string [print_value_simps]:
  assumes "snd (string_meta meta) = MYSQL_TYPE_STRING" "fst (string_meta meta) < 256"
  shows "log_event_print_value fe p MYSQL_TYPE_STRING meta =
      var_value (show_nat_arg ''STRING'' (fst (string_meta meta))) (with_length 1) p"
  using assms
  by (simp add: log_event_print_value_def split_beta my_b_write_quoted_with_length_def var_value_def split: option.splits)

lemma calc_size_fixed [print_value_simps]:
  "calc_field_size MYSQL_TYPE_LONG meta b = Inr 4"
  "calc_field_size MYSQL_TYPE_TINY meta b = Inr 1"
  "calc_field_size MYSQL_TYPE_SHORT meta b = Inr 2"
  "calc_field_size MYSQL_TYPE_INT24 meta b = Inr 3"
  "calc_field_size MYSQL_TYPE_LONGLONG meta b = Inr 8"
  "calc_field_size MYSQL_TYPE_FLOAT meta b = Inr (int meta)"
  "calc_field_size MYSQL_TYPE_DOUBLE meta b = Inr (int meta)"
  "calc_field_size MYSQL_TYPE_TIMESTAMP meta b = Inr 4"
  "calc_field_size MYSQL_TYPE_DATETIME meta b = Inr 8"
  "calc_field_size MYSQL_TYPE_TIME meta b = Inr 3"
  "calc_field_size MYSQL_TYPE_NEWDATE meta b = Inr 3"
  "calc_field_size MYSQL_TYPE_YEAR meta b = Inr 1"
  "calc_field_size MYSQL_TYPE_TIME2 meta b = Inr (int (my_time_binary_length meta))"
  "calc_field_size MYSQL_TYPE_DATETIME2 meta b = Inr (int (my_datetime_binary_length meta))"
  "calc_field_size MYSQL_TYPE_TIMESTAMP2 meta b = Inr (int (my_timestamp_binary_length meta))"
  by (simp_all add: calc_field_size_def)

lemma calc_size_other [print_value_simps]:
  "calc_field_size MYSQL_TYPE_NEWDECIMAL meta b =
     and_then (decimal_bin_size (int (meta div 256)) (int (meta mod 256))) (\<lambda>n. Inr (uint_of n))"
  "calc_field_size MYSQL_TYPE_BIT meta b = Inr (int (meta div 256 mod 256 + (if meta mod 256 > 0 then 1 else 0)))"
  "calc_field_size MYSQL_TYPE_VARCHAR meta b =
     (if meta > 255 then need 2 b (Inr (2 + ukorr 2 b)) else need 1 b (Inr (1 + ukorr 1 b)))"
  by (simp_all add: calc_field_size_def)

lemma calc_size_string [print_value_simps]:
  "meta div 256 mod 256 \<notin> {MYSQL_TYPE_ENUM, MYSQL_TYPE_SET} \<Longrightarrow>
     calc_field_size MYSQL_TYPE_STRING meta b = need 1 b (Inr (1 + ukorr 1 b))"
  by (simp add: calc_field_size_def add.commute)

lemma calc_size_enum [print_value_simps]:
  "meta div 256 mod 256 = t \<Longrightarrow> t \<in> {MYSQL_TYPE_ENUM, MYSQL_TYPE_SET} \<Longrightarrow>
     calc_field_size t meta b = Inr (int (meta mod 256))"
  by (elim insertE emptyE) (simp_all add: calc_field_size_def)

lemma calc_size_blob [print_value_simps]:
  "1 \<le> meta \<Longrightarrow> meta \<le> 4 \<Longrightarrow>
     calc_field_size MYSQL_TYPE_BLOB meta b = need meta b (Inr (uint_of (ukorr meta b + int meta)))"
  by (simp add: calc_field_size_def)

lemma decimal_bin_size_bounds:
  assumes p: "0 < precision" "precision \<le> 65" "scale \<le> precision"
    and z: "decimal_bin_size (int precision) (int scale) = Inr z"
  shows "0 < z" "z < 100"
proof -
  have d: "dec_bytes x = Inr (groups9 x * 4 + int (dig_bytes (odd9 x)))" if "0 \<le> x" for x
    using odd9_range [OF that] by (simp add: dec_bytes_def dig2bytes_ok)
  have b: "0 \<le> groups9 x * 4 + int (dig_bytes (odd9 x)) \<and> groups9 x * 4 + int (dig_bytes (odd9 x)) < 50 \<and>
      (0 < x \<longrightarrow> 0 < groups9 x * 4 + int (dig_bytes (odd9 x)))" if "0 \<le> x" "x \<le> 65" for x
  proof -
    have g: "groups9 x = x div 9" "odd9 x = x mod 9" using that by (simp_all add: groups9_odd9)
    have q: "0 \<le> x div 9" "x div 9 \<le> 7" using that by (simp_all add: pos_imp_zdiv_nonneg_iff)
    have e: "dig_bytes 0 = 0" by (simp add: dig_bytes_def)
    show ?thesis
    proof (cases "x mod 9 = 0")
      case True
      then have "0 < x div 9" if "0 < x" using that \<open>0 \<le> x\<close> by (metis div_mult_mod_eq add.right_neutral mult_zero_left less_le q(1))
      then show ?thesis using q True by (auto simp: g e)
    next
      case False
      then have "0 < x mod 9" "x mod 9 \<le> 9" using pos_mod_bound [of 9 x] pos_mod_sign [of 9 x] by linarith+
      then show ?thesis using dig_bytes_pos [of "x mod 9"] q by (auto simp: g)
    qed
  qed
  define iw where "iw = int precision - int scale"
  have iw: "0 \<le> iw" "iw \<le> 65" "0 \<le> int scale" "int scale \<le> 65" "0 < iw \<or> 0 < int scale"
    using p by (auto simp: iw_def)
  have "z = groups9 iw * 4 + int (dig_bytes (odd9 iw)) + (groups9 (int scale) * 4 + int (dig_bytes (odd9 (int scale))))"
    using z d [OF iw(1)] d [OF iw(3)] by (simp add: decimal_bin_size_def iw_def [symmetric])
  then show "0 < z" "z < 100" using b [OF iw(1,2)] b [OF iw(3,4)] iw(5) by linarith+
qed

text \<open>What the printer has to do for a value.\<close>

definition prints :: "pvalue res \<Rightarrow> int \<Rightarrow> bool" where
  "prints r n \<longleftrightarrow> (\<exists>s ty. r = Inr (pv s (nat n) ty) \<and> plain s \<and> plain ty) \<and> 0 < n"

lemma prints_fixed:
  "0 < n \<Longrightarrow> n \<le> length b \<Longrightarrow> plain (f b) \<Longrightarrow> plain ty \<Longrightarrow> prints (fixed_value ty n f (Some b)) (int n)"
  by (auto simp: prints_def fixed_value_def need_def)

lemma prints_long:
  "f b = Inr (s, nat n) \<Longrightarrow> plain s \<Longrightarrow> 0 < n \<Longrightarrow> plain ty \<Longrightarrow> prints (var_value ty f (Some b)) n"
  by (auto simp: prints_def var_value_def)

lemma prints_string:
  assumes "calc = need k b (Inr (int k + ukorr k b))" "calc = Inr n" "n \<le> int (length b)" "0 < k" "plain ty"
  shows "prints (var_value ty (with_length k) (Some b)) n"
proof -
  have n: "k \<le> length b" "n = int k + ukorr k b" using assms(1,2) by (auto simp: need_def split: if_splits)
  obtain s where "with_length k b = Inr (s, nat (int k + ukorr k b))" "plain s"
    using with_length_any [OF n(1)] assms(3) n(2) by auto
  then show ?thesis using prints_long [of "with_length k" b s n ty] n(2) assms(4,5) ukorr_range [of k b] by simp
qed

text \<open>The length of a \<open>LONGBLOB\<close> and the four bytes that hold it do not fit 32 bits.\<close>

definition wraps :: "nat \<Rightarrow> nat \<Rightarrow> string \<Rightarrow> bool" where
  "wraps t meta b \<longleftrightarrow> t = MYSQL_TYPE_BLOB \<and> meta = 4 \<and> 2 ^ 32 \<le> ukorr 4 b + 4"

lemma print_value_decimal_any:
  assumes p: "0 < meta div 256" "meta div 256 \<le> 65" "meta mod 256 \<le> meta div 256"
    and n: "calc_field_size MYSQL_TYPE_NEWDECIMAL meta b = Inr n" "n \<le> int (length b)"
  shows "prints (log_event_print_value fe (Some b) MYSQL_TYPE_NEWDECIMAL meta) n"
proof -
  obtain z where z: "decimal_bin_size (int (meta div 256)) (int (meta mod 256)) = Inr z" "n = uint_of z"
    using n(1) unfolding print_value_simps by (auto elim!: and_then_eq_InrE)
  note zb = decimal_bin_size_bounds [OF p z(1)]
  then have nz: "n = z" using z(2) by simp
  obtain s where s: "decimal_value_text (meta div 256) (meta mod 256) b = Inr (s, nat z)" "\<forall>c \<in> set s. time_char c"
    using decimal_value_text_any [OF p z(1)] n(2) nz by blast
  show ?thesis unfolding print_value_simps nz
    by (rule prints_long, rule s(1), rule plain_time_chars [OF s(2)], rule zb(1), simp)
qed

lemma print_value_bit_any:
  assumes m: "0 < meta" "meta < 65536" "meta mod 256 \<le> 7"
    and n: "calc_field_size MYSQL_TYPE_BIT meta b = Inr n" "n \<le> int (length b)"
  shows "prints (log_event_print_value fe (Some b) MYSQL_TYPE_BIT meta) n"
proof -
  define q r where "q = meta div 256" and "r = meta mod 256"
  have qr: "r \<le> 7" "q < 256" using m by (auto simp: q_def r_def less_mult_imp_div_less)
  have m0: "q \<noteq> 0 \<or> r \<noteq> 0" using m(1) by (metis q_def r_def div_mod_decomp mult_0 add_0 less_numeral_extra(3))
  have w: "(q * 8 + r + 7) div 8 = q + (if r > 0 then 1 else 0)" using qr(1) by auto
  have nn: "n = int (q + (if r > 0 then 1 else 0))" using n(1) qr(2)
    unfolding print_value_simps q_def r_def by simp
  show ?thesis unfolding print_value_simps q_def [symmetric] r_def [symmetric] Let_def w nn
    by (rule prints_fixed) (use m0 n(2) nn in \<open>auto simp: show_nat_arg_def\<close>)
qed

lemma print_value_any:
  assumes ok: "column_ok t meta" and fe: "plain_floats fe"
    and n: "calc_field_size t meta b = Inr n" "n \<le> int (length b)" and w: "\<not> wraps t meta b"
  shows "prints (log_event_print_value fe (Some b) t meta) n"
proof -
  consider (dec) "t = MYSQL_TYPE_NEWDECIMAL" | (str) "t = MYSQL_TYPE_STRING"
    | (flt) "t \<in> {MYSQL_TYPE_FLOAT, MYSQL_TYPE_DOUBLE}"
    | (bit) "t = MYSQL_TYPE_BIT" | (enum) "t = MYSQL_TYPE_ENUM" | (set) "t = MYSQL_TYPE_SET"
    | (tmp) "t \<in> {MYSQL_TYPE_TIME2, MYSQL_TYPE_DATETIME2, MYSQL_TYPE_TIMESTAMP2}"
    | (blob) "t = MYSQL_TYPE_BLOB" | (vc) "t = MYSQL_TYPE_VARCHAR"
    | (num) "t \<in> {MYSQL_TYPE_LONG, MYSQL_TYPE_TINY, MYSQL_TYPE_SHORT, MYSQL_TYPE_INT24,
                MYSQL_TYPE_LONGLONG, MYSQL_TYPE_TIMESTAMP, MYSQL_TYPE_DATETIME, MYSQL_TYPE_TIME,
                MYSQL_TYPE_NEWDATE, MYSQL_TYPE_YEAR}"
    using ok unfolding column_ok_def by (auto split: if_splits)
  then show ?thesis
  proof cases
    case dec
    show ?thesis unfolding dec
      by (rule print_value_decimal_any) (use ok n in \<open>simp_all add: column_ok_def dec\<close>)
  next
    case str
    have m: "snd (string_meta meta) = MYSQL_TYPE_STRING" "fst (string_meta meta) < 256"
      "meta div 256 mod 256 \<notin> {MYSQL_TYPE_ENUM, MYSQL_TYPE_SET}"
      using ok str by (simp_all add: column_ok_def)
    have e: "calc_field_size t meta b = need 1 b (Inr (int 1 + ukorr 1 b))"
      unfolding str using calc_size_string [OF m(3)] by simp
    show ?thesis unfolding str print_value_string [OF m(1,2)]
      by (rule prints_string [OF e n]) (simp_all add: show_nat_arg_def)
  next
    case flt
    then show ?thesis
    proof (elim insertE emptyE)
      assume t: "t = MYSQL_TYPE_FLOAT"
      then have "meta = 4" using ok by (simp add: column_ok_def)
      then show ?thesis using n fe prints_fixed [of 4 b] unfolding t print_value_simps by (simp add: plain_floats_def)
    next
      assume t: "t = MYSQL_TYPE_DOUBLE"
      then have "meta = 8" using ok by (simp add: column_ok_def)
      then show ?thesis using n fe prints_fixed [of 8 b] unfolding t print_value_simps by (simp add: plain_floats_def)
    qed
  next
    case bit
    show ?thesis unfolding bit
      by (rule print_value_bit_any) (use ok n in \<open>simp_all add: column_ok_def bit\<close>)
  next
    case enum
    then have m: "meta div 256 = MYSQL_TYPE_ENUM" "meta mod 256 = 1 \<or> meta mod 256 = 2" using ok by (simp_all add: column_ok_def)
    then have "n = int (meta mod 256)" using n(1) calc_size_enum [of meta t] unfolding enum by simp
    then show ?thesis using m(2) n(2) prints_fixed [of 1 b] prints_fixed [of 2 b]
      unfolding enum by (elim disjE) (simp_all add: print_value_enum)
  next
    case set
    then have m: "meta div 256 = MYSQL_TYPE_SET" "0 < meta mod 256" using ok by (simp_all add: column_ok_def)
    then have "n = int (meta mod 256)" using n(1) calc_size_enum [of meta t] unfolding set by simp
    then show ?thesis using m(2) n(2) prints_fixed [of "meta mod 256" b]
      unfolding set print_value_simps by simp
  next
    case tmp
    then have d: "meta \<le> 6" using ok by (elim insertE emptyE) (simp_all add: column_ok_def)
    note any = temporal_texts_any [OF d, of b]
    have l: "0 < my_time_binary_length meta" "0 < my_datetime_binary_length meta" "0 < my_timestamp_binary_length meta"
      by (simp_all add: my_time_binary_length_def my_datetime_binary_length_def my_timestamp_binary_length_def)
    show ?thesis using tmp
    proof (elim insertE emptyE)
      assume t: "t = MYSQL_TYPE_TIME2"
      obtain s where "time2_text meta b = Inr (s, my_time_binary_length meta)" "plain s"
        using any(1) n unfolding t print_value_simps by auto
      then show ?thesis using n(1) l unfolding t print_value_simps by (intro prints_long) (auto simp: show_nat_arg_def)
    next
      assume t: "t = MYSQL_TYPE_DATETIME2"
      obtain s where "datetime2_text meta b = Inr (s, my_datetime_binary_length meta)" "plain s"
        using any(2) n unfolding t print_value_simps by auto
      then show ?thesis using n(1) l unfolding t print_value_simps by (intro prints_long) (auto simp: show_nat_arg_def)
    next
      assume t: "t = MYSQL_TYPE_TIMESTAMP2"
      obtain s where "timestamp2_text meta b = Inr (s, my_timestamp_binary_length meta)" "plain s"
        using any(3) n unfolding t print_value_simps by auto
      then show ?thesis using n(1) l unfolding t print_value_simps by (intro prints_long) (auto simp: show_nat_arg_def)
    qed
  next
    case blob
    then have m: "1 \<le> meta" "meta \<le> 4" using ok by (simp_all add: column_ok_def)
    have m8: "meta * 8 \<le> 32" using m by simp
    obtain ty where p: "log_event_print_value fe (Some b) t meta = var_value ty (with_length meta) (Some b)" "plain ty"
      unfolding blob by (rule print_value_blob [OF m])
    have u: "meta \<le> length b" "n = uint_of (ukorr meta b + int meta)"
      using n(1) unfolding blob calc_size_blob [OF m] by (auto simp: need_def split: if_splits)
    have "ukorr meta b + int meta < 2 ^ 32"
    proof (cases "meta = 4")
      case True
      then show ?thesis using w blob by (simp add: wraps_def)
    next
      case False
      then have "ukorr meta b < 256 ^ 3"
        using ukorr_range(2) [of meta b] power_increasing [of meta 3 "256::int"] m by linarith
      then show ?thesis using m by simp
    qed
    then have "n = int meta + ukorr meta b" using u(2) ukorr_range(1) [of meta b] by simp
    then have "need meta b (Inr (int meta + ukorr meta b)) = Inr n" using u(1) by (simp add: need_def)
    then show ?thesis unfolding p(1) using prints_string [OF refl _ n(2)] m(1) p(2) by simp
  next
    case vc
    have e: "calc_field_size t meta b = need (if meta > 255 then 2 else 1) b (Inr (int (if meta > 255 then 2 else 1)
        + ukorr (if meta > 255 then 2 else 1) b))"
      unfolding vc print_value_simps by simp
    have p: "log_event_print_value fe (Some b) t meta =
        var_value (show_nat_arg ''VARSTRING'' meta) (with_length (if meta > 255 then 2 else 1)) (Some b)"
      unfolding vc print_value_simps by (simp add: my_b_write_quoted_with_length_def var_value_def)
    show ?thesis unfolding p by (rule prints_string [OF e n]) (simp_all add: show_nat_arg_def)
  next
    case num
    have "prints (fixed_value ty k f (Some b)) n" if "n = int k" "0 < k" "plain (f b)" "plain ty" for ty k f
      using prints_fixed [of k b f ty] that n(2) by simp
    then show ?thesis using num n(1)
      by (elim insertE emptyE) (simp_all only: print_value_fixed calc_size_fixed sum.inject,
          simp_all add: add.commute)
  qed
qed

text \<open>A null prints as such, whatever the type.\<close>

lemma print_null_any:
  assumes ok: "column_ok t meta"
  shows "\<exists>ty. log_event_print_value fe None t meta = Inr (pv ''NULL'' 1 ty) \<and> plain ty"
proof -
  have f: "\<exists>ty'. fixed_value ty n f None = Inr (pv ''NULL'' 1 ty') \<and> plain ty'" if "plain ty" for ty n f
    using that by (auto simp: fixed_value_def)
  have l: "\<exists>ty'. var_value ty f None = Inr (pv ''NULL'' 1 ty') \<and> plain ty'" if "plain ty" for ty f
    using that by (auto simp: var_value_def)

  consider (str) "t = MYSQL_TYPE_STRING" | (enum) "t = MYSQL_TYPE_ENUM" | (blob) "t = MYSQL_TYPE_BLOB"
    | (other) "t \<in> {MYSQL_TYPE_NEWDECIMAL, MYSQL_TYPE_FLOAT, MYSQL_TYPE_DOUBLE, MYSQL_TYPE_BIT, MYSQL_TYPE_SET,
        MYSQL_TYPE_TIME2, MYSQL_TYPE_DATETIME2, MYSQL_TYPE_TIMESTAMP2, MYSQL_TYPE_VARCHAR, MYSQL_TYPE_LONG,
        MYSQL_TYPE_TINY, MYSQL_TYPE_SHORT, MYSQL_TYPE_INT24, MYSQL_TYPE_LONGLONG, MYSQL_TYPE_TIMESTAMP,
        MYSQL_TYPE_DATETIME, MYSQL_TYPE_TIME, MYSQL_TYPE_NEWDATE, MYSQL_TYPE_YEAR}"
    using ok unfolding column_ok_def by (auto split: if_splits)
  then show ?thesis
  proof cases
    case str
    then have m: "snd (string_meta meta) = MYSQL_TYPE_STRING" "fst (string_meta meta) < 256"
      using ok by (simp_all add: column_ok_def)
    show ?thesis unfolding str print_value_string [OF m] by (rule l) (simp add: show_nat_arg_def)
  next
    case enum
    then have "meta mod 256 = 1 \<or> meta mod 256 = 2" using ok by (simp add: column_ok_def)
    then show ?thesis unfolding enum
      by (elim disjE; simp only: print_value_enum) (rule f, simp)+
  next
    case blob
    then have m: "1 \<le> meta" "meta \<le> 4" using ok by (simp_all add: column_ok_def)
    obtain ty where "log_event_print_value fe None MYSQL_TYPE_BLOB meta = var_value ty (with_length meta) None" "plain ty"
      by (rule print_value_blob [OF m])
    then show ?thesis unfolding blob using l by metis
  next
    case other
    then show ?thesis
      by (elim insertE emptyE; hypsubst; unfold print_value_fixed print_value_long print_value_bits Let_def)
        (rule f l, simp add: show_nat_arg_def)+
  qed
qed

section \<open>The bytes behind a value\<close>

text \<open>A computation that gives the same result where the first one gives one.\<close>

definition extends :: "'a res \<Rightarrow> 'a res \<Rightarrow> bool" where
  "extends m m' \<longleftrightarrow> (\<forall>v. m = Inr v \<longrightarrow> m' = Inr v)"

named_theorems extends_intro "the bytes behind a value do not count"

lemma extends_refl [extends_intro]: "extends m m" by (simp add: extends_def)

lemma extends_if [extends_intro]:
  "extends a a' \<Longrightarrow> extends b b' \<Longrightarrow> extends (if P then a else b) (if P then a' else b')"
  by (simp add: extends_def)

lemma extends_need [extends_intro]: "(n \<le> length b \<Longrightarrow> extends x x') \<Longrightarrow> extends (need n b x) (need n (b @ r) x')"
  by (auto simp: extends_def need_def)

lemma extends_fixed:
  "(n \<le> length b \<Longrightarrow> f (b @ r) = f b) \<Longrightarrow> extends (fixed_value ty n f (Some b)) (fixed_value ty n f (Some (b @ r)))"
  by (auto simp: extends_def fixed_value_def need_def)

lemma extends_long:
  "(\<And>x. f b = Inr x \<Longrightarrow> f (b @ r) = Inr x) \<Longrightarrow> extends (var_value ty f (Some b)) (var_value ty f (Some (b @ r)))"
  by (auto simp: extends_def var_value_def elim!: and_then_eq_InrE)

lemma ukorr_append [simp]: "n \<le> length b \<Longrightarrow> ukorr n (b @ r) = ukorr n b"
  by (simp add: ukorr_def)

lemma skorr_append [simp]: "n \<le> length b \<Longrightarrow> skorr n (b @ r) = skorr n b"
  by (simp add: skorr_def)

lemma int_text_append: "n \<le> length b \<Longrightarrow> int_text n (b @ r) = int_text n b"
  by (simp add: int_text_def)

lemma texts_append:
  "8 \<le> length b \<Longrightarrow> longlong_text (b @ r) = longlong_text b"
  "8 \<le> length b \<Longrightarrow> datetime_text (b @ r) = datetime_text b"
  "3 \<le> length b \<Longrightarrow> time_text (b @ r) = time_text b"
  "3 \<le> length b \<Longrightarrow> newdate_text (b @ r) = newdate_text b"
  "3 \<le> length b \<Longrightarrow> date_text (b @ r) = date_text b"
  by (simp_all add: longlong_text_def datetime_text_def time_text_def newdate_text_def date_text_def)

lemma my_b_write_bit_append:
  "(n + 7) div 8 \<le> length b \<Longrightarrow> my_b_write_bit (b @ r) n = my_b_write_bit b n"
  by (simp add: my_b_write_bit_def Let_def nth_append less_mult_imp_div_less) 

lemma with_length_append: "with_length n b = Inr x \<Longrightarrow> with_length n (b @ r) = Inr x"
  by (auto simp: with_length_def need_def Let_def split: if_splits)

lemma temporal_append:
  "time2_text dec b = Inr x \<Longrightarrow> time2_text dec (b @ r) = Inr x"
  "datetime2_text dec b = Inr x \<Longrightarrow> datetime2_text dec (b @ r) = Inr x"
  "timestamp2_text dec b = Inr x \<Longrightarrow> timestamp2_text dec (b @ r) = Inr x"
  by (auto simp: time2_text_def datetime2_text_def timestamp2_text_def need_def my_time_packed_from_binary_append
      my_datetime_packed_from_binary_append my_timestamp_from_binary_append split: if_splits)

lemma copy_flipped_append:
  assumes "copy_flipped b n = Inr d"
  shows "copy_flipped (b @ r) n = Inr d" "bin_mask (b @ r) = bin_mask b"
proof -
  have n: "0 < n" "n \<le> int (length b)" using assms by (auto simp: copy_flipped_def split: if_splits)
  then have "b \<noteq> []" "nat n \<le> length b" by auto
  then show "copy_flipped (b @ r) n = Inr d" "bin_mask (b @ r) = bin_mask b"
    using assms n by (auto simp: copy_flipped_def bin_mask_def neq_Nil_conv)
qed

lemma bin2decimal_append: "bin2decimal b p s = Inr x \<Longrightarrow> bin2decimal (b @ r) p s = Inr x"
proof -
  assume a: "bin2decimal b p s = Inr x"
  then obtain n d where nd: "decimal_bin_size p s = Inr n" "copy_flipped b n = Inr d"
    unfolding bin2decimal_def by (elim and_then_eq_InrE) blast
  note c = copy_flipped_append [OF nd(2), of r]
  show ?thesis using a unfolding bin2decimal_def nd(1) and_then_Inr c nd(2) .
qed

lemma decimal_value_text_append:
  "decimal_value_text p s b = Inr x \<Longrightarrow> decimal_value_text p s (b @ r) = Inr x"
proof -
  assume a: "decimal_value_text p s b = Inr x"
  then obtain d where "bin2decimal b (int p) (int s) = Inr d"
    unfolding decimal_value_text_def by (elim and_then_eq_InrE) blast
  with a bin2decimal_append [OF this, of r] show ?thesis unfolding decimal_value_text_def by simp
qed

lemma string_append:
  "my_b_write_quoted_with_length b n = Inr x \<Longrightarrow> my_b_write_quoted_with_length (b @ r) n = Inr x"
  using with_length_append by (auto simp: my_b_write_quoted_with_length_def split: if_splits)

text \<open>The bytes behind a value do not count.\<close>

lemma print_value_extends:
  "extends (log_event_print_value fe (Some b) t meta) (log_event_print_value fe (Some (b @ r)) t meta)"
  unfolding log_event_print_value_def Let_def split_beta
  by (intro extends_if extends_refl extends_fixed extends_long)
    (simp_all add: int_text_append texts_append my_b_write_bit_append with_length_append temporal_append
      decimal_value_text_append string_append)

lemma calc_field_size_extends:
  "extends (calc_field_size t meta b) (calc_field_size t meta (b @ r))"
  unfolding calc_field_size_def
  by (intro extends_if extends_refl extends_need) (simp_all add: extends_refl)

lemmas print_value_append = print_value_extends [unfolded extends_def, rule_format]
lemmas calc_field_size_append = calc_field_size_extends [unfolded extends_def, rule_format]

section \<open>A value that prints fits\<close>

lemma fixed_value_fits: "fixed_value ty n f (Some b) = Inr v \<Longrightarrow> n \<le> length b"
  by (auto simp: fixed_value_def need_def split: if_splits)

lemma need_fits: "need n b x = Inr y \<Longrightarrow> n \<le> length b"
  by (auto simp: need_def split: if_splits)

lemma var_value_inner: "var_value ty f (Some b) = Inr v \<Longrightarrow> \<exists>x. f b = Inr x"
  by (auto simp: var_value_def elim!: and_then_eq_InrE)

lemma with_length_fits: "with_length k b = Inr x \<Longrightarrow> int k + ukorr k b \<le> int (length b)"
  using ukorr_range(1) [of k b] by (auto simp: with_length_def need_def Let_def split: if_splits)

lemma decimal_value_text_fits:
  "decimal_value_text p s b = Inr x \<Longrightarrow> decimal_bin_size (int p) (int s) = Inr z \<Longrightarrow> z \<le> int (length b)"
  by (auto simp: decimal_value_text_def bin2decimal_def copy_flipped_def split: if_splits elim!: and_then_eq_InrE)

lemma print_value_fits:
  assumes ok: "column_ok t meta" and n: "calc_field_size t meta b = Inr n"
    and v: "log_event_print_value fe (Some b) t meta = Inr v" and len: "length b < 2 ^ 32"
  shows "n \<le> int (length b) \<and> \<not> wraps t meta b"
proof -
  consider (dec) "t = MYSQL_TYPE_NEWDECIMAL" | (str) "t = MYSQL_TYPE_STRING"
    | (bit) "t = MYSQL_TYPE_BIT" | (enum) "t = MYSQL_TYPE_ENUM" | (set) "t = MYSQL_TYPE_SET"
    | (tm) "t = MYSQL_TYPE_TIME2" | (dt) "t = MYSQL_TYPE_DATETIME2" | (ts) "t = MYSQL_TYPE_TIMESTAMP2"
    | (blob) "t = MYSQL_TYPE_BLOB" | (vc) "t = MYSQL_TYPE_VARCHAR"
    | (num) "t \<in> {MYSQL_TYPE_FLOAT, MYSQL_TYPE_DOUBLE, MYSQL_TYPE_LONG, MYSQL_TYPE_TINY, MYSQL_TYPE_SHORT, MYSQL_TYPE_INT24,
                MYSQL_TYPE_LONGLONG, MYSQL_TYPE_TIMESTAMP, MYSQL_TYPE_DATETIME, MYSQL_TYPE_TIME,
                MYSQL_TYPE_NEWDATE, MYSQL_TYPE_YEAR}"
    using ok unfolding column_ok_def by (auto split: if_splits)
  then show ?thesis
  proof cases
    case dec
    obtain z where z: "decimal_bin_size (int (meta div 256)) (int (meta mod 256)) = Inr z" "n = uint_of z"
      using n unfolding dec print_value_simps by (auto elim!: and_then_eq_InrE)
    have p: "0 < meta div 256" "meta div 256 \<le> 65" "meta mod 256 \<le> meta div 256"
      using ok dec by (simp_all add: column_ok_def)
    have "n = z" using decimal_bin_size_bounds [OF p z(1)] z(2) by simp
    moreover obtain x where "decimal_value_text (meta div 256) (meta mod 256) b = Inr x"
      using var_value_inner v unfolding dec print_value_simps by blast
    ultimately show ?thesis using decimal_value_text_fits z(1) dec by (auto simp: wraps_def)
  next
    case str
    have m: "snd (string_meta meta) = MYSQL_TYPE_STRING" "fst (string_meta meta) < 256"
      "meta div 256 mod 256 \<notin> {MYSQL_TYPE_ENUM, MYSQL_TYPE_SET}"
      using ok str by (simp_all add: column_ok_def)
    obtain x where "with_length 1 b = Inr x"
      using var_value_inner v unfolding str print_value_string [OF m(1,2)] by blast
    moreover have "n = 1 + ukorr 1 b"
      using n unfolding str calc_size_string [OF m(3)] by (auto simp: need_def split: if_splits)
    ultimately show ?thesis using with_length_fits str by (fastforce simp: wraps_def)
  next
    case bit
    define q r where "q = meta div 256" and "r = meta mod 256"
    have qr: "r \<le> 7" "q < 256" using ok bit by (auto simp: column_ok_def q_def r_def less_mult_imp_div_less)
    have w: "(q * 8 + r + 7) div 8 = q + (if r > 0 then 1 else 0)" using qr(1) by auto
    have nn: "n = int (q + (if r > 0 then 1 else 0))" using n qr(2)
      unfolding bit print_value_simps q_def r_def by simp
    show ?thesis using v fixed_value_fits unfolding bit print_value_simps q_def [symmetric] r_def [symmetric] Let_def w nn
      by (fastforce simp: wraps_def)
  next
    case enum
    then have m: "meta div 256 = MYSQL_TYPE_ENUM" "meta mod 256 = 1 \<or> meta mod 256 = 2" using ok by (simp_all add: column_ok_def)
    then have "n = int (meta mod 256)" using n calc_size_enum [of meta t] unfolding enum by simp
    then show ?thesis using m(2) v fixed_value_fits enum
      by (elim disjE) (fastforce simp: print_value_enum wraps_def)+
  next
    case set
    then have m: "meta div 256 = MYSQL_TYPE_SET" "0 < meta mod 256" using ok by (simp_all add: column_ok_def)
    then have "n = int (meta mod 256)" using n calc_size_enum [of meta t] unfolding set by simp
    then show ?thesis using v fixed_value_fits set unfolding set print_value_simps by (fastforce simp: wraps_def)
  next
    case tm
    obtain x where "time2_text meta b = Inr x" using var_value_inner v unfolding tm print_value_simps by blast
    then show ?thesis using n tm need_fits unfolding tm print_value_simps time2_text_def by (fastforce simp: wraps_def)
  next
    case dt
    obtain x where "datetime2_text meta b = Inr x" using var_value_inner v unfolding dt print_value_simps by blast
    then show ?thesis using n dt need_fits unfolding dt print_value_simps datetime2_text_def by (fastforce simp: wraps_def)
  next
    case ts
    obtain x where "timestamp2_text meta b = Inr x" using var_value_inner v unfolding ts print_value_simps by blast
    then show ?thesis using n ts need_fits unfolding ts print_value_simps timestamp2_text_def by (fastforce simp: wraps_def)
  next
    case blob
    then have m: "1 \<le> meta" "meta \<le> 4" using ok by (simp_all add: column_ok_def)
    obtain ty where p: "log_event_print_value fe (Some b) t meta = var_value ty (with_length meta) (Some b)"
      unfolding blob by (rule print_value_blob [OF m])
    obtain x where "with_length meta b = Inr x" using var_value_inner v unfolding p by blast
    then have f: "int meta + ukorr meta b \<le> int (length b)" by (rule with_length_fits)
    moreover have "int (length b) < 2 ^ 32" using len by simp
    moreover have "n = uint_of (ukorr meta b + int meta)"
      using n unfolding blob calc_size_blob [OF m] by (auto simp: need_def split: if_splits)
    ultimately show ?thesis using ukorr_range(1) [of meta b] by (auto simp: wraps_def)
  next
    case vc
    define k where "k = (if meta > 255 then 2 else 1 :: nat)"
    have "log_event_print_value fe (Some b) t meta = var_value (show_nat_arg ''VARSTRING'' meta) (with_length k) (Some b)"
      unfolding vc print_value_simps by (simp add: my_b_write_quoted_with_length_def var_value_def k_def)
    then obtain x where "with_length k b = Inr x" using var_value_inner v by metis
    then have "int k + ukorr k b \<le> int (length b)" by (rule with_length_fits)
    moreover have "n = int k + ukorr k b"
      using n unfolding vc print_value_simps by (auto simp: k_def need_def split: if_splits)
    ultimately show ?thesis using vc by (simp add: wraps_def)
  next
    case num
    then have "t = MYSQL_TYPE_FLOAT \<longrightarrow> meta = 4" "t = MYSQL_TYPE_DOUBLE \<longrightarrow> meta = 8" using ok by (auto simp: column_ok_def)
    then show ?thesis using num n v
      by (elim insertE emptyE; simp only: print_value_fixed calc_size_fixed sum.inject)
        (drule fixed_value_fits, force simp: wraps_def)+
  qed
qed

text \<open>A complete value does not wrap.\<close>

lemma exact_not_wraps: "calc_field_size t meta b = Inr (int (length b)) \<Longrightarrow> \<not> wraps t meta b"
proof
  assume e: "calc_field_size t meta b = Inr (int (length b))" and "wraps t meta b"
  then have w: "t = MYSQL_TYPE_BLOB" "meta = 4" "2 ^ 32 \<le> ukorr 4 b + 4" by (simp_all add: wraps_def)
  have "4 \<le> length b" "int (length b) = uint_of (ukorr 4 b + 4)"
    using e unfolding w(1,2) calc_size_blob [of 4 b, simplified] by (auto simp: need_def split: if_splits)
  moreover have "(ukorr 4 b + 4 - 2 ^ 32) mod 2 ^ 32 = ukorr 4 b + 4 - 2 ^ 32"
    using ukorr_range(2) [of 4 b] w(3) by (intro mod_pos_pos_trivial) simp_all
  ultimately show False using ukorr_range(2) [of 4 b] minus_mod_self2 [of "ukorr 4 b + 4" "2 ^ 32"]
    by (simp add: uint_of_def)
qed

section \<open>The property, and where the readers disagree\<close>

text \<open>C23: A value of a supported column whose length, as \<open>calc_field_size\<close> gives it, fits the rows prints without a fault
  or an error, over exactly that length, and its text has no control character, so no line of the output ends
  inside a value. Supported (\<open>column_ok\<close>) are the types that this printer knows with the metadata of a server, apart from
  fixed strings of 256 bytes or more; and the bytes are any but those of a \<open>LONGBLOB\<close> whose length is within 4 of
  2 to the 32 (\<open>wraps\<close>). For both exceptions the two functions disagree: \<open>long_char_sizes_differ\<close>,
  \<open>longblob_wraps\<close>.\<close>

theorem print_value_total:
  assumes "column_ok t meta" "plain_floats fe" "calc_field_size t meta b = Inr n" "n \<le> int (length b)"
    and "\<not> wraps t meta b"
  shows "0 < n \<and> (\<exists>s ty. log_event_print_value fe (Some b) t meta = Inr (pv s (nat n) ty) \<and> plain s)"
  using print_value_any [OF assms] by (auto simp: prints_def)

theorem print_value_total_witness:
  "\<exists>s ty. log_event_print_value \<lparr> float_text = \<lambda>_. ''1'', double_text = \<lambda>_. ''1'' \<rparr> (Some [CHR 0x02, CHR 0x0A, CHR 0x00, CHR 0x41])
      MYSQL_TYPE_VARCHAR 20 = Inr (pv s 3 ty) \<and> plain s"
proof -
  have "column_ok MYSQL_TYPE_VARCHAR 20" "\<not> wraps MYSQL_TYPE_VARCHAR 20 [CHR 0x02, CHR 0x0A, CHR 0x00, CHR 0x41]"
    by (simp_all add: column_ok_def wraps_def)
  moreover have "plain_floats \<lparr> float_text = \<lambda>_. ''1'', double_text = \<lambda>_. ''1'' \<rparr>" by (simp add: plain_floats_def)
  moreover have "calc_field_size MYSQL_TYPE_VARCHAR 20 [CHR 0x02, CHR 0x0A, CHR 0x00, CHR 0x41] = Inr 3"
    by (simp add: calc_field_size_def need_def ukorr_def)
  ultimately show ?thesis using print_value_total by fastforce
qed

text \<open>The printer and \<open>calc_field_size\<close> disagree on the length bytes of strings of 256 bytes or
  more (\<open>CHAR(100)\<close> with three bytes to a character): the check against the end of the rows counts
  4 bytes, the printer wants 772.\<close>

lemma long_char_sizes_differ:
  "calc_field_size MYSQL_TYPE_STRING 0xEE2C [CHR 0x03, CHR 0x03, CHR 0x61, CHR 0x62] = Inr 4"
  "log_event_print_value fe (Some [CHR 0x03, CHR 0x03, CHR 0x61, CHR 0x62]) MYSQL_TYPE_STRING 0xEE2C
     = Inl (Out_of_bounds ''m_rows_buf'')"
proof -
  show "calc_field_size MYSQL_TYPE_STRING 0xEE2C [CHR 0x03, CHR 0x03, CHR 0x61, CHR 0x62] = Inr 4"
    by (simp add: calc_field_size_def need_def ukorr_def)
  have m: "string_meta 0xEE2C = (300, 254)" by (simp add: string_meta_def)
  have u: "ukorr 2 [CHR 0x03, CHR 0x03, CHR 0x61, CHR 0x62] = 771" by (simp add: ukorr_def eval_nat_numeral)
  show "log_event_print_value fe (Some [CHR 0x03, CHR 0x03, CHR 0x61, CHR 0x62]) MYSQL_TYPE_STRING 0xEE2C
     = Inl (Out_of_bounds ''m_rows_buf'')"
    by (simp add: log_event_print_value_def m var_value_def my_b_write_quoted_with_length_def with_length_def
        need_def u)
qed

text \<open>The length of a \<open>LONGBLOB\<close> wraps: the size counts 3 bytes, the printer reads 4 GB.\<close>

lemma longblob_wraps:
  "calc_field_size MYSQL_TYPE_BLOB 4 (replicate 4 (CHR 0xFF)) = Inr 3"
  "log_event_print_value fe (Some (replicate 4 (CHR 0xFF))) MYSQL_TYPE_BLOB 4 = Inl (Out_of_bounds ''m_rows_buf'')"
proof -
  have u: "ukorr 4 (replicate 4 (CHR 0xFF)) = 4294967295" by code_simp
  show "calc_field_size MYSQL_TYPE_BLOB 4 (replicate 4 (CHR 0xFF)) = Inr 3"
    by (simp add: calc_field_size_def need_def u uint_of_def)
  show "log_event_print_value fe (Some (replicate 4 (CHR 0xFF))) MYSQL_TYPE_BLOB 4 = Inl (Out_of_bounds ''m_rows_buf'')"
    by (simp add: log_event_print_value_def var_value_def with_length_def need_def u)
qed

text \<open>More than six digits of a second, which no check of the metadata excludes, index a table of
  powers below its start.\<close>

lemma fraction_digits_unchecked:
  "log_event_print_value fe (Some (replicate 9 (CHR 0x80))) MYSQL_TYPE_DATETIME2 7 = Inl (Out_of_bounds ''log_10_int'')"
  by code_simp

end
