(* ===== verification/Row_Printer.thy ===== *)
theory Row_Printer
  imports Value_Size Event_Printer
begin

text \<open>
  Row events in text: \<open>print_verbose_one_row\<close> and \<open>print_verbose\<close> of \<open>Rows_log_event\<close>
  (\<open>sql/log_event.cc\<close>), which print each row as lines that begin with \<open>###\<close>, over the table
  definition of the table map that the event names. The bytes of the rows are the string \<open>re_rows\<close>, a
  pointer into them is an offset, and \<open>re_rows_addr\<close> is their address, which counts where the sum of
  a pointer and a length may wrap around. Reading behind the rows or the bit maps is
  \<open>Out_of_bounds\<close>. The rows are printed, not skipped (\<open>no_fill_output\<close> is true for flashback only).
\<close>

section \<open>Data\<close>

record table_map =
  tm_table_id :: int
  tm_flags :: int
  tm_dbnam :: string
  tm_tblnam :: string
  tm_coltype :: "nat list"
  tm_field_metadata :: "nat list"
  tm_null_bits :: "nat list"

definition create_table_def :: "table_map \<Rightarrow> table_def res" where
  "create_table_def tm = new_table_def (tm_coltype tm) (tm_field_metadata tm) (tm_null_bits tm)"

text \<open>The general type of a rows event; the versions and the compressed ones share it.\<close>

datatype row_kind = Write_rows | Delete_rows | Update_rows

record rows_event =
  re_kind :: row_kind
  re_table_id :: int
  re_cols :: "bool list"
  re_cols_ai :: "bool list"
  re_rows :: string
  re_rows_addr :: int
  re_extra :: "string option"

section \<open>One row image\<close>

text \<open>What the function returns: the bytes it went over, or 0, with what was reported then.\<close>

datatype row_end = Row_value nat | Row_failed "diag option"

definition null_bit :: "string \<Rightarrow> nat \<Rightarrow> nat \<Rightarrow> bool res" where
  "null_bit rows null_bits idx =
     (let p = null_bits + idx div 8
      in if p < length rows then Inr (odd (ubyte (rows ! p) div 2 ^ (idx mod 8)))
         else Inl (Out_of_bounds ''null_bits''))"

definition bitmap_is_set :: "bool list \<Rightarrow> nat \<Rightarrow> bool res" where
  "bitmap_is_set cols i = (if i < length cols then Inr (cols ! i) else Inl (Out_of_bounds ''m_cols''))"

definition bitmap_bits_set :: "bool list \<Rightarrow> nat" where
  "bitmap_bits_set cols = length (filter id cols)"

text \<open>\<open>value + fsize > m_rows_end\<close> with addresses of 32 bits.\<close>

definition past_end :: "int \<Rightarrow> nat \<Rightarrow> nat \<Rightarrow> int \<Rightarrow> bool" where
  "past_end addr len value fsize \<longleftrightarrow> addr + int len < (addr + int value + fsize) mod 2 ^ 32"

definition column_head :: "nat \<Rightarrow> string" where
  "column_head i = ''###   @'' @ show_dec (i + 1) @ ''=''"

definition corrupted_text :: string where
  "corrupted_text = ''***Corrupted replication event was detected. Not printing the value***'' @ [NL]"

definition field_size :: "table_def \<Rightarrow> nat \<Rightarrow> string \<Rightarrow> int res" where
  "field_size td i b = calc_field_size (td_type td i) (m_field_metadata td ! i) b"

definition print_field :: "float_env \<Rightarrow> table_def \<Rightarrow> nat \<Rightarrow> string option \<Rightarrow> pvalue res" where
  "print_field fe td i p = log_event_print_value fe p (td_type td i) (field_metadata td i)"

text \<open>The comment behind a value with \<open>--verbose\<close> given twice.\<close>

definition row_comment :: "nat \<Rightarrow> table_def \<Rightarrow> nat \<Rightarrow> string \<Rightarrow> bool \<Rightarrow> string" where
  "row_comment vb td i typestr is_null =
     (if vb > 1 then
        '' /* '' @ typestr @ '' meta='' @ show_dec (field_metadata td i)
        @ '' nullable='' @ (if maybe_null td i then ''1'' else ''0'')
        @ '' is_null='' @ (if is_null then ''1'' else ''0'') @ '' */''
      else [])"

text \<open>The loop over the columns, from the pointers \<open>value\<close> and \<open>null_bits\<close> and the index of the
  next null bit. The null bit is read before the bit map of the columns is looked at.\<close>

fun print_columns ::
  "(nat \<Rightarrow> string \<Rightarrow> int res) \<Rightarrow> (nat \<Rightarrow> string option \<Rightarrow> pvalue res) \<Rightarrow> (nat \<Rightarrow> string \<Rightarrow> bool \<Rightarrow> string)
    \<Rightarrow> bool list \<Rightarrow> string \<Rightarrow> int \<Rightarrow> nat \<Rightarrow> nat list \<Rightarrow> nat \<Rightarrow> nat \<Rightarrow> (string \<times> row_end) res" where
  "print_columns sz pr cm cols rows addr null_bits [] value idx = Inr ([], Row_value value)"
| "print_columns sz pr cm cols rows addr null_bits (i # is) value idx =
     and_then (null_bit rows null_bits idx) (\<lambda>is_null.
     and_then (bitmap_is_set cols i) (\<lambda>set.
     if \<not> set then print_columns sz pr cm cols rows addr null_bits is value idx
     else
       and_then (if is_null then Inr False
                 else and_then (sz i (drop value rows)) (\<lambda>fsize. Inr (past_end addr (length rows) value fsize)))
         (\<lambda>corrupted.
       if corrupted then Inr (column_head i @ corrupted_text, Row_failed None)
       else and_then (pr i (if is_null then None else Some (drop value rows))) (\<lambda>v.
         if pv_size v = 0 then Inr (column_head i @ pv_text v, Row_failed (pv_diag v))
         else and_then (print_columns sz pr cm cols rows addr null_bits is
                          (if is_null then value else value + pv_size v) (idx + 1)) (\<lambda>(s, e).
              Inr (column_head i @ pv_text v @ cm i (pv_typestr v) is_null @ NL # s, e))))))"

definition print_verbose_one_row ::
  "float_env \<Rightarrow> nat \<Rightarrow> table_def \<Rightarrow> rows_event \<Rightarrow> bool list \<Rightarrow> nat \<Rightarrow> string \<Rightarrow> (string \<times> row_end) res" where
  "print_verbose_one_row fe vb td ev cols value pre =
     and_then (print_columns (field_size td) (print_field fe td) (row_comment vb td) cols (re_rows ev)
                 (re_rows_addr ev) value [0..<td_size td] (value + (bitmap_bits_set cols + 7) div 8) 0)
       (\<lambda>(s, e). Inr (pre @ s, case e of Row_value v \<Rightarrow> Row_value (v - value) | Row_failed d \<Rightarrow> Row_failed d))"

section \<open>One row\<close>

fun sql_command :: "row_kind \<Rightarrow> string" where
  "sql_command Write_rows = ''INSERT INTO''"
| "sql_command Delete_rows = ''DELETE FROM''"
| "sql_command Update_rows = ''UPDATE''"

fun sql_clause1 :: "row_kind \<Rightarrow> string" where
  "sql_clause1 Write_rows = ''### SET'' @ [NL]"
| "sql_clause1 Delete_rows = ''### WHERE'' @ [NL]"
| "sql_clause1 Update_rows = ''### WHERE'' @ [NL]"

fun sql_clause2 :: "row_kind \<Rightarrow> string option" where
  "sql_clause2 Update_rows = Some (''### SET'' @ [NL])"
| "sql_clause2 _ = None"

text \<open>A row of the event: its header, the first image, for an update the second. A length of 0 is an
  error. \<open>quoted\<close> is the format \<open>%`s\<close>.\<close>

definition table_text :: "(string \<Rightarrow> string) \<Rightarrow> table_map \<Rightarrow> string" where
  "table_text quoted tm = quoted (tm_dbnam tm) @ ''.'' @ quoted (tm_tblnam tm)"

definition image_end :: "(string \<times> row_end) res \<Rightarrow> (string \<Rightarrow> nat \<Rightarrow> (string \<times> row_end) res) \<Rightarrow> (string \<times> row_end) res" where
  "image_end r k =
     and_then r (\<lambda>(s, e). case e of
         Row_failed d \<Rightarrow> Inr (s, Row_failed d)
       | Row_value n \<Rightarrow> if n = 0 then Inr (s, Row_failed None) else k s n)"

definition print_row ::
  "float_env \<Rightarrow> (string \<Rightarrow> string) \<Rightarrow> nat \<Rightarrow> table_map \<Rightarrow> table_def \<Rightarrow> rows_event \<Rightarrow> nat \<Rightarrow> (string \<times> row_end) res" where
  "print_row fe quoted vb tm td ev value =
     (let head = ''### '' @ sql_command (re_kind ev) @ '' '' @ table_text quoted tm @ [NL]
      in image_end (print_verbose_one_row fe vb td ev (re_cols ev) value (head @ sql_clause1 (re_kind ev))) (\<lambda>s n.
         case sql_clause2 (re_kind ev) of
           None \<Rightarrow> Inr (s, Row_value n)
         | Some c \<Rightarrow>
             image_end (print_verbose_one_row fe vb td ev (re_cols_ai ev) (value + n) (s @ c)) (\<lambda>t m.
               Inr (t, Row_value (n + m)))))"

lemma print_row_progress: "print_row fe quoted vb tm td ev value = Inr (s, Row_value n) \<Longrightarrow> 0 < n"
  by (auto simp: print_row_def image_end_def Let_def split: row_end.splits if_splits option.splits elim!: and_then_eq_InrE)

section \<open>The rows of an event\<close>

text \<open>The loop over the rows: the text, how many rows it began, whether it failed and what was
  reported.\<close>

function print_rows ::
  "float_env \<Rightarrow> (string \<Rightarrow> string) \<Rightarrow> nat \<Rightarrow> table_map \<Rightarrow> table_def \<Rightarrow> rows_event \<Rightarrow> nat
    \<Rightarrow> (string \<times> nat \<times> diag option option) res" where
  "print_rows fe quoted vb tm td ev value =
     (if value < length (re_rows ev) then
        and_then (print_row fe quoted vb tm td ev value) (\<lambda>(s, e). case e of
            Row_failed d \<Rightarrow> Inr (s, 1, Some d)
          | Row_value n \<Rightarrow> and_then (print_rows fe quoted vb tm td ev (value + n)) (\<lambda>(t, k, r).
              Inr (s @ t, k + 1, r)))
      else Inr ([], 0, None))"
  by pat_completeness auto
termination
  by (relation "measure (\<lambda>(fe, q, vb, tm, td, ev, value). length (re_rows ev) - value)")
    (auto dest!: print_row_progress)

declare print_rows.simps [simp del]

text \<open>Extra row data: its length, a format byte, the payload in hexadecimal digits.\<close>

definition HEX_digit :: "nat \<Rightarrow> char" where
  "HEX_digit d = (if d < 10 then digit_char d else char_of (55 + d))"

definition str_to_hex :: "string \<Rightarrow> string" where
  "str_to_hex s =
     (if s = [] then [CHR 0x22, CHR 0x22]
      else ''X'' @ QUOTE # concat (map (\<lambda>c. [HEX_digit (of_char c div 16), HEX_digit (of_char c mod 16)]) s) @ [QUOTE])"

definition extra_text :: "string option \<Rightarrow> string res" where
  "extra_text ex = (case ex of
       None \<Rightarrow> Inr []
     | Some d \<Rightarrow>
         (case d of
            n # fmt # payload \<Rightarrow>
              let len = nat ((ubyte n - 2) mod 256)
              in if length payload < len then Inl (Out_of_bounds ''m_extra_row_data'')
                 else Inr (''### Extra row data format: '' @ show_dec (nat (ubyte fmt)) @ '', len: '' @ show_dec len
                    @ '' :'' @ (if len \<noteq> 0 then str_to_hex (take len payload) else []) @ [NL])
          | _ \<Rightarrow> Inl (Out_of_bounds ''m_extra_row_data'')))"

definition print_verbose ::
  "float_env \<Rightarrow> (string \<Rightarrow> string) \<Rightarrow> nat \<Rightarrow> (int \<Rightarrow> table_map option) \<Rightarrow> rows_event
    \<Rightarrow> (string \<times> nat \<times> diag option option) res" where
  "print_verbose fe quoted vb tables ev =
     and_then (extra_text (re_extra ev)) (\<lambda>x.
       case tables (re_table_id ev) of
         None \<Rightarrow> Inr (x @ ''### Row event for unknown table #'' @ show_dec (nat (uint_of (re_table_id ev))), 0, None)
       | Some tm \<Rightarrow>
           and_then (create_table_def tm) (\<lambda>td.
             if re_kind ev = Write_rows \<and> re_rows ev = [] then
               Inr (x @ ''### INSERT INTO '' @ table_text quoted tm @ '' VALUES ()'' @ [NL], 0, None)
             else and_then (print_rows fe quoted vb tm td ev 0) (\<lambda>(s, k, r). Inr (x @ s, k, r))))"

section \<open>The interface of the two readers of a value\<close>

text \<open>What the loop over the columns relies on: a value of a supported column that fits prints over the
  bytes that its size counts, without a control character; the bytes behind it do not count; a null
  prints as one.\<close>

locale column_printer =
  fixes sz :: "nat \<Rightarrow> string \<Rightarrow> int res"
    and pr :: "nat \<Rightarrow> string option \<Rightarrow> pvalue res"
    and cm :: "nat \<Rightarrow> string \<Rightarrow> bool \<Rightarrow> string"
    and sup :: "nat \<Rightarrow> bool"
  assumes exact: "sup i \<Longrightarrow> sz i b = Inr (int (length b)) \<Longrightarrow> prints (pr i (Some b)) (int (length b))"
    and total: "sup i \<Longrightarrow> sz i b = Inr n \<Longrightarrow> length b < 2 ^ 32 \<Longrightarrow> pr i (Some b) = Inr v \<Longrightarrow> prints (pr i (Some b)) n"
    and sz_append: "sz i b = Inr n \<Longrightarrow> sz i (b @ r) = Inr n"
    and pr_append: "pr i (Some b) = Inr v \<Longrightarrow> pr i (Some (b @ r)) = Inr v"
    and pr_null: "sup i \<Longrightarrow> \<exists>ty. pr i None = Inr (pv ''NULL'' 1 ty) \<and> plain ty"
    and cm_plain: "plain ty \<Longrightarrow> plain (cm i ty is_null)"

text \<open>The line of a column, the bytes of its value, and when they are a value of the column.\<close>

definition column_line ::
  "(nat \<Rightarrow> string option \<Rightarrow> pvalue res) \<Rightarrow> (nat \<Rightarrow> string \<Rightarrow> bool \<Rightarrow> string) \<Rightarrow> nat \<Rightarrow> string option \<Rightarrow> string" where
  "column_line pr cm i v =
     (case pr i v of
        Inl _ \<Rightarrow> []
      | Inr p \<Rightarrow> column_head i @ pv_text p @ cm i (pv_typestr p) (v = None))"

definition image_bytes :: "string option list \<Rightarrow> string" where
  "image_bytes vs = concat (map (\<lambda>v. case v of None \<Rightarrow> [] | Some b \<Rightarrow> b) vs)"

definition is_value :: "(nat \<Rightarrow> string \<Rightarrow> int res) \<Rightarrow> nat \<Rightarrow> string option \<Rightarrow> bool" where
  "is_value sz i v = (case v of None \<Rightarrow> True | Some b \<Rightarrow> sz i b = Inr (int (length b)))"

definition nulls_ok :: "string \<Rightarrow> nat \<Rightarrow> nat \<Rightarrow> string option list \<Rightarrow> bool" where
  "nulls_ok rows p idx vs \<longleftrightarrow> (\<forall>k < length vs. null_bit rows p (idx + k) = Inr (vs ! k = None))"

lemma plain_column_head [simp]: "plain (column_head i)"
  by (simp add: column_head_def)

lemma past_end_fits:
  "0 \<le> addr \<Longrightarrow> addr + int len < 2 ^ 32 \<Longrightarrow> 0 \<le> f \<Longrightarrow> int at + f \<le> int len \<Longrightarrow> \<not> past_end addr len at f"
proof -
  assume a: "0 \<le> addr" "addr + int len < 2 ^ 32" "0 \<le> f" "int at + f \<le> int len"
  then have "(addr + int at + f) mod 2 ^ 32 = addr + int at + f" by (intro mod_pos_pos_trivial) linarith+
  then show ?thesis using a by (simp add: past_end_def)
qed

lemma past_end_exact:
  "0 \<le> addr \<Longrightarrow> addr + int len < 2 ^ 32 \<Longrightarrow> 0 \<le> f \<Longrightarrow> addr + int at + f < 2 ^ 32 \<Longrightarrow>
     past_end addr len at f \<longleftrightarrow> int len < int at + f"
  by (simp add: past_end_def)

text \<open>A line of a column.\<close>

definition row_line :: "string \<Rightarrow> bool" where
  "row_line l \<longleftrightarrow> (\<exists>i s. l = column_head i @ s \<and> plain s)"

lemma row_line_corrupted:
  "row_line (column_head i @ ''***Corrupted replication event was detected. Not printing the value***'')"
proof -
  have "plain ''***Corrupted replication event was detected. Not printing the value***''" by simp
  then show ?thesis unfolding row_line_def by blast
qed

context column_printer
begin

lemma value_printed:
  assumes "sup i" "sz i b = Inr (int (length b))"
  obtains s ty where "\<And>r. pr i (Some (b @ r)) = Inr (pv s (length b) ty)" "plain s" "plain ty" "b \<noteq> []"
proof -
  have "prints (pr i (Some b)) (int (length b))" by (rule exact [OF assms])
  then obtain s ty where s: "pr i (Some b) = Inr (pv s (length b) ty)" "plain s" "plain ty" "b \<noteq> []"
    by (auto simp: prints_def)
  show thesis by (rule that [OF pr_append [OF s(1)] s(2-4)])
qed

lemma image_printed:
  assumes cols: "\<forall>i \<in> set js. i < length cols" and len: "length vs = length (filter ((!) cols) js)"
    and vals: "list_all2 (\<lambda>i v. sup i \<and> is_value sz i v) (filter ((!) cols) js) vs"
    and nulls: "nulls_ok rows p idx vs"
    and last: "(\<forall>i \<in> set js. cols ! i) \<or> (\<exists>x. null_bit rows p (idx + length vs) = Inr x)"
    and bytes: "drop at rows = image_bytes vs @ rest" "at \<le> length rows"
    and addr: "0 \<le> addr" "addr + int (length rows) < 2 ^ 32"
  shows "print_columns sz pr cm cols rows addr p js at idx =
    Inr (lines_nl (map2 (column_line pr cm) (filter ((!) cols) js) vs), Row_value (at + length (image_bytes vs)))"
  using assms(1-7)
proof (induction js arbitrary: vs at idx)
  case Nil
  then show ?case by (simp add: image_bytes_def)
next
  case (Cons i js)
  have i: "bitmap_is_set cols i = Inr (cols ! i)" using Cons.prems(1) by (simp add: bitmap_is_set_def)
  show ?case
  proof (cases "cols ! i")
    case False
    then obtain x where "null_bit rows p idx = Inr x"
    proof (cases "vs = []")
      case True
      then show thesis using that Cons.prems(5) False by auto
    next
      case ne: False
      then have "null_bit rows p (idx + 0) = Inr (vs ! 0 = None)" using Cons.prems(4) unfolding nulls_ok_def by blast
      then show thesis using that by simp
    qed
    then show ?thesis using False i Cons.IH [of vs idx at] Cons.prems by simp
  next
    case True
    then obtain v vs' where vs: "vs = v # vs'" using Cons.prems(2) by (cases vs) auto
    have v: "sup i" "is_value sz i v" and vals': "list_all2 (\<lambda>i v. sup i \<and> is_value sz i v) (filter ((!) cols) js) vs'"
      using Cons.prems(3) True by (simp_all add: vs)
    have nb: "null_bit rows p idx = Inr (v = None)" using Cons.prems(4) unfolding nulls_ok_def vs by fastforce
    have nulls': "nulls_ok rows p (idx + 1) vs'" unfolding nulls_ok_def
    proof (intro allI impI)
      fix k assume "k < length vs'"
      then have "Suc k < length vs" by (simp add: vs)
      then have "null_bit rows p (idx + Suc k) = Inr (vs ! Suc k = None)"
        using Cons.prems(4) unfolding nulls_ok_def by blast
      then show "null_bit rows p (idx + 1 + k) = Inr (vs' ! k = None)" by (simp add: vs)
    qed
    have IH: "print_columns sz pr cm cols rows addr p js at' (idx + 1) =
        Inr (lines_nl (map2 (column_line pr cm) (filter ((!) cols) js) vs'), Row_value (at' + length (image_bytes vs')))"
      if "drop at' rows = image_bytes vs' @ rest" "at' \<le> length rows" for at'
      using Cons.IH [of vs' "idx + 1" at'] Cons.prems that vals' nulls' True by (simp add: vs)
    show ?thesis
    proof (cases v)
      case None
      obtain ty where ty: "pr i None = Inr (pv ''NULL'' 1 ty)" using pr_null [OF v(1)] by blast
      then show ?thesis using IH [of at] Cons.prems(6,7) nb i True None
        by (simp add: vs image_bytes_def column_line_def pv_def)
    next
      case (Some b)
      have sz: "sz i b = Inr (int (length b))" using v(2) Some by (simp add: is_value_def)
      obtain s ty where pv: "\<And>r. pr i (Some (b @ r)) = Inr (pv s (length b) ty)" "b \<noteq> []"
        by (rule value_printed [OF v(1) sz]) blast
      have d: "drop at rows = b @ image_bytes vs' @ rest" using Cons.prems(6) by (simp add: vs Some image_bytes_def)
      then have l: "length b \<le> length rows - at" by (metis length_append length_drop le_add1)
      have d': "drop (at + length b) rows = image_bytes vs' @ rest" using d by (metis add.commute append_eq_conv_conj drop_drop)
      have pe: "\<not> past_end addr (length rows) at (int (length b))"
        using l Cons.prems(7) by (intro past_end_fits [OF addr]) auto
      have one: "pr i (Some b) = Inr (pv s (length b) ty)" using pv(1) [of "[]"] by simp
      show ?thesis using IH [OF d'] l Cons.prems(7) nb i True Some pv(2) pe sz_append [OF sz] pv(1) one
        by (simp add: vs d image_bytes_def column_line_def pv_def)
    qed
  qed
qed

lemma columns_are_lines:
  assumes "\<forall>i \<in> set js. sup i" and "length rows < 2 ^ 32"
    and "print_columns sz pr cm cols rows addr p js at idx = Inr (s, e)"
  shows "\<exists>ls. s = lines_nl ls \<and> (\<forall>l \<in> set ls. row_line l)"
  using assms(1,3)
proof (induction js arbitrary: at idx s e)
  case Nil
  then show ?case by (intro exI [of _ "[]"]) simp
next
  case (Cons i js)
  obtain isn st where b: "null_bit rows p idx = Inr isn" "bitmap_is_set cols i = Inr st"
    using Cons.prems(2) by (auto elim!: and_then_eq_InrE)
  show ?case
  proof (cases st)
    case False
    then show ?thesis using Cons b by simp
  next
    case True
    obtain bad where c: "(if isn then Inr False
        else and_then (sz i (drop at rows)) (\<lambda>fsize. Inr (past_end addr (length rows) at fsize))) = Inr bad"
      using Cons.prems(2) b True by (auto elim!: and_then_eq_InrE split: if_splits)
    show ?thesis
    proof (cases bad)
      case True
      then have "s = lines_nl [column_head i @ ''***Corrupted replication event was detected. Not printing the value***'']"
        using Cons.prems(2) b \<open>st\<close> c by (simp add: corrupted_text_def)
      then show ?thesis using row_line_corrupted by fastforce
    next
      case False
      then obtain v where v: "pr i (if isn then None else Some (drop at rows)) = Inr v"
        using Cons.prems(2) b \<open>st\<close> c by (auto elim!: and_then_eq_InrE)
      have pl: "plain (pv_text v) \<and> plain (pv_typestr v) \<and> pv_size v \<noteq> 0"
      proof (cases isn)
        case True
        then show ?thesis using pr_null [of i] Cons.prems(1) v by (auto simp: pv_def)
      next
        case False
        then obtain n where n: "sz i (drop at rows) = Inr n" using c by (auto elim!: and_then_eq_InrE)
        have "length (drop at rows) < 2 ^ 32" using assms(2) by simp
        then have "prints (pr i (Some (drop at rows))) n"
          using total [OF _ n] Cons.prems(1) v False by simp
        then show ?thesis using v False by (auto simp: prints_def pv_def)
      qed
      obtain t where t: "print_columns sz pr cm cols rows addr p js (if isn then at else at + pv_size v) (idx + 1) = Inr (t, e)"
        "s = column_head i @ pv_text v @ cm i (pv_typestr v) isn @ NL # t"
        using Cons.prems(2) b \<open>st\<close> c \<open>\<not> bad\<close> v pl by (auto elim!: and_then_eq_InrE)
      obtain ls where "t = lines_nl ls" "\<forall>l \<in> set ls. row_line l"
        using Cons.IH [OF _ t(1)] Cons.prems(1) by auto
      moreover have "row_line (column_head i @ pv_text v @ cm i (pv_typestr v) isn)"
        unfolding row_line_def using pl
        by (intro exI [of _ i] exI [of _ "pv_text v @ cm i (pv_typestr v) isn"]) (simp add: cm_plain)
      ultimately show ?thesis using t(2)
        by (intro exI [of _ "(column_head i @ pv_text v @ cm i (pv_typestr v) isn) # ls"]) simp
    qed
  qed
qed

end

section \<open>The interface on the model\<close>

text \<open>A column whose values the printer supports.\<close>

definition supported :: "float_env \<Rightarrow> table_def \<Rightarrow> nat \<Rightarrow> bool" where
  "supported fe td i \<longleftrightarrow> plain_floats fe \<and> field_metadata td i = m_field_metadata td ! i
     \<and> column_ok (td_type td i) (field_metadata td i)"

interpretation cp: column_printer "field_size td" "print_field fe td" "row_comment vb td" "supported fe td"
  for td fe vb
proof unfold_locales
  fix i b n v r
  show "supported fe td i \<Longrightarrow> field_size td i b = Inr (int (length b)) \<Longrightarrow>
      prints (print_field fe td i (Some b)) (int (length b))"
    unfolding supported_def field_size_def print_field_def
    using exact_not_wraps print_value_any [of _ "m_field_metadata td ! i"] by (metis order_refl)
  show "supported fe td i \<Longrightarrow> field_size td i b = Inr n \<Longrightarrow> length b < 2 ^ 32 \<Longrightarrow>
      print_field fe td i (Some b) = Inr v \<Longrightarrow> prints (print_field fe td i (Some b)) n"
    unfolding supported_def field_size_def print_field_def
    using print_value_fits print_value_any [of _ "m_field_metadata td ! i"] by metis
  show "field_size td i b = Inr n \<Longrightarrow> field_size td i (b @ r) = Inr n"
    unfolding field_size_def by (rule calc_field_size_append)
  show "print_field fe td i (Some b) = Inr v \<Longrightarrow> print_field fe td i (Some (b @ r)) = Inr v"
    unfolding print_field_def by (rule print_value_append)
  show "supported fe td i \<Longrightarrow> \<exists>ty. print_field fe td i None = Inr (pv ''NULL'' 1 ty) \<and> plain ty"
    unfolding supported_def print_field_def by (intro print_null_any) blast
next
  fix ty i is_null
  show "plain ty \<Longrightarrow> plain (row_comment vb td i ty is_null)" by (simp add: row_comment_def)
qed

section \<open>Rows that the server writes\<close>

text \<open>A row image: its null bits, and for each column of the bit map its value or null.\<close>

type_synonym image = "string \<times> string option list"

definition set_columns :: "table_def \<Rightarrow> bool list \<Rightarrow> nat list" where
  "set_columns td cols = filter ((!) cols) [0..<td_size td]"

definition image_ok :: "float_env \<Rightarrow> table_def \<Rightarrow> bool list \<Rightarrow> image \<Rightarrow> bool" where
  "image_ok fe td cols im \<longleftrightarrow>
     length cols = td_size td \<and> 0 < bitmap_bits_set cols \<and> length (fst im) = (bitmap_bits_set cols + 7) div 8
     \<and> nulls_ok (fst im) 0 0 (snd im)
     \<and> list_all2 (\<lambda>i v. supported fe td i \<and> is_value (field_size td) i v) (set_columns td cols) (snd im)
     \<and> (list_all id cols \<or> image_bytes (snd im) \<noteq> [])"

definition image_text :: "image \<Rightarrow> string" where
  "image_text im = fst im @ image_bytes (snd im)"

definition image_lines :: "float_env \<Rightarrow> nat \<Rightarrow> table_def \<Rightarrow> bool list \<Rightarrow> image \<Rightarrow> string list" where
  "image_lines fe vb td cols im =
     map2 (column_line (print_field fe td) (row_comment vb td)) (set_columns td cols) (snd im)"

lemma length_set_columns: "length cols = td_size td \<Longrightarrow> length (set_columns td cols) = bitmap_bits_set cols"
proof -
  assume l: "length cols = td_size td"
  have "map ((!) cols) (filter ((!) cols) [0..<length cols]) = filter id cols"
    using filter_map [of id "(!) cols" "[0..<length cols]"] by (simp add: map_nth comp_def)
  then show ?thesis unfolding set_columns_def bitmap_bits_set_def l [symmetric] by (metis length_map)
qed

lemma null_bit_within:
  "k div 8 < length nb \<Longrightarrow> null_bit (pre @ nb @ r) (length pre) k = null_bit nb 0 k"
  by (simp add: null_bit_def nth_append)

lemma image_lines_printed:
  assumes im: "image_ok fe td cols im" and rows: "re_rows ev = pre @ image_text im @ rest"
    and addr: "0 \<le> re_rows_addr ev" "re_rows_addr ev + int (length (re_rows ev)) < 2 ^ 32"
  shows "print_verbose_one_row fe vb td ev cols (length pre) h =
    Inr (h @ lines_nl (image_lines fe vb td cols im), Row_value (length (image_text im)))"
proof -
  note ok = im [unfolded image_ok_def]
  define n where "n = bitmap_bits_set cols"
  have len: "length (snd im) = length (set_columns td cols)" using ok list_all2_lengthD by fastforce
  then have n: "length (snd im) = n" using length_set_columns ok by (simp add: n_def)
  have nb: "length (fst im) = (n + 7) div 8" using ok by (simp add: n_def)
  have nulls: "nulls_ok (re_rows ev) (length pre) 0 (snd im)" unfolding nulls_ok_def
  proof (intro allI impI)
    fix k assume k: "k < length (snd im)"
    then have "k div 8 < length (fst im)" using n nb by linarith
    then have "null_bit (re_rows ev) (length pre) k = null_bit (fst im) 0 k"
      using null_bit_within [of k "fst im" pre "image_bytes (snd im) @ rest"] by (simp add: rows image_text_def)
    then show "null_bit (re_rows ev) (length pre) (0 + k) = Inr (snd im ! k = None)"
      using k ok unfolding nulls_ok_def by simp
  qed
  have last: "(\<forall>i \<in> set [0..<td_size td]. cols ! i) \<or> (\<exists>x. null_bit (re_rows ev) (length pre) (0 + length (snd im)) = Inr x)"
  proof (cases "list_all id cols")
    case True
    then show ?thesis using ok by (simp add: list_all_length)
  next
    case False
    then have "0 < length (image_bytes (snd im))" using ok by simp
    then have "n div 8 < length (fst im) + length (image_bytes (snd im))" using nb by linarith
    then show ?thesis unfolding n null_bit_def rows image_text_def by (simp add: Let_def)
  qed
  have "print_columns (field_size td) (print_field fe td) (row_comment vb td) cols (re_rows ev) (re_rows_addr ev)
      (length pre) [0..<td_size td] (length pre + length (fst im)) 0 =
    Inr (lines_nl (map2 (column_line (print_field fe td) (row_comment vb td)) (set_columns td cols) (snd im)),
      Row_value (length pre + length (fst im) + length (image_bytes (snd im))))"
    unfolding set_columns_def
  proof (rule cp.image_printed [where rest = rest])
    show "list_all2 (\<lambda>i v. supported fe td i \<and> is_value (field_size td) i v) (filter ((!) cols) [0..<td_size td]) (snd im)"
      using ok by (simp add: set_columns_def)
    show "length (snd im) = length (filter ((!) cols) [0..<td_size td])" using len by (simp add: set_columns_def)
  qed (use ok nulls last addr in \<open>simp_all add: rows image_text_def\<close>)
  then show ?thesis
    by (simp add: print_verbose_one_row_def nb n_def [symmetric] image_lines_def image_text_def)
qed

text \<open>A row: for an update, the image before and the one after.\<close>

definition row_ok :: "float_env \<Rightarrow> table_def \<Rightarrow> rows_event \<Rightarrow> image \<times> image option \<Rightarrow> bool" where
  "row_ok fe td ev r \<longleftrightarrow> image_ok fe td (re_cols ev) (fst r) \<and>
     (case snd r of
        None \<Rightarrow> re_kind ev \<noteq> Update_rows
      | Some im \<Rightarrow> re_kind ev = Update_rows \<and> image_ok fe td (re_cols_ai ev) im)"

definition row_text :: "image \<times> image option \<Rightarrow> string" where
  "row_text r = image_text (fst r) @ (case snd r of None \<Rightarrow> [] | Some im \<Rightarrow> image_text im)"

definition row_head :: "(string \<Rightarrow> string) \<Rightarrow> table_map \<Rightarrow> row_kind \<Rightarrow> string" where
  "row_head quoted tm k = ''### '' @ sql_command k @ '' '' @ table_text quoted tm"

definition clause1 :: "row_kind \<Rightarrow> string" where
  "clause1 k = (if k = Write_rows then ''### SET'' else ''### WHERE'')"

definition row_lines ::
  "float_env \<Rightarrow> (string \<Rightarrow> string) \<Rightarrow> nat \<Rightarrow> table_map \<Rightarrow> table_def \<Rightarrow> rows_event \<Rightarrow> image \<times> image option \<Rightarrow> string list" where
  "row_lines fe quoted vb tm td ev r =
     row_head quoted tm (re_kind ev) # clause1 (re_kind ev) # image_lines fe vb td (re_cols ev) (fst r)
     @ (case snd r of None \<Rightarrow> [] | Some im \<Rightarrow> ''### SET'' # image_lines fe vb td (re_cols_ai ev) im)"

lemma image_text_nonempty: "image_ok fe td cols im \<Longrightarrow> 0 < length (image_text im)"
  by (auto simp: image_ok_def image_text_def)

lemma row_text_nonempty: "row_ok fe td ev r \<Longrightarrow> 0 < length (row_text r)"
  using image_text_nonempty [of fe td "re_cols ev" "fst r"] by (simp add: row_ok_def row_text_def)

lemma clause_texts: "sql_clause1 k = clause1 k @ [NL]"
  by (cases k) (simp_all add: clause1_def)

lemma row_printed:
  assumes r: "row_ok fe td ev r" and rows: "re_rows ev = pre @ row_text r @ rest"
    and addr: "0 \<le> re_rows_addr ev" "re_rows_addr ev + int (length (re_rows ev)) < 2 ^ 32"
  shows "print_row fe quoted vb tm td ev (length pre) =
    Inr (lines_nl (row_lines fe quoted vb tm td ev r), Row_value (length (row_text r)))"
proof -
  note ok = r [unfolded row_ok_def]
  have a: "image_ok fe td (re_cols ev) (fst r)" using ok by simp
  have ra: "re_rows ev = pre @ image_text (fst r) @ (case snd r of None \<Rightarrow> [] | Some im \<Rightarrow> image_text im) @ rest"
    using rows by (simp add: row_text_def)
  note pa = image_lines_printed [OF a ra addr] and ne = image_text_nonempty [OF a]
  show ?thesis
  proof (cases "snd r")
    case None
    then have "sql_clause2 (re_kind ev) = None" using ok by (cases "re_kind ev") auto
    then show ?thesis using pa ne None
      by (simp add: print_row_def Let_def image_end_def row_lines_def row_head_def row_text_def clause_texts)
  next
    case (Some im)
    then have k: "re_kind ev = Update_rows" and b: "image_ok fe td (re_cols_ai ev) im" using ok by auto
    have rb: "re_rows ev = (pre @ image_text (fst r)) @ image_text im @ rest" using ra Some by simp
    note pb = image_lines_printed [OF b rb addr] and nb = image_text_nonempty [OF b]
    show ?thesis using pa pb ne nb Some k
      by (simp add: print_row_def Let_def image_end_def row_lines_def row_head_def row_text_def clause1_def)
  qed
qed

lemma rows_printed:
  assumes rs: "\<forall>r \<in> set rs. row_ok fe td ev r" and rows: "re_rows ev = pre @ concat (map row_text rs)"
    and addr: "0 \<le> re_rows_addr ev" "re_rows_addr ev + int (length (re_rows ev)) < 2 ^ 32"
  shows "print_rows fe quoted vb tm td ev (length pre) =
    Inr (lines_nl (concat (map (row_lines fe quoted vb tm td ev) rs)), length rs, None)"
  using rs rows
proof (induction rs arbitrary: pre)
  case Nil
  then show ?case by (simp add: print_rows.simps)
next
  case (Cons r rs)
  have ok: "row_ok fe td ev r" using Cons.prems(1) by simp
  have rw: "re_rows ev = pre @ row_text r @ concat (map row_text rs)" using Cons.prems(2) by simp
  note p = row_printed [OF ok rw addr]
  have l: "length pre < length (re_rows ev)" using rw row_text_nonempty [OF ok] by simp
  have IH: "print_rows fe quoted vb tm td ev (length pre + length (row_text r)) =
      Inr (lines_nl (concat (map (row_lines fe quoted vb tm td ev) rs)), length rs, None)"
    using Cons.IH [of "pre @ row_text r"] Cons.prems by simp
  show ?case using l p IH by (subst print_rows.simps) simp
qed

lemma print_verbose_rows:
  assumes "tables (re_table_id ev) = Some tm" "create_table_def tm = Inr td" "re_extra ev = None"
    and "rs \<noteq> []" "\<forall>r \<in> set rs. row_ok fe td ev r" "re_rows ev = concat (map row_text rs)"
    and "0 \<le> re_rows_addr ev" "re_rows_addr ev + int (length (re_rows ev)) < 2 ^ 32"
  shows "print_verbose fe quoted vb tables ev =
    Inr (lines_nl (concat (map (row_lines fe quoted vb tm td ev) rs)), length rs, None)"
proof -
  obtain r rs' where "rs = r # rs'" using assms(4) by (cases rs) auto
  then have "re_rows ev \<noteq> []" using assms(5,6) row_text_nonempty [of fe td ev r] by auto
  then show ?thesis using rows_printed [of rs fe td ev "[]" quoted vb tm] assms
    by (simp add: print_verbose_def extra_text_def)
qed

text \<open>C12: A rows event whose rows the server wrote for the columns of the table map, of types that the
  printer supports, prints each row once and in order: its header, the clause, and for each column
  of the bit map a line with the text of that value alone, for an update a second time; and as many
  rows are counted as the event holds.\<close>

theorem rows_event_printed:
  assumes "tables (re_table_id ev) = Some tm" "create_table_def tm = Inr td" "re_extra ev = None"
    and "rs \<noteq> []" "\<forall>r \<in> set rs. row_ok fe td ev r" "re_rows ev = concat (map row_text rs)"
    and "0 \<le> re_rows_addr ev" "re_rows_addr ev + int (length (re_rows ev)) < 2 ^ 32"
  shows "print_verbose fe quoted vb tables ev =
    Inr (lines_nl (concat (map (row_lines fe quoted vb tm td ev) rs)), length rs, None)"
  using assms by (rule print_verbose_rows)

definition demo_floats :: float_env where
  "demo_floats = \<lparr> float_text = \<lambda>_. ''1'', double_text = \<lambda>_. ''1'' \<rparr>"

definition demo_table :: table_map where
  "demo_table = \<lparr> tm_table_id = 7, tm_flags = 0, tm_dbnam = ''d'', tm_tblnam = ''t'',
     tm_coltype = [MYSQL_TYPE_LONG, MYSQL_TYPE_VARCHAR], tm_field_metadata = [20, 0], tm_null_bits = [2] \<rparr>"

definition demo_def :: table_def where
  "demo_def = \<lparr> m_type = [3, 15], m_field_metadata = [0, 20], m_field_metadata_size = 2, m_null_bits = [2] \<rparr>"

definition demo_rows :: "(image \<times> image option) list" where
  "demo_rows =
     [(([CHR 0x00], [Some [CHR 0x05, CHR 0x00, CHR 0x00, CHR 0x00], Some [CHR 0x02, CHR ''a'', CHR 0x0A]]), None),
      (([CHR 0x02], [Some [CHR 0xFF, CHR 0xFF, CHR 0xFF, CHR 0xFF], None]), None)]"

definition demo_rows_event :: rows_event where
  "demo_rows_event = \<lparr> re_kind = Write_rows, re_table_id = 7, re_cols = [True, True], re_cols_ai = [True, True],
     re_rows = concat (map row_text demo_rows), re_rows_addr = 4096, re_extra = None \<rparr>"

definition backquote :: "string \<Rightarrow> string" where
  "backquote s = CHR 0x60 # s @ [CHR 0x60]"

lemma demo_rows_ok:
  "create_table_def demo_table = Inr demo_def" "\<forall>r \<in> set demo_rows. row_ok demo_floats demo_def demo_rows_event r"
proof -
  show "create_table_def demo_table = Inr demo_def" by code_simp
  have p: "plain_floats demo_floats" by (simp add: plain_floats_def demo_floats_def)
  have "column_ok 3 0" "column_ok 15 20" by (simp_all add: column_ok_def)
  then have s: "supported demo_floats demo_def 0" "supported demo_floats demo_def 1"
    using p by (simp_all add: supported_def demo_def_def field_metadata_def td_type_def)
  have c: "set_columns demo_def [True, True] = [0, 1]" by code_simp
  have f: "is_value (field_size demo_def) 0 (Some [CHR 0x05, CHR 0x00, CHR 0x00, CHR 0x00])"
    "is_value (field_size demo_def) 0 (Some [CHR 0xFF, CHR 0xFF, CHR 0xFF, CHR 0xFF])"
    "is_value (field_size demo_def) 1 (Some [CHR 0x02, CHR ''a'', CHR 0x0A])" "is_value (field_size demo_def) 1 None"
    by code_simp+
  have n: "nulls_ok [CHR 0x00] 0 0 [Some a, Some b]" "nulls_ok [CHR 0x02] 0 0 [Some a, None]" for a b
    by (auto simp: nulls_ok_def null_bit_def less_Suc_eq numeral_2_eq_2)
  show "\<forall>r \<in> set demo_rows. row_ok demo_floats demo_def demo_rows_event r"
    using s c f n
    by (simp add: demo_rows_def demo_rows_event_def row_ok_def image_ok_def bitmap_bits_set_def demo_def_def td_size_def)
qed

lemma demo_rows_lines:
  "concat (map (row_lines demo_floats backquote 0 demo_table demo_def demo_rows_event) demo_rows) =
    [''### INSERT INTO `d`.`t`'', ''### SET'', ''###   @1=5'', ''###   @2='' @ my_b_write_quoted [CHR ''a'', CHR 0x0A],
            ''### INSERT INTO `d`.`t`'', ''### SET'', ''###   @1=-1 (4294967295)'', ''###   @2=NULL'']"
proof -
  have k: "skorr 4 [CHR 0xFF, CHR 0xFF, CHR 0xFF, CHR 0xFF] = -1" "ukorr 4 [CHR 0xFF, CHR 0xFF, CHR 0xFF, CHR 0xFF] = 4294967295"
    "skorr 4 [CHR 0x05, CHR 0x00, CHR 0x00, CHR 0x00] = 5" by code_simp+
  then have "int_text 4 [CHR 0xFF, CHR 0xFF, CHR 0xFF, CHR 0xFF] = ''-1 (4294967295)''"
    "int_text 4 [CHR 0x05, CHR 0x00, CHR 0x00, CHR 0x00] = ''5''"
    by (simp_all add: int_text_def my_b_write_sint32_and_uint32_def show_int_def show_dec.simps digit_chars)
  then have "column_line (print_field demo_floats demo_def) (row_comment 0 demo_def) 0 (Some [CHR 0xFF, CHR 0xFF, CHR 0xFF, CHR 0xFF])
      = ''###   @1=-1 (4294967295)''"
    "column_line (print_field demo_floats demo_def) (row_comment 0 demo_def) 0 (Some [CHR 0x05, CHR 0x00, CHR 0x00, CHR 0x00])
      = ''###   @1=5''"
    by (simp_all add: column_line_def print_field_def demo_def_def td_type_def field_metadata_def print_value_fixed
        fixed_value_def need_def pv_def column_head_def show_dec.simps digit_chars row_comment_def)
  moreover have "column_line (print_field demo_floats demo_def) (row_comment 0 demo_def) 1 (Some [CHR 0x02, CHR ''a'', CHR 0x0A])
      = ''###   @2='' @ my_b_write_quoted [CHR ''a'', CHR 0x0A]"
    "column_line (print_field demo_floats demo_def) (row_comment 0 demo_def) 1 None = ''###   @2=NULL''"
    "set_columns demo_def [True, True] = [0, 1]"
    "row_head backquote demo_table Write_rows = ''### INSERT INTO `d`.`t`''"
    by code_simp+
  ultimately show ?thesis
    by (simp add: demo_rows_def row_lines_def clause1_def image_lines_def demo_rows_event_def)
qed

theorem rows_event_printed_witness:
  "print_verbose demo_floats backquote 0 [7 \<mapsto> demo_table] demo_rows_event =
     Inr (lines_nl [''### INSERT INTO `d`.`t`'', ''### SET'', ''###   @1=5'', ''###   @2='' @ my_b_write_quoted [CHR ''a'', CHR 0x0A],
            ''### INSERT INTO `d`.`t`'', ''### SET'', ''###   @1=-1 (4294967295)'', ''###   @2=NULL''], 2, None)"
proof -
  have "length demo_rows = 2" "demo_rows \<noteq> []" by (simp_all add: demo_rows_def)
  moreover have "re_rows_addr demo_rows_event + int (length (re_rows demo_rows_event)) < 2 ^ 32" by code_simp
  moreover have "re_table_id demo_rows_event = 7" "re_extra demo_rows_event = None" "0 \<le> re_rows_addr demo_rows_event"
    "re_rows demo_rows_event = concat (map row_text demo_rows)"
    by (simp_all add: demo_rows_event_def)
  ultimately show ?thesis
    using rows_event_printed [of "[7 \<mapsto> demo_table]" demo_rows_event demo_table demo_def demo_rows demo_floats backquote 0]
      demo_rows_ok demo_rows_lines by simp
qed

section \<open>Any rows\<close>

text \<open>The lines of one row: its header, the clause, lines of columns; for an update perhaps the second
  clause with lines of columns.\<close>

definition row_block :: "(string \<Rightarrow> string) \<Rightarrow> table_map \<Rightarrow> row_kind \<Rightarrow> string list \<Rightarrow> bool" where
  "row_block quoted tm k b \<longleftrightarrow> (\<exists>cs ds. b = row_head quoted tm k # clause1 k # cs @ ds \<and> (\<forall>l \<in> set cs. row_line l)
     \<and> (ds = [] \<or> (k = Update_rows \<and> (\<exists>es. ds = ''### SET'' # es \<and> (\<forall>l \<in> set es. row_line l)))))"

lemma row_image_lines:
  assumes "\<forall>i < td_size td. supported fe td i" "length (re_rows ev) < 2 ^ 32"
    and "print_verbose_one_row fe vb td ev cols at h = Inr (s, e)"
  obtains ls where "s = h @ lines_nl ls" "\<forall>l \<in> set ls. row_line l"
proof -
  obtain t e' where t: "print_columns (field_size td) (print_field fe td) (row_comment vb td) cols (re_rows ev)
      (re_rows_addr ev) at [0..<td_size td] (at + (bitmap_bits_set cols + 7) div 8) 0 = Inr (t, e')" "s = h @ t"
    using assms(3) by (auto simp: print_verbose_one_row_def elim!: and_then_eq_InrE)
  have "\<forall>i \<in> set [0..<td_size td]. supported fe td i" using assms(1) by simp
  then show thesis using cp.columns_are_lines [OF _ assms(2) t(1)] t(2) that by blast
qed

lemma row_is_block:
  assumes sup: "\<forall>i < td_size td. supported fe td i" "length (re_rows ev) < 2 ^ 32"
    and p: "print_row fe quoted vb tm td ev at = Inr (s, e)"
  obtains b where "s = lines_nl b" "row_block quoted tm (re_kind ev) b"
proof -
  define h where "h = row_head quoted tm (re_kind ev) @ NL # clause1 (re_kind ev) @ [NL]"
  have head: "(''### '' @ sql_command (re_kind ev) @ '' '' @ table_text quoted tm @ [NL]) @ sql_clause1 (re_kind ev) = h"
    by (simp add: h_def row_head_def clause_texts)
  obtain s1 e1 where one: "print_verbose_one_row fe vb td ev (re_cols ev) at h = Inr (s1, e1)"
    and k: "(case e1 of Row_failed d \<Rightarrow> Inr (s1, Row_failed d)
      | Row_value n \<Rightarrow> if n = 0 then Inr (s1, Row_failed None)
        else case sql_clause2 (re_kind ev) of
               None \<Rightarrow> Inr (s1, Row_value n)
             | Some c \<Rightarrow> image_end (print_verbose_one_row fe vb td ev (re_cols_ai ev) (at + n) (s1 @ c)) (\<lambda>t m.
                 Inr (t, Row_value (n + m)))) = Inr (s, e)"
    using p unfolding print_row_def Let_def head image_end_def [of "print_verbose_one_row fe vb td ev (re_cols ev) at h"]
    by (auto elim!: and_then_eq_InrE)
  obtain cs where cs: "s1 = h @ lines_nl cs" "\<forall>l \<in> set cs. row_line l"
    by (rule row_image_lines [OF sup one])
  have block1: "s1 = lines_nl (row_head quoted tm (re_kind ev) # clause1 (re_kind ev) # cs)"
    by (simp add: cs(1) h_def)
  show thesis
  proof (cases "s = s1")
    case True
    then show thesis using block1 cs(2)
      by (intro that [of "row_head quoted tm (re_kind ev) # clause1 (re_kind ev) # cs"]) (auto simp: row_block_def)
  next
    case False
    then obtain n c where c: "e1 = Row_value n" "sql_clause2 (re_kind ev) = Some c"
      "image_end (print_verbose_one_row fe vb td ev (re_cols_ai ev) (at + n) (s1 @ c)) (\<lambda>t m.
                 Inr (t, Row_value (n + m))) = Inr (s, e)"
      using k by (auto split: row_end.splits if_splits option.splits)
    then have kind: "re_kind ev = Update_rows" "c = ''### SET'' @ [NL]" by (cases "re_kind ev"; simp)+
    obtain e2 where two: "print_verbose_one_row fe vb td ev (re_cols_ai ev) (at + n) (s1 @ c) = Inr (s, e2)"
      using c(3) by (auto simp: image_end_def split: row_end.splits if_splits elim!: and_then_eq_InrE)
    obtain es where es: "s = (s1 @ c) @ lines_nl es" "\<forall>l \<in> set es. row_line l"
      by (rule row_image_lines [OF sup two])
    show thesis
    proof (rule that)
      show "s = lines_nl (row_head quoted tm (re_kind ev) # clause1 (re_kind ev) # cs @ ''### SET'' # es)"
        using es(1) block1 kind(2) by simp
      show "row_block quoted tm (re_kind ev) (row_head quoted tm (re_kind ev) # clause1 (re_kind ev) # cs @ ''### SET'' # es)"
        using cs(2) es(2) kind(1) by (auto simp: row_block_def)
    qed
  qed
qed

lemma rows_are_blocks:
  assumes sup: "\<forall>i < td_size td. supported fe td i" "length (re_rows ev) < 2 ^ 32"
    and p: "print_rows fe quoted vb tm td ev at = Inr (s, k, r)"
  shows "\<exists>bs. s = lines_nl (concat bs) \<and> length bs = k \<and> (\<forall>b \<in> set bs. row_block quoted tm (re_kind ev) b)"
  using p
proof (induction "length (re_rows ev) - at" arbitrary: at s k r rule: less_induct)
  case less
  show ?case
  proof (cases "at < length (re_rows ev)")
    case False
    then show ?thesis using less.prems by (subst (asm) print_rows.simps) (auto intro!: exI [of _ "[]"])
  next
    case True
    then obtain s1 e1 where one: "print_row fe quoted vb tm td ev at = Inr (s1, e1)"
      using less.prems by (subst (asm) print_rows.simps) (auto elim!: and_then_eq_InrE)
    obtain b where b: "s1 = lines_nl b" "row_block quoted tm (re_kind ev) b" by (rule row_is_block [OF sup one])
    show ?thesis
    proof (cases e1)
      case (Row_failed d)
      then have "s = s1 \<and> k = 1" using less.prems True one by (subst (asm) print_rows.simps) simp
      then show ?thesis using b by (intro exI [of _ "[b]"]) simp
    next
      case (Row_value n)
      then obtain t k' where rest: "print_rows fe quoted vb tm td ev (at + n) = Inr (t, k', r)" "s = s1 @ t" "k = k' + 1"
        using less.prems True one by (subst (asm) print_rows.simps) (auto elim!: and_then_eq_InrE)
      have "0 < n" using print_row_progress one Row_value by blast
      then obtain bs where "t = lines_nl (concat bs)" "length bs = k'" "\<forall>b \<in> set bs. row_block quoted tm (re_kind ev) b"
        using less.hyps [OF diff_less_mono2 rest(1)] True by fastforce
      then show ?thesis using rest b by (intro exI [of _ "b # bs"]) simp
    qed
  qed
qed

text \<open>C15: Whatever bytes the rows hold, as long as the types of the columns are supported, what is
  printed is a sequence of complete lines: for each row counted one header, its clauses, and lines of
  columns without control characters. So the bytes of a row can neither end a line nor begin one.\<close>

theorem rows_text_lines:
  assumes "\<forall>i < td_size td. supported fe td i" "length (re_rows ev) < 2 ^ 32"
    and "print_rows fe quoted vb tm td ev at = Inr (s, k, r)"
  shows "\<exists>bs. s = lines_nl (concat bs) \<and> length bs = k \<and> (\<forall>b \<in> set bs. row_block quoted tm (re_kind ev) b)"
  by (rule rows_are_blocks [OF assms])

text \<open>An event whose second value is cut off: the row is begun, the value is not printed.\<close>

definition cut_event :: rows_event where
  "cut_event = demo_rows_event\<lparr>re_rows := [CHR 0x00, CHR 0x05, CHR 0x00, CHR 0x00, CHR 0x00, CHR 0x09, CHR ''a'']\<rparr>"

theorem rows_text_lines_witness:
  "\<exists>bs. lines_nl [''### INSERT INTO `d`.`t`'', ''### SET'', ''###   @1=5'',
        ''###   @2=***Corrupted replication event was detected. Not printing the value***''] = lines_nl (concat bs)
     \<and> length bs = 1 \<and> (\<forall>b \<in> set bs. row_block backquote demo_table Write_rows b)"
proof -
  have "print_rows demo_floats backquote 0 demo_table demo_def cut_event 0 =
      Inr (lines_nl [''### INSERT INTO `d`.`t`'', ''### SET'', ''###   @1=5'',
        ''###   @2=***Corrupted replication event was detected. Not printing the value***''], 1, Some None)"
    by code_simp
  moreover have "\<forall>i < td_size demo_def. supported demo_floats demo_def i"
    by (auto simp: td_size_def demo_def_def supported_def plain_floats_def demo_floats_def field_metadata_def
        td_type_def column_ok_def less_Suc_eq numeral_2_eq_2)
  moreover have "length (re_rows cut_event) < 2 ^ 32" "re_kind cut_event = Write_rows"
    by (simp_all add: cut_event_def demo_rows_event_def)
  ultimately show ?thesis using rows_text_lines [of demo_def demo_floats cut_event backquote 0 demo_table 0] by metis
qed

text \<open>A column of a type the printer does not know ends the event with an error, also where it is
  null: compressed columns, geometry, and the types of blobs that only a server's memory has.\<close>

lemma unknown_types_fail:
  assumes "t \<in> {MYSQL_TYPE_BLOB_COMPRESSED, MYSQL_TYPE_VARCHAR_COMPRESSED, MYSQL_TYPE_GEOMETRY,
      MYSQL_TYPE_TINY_BLOB, MYSQL_TYPE_MEDIUM_BLOB, MYSQL_TYPE_LONG_BLOB, MYSQL_TYPE_NULL}"
  shows "log_event_print_value fe p t meta = Inr (pv_report (Unknown_column_type t meta))"
  using assms by (elim insertE emptyE) (simp_all add: log_event_print_value_def)

text \<open>The null bit is read before the bit map is looked at. When eight of nine columns are set, all
  eight null, and the row is the last, that bit lies behind the rows.\<close>

lemma null_bit_over_read:
  "print_verbose_one_row fe 0
      \<lparr> m_type = replicate 9 MYSQL_TYPE_LONG, m_field_metadata = replicate 9 0, m_field_metadata_size = 0, m_null_bits = [255, 1] \<rparr>
      \<lparr> re_kind = Write_rows, re_table_id = 7, re_cols = replicate 8 True @ [False], re_cols_ai = [], re_rows = [CHR 0xFF],
         re_rows_addr = 4096, re_extra = None \<rparr> (replicate 8 True @ [False]) 0 h = Inl (Out_of_bounds ''null_bits'')"
  by code_simp

text \<open>A row of an event without columns is taken for an error.\<close>

lemma empty_image_fails:
  "image_end (Inr (s, Row_value 0)) f = Inr (s, Row_failed None)"
  by (simp add: image_end_def)

end
