(* ===== verification/Row_Count.thy ===== *)
theory Row_Count
  imports Row_Printer
begin

text \<open>
  Counting the rows of an event without printing them, which the library does when its output is not
  verbose: \<open>calc_field_event_length\<close>, \<open>calc_row_event_length\<close> and \<open>count_row_events\<close> of
  \<open>sql/log_event.cc\<close>, a second walk over the same bytes. The property is that it counts the rows that
  \<open>print_verbose\<close> begins.
\<close>

section \<open>The length of a value, again\<close>

text \<open>The bytes of a value from its type and metadata, 0 for what is not known.\<close>

definition calc_field_event_length :: "nat \<Rightarrow> nat \<Rightarrow> string \<Rightarrow> int res" where
  "calc_field_event_length type0 meta b =
     (let (slen, t) = (if type0 = MYSQL_TYPE_STRING then string_meta meta else (0, type0))
      in if t \<in> {MYSQL_TYPE_LONG, MYSQL_TYPE_TIMESTAMP} then Inr 4
         else if t \<in> {MYSQL_TYPE_TINY, MYSQL_TYPE_YEAR} then Inr 1
         else if t = MYSQL_TYPE_SHORT then Inr 2
         else if t \<in> {MYSQL_TYPE_INT24, MYSQL_TYPE_TIME, MYSQL_TYPE_NEWDATE, MYSQL_TYPE_DATE} then Inr 3
         else if t \<in> {MYSQL_TYPE_LONGLONG, MYSQL_TYPE_DATETIME} then Inr 8
         else if t = MYSQL_TYPE_NEWDECIMAL then
           and_then (decimal_bin_size (int (meta div 256)) (int (meta mod 256))) (\<lambda>n. Inr (uint_of n))
         else if t = MYSQL_TYPE_FLOAT then Inr 4
         else if t = MYSQL_TYPE_DOUBLE then Inr 8
         else if t = MYSQL_TYPE_BIT then Inr (int ((meta div 256 * 8 + meta mod 256 + 7) div 8))
         else if t = MYSQL_TYPE_TIMESTAMP2 then Inr (int (my_timestamp_binary_length meta))
         else if t = MYSQL_TYPE_DATETIME2 then Inr (int (my_datetime_binary_length meta))
         else if t = MYSQL_TYPE_TIME2 then Inr (int (my_time_binary_length meta))
         else if t = MYSQL_TYPE_ENUM then Inr (if meta mod 256 \<in> {1, 2} then int (meta mod 256) else 0)
         else if t = MYSQL_TYPE_SET then Inr (int (meta mod 256))
         else if t = MYSQL_TYPE_BLOB then
           if 1 \<le> meta \<and> meta \<le> 4 then need meta b (Inr (uint_of (ukorr meta b + int meta))) else Inr 0
         else if t \<in> {MYSQL_TYPE_VARCHAR, MYSQL_TYPE_VAR_STRING, MYSQL_TYPE_STRING} then
           let len = (if t = MYSQL_TYPE_STRING then slen else meta)
           in if len < 256 then need 1 b (Inr (ukorr 1 b + 1)) else need 2 b (Inr (ukorr 2 b + 2))
         else Inr 0)"

section \<open>The length of a row image\<close>

fun length_columns ::
  "(nat \<Rightarrow> string \<Rightarrow> int res) \<Rightarrow> (nat \<Rightarrow> string \<Rightarrow> int res) \<Rightarrow> bool list \<Rightarrow> string \<Rightarrow> int \<Rightarrow> nat \<Rightarrow> nat list
    \<Rightarrow> nat \<Rightarrow> nat \<Rightarrow> nat option res" where
  "length_columns sz ln cols rows addr null_bits [] value idx = Inr (Some value)"
| "length_columns sz ln cols rows addr null_bits (i # is) value idx =
     and_then (null_bit rows null_bits idx) (\<lambda>is_null.
     and_then (bitmap_is_set cols i) (\<lambda>set.
     if \<not> set then length_columns sz ln cols rows addr null_bits is value idx
     else if is_null then length_columns sz ln cols rows addr null_bits is value (idx + 1)
     else
       and_then (sz i (drop value rows)) (\<lambda>fsize.
       if past_end addr (length rows) value fsize then Inr None
       else and_then (ln i (drop value rows)) (\<lambda>size.
         if size = 0 then Inr None
         else length_columns sz ln cols rows addr null_bits is (value + nat size) (idx + 1)))))"

definition field_event_length :: "table_def \<Rightarrow> nat \<Rightarrow> string \<Rightarrow> int res" where
  "field_event_length td i b = calc_field_event_length (td_type td i) (field_metadata td i) b"

text \<open>The bytes of a row image, or 0.\<close>

definition calc_row_event_length :: "table_def \<Rightarrow> rows_event \<Rightarrow> bool list \<Rightarrow> nat \<Rightarrow> nat res" where
  "calc_row_event_length td ev cols value =
     and_then (length_columns (field_size td) (field_event_length td) cols (re_rows ev) (re_rows_addr ev) value
                 [0..<td_size td] (value + (bitmap_bits_set cols + 7) div 8) 0)
       (\<lambda>e. Inr (case e of Some v \<Rightarrow> v - value | None \<Rightarrow> 0))"

section \<open>Counting\<close>

text \<open>The loop ends at the end of the rows or at the first image without a length; the row it was in
  has been counted.\<close>

function count_rows :: "table_def \<Rightarrow> rows_event \<Rightarrow> nat \<Rightarrow> nat res" where
  "count_rows td ev value =
     (if value < length (re_rows ev) then
        and_then (calc_row_event_length td ev (re_cols ev) value) (\<lambda>n.
        if n = 0 then Inr 1
        else if re_kind ev = Update_rows then
          and_then (calc_row_event_length td ev (re_cols_ai ev) (value + n)) (\<lambda>m.
          if m = 0 then Inr 1
          else and_then (count_rows td ev (value + n + m)) (\<lambda>k. Inr (k + 1)))
        else and_then (count_rows td ev (value + n)) (\<lambda>k. Inr (k + 1)))
      else Inr 0)"
  by pat_completeness auto
termination
  by (relation "measure (\<lambda>(td, ev, value). length (re_rows ev) - value)") auto

declare count_rows.simps [simp del]

definition count_row_events :: "(int \<Rightarrow> table_map option) \<Rightarrow> rows_event \<Rightarrow> nat res" where
  "count_row_events tables ev =
     (case tables (re_table_id ev) of
        None \<Rightarrow> Inr 0
      | Some tm \<Rightarrow> and_then (create_table_def tm) (\<lambda>td. count_rows td ev 0))"

section \<open>The two walks agree\<close>

text \<open>For the types that the printer supports the two functions for the length of a value are one.\<close>

lemma calc_field_event_length_eq:
  assumes ok: "column_ok t meta"
  shows "calc_field_event_length t meta b = calc_field_size t meta b"
proof -
  consider (str) "t = MYSQL_TYPE_STRING" | (bit) "t = MYSQL_TYPE_BIT"
    | (enum) "t = MYSQL_TYPE_ENUM" | (set) "t = MYSQL_TYPE_SET" | (blob) "t = MYSQL_TYPE_BLOB"
    | (vc) "t = MYSQL_TYPE_VARCHAR" | (dec) "t = MYSQL_TYPE_NEWDECIMAL"
    | (num) "t \<in> {MYSQL_TYPE_FLOAT, MYSQL_TYPE_DOUBLE, MYSQL_TYPE_LONG, MYSQL_TYPE_TINY, MYSQL_TYPE_SHORT, MYSQL_TYPE_INT24,
                MYSQL_TYPE_LONGLONG, MYSQL_TYPE_TIMESTAMP, MYSQL_TYPE_DATETIME, MYSQL_TYPE_TIME,
                MYSQL_TYPE_NEWDATE, MYSQL_TYPE_YEAR, MYSQL_TYPE_TIME2, MYSQL_TYPE_DATETIME2, MYSQL_TYPE_TIMESTAMP2}"
    using ok unfolding column_ok_def by (auto split: if_splits)
  then show ?thesis
  proof cases
    case str
    have m: "snd (string_meta meta) = MYSQL_TYPE_STRING" "fst (string_meta meta) < 256"
      "meta div 256 mod 256 \<notin> {MYSQL_TYPE_ENUM, MYSQL_TYPE_SET}"
      using ok str by (simp_all add: column_ok_def)
    show ?thesis unfolding str calc_size_string [OF m(3)]
      using m(1,2) by (simp add: calc_field_event_length_def split_beta add.commute)
  next
    case bit
    define q r where "q = meta div 256" and "r = meta mod 256"
    have qr: "r \<le> 7" "q < 256" using ok bit by (auto simp: column_ok_def q_def r_def less_mult_imp_div_less)
    have "(q * 8 + r + 7) div 8 = q + (if r > 0 then 1 else 0)" using qr(1) by auto
    then show ?thesis using qr(2) unfolding bit print_value_simps q_def r_def
      by (simp add: calc_field_event_length_def)
  next
    case enum
    then have m: "meta div 256 = MYSQL_TYPE_ENUM" "meta mod 256 \<in> {1, 2}" using ok by (simp_all add: column_ok_def)
    then show ?thesis using calc_size_enum [of meta t] enum by (simp add: calc_field_event_length_def)
  next
    case set
    then have "meta div 256 = MYSQL_TYPE_SET" using ok by (simp add: column_ok_def)
    then show ?thesis using calc_size_enum [of meta t] set by (simp add: calc_field_event_length_def)
  next
    case blob
    then have "1 \<le> meta" "meta \<le> 4" using ok by (simp_all add: column_ok_def)
    then show ?thesis using calc_size_blob [of meta b] blob by (simp add: calc_field_event_length_def)
  next
    case vc
    then show ?thesis unfolding vc print_value_simps by (simp add: calc_field_event_length_def add.commute)
  next
    case dec
    then show ?thesis unfolding dec print_value_simps by (simp add: calc_field_event_length_def)
  next
    case num
    then have "t = MYSQL_TYPE_FLOAT \<longrightarrow> meta = 4" "t = MYSQL_TYPE_DOUBLE \<longrightarrow> meta = 8" using ok by (auto simp: column_ok_def)
    then show ?thesis using num
      by (elim insertE emptyE; simp only: calc_size_fixed) (simp_all add: calc_field_event_length_def)
  qed
qed

text \<open>A printed image has the length that is calculated, and a failed one has none.\<close>

context column_printer
begin

lemma printed_columns_length:
  assumes "\<forall>i \<in> set js. sup i" and "length rows < 2 ^ 32"
    and "\<And>i b. sup i \<Longrightarrow> ln i b = sz i b"
    and "print_columns sz pr cm cols rows addr p js at idx = Inr (s, e)"
  shows "length_columns sz ln cols rows addr p js at idx =
    Inr (case e of Row_value v \<Rightarrow> Some v | Row_failed d \<Rightarrow> None)"
  using assms(1,4)
proof (induction js arbitrary: at idx s e)
  case Nil
  then show ?case by auto
next
  case (Cons i js)
  obtain isn st where b: "null_bit rows p idx = Inr isn" "bitmap_is_set cols i = Inr st"
    using Cons.prems(2) by (auto elim!: and_then_eq_InrE)
  have sup: "sup i" using Cons.prems(1) by simp
  note defs = b
  show ?case
  proof (cases st)
    case False
    then show ?thesis using Cons b by simp
  next
    case st: True
    show ?thesis
    proof (cases isn)
      case True
      obtain ty where "pr i None = Inr (pv ''NULL'' 1 ty)" using pr_null [OF sup] by blast
      then obtain t where "print_columns sz pr cm cols rows addr p js at (idx + 1) = Inr (t, e)"
        using Cons.prems(2) b st True by (auto simp: pv_def elim!: and_then_eq_InrE)
      then show ?thesis using Cons.IH [of at "idx + 1" t e] Cons.prems(1) b st True by simp
    next
      case False
      then obtain n where n: "sz i (drop at rows) = Inr n"
        using Cons.prems(2) b st by (auto elim!: and_then_eq_InrE)
      have ln: "ln i (drop at rows) = Inr n" using assms(3) [OF sup] n by simp
      show ?thesis
      proof (cases "past_end addr (length rows) at n")
        case True
        then show ?thesis using Cons.prems(2) b st False n by auto
      next
        case pe: False
        then obtain v where v: "pr i (Some (drop at rows)) = Inr v"
          using Cons.prems(2) b st False n by (auto elim!: and_then_eq_InrE)
        have "length (drop at rows) < 2 ^ 32" using assms(2) by simp
        then have "prints (pr i (Some (drop at rows))) n" using total [OF sup n _ v] by blast
        then have sv: "pv_size v = nat n" "0 < n" using v by (auto simp: prints_def pv_def)
        then obtain t where "print_columns sz pr cm cols rows addr p js (at + nat n) (idx + 1) = Inr (t, e)"
          using Cons.prems(2) b st False n pe v by (auto elim!: and_then_eq_InrE)
        then show ?thesis using Cons.IH [of "at + nat n" "idx + 1" t e] Cons.prems(1) b st False n ln pe sv by simp
      qed
    qed
  qed
qed

end

lemma printed_image_length:
  assumes sup: "\<forall>i < td_size td. supported fe td i" "length (re_rows ev) < 2 ^ 32"
    and p: "print_verbose_one_row fe vb td ev cols at h = Inr (s, e)"
  shows "calc_row_event_length td ev cols at = Inr (case e of Row_value n \<Rightarrow> n | Row_failed d \<Rightarrow> 0)"
proof -
  obtain t e' where t: "print_columns (field_size td) (print_field fe td) (row_comment vb td) cols (re_rows ev)
      (re_rows_addr ev) at [0..<td_size td] (at + (bitmap_bits_set cols + 7) div 8) 0 = Inr (t, e')"
    "e = (case e' of Row_value v \<Rightarrow> Row_value (v - at) | Row_failed d \<Rightarrow> Row_failed d)"
    using p by (auto simp: print_verbose_one_row_def elim!: and_then_eq_InrE)
  have eq: "field_event_length td i b = field_size td i b" if "supported fe td i" for i b
    using that calc_field_event_length_eq unfolding supported_def field_event_length_def field_size_def by metis
  have "\<forall>i \<in> set [0..<td_size td]. supported fe td i" using sup(1) by simp
  from cp.printed_columns_length [OF this sup(2) eq t(1)] t(2) show ?thesis
    by (auto simp: calc_row_event_length_def split: row_end.splits)
qed

lemma image_end_cases:
  assumes "image_end r f = Inr (s, e)"
  obtains t e1 where "r = Inr (t, e1)"
    "(case e1 of Row_failed d \<Rightarrow> e = Row_failed d | Row_value n \<Rightarrow> if n = 0 then e = Row_failed None else f t n = Inr (s, e))"
  using assms by (auto simp: image_end_def elim!: and_then_eq_InrE split: row_end.splits if_splits)

lemma printed_row_length:
  assumes sup: "\<forall>i < td_size td. supported fe td i" "length (re_rows ev) < 2 ^ 32"
    and p: "print_row fe quoted vb tm td ev at = Inr (s, e)"
  shows "\<exists>n. calc_row_event_length td ev (re_cols ev) at = Inr n \<and>
    (if n = 0 then \<exists>d. e = Row_failed d
     else if re_kind ev = Update_rows then
       \<exists>m. calc_row_event_length td ev (re_cols_ai ev) (at + n) = Inr m \<and>
         (if m = 0 then \<exists>d. e = Row_failed d else e = Row_value (n + m))
     else e = Row_value n)"
proof -
  define f where "f = (\<lambda>s n. case sql_clause2 (re_kind ev) of
           None \<Rightarrow> Inr (s, Row_value n)
         | Some c \<Rightarrow>
             image_end (print_verbose_one_row fe vb td ev (re_cols_ai ev) (at + n) (s @ c)) (\<lambda>t m.
               Inr (t, Row_value (n + m))))"
  obtain h where "image_end (print_verbose_one_row fe vb td ev (re_cols ev) at h) f = Inr (s, e)"
    using p unfolding print_row_def Let_def f_def by blast
  then obtain t e1 where one: "print_verbose_one_row fe vb td ev (re_cols ev) at h = Inr (t, e1)"
    and k: "(case e1 of Row_failed d \<Rightarrow> e = Row_failed d
      | Row_value n \<Rightarrow> if n = 0 then e = Row_failed None else f t n = Inr (s, e))"
    by (rule image_end_cases)
  note l1 = printed_image_length [OF sup one]
  show ?thesis
  proof (cases e1)
    case (Row_failed d)
    then show ?thesis using l1 k by (intro exI [of _ 0]) simp
  next
    case (Row_value n)
    show ?thesis
    proof (cases "n = 0 \<or> re_kind ev \<noteq> Update_rows")
      case True
      moreover have "sql_clause2 (re_kind ev) = None" if "re_kind ev \<noteq> Update_rows"
        using that by (cases "re_kind ev") simp_all
      ultimately show ?thesis using l1 k Row_value by (intro exI [of _ n]) (auto simp: f_def)
    next
      case False
      then have n: "n \<noteq> 0" "re_kind ev = Update_rows" by auto
      then have "image_end (print_verbose_one_row fe vb td ev (re_cols_ai ev) (at + n) (t @ ''### SET'' @ [NL]))
          (\<lambda>t m. Inr (t, Row_value (n + m))) = Inr (s, e)" using k Row_value by (simp add: f_def)
      then obtain t2 e2 where two: "print_verbose_one_row fe vb td ev (re_cols_ai ev) (at + n) (t @ ''### SET'' @ [NL]) = Inr (t2, e2)"
        and k2: "(case e2 of Row_failed d \<Rightarrow> e = Row_failed d
          | Row_value m \<Rightarrow> if m = 0 then e = Row_failed None else e = Row_value (n + m))"
        by (rule image_end_cases) (auto split: row_end.splits if_splits)
      note l2 = printed_image_length [OF sup two]
      show ?thesis using l1 l2 k2 Row_value n by (cases e2) (auto split: if_splits)
    qed
  qed
qed

lemma printed_rows_counted:
  assumes sup: "\<forall>i < td_size td. supported fe td i" "length (re_rows ev) < 2 ^ 32"
    and p: "print_rows fe quoted vb tm td ev at = Inr (s, k, r)"
  shows "count_rows td ev at = Inr k"
  using p
proof (induction "length (re_rows ev) - at" arbitrary: at s k r rule: less_induct)
  case less
  show ?case
  proof (cases "at < length (re_rows ev)")
    case False
    then show ?thesis using less.prems by (subst (asm) print_rows.simps, subst count_rows.simps) auto
  next
    case True
    then obtain s1 e1 where one: "print_row fe quoted vb tm td ev at = Inr (s1, e1)"
      using less.prems by (subst (asm) print_rows.simps) (auto elim!: and_then_eq_InrE)
    obtain n where n: "calc_row_event_length td ev (re_cols ev) at = Inr n"
      "if n = 0 then \<exists>d. e1 = Row_failed d
       else if re_kind ev = Update_rows then
         \<exists>m. calc_row_event_length td ev (re_cols_ai ev) (at + n) = Inr m \<and>
           (if m = 0 then \<exists>d. e1 = Row_failed d else e1 = Row_value (n + m))
       else e1 = Row_value n"
      using printed_row_length [OF sup one] by blast
    show ?thesis
    proof (cases e1)
      case (Row_failed d)
      then have "k = 1" using less.prems True one by (subst (asm) print_rows.simps) simp
      then show ?thesis using n Row_failed True by (subst count_rows.simps) (auto split: if_splits)
    next
      case (Row_value l)
      then obtain t k' where rest: "print_rows fe quoted vb tm td ev (at + l) = Inr (t, k', r)" "k = k' + 1"
        using less.prems True one by (subst (asm) print_rows.simps) (auto elim!: and_then_eq_InrE)
      have "0 < l" using print_row_progress one Row_value by blast
      then have "count_rows td ev (at + l) = Inr k'"
        using less.hyps [OF diff_less_mono2 rest(1)] True by fastforce
      then show ?thesis using n Row_value True rest(2)
        by (subst count_rows.simps) (auto simp: add.assoc split: if_splits)
    qed
  qed
qed

text \<open>C14: The library counts the same rows whether it prints them or not: for an event on a table whose
  columns have supported types, whatever bytes the rows hold, the walk that only counts gives the
  number of rows that the one that prints began.\<close>

theorem rows_counted_as_printed:
  assumes "print_verbose fe quoted vb tables ev = Inr (s, k, r)" "length (re_rows ev) < 2 ^ 32"
    and "\<forall>tm td. tables (re_table_id ev) = Some tm \<longrightarrow> create_table_def tm = Inr td \<longrightarrow>
           (\<forall>i < td_size td. supported fe td i)"
  shows "count_row_events tables ev = Inr k"
proof (cases "tables (re_table_id ev)")
  case None
  then show ?thesis using assms(1) by (auto simp: print_verbose_def count_row_events_def elim!: and_then_eq_InrE)
next
  case (Some tm)
  then obtain td where td: "create_table_def tm = Inr td"
    using assms(1) by (auto simp: print_verbose_def elim!: and_then_eq_InrE)
  show ?thesis
  proof (cases "re_kind ev = Write_rows \<and> re_rows ev = []")
    case True
    then have "k = 0" using assms(1) Some td by (auto simp: print_verbose_def elim!: and_then_eq_InrE)
    then show ?thesis using True Some td by (simp add: count_row_events_def count_rows.simps)
  next
    case False
    then obtain t where "print_rows fe quoted vb tm td ev 0 = Inr (t, k, r)"
      using assms(1) Some td by (auto simp: print_verbose_def elim!: and_then_eq_InrE)
    then show ?thesis using printed_rows_counted [of td fe ev quoted vb tm 0] assms(2,3) Some td
      by (auto simp: count_row_events_def)
  qed
qed

theorem rows_counted_as_printed_witness:
  "count_row_events [7 \<mapsto> demo_table] cut_event = Inr 1"
proof -
  have p: "print_verbose demo_floats backquote 0 [7 \<mapsto> demo_table] cut_event =
      Inr (lines_nl [''### INSERT INTO `d`.`t`'', ''### SET'', ''###   @1=5'',
        ''###   @2=***Corrupted replication event was detected. Not printing the value***''], 1, Some None)"
    by code_simp
  have s: "\<forall>i < td_size demo_def. supported demo_floats demo_def i"
    by (auto simp: td_size_def demo_def_def supported_def plain_floats_def demo_floats_def field_metadata_def
        td_type_def column_ok_def less_Suc_eq numeral_2_eq_2)
  have l: "length (re_rows cut_event) < 2 ^ 32" "re_table_id cut_event = 7"
    by (simp_all add: cut_event_def demo_rows_event_def)
  show ?thesis by (rule rows_counted_as_printed [OF p l(1)]) (use s l demo_rows_ok(1) in auto)
qed

end
