(* ===== verification/Row_Events.thy ===== *)
theory Row_Events
  imports Row_Count
begin

text \<open>
  From the bytes of an event to the text in the result file: the constructors of
  \<open>Table_map_log_event\<close> and \<open>Rows_log_event\<close>, the part of \<open>print_base64\<close> that follows the encoding, and
  the printing of table maps and rows events (\<open>sql/log_event.cc\<close>). A pointer into the event is an
  offset; reading behind the bytes of the event is \<open>Out_of_bounds ''buf''\<close>. The sizes are 32 bits wide
  (\<open>ulong\<close> and \<open>uint\<close> of the Windows compiler). Memory does not run out.

  Parameters (\<open>row_env\<close>): the texts of floating point values, the format \<open>%`s\<close>, the base64 encoder, the
  inflation of compressed rows, the lengths that the format description event announces, whether the
  log has checksums, where the rows are copied to, and the verbosity.
\<close>

section \<open>Reading an event\<close>

record fd_event =
  fd_common_header_len :: nat
  fd_post_header_len :: "nat list"

definition rd :: "nat \<Rightarrow> string \<Rightarrow> nat \<Rightarrow> int res" where
  "rd n b p = (if p + n \<le> length b then Inr (ukorr n (drop p b)) else Inl (Out_of_bounds ''buf''))"

definition rd_bytes :: "nat \<Rightarrow> string \<Rightarrow> nat \<Rightarrow> string res" where
  "rd_bytes n b p = (if p + n \<le> length b then Inr (take n (drop p b)) else Inl (Out_of_bounds ''buf''))"

definition NULL_LENGTH :: int where "NULL_LENGTH = 2 ^ 32 - 1"

text \<open>A packed length and the position behind it.\<close>

definition net_field_length :: "string \<Rightarrow> nat \<Rightarrow> (int \<times> nat) res" where
  "net_field_length b p =
     and_then (rd 1 b p) (\<lambda>c.
       if c < 251 then Inr (c, p + 1)
       else if c = 251 then Inr (NULL_LENGTH, p + 1)
       else if c = 252 then and_then (rd 2 b (p + 1)) (\<lambda>v. Inr (v, p + 3))
       else if c = 253 then and_then (rd 3 b (p + 1)) (\<lambda>v. Inr (v, p + 4))
       else and_then (rd 4 b (p + 1)) (\<lambda>v. Inr (v, p + 9)))"

text \<open>A table id: four bytes in very old logs, else the low 32 bits of six. Then the position of the
  flags.\<close>

definition read_table_id :: "nat \<Rightarrow> string \<Rightarrow> nat \<Rightarrow> (int \<times> nat) res" where
  "read_table_id post_len b p =
     (if post_len = 6 then and_then (rd 4 b p) (\<lambda>v. Inr (v, p + 4))
      else and_then (rd 6 b p) (\<lambda>v. Inr (uint_of v, p + 6)))"

text \<open>A name that \<open>strncpy\<close> copies with its terminating null byte.\<close>

definition read_name :: "string \<Rightarrow> nat \<Rightarrow> nat \<Rightarrow> string res" where
  "read_name b p len =
     and_then (rd_bytes (len + 1) b p) (\<lambda>s. if NUL \<in> set s then Inr (cstr s) else Inl (Out_of_bounds ''name''))"

definition bytes_of :: "string \<Rightarrow> nat list" where
  "bytes_of s = map of_char s"

section \<open>Table_map_log_event\<close>

text \<open>The event's table id, and the map unless the event is not valid. Before most parts the
  constructor checks that their first byte lies in the event and returns when it does not.\<close>

definition no_table_id :: int where "no_table_id = 2 ^ 64 - 1"

definition read_columns :: "string \<Rightarrow> nat \<Rightarrow> int \<Rightarrow> int \<Rightarrow> string \<Rightarrow> string \<Rightarrow> nat \<Rightarrow> table_map option res" where
  "read_columns b event_len tid flags db tbl p =
     and_then (net_field_length b p) (\<lambda>(colcnt, p1).
     and_then (rd_bytes (nat colcnt) b p1) (\<lambda>types.
     let p2 = p1 + nat colcnt;
         tm = \<lparr> tm_table_id = tid, tm_flags = flags, tm_dbnam = db, tm_tblnam = tbl, tm_coltype = bytes_of types,
                tm_field_metadata = [], tm_null_bits = [] \<rparr>
     in if event_len \<le> p2 then Inr (Some tm)
        else and_then (net_field_length b p2) (\<lambda>(metasize, p3).
          if metasize \<le> uint_of (colcnt * 2) then
            and_then (rd_bytes (nat metasize) b p3) (\<lambda>md.
            and_then (rd_bytes (nat (uint_of (colcnt + 7) div 8)) b (p3 + nat metasize)) (\<lambda>nulls.
            Inr (Some (tm\<lparr>tm_field_metadata := bytes_of md, tm_null_bits := bytes_of nulls\<rparr>))))
          else Inr None)))"

definition Table_map_log_event :: "fd_event \<Rightarrow> string \<Rightarrow> nat \<Rightarrow> (int \<times> table_map option) res" where
  "Table_map_log_event fd b event_len =
     (let chl = fd_common_header_len fd; phl = fd_post_header_len fd ! 18
      in if event_len < chl + phl \<or> event_len \<le> chl then Inr (no_table_id, None)
         else and_then (read_table_id phl b chl) (\<lambda>(tid, p).
              and_then (rd 2 b p) (\<lambda>flags.
              if event_len \<le> chl + phl then Inr (tid, None)
              else and_then (rd 1 b (chl + phl)) (\<lambda>dblen.
                let ptbl = chl + phl + nat dblen + 2
                in if event_len \<le> ptbl then Inr (tid, None)
                   else and_then (rd 1 b ptbl) (\<lambda>tbllen.
                     let pcol = ptbl + nat tbllen + 2
                     in if event_len \<le> pcol then Inr (tid, None)
                        else and_then (read_name b (chl + phl + 1) (nat dblen)) (\<lambda>db.
                             and_then (read_name b (ptbl + 1) (nat tbllen)) (\<lambda>tbl.
                             and_then (read_columns b event_len tid flags db tbl pcol) (\<lambda>m.
                               Inr (tid, m)))))))))"

section \<open>Rows_log_event\<close>

fun kind_of_type :: "nat \<Rightarrow> row_kind option" where
  "kind_of_type t =
     (if t \<in> {23, 30, 166, 169} then Some Write_rows
      else if t \<in> {24, 31, 167, 170} then Some Update_rows
      else if t \<in> {25, 32, 168, 171} then Some Delete_rows
      else None)"

definition compressed_type :: "nat \<Rightarrow> bool" where
  "compressed_type t \<longleftrightarrow> 166 \<le> t \<and> t \<le> 171"

definition ROWS_HEADER_LEN_V2 :: nat where "ROWS_HEADER_LEN_V2 = 10"

text \<open>The chunks of the header of variable length: the first one with extra row information is kept,
  an unknown one ends the walk. The assertions are \<open>Out_of_bounds\<close>.\<close>

function read_chunks :: "string \<Rightarrow> nat \<Rightarrow> nat \<Rightarrow> string option \<Rightarrow> string option res" where
  "read_chunks b p e ex =
     (if p < e then
        and_then (rd 1 b p) (\<lambda>tag.
        if tag = 0 then
          if e < p + 1 + 2 then Inl (Out_of_bounds ''extra row info'')
          else and_then (rd 1 b (p + 1)) (\<lambda>len.
            if e < p + 1 + nat len then Inl (Out_of_bounds ''extra row info'')
            else and_then (rd_bytes (nat len) b (p + 1)) (\<lambda>s.
              read_chunks b (p + 1 + nat len) e (case ex of None \<Rightarrow> Some s | Some x \<Rightarrow> Some x)))
        else Inr ex)
      else Inr ex)"
  by pat_completeness auto
termination by (relation "measure (\<lambda>(b, p, e, ex). e - p)") auto

declare read_chunks.simps [simp del]

text \<open>The bits of a bit map, the lowest of each byte first.\<close>

definition bitmap_of :: "nat \<Rightarrow> string \<Rightarrow> bool list" where
  "bitmap_of width s = take width (concat (map (\<lambda>c. map (\<lambda>j. odd (ubyte c div 2 ^ j)) [0..<8]) s))"

text \<open>\<open>(m_width + 7) / 8\<close>.\<close>

definition bitmap_bytes :: "int \<Rightarrow> nat" where
  "bitmap_bytes width = nat (uint_of (width + 7) div 8)"

text \<open>The extra row information and the length of the variable header, without its length bytes.\<close>

definition read_var_header :: "nat \<Rightarrow> string \<Rightarrow> nat \<Rightarrow> nat \<Rightarrow> (nat \<times> string option) option res" where
  "read_var_header phl b event_len p =
     (if phl = ROWS_HEADER_LEN_V2 then
        and_then (rd 2 b p) (\<lambda>v.
        if v < 2 \<or> event_len < nat v + p then Inr None
        else and_then (read_chunks b (p + 2) (p + 2 + (nat v - 2)) None) (\<lambda>ex. Inr (Some (nat v - 2, ex))))
      else Inr (Some (0, None)))"

text \<open>The bit maps and the rows. Without a value: the event is not valid. The second bit map of an
  update is read without a check of its length.\<close>

definition read_rows ::
  "row_kind \<Rightarrow> string \<Rightarrow> nat \<Rightarrow> int \<Rightarrow> int \<Rightarrow> string option \<Rightarrow> nat \<Rightarrow> rows_event option res" where
  "read_rows k b event_len addr tid ex p =
     and_then (net_field_length b p) (\<lambda>(width, p1).
     let n = bitmap_bytes width
     in if event_len < p1 + n then Inr None
        else and_then (rd_bytes n b p1) (\<lambda>cols.
             and_then (if k = Update_rows then and_then (rd_bytes n b (p1 + n)) (\<lambda>ai. Inr (ai, p1 + n + n))
                       else Inr (cols, p1 + n)) (\<lambda>(ai, p2).
             if event_len < p2 then Inr None
             else and_then (rd_bytes (event_len - p2) b p2) (\<lambda>rows.
               Inr (Some \<lparr> re_kind = k, re_table_id = tid, re_cols = bitmap_of (nat width) cols,
                          re_cols_ai = bitmap_of (nat width) ai, re_rows = rows, re_rows_addr = addr,
                          re_extra = ex \<rparr>)))))"

definition Rows_log_event :: "fd_event \<Rightarrow> int \<Rightarrow> string \<Rightarrow> nat \<Rightarrow> row_kind \<Rightarrow> (int \<times> rows_event) option res" where
  "Rows_log_event fd addr b event_len k =
     and_then (rd 1 b 4) (\<lambda>t.
     let chl = fd_common_header_len fd; phl = fd_post_header_len fd ! (nat t - 1)
     in if event_len < chl + phl then Inr None
        else and_then (read_table_id phl b chl) (\<lambda>(tid, p).
             and_then (rd 2 b p) (\<lambda>flags.
             and_then (read_var_header phl b event_len (p + 2)) (\<lambda>h. case h of
                 None \<Rightarrow> Inr None
               | Some (vlen, ex) \<Rightarrow>
                   and_then (read_rows k b event_len addr tid ex (chl + phl + vlen)) (\<lambda>r.
                   Inr (map_option (\<lambda>ev. (flags, ev)) r))))))"

section \<open>Printing\<close>

record row_env =
  v_floats :: float_env
  v_quote :: "string \<Rightarrow> string"
  v_encode :: "string \<Rightarrow> string"
  v_inflate :: "rows_event \<Rightarrow> rows_event option"
  v_fd :: fd_event
  v_checksum :: bool
  v_addr :: int
  v_verbose :: nat
  v_short_form :: bool
  v_max_encoded :: nat

text \<open>The print state with the file, and the maps that table ids stand for; an entry is \<open>None\<close> for an
  event that was not valid.\<close>

record row_state =
  w_info :: PRINT_EVENT_INFO
  w_file :: string
  w_tables :: "int \<Rightarrow> table_map option option"

definition to_body :: "string \<Rightarrow> row_state \<Rightarrow> row_state" where
  "to_body s st = st\<lparr>w_info := (w_info st)\<lparr>body_cache := body_cache (w_info st) @ s\<rparr>\<rparr>"

definition to_head :: "string \<Rightarrow> row_state \<Rightarrow> row_state" where
  "to_head s st = st\<lparr>w_info := (w_info st)\<lparr>head_cache := head_cache (w_info st) @ s\<rparr>\<rparr>"

definition count_events :: "nat \<Rightarrow> row_state \<Rightarrow> row_state" where
  "count_events k st = st\<lparr>w_info := (w_info st)\<lparr>row_events := row_events (w_info st) + of_nat k\<rparr>\<rparr>"

definition set_table :: "int \<Rightarrow> table_map option \<Rightarrow> row_state \<Rightarrow> row_state" where
  "set_table tid tm st = st\<lparr>w_tables := (w_tables st)(tid := Some tm)\<rparr>"

definition head_to_file :: "row_state \<Rightarrow> row_state" where
  "head_to_file st = st\<lparr>w_file := w_file st @ head_cache (w_info st), w_info := (w_info st)\<lparr>head_cache := []\<rparr>\<rparr>"

definition body_to_file :: "row_state \<Rightarrow> row_state" where
  "body_to_file st = st\<lparr>w_file := w_file st @ body_cache (w_info st), w_info := (w_info st)\<lparr>body_cache := []\<rparr>\<rparr>"

text \<open>\<open>flush_for_error\<close>\<close>

definition flush_for_error :: "row_state \<Rightarrow> row_state" where
  "flush_for_error st = body_to_file (head_to_file st)"

text \<open>The map of an id that is printed with must be a valid one.\<close>

definition get_table :: "row_state \<Rightarrow> int \<Rightarrow> table_map option res" where
  "get_table st tid = (case w_tables st tid of
       None \<Rightarrow> Inr None
     | Some None \<Rightarrow> Inl (Null_pointer ''m_coltype'')
     | Some (Some tm) \<Rightarrow> Inr (Some tm))"

text \<open>An event of rows in \<open>print_base64\<close>: printed, or only counted.\<close>

definition print_rows_event :: "row_env \<Rightarrow> rows_event \<Rightarrow> row_state \<Rightarrow> (bool \<times> row_state) res" where
  "print_rows_event env ev st =
     and_then (get_table st (re_table_id ev)) (\<lambda>tm.
       let tables = (\<lambda>_. tm)
       in if v_verbose env > 0 then
            let st1 = (if base64_output_mode (w_info st) \<noteq> BASE64_OUTPUT_DECODE_ROWS
                       then to_body (QUOTE # delimiter (w_info st) @ [NL]) st else st)
            in and_then (print_verbose (v_floats env) (v_quote env) (v_verbose env) tables ev) (\<lambda>(s, k, r).
                 let st2 = count_events k (to_body s st1)
                 in Inr (case r of
                      None \<Rightarrow> (False, st2)
                    | Some None \<Rightarrow> (True, st2)
                    | Some (Some d) \<Rightarrow> (True, flush_for_error st2)))
          else and_then (count_row_events tables ev) (\<lambda>k. Inr (False, count_events k st)))"

definition rows_print_base64 :: "row_env \<Rightarrow> bool \<Rightarrow> string \<Rightarrow> row_state \<Rightarrow> (bool \<times> row_state) res" where
  "rows_print_base64 env do_print_encoded b st =
     and_then (rd 4 b 9) (\<lambda>size0.
     and_then (if do_print_encoded then and_then (rd_bytes (nat size0) b 0) (\<lambda>s. Inr (to_body (v_encode env s @ [NL]) st))
               else Inr st) (\<lambda>st1.
     if v_verbose env > 0 \<or> print_row_count (w_info st1) then
       and_then (rd 1 b 4) (\<lambda>t.
       let size = nat (if v_checksum env then uint_of (size0 - 4) else size0)
       in if t = 19 then
            and_then (Table_map_log_event (v_fd env) b size) (\<lambda>(tid, tm). Inr (False, set_table tid tm st1))
          else case kind_of_type (nat t) of
            None \<Rightarrow> Inr (False, st1)
          | Some k \<Rightarrow>
              and_then (Rows_log_event (v_fd env) (v_addr env) b size k) (\<lambda>r.
              case r of
                None \<Rightarrow> Inl (Null_pointer ''m_cols'')
              | Some (_, ev) \<Rightarrow>
                  (case (if compressed_type (nat t) then v_inflate env ev else Some ev) of
                     None \<Rightarrow> Inl (Null_pointer ''m_cols'')
                   | Some ev' \<Rightarrow> print_rows_event env ev' st1)))
     else Inr (False, st1)))"

text \<open>The encoded text of an event becomes a statement, or two fragments of one when it is long.\<close>

definition str_binlog :: string where "str_binlog = NL # ''BINLOG '' @ [QUOTE, NL]"

definition fmt_delim :: "string \<Rightarrow> string" where "fmt_delim d = QUOTE # d @ [NL]"

definition fmt_frag :: "string \<Rightarrow> string" where
  "fmt_frag i = NL # ''SET @binlog_fragment_'' @ i @ '' ='' @ [QUOTE, NL]"

definition wrapped :: "nat \<Rightarrow> bool \<Rightarrow> string \<Rightarrow> bool \<Rightarrow> string \<Rightarrow> string" where
  "wrapped max_encoded do_wrap d is_verbose body =
     (let fin = (if is_verbose then [] else fmt_delim d); half = length body div 2 + 1
      in if \<not> do_wrap then body
         else if 4 + 11 + length body + 5 > max_encoded then
           fmt_frag ''0'' @ take half body @ NL # QUOTE # d @ fmt_frag ''1'' @ drop half body @ fin
           @ ''BINLOG @binlog_fragment_0, @binlog_fragment_1'' @ d @ [NL]
         else str_binlog @ body @ fin)"

definition wrapped_body_to_file :: "row_env \<Rightarrow> bool \<Rightarrow> row_state \<Rightarrow> row_state" where
  "wrapped_body_to_file env do_wrap st =
     st\<lparr>w_file := w_file st @ wrapped (v_max_encoded env) do_wrap (delimiter (w_info st)) (v_verbose env > 0)
                                    (body_cache (w_info st)),
        w_info := (w_info st)\<lparr>body_cache := []\<rparr>\<rparr>"

definition do_print_encoded :: "row_env \<Rightarrow> row_state \<Rightarrow> bool" where
  "do_print_encoded env st \<longleftrightarrow> base64_output_mode (w_info st) \<noteq> BASE64_OUTPUT_NEVER
     \<and> base64_output_mode (w_info st) \<noteq> BASE64_OUTPUT_DECODE_ROWS \<and> \<not> v_short_form env"

text \<open>A rows event: the header into the head, the rows into the body, and at the end of a statement
  both into the file. \<open>header\<close> is what \<open>print_header\<close> writes.\<close>

definition print_helper :: "row_env \<Rightarrow> string \<Rightarrow> string \<Rightarrow> int \<Rightarrow> bool \<Rightarrow> string \<Rightarrow> row_state \<Rightarrow> (bool \<times> row_state) res" where
  "print_helper env header name tid last_stmt_event b st =
     (let st1 = (if v_short_form env then st
                 else to_head (header @ CHR 0x09 # name @ '': table id '' @ show_dec (nat tid)
                        @ (if last_stmt_event then '' flags: STMT_END_F'' else []) @ [NL]) st)
      in and_then (if \<not> v_short_form env \<or> print_row_count (w_info st1)
                   then rows_print_base64 env (do_print_encoded env st1) b st1
                   else Inr (False, st1)) (\<lambda>(failed, st2).
         if failed then Inr (True, st2)
         else if last_stmt_event
              then Inr (False, wrapped_body_to_file env (do_print_encoded env st1) (head_to_file st2))
              else Inr (False, st2)))"

text \<open>A table map: its line goes into the file at once, what it encodes waits in the body.\<close>

definition print_table_map ::
  "row_env \<Rightarrow> string \<Rightarrow> string \<Rightarrow> string \<Rightarrow> int \<Rightarrow> bool \<Rightarrow> string \<Rightarrow> row_state \<Rightarrow> (bool \<times> row_state) res" where
  "print_table_map env header db tbl tid triggers b st =
     (let st1 = (if v_short_form env then st
                 else to_head (header @ CHR 0x09 # ''Table_map: '' @ v_quote env db @ ''.'' @ v_quote env tbl
                        @ '' mapped to number '' @ show_dec (nat tid)
                        @ (if triggers then '' (has triggers)'' else []) @ [NL]) st)
      in if \<not> v_short_form env \<or> print_row_count (w_info st1) then
           and_then (rows_print_base64 env (do_print_encoded env st1) b st1) (\<lambda>(failed, st2).
           if failed then Inr (True, st2) else Inr (False, head_to_file st2))
         else Inr (False, st1))"

end
