(* ===== verification/Event_Writer.thy ===== *)
theory Event_Writer
  imports Row_Events
begin

text \<open>
  How the server writes table maps and rows events (\<open>write_header\<close>, \<open>write_data_header\<close>, \<open>write_data_body\<close>
  of \<open>sql/log_event.cc\<close>), and that the constructors of \<open>Row_Events\<close> read back what was written. The
  checksum behind an event is any string; the time stamp, the server and the position of the header
  are those of \<open>event_header\<close>.
\<close>

section \<open>Little endian numbers\<close>

text \<open>\<open>int1store\<close> to \<open>int8store\<close>\<close>

fun le_store :: "nat \<Rightarrow> int \<Rightarrow> string" where
  "le_store 0 v = []"
| "le_store (Suc n) v = byte_of v # le_store n (v div 256)"

lemma length_le_store [simp]: "length (le_store n v) = n"
  by (induction n arbitrary: v) auto

lemma le_val_store [simp]: "le_val (le_store n v) = v mod 256 ^ n"
proof (induction n arbitrary: v)
  case (Suc n)
  have "v mod (256 * 256 ^ n) = 256 * (v div 256 mod 256 ^ n) + v mod 256"
    by (rule zmod_zmult2_eq) simp
  then show ?case using Suc by simp
qed simp

lemma le_val_append: "le_val (xs @ ys) = le_val xs + 256 ^ length xs * le_val ys"
  by (induction xs) (simp_all add: algebra_simps)

text \<open>A packed length, as \<open>net_store_length\<close> stores it.\<close>

definition net_store_length :: "int \<Rightarrow> string" where
  "net_store_length len =
     (if len < 251 then [byte_of len]
      else if len < 65536 then byte_of 252 # le_store 2 len
      else if len < 16777216 then byte_of 253 # le_store 3 len
      else byte_of 254 # le_store 8 len)"

section \<open>Reading at a position\<close>

text \<open>From a position on, the event consists of the given bytes.\<close>

definition reads_as :: "string \<Rightarrow> nat \<Rightarrow> string \<Rightarrow> bool" where
  "reads_as b p s \<longleftrightarrow> (\<exists>pre. b = pre @ s \<and> length pre = p)"

lemma reads_as_start: "reads_as b 0 b"
  by (simp add: reads_as_def)

lemma reads_as_length: "reads_as b p s \<Longrightarrow> length b = p + length s"
  by (auto simp: reads_as_def)

lemma reads_as_step: "reads_as b p (x @ r) \<Longrightarrow> reads_as b (p + length x) r"
  unfolding reads_as_def by (metis append.assoc length_append)

lemma reads_as_skip: "reads_as b p (x @ r) \<Longrightarrow> q = p + length x \<Longrightarrow> reads_as b q r"
  using reads_as_step by simp

lemma rd_reads: "reads_as b p (x @ r) \<Longrightarrow> length x = n \<Longrightarrow> rd n b p = Inr (le_val x)"
  by (auto simp: reads_as_def rd_def ukorr_def)

lemma rd_bytes_reads: "reads_as b p (x @ r) \<Longrightarrow> length x = n \<Longrightarrow> rd_bytes n b p = Inr x"
  by (auto simp: reads_as_def rd_bytes_def)

lemma net_length_reads:
  assumes b: "reads_as b p (net_store_length len @ r)" and l: "0 \<le> len" "len < 2 ^ 32"
  shows "net_field_length b p = Inr (len, p + length (net_store_length len))"
proof -
  consider "len < 251" | "251 \<le> len" "len < 65536" | "65536 \<le> len" "len < 16777216" | "16777216 \<le> len"
    by linarith
  then show ?thesis
  proof cases
    case 1
    then have e: "net_store_length len = [byte_of len]" by (simp add: net_store_length_def)
    have "rd 1 b p = Inr (le_val [byte_of len])" using rd_reads [of b p "[byte_of len]" r 1] b by (simp add: e)
    then show ?thesis using 1 l by (simp add: net_field_length_def e)
  next
    case 2
    then have e: "net_store_length len = [byte_of 252] @ le_store 2 len" by (simp add: net_store_length_def)
    have b1: "reads_as b p ([byte_of 252] @ le_store 2 len @ r)" using b by (simp add: e)
    have "rd 1 b p = Inr 252" using rd_reads [OF b1, of 1] by simp
    moreover have "rd 2 b (p + 1) = Inr len"
      using rd_reads [of b "p + 1" "le_store 2 len" r 2] reads_as_step [OF b1] 2 by simp
    ultimately show ?thesis by (simp add: net_field_length_def e)
  next
    case 3
    then have e: "net_store_length len = [byte_of 253] @ le_store 3 len" by (simp add: net_store_length_def)
    have b1: "reads_as b p ([byte_of 253] @ le_store 3 len @ r)" using b by (simp add: e)
    have "rd 1 b p = Inr 253" using rd_reads [OF b1, of 1] by simp
    moreover have "rd 3 b (p + 1) = Inr len"
      using rd_reads [of b "p + 1" "le_store 3 len" r 3] reads_as_step [OF b1] 3 by simp
    ultimately show ?thesis by (simp add: net_field_length_def e)
  next
    case 4
    have sp: "le_store 8 len = le_store 4 len @ le_store 4 (len div 2 ^ 32)"
      by (simp add: eval_nat_numeral zdiv_zmult2_eq [symmetric])
    have e: "net_store_length len = [byte_of 254] @ le_store 4 len @ le_store 4 (len div 2 ^ 32)"
      using 4 by (simp add: net_store_length_def sp)
    have b1: "reads_as b p ([byte_of 254] @ le_store 4 len @ (le_store 4 (len div 2 ^ 32) @ r))" using b by (simp add: e)
    have "rd 1 b p = Inr 254" using rd_reads [OF b1, of 1] by simp
    moreover have "rd 4 b (p + 1) = Inr len"
      using rd_reads [of b "p + 1" "le_store 4 len" _ 4] reads_as_step [OF b1] l by simp
    ultimately show ?thesis by (simp add: net_field_length_def e)
  qed
qed

section \<open>Writing events\<close>

record event_header =
  eh_when :: int
  eh_server_id :: int
  eh_log_pos :: int
  eh_flags :: int

definition LOG_EVENT_HEADER_LEN :: nat where "LOG_EVENT_HEADER_LEN = 19"

definition write_header :: "event_header \<Rightarrow> nat \<Rightarrow> int \<Rightarrow> string" where
  "write_header h type_code data_written =
     le_store 4 (eh_when h) @ byte_of (int type_code) # le_store 4 (eh_server_id h) @ le_store 4 data_written
     @ le_store 4 (eh_log_pos h) @ le_store 2 (eh_flags h)"

text \<open>\<open>Log_event::write\<close>: the header announces the size that the class computes.\<close>

definition write_event :: "event_header \<Rightarrow> nat \<Rightarrow> nat \<Rightarrow> string \<Rightarrow> string \<Rightarrow> string" where
  "write_event h type_code data_size data footer =
     write_header h type_code (int (data_size + LOG_EVENT_HEADER_LEN + length footer)) @ data @ footer"

definition chars_of :: "nat list \<Rightarrow> string" where
  "chars_of xs = map char_of xs"

definition write_map_header :: "table_map \<Rightarrow> string" where
  "write_map_header tm = le_store 6 (tm_table_id tm) @ le_store 2 (tm_flags tm)"

definition write_map_body :: "table_map \<Rightarrow> string" where
  "write_map_body tm =
     byte_of (int (length (tm_dbnam tm))) # tm_dbnam tm @ NUL # byte_of (int (length (tm_tblnam tm))) # tm_tblnam tm
     @ NUL # net_store_length (int (length (tm_coltype tm))) @ chars_of (tm_coltype tm)
     @ net_store_length (int (length (tm_field_metadata tm))) @ chars_of (tm_field_metadata tm)
     @ chars_of (take ((length (tm_coltype tm) + 7) div 8) (tm_null_bits tm))"

text \<open>The size of the data, which the constructor for writing adds up.\<close>

definition map_data_size :: "table_map \<Rightarrow> nat" where
  "map_data_size tm =
     8 + (length (tm_dbnam tm) + 2) + (length (tm_tblnam tm) + 2)
     + (length (net_store_length (int (length (tm_coltype tm)))) + length (tm_coltype tm))
     + (length (tm_coltype tm) + 7) div 8
     + (if length (tm_field_metadata tm) < 251 then length (tm_field_metadata tm) + 1 else length (tm_field_metadata tm) + 3)"

definition write_table_map :: "event_header \<Rightarrow> table_map \<Rightarrow> string \<Rightarrow> string" where
  "write_table_map h tm footer =
     write_event h 19 (map_data_size tm) (write_map_header tm @ write_map_body tm) footer"

definition write_rows_header :: "int \<Rightarrow> int \<Rightarrow> string" where
  "write_rows_header tid flags = le_store 6 tid @ le_store 2 flags"

text \<open>The bit maps as bytes, the second one for updates only.\<close>

definition write_rows_body :: "row_kind \<Rightarrow> nat \<Rightarrow> string \<Rightarrow> string \<Rightarrow> string \<Rightarrow> string" where
  "write_rows_body k width cols cols_ai rows =
     net_store_length (int width) @ cols @ (if k = Update_rows then cols_ai else []) @ rows"

definition rows_data_size :: "row_kind \<Rightarrow> nat \<Rightarrow> string \<Rightarrow> nat" where
  "rows_data_size k width rows =
     8 + (width + 7) div 8 + length (net_store_length (int width))
     + (if k = Update_rows then (width + 7) div 8 else 0) + length rows"

fun rows_type_code :: "row_kind \<Rightarrow> nat" where
  "rows_type_code Write_rows = 23"
| "rows_type_code Update_rows = 24"
| "rows_type_code Delete_rows = 25"

definition write_rows_event ::
  "event_header \<Rightarrow> int \<Rightarrow> int \<Rightarrow> row_kind \<Rightarrow> nat \<Rightarrow> string \<Rightarrow> string \<Rightarrow> string \<Rightarrow> string \<Rightarrow> string" where
  "write_rows_event h tid flags k width cols cols_ai rows footer =
     write_event h (rows_type_code k) (rows_data_size k width rows)
       (write_rows_header tid flags @ write_rows_body k width cols cols_ai rows) footer"

section \<open>What is written fits the tables\<close>

text \<open>A table map of a table: ids and flags fit their fields, names have a length of one byte and no null
  byte in them, types, metadata and null bits are bytes.\<close>

definition table_map_ok :: "table_map \<Rightarrow> bool" where
  "table_map_ok tm \<longleftrightarrow>
     0 \<le> tm_table_id tm \<and> tm_table_id tm < 2 ^ 32 \<and> 0 \<le> tm_flags tm \<and> tm_flags tm < 2 ^ 16
     \<and> length (tm_dbnam tm) < 256 \<and> NUL \<notin> set (tm_dbnam tm) \<and> length (tm_tblnam tm) < 256 \<and> NUL \<notin> set (tm_tblnam tm)
     \<and> length (tm_coltype tm) \<le> 4096 \<and> (\<forall>t \<in> set (tm_coltype tm). t < 256)
     \<and> length (tm_field_metadata tm) \<le> length (tm_coltype tm) * 2 \<and> (\<forall>m \<in> set (tm_field_metadata tm). m < 256)
     \<and> length (tm_null_bits tm) = (length (tm_coltype tm) + 7) div 8 \<and> (\<forall>m \<in> set (tm_null_bits tm). m < 256)"

lemma length_write_header [simp]: "length (write_header h t n) = 19"
  by (simp add: write_header_def)

lemma bytes_of_chars [simp]: "\<forall>x \<in> set xs. x < 256 \<Longrightarrow> bytes_of (chars_of xs) = xs"
  by (induction xs) (simp_all add: bytes_of_def chars_of_def)

lemma length_chars_of [simp]: "length (chars_of xs) = length xs"
  by (simp add: chars_of_def)

lemma length_net_store: "0 \<le> len \<Longrightarrow> len < 65536 \<Longrightarrow> length (net_store_length len) = (if len < 251 then 1 else 3)"
  by (simp add: net_store_length_def)

text \<open>The sizes that are announced are the sizes of what is written.\<close>

lemma map_data_size_written:
  assumes "table_map_ok tm"
  shows "map_data_size tm = length (write_map_header tm @ write_map_body tm)"
proof -
  have "length (tm_field_metadata tm) < 65536" using assms by (auto simp: table_map_ok_def)
  then show ?thesis using assms
    by (simp add: map_data_size_def write_map_header_def write_map_body_def length_net_store table_map_ok_def)
qed

lemma rows_data_size_written:
  assumes "length cols = (width + 7) div 8" "length cols_ai = (width + 7) div 8"
  shows "rows_data_size k width rows = length (write_rows_header tid flags @ write_rows_body k width cols cols_ai rows)"
  using assms by (simp add: rows_data_size_def write_rows_header_def write_rows_body_def)

section \<open>Reading back\<close>

text \<open>Behind the header: the type and the size.\<close>

lemma write_event_reads:
  assumes b: "b = write_event h t n data footer" and n: "n = length data" and l: "length b < 2 ^ 32" and t: "t < 256"
  shows "rd 1 b 4 = Inr (int t)" "rd 4 b 9 = Inr (int (length b))" "reads_as b 19 (data @ footer)"
    "length b = 19 + length data + length footer"
proof -
  let ?size = "int (n + LOG_EVENT_HEADER_LEN + length footer)"
  show len: "length b = 19 + length data + length footer" by (simp add: b write_event_def)
  have "reads_as b 0 (le_store 4 (eh_when h) @ [byte_of (int t)] @ le_store 4 (eh_server_id h) @ le_store 4 ?size
      @ le_store 4 (eh_log_pos h) @ le_store 2 (eh_flags h) @ data @ footer)"
    using reads_as_start [of b] by (simp add: b write_event_def write_header_def)
  from reads_as_skip [OF this, of 4] have r4: "reads_as b 4 ([byte_of (int t)] @ le_store 4 (eh_server_id h)
      @ le_store 4 ?size @ le_store 4 (eh_log_pos h) @ le_store 2 (eh_flags h) @ data @ footer)"
    by simp
  show "rd 1 b 4 = Inr (int t)" using rd_reads [OF r4, of 1] t by simp
  from reads_as_skip [OF reads_as_skip [OF r4, of 5], of 9] have r9: "reads_as b 9 (le_store 4 ?size
      @ le_store 4 (eh_log_pos h) @ le_store 2 (eh_flags h) @ data @ footer)"
    by simp
  have "int (length b) mod 256 ^ 4 = int (length b)" using l by simp
  then show "rd 4 b 9 = Inr (int (length b))" using rd_reads [OF r9, of 4] len n by (simp add: LOG_EVENT_HEADER_LEN_def)
  from reads_as_skip [OF reads_as_skip [OF reads_as_skip [OF r9, of 13], of 17], of 19]
  show "reads_as b 19 (data @ footer)" by simp
qed

lemma read_name_reads:
  assumes "reads_as b p (name @ NUL # r)" "NUL \<notin> set name"
  shows "read_name b p (length name) = Inr name"
proof -
  have "rd_bytes (length name + 1) b p = Inr (name @ [NUL])"
    using rd_bytes_reads [of b p "name @ [NUL]" r] assms(1) by simp
  then show ?thesis using assms(2) by (simp add: read_name_def)
qed

lemma read_table_id_reads:
  assumes "reads_as b p (le_store 6 tid @ r)" "0 \<le> tid" "tid < 2 ^ 32" "phl \<noteq> 6"
  shows "read_table_id phl b p = Inr (tid, p + 6)"
  using rd_reads [OF assms(1), of 6] assms(2-4) by (simp add: read_table_id_def)

lemma read_columns_reads:
  assumes tm: "table_map_ok tm"
    and r: "reads_as b p (net_store_length (int (length (tm_coltype tm))) @ chars_of (tm_coltype tm)
      @ net_store_length (int (length (tm_field_metadata tm))) @ chars_of (tm_field_metadata tm)
      @ chars_of (tm_null_bits tm) @ footer)"
    and e: "event_len + length footer = length b"
  shows "read_columns b event_len (tm_table_id tm) (tm_flags tm) (tm_dbnam tm) (tm_tblnam tm) p = Inr (Some tm)"
proof -
  let ?n = "length (tm_coltype tm)" and ?m = "length (tm_field_metadata tm)"
  note ok = tm [unfolded table_map_ok_def]
  let ?p1 = "p + length (net_store_length (int ?n))"
  let ?p2 = "?p1 + ?n"
  let ?p3 = "?p2 + length (net_store_length (int ?m))"
  have n: "net_field_length b p = Inr (int ?n, ?p1)" using net_length_reads [OF r] ok by simp
  note r1 = reads_as_step [OF r]
  have t: "rd_bytes ?n b ?p1 = Inr (chars_of (tm_coltype tm))" using rd_bytes_reads [OF r1] by simp
  note r2 = reads_as_step [OF r1, unfolded length_chars_of]
  have m: "net_field_length b ?p2 = Inr (int ?m, ?p3)" using net_length_reads [OF r2] ok by simp
  note r3 = reads_as_step [OF r2]
  have md: "rd_bytes ?m b ?p3 = Inr (chars_of (tm_field_metadata tm))" using rd_bytes_reads [OF r3] by simp
  note r4 = reads_as_step [OF r3, unfolded length_chars_of]
  have nl: "rd_bytes ((?n + 7) div 8) b (?p3 + ?m) = Inr (chars_of (tm_null_bits tm))"
    using rd_bytes_reads [OF r4] ok by simp
  have nonempty: "net_store_length (int ?m) \<noteq> []" by (simp add: net_store_length_def)
  have len: "\<not> event_len \<le> ?p2" using reads_as_length [OF r2] e nonempty by simp
  have sz: "uint_of (int ?n * 2) = int ?n * 2" "nat (uint_of (int ?n + 7) div 8) = (?n + 7) div 8"
    using ok by (simp_all add: nat_div_distrib nat_add_distrib)
  show ?thesis using n t m md nl len sz ok by (simp add: read_columns_def Let_def)
qed

lemma table_map_read:
  assumes tm: "table_map_ok tm" and b: "b = write_table_map h tm footer" and l: "length b < 2 ^ 32"
    and fd: "fd_common_header_len fd = 19" "fd_post_header_len fd ! 18 = 8"
  shows "Table_map_log_event fd b (length b - length footer) = Inr (tm_table_id tm, Some tm)"
proof -
  let ?db = "tm_dbnam tm" and ?tbl = "tm_tblnam tm"
  note ok = tm [unfolded table_map_ok_def]
  let ?cols = "net_store_length (int (length (tm_coltype tm))) @ chars_of (tm_coltype tm)
      @ net_store_length (int (length (tm_field_metadata tm))) @ chars_of (tm_field_metadata tm)
      @ chars_of (tm_null_bits tm) @ footer"
  have n: "map_data_size tm = length (write_map_header tm @ write_map_body tm)" by (rule map_data_size_written [OF tm])
  note ev = write_event_reads [OF b [unfolded write_table_map_def] n l]
  have "reads_as b 19 (le_store 6 (tm_table_id tm) @ le_store 2 (tm_flags tm) @ [byte_of (int (length ?db))] @ ?db @ [NUL]
      @ [byte_of (int (length ?tbl))] @ ?tbl @ [NUL] @ ?cols)"
    using ev(3) ok by (simp add: write_map_header_def write_map_body_def)
  note r19 = this
  have tid: "read_table_id 8 b 19 = Inr (tm_table_id tm, 25)" using read_table_id_reads [OF r19, of 8] ok by simp
  note r25 = reads_as_step [OF r19, simplified length_le_store, simplified]
  have fl: "rd 2 b 25 = Inr (tm_flags tm)" using rd_reads [of b 25 "le_store 2 (tm_flags tm)" _ 2] r25 ok by simp
  note r27 = reads_as_skip [OF r25, of 27, simplified]
  have dl: "rd 1 b 27 = Inr (int (length ?db))" using rd_reads [of b 27 "[byte_of (int (length ?db))]" _ 1] r27 ok by simp
  have r28: "reads_as b 28 (?db @ NUL # byte_of (int (length ?tbl)) # ?tbl @ NUL # ?cols)"
    using reads_as_step [of b 27 "[byte_of (int (length ?db))]"] r27 by simp
  have db: "read_name b 28 (length ?db) = Inr ?db" by (rule read_name_reads [OF r28]) (use ok in simp)
  let ?pt = "29 + length ?db"
  have rt: "reads_as b ?pt ([byte_of (int (length ?tbl))] @ ?tbl @ NUL # ?cols)"
    using reads_as_step [of b 28 "?db @ [NUL]"] r28 by simp
  have tl: "rd 1 b ?pt = Inr (int (length ?tbl))" using rd_reads [OF rt, of 1] ok by simp
  have rt1: "reads_as b (?pt + 1) (?tbl @ NUL # ?cols)" using reads_as_step [OF rt] by simp
  have tbl: "read_name b (?pt + 1) (length ?tbl) = Inr ?tbl" by (rule read_name_reads [OF rt1]) (use ok in simp)
  let ?pc = "?pt + length ?tbl + 2"
  have rc: "reads_as b ?pc ?cols" using reads_as_step [of b "?pt + 1" "?tbl @ [NUL]"] rt1 by simp
  have el: "length b - length footer + length footer = length b" using ev(4) by simp
  have cols: "read_columns b (length b - length footer) (tm_table_id tm) (tm_flags tm) ?db ?tbl ?pc = Inr (Some tm)"
    by (rule read_columns_reads [OF tm rc el])
  have "net_store_length (int (length (tm_coltype tm))) \<noteq> []" by (simp add: net_store_length_def)
  then have long: "?pc < length b - length footer" using reads_as_length [OF rc] el by simp
  show ?thesis using tid fl dl db tl tbl cols long by (simp add: Table_map_log_event_def fd Let_def)
qed

text \<open>The rows event that is read back: the bit maps as bits.\<close>

definition rows_event_of :: "int \<Rightarrow> int \<Rightarrow> row_kind \<Rightarrow> nat \<Rightarrow> string \<Rightarrow> string \<Rightarrow> string \<Rightarrow> rows_event" where
  "rows_event_of addr tid k width cols cols_ai rows =
     \<lparr> re_kind = k, re_table_id = tid, re_cols = bitmap_of width cols,
       re_cols_ai = bitmap_of width (if k = Update_rows then cols_ai else cols), re_rows = rows, re_rows_addr = addr,
       re_extra = None \<rparr>"

lemma read_rows_reads:
  assumes r: "reads_as b p (write_rows_body k width cols cols_ai rows @ footer)"
    and e: "event_len + length footer = length b" and w: "width \<le> 4096"
    and c: "length cols = (width + 7) div 8" "length cols_ai = (width + 7) div 8"
  shows "read_rows k b event_len addr tid None p = Inr (Some (rows_event_of addr tid k width cols cols_ai rows))"
proof -
  let ?w = "net_store_length (int width)" and ?n = "(width + 7) div 8" and ?ai = "if k = Update_rows then cols_ai else []"
  have r0: "reads_as b p (?w @ cols @ ?ai @ rows @ footer)" using r by (simp add: write_rows_body_def)
  let ?p1 = "p + length ?w"
  have nl: "net_field_length b p = Inr (int width, ?p1)" using net_length_reads [OF r0] w by simp
  note r1 = reads_as_step [OF r0]
  have cb: "rd_bytes ?n b ?p1 = Inr cols" using rd_bytes_reads [OF r1] c by simp
  note r2 = reads_as_step [OF r1, unfolded c]
  have bb: "bitmap_bytes (int width) = ?n" using w by (simp add: bitmap_bytes_def nat_div_distrib nat_add_distrib)
  have len: "length b = ?p1 + ?n + length ?ai + length rows + length footer"
    using reads_as_length [OF r2] by simp
  show ?thesis
  proof (cases "k = Update_rows")
    case True
    have r2': "reads_as b (?p1 + ?n) (cols_ai @ rows @ footer)" using r2 True by simp
    have ab: "rd_bytes ?n b (?p1 + ?n) = Inr cols_ai" using rd_bytes_reads [OF r2'] c by simp
    note r3 = reads_as_step [OF r2', unfolded c]
    have rb: "rd_bytes (event_len - (?p1 + ?n + ?n)) b (?p1 + ?n + ?n) = Inr rows"
      using rd_bytes_reads [OF r3] len e True c by simp
    have "\<not> event_len < ?p1 + ?n" "\<not> event_len < ?p1 + ?n + ?n" using len e True c by simp_all
    then show ?thesis using nl cb ab rb bb True by (simp add: read_rows_def rows_event_of_def Let_def)
  next
    case False
    have r2': "reads_as b (?p1 + ?n) (rows @ footer)" using r2 False by simp
    have rb: "rd_bytes (event_len - (?p1 + ?n)) b (?p1 + ?n) = Inr rows"
      using rd_bytes_reads [OF r2'] len e False by simp
    have "\<not> event_len < ?p1 + ?n" using len e False by simp
    then show ?thesis using nl cb rb bb False by (simp add: read_rows_def rows_event_of_def Let_def)
  qed
qed

text \<open>Events of version 2 (MySQL 5.6) have two more bytes of header: the length of its variable part,
  here without extra information.\<close>

definition version_header :: "nat \<Rightarrow> string" where
  "version_header phl = (if phl = ROWS_HEADER_LEN_V2 then le_store 2 2 else [])"

lemma rows_read:
  assumes b: "b = write_event h t n data footer" and n: "n = length data" and l: "length b < 2 ^ 32"
    and data: "data = write_rows_header tid flags @ version_header phl @ write_rows_body k width cols cols_ai rows"
    and fd: "fd_common_header_len fd = 19" "fd_post_header_len fd ! (t - 1) = phl" "phl \<in> {8, ROWS_HEADER_LEN_V2}"
    and t: "0 < t" "t < 256" and tid: "0 \<le> tid" "tid < 2 ^ 32" and flags: "0 \<le> flags" "flags < 2 ^ 16"
    and w: "width \<le> 4096" and c: "length cols = (width + 7) div 8" "length cols_ai = (width + 7) div 8"
  shows "Rows_log_event fd addr b (length b - length footer) k =
    Inr (Some (flags, rows_event_of addr tid k width cols cols_ai rows))"
proof -
  note ev = write_event_reads [OF b n l t(2)]
  let ?body = "write_rows_body k width cols cols_ai rows @ footer"
  have r19: "reads_as b 19 (le_store 6 tid @ le_store 2 flags @ version_header phl @ ?body)"
    using ev(3) by (simp add: data write_rows_header_def)
  have phl: "phl = 8 \<or> phl = 10" using fd(3) by (auto simp: ROWS_HEADER_LEN_V2_def)
  then have "phl \<noteq> 6" by auto
  with r19 have ti: "read_table_id phl b 19 = Inr (tid, 25)" using read_table_id_reads [OF r19 tid] by simp
  note r25 = reads_as_step [OF r19, simplified length_le_store, simplified]
  have fl: "rd 2 b 25 = Inr flags" using rd_reads [of b 25 "le_store 2 flags" _ 2] r25 flags by simp
  note r27 = reads_as_skip [OF r25, of 27, simplified]
  have rb: "reads_as b (19 + phl) ?body" using phl
  proof
    assume "phl = 10"
    then show ?thesis using reads_as_skip [OF r27, of 29] by (simp add: version_header_def ROWS_HEADER_LEN_V2_def)
  next
    assume "phl = 8"
    then show ?thesis using r27 by (simp add: version_header_def ROWS_HEADER_LEN_V2_def)
  qed
  have el: "length b - length footer + length footer = length b" using ev(4) by simp
  have lb: "length b = 19 + phl + length ?body" using reads_as_length [OF rb] .
  have vh: "read_var_header phl b (length b - length footer) 27 = Inr (Some (0, None))" using phl
  proof
    assume p: "phl = 10"
    have "reads_as b 27 (le_store 2 2 @ ?body)" using r27 p by (simp add: version_header_def ROWS_HEADER_LEN_V2_def)
    then have v: "rd 2 b 27 = Inr 2" using rd_reads [of b 27 "le_store 2 2" _ 2] by simp
    have "read_chunks b 29 29 None = Inr None" by (simp add: read_chunks.simps)
    then show ?thesis using p v lb by (simp add: read_var_header_def ROWS_HEADER_LEN_V2_def)
  next
    assume "phl = 8"
    then show ?thesis by (simp add: read_var_header_def ROWS_HEADER_LEN_V2_def)
  qed
  have rr: "read_rows k b (length b - length footer) addr tid None (19 + phl) =
      Inr (Some (rows_event_of addr tid k width cols cols_ai rows))"
    by (rule read_rows_reads [OF rb el w c])
  have tt: "nat (int t) - 1 = t - 1" by simp
  show ?thesis using ev(1) ti fl vh rr fd lb by (simp add: Rows_log_event_def Let_def)
qed

end
