(* ===== verification/Row_Log.thy ===== *)
theory Row_Log
  imports Event_Writer
begin

text \<open>
  The events of one statement in the log: the table map and the rows events that the server wrote,
  read and printed one after the other with the options of the capture (verbose, decoded rows). The
  property says what the file holds then: the lines of the headers, and for every row its lines.
\<close>

section \<open>Printing what was written\<close>

text \<open>The print functions of the three kinds of rows events, without the option \<open>flashback\<close>, which
  exchanges the names of insertions and deletions.\<close>

fun rows_name :: "row_kind \<Rightarrow> string" where
  "rows_name Write_rows = ''Write_rows''"
| "rows_name Delete_rows = ''Delete_rows''"
| "rows_name Update_rows = ''Update_rows''"

definition print_rows_log_event ::
  "row_env \<Rightarrow> row_kind \<Rightarrow> string \<Rightarrow> int \<Rightarrow> bool \<Rightarrow> string \<Rightarrow> row_state \<Rightarrow> (bool \<times> row_state) res" where
  "print_rows_log_event env k header tid last_stmt_event b st =
     print_helper env header (rows_name k) tid last_stmt_event b st"

text \<open>The print state of the capture.\<close>

definition decoding :: "row_env \<Rightarrow> row_state \<Rightarrow> bool" where
  "decoding env st \<longleftrightarrow> 0 < v_verbose env \<and> \<not> v_short_form env
     \<and> base64_output_mode (w_info st) = BASE64_OUTPUT_DECODE_ROWS"

text \<open>The description of the log fits its events: their headers have 19 bytes, those of table maps 8
  more; a checksum has four bytes.\<close>

definition footer_ok :: "row_env \<Rightarrow> string \<Rightarrow> bool" where
  "footer_ok env footer \<longleftrightarrow> length footer = (if v_checksum env then 4 else 0)"

definition map_line :: "row_env \<Rightarrow> string \<Rightarrow> table_map \<Rightarrow> bool \<Rightarrow> string" where
  "map_line env header tm triggers =
     header @ CHR 0x09 # ''Table_map: '' @ v_quote env (tm_dbnam tm) @ ''.'' @ v_quote env (tm_tblnam tm)
     @ '' mapped to number '' @ show_dec (nat (tm_table_id tm)) @ (if triggers then '' (has triggers)'' else []) @ [NL]"

definition rows_line :: "string \<Rightarrow> row_kind \<Rightarrow> int \<Rightarrow> bool \<Rightarrow> string" where
  "rows_line header k tid last_event =
     header @ CHR 0x09 # rows_name k @ '': table id '' @ show_dec (nat tid) @ (if last_event then '' flags: STMT_END_F'' else []) @ [NL]"

lemma state_simps [simp]:
  "decoding env (to_head s st) = decoding env st" "decoding env (to_body s st) = decoding env st"
  "decoding env (count_events k st) = decoding env st" "decoding env (set_table t m st) = decoding env st"
  "decoding env (head_to_file st) = decoding env st" "decoding env (body_to_file st) = decoding env st"
  by (simp_all add: decoding_def to_head_def to_body_def count_events_def set_table_def head_to_file_def body_to_file_def)

lemma decoding_not_encoded [simp]: "decoding env st \<Longrightarrow> \<not> do_print_encoded env st"
  by (simp add: decoding_def do_print_encoded_def)

lemma announced_size:
  "footer_ok env footer \<Longrightarrow> n = 19 + m + length footer \<Longrightarrow> n < 2 ^ 32 \<Longrightarrow>
     nat (if v_checksum env then uint_of (int n - 4) else int n) = n - length footer"
  by (auto simp: footer_ok_def)

lemma map_printed:
  assumes tm: "table_map_ok tm" and b: "b = write_table_map h tm footer" and l: "length b < 2 ^ 32"
    and fd: "fd_common_header_len (v_fd env) = 19" "fd_post_header_len (v_fd env) ! 18 = 8"
    and f: "footer_ok env footer" and d: "decoding env st"
  shows "print_table_map env header (tm_dbnam tm) (tm_tblnam tm) (tm_table_id tm) triggers b st =
    Inr (False, head_to_file (set_table (tm_table_id tm) (Some tm) (to_head (map_line env header tm triggers) st)))"
proof -
  note ev = write_event_reads [OF b [unfolded write_table_map_def] map_data_size_written [OF tm] l]
  have sz: "nat (if v_checksum env then uint_of (int (length b) - 4) else int (length b)) = length b - length footer"
    by (rule announced_size [OF f ev(4) l]) simp
  let ?st = "to_head (map_line env header tm triggers) st"
  have "rows_print_base64 env False b ?st = Inr (False, set_table (tm_table_id tm) (Some tm) ?st)"
    using ev(1,2) sz table_map_read [OF tm b l fd] d
    by (simp add: rows_print_base64_def decoding_def Let_def)
  then show ?thesis using d by (simp add: print_table_map_def map_line_def decoding_def do_print_encoded_def to_head_def)
qed

section \<open>Rows events of a statement\<close>

text \<open>A rows event in the log: its header and the line that \<open>print_header\<close> makes of it, its kind, the
  length of its fixed header (8, or 10 for version 2), its bit maps and rows, and the checksum.\<close>

record sent_rows =
  sr_header :: event_header
  sr_line :: string
  sr_kind :: row_kind
  sr_phl :: nat
  sr_cols :: string
  sr_cols_ai :: string
  sr_rows :: "(image \<times> image option) list"
  sr_footer :: string

definition sent_type :: "sent_rows \<Rightarrow> nat" where
  "sent_type sr = (if sr_phl sr = ROWS_HEADER_LEN_V2 then rows_type_code (sr_kind sr) + 7 else rows_type_code (sr_kind sr))"

definition sent_data :: "int \<Rightarrow> nat \<Rightarrow> bool \<Rightarrow> sent_rows \<Rightarrow> string" where
  "sent_data tid width last_event sr =
     write_rows_header tid (if last_event then 1 else 0) @ version_header (sr_phl sr)
     @ write_rows_body (sr_kind sr) width (sr_cols sr) (sr_cols_ai sr) (concat (map row_text (sr_rows sr)))"

definition sent_bytes :: "int \<Rightarrow> nat \<Rightarrow> bool \<Rightarrow> sent_rows \<Rightarrow> string" where
  "sent_bytes tid width last_event sr =
     write_event (sr_header sr) (sent_type sr) (length (sent_data tid width last_event sr))
       (sent_data tid width last_event sr) (sr_footer sr)"

text \<open>With the header of version 1 these are the bytes that the server of this repository writes.\<close>

lemma sent_bytes_written:
  assumes "sr_phl sr = 8" "length (sr_cols sr) = (width + 7) div 8" "length (sr_cols_ai sr) = (width + 7) div 8"
  shows "sent_bytes tid width last_event sr =
    write_rows_event (sr_header sr) tid (if last_event then 1 else 0) (sr_kind sr) width (sr_cols sr) (sr_cols_ai sr)
      (concat (map row_text (sr_rows sr))) (sr_footer sr)"
  using rows_data_size_written [OF assms(2,3), of "sr_kind sr" "concat (map row_text (sr_rows sr))"] assms(1)
  by (simp add: sent_bytes_def sent_data_def sent_type_def write_rows_event_def version_header_def ROWS_HEADER_LEN_V2_def)

definition sent_event :: "int \<Rightarrow> int \<Rightarrow> nat \<Rightarrow> sent_rows \<Rightarrow> rows_event" where
  "sent_event addr tid width sr =
     rows_event_of addr tid (sr_kind sr) width (sr_cols sr) (sr_cols_ai sr) (concat (map row_text (sr_rows sr)))"

definition sent_ok :: "row_env \<Rightarrow> int \<Rightarrow> table_def \<Rightarrow> sent_rows \<Rightarrow> bool" where
  "sent_ok env tid td sr \<longleftrightarrow>
     sr_phl sr \<in> {8, ROWS_HEADER_LEN_V2} \<and> fd_post_header_len (v_fd env) ! (sent_type sr - 1) = sr_phl sr
     \<and> length (sr_cols sr) = (td_size td + 7) div 8 \<and> length (sr_cols_ai sr) = (td_size td + 7) div 8
     \<and> sr_rows sr \<noteq> [] \<and> (\<forall>r \<in> set (sr_rows sr). row_ok (v_floats env) td (sent_event (v_addr env) tid (td_size td) sr) r)
     \<and> footer_ok env (sr_footer sr) \<and> length (sent_bytes tid (td_size td) True sr) < 2 ^ 32
     \<and> v_addr env + int (length (concat (map row_text (sr_rows sr)))) < 2 ^ 32"

text \<open>The lines of the rows of an event.\<close>

definition sent_lines :: "row_env \<Rightarrow> table_map \<Rightarrow> table_def \<Rightarrow> sent_rows \<Rightarrow> string list" where
  "sent_lines env tm td sr =
     concat (map (row_lines (v_floats env) (v_quote env) (v_verbose env) tm td
       (sent_event (v_addr env) (tm_table_id tm) (td_size td) sr)) (sr_rows sr))"

lemma length_sent_bytes: "length (sent_bytes tid width l sr) = length (sent_bytes tid width True sr)"
  by (simp add: sent_bytes_def write_event_def sent_data_def write_rows_header_def)

lemma sent_type_range: "0 < sent_type sr" "sent_type sr < 256"
  by (cases "sr_kind sr"; simp add: sent_type_def)+

lemma sent_type_kind: "kind_of_type (sent_type sr) = Some (sr_kind sr)" "\<not> compressed_type (sent_type sr)" "sent_type sr \<noteq> 19"
  by (cases "sr_kind sr"; simp add: sent_type_def compressed_type_def)+

lemma wrapped_not [simp]: "wrapped_body_to_file env False st = body_to_file st"
  by (simp add: wrapped_body_to_file_def body_to_file_def wrapped_def Let_def)

lemma rows_printed_to_caches:
  assumes ok: "sent_ok env (tm_table_id tm) td sr" and tid: "0 \<le> tm_table_id tm" "tm_table_id tm < 2 ^ 32"
    and td: "create_table_def tm = Inr td" "td_size td \<le> 4096" and tab: "w_tables st (tm_table_id tm) = Some (Some tm)"
    and fd: "fd_common_header_len (v_fd env) = 19" and addr: "0 \<le> v_addr env" and d: "decoding env st"
  shows "rows_print_base64 env False (sent_bytes (tm_table_id tm) (td_size td) l sr) st =
    Inr (False, count_events (length (sr_rows sr)) (to_body (lines_nl (sent_lines env tm td sr)) st))"
proof -
  let ?tid = "tm_table_id tm" and ?w = "td_size td"
  note o = ok [unfolded sent_ok_def]
  define b where "b = sent_bytes ?tid ?w l sr"
  have b: "b = write_event (sr_header sr) (sent_type sr) (length (sent_data ?tid ?w l sr)) (sent_data ?tid ?w l sr) (sr_footer sr)"
    by (simp add: b_def sent_bytes_def)
  have l32: "length b < 2 ^ 32" using o length_sent_bytes by (metis b_def)
  note ev = write_event_reads [OF b refl l32 sent_type_range(2)]
  have sz: "nat (if v_checksum env then uint_of (int (length b) - 4) else int (length b)) = length b - length (sr_footer sr)"
    by (rule announced_size [OF _ ev(4) l32]) (use o in simp)
  let ?ev = "sent_event (v_addr env) ?tid ?w sr"
  have rl: "Rows_log_event (v_fd env) (v_addr env) b (length b - length (sr_footer sr)) (sr_kind sr) =
      Inr (Some (if l then 1 else 0, ?ev))"
    unfolding sent_event_def
    by (rule rows_read [OF b refl l32 sent_data_def fd _ _ sent_type_range tid]) (use o td in simp_all)
  have fields: "re_table_id ?ev = ?tid" "re_extra ?ev = None" "re_rows ?ev = concat (map row_text (sr_rows sr))"
    "re_rows_addr ?ev = v_addr env"
    by (simp_all add: sent_event_def rows_event_of_def)
  have pv: "print_verbose (v_floats env) (v_quote env) (v_verbose env) (\<lambda>_. Some tm) ?ev =
      Inr (lines_nl (sent_lines env tm td sr), length (sr_rows sr), None)"
    unfolding sent_lines_def by (rule print_verbose_rows [OF _ td(1)]) (use o addr in \<open>simp_all add: fields\<close>)
  have "print_rows_event env ?ev st = Inr (False, count_events (length (sr_rows sr)) (to_body (lines_nl (sent_lines env tm td sr)) st))"
    using pv d tab by (simp add: print_rows_event_def get_table_def fields decoding_def Let_def)
  then show ?thesis using ev(1,2) sz rl d sent_type_kind [of sr]
    by (simp add: rows_print_base64_def decoding_def Let_def b_def [symmetric] del: kind_of_type.simps)
qed

lemma rows_event_printed_once:
  assumes "sent_ok env (tm_table_id tm) td sr" "0 \<le> tm_table_id tm" "tm_table_id tm < 2 ^ 32"
    and "create_table_def tm = Inr td" "td_size td \<le> 4096" "w_tables st (tm_table_id tm) = Some (Some tm)"
    and "fd_common_header_len (v_fd env) = 19" "0 \<le> v_addr env" "decoding env st"
  shows "print_rows_log_event env (sr_kind sr) (sr_line sr) (tm_table_id tm) l (sent_bytes (tm_table_id tm) (td_size td) l sr) st =
    Inr (False, (\<lambda>s. if l then body_to_file (head_to_file s) else s)
      (count_events (length (sr_rows sr)) (to_body (lines_nl (sent_lines env tm td sr))
        (to_head (rows_line (sr_line sr) (sr_kind sr) (tm_table_id tm) l) st))))"
proof -
  let ?st = "to_head (rows_line (sr_line sr) (sr_kind sr) (tm_table_id tm) l) st"
  have d: "decoding env ?st" and t: "w_tables ?st (tm_table_id tm) = Some (Some tm)"
    using assms(6,9) by simp_all (simp add: to_head_def)
  have sf: "\<not> v_short_form env" using assms(9) by (simp add: decoding_def)
  show ?thesis
    using rows_printed_to_caches [OF assms(1-5) t assms(7,8) d, of l] sf decoding_not_encoded [OF d]
    by (cases l; simp add: print_rows_log_event_def print_helper_def rows_line_def Let_def)
qed

text \<open>The events one after the other, the last one with the flag for the end of the statement. Printing
  stops at an error.\<close>

fun print_rows_events :: "row_env \<Rightarrow> int \<Rightarrow> nat \<Rightarrow> sent_rows list \<Rightarrow> row_state \<Rightarrow> (bool \<times> row_state) res" where
  "print_rows_events env tid width [] st = Inr (False, st)"
| "print_rows_events env tid width (sr # srs) st =
     and_then (print_rows_log_event env (sr_kind sr) (sr_line sr) tid (srs = []) (sent_bytes tid width (srs = []) sr) st)
       (\<lambda>(failed, st'). if failed then Inr (True, st') else print_rows_events env tid width srs st')"

text \<open>What the file holds: the lines of the headers, then those of the rows.\<close>

fun head_text :: "int \<Rightarrow> sent_rows list \<Rightarrow> string" where
  "head_text tid [] = []"
| "head_text tid (sr # srs) = rows_line (sr_line sr) (sr_kind sr) tid (srs = []) @ head_text tid srs"

definition statement_lines :: "row_env \<Rightarrow> table_map \<Rightarrow> table_def \<Rightarrow> sent_rows list \<Rightarrow> string list" where
  "statement_lines env tm td srs = concat (map (sent_lines env tm td) srs)"

definition statement_rows :: "sent_rows list \<Rightarrow> nat" where
  "statement_rows srs = (\<Sum>sr \<leftarrow> srs. length (sr_rows sr))"

lemma caches_commute [simp]:
  "to_head s (to_body t st) = to_body t (to_head s st)"
  "to_head s (count_events k st) = count_events k (to_head s st)"
  "to_body s (count_events k st) = count_events k (to_body s st)"
  "to_head s (to_head t st) = to_head (t @ s) st" "to_body s (to_body t st) = to_body (t @ s) st"
  "count_events k (count_events j st) = count_events (j + k) st"
  by (simp_all add: to_head_def to_body_def count_events_def add.assoc)

lemma tables_kept [simp]:
  "w_tables (to_head s st) = w_tables st" "w_tables (to_body s st) = w_tables st" "w_tables (count_events k st) = w_tables st"
  "w_tables (head_to_file st) = w_tables st"
  by (simp_all add: to_head_def to_body_def count_events_def head_to_file_def)

lemma statement_printed:
  assumes "0 \<le> tm_table_id tm" "tm_table_id tm < 2 ^ 32" "create_table_def tm = Inr td" "td_size td \<le> 4096"
    and "fd_common_header_len (v_fd env) = 19" "0 \<le> v_addr env"
    and "srs \<noteq> []" "\<forall>sr \<in> set srs. sent_ok env (tm_table_id tm) td sr"
    and "w_tables st (tm_table_id tm) = Some (Some tm)" "decoding env st"
  shows "print_rows_events env (tm_table_id tm) (td_size td) srs st =
    Inr (False, body_to_file (head_to_file (count_events (statement_rows srs)
      (to_body (lines_nl (statement_lines env tm td srs)) (to_head (head_text (tm_table_id tm) srs) st)))))"
  using assms(7-10)
proof (induction srs arbitrary: st)
  case (Cons sr srs)
  have ok: "sent_ok env (tm_table_id tm) td sr" using Cons.prems by simp
  note one = rows_event_printed_once [OF ok assms(1-4) Cons.prems(3) assms(5,6) Cons.prems(4)]
  show ?case
  proof (cases "srs = []")
    case True
    then show ?thesis using one [of True] by (simp add: statement_lines_def statement_rows_def)
  next
    case False
    let ?st = "count_events (length (sr_rows sr)) (to_body (lines_nl (sent_lines env tm td sr))
        (to_head (rows_line (sr_line sr) (sr_kind sr) (tm_table_id tm) False) st))"
    have "print_rows_events env (tm_table_id tm) (td_size td) srs ?st =
        Inr (False, body_to_file (head_to_file (count_events (statement_rows srs)
          (to_body (lines_nl (statement_lines env tm td srs)) (to_head (head_text (tm_table_id tm) srs) ?st)))))"
      by (rule Cons.IH [OF False]) (use Cons.prems in simp_all)
    then show ?thesis using one [of False] False by (simp add: statement_lines_def statement_rows_def)
  qed
qed simp

section \<open>Properties\<close>

definition demo_header :: event_header where
  "demo_header = \<lparr> eh_when = 1700000000, eh_server_id = 1, eh_log_pos = 500, eh_flags = 0 \<rparr>"

definition demo_fd :: fd_event where
  "demo_fd = \<lparr> fd_common_header_len = 19, fd_post_header_len = replicate 165 8 \<rparr>"

lemma demo_table_ok: "table_map_ok demo_table"
  by (simp add: table_map_ok_def demo_table_def)

lemma length_demo_table: "length (write_table_map demo_header demo_table footer) = 40 + length footer"
proof -
  have "map_data_size demo_table = 21" by (simp add: map_data_size_def demo_table_def length_net_store)
  then show ?thesis using map_data_size_written [OF demo_table_ok] by (simp add: write_table_map_def write_event_def)
qed

lemma statement_to_file:
  assumes "table_map_ok tm" "length (write_table_map h tm footer) < 2 ^ 32" "footer_ok env footer"
    and "fd_common_header_len (v_fd env) = 19" "fd_post_header_len (v_fd env) ! 18 = 8"
    and "create_table_def tm = Inr td" "0 \<le> v_addr env" "decoding env st"
    and "srs \<noteq> []" "\<forall>sr \<in> set srs. sent_ok env (tm_table_id tm) td sr"
  shows "\<exists>st1 st2.
    print_table_map env header (tm_dbnam tm) (tm_tblnam tm) (tm_table_id tm) triggers (write_table_map h tm footer) st = Inr (False, st1)
    \<and> print_rows_events env (tm_table_id tm) (td_size td) srs st1 = Inr (False, st2)
    \<and> w_file st2 = w_file st @ head_cache (w_info st) @ map_line env header tm triggers @ head_text (tm_table_id tm) srs
        @ body_cache (w_info st) @ lines_nl (statement_lines env tm td srs)
    \<and> head_cache (w_info st2) = [] \<and> body_cache (w_info st2) = []
    \<and> row_events (w_info st2) = row_events (w_info st) + of_nat (statement_rows srs)"
proof -
  let ?st = "head_to_file (set_table (tm_table_id tm) (Some tm) (to_head (map_line env header tm triggers) st))"
  have tid: "0 \<le> tm_table_id tm" "tm_table_id tm < 2 ^ 32" using assms(1) by (simp_all add: table_map_ok_def)
  have td: "td_size td \<le> 4096" using assms(1,6)
    by (auto simp: table_map_ok_def create_table_def_def new_table_def_def td_size_def elim!: and_then_eq_InrE)
  have "w_tables ?st (tm_table_id tm) = Some (Some tm)" by (simp add: set_table_def)
  then have r: "print_rows_events env (tm_table_id tm) (td_size td) srs ?st =
    Inr (False, body_to_file (head_to_file (count_events (statement_rows srs)
      (to_body (lines_nl (statement_lines env tm td srs)) (to_head (head_text (tm_table_id tm) srs) ?st)))))"
    using assms(8) by (intro statement_printed [OF tid assms(6) td assms(4,7,9,10)]) simp_all
  show ?thesis
  proof (intro exI conjI)
    show "print_table_map env header (tm_dbnam tm) (tm_tblnam tm) (tm_table_id tm) triggers (write_table_map h tm footer) st =
        Inr (False, ?st)"
      by (rule map_printed [OF assms(1) refl assms(2,4,5,3,8)])
  qed (rule r, simp_all add: to_head_def to_body_def head_to_file_def body_to_file_def count_events_def set_table_def)
qed

text \<open>C13: A statement of the log from its bytes to the file: the table map and then any number of rows
  events that the server wrote for it, of both versions of the header, print as the line of the table
  map, the lines of the events, and for every row of every event, in order, its lines. Nothing waits
  in the caches then, and the rows are counted.\<close>

theorem statement_in_file:
  assumes "table_map_ok tm" "length (write_table_map h tm footer) < 2 ^ 32" "footer_ok env footer"
    and "fd_common_header_len (v_fd env) = 19" "fd_post_header_len (v_fd env) ! 18 = 8"
    and "create_table_def tm = Inr td" "0 \<le> v_addr env" "decoding env st"
    and "srs \<noteq> []" "\<forall>sr \<in> set srs. sent_ok env (tm_table_id tm) td sr"
  shows "\<exists>st1 st2.
    print_table_map env header (tm_dbnam tm) (tm_tblnam tm) (tm_table_id tm) triggers (write_table_map h tm footer) st = Inr (False, st1)
    \<and> print_rows_events env (tm_table_id tm) (td_size td) srs st1 = Inr (False, st2)
    \<and> w_file st2 = w_file st @ head_cache (w_info st) @ map_line env header tm triggers @ head_text (tm_table_id tm) srs
        @ body_cache (w_info st) @ lines_nl (statement_lines env tm td srs)
    \<and> head_cache (w_info st2) = [] \<and> body_cache (w_info st2) = []
    \<and> row_events (w_info st2) = row_events (w_info st) + of_nat (statement_rows srs)"
  using assms by (rule statement_to_file)

definition demo_row_env :: row_env where
  "demo_row_env = \<lparr> v_floats = demo_floats, v_quote = backquote, v_encode = id, v_inflate = (\<lambda>_. None), v_fd = demo_fd,
     v_checksum = False, v_addr = 4096, v_verbose = 1, v_short_form = False, v_max_encoded = 0 \<rparr>"

definition demo_row_state :: row_state where
  "demo_row_state = \<lparr> w_info = demo_pinfo, w_file = [], w_tables = (\<lambda>_. None) \<rparr>"

definition demo_sent :: sent_rows where
  "demo_sent = \<lparr> sr_header = demo_header, sr_line = ''#1'', sr_kind = Write_rows, sr_phl = 8, sr_cols = [CHR 0x03],
     sr_cols_ai = [CHR 0x03], sr_rows = demo_rows, sr_footer = [] \<rparr>"

lemma demo_decoding: "decoding demo_row_env demo_row_state"
  by (simp add: decoding_def demo_row_env_def demo_row_state_def demo_pinfo_def)

lemma demo_sent_event: "sent_event 4096 7 2 demo_sent = demo_rows_event"
  by (simp add: sent_event_def rows_event_of_def demo_sent_def demo_rows_event_def) code_simp

lemma demo_sent_ok: "sent_ok demo_row_env 7 demo_def demo_sent"
proof -
  have l: "length (concat (map row_text demo_rows)) = 13" by code_simp
  have n: "td_size demo_def = 2" "demo_rows \<noteq> []" by (simp_all add: td_size_def demo_def_def demo_rows_def)
  have "length (sent_bytes 7 2 True demo_sent) < 2 ^ 32"
    using l by (simp add: sent_bytes_def write_event_def sent_data_def write_rows_header_def write_rows_body_def demo_sent_def
        version_header_def ROWS_HEADER_LEN_V2_def length_net_store)
  then show ?thesis using demo_rows_ok(2) demo_sent_event l n
    by (simp add: sent_ok_def sent_type_def footer_ok_def) (simp add: demo_row_env_def demo_sent_def demo_fd_def ROWS_HEADER_LEN_V2_def)
qed

lemma demo_statement_lines:
  "statement_lines demo_row_env demo_table demo_def [demo_sent] =
      [''### INSERT INTO `d`.`t`'', ''### SET'', ''###   @1=5'', ''###   @2='' @ my_b_write_quoted [CHR ''a'', CHR 0x0A],
       ''### INSERT INTO `d`.`t`'', ''### SET'', ''###   @1=-1 (4294967295)'', ''###   @2=NULL'']"
proof -
  have names: "tm_table_id demo_table = 7" "td_size demo_def = 2"
    by (simp_all add: demo_table_def td_size_def demo_def_def)
  have vb: "row_comment (Suc 0) = row_comment 0" by (intro ext) (simp add: row_comment_def)
  have rl: "row_lines fe q (Suc 0) = row_lines fe q 0" for fe q
    by (intro ext) (simp add: row_lines_def image_lines_def vb split: option.split)
  have env: "v_floats demo_row_env = demo_floats" "v_quote demo_row_env = backquote" "v_verbose demo_row_env = 1"
    "v_addr demo_row_env = 4096"
    by (simp_all add: demo_row_env_def)
  show ?thesis unfolding demo_rows_lines [symmetric]
    by (simp add: statement_lines_def sent_lines_def env names demo_sent_event rl) (simp add: demo_sent_def)
qed

theorem statement_in_file_witness:
  "\<exists>st1 st2. print_table_map demo_row_env ''#0'' ''d'' ''t'' 7 False (write_table_map demo_header demo_table []) demo_row_state
        = Inr (False, st1)
    \<and> print_rows_events demo_row_env 7 2 [demo_sent] st1 = Inr (False, st2)
    \<and> w_file st2 = lines_nl [''#0'' @ CHR 0x09 # ''Table_map: `d`.`t` mapped to number 7'',
        ''#1'' @ CHR 0x09 # ''Write_rows: table id 7 flags: STMT_END_F'', ''### INSERT INTO `d`.`t`'', ''### SET'', ''###   @1=5'',
        ''###   @2='' @ my_b_write_quoted [CHR ''a'', CHR 0x0A], ''### INSERT INTO `d`.`t`'', ''### SET'',
        ''###   @1=-1 (4294967295)'', ''###   @2=NULL'']
    \<and> row_events (w_info st2) = 2"
proof -
  have names: "tm_dbnam demo_table = ''d''" "tm_tblnam demo_table = ''t''" "tm_table_id demo_table = 7" "td_size demo_def = 2"
    by (simp_all add: demo_table_def td_size_def demo_def_def)
  have env: "v_quote demo_row_env = backquote" "v_addr demo_row_env = 4096" "fd_common_header_len (v_fd demo_row_env) = 19" "fd_post_header_len (v_fd demo_row_env) ! 18 = 8"
    by (simp_all add: demo_row_env_def demo_fd_def)
  have texts: "head_text 7 [demo_sent] = ''#1'' @ CHR 0x09 # ''Write_rows: table id 7 flags: STMT_END_F'' @ [NL]"
    "map_line demo_row_env ''#0'' demo_table False = ''#0'' @ CHR 0x09 # ''Table_map: `d`.`t` mapped to number 7'' @ [NL]"
    by (simp_all add: rows_line_def demo_sent_def map_line_def names env backquote_def show_dec.simps digit_chars)
  have start: "head_cache (w_info demo_row_state) = []" "body_cache (w_info demo_row_state) = []" "w_file demo_row_state = []"
    "row_events (w_info demo_row_state) = 0"
    by (simp_all add: demo_row_state_def demo_pinfo_def)
  have two: "statement_rows [demo_sent] = 2" by (simp add: statement_rows_def demo_sent_def demo_rows_def)
  have l: "length (write_table_map demo_header demo_table []) < 2 ^ 32" by (simp add: length_demo_table)
  have f: "footer_ok demo_row_env []" by (simp add: footer_ok_def demo_row_env_def)
  obtain st1 st2 where st: "print_table_map demo_row_env ''#0'' ''d'' ''t'' 7 False (write_table_map demo_header demo_table [])
        demo_row_state = Inr (False, st1)" "print_rows_events demo_row_env 7 2 [demo_sent] st1 = Inr (False, st2)"
    "w_file st2 = map_line demo_row_env ''#0'' demo_table False @ head_text 7 [demo_sent]
        @ lines_nl (statement_lines demo_row_env demo_table demo_def [demo_sent])" "row_events (w_info st2) = 2"
    using statement_in_file [OF demo_table_ok l f env(3,4) demo_rows_ok(1) _ demo_decoding, of "[demo_sent]" "''#0''" False]
      demo_sent_ok env(2) two
    unfolding names start by auto
  show ?thesis
  proof (intro exI conjI)
    show "w_file st2 = lines_nl [''#0'' @ CHR 0x09 # ''Table_map: `d`.`t` mapped to number 7'',
        ''#1'' @ CHR 0x09 # ''Write_rows: table id 7 flags: STMT_END_F'', ''### INSERT INTO `d`.`t`'', ''### SET'', ''###   @1=5'',
        ''###   @2='' @ my_b_write_quoted [CHR ''a'', CHR 0x0A], ''### INSERT INTO `d`.`t`'', ''### SET'',
        ''###   @1=-1 (4294967295)'', ''###   @2=NULL'']"
      unfolding st(3) texts demo_statement_lines by simp
  qed (fact st)+
qed

end
