(* ===== verification/Query_Events.thy ===== *)
theory Query_Events
  imports Event_Writer
begin

text \<open>
  Statements in the log: the common header that every event begins with (\<open>Log_event::Log_event\<close>), and
  query events with their status variables, as the constructor of \<open>Query_log_event\<close> reads and the
  server's \<open>write\<close> writes them. The status variables are codes with values of known lengths; the reader
  skips everything behind a code that it does not know.
\<close>

section \<open>The common header\<close>

text \<open>The position of an event in a log of format 3 is its beginning; \<open>bv\<close> is the format that the
  description of the log names.\<close>

definition Log_event_header :: "nat \<Rightarrow> string \<Rightarrow> event_header res" where
  "Log_event_header bv b =
     and_then (rd 4 b 0) (\<lambda>when. and_then (rd 4 b 5) (\<lambda>sid. and_then (rd 4 b 9) (\<lambda>written.
     if bv = 1 then Inr \<lparr> eh_when = when, eh_server_id = sid, eh_log_pos = 0, eh_flags = 0 \<rparr>
     else and_then (rd 4 b 13) (\<lambda>pos. and_then (rd 1 b 4) (\<lambda>t. and_then (rd 2 b 17) (\<lambda>flags.
       Inr \<lparr> eh_when = when, eh_server_id = sid,
             eh_log_pos = (if bv = 3 \<and> t < 15 \<and> pos \<noteq> 0 then pos + written else pos), eh_flags = flags \<rparr>))))))"

section \<open>Status variables\<close>

text \<open>What the variables say; those that may be missing have their value only when they were there.
  Without the time fraction \<open>when_sec_part\<close> keeps the value for none.\<close>

record status_vars =
  sv_flags2 :: "int option"
  sv_sql_mode :: "int option"
  sv_catalog :: string
  sv_increment :: int
  sv_offset :: int
  sv_charset :: "string option"
  sv_time_zone :: string
  sv_lc_time_names :: int
  sv_charset_database :: int
  sv_table_map_for_update :: int
  sv_master_data_written :: int
  sv_user :: string
  sv_host :: string
  sv_sec_part :: "int option"

definition no_status :: status_vars where
  "no_status = \<lparr> sv_flags2 = None, sv_sql_mode = None, sv_catalog = [], sv_increment = 1, sv_offset = 1,
     sv_charset = None, sv_time_zone = [], sv_lc_time_names = 0, sv_charset_database = 0,
     sv_table_map_for_update = 0, sv_master_data_written = 0, sv_user = [], sv_host = [], sv_sec_part = None \<rparr>"

text \<open>\<open>CHECK_SPACE\<close>: the next bytes, if the variables have that many.\<close>

definition take_space :: "nat \<Rightarrow> string \<Rightarrow> (string \<times> string) option" where
  "take_space n r = (if length r < n then None else Some (take n r, drop n r))"

text \<open>A string with its length in front.\<close>

definition get_str_len_and_pointer :: "string \<Rightarrow> (string \<times> string) option" where
  "get_str_len_and_pointer r = (case r of
       [] \<Rightarrow> None
     | c # cs \<Rightarrow>
         let len = nat (ubyte c)
         in if 0 < len \<and> length cs < len then None else Some (take len cs, drop len cs))"

text \<open>The user and the host: two strings, each with its length.\<close>

definition get_invoker :: "string \<Rightarrow> (string \<times> string \<times> string) option" where
  "get_invoker r = Option.bind (take_space 1 r) (\<lambda>(ul, r1).
     Option.bind (take_space (nat (le_val ul)) r1) (\<lambda>(user, r2).
     Option.bind (take_space 1 r2) (\<lambda>(hl, r3).
     Option.bind (take_space (nat (le_val hl)) r3) (\<lambda>(host, r4). Some (user, host, r4)))))"

text \<open>One variable: the rest of the bytes and the values known then.\<close>

definition read_status_var :: "nat \<Rightarrow> string \<Rightarrow> status_vars \<Rightarrow> (string \<times> status_vars) option" where
  "read_status_var code r v =
     (if code = 0 then map_option (\<lambda>(x, s). (s, v\<lparr>sv_flags2 := Some (le_val x)\<rparr>)) (take_space 4 r)
      else if code = 1 then map_option (\<lambda>(x, s). (s, v\<lparr>sv_sql_mode := Some (le_val x)\<rparr>)) (take_space 8 r)
      else if code = 6 then map_option (\<lambda>(x, s). (s, v\<lparr>sv_catalog := x\<rparr>)) (get_str_len_and_pointer r)
      else if code = 3 then
        map_option (\<lambda>(x, s). (s, v\<lparr>sv_increment := ukorr 2 x, sv_offset := ukorr 2 (drop 2 x)\<rparr>)) (take_space 4 r)
      else if code = 4 then map_option (\<lambda>(x, s). (s, v\<lparr>sv_charset := Some x\<rparr>)) (take_space 6 r)
      else if code = 5 then map_option (\<lambda>(x, s). (s, v\<lparr>sv_time_zone := x\<rparr>)) (get_str_len_and_pointer r)
      else if code = 2 then
        Option.bind (take_space 1 r) (\<lambda>(l, _). let len = nat (le_val l) in
          map_option (\<lambda>(x, s). (s, v\<lparr>sv_catalog := take len (tl x)\<rparr>)) (take_space (len + 2) r))
      else if code = 7 then map_option (\<lambda>(x, s). (s, v\<lparr>sv_lc_time_names := le_val x\<rparr>)) (take_space 2 r)
      else if code = 8 then map_option (\<lambda>(x, s). (s, v\<lparr>sv_charset_database := le_val x\<rparr>)) (take_space 2 r)
      else if code = 9 then map_option (\<lambda>(x, s). (s, v\<lparr>sv_table_map_for_update := le_val x\<rparr>)) (take_space 8 r)
      else if code = 10 then map_option (\<lambda>(x, s). (s, v\<lparr>sv_master_data_written := le_val x\<rparr>)) (take_space 4 r)
      else if code = 11 then map_option (\<lambda>(u, h, s). (s, v\<lparr>sv_user := u, sv_host := h\<rparr>)) (get_invoker r)
      else if code = 128 then map_option (\<lambda>(x, s). (s, v\<lparr>sv_sec_part := Some (le_val x)\<rparr>)) (take_space 3 r)
      else Some ([], v))"

text \<open>A variable consumes only bytes that are there.\<close>

lemma take_space_length: "take_space n r = Some (x, s) \<Longrightarrow> length s \<le> length r \<and> r = x @ s"
  by (auto simp: take_space_def split: if_splits)

lemma get_str_length: "get_str_len_and_pointer r = Some (x, s) \<Longrightarrow> length s \<le> length r"
  by (auto simp: get_str_len_and_pointer_def Let_def split: list.splits if_splits)

lemma get_invoker_length: "get_invoker r = Some (u, h, s) \<Longrightarrow> length s \<le> length r"
  by (auto simp: get_invoker_def bind_eq_Some_conv dest!: take_space_length)

lemma read_status_var_length: "read_status_var code r v = Some (s, w) \<Longrightarrow> length s \<le> length r"
  by (auto simp: read_status_var_def Let_def bind_eq_Some_conv split: if_splits
      dest!: take_space_length get_str_length get_invoker_length)

function read_status :: "string \<Rightarrow> status_vars \<Rightarrow> status_vars option" where
  "read_status [] v = Some v"
| "read_status (c # r) v = (case read_status_var (nat (ubyte c)) r v of
       None \<Rightarrow> None
     | Some (s, w) \<Rightarrow> read_status s w)"
  by pat_completeness auto
termination
  by (relation "measure (\<lambda>(s, _). length s)") (auto dest!: read_status_var_length)

section \<open>Reading a query event\<close>

definition QUERY_HEADER_MINIMAL_LEN :: nat where "QUERY_HEADER_MINIMAL_LEN = 11"
definition QUERY_HEADER_LEN :: nat where "QUERY_HEADER_LEN = 13"
definition MAX_SIZE_LOG_EVENT_STATUS :: nat where
  "MAX_SIZE_LOG_EVENT_STATUS =
     5 + 9 + (1 + 1 + 255) + 5 + 7 + (1 + 1 + 255) + 3 + 3 + 9 + 5 + 4 + (1 + 16 + 1 + 60)"

text \<open>The name of the database and the byte behind it, which should be the end of the string but is
  whatever the event holds there.\<close>

record query_event =
  qe_header :: event_header
  qe_thread_id :: int
  qe_exec_time :: int
  qe_error_code :: int
  qe_vars :: status_vars
  qe_db :: string
  qe_db_end :: char
  qe_query :: string

text \<open>The end of the constructor: the data is the database, a byte, and the query, and the lengths must
  agree. No query means that the event is not valid.\<close>

definition query_data :: "nat \<Rightarrow> int \<Rightarrow> nat \<Rightarrow> string \<Rightarrow> (string \<times> char \<times> string) option" where
  "query_data event_len db_len end_pos data =
     (let data_len = int (length data); q_len = uint_of (data_len - db_len - 1); q_start = int end_pos + db_len + 1
      in if 0 < data_len \<and> (data_len < db_len \<or> data_len < q_len \<or> data_len \<noteq> uint_of (db_len + q_len + 1)) then None
         else if q_len \<noteq> uint_of (int event_len - q_start) \<or> int event_len < q_start then None
         else Some (take (nat db_len) data, data ! nat db_len, drop (nat db_len + 1) data))"

definition Query_log_event ::
  "nat \<Rightarrow> fd_event \<Rightarrow> string \<Rightarrow> nat \<Rightarrow> nat \<Rightarrow> query_event option res" where
  "Query_log_event bv fd b event_len event_type =
     and_then (Log_event_header bv b) (\<lambda>h.
     let chl = fd_common_header_len fd; phl = fd_post_header_len fd ! (event_type - 1)
     in if event_len < chl + phl then Inr None
        else and_then (rd 4 b chl) (\<lambda>tid. and_then (rd 4 b (chl + 4)) (\<lambda>ext.
             and_then (rd 1 b (chl + 8)) (\<lambda>db_len. and_then (rd 2 b (chl + 9)) (\<lambda>err.
             and_then (if phl = QUERY_HEADER_MINIMAL_LEN then Inr 0 else rd 2 b (chl + 11)) (\<lambda>svl.
               let data_len = event_len - (chl + phl); start = chl + phl; svars = nat svl
               in if min data_len MAX_SIZE_LOG_EVENT_STATUS < svars then Inr None
                  else and_then (rd_bytes svars b start) (\<lambda>status.
                       case read_status status no_status of
                         None \<Rightarrow> Inr None
                       | Some v \<Rightarrow>
                           and_then (rd_bytes (data_len - svars) b (start + svars)) (\<lambda>data.
                           Inr (map_option (\<lambda>(db, e, q). \<lparr> qe_header = h, qe_thread_id = tid, qe_exec_time = ext,
                                 qe_error_code = err, qe_vars = v, qe_db = db, qe_db_end = e, qe_query = q \<rparr>)
                               (query_data event_len db_len (start + svars) data))))))))))"

section \<open>Writing a query event\<close>

text \<open>The variables in the order of their codes, those with their usual values left out. The user is that
  of the invoker, empty when the statement needs none.\<close>

definition store_str_with_code_and_len :: "string \<Rightarrow> int \<Rightarrow> string" where
  "store_str_with_code_and_len s code = byte_of code # byte_of (int (length s)) # s"

definition write_status :: "status_vars \<Rightarrow> string" where
  "write_status v =
     (case sv_flags2 v of None \<Rightarrow> [] | Some x \<Rightarrow> byte_of 0 # le_store 4 x)
     @ (case sv_sql_mode v of None \<Rightarrow> [] | Some x \<Rightarrow> byte_of 1 # le_store 8 x)
     @ (if sv_catalog v = [] then [] else store_str_with_code_and_len (sv_catalog v) 6)
     @ (if sv_increment v \<noteq> 1 \<or> sv_offset v \<noteq> 1
        then byte_of 3 # le_store 2 (sv_increment v) @ le_store 2 (sv_offset v) else [])
     @ (case sv_charset v of None \<Rightarrow> [] | Some x \<Rightarrow> byte_of 4 # x)
     @ (if sv_time_zone v = [] then [] else store_str_with_code_and_len (sv_time_zone v) 5)
     @ (if sv_lc_time_names v \<noteq> 0 then byte_of 7 # le_store 2 (sv_lc_time_names v) else [])
     @ (if sv_charset_database v \<noteq> 0 then byte_of 8 # le_store 2 (sv_charset_database v) else [])
     @ (if sv_table_map_for_update v \<noteq> 0 then byte_of 9 # le_store 8 (sv_table_map_for_update v) else [])
     @ (if sv_master_data_written v \<noteq> 0 then byte_of 10 # le_store 4 (sv_master_data_written v) else [])
     @ (if sv_user v = [] then []
        else byte_of 11 # byte_of (int (length (sv_user v))) # sv_user v @ byte_of (int (length (sv_host v))) # sv_host v)
     @ (case sv_sec_part v of None \<Rightarrow> [] | Some x \<Rightarrow> byte_of 128 # le_store 3 x)"

definition write_query_header :: "query_event \<Rightarrow> nat \<Rightarrow> string" where
  "write_query_header q svl =
     le_store 4 (qe_thread_id q) @ le_store 4 (qe_exec_time q) @ [byte_of (int (length (qe_db q)))]
     @ le_store 2 (qe_error_code q) @ le_store 2 (int svl)"

definition write_query_event :: "query_event \<Rightarrow> string \<Rightarrow> string" where
  "write_query_event q footer =
     (let status = write_status (qe_vars q);
          data = write_query_header q (length status) @ status @ qe_db q @ NUL # qe_query q
      in write_event (qe_header q) 2 (QUERY_HEADER_LEN + length status + length (qe_db q) + 1 + length (qe_query q)) data footer)"

section \<open>Reading back\<close>

text \<open>The values that a server writes: numbers that fit their fields, strings that fit their lengths.\<close>

definition status_ok :: "status_vars \<Rightarrow> bool" where
  "status_ok v \<longleftrightarrow>
     (\<forall>x \<in> set_option (sv_flags2 v). 0 \<le> x \<and> x < 2 ^ 32) \<and> (\<forall>x \<in> set_option (sv_sql_mode v). 0 \<le> x \<and> x < 2 ^ 64)
     \<and> length (sv_catalog v) < 256 \<and> 0 \<le> sv_increment v \<and> sv_increment v < 2 ^ 16 \<and> 0 \<le> sv_offset v \<and> sv_offset v < 2 ^ 16
     \<and> (\<forall>x \<in> set_option (sv_charset v). length x = 6) \<and> length (sv_time_zone v) < 256
     \<and> 0 \<le> sv_lc_time_names v \<and> sv_lc_time_names v < 2 ^ 16 \<and> 0 \<le> sv_charset_database v \<and> sv_charset_database v < 2 ^ 16
     \<and> 0 \<le> sv_table_map_for_update v \<and> sv_table_map_for_update v < 2 ^ 64
     \<and> 0 \<le> sv_master_data_written v \<and> sv_master_data_written v < 2 ^ 32
     \<and> length (sv_user v) < 256 \<and> length (sv_host v) < 256 \<and> (sv_user v = [] \<longrightarrow> sv_host v = [])
     \<and> (\<forall>x \<in> set_option (sv_sec_part v). 0 \<le> x \<and> x < 2 ^ 24)"

lemma read_status_step:
  assumes "read_status_var k (x @ r) v = Some (r, w)" "k < 256"
  shows "read_status (byte_of (int k) # x @ r) v = read_status r w"
  using assms by simp

lemma take_space_append [simp]: "length x = n \<Longrightarrow> take_space n (x @ r) = Some (x, r)"
  by (auto simp: take_space_def)

lemma take_space_Cons [simp]: "take_space (Suc 0) (c # r) = Some ([c], r)"
  by (simp add: take_space_def)

lemma get_str_append [simp]:
  "length s < 256 \<Longrightarrow> get_str_len_and_pointer (byte_of (int (length s)) # s @ r) = Some (s, r)"
  by (simp add: get_str_len_and_pointer_def)

lemma get_invoker_append [simp]:
  "length u < 256 \<Longrightarrow> length h < 256 \<Longrightarrow>
     get_invoker (byte_of (int (length u)) # u @ byte_of (int (length h)) # h @ r) = Some (u, h, r)"
  by (simp add: get_invoker_def)

text \<open>Each variable puts its value into the record and leaves the others; one that is not written leaves
  the value that is there.\<close>

lemma status_same [simp]:
  "sv_flags2 v = None \<Longrightarrow> v\<lparr>sv_flags2 := None\<rparr> = v" "sv_sql_mode v = None \<Longrightarrow> v\<lparr>sv_sql_mode := None\<rparr> = v"
  "sv_catalog v = [] \<Longrightarrow> v\<lparr>sv_catalog := []\<rparr> = v" "sv_charset v = None \<Longrightarrow> v\<lparr>sv_charset := None\<rparr> = v"
  "sv_increment v = 1 \<Longrightarrow> sv_offset v = 1 \<Longrightarrow> v\<lparr>sv_increment := 1, sv_offset := 1\<rparr> = v"
  "sv_time_zone v = [] \<Longrightarrow> v\<lparr>sv_time_zone := []\<rparr> = v" "sv_lc_time_names v = 0 \<Longrightarrow> v\<lparr>sv_lc_time_names := 0\<rparr> = v"
  "sv_charset_database v = 0 \<Longrightarrow> v\<lparr>sv_charset_database := 0\<rparr> = v"
  "sv_table_map_for_update v = 0 \<Longrightarrow> v\<lparr>sv_table_map_for_update := 0\<rparr> = v"
  "sv_master_data_written v = 0 \<Longrightarrow> v\<lparr>sv_master_data_written := 0\<rparr> = v"
  "sv_user v = [] \<Longrightarrow> sv_host v = [] \<Longrightarrow> v\<lparr>sv_user := [], sv_host := []\<rparr> = v"
  "sv_sec_part v = None \<Longrightarrow> v\<lparr>sv_sec_part := None\<rparr> = v"
  by (cases v; simp)+

lemma status_flags2:
  "status_ok w \<Longrightarrow> sv_flags2 v = None \<Longrightarrow>
     read_status ((case sv_flags2 w of None \<Rightarrow> [] | Some x \<Rightarrow> byte_of 0 # le_store 4 x) @ r) v = read_status r (v\<lparr>sv_flags2 := sv_flags2 w\<rparr>)"
  by (cases "sv_flags2 w") (simp_all add: read_status_var_def status_ok_def)

lemma status_sql_mode:
  "status_ok w \<Longrightarrow> sv_sql_mode v = None \<Longrightarrow>
     read_status ((case sv_sql_mode w of None \<Rightarrow> [] | Some x \<Rightarrow> byte_of 1 # le_store 8 x) @ r) v = read_status r (v\<lparr>sv_sql_mode := sv_sql_mode w\<rparr>)"
  by (cases "sv_sql_mode w") (simp_all add: read_status_var_def status_ok_def)

lemma status_catalog:
  "status_ok w \<Longrightarrow> sv_catalog v = [] \<Longrightarrow>
     read_status ((if sv_catalog w = [] then [] else store_str_with_code_and_len (sv_catalog w) 6) @ r) v = read_status r (v\<lparr>sv_catalog := sv_catalog w\<rparr>)"
  by (simp add: store_str_with_code_and_len_def read_status_var_def status_ok_def)

lemma status_increment:
  "status_ok w \<Longrightarrow> sv_increment v = 1 \<Longrightarrow> sv_offset v = 1 \<Longrightarrow>
     read_status ((if sv_increment w \<noteq> 1 \<or> sv_offset w \<noteq> 1
        then byte_of 3 # le_store 2 (sv_increment w) @ le_store 2 (sv_offset w) else []) @ r) v = read_status r (v\<lparr>sv_increment := sv_increment w, sv_offset := sv_offset w\<rparr>)"
  using take_space_append [of "le_store 2 (sv_increment w) @ le_store 2 (sv_offset w)" 4 r]
  by (auto simp: read_status_var_def ukorr_def status_ok_def)

lemma status_charset:
  "status_ok w \<Longrightarrow> sv_charset v = None \<Longrightarrow>
     read_status ((case sv_charset w of None \<Rightarrow> [] | Some x \<Rightarrow> byte_of 4 # x) @ r) v = read_status r (v\<lparr>sv_charset := sv_charset w\<rparr>)"
  by (cases "sv_charset w") (simp_all add: read_status_var_def status_ok_def)

lemma status_time_zone:
  "status_ok w \<Longrightarrow> sv_time_zone v = [] \<Longrightarrow>
     read_status ((if sv_time_zone w = [] then [] else store_str_with_code_and_len (sv_time_zone w) 5) @ r) v = read_status r (v\<lparr>sv_time_zone := sv_time_zone w\<rparr>)"
  by (simp add: store_str_with_code_and_len_def read_status_var_def status_ok_def)

lemma status_lc_time_names:
  "status_ok w \<Longrightarrow> sv_lc_time_names v = 0 \<Longrightarrow>
     read_status ((if sv_lc_time_names w \<noteq> 0 then byte_of 7 # le_store 2 (sv_lc_time_names w) else []) @ r) v = read_status r (v\<lparr>sv_lc_time_names := sv_lc_time_names w\<rparr>)"
  by (auto simp: read_status_var_def status_ok_def)

lemma status_charset_database:
  "status_ok w \<Longrightarrow> sv_charset_database v = 0 \<Longrightarrow>
     read_status ((if sv_charset_database w \<noteq> 0 then byte_of 8 # le_store 2 (sv_charset_database w) else []) @ r) v = read_status r (v\<lparr>sv_charset_database := sv_charset_database w\<rparr>)"
  by (auto simp: read_status_var_def status_ok_def)

lemma status_table_map_for_update:
  "status_ok w \<Longrightarrow> sv_table_map_for_update v = 0 \<Longrightarrow>
     read_status ((if sv_table_map_for_update w \<noteq> 0 then byte_of 9 # le_store 8 (sv_table_map_for_update w) else []) @ r) v = read_status r (v\<lparr>sv_table_map_for_update := sv_table_map_for_update w\<rparr>)"
  by (auto simp: read_status_var_def status_ok_def)

lemma status_master_data_written:
  "status_ok w \<Longrightarrow> sv_master_data_written v = 0 \<Longrightarrow>
     read_status ((if sv_master_data_written w \<noteq> 0 then byte_of 10 # le_store 4 (sv_master_data_written w) else []) @ r) v = read_status r (v\<lparr>sv_master_data_written := sv_master_data_written w\<rparr>)"
  by (auto simp: read_status_var_def status_ok_def)

lemma status_invoker:
  "status_ok w \<Longrightarrow> sv_user v = [] \<Longrightarrow> sv_host v = [] \<Longrightarrow>
     read_status ((if sv_user w = [] then []
        else byte_of 11 # byte_of (int (length (sv_user w))) # sv_user w @ byte_of (int (length (sv_host w))) # sv_host w) @ r) v = read_status r (v\<lparr>sv_user := sv_user w, sv_host := sv_host w\<rparr>)"
  by (auto simp: read_status_var_def status_ok_def)

lemma status_sec_part:
  "status_ok w \<Longrightarrow> sv_sec_part v = None \<Longrightarrow>
     read_status (case sv_sec_part w of None \<Rightarrow> [] | Some x \<Rightarrow> byte_of 128 # le_store 3 x) v = Some (v\<lparr>sv_sec_part := sv_sec_part w\<rparr>)"
  by (cases "sv_sec_part w") (simp_all add: read_status_var_def take_space_def status_ok_def)

lemmas status_steps = status_flags2 status_sql_mode status_catalog status_increment status_charset status_time_zone
  status_lc_time_names status_charset_database status_table_map_for_update status_master_data_written status_invoker
  status_sec_part

lemma status_read_back:
  assumes "status_ok v"
  shows "read_status (write_status v) no_status = Some v"
  unfolding write_status_def by (simp only: assms status_steps status_vars.simps no_status_def) simp

text \<open>The common header of an event that was written, in the formats from 4 on.\<close>

definition header_ok :: "event_header \<Rightarrow> bool" where
  "header_ok h \<longleftrightarrow> 0 \<le> eh_when h \<and> eh_when h < 2 ^ 32 \<and> 0 \<le> eh_server_id h \<and> eh_server_id h < 2 ^ 32
     \<and> 0 \<le> eh_log_pos h \<and> eh_log_pos h < 2 ^ 32 \<and> 0 \<le> eh_flags h \<and> eh_flags h < 2 ^ 16"

lemma header_read:
  assumes b: "b = write_event h t n data footer" and h: "header_ok h" and bv: "bv \<noteq> 1" "bv = 3 \<Longrightarrow> 15 \<le> t \<and> t < 256"
  shows "Log_event_header bv b = Inr h"
proof -
  let ?size = "int (n + LOG_EVENT_HEADER_LEN + length footer)"
  have r0: "reads_as b 0 (le_store 4 (eh_when h) @ [byte_of (int t)] @ le_store 4 (eh_server_id h) @ le_store 4 ?size
      @ le_store 4 (eh_log_pos h) @ le_store 2 (eh_flags h) @ data @ footer)"
    using reads_as_start [of b] by (simp add: b write_event_def write_header_def)
  note r4 = reads_as_skip [OF r0, of 4, simplified]
  have r5: "reads_as b 5 (le_store 4 (eh_server_id h) @ le_store 4 ?size
      @ le_store 4 (eh_log_pos h) @ le_store 2 (eh_flags h) @ data @ footer)"
    using reads_as_skip [of b 4 "[byte_of (int t)]" _ 5] r4 by simp
  note r9 = reads_as_skip [OF r5, of 9, simplified]
  note r13 = reads_as_skip [OF r9, of 13, simplified]
  note r17 = reads_as_skip [OF r13, of 17, simplified]
  have "rd 4 b 0 = Inr (eh_when h)" using rd_reads [OF r0, of 4] h by (simp add: header_ok_def)
  moreover have "rd 1 b 4 = Inr (int t mod 256)" using rd_reads [of b 4 "[byte_of (int t)]" _ 1] r4 by simp
  moreover have "rd 4 b 5 = Inr (eh_server_id h)" using rd_reads [OF r5, of 4] h by (simp add: header_ok_def)
  moreover have "\<exists>x. rd 4 b 9 = Inr x" using rd_reads [OF r9, of 4] by auto
  moreover have "rd 4 b 13 = Inr (eh_log_pos h)" using rd_reads [OF r13, of 4] h by (simp add: header_ok_def)
  moreover have "rd 2 b 17 = Inr (eh_flags h)" using rd_reads [OF r17, of 2] h by (simp add: header_ok_def)
  ultimately show ?thesis using bv by (auto simp: Log_event_header_def)
qed

lemma header_read_back:
  assumes "b = write_event h t n data footer" "header_ok h" "bv \<noteq> 1" "bv \<noteq> 3"
  shows "Log_event_header bv b = Inr h"
  by (rule header_read [OF assms(1-3)]) (use assms(4) in simp)

text \<open>Data that a database, its end and a query make up are taken apart again.\<close>

lemma query_data_parts:
  assumes "int event_len = int end_pos + int (length db) + 1 + int (length q)" "event_len < 2 ^ 32" "length db < 256"
  shows "query_data event_len (int (length db)) end_pos (db @ e # q) = Some (db, e, q)"
proof -
  have m: "uint_of (int (length q)) = int (length q)" "uint_of (int (length db) + int (length q) + 1) = int (length db) + int (length q) + 1"
    using assms(1,2) by simp_all
  show ?thesis using assms(1) m by (simp add: query_data_def Let_def add_ac nth_append)
qed

definition query_event_ok :: "query_event \<Rightarrow> bool" where
  "query_event_ok q \<longleftrightarrow> header_ok (qe_header q) \<and> status_ok (qe_vars q)
     \<and> length (write_status (qe_vars q)) \<le> MAX_SIZE_LOG_EVENT_STATUS
     \<and> 0 \<le> qe_thread_id q \<and> qe_thread_id q < 2 ^ 32 \<and> 0 \<le> qe_exec_time q \<and> qe_exec_time q < 2 ^ 32
     \<and> 0 \<le> qe_error_code q \<and> qe_error_code q < 2 ^ 16 \<and> length (qe_db q) < 256 \<and> qe_db_end q = NUL"

lemma query_read:
  assumes ok: "query_event_ok q" and b: "b = write_query_event q footer" and l: "length b < 2 ^ 32"
    and fd: "fd_common_header_len fd = 19" "fd_post_header_len fd ! 1 = 13" and bv: "bv \<noteq> 1" "bv \<noteq> 3"
  shows "Query_log_event bv fd b (length b - length footer) 2 = Inr (Some q)"
proof -
  note q = ok [unfolded query_event_ok_def]
  let ?st = "write_status (qe_vars q)"
  let ?rest = "qe_db q @ NUL # qe_query q"
  let ?data = "write_query_header q (length ?st) @ ?st @ ?rest"
  have b': "b = write_event (qe_header q) 2 (length ?data) ?data footer"
    by (simp add: b write_query_event_def write_query_header_def QUERY_HEADER_LEN_def Let_def add.assoc)
  note ev = write_event_reads [OF b' refl l]
  have h: "Log_event_header bv b = Inr (qe_header q)" by (rule header_read_back [OF b' _ bv]) (use q in simp)
  have svl: "length ?st < 65536" using q by (simp add: MAX_SIZE_LOG_EVENT_STATUS_def)
  have r19: "reads_as b 19 (le_store 4 (qe_thread_id q) @ le_store 4 (qe_exec_time q) @ [byte_of (int (length (qe_db q)))]
      @ le_store 2 (qe_error_code q) @ le_store 2 (int (length ?st)) @ ?st @ ?rest @ footer)"
    using ev(3) by (simp add: write_query_header_def)
  note r23 = reads_as_skip [OF r19, of 23, simplified]
  note r27 = reads_as_skip [OF r23, of 27, simplified]
  have r28: "reads_as b 28 (le_store 2 (qe_error_code q) @ le_store 2 (int (length ?st)) @ ?st @ ?rest @ footer)"
    using reads_as_skip [of b 27 "[byte_of (int (length (qe_db q)))]" _ 28] r27 by simp
  note r30 = reads_as_skip [OF r28, of 30, simplified]
  have r32: "reads_as b 32 (?st @ ?rest @ footer)" using reads_as_skip [OF r30, of 32] by simp
  have re: "reads_as b (32 + length ?st) (?rest @ footer)" by (rule reads_as_step [OF r32])
  have ids: "rd 4 b 19 = Inr (qe_thread_id q)" "rd 4 b 23 = Inr (qe_exec_time q)" "rd 2 b 28 = Inr (qe_error_code q)"
    using rd_reads [OF r19, of 4] rd_reads [OF r23, of 4] rd_reads [OF r28, of 2] q by simp_all
  have dl: "rd 1 b 27 = Inr (int (length (qe_db q)))"
    using rd_reads [of b 27 "[byte_of (int (length (qe_db q)))]" _ 1] r27 q by simp
  have sl: "rd 2 b 30 = Inr (int (length ?st))" using rd_reads [OF r30, of 2] svl by simp
  have sb: "rd_bytes (length ?st) b 32 = Inr ?st" using rd_bytes_reads [OF r32] by simp
  have len: "length b = 32 + length ?st + length ?rest + length footer" using reads_as_length [OF re] by simp
  then have db: "rd_bytes (length b - length footer - 32 - length ?st) b (32 + length ?st) = Inr ?rest"
    using rd_bytes_reads [OF re] by simp
  have qd: "query_data (length b - length footer) (int (length (qe_db q))) (32 + length ?st) ?rest =
      Some (qe_db q, NUL, qe_query q)"
    by (rule query_data_parts) (use len l q in simp_all)
  have "read_status ?st no_status = Some (qe_vars q)" by (rule status_read_back) (use q in simp)
  then show ?thesis using h ids dl sl sb db qd len q fd
    by (simp add: Query_log_event_def QUERY_HEADER_MINIMAL_LEN_def Let_def min_def)
qed

definition demo_query :: query_event where
  "demo_query = \<lparr> qe_header = \<lparr> eh_when = 1700000000, eh_server_id = 1, eh_log_pos = 500, eh_flags = 0 \<rparr>,
     qe_thread_id = 9, qe_exec_time = 0, qe_error_code = 0,
     qe_vars = no_status\<lparr>sv_flags2 := Some 0, sv_sql_mode := Some 1411383296, sv_catalog := ''std'',
       sv_charset := Some (le_store 2 33 @ le_store 2 33 @ le_store 2 8), sv_time_zone := ''SYSTEM'', sv_user := ''u'', sv_host := ''h'',
       sv_sec_part := Some 500005\<rparr>,
     qe_db = ''d'', qe_db_end = NUL, qe_query = ''INSERT INTO t VALUES (1)'' \<rparr>"

lemma demo_query_ok: "query_event_ok demo_query"
  by (simp add: query_event_ok_def demo_query_def header_ok_def status_ok_def write_status_def no_status_def
      store_str_with_code_and_len_def MAX_SIZE_LOG_EVENT_STATUS_def)

end
