(* ===== verification/Event_Text.thy ===== *)
theory Event_Text
  imports Query_Events Dd_Strings
begin

text \<open>
  The texts of the events of a transaction apart from its rows: the line that begins every event
  (\<open>print_header\<close>), statements with the settings that they need (\<open>print_query_header\<close>), transaction ids,
  commits and the values of automatic columns (\<open>sql/log_event.cc\<close>). The settings are printed when they
  differ from those printed last, which \<open>PRINT_EVENT_INFO\<close> keeps. Flashback, which would swap beginnings and
  commits, is off.
\<close>

section \<open>Environment and settings\<close>

text \<open>The local time, the quoting of names and the names of the character sets are those of the library.\<close>

record tm =
  tm_year :: nat
  tm_mon :: nat
  tm_mday :: nat
  tm_hour :: nat
  tm_min :: nat
  tm_sec :: nat

record text_env =
  x_localtime :: "int \<Rightarrow> tm"
  x_quote :: "string \<Rightarrow> string"
  x_csname :: "int \<Rightarrow> string option"
  x_short_form :: bool

text \<open>The settings that were printed last. The database and the time zone are arrays.\<close>

definition DB_SIZE :: nat where "DB_SIZE = 513"
definition TIME_ZONE_SIZE :: nat where "TIME_ZONE_SIZE = 193"

record print_settings =
  ps_delimiter :: string
  ps_db :: string
  ps_charset :: "string option"
  ps_time_zone :: string
  ps_sql_mode :: "int option"
  ps_flags2 :: "int option"
  ps_thread_id :: "int option"
  ps_increment :: int
  ps_offset :: int
  ps_lc_time_names :: int
  ps_charset_database :: int
  ps_allow_parallel :: "bool option"
  ps_domain_id :: "int option"
  ps_server_id :: "int option"

definition st_print_event_info :: print_settings where
  "st_print_event_info = \<lparr> ps_delimiter = '';'', ps_db = replicate DB_SIZE NUL, ps_charset = None,
     ps_time_zone = replicate TIME_ZONE_SIZE NUL, ps_sql_mode = None, ps_flags2 = None, ps_thread_id = None,
     ps_increment = 0, ps_offset = 0, ps_lc_time_names = 2 ^ 32 - 1, ps_charset_database = 2 ^ 32 - 1,
     ps_allow_parallel = None, ps_domain_id = None, ps_server_id = None \<rparr>"

text \<open>The delimiter is set before a log is printed.\<close>

definition dump_event_info :: print_settings where
  "dump_event_info = st_print_event_info\<lparr>ps_delimiter := ''/*!*/;''\<rparr>"

type_synonym print_step = "print_settings \<Rightarrow> (string \<times> print_settings) res"

text \<open>Several things printed one after the other.\<close>

fun print_seq :: "print_step list \<Rightarrow> print_step" where
  "print_seq [] s = Inr ([], s)"
| "print_seq (f # fs) s =
     and_then (f s) (\<lambda>(t, s'). and_then (print_seq fs s') (\<lambda>(t', s''). Inr (t @ t', s'')))"

definition show_ulong :: "int \<Rightarrow> string" where
  "show_ulong i = show_dec (nat i)"

text \<open>A signed number of 64 bits.\<close>

definition llstr :: "int \<Rightarrow> string" where
  "llstr i = show_int (signed_of 64 i)"

section \<open>The header line\<close>

definition print_timestamp :: "text_env \<Rightarrow> int \<Rightarrow> string" where
  "print_timestamp env when =
     (let r = x_localtime env when; hour = show_dec (tm_hour r)
      in show_dec_pad 2 (tm_year r mod 100) @ show_dec_pad 2 (tm_mon r + 1) @ show_dec_pad 2 (tm_mday r) @ '' ''
         @ replicate (2 - length hour) (CHR '' '') @ hour @ '':'' @ show_dec_pad 2 (tm_min r) @ '':'' @ show_dec_pad 2 (tm_sec r))"

definition hex8 :: "int \<Rightarrow> string" where
  "hex8 i = concat (map hex2 (rev (le_store 4 i)))"

text \<open>Without the hexadecimal dump. \<open>crc\<close> is the checksum behind the event, if there is one.\<close>

definition Log_event_print_header :: "text_env \<Rightarrow> event_header \<Rightarrow> int option \<Rightarrow> string" where
  "Log_event_print_header env h crc =
     CHR ''#'' # print_timestamp env (eh_when h) @ '' server id '' @ show_ulong (eh_server_id h) @ ''  end_log_pos ''
     @ llstr (eh_log_pos h) @ '' ''
     @ (case crc of None \<Rightarrow> [] | Some c \<Rightarrow> ''CRC32 0x'' @ hex8 c @ '' '')"

text \<open>The line is a comment of one line: it begins with a hash and holds no line feed.\<close>

lemma hex8_ok: "length (hex8 i) = 8" "NL \<notin> set (hex8 i)"
proof -
  have h: "NL \<notin> set (hex2 c)" "length (hex2 c) = 2" for c
  proof -
    have "(of_char c :: nat) < 256" by simp
    then have b: "(of_char c :: nat) div 16 < 16" "(of_char c :: nat) mod 16 < 16" by presburger+
    have d: "hex_digit n \<noteq> NL" if "n < 16" for n
    proof
      assume "hex_digit n = NL"
      then have "of_char (hex_digit n) = (10::nat)" by simp
      then show False using that by (simp add: hex_digit_def digit_char_def split: if_splits)
    qed
    show "NL \<notin> set (hex2 c)" using d [OF b(1)] d [OF b(2)] by (auto simp: hex2_def Let_def)
    show "length (hex2 c) = 2" by (simp add: hex2_def Let_def)
  qed
  show "length (hex8 i) = 8" using h(2) by (simp add: hex8_def eval_nat_numeral)
  show "NL \<notin> set (hex8 i)" using h(1) by (auto simp: hex8_def)
qed

definition comment_line :: "string \<Rightarrow> bool" where
  "comment_line l \<longleftrightarrow> l \<noteq> [] \<and> hd l = CHR ''#'' \<and> NL \<notin> set l"

lemma number_lines: "NL \<notin> set (show_dec_pad w n)" "NL \<notin> set (show_ulong i)" "NL \<notin> set (llstr i)"
proof -
  show "NL \<notin> set (show_dec_pad w n)" using show_dec_pad_digits char_not_digit(3) by blast
qed (simp_all add: show_ulong_def llstr_def show_int_def)

lemma header_comment: "NL \<notin> set t \<Longrightarrow> comment_line (Log_event_print_header env h crc @ t)"
  by (auto simp: comment_line_def Log_event_print_header_def print_timestamp_def number_lines hex8_ok(2) Let_def
      split: option.splits)

section \<open>The header of a query\<close>

definition LOG_EVENT_THREAD_SPECIFIC_F :: int where "LOG_EVENT_THREAD_SPECIFIC_F = 4"
definition LOG_EVENT_SUPPRESS_USE_F :: int where "LOG_EVENT_SUPPRESS_USE_F = 8"

definition has_flag :: "int \<Rightarrow> int \<Rightarrow> bool" where
  "has_flag flags f \<longleftrightarrow> odd (flags div f)"

definition strn_eq :: "string \<Rightarrow> string \<Rightarrow> nat \<Rightarrow> bool" where
  "strn_eq a b n \<longleftrightarrow> take n (cstr a) = take n (cstr b)"

text \<open>The query is followed by a null byte. The length of the query bounds the comparison with the
  first two words, so that a query that begins one of them passes too.\<close>

definition is_trans_keyword :: "string \<Rightarrow> bool" where
  "is_trans_keyword query \<longleftrightarrow>
     strn_eq query ''BEGIN'' (length query) \<or> strn_eq query ''COMMIT'' (length query)
     \<or> strn_eq (map to_lower query) ''savepoint'' 9 \<or> strn_eq (map to_lower query) ''rollback'' 8"

text \<open>\<open>memcpy\<close> to the beginning of an array.\<close>

definition copy_to :: "string \<Rightarrow> string \<Rightarrow> string \<Rightarrow> string res" where
  "copy_to name bytes arr =
     (if length bytes \<le> length arr then Inr (bytes @ drop (length bytes) arr) else Inl (Out_of_bounds name))"

definition print_use :: "text_env \<Rightarrow> query_event \<Rightarrow> print_step" where
  "print_use env q s =
     (if has_flag (eh_flags (qe_header q)) LOG_EVENT_SUPPRESS_USE_F
      then Inr ([], if is_trans_keyword (qe_query q) then s else s\<lparr>ps_db := NUL # tl (ps_db s)\<rparr>)
      else let db = qe_db q @ [qe_db_end q]; different_db = (take (length db) (ps_db s) \<noteq> db)
           in and_then (if different_db then copy_to ''db'' db (ps_db s) else Inr (ps_db s)) (\<lambda>arr.
              Inr (if hd db \<noteq> NUL \<and> different_db
                   then ''use '' @ x_quote env (cstr (db @ qe_query q)) @ ps_delimiter s @ [NL] else [],
                   s\<lparr>ps_db := arr\<rparr>)))"

definition TIME_MAX_SECOND_PART :: int where "TIME_MAX_SECOND_PART = 999999"

definition timestamp_text :: "query_event \<Rightarrow> string" where
  "timestamp_text q = show_ulong (eh_when (qe_header q))
     @ (case sv_sec_part (qe_vars q) of
          Some x \<Rightarrow> if x \<noteq> 0 \<and> x \<le> TIME_MAX_SECOND_PART then CHR ''.'' # show_ulong x else []
        | None \<Rightarrow> [])"

definition print_set_timestamp :: "query_event \<Rightarrow> print_step" where
  "print_set_timestamp q s = Inr (''SET TIMESTAMP='' @ timestamp_text q @ ps_delimiter s @ [NL], s)"

definition print_thread_id :: "text_env \<Rightarrow> query_event \<Rightarrow> print_step" where
  "print_thread_id env q s =
     (if ps_thread_id s = None
         \<or> has_flag (eh_flags (qe_header q)) LOG_EVENT_THREAD_SPECIFIC_F \<and> ps_thread_id s \<noteq> Some (qe_thread_id q)
      then Inr (''SET @@session.pseudo_thread_id=''
                  @ show_ulong (if x_short_form env then 999999999 else qe_thread_id q) @ ps_delimiter s @ [NL],
                s\<lparr>ps_thread_id := Some (qe_thread_id q)\<rparr>)
      else Inr ([], s))"

text \<open>The options of a session that the flags of a query hold: the bit, whether the variable is its
  negation, and the variable.\<close>

definition set_options :: "(nat \<times> bool \<times> string) list" where
  "set_options =
     [(26, True, ''@@session.foreign_key_checks''), (14, False, ''@@session.sql_auto_is_null''),
      (27, True, ''@@session.unique_checks''), (19, True, ''@@session.autocommit''),
      (15, True, ''@@session.check_constraint_checks'')]"

definition option_value :: "int \<Rightarrow> nat \<times> bool \<times> string \<Rightarrow> string" where
  "option_value flags2 = (\<lambda>(k, neg, _). if odd (flags2 div 2 ^ k) \<noteq> neg then ''1'' else ''0'')"

text \<open>\<open>print_set_option\<close> for each of them: only bits that have changed.\<close>

fun print_set_option :: "(int \<Rightarrow> bool) \<Rightarrow> int \<Rightarrow> (nat \<times> bool \<times> string) list \<Rightarrow> bool \<Rightarrow> string" where
  "print_set_option changed flags2 [] need_comma = []"
| "print_set_option changed flags2 (x # xs) need_comma =
     (if changed (2 ^ fst x)
      then (if need_comma then '', '' else []) @ snd (snd x) @ ''='' @ option_value flags2 x
           @ print_set_option changed flags2 xs True
      else print_set_option changed flags2 xs need_comma)"

definition bits_changed :: "int option \<Rightarrow> int \<Rightarrow> int \<Rightarrow> bool" where
  "bits_changed old flags2 b = (case old of None \<Rightarrow> True | Some f \<Rightarrow> odd (f div b) \<noteq> odd (flags2 div b))"

definition print_flags2 :: "query_event \<Rightarrow> print_step" where
  "print_flags2 q s = (case sv_flags2 (qe_vars q) of
       None \<Rightarrow> Inr ([], s)
     | Some f \<Rightarrow>
         if ps_flags2 s \<noteq> Some f
         then Inr (''SET '' @ print_set_option (bits_changed (ps_flags2 s) f) f set_options False @ ps_delimiter s @ [NL],
                   s\<lparr>ps_flags2 := Some f\<rparr>)
         else Inr ([], s))"

definition print_sql_mode :: "query_event \<Rightarrow> print_step" where
  "print_sql_mode q s = (case sv_sql_mode (qe_vars q) of
       None \<Rightarrow> Inr ([], s)
     | Some m \<Rightarrow>
         if ps_sql_mode s \<noteq> Some m
         then Inr (''SET @@session.sql_mode='' @ show_ulong m @ ps_delimiter s @ [NL], s\<lparr>ps_sql_mode := Some m\<rparr>)
         else Inr ([], s))"

definition print_increment :: "query_event \<Rightarrow> print_step" where
  "print_increment q s =
     (let i = sv_increment (qe_vars q); j = sv_offset (qe_vars q)
      in if ps_increment s \<noteq> i \<or> ps_offset s \<noteq> j
         then Inr (''SET @@session.auto_increment_increment='' @ show_ulong i
                     @ '', @@session.auto_increment_offset='' @ show_ulong j @ ps_delimiter s @ [NL],
                   s\<lparr>ps_increment := i, ps_offset := j\<rparr>)
         else Inr ([], s))"

definition print_charset :: "text_env \<Rightarrow> query_event \<Rightarrow> print_step" where
  "print_charset env q s = (case sv_charset (qe_vars q) of
       None \<Rightarrow> Inr ([], s)
     | Some c \<Rightarrow>
         if ps_charset s \<noteq> Some c
         then Inr ((case x_csname env (ukorr 2 c) of
                      Some n \<Rightarrow> ''/*!'' @ BACKSLASH # ''C '' @ n @ '' */'' @ ps_delimiter s @ [NL]
                    | None \<Rightarrow> [])
                   @ ''SET @@session.character_set_client='' @ show_ulong (ukorr 2 c)
                   @ '',@@session.collation_connection='' @ show_ulong (ukorr 2 (drop 2 c))
                   @ '',@@session.collation_server='' @ show_ulong (ukorr 2 (drop 4 c)) @ ps_delimiter s @ [NL],
                   s\<lparr>ps_charset := Some c\<rparr>)
         else Inr ([], s))"

definition print_time_zone :: "query_event \<Rightarrow> print_step" where
  "print_time_zone q s =
     (let tz = sv_time_zone (qe_vars q) @ [NUL]
      in if sv_time_zone (qe_vars q) \<noteq> [] \<and> take (length tz) (ps_time_zone s) \<noteq> tz
         then and_then (copy_to ''time_zone_str'' tz (ps_time_zone s)) (\<lambda>arr.
              Inr (''SET @@session.time_zone='' @ QUOTE # cstr tz @ QUOTE # ps_delimiter s @ [NL], s\<lparr>ps_time_zone := arr\<rparr>))
         else Inr ([], s))"

definition print_lc_time_names :: "query_event \<Rightarrow> print_step" where
  "print_lc_time_names q s =
     (let n = sv_lc_time_names (qe_vars q)
      in if n \<noteq> ps_lc_time_names s
         then Inr (''SET @@session.lc_time_names='' @ show_ulong n @ ps_delimiter s @ [NL], s\<lparr>ps_lc_time_names := n\<rparr>)
         else Inr ([], s))"

definition print_charset_database :: "query_event \<Rightarrow> print_step" where
  "print_charset_database q s =
     (let n = sv_charset_database (qe_vars q)
      in if n \<noteq> ps_charset_database s
         then Inr (''SET @@session.collation_database='' @ (if n \<noteq> 0 then show_ulong n else ''DEFAULT'') @ ps_delimiter s @ [NL],
                   s\<lparr>ps_charset_database := n\<rparr>)
         else Inr ([], s))"

definition print_query_line :: "text_env \<Rightarrow> query_event \<Rightarrow> int option \<Rightarrow> print_step" where
  "print_query_line env q crc s =
     Inr (if x_short_form env then []
          else Log_event_print_header env (qe_header q) crc @ CHR 0x09 # ''Query'' @ CHR 0x09 # ''thread_id=''
            @ show_ulong (qe_thread_id q) @ CHR 0x09 # ''exec_time='' @ show_ulong (qe_exec_time q)
            @ CHR 0x09 # ''error_code='' @ show_ulong (qe_error_code q) @ [NL], s)"

definition print_query_header :: "text_env \<Rightarrow> query_event \<Rightarrow> int option \<Rightarrow> print_step" where
  "print_query_header env q crc =
     print_seq [print_query_line env q crc, print_use env q, print_set_timestamp q, print_thread_id env q, print_flags2 q,
       print_sql_mode q, print_increment q, print_charset env q, print_time_zone q, print_lc_time_names q,
       print_charset_database q]"

section \<open>The events\<close>

definition Query_print :: "text_env \<Rightarrow> query_event \<Rightarrow> int option \<Rightarrow> print_step" where
  "Query_print env q crc s =
     and_then (print_query_header env q crc s) (\<lambda>(t, s'). Inr (t @ qe_query q @ NL # ps_delimiter s' @ [NL], s'))"

definition Xid_print :: "text_env \<Rightarrow> event_header \<Rightarrow> int \<Rightarrow> int option \<Rightarrow> print_step" where
  "Xid_print env h xid crc s =
     Inr ((if x_short_form env then []
           else Log_event_print_header env h crc @ CHR 0x09 # ''Xid = '' @ show_ulong xid @ [NL])
          @ ''COMMIT'' @ ps_delimiter s @ [NL], s)"

text \<open>The description of a log, without the encoded event, which is not printed when rows are decoded. A server that
  has just started rolls back what was open.\<close>

definition LOG_EVENT_BINLOG_IN_USE_F :: int where "LOG_EVENT_BINLOG_IN_USE_F = 1"
definition LOG_EVENT_ARTIFICIAL_F :: int where "LOG_EVENT_ARTIFICIAL_F = 32"

definition Start_log_print :: "text_env \<Rightarrow> event_header \<Rightarrow> nat \<Rightarrow> string \<Rightarrow> int \<Rightarrow> int option \<Rightarrow> print_step" where
  "Start_log_print env h bv sv created crc s =
     Inr ((if x_short_form env then []
           else Log_event_print_header env h crc @ CHR 0x09 # ''Start: binlog v '' @ show_dec bv @ '', server v ''
             @ sv @ '' created '' @ print_timestamp env (eh_when h)
             @ (if created \<noteq> 0 then '' at startup'' else []) @ [NL]
             @ (if has_flag (eh_flags h) LOG_EVENT_BINLOG_IN_USE_F
                then ''# Warning: this binlog is either in use or was not closed properly.'' @ [NL] else []))
          @ (if \<not> has_flag (eh_flags h) LOG_EVENT_ARTIFICIAL_F \<and> created \<noteq> 0 then ''ROLLBACK'' @ ps_delimiter s @ [NL] else []), s)"

text \<open>The name of the value by the type of the event (1 and 2).\<close>

definition intvar_name :: "nat \<Rightarrow> string" where
  "intvar_name type = (if type = 1 then ''LAST_INSERT_ID'' else if type = 2 then ''INSERT_ID'' else ''INVALID_INT'')"

definition Intvar_print :: "text_env \<Rightarrow> event_header \<Rightarrow> nat \<Rightarrow> int \<Rightarrow> int option \<Rightarrow> print_step" where
  "Intvar_print env h type val crc s =
     Inr ((if x_short_form env then [] else Log_event_print_header env h crc @ CHR 0x09 # ''Intvar'' @ [NL])
          @ ''SET '' @ intvar_name type @ ''='' @ llstr val @ ps_delimiter s @ [NL], s)"

definition Rand_print :: "text_env \<Rightarrow> event_header \<Rightarrow> int \<Rightarrow> int \<Rightarrow> int option \<Rightarrow> print_step" where
  "Rand_print env h seed1 seed2 crc s =
     Inr ((if x_short_form env then [] else Log_event_print_header env h crc @ CHR 0x09 # ''Rand'' @ [NL])
          @ ''SET @@RAND_SEED1='' @ llstr seed1 @ '', @@RAND_SEED2='' @ llstr seed2 @ ps_delimiter s @ [NL], s)"

definition Rotate_print :: "text_env \<Rightarrow> event_header \<Rightarrow> string \<Rightarrow> int \<Rightarrow> int option \<Rightarrow> print_step" where
  "Rotate_print env h new_log_ident pos crc s =
     Inr (if x_short_form env then []
          else Log_event_print_header env h crc @ CHR 0x09 # ''Rotate to '' @ new_log_ident @ ''  pos: '' @ llstr pos @ [NL], s)"

definition Stop_print :: "text_env \<Rightarrow> event_header \<Rightarrow> int option \<Rightarrow> print_step" where
  "Stop_print env h crc s =
     Inr (if x_short_form env then [] else Log_event_print_header env h crc @ CHR 0x09 # ''Stop'' @ [NL], s)"

definition Unknown_print :: "text_env \<Rightarrow> event_header \<Rightarrow> bool \<Rightarrow> int option \<Rightarrow> print_step" where
  "Unknown_print env h encrypted crc s =
     Inr (if x_short_form env then []
          else if encrypted then ''# Encrypted event'' @ [NL]
          else Log_event_print_header env h crc @ NL # ''# Unknown event'' @ [NL], s)"

section \<open>Global transaction ids\<close>

record gtid_event =
  ge_header :: event_header
  ge_seq_no :: int
  ge_domain_id :: int
  ge_flags2 :: int
  ge_commit_id :: int

definition FL_STANDALONE :: int where "FL_STANDALONE = 1"
definition FL_GROUP_COMMIT_ID :: int where "FL_GROUP_COMMIT_ID = 2"
definition FL_TRANSACTIONAL :: int where "FL_TRANSACTIONAL = 4"
definition FL_ALLOW_PARALLEL :: int where "FL_ALLOW_PARALLEL = 8"
definition FL_WAITED :: int where "FL_WAITED = 16"
definition FL_DDL :: int where "FL_DDL = 32"

definition print_gtid_line :: "text_env \<Rightarrow> gtid_event \<Rightarrow> int option \<Rightarrow> print_step" where
  "print_gtid_line env g crc s =
     Inr (Log_event_print_header env (ge_header g) crc @ CHR 0x09 # ''GTID '' @ show_ulong (ge_domain_id g) @ ''-''
          @ show_ulong (eh_server_id (ge_header g)) @ ''-'' @ show_ulong (ge_seq_no g)
          @ (if has_flag (ge_flags2 g) FL_GROUP_COMMIT_ID then '' cid='' @ show_ulong (ge_commit_id g) else [])
          @ (if has_flag (ge_flags2 g) FL_DDL then '' ddl'' else [])
          @ (if has_flag (ge_flags2 g) FL_TRANSACTIONAL then '' trans'' else [])
          @ (if has_flag (ge_flags2 g) FL_WAITED then '' waited'' else []) @ [NL], s)"

definition print_parallel :: "gtid_event \<Rightarrow> print_step" where
  "print_parallel g s =
     (let p = has_flag (ge_flags2 g) FL_ALLOW_PARALLEL
      in if ps_allow_parallel s \<noteq> Some p
         then Inr (''/*!100101 SET @@session.skip_parallel_replication='' @ (if p then ''0'' else ''1'') @ ''*/''
                     @ ps_delimiter s @ [NL], s\<lparr>ps_allow_parallel := Some p\<rparr>)
         else Inr ([], s))"

definition print_domain :: "gtid_event \<Rightarrow> print_step" where
  "print_domain g s =
     (if ps_domain_id s \<noteq> Some (ge_domain_id g)
      then Inr (''/*!100001 SET @@session.gtid_domain_id='' @ show_ulong (ge_domain_id g) @ ''*/'' @ ps_delimiter s @ [NL],
                s\<lparr>ps_domain_id := Some (ge_domain_id g)\<rparr>)
      else Inr ([], s))"

definition print_server :: "gtid_event \<Rightarrow> print_step" where
  "print_server g s =
     (let n = eh_server_id (ge_header g)
      in if ps_server_id s \<noteq> Some n
         then Inr (''/*!100001 SET @@session.server_id='' @ show_ulong n @ ''*/'' @ ps_delimiter s @ [NL],
                   s\<lparr>ps_server_id := Some n\<rparr>)
         else Inr ([], s))"

definition print_seq_no :: "gtid_event \<Rightarrow> print_step" where
  "print_seq_no g s =
     Inr (''/*!100001 SET @@session.gtid_seq_no='' @ show_ulong (ge_seq_no g) @ ''*/'' @ ps_delimiter s @ [NL], s)"

definition print_gtid_begin :: "gtid_event \<Rightarrow> print_step" where
  "print_gtid_begin g s =
     Inr (if has_flag (ge_flags2 g) FL_STANDALONE then [] else ''BEGIN'' @ NL # ps_delimiter s @ [NL], s)"

definition Gtid_print :: "text_env \<Rightarrow> gtid_event \<Rightarrow> int option \<Rightarrow> print_step" where
  "Gtid_print env g crc =
     print_seq ((if x_short_form env then []
                 else [print_gtid_line env g crc, print_parallel g, print_domain g, print_server g, print_seq_no g])
                @ [print_gtid_begin g])"

text \<open>Reading and writing the event. The reader of the log rejects one with the sequence number 0 (\<open>is_valid\<close>).\<close>

definition GTID_HEADER_LEN :: nat where "GTID_HEADER_LEN = 19"

definition Gtid_log_event :: "nat \<Rightarrow> fd_event \<Rightarrow> string \<Rightarrow> nat \<Rightarrow> gtid_event option res" where
  "Gtid_log_event bv fd b event_len =
     and_then (Log_event_header bv b) (\<lambda>h.
     let header_size = fd_common_header_len fd; phl = fd_post_header_len fd ! 161
     in if event_len < header_size + phl \<or> phl < GTID_HEADER_LEN then Inr None
        else and_then (rd 8 b header_size) (\<lambda>seq_no. and_then (rd 4 b (header_size + 8)) (\<lambda>domain.
             and_then (rd 1 b (header_size + 12)) (\<lambda>flags2.
             if has_flag flags2 FL_GROUP_COMMIT_ID then
               if event_len < header_size + GTID_HEADER_LEN + 2 then Inr None
               else and_then (rd 8 b (header_size + 13)) (\<lambda>cid.
                    Inr (Some \<lparr> ge_header = h, ge_seq_no = seq_no, ge_domain_id = domain, ge_flags2 = flags2, ge_commit_id = cid \<rparr>))
             else Inr (Some \<lparr> ge_header = h, ge_seq_no = seq_no, ge_domain_id = domain, ge_flags2 = flags2, ge_commit_id = 0 \<rparr>)))))"

definition write_gtid_data :: "gtid_event \<Rightarrow> string" where
  "write_gtid_data g = le_store 8 (ge_seq_no g) @ le_store 4 (ge_domain_id g) @ byte_of (ge_flags2 g)
     # (if has_flag (ge_flags2 g) FL_GROUP_COMMIT_ID then le_store 8 (ge_commit_id g) else replicate 6 NUL)"

definition write_gtid_event :: "gtid_event \<Rightarrow> string \<Rightarrow> string" where
  "write_gtid_event g footer = write_event (ge_header g) 162 (length (write_gtid_data g)) (write_gtid_data g) footer"

text \<open>A transaction id is read back as it was written.\<close>

definition gtid_ok :: "gtid_event \<Rightarrow> bool" where
  "gtid_ok g \<longleftrightarrow> header_ok (ge_header g) \<and> 0 \<le> ge_seq_no g \<and> ge_seq_no g < 2 ^ 64 \<and> 0 \<le> ge_domain_id g \<and> ge_domain_id g < 2 ^ 32
     \<and> 0 \<le> ge_flags2 g \<and> ge_flags2 g < 256 \<and> 0 \<le> ge_commit_id g \<and> ge_commit_id g < 2 ^ 64
     \<and> (\<not> has_flag (ge_flags2 g) FL_GROUP_COMMIT_ID \<longrightarrow> ge_commit_id g = 0)"

lemma gtid_read_back:
  assumes g: "gtid_ok g" and b: "b = write_gtid_event g footer" and l: "length b < 2 ^ 32"
    and fd: "fd_common_header_len fd = 19" "fd_post_header_len fd ! 161 = 19" and bv: "bv \<noteq> 1" "bv \<noteq> 3"
  shows "Gtid_log_event bv fd b (length b - length footer) = Inr (Some g)"
proof -
  note ok = g [unfolded gtid_ok_def]
  note ev = write_event_reads [OF b [unfolded write_gtid_event_def] refl l]
  have h: "Log_event_header bv b = Inr (ge_header g)"
    by (rule header_read_back [OF b [unfolded write_gtid_event_def] _ bv]) (use ok in simp)
  let ?r = "if has_flag (ge_flags2 g) FL_GROUP_COMMIT_ID then le_store 8 (ge_commit_id g) else replicate 6 NUL"
  have r19: "reads_as b 19 (le_store 8 (ge_seq_no g) @ le_store 4 (ge_domain_id g) @ [byte_of (ge_flags2 g)] @ ?r @ footer)"
    using ev(3) by (simp add: write_gtid_data_def)
  have r27: "reads_as b 27 (le_store 4 (ge_domain_id g) @ [byte_of (ge_flags2 g)] @ ?r @ footer)"
    using reads_as_skip [OF r19, of 27] by simp
  have r31: "reads_as b 31 ([byte_of (ge_flags2 g)] @ ?r @ footer)" using reads_as_skip [OF r27, of 31] by simp
  have r32: "reads_as b 32 (?r @ footer)" using reads_as_skip [OF r31, of 32] by simp
  have n: "rd 8 b 19 = Inr (ge_seq_no g)" "rd 4 b 27 = Inr (ge_domain_id g)" "rd 1 b 31 = Inr (ge_flags2 g)"
    using rd_reads [OF r19, of 8] rd_reads [OF r27, of 4] rd_reads [OF r31, of 1] ok by simp_all
  have c: "has_flag (ge_flags2 g) FL_GROUP_COMMIT_ID \<Longrightarrow> rd 8 b 32 = Inr (ge_commit_id g)"
    using rd_reads [of b 32 "le_store 8 (ge_commit_id g)" footer 8] r32 ok by simp
  have len: "length b = 32 + length ?r + length footer" using reads_as_length [OF r32] by simp
  show ?thesis using h n c len ok fd by (cases g) (auto simp: Gtid_log_event_def GTID_HEADER_LEN_def Let_def)
qed

end
