(* ===== verification/Sql_Client.thy ===== *)
theory Sql_Client
  imports Event_Text
begin

text \<open>
  A client that executes the text of a log, as the documentation of the \<open>mysql\<close> client describes it: the text
  is cut into statements at the delimiter, which a line \<open>DELIMITER\<close> changes; empty lines and lines with a hash in
  front of a statement are skipped. Of the statements, those that set variables, choose the database or
  change the character set of the client change its session; every other one is sent as a query. The client
  knows nothing of how the text was printed. Quotes do not hide a delimiter from it, which
  makes no difference to texts without one inside a statement.
\<close>

section \<open>Cutting a text into statements\<close>

text \<open>The text in front of the first delimiter, and what follows it.\<close>

fun cut_at :: "string \<Rightarrow> string \<Rightarrow> (string \<times> string) option" where
  "cut_at d [] = None"
| "cut_at d (c # cs) =
     (if take (length d) (c # cs) = d then Some ([], drop (length d) (c # cs))
      else map_option (\<lambda>(q, r). (c # q, r)) (cut_at d cs))"

definition next_line :: "string \<Rightarrow> string" where
  "next_line s = drop 1 (dropWhile (\<lambda>c. c \<noteq> NL) s)"

definition begins :: "string \<Rightarrow> string \<Rightarrow> bool" where
  "begins w s \<longleftrightarrow> take (length w) s = w"

lemma cut_at_shorter: "cut_at d s = Some (q, r) \<Longrightarrow> d \<noteq> [] \<Longrightarrow> length r < length s"
proof (induction s arbitrary: q)
  case (Cons c s)
  then show ?case by (cases d) (auto split: if_splits)
qed simp

lemma next_line_shorter: "length (next_line (c # s)) < length (c # s)"
proof -
  have "length (dropWhile (\<lambda>c. c \<noteq> NL) (c # s)) \<le> length (c # s)" by (rule length_dropWhile_le)
  then show ?thesis by (simp add: next_line_def)
qed

text \<open>What is left at the end without a delimiter is sent, too.\<close>

function statements :: "string \<Rightarrow> string \<Rightarrow> string list" where
  "statements d [] = []"
| "statements d (c # cs) =
     (if c = NL then statements d cs
      else if c = CHR ''#'' then statements d (next_line (c # cs))
      else if begins ''DELIMITER '' (c # cs)
      then statements (takeWhile (\<lambda>c. c \<noteq> NL) (drop 10 (c # cs))) (next_line (c # cs))
      else if d = [] then [c # cs]
      else case cut_at d (c # cs) of None \<Rightarrow> [c # cs] | Some (q, r) \<Rightarrow> q # statements d r)"
  by pat_completeness auto
termination
proof (relation "measure (\<lambda>(d, s). length s)", goal_cases)
  case (3 d c cs)
  then show ?case using next_line_shorter [of c cs] by simp
next
  case (4 d c cs)
  then show ?case using next_line_shorter [of c cs] by simp
next
  case (5 d c cs x q r)
  then show ?case using cut_at_shorter [of d "c # cs" q r] by (simp del: cut_at.simps)
qed simp_all

declare statements.simps(2) [simp del]

section \<open>What a statement does\<close>

datatype command =
    Set_cmd "(string \<times> string) list"
  | Use_cmd string
  | Charset_cmd string
  | Query_cmd string

text \<open>The parts between the commas that are not within quotes.\<close>

fun comma_parts :: "bool \<Rightarrow> string \<Rightarrow> string list" where
  "comma_parts quoted [] = [[]]"
| "comma_parts quoted (c # cs) =
     (if c = CHR '','' \<and> \<not> quoted then [] # comma_parts quoted cs
      else let ps = comma_parts (if c = QUOTE then \<not> quoted else quoted) cs in (c # hd ps) # tl ps)"

definition read_assignment :: "string \<Rightarrow> string \<times> string" where
  "read_assignment p =
     (let s = dropWhile (\<lambda>c. c = CHR '' '') p
      in (takeWhile (\<lambda>c. c \<noteq> CHR ''='') s, drop 1 (dropWhile (\<lambda>c. c \<noteq> CHR ''='') s)))"

text \<open>A name in backquotes, those inside doubled, and its reading.\<close>

definition BACKQUOTE :: char where "BACKQUOTE = CHR 0x60"

fun double_quotes :: "string \<Rightarrow> string" where
  "double_quotes [] = []"
| "double_quotes (c # cs) = (if c = BACKQUOTE then [c, c] else [c]) @ double_quotes cs"

definition quoted_name :: "string \<Rightarrow> string" where
  "quoted_name n = BACKQUOTE # double_quotes n @ [BACKQUOTE]"

fun read_name :: "string \<Rightarrow> string" where
  "read_name [] = []"
| "read_name (c # cs) =
     (if c = BACKQUOTE then (case cs of [] \<Rightarrow> [] | e # es \<Rightarrow> if e = BACKQUOTE then c # read_name es else [])
      else c # read_name cs)"

definition plain_command :: "string \<Rightarrow> command" where
  "plain_command q =
     (if begins ''SET '' q \<and> CHR ''='' \<in> set q then Set_cmd (map read_assignment (comma_parts False (drop 4 q)))
      else if begins ''use '' q then Use_cmd (read_name (drop 5 q))
      else Query_cmd q)"

text \<open>A comment of the form \<open>/*!...*/\<close> is executed, from the version on that its number names; the command
  \<open>C\<close> behind a backslash sets the character set. The end of the line in front of the delimiter does not count.\<close>

definition command_of :: "string \<Rightarrow> command" where
  "command_of text =
     (let q = (if text \<noteq> [] \<and> last text = NL then butlast text else text)
      in if begins ''/*!'' q
         then let body = drop 3 (take (length q - 2) q)
              in if begins [BACKSLASH, CHR ''C'', CHR '' ''] body then Charset_cmd (takeWhile (\<lambda>c. c \<noteq> CHR '' '') (drop 3 body))
                 else plain_command (drop 1 (dropWhile is_digit body))
         else plain_command q)"

section \<open>Sessions\<close>

text \<open>The current database and the variables that were set.\<close>

record session =
  s_db :: "string option"
  s_vars :: "string \<rightharpoonup> string"

fun assign :: "(string \<rightharpoonup> string) \<Rightarrow> (string \<times> string) list \<Rightarrow> string \<rightharpoonup> string" where
  "assign m [] = m"
| "assign m (p # ps) = assign (m(fst p \<mapsto> snd p)) ps"

fun obey :: "command \<Rightarrow> session \<Rightarrow> session" where
  "obey (Set_cmd xs) s = s\<lparr>s_vars := assign (s_vars s) xs\<rparr>"
| "obey (Use_cmd n) s = s\<lparr>s_db := Some n\<rparr>"
| "obey (Charset_cmd n) s = s"
| "obey (Query_cmd q) s = s"

text \<open>The queries that are sent, each with the session it finds.\<close>

fun sent_queries :: "string list \<Rightarrow> session \<Rightarrow> (string \<times> session) list" where
  "sent_queries [] s = []"
| "sent_queries (q # qs) s =
     (case command_of q of Query_cmd t \<Rightarrow> [(t, s)] | _ \<Rightarrow> []) @ sent_queries qs (obey (command_of q) s)"

definition client_runs :: "string \<Rightarrow> session \<Rightarrow> (string \<times> session) list" where
  "client_runs text s = sent_queries (statements '';'' text) s"

text \<open>The value of the variable \<open>TIMESTAMP\<close>, in microseconds: digits behind the point are a decimal fraction.\<close>

definition fraction_of :: "string \<Rightarrow> nat" where
  "fraction_of ds = dec_val 0 (take 6 (ds @ ''000000''))"

definition micros_of :: "string \<Rightarrow> nat" where
  "micros_of x = dec_val 0 (takeWhile is_digit x) * 10 ^ 6
     + (case dropWhile is_digit x of [] \<Rightarrow> 0 | c # ds \<Rightarrow> fraction_of ds)"

section \<open>Reading back\<close>

lemma statements_NL [simp]: "statements d (NL # s) = statements d s"
  by (simp add: statements.simps(2))

lemma next_line_append: "NL \<notin> set t \<Longrightarrow> next_line (t @ NL # s) = s"
  unfolding next_line_def by (subst dropWhile_append2) auto

lemma statements_comment: "comment_line t \<Longrightarrow> statements d (t @ NL # s) = statements d s"
  using next_line_append [of t s] by (cases t) (auto simp: comment_line_def statements.simps(2))

text \<open>A delimiter behind a text without its last character, or behind a character that it has not.\<close>

lemma cut_at_here: "d \<noteq> [] \<Longrightarrow> cut_at d (d @ r) = Some ([], r)"
  by (cases d) simp_all

lemma cut_at_end:
  assumes "last d \<notin> set q" "last d \<notin> set (butlast d)" "d \<noteq> []"
  shows "cut_at d (q @ d @ r) = Some (q, r)"
  using assms(1)
proof (induction q)
  case Nil
  then show ?case using cut_at_here [OF assms(3)] by simp
next
  case (Cons c q)
  have "take (length d) (c # q @ d @ r) \<noteq> d"
  proof
    assume t: "take (length d) (c # q @ d @ r) = d"
    define w where "w = butlast d"
    have d: "d = w @ [last d]" using assms(3) by (simp add: w_def)
    have "last d = (c # q @ d @ r) ! length w"
      using t by (metis d length_append_singleton lessI nth_append_length nth_take)
    moreover have "(c # q @ d @ r) ! length w \<in> set (c # q) \<union> set w"
    proof (cases "length w < length (c # q)")
      case True
      then have "(c # q @ d @ r) ! length w = (c # q) ! length w" by (metis append_Cons nth_append)
      then show ?thesis using True nth_mem by (metis UnI1)
    next
      case False
      then have "(c # q @ d @ r) ! length w = (d @ r) ! (length w - length (c # q))" by (metis append_Cons nth_append)
      moreover have "length w - length (c # q) < length w" using False by simp
      then have "(d @ r) ! (length w - length (c # q)) = w ! (length w - length (c # q))"
        by (subst d) (simp add: nth_append)
      ultimately show ?thesis using \<open>length w - length (c # q) < length w\<close> by simp
    qed
    ultimately show False using Cons.prems assms(2) by (auto simp: w_def)
  qed
  then show ?case using Cons by simp
qed

lemma cut_at_step:
  "cut_at d q = None \<Longrightarrow> c \<notin> set d \<Longrightarrow> d \<noteq> [] \<Longrightarrow> cut_at d (q @ c # d @ r) = Some (q @ [c], r)"
proof (induction q)
  case Nil
  have "take (length d) (c # d @ r) \<noteq> d" using Nil by (cases d) auto
  then show ?case using cut_at_here [OF Nil(3)] by simp
next
  case (Cons e q)
  have "take (length d) (e # q @ c # d @ r) \<noteq> d"
  proof (cases "length d \<le> length (e # q)")
    case True
    then have "take (length d) (e # q @ c # d @ r) = take (length d) (e # q)"
      by (metis append_Cons take_all_iff take_append append_Nil2 diff_is_0_eq take0)
    then show ?thesis using Cons.prems(1) by (auto split: if_splits)
  next
    case False
    then have "(take (length d) (e # q @ c # d @ r)) ! length (e # q) = c"
      by (metis append_Cons leI not_less nth_append_length nth_take)
    moreover have "d ! length (e # q) \<in> set d" using False by (intro nth_mem) simp
    ultimately show ?thesis using Cons.prems(2) by metis
  qed
  then show ?case using Cons by (auto split: if_splits)
qed

end
