(* ===== verification/Session_Replay.thy ===== *)
theory Session_Replay
  imports Sql_Client
begin

text \<open>
  What the texts of statements and transaction ids mean to the client of \<open>Sql_Client\<close>: the settings
  of its session. Settings are printed only when they differ from those printed before, so the meaning
  of an event depends on all events before it. The property is that every statement runs under the
  settings that it was logged with, whatever the session was like at the start. The proof goes over a list of the
  statements that an event prints (\<open>says\<close>), which the client reads back from the text.
\<close>

section \<open>The statements that are printed\<close>

datatype stmt =
    Use string
  | Set_vars string "(string \<times> string) list"
  | Versioned string string string
  | Client string
  | Run string
  | Short string
  | Note string

fun join :: "string \<Rightarrow> string list \<Rightarrow> string" where
  "join sep [] = []"
| "join sep [x] = x"
| "join sep (x # y # xs) = x @ sep @ join sep (y # xs)"

definition assign_text :: "string \<times> string \<Rightarrow> string" where
  "assign_text = (\<lambda>(v, x). v @ ''='' @ x)"

fun stmt_text :: "text_env \<Rightarrow> string \<Rightarrow> stmt \<Rightarrow> string" where
  "stmt_text env d (Use n) = ''use '' @ x_quote env n @ d @ [NL]"
| "stmt_text env d (Set_vars sep xs) = ''SET '' @ join sep (map assign_text xs) @ d @ [NL]"
| "stmt_text env d (Versioned n v x) = ''/*!'' @ n @ '' SET '' @ v @ ''='' @ x @ ''*/'' @ d @ [NL]"
| "stmt_text env d (Client n) = ''/*!'' @ BACKSLASH # ''C '' @ n @ '' */'' @ d @ [NL]"
| "stmt_text env d (Run q) = q @ NL # d @ [NL]"
| "stmt_text env d (Short t) = t @ d @ [NL]"
| "stmt_text env d (Note t) = t @ [NL]"

definition stmts_text :: "text_env \<Rightarrow> string \<Rightarrow> stmt list \<Rightarrow> string" where
  "stmts_text env d ss = concat (map (stmt_text env d) ss)"

lemma stmts_text_simps [simp]:
  "stmts_text env d [] = []" "stmts_text env d (x # xs) = stmt_text env d x @ stmts_text env d xs"
  "stmts_text env d (xs @ ys) = stmts_text env d xs @ stmts_text env d ys"
  by (simp_all add: stmts_text_def)

fun run_stmt :: "stmt \<Rightarrow> session \<Rightarrow> session" where
  "run_stmt (Use n) s = s\<lparr>s_db := Some n\<rparr>"
| "run_stmt (Set_vars sep xs) s = s\<lparr>s_vars := assign (s_vars s) xs\<rparr>"
| "run_stmt (Versioned n v x) s = s\<lparr>s_vars := (s_vars s)(v \<mapsto> x)\<rparr>"
| "run_stmt (Client n) s = s"
| "run_stmt (Run q) s = s"
| "run_stmt (Short t) s = s"
| "run_stmt (Note t) s = s"

text \<open>The statements that run, each with the session it finds.\<close>

fun trace_runs :: "stmt list \<Rightarrow> session \<Rightarrow> (string \<times> session) list" where
  "trace_runs [] s = []"
| "trace_runs (x # xs) s = (case x of Run q \<Rightarrow> [(q, s)] | Short t \<Rightarrow> [(t, s)] | _ \<Rightarrow> []) @ trace_runs xs (run_stmt x s)"

definition run_stmts :: "stmt list \<Rightarrow> session \<Rightarrow> session" where
  "run_stmts ss s = foldl (\<lambda>s x. run_stmt x s) s ss"

lemma run_stmts_simps [simp]:
  "run_stmts [] s = s" "run_stmts (x # xs) s = run_stmts xs (run_stmt x s)"
  "run_stmts (xs @ ys) s = run_stmts ys (run_stmts xs s)"
  by (simp_all add: run_stmts_def)

lemma trace_runs_append: "trace_runs (xs @ ys) s = trace_runs xs s @ trace_runs ys (run_stmts xs s)"
  by (induction xs arbitrary: s) auto

section \<open>The client reads them back\<close>

text \<open>Words of an assignment, and what of it the client takes as it stands.\<close>

definition plain_word :: "string \<Rightarrow> bool" where
  "plain_word w \<longleftrightarrow> w \<noteq> [] \<and> set w \<inter> {CHR '';'', CHR '','', CHR ''='', CHR '' '', QUOTE, NL} = {}"

definition quoted_word :: "string \<Rightarrow> bool" where
  "quoted_word w \<longleftrightarrow> w \<noteq> [] \<and> hd w = QUOTE \<and> last w = QUOTE \<and> 2 \<le> length w
     \<and> set (butlast (tl w)) \<inter> {CHR '';'', QUOTE} = {}"

definition readable_assignment :: "string \<times> string \<Rightarrow> bool" where
  "readable_assignment p \<longleftrightarrow> plain_word (fst p) \<and> (plain_word (snd p) \<or> quoted_word (snd p))"

text \<open>A query that the client sends as it is: it is not empty, does not look like a comment, a line that sets the
  delimiter, or one of the statements that change a session, and holds no delimiter of the log.\<close>

definition log_delimiter :: string where "log_delimiter = ''/*!*/;''"

definition plain_query :: "string \<Rightarrow> bool" where
  "plain_query q \<longleftrightarrow> q \<noteq> [] \<and> hd q \<noteq> NL \<and> hd q \<noteq> CHR ''#'' \<and> \<not> begins ''DELIMITER '' q \<and> \<not> begins ''DELIMITER '' (q @ [NL])
     \<and> \<not> begins ''SET '' q \<and> \<not> begins ''use '' q \<and> \<not> begins ''/*!'' q \<and> cut_at log_delimiter q = None"

fun clear :: "stmt \<Rightarrow> bool" where
  "clear (Use n) \<longleftrightarrow> CHR '';'' \<notin> set n"
| "clear (Set_vars sep xs) \<longleftrightarrow> xs \<noteq> [] \<and> (sep = '','' \<or> sep = '', '' \<or> length xs = 1) \<and> (\<forall>p \<in> set xs. readable_assignment p)"
| "clear (Versioned n v x) \<longleftrightarrow> n \<noteq> [] \<and> (\<forall>c \<in> set n. is_digit c) \<and> readable_assignment (v, x)"
| "clear (Client n) \<longleftrightarrow> CHR '';'' \<notin> set n \<and> CHR '' '' \<notin> set n"
| "clear (Run q) \<longleftrightarrow> False"
| "clear (Short t) \<longleftrightarrow> False"
| "clear (Note t) \<longleftrightarrow> comment_line t"

definition readable :: "stmt \<Rightarrow> bool" where
  "readable x \<longleftrightarrow> clear x \<or> (\<exists>q. x = Run q \<and> plain_query q) \<or> x = Short ''COMMIT'' \<or> x = Short ''ROLLBACK''"

text \<open>The library that prints quotes the names as documented, and its names of character sets are plain.\<close>

definition client_env :: "text_env \<Rightarrow> bool" where
  "client_env env \<longleftrightarrow> (\<forall>n. x_quote env n = quoted_name n)
     \<and> (\<forall>i n. x_csname env i = Some n \<longrightarrow> CHR '';'' \<notin> set n \<and> CHR '' '' \<notin> set n) \<and> \<not> x_short_form env"

lemma read_double_quotes: "read_name (double_quotes n @ [BACKQUOTE]) = n"
  by (induction n) auto

lemma set_double_quotes: "set (double_quotes n) = set n"
  by (induction n) auto

text \<open>A text without an open quote or a comma outside of quotes stays within one part.\<close>

definition one_part :: "bool \<Rightarrow> string \<Rightarrow> bool \<Rightarrow> bool" where
  "one_part b w b' \<longleftrightarrow> (\<forall>r. comma_parts b (w @ r) = (w @ hd (comma_parts b' r)) # tl (comma_parts b' r))"

lemma comma_parts_not_Nil [simp]: "comma_parts b r \<noteq> []"
  by (induction r arbitrary: b) (auto simp: Let_def)

lemma one_part_append: "one_part b v b1 \<Longrightarrow> one_part b1 w b2 \<Longrightarrow> one_part b (v @ w) b2"
  by (simp add: one_part_def)

lemma one_part_plain: "set w \<inter> {CHR '','', QUOTE} = {} \<Longrightarrow> one_part b w b"
  by (induction w) (auto simp: one_part_def Let_def)

lemma one_part_inside: "QUOTE \<notin> set w \<Longrightarrow> one_part True w True"
  by (induction w) (auto simp: one_part_def Let_def)

lemma one_part_quote: "one_part b [QUOTE] (\<not> b)"
  by (auto simp: one_part_def Let_def QUOTE_def)

lemma one_part_assignment:
  assumes "readable_assignment p"
  shows "one_part False (assign_text p) False"
proof -
  obtain v x where p: "p = (v, x)" by (cases p)
  have v: "one_part False v False" using assms by (intro one_part_plain) (auto simp: p readable_assignment_def plain_word_def)
  have e: "one_part False ''='' False" by (intro one_part_plain) (simp add: QUOTE_def)
  have "one_part False x False"
  proof (cases "plain_word x")
    case True
    then show ?thesis by (intro one_part_plain) (auto simp: plain_word_def)
  next
    case False
    then have q: "quoted_word x" using assms by (simp add: p readable_assignment_def)
    define z where "z = butlast (tl x)"
    have "x = [QUOTE] @ z @ [QUOTE]"
      using q by (cases x; cases "tl x" rule: rev_cases) (auto simp: quoted_word_def z_def)
    moreover have "one_part True z True" using q by (intro one_part_inside) (auto simp: quoted_word_def z_def)
    ultimately show ?thesis
      using one_part_append [OF one_part_quote [of False] one_part_append [OF _ one_part_quote [of True]]] by simp
  qed
  from one_part_append [OF v one_part_append [OF e this]] show ?thesis by (simp add: p assign_text_def)
qed

lemma read_assign_text:
  assumes "readable_assignment p"
  shows "read_assignment (assign_text p) = p" "read_assignment (CHR '' '' # assign_text p) = p"
proof -
  obtain v x where p: "p = (v, x)" by (cases p)
  have v: "v \<noteq> []" "hd v \<noteq> CHR '' ''" "CHR ''='' \<notin> set v"
    using assms by (auto simp: p readable_assignment_def plain_word_def) (metis hd_in_set)+
  have b: "dropWhile (\<lambda>c. c = CHR '' '') (v @ CHR ''='' # x) = v @ CHR ''='' # x" using v by (cases v) auto
  have t: "takeWhile (\<lambda>c. c \<noteq> CHR ''='') (v @ CHR ''='' # x) = v" "dropWhile (\<lambda>c. c \<noteq> CHR ''='') (v @ CHR ''='' # x) = CHR ''='' # x"
    using v(3) by (subst takeWhile_append2 dropWhile_append2; auto)+
  show "read_assignment (assign_text p) = p" "read_assignment (CHR '' '' # assign_text p) = p"
    using b t by (simp_all add: p assign_text_def read_assignment_def Let_def)
qed

lemma join_read:
  "xs \<noteq> [] \<Longrightarrow> sep = '','' \<or> sep = '', '' \<or> length xs = 1 \<Longrightarrow> \<forall>p \<in> set xs. readable_assignment p
   \<Longrightarrow> map read_assignment (comma_parts False (join sep (map assign_text xs))) = xs
     \<and> map read_assignment (comma_parts False (CHR '' '' # join sep (map assign_text xs))) = xs"
proof (induction xs)
  case (Cons p xs)
  note o = one_part_assignment [of p, unfolded one_part_def, rule_format]
  have p: "readable_assignment p" using Cons.prems(3) by simp
  have sp: "comma_parts False (CHR '' '' # s) = (CHR '' '' # hd (comma_parts False s)) # tl (comma_parts False s)" for s
    by (simp add: Let_def QUOTE_def)
  show ?case
  proof (cases xs)
    case Nil
    then show ?thesis using o [OF p, of "[]"] read_assign_text [OF p] by (simp add: sp del: comma_parts.simps(2))
  next
    case (Cons y ys)
    then have sep: "sep = '','' \<or> sep = '', ''" using Cons.prems(2) by auto
    have ih: "map read_assignment (comma_parts False (join sep (map assign_text xs))) = xs"
      "map read_assignment (comma_parts False (CHR '' '' # join sep (map assign_text xs))) = xs"
      using Cons.IH Cons.prems(3) sep \<open>xs = y # ys\<close> by auto
    have j: "join sep (map assign_text (p # xs)) = assign_text p @ sep @ join sep (map assign_text xs)" by (simp add: Cons)
    have k: "comma_parts False (assign_text p @ sep @ s) = assign_text p # comma_parts False (drop 1 sep @ s)" for s
      using sep o [OF p, of "sep @ s"] by auto
    show ?thesis unfolding j sp k using ih sep read_assign_text [OF p] by (auto simp del: comma_parts.simps(2))
  qed
qed simp

text \<open>The statement without its delimiter, and what it is to the client.\<close>

fun stmt_body :: "text_env \<Rightarrow> stmt \<Rightarrow> string" where
  "stmt_body env (Use n) = ''use '' @ x_quote env n"
| "stmt_body env (Set_vars sep xs) = ''SET '' @ join sep (map assign_text xs)"
| "stmt_body env (Versioned n v x) = ''/*!'' @ n @ '' SET '' @ v @ ''='' @ x @ ''*/''"
| "stmt_body env (Client n) = ''/*!'' @ BACKSLASH # ''C '' @ n @ '' */''"
| "stmt_body env (Run q) = q @ [NL]"
| "stmt_body env (Short t) = t"
| "stmt_body env (Note t) = t"

fun stmt_command :: "stmt \<Rightarrow> command" where
  "stmt_command (Use n) = Use_cmd n"
| "stmt_command (Set_vars sep xs) = Set_cmd xs"
| "stmt_command (Versioned n v x) = Set_cmd [(v, x)]"
| "stmt_command (Client n) = Charset_cmd n"
| "stmt_command (Run q) = Query_cmd q"
| "stmt_command (Short t) = Query_cmd t"
| "stmt_command (Note t) = Query_cmd t"

lemma join_chars: "set (join sep ws) \<subseteq> set sep \<union> (\<Union>w \<in> set ws. set w)"
proof (induction ws)
  case (Cons w ws)
  then show ?case by (cases ws) auto
qed simp

lemma assignment_chars:
  assumes "readable_assignment p"
  shows "CHR '';'' \<notin> set (assign_text p)" "last (assign_text p) \<noteq> NL" "assign_text p \<noteq> []" "CHR ''='' \<in> set (assign_text p)"
proof -
  obtain v x where p: "p = (v, x)" by (cases p)
  have x: "x \<noteq> []" "CHR '';'' \<notin> set x" "last x \<noteq> NL"
  proof -
    show "x \<noteq> []" using assms by (auto simp: p readable_assignment_def plain_word_def quoted_word_def)
    have "quoted_word x \<Longrightarrow> CHR '';'' \<notin> set x"
      by (cases x; cases "tl x" rule: rev_cases) (auto simp: quoted_word_def QUOTE_def)
    then show "CHR '';'' \<notin> set x" using assms by (auto simp: p readable_assignment_def plain_word_def)
    show "last x \<noteq> NL"
    proof (cases "plain_word x")
      case True
      then show ?thesis using last_in_set [of x] unfolding plain_word_def by (metis IntI empty_iff insertCI)
    next
      case False
      then show ?thesis using assms by (simp add: p readable_assignment_def quoted_word_def QUOTE_def)
    qed
  qed
  have "CHR '';'' \<notin> set v" using assms by (auto simp: p readable_assignment_def plain_word_def)
  then show "CHR '';'' \<notin> set (assign_text p)" "last (assign_text p) \<noteq> NL" "assign_text p \<noteq> []" "CHR ''='' \<in> set (assign_text p)"
    using x by (simp_all add: p assign_text_def)
qed

lemma join_end:
  "xs \<noteq> [] \<Longrightarrow> \<forall>p \<in> set xs. readable_assignment p \<Longrightarrow>
     join sep (map assign_text xs) \<noteq> [] \<and> last (join sep (map assign_text xs)) \<noteq> NL \<and> CHR ''='' \<in> set (join sep (map assign_text xs))"
proof (induction xs)
  case (Cons p xs)
  then show ?case using assignment_chars [of p] by (cases xs) auto
qed simp

text \<open>Every statement ends where the printer ended it.\<close>

lemma body_no_semicolon:
  assumes "clear x" "client_env env" "\<And>t. x \<noteq> Note t"
  shows "CHR '';'' \<notin> set (stmt_body env x)"
proof (cases x)
  case (Use n)
  then show ?thesis using assms(1,2) by (simp add: client_env_def quoted_name_def set_double_quotes BACKQUOTE_def)
next
  case (Set_vars sep xs)
  have "CHR '';'' \<notin> set (join sep (map assign_text xs))"
  proof (cases "length xs = 1")
    case True
    then obtain p where "xs = [p]" by (cases xs) auto
    then show ?thesis using assms(1) assignment_chars by (simp add: Set_vars)
  next
    case False
    then have "CHR '';'' \<notin> set sep" using assms(1) by (auto simp: Set_vars)
    then show ?thesis using join_chars [of sep "map assign_text xs"] assms(1) assignment_chars(1) by (fastforce simp: Set_vars)
  qed
  then show ?thesis by (simp add: Set_vars)
next
  case (Versioned n v y)
  have "CHR '';'' \<notin> set n" using assms(1) by (auto simp: Versioned is_digit_def)
  then show ?thesis using assms(1) assignment_chars(1) [of "(v, y)"] by (simp add: Versioned assign_text_def)
next
  case (Client n)
  then show ?thesis using assms(1) by (simp add: BACKSLASH_def)
next
  case (Run q)
  then show ?thesis using assms(1) by simp
next
  case (Short t)
  then show ?thesis using assms(1) by simp
next
  case (Note t)
  then show ?thesis using assms(3) by blast
qed

lemma log_delimiter_last: "last log_delimiter = CHR '';''" "CHR '';'' \<notin> set (butlast log_delimiter)" "log_delimiter \<noteq> []"
  by (simp_all add: log_delimiter_def)

lemma statements_cut:
  assumes "cut_at log_delimiter (b @ log_delimiter @ r) = Some (b, r)"
    and "b \<noteq> []" "hd b \<noteq> NL" "hd b \<noteq> CHR ''#''" "\<not> begins ''DELIMITER '' (b @ log_delimiter @ r)"
  shows "statements log_delimiter (b @ log_delimiter @ r) = b # statements log_delimiter r"
  using assms log_delimiter_last(3) by (cases b) (auto simp: statements.simps(2) simp del: cut_at.simps)

lemma begins_append: "length w \<le> length s \<Longrightarrow> begins w (s @ r) = begins w s"
  by (simp add: begins_def)

lemma statement_read:
  assumes x: "readable x" and env: "client_env env" and n: "\<And>t. x \<noteq> Note t"
  shows "statements log_delimiter (stmt_text env log_delimiter x @ s) = stmt_body env x # statements log_delimiter s"
proof -
  have st: "stmt_text env log_delimiter x @ s = stmt_body env x @ log_delimiter @ NL # s"
    using n by (cases x) auto
  have "statements log_delimiter (stmt_body env x @ log_delimiter @ NL # s) = stmt_body env x # statements log_delimiter (NL # s)"
  proof (cases "\<exists>q. x = Run q")
    case True
    then obtain q where q: "x = Run q" "plain_query q" using x by (auto simp: readable_def)
    note p = q(2) [unfolded plain_query_def]
    have d: "NL \<notin> set log_delimiter" by (simp add: log_delimiter_def)
    have c: "cut_at log_delimiter (q @ NL # log_delimiter @ NL # s) = Some (q @ [NL], NL # s)"
      using cut_at_step [OF _ d log_delimiter_last(3), of q "NL # s"] p by simp
    have "\<not> begins ''DELIMITER '' (q @ NL # log_delimiter @ NL # s)"
    proof (cases "length q < 10")
      case False
      then show ?thesis using begins_append [of "''DELIMITER ''" q "NL # log_delimiter @ NL # s"] p by simp
    next
      case True
      have "take 10 (q @ NL # log_delimiter @ NL # s) \<noteq> ''DELIMITER ''"
      proof
        assume "take 10 (q @ NL # log_delimiter @ NL # s) = ''DELIMITER ''"
        then have "''DELIMITER '' ! length q = NL" using True by (metis nth_append_length nth_take)
        moreover have "''DELIMITER '' ! length q \<in> set ''DELIMITER ''" using True by (intro nth_mem) simp
        ultimately show False by simp
      qed
      then show ?thesis unfolding begins_def by (simp add: eval_nat_numeral)
    qed
    moreover have "hd (q @ [NL]) = hd q" "q @ [NL] \<noteq> []" using p by auto
    ultimately show ?thesis using statements_cut [of "q @ [NL]" "NL # s"] c p by (simp add: q(1) del: cut_at.simps)
  next
    case False
    have sc: "CHR '';'' \<notin> set (stmt_body env x)"
      using x False body_no_semicolon [OF _ env n] by (auto simp: readable_def)
    have "cut_at log_delimiter (stmt_body env x @ log_delimiter @ NL # s) = Some (stmt_body env x, NL # s)"
      using cut_at_end [of log_delimiter "stmt_body env x"] sc log_delimiter_last by simp
    moreover have "stmt_body env x \<noteq> [] \<and> hd (stmt_body env x) \<noteq> NL \<and> hd (stmt_body env x) \<noteq> CHR ''#''
        \<and> \<not> begins ''DELIMITER '' (stmt_body env x @ log_delimiter @ NL # s)"
      using x False n by (cases x) (auto simp: readable_def begins_def log_delimiter_def)
    ultimately show ?thesis using statements_cut by blast
  qed
  then show ?thesis by (simp add: st)
qed

text \<open>And the client takes it for what the printer meant.\<close>

lemma command_comment:
  "command_of (''/*!'' @ w @ ''*/'') =
     (if begins [BACKSLASH, CHR ''C'', CHR '' ''] w then Charset_cmd (takeWhile (\<lambda>c. c \<noteq> CHR '' '') (drop 3 w))
      else plain_command (drop 1 (dropWhile is_digit w)))"
proof -
  have "last (''/*!'' @ w @ ''*/'') = CHR ''/''" by simp
  moreover have "begins ''/*!'' (''/*!'' @ w @ ''*/'')" by (simp add: begins_def)
  moreover have "drop 3 (take (length (''/*!'' @ w @ ''*/'') - 2) (''/*!'' @ w @ ''*/'')) = w" by simp
  ultimately show ?thesis by (simp add: command_of_def Let_def)
qed

lemma command_read:
  assumes x: "readable x" and env: "client_env env" and n: "\<And>t. x \<noteq> Note t"
  shows "command_of (stmt_body env x) = stmt_command x"
proof (cases x)
  case (Use m)
  have "last (''use '' @ quoted_name m) = BACKQUOTE" by (simp add: quoted_name_def)
  then show ?thesis using env read_double_quotes [of m]
    by (simp add: Use client_env_def command_of_def plain_command_def begins_def quoted_name_def BACKQUOTE_def)
next
  case (Set_vars sep xs)
  have c: "xs \<noteq> []" "sep = '','' \<or> sep = '', '' \<or> length xs = 1" "\<forall>p \<in> set xs. readable_assignment p"
    using x by (simp_all add: Set_vars readable_def)
  have e: "command_of (''SET '' @ w) = Set_cmd (map read_assignment (comma_parts False w))"
    if "w \<noteq> []" "last w \<noteq> NL" "CHR ''='' \<in> set w" for w
    using that by (simp add: command_of_def plain_command_def begins_def)
  show ?thesis using e [of "join sep (map assign_text xs)"] join_end [OF c(1,3), of sep] join_read [OF c] by (simp add: Set_vars)
next
  case (Versioned m v y)
  have c: "\<forall>c \<in> set m. is_digit c" "readable_assignment (v, y)" using x by (simp_all add: Versioned readable_def)
  let ?w = "assign_text (v, y)"
  have "dropWhile is_digit (m @ '' SET '' @ ?w) = '' SET '' @ ?w"
    using c(1) by (subst dropWhile_append2) (auto simp: is_digit_def)
  moreover have "\<not> begins [BACKSLASH, CHR ''C'', CHR '' ''] (m @ '' SET '' @ ?w)"
    using c(1) by (cases m) (auto simp: begins_def BACKSLASH_def is_digit_def)
  moreover have "plain_command (''SET '' @ ?w) = Set_cmd (map read_assignment (comma_parts False ?w))"
    using assignment_chars(4) [OF c(2)] by (simp add: plain_command_def begins_def)
  ultimately have "command_of (''/*!'' @ (m @ '' SET '' @ ?w) @ ''*/'') = Set_cmd (map read_assignment (comma_parts False ?w))"
    by (subst command_comment) simp
  then show ?thesis using join_read [of "[(v, y)]" "[]"] c(2) by (simp add: Versioned assign_text_def)
next
  case (Client m)
  have "CHR '' '' \<notin> set m" using x by (simp add: Client readable_def)
  then have "takeWhile (\<lambda>c. c \<noteq> CHR '' '') (m @ '' '') = m" by (subst takeWhile_append2) auto
  then have "command_of (''/*!'' @ (BACKSLASH # ''C '' @ m @ '' '') @ ''*/'') = Charset_cmd m"
    by (subst command_comment) (simp add: begins_def)
  then show ?thesis by (simp add: Client)
next
  case (Run q)
  have p: "plain_query q" using x by (simp add: Run readable_def)
  then show ?thesis by (simp add: Run command_of_def plain_command_def plain_query_def Let_def)
next
  case (Short t)
  then have "t = ''COMMIT'' \<or> t = ''ROLLBACK''" using x by (simp add: readable_def)
  then show ?thesis by (auto simp: Short command_of_def plain_command_def begins_def)
next
  case (Note t)
  then show ?thesis using n by blast
qed

lemma obey_stmt: "(\<And>t. x \<noteq> Note t) \<Longrightarrow> obey (stmt_command x) s = run_stmt x s"
  by (cases x) auto

lemma statements_read:
  assumes "client_env env"
  shows "\<forall>x \<in> set ss. readable x \<Longrightarrow>
    sent_queries (statements log_delimiter (stmts_text env log_delimiter ss @ s)) c =
      trace_runs ss c @ sent_queries (statements log_delimiter s) (run_stmts ss c)"
proof (induction ss arbitrary: c)
  case (Cons x ss)
  show ?case
  proof (cases "\<exists>t. x = Note t")
    case True
    then obtain t where t: "x = Note t" by blast
    then have "comment_line t" using Cons.prems by (simp add: readable_def)
    then show ?thesis using Cons statements_comment [of t log_delimiter "stmts_text env log_delimiter ss @ s"] by (simp add: t)
  next
    case False
    then have n: "\<And>t. x \<noteq> Note t" by blast
    have r: "readable x" using Cons.prems by simp
    have q: "(case stmt_command x of Query_cmd t \<Rightarrow> [(t, c)] | _ \<Rightarrow> []) =
        (case x of Run q \<Rightarrow> [(q, c)] | Short t \<Rightarrow> [(t, c)] | _ \<Rightarrow> [])"
      using n by (cases x) auto
    show ?thesis
      using Cons.IH [of "run_stmt x c"] Cons.prems statement_read [OF r assms n] command_read [OF r assms n] obey_stmt [OF n, of c] q
      by simp
  qed
qed simp

text \<open>The text of a log with the lines around it that change the delimiter and set it back.\<close>

definition log_text :: "string \<Rightarrow> string" where
  "log_text t = ''DELIMITER '' @ log_delimiter @ NL # t @ ''DELIMITER ;'' @ [NL]"

lemma begins_delimiter: "begins ''DELIMITER '' (''DELIMITER '' @ s)"
  by (simp add: begins_def)

lemma statements_delimiter:
  "NL \<notin> set d' \<Longrightarrow> statements d (''DELIMITER '' @ d' @ NL # s) = statements d' s"
proof -
  assume d: "NL \<notin> set d'"
  have "next_line (''DELIMITER '' @ d' @ NL # s) = s" using next_line_append [of "''DELIMITER '' @ d'" s] d by simp
  moreover have "takeWhile (\<lambda>c. c \<noteq> NL) (drop 10 (''DELIMITER '' @ d' @ NL # s)) = d'"
    using d by (simp, subst takeWhile_append2) auto
  moreover have "''DELIMITER '' @ d' @ NL # s = CHR ''D'' # (''ELIMITER '' @ d' @ NL # s)" by simp
  ultimately show ?thesis using begins_delimiter [of "d' @ NL # s"] by (simp add: statements.simps(2))
qed

lemma log_text_runs:
  assumes "client_env env" "\<forall>x \<in> set ss. readable x"
  shows "client_runs (log_text (stmts_text env log_delimiter ss)) c = trace_runs ss c"
proof -
  have "statements '';'' (log_text (stmts_text env log_delimiter ss)) =
      statements log_delimiter (stmts_text env log_delimiter ss @ ''DELIMITER ;'' @ [NL])"
    using statements_delimiter [of log_delimiter "'';''"] by (simp add: log_text_def log_delimiter_def)
  moreover have "statements log_delimiter (''DELIMITER ;'' @ [NL]) = []"
    using statements_delimiter [of "'';''" log_delimiter "[]"] by simp
  ultimately show ?thesis using statements_read [OF assms, of "''DELIMITER ;'' @ [NL]" c] by (simp add: client_runs_def)
qed


section \<open>The statements of a header\<close>

text \<open>What the steps of \<open>print_query_header\<close> say, as statements.\<close>

definition flag_vars :: "int option \<Rightarrow> int \<Rightarrow> (string \<times> string) list" where
  "flag_vars old f = map (\<lambda>x. (snd (snd x), option_value f x)) (filter (\<lambda>x. bits_changed old f (2 ^ fst x)) set_options)"

definition charset_stmts :: "text_env \<Rightarrow> string \<Rightarrow> stmt list" where
  "charset_stmts env c =
     (case x_csname env (ukorr 2 c) of Some n \<Rightarrow> [Client n] | None \<Rightarrow> [])
     @ [Set_vars '','' [(''@@session.character_set_client'', show_ulong (ukorr 2 c)),
        (''@@session.collation_connection'', show_ulong (ukorr 2 (drop 2 c))),
        (''@@session.collation_server'', show_ulong (ukorr 2 (drop 4 c)))]]"

definition setting :: "bool \<Rightarrow> string \<Rightarrow> string \<Rightarrow> stmt list" where
  "setting differs v x = (if differs then [Set_vars [] [(v, x)]] else [])"

definition collation_text :: "int \<Rightarrow> string" where
  "collation_text n = (if n \<noteq> 0 then show_ulong n else ''DEFAULT'')"

definition parallel_text :: "bool \<Rightarrow> string" where
  "parallel_text p = (if p then ''0'' else ''1'')"

definition zone_text :: "string \<Rightarrow> string" where
  "zone_text z = QUOTE # z @ [QUOTE]"

text \<open>A query that the theorems are about: proper strings, a text that the client sends as it is, and settings with the
  values of a server. Of the flags a server logs those of \<open>OPTIONS_WRITTEN_TO_BIN_LOG\<close>, which are the ones
  that are printed. The microseconds are those whose text is read as it was meant: see below for the others.\<close>

definition only_options :: "int \<Rightarrow> bool" where
  "only_options f \<longleftrightarrow> 0 \<le> f \<and> f < 2 ^ 32 \<and> (\<forall>k \<in> {..<32}. odd (f div 2 ^ k) \<longrightarrow> k \<in> {14, 15, 19, 26, 27})"

definition time_readable :: "query_event \<Rightarrow> bool" where
  "time_readable q \<longleftrightarrow> 0 \<le> eh_when (qe_header q)
     \<and> (\<forall>x \<in> set_option (sv_sec_part (qe_vars q)). x = 0 \<or> 100000 \<le> x \<and> x \<le> 999999)"

definition query_ok :: "query_event \<Rightarrow> bool" where
  "query_ok q \<longleftrightarrow> qe_db_end q = NUL \<and> NUL \<notin> set (qe_db q) \<and> length (qe_db q) < DB_SIZE
     \<and> CHR '';'' \<notin> set (qe_db q) \<and> plain_query (qe_query q) \<and> time_readable q
     \<and> set (sv_time_zone (qe_vars q)) \<inter> {NUL, QUOTE, CHR '';''} = {} \<and> length (sv_time_zone (qe_vars q)) < TIME_ZONE_SIZE
     \<and> (\<forall>f \<in> set_option (sv_flags2 (qe_vars q)). only_options f)
     \<and> (sv_increment (qe_vars q) \<noteq> 0 \<or> sv_offset (qe_vars q) \<noteq> 0)
     \<and> sv_lc_time_names (qe_vars q) < 2 ^ 16 \<and> sv_charset_database (qe_vars q) < 2 ^ 16"

text \<open>The words that are printed are read as they are.\<close>

lemma number_words: "plain_word (show_dec n)" "plain_word (show_ulong i)"
proof -
  show "plain_word (show_dec n)" for n
  proof -
    have "c \<notin> set (show_dec n)" if "\<not> is_digit c" for c using show_dec_digits that by blast
    then show ?thesis by (simp add: plain_word_def is_digit_def QUOTE_def)
  qed
  then show "plain_word (show_ulong i)" by (simp add: show_ulong_def)
qed

lemma timestamp_word: "plain_word (timestamp_text q)"
proof -
  have e: "set (timestamp_text q) \<subseteq> insert (CHR ''.'') {c. is_digit c}"
    using show_dec_digits by (auto simp: timestamp_text_def show_ulong_def split: option.splits if_splits)
  have n: "timestamp_text q \<noteq> []" by (simp add: timestamp_text_def show_ulong_def)
  have "c \<notin> insert (CHR ''.'') {c. is_digit c}" if "c \<in> {CHR '';'', CHR '','', CHR ''='', CHR '' '', QUOTE, NL}" for c
    using that by (auto simp: is_digit_def QUOTE_def)
  then have "set (timestamp_text q) \<inter> {CHR '';'', CHR '','', CHR ''='', CHR '' '', QUOTE, NL} = {}" using e by blast
  then show ?thesis using n by (simp add: plain_word_def)
qed

lemma zone_word: "set z \<inter> {NUL, QUOTE, CHR '';''} = {} \<Longrightarrow> quoted_word (zone_text z)"
  by (auto simp: quoted_word_def zone_text_def)

lemma words [simp]:
  "plain_word (show_ulong i)" "plain_word (timestamp_text q)" "plain_word (option_value f x)" "plain_word (collation_text n)"
  "plain_word (parallel_text p)"
  by (simp_all add: number_words timestamp_word option_value_def parallel_text_def collation_text_def plain_word_def [of "''DEFAULT''"]
      plain_word_def [of "[_]"] QUOTE_def split_beta)

lemma plain_constants [simp]: "plain_word ''DEFAULT''" "plain_word ''0''" "plain_word ''1''"
  by (simp_all add: plain_word_def QUOTE_def)

lemma plain_names [simp]:
  "plain_word ''TIMESTAMP''" "plain_word ''@@session.pseudo_thread_id''" "plain_word ''@@session.sql_mode''"
  "plain_word ''@@session.auto_increment_increment''" "plain_word ''@@session.auto_increment_offset''"
  "plain_word ''@@session.character_set_client''" "plain_word ''@@session.collation_connection''"
  "plain_word ''@@session.collation_server''" "plain_word ''@@session.time_zone''" "plain_word ''@@session.lc_time_names''"
  "plain_word ''@@session.collation_database''" "plain_word ''@@session.skip_parallel_replication''"
  "plain_word ''@@session.gtid_domain_id''" "plain_word ''@@session.server_id''" "plain_word ''@@session.gtid_seq_no''"
  "x \<in> set set_options \<Longrightarrow> plain_word (snd (snd x))"
  by (auto simp: plain_word_def QUOTE_def set_options_def)

lemma readable_words [simp]:
  "plain_word v \<Longrightarrow> plain_word x \<Longrightarrow> readable_assignment (v, x)" "plain_word v \<Longrightarrow> quoted_word x \<Longrightarrow> readable_assignment (v, x)"
  by (simp_all add: readable_assignment_def)

lemma clear_versioned [simp]:
  "clear (Versioned ''100001'' v x) = readable_assignment (v, x)" "clear (Versioned ''100101'' v x) = readable_assignment (v, x)"
  by (simp_all add: is_digit_def)

lemma clear_setting [simp]: "(\<forall>s \<in> set (setting b v x). clear s) \<longleftrightarrow> (b \<longrightarrow> readable_assignment (v, x))"
  by (simp add: setting_def)

declare clear.simps(3) [simp del]

section \<open>Settings of a session\<close>

definition var_is :: "session \<Rightarrow> string \<Rightarrow> string \<Rightarrow> bool" where
  "var_is c v x \<longleftrightarrow> s_vars c v = Some x"

definition flags_hold :: "session \<Rightarrow> int \<Rightarrow> bool" where
  "flags_hold c f \<longleftrightarrow> (\<forall>x \<in> set set_options. var_is c (snd (snd x)) (option_value f x))"

definition charset_holds :: "session \<Rightarrow> string \<Rightarrow> bool" where
  "charset_holds c cs \<longleftrightarrow> var_is c ''@@session.character_set_client'' (show_ulong (ukorr 2 cs))
     \<and> var_is c ''@@session.collation_connection'' (show_ulong (ukorr 2 (drop 2 cs)))
     \<and> var_is c ''@@session.collation_server'' (show_ulong (ukorr 2 (drop 4 cs)))"

definition increment_holds :: "session \<Rightarrow> int \<Rightarrow> int \<Rightarrow> bool" where
  "increment_holds c i j \<longleftrightarrow> var_is c ''@@session.auto_increment_increment'' (show_ulong i)
     \<and> var_is c ''@@session.auto_increment_offset'' (show_ulong j)"

text \<open>The session is as the query was logged: the time, the database, the thread when the query belongs to
  one, and every setting of its status variables.\<close>

definition runs_as_logged :: "query_event \<Rightarrow> session \<Rightarrow> bool" where
  "runs_as_logged q c \<longleftrightarrow>
     (let v = qe_vars q; flags = eh_flags (qe_header q)
      in (\<exists>x. s_vars c ''TIMESTAMP'' = Some x
            \<and> int (micros_of x) = 10 ^ 6 * eh_when (qe_header q) + (case sv_sec_part v of None \<Rightarrow> 0 | Some p \<Rightarrow> p))
       \<and> (\<not> has_flag flags LOG_EVENT_SUPPRESS_USE_F \<and> qe_db q \<noteq> [] \<longrightarrow> s_db c = Some (qe_db q))
       \<and> (has_flag flags LOG_EVENT_THREAD_SPECIFIC_F \<longrightarrow> var_is c ''@@session.pseudo_thread_id'' (show_ulong (qe_thread_id q)))
       \<and> (\<forall>f. sv_flags2 v = Some f \<longrightarrow> flags_hold c f)
       \<and> (\<forall>m. sv_sql_mode v = Some m \<longrightarrow> var_is c ''@@session.sql_mode'' (show_ulong m))
       \<and> increment_holds c (sv_increment v) (sv_offset v)
       \<and> (\<forall>cs. sv_charset v = Some cs \<longrightarrow> charset_holds c cs)
       \<and> (sv_time_zone v \<noteq> [] \<longrightarrow> var_is c ''@@session.time_zone'' (zone_text (sv_time_zone v)))
       \<and> var_is c ''@@session.lc_time_names'' (show_ulong (sv_lc_time_names v))
       \<and> var_is c ''@@session.collation_database'' (collation_text (sv_charset_database v)))"

text \<open>What has been printed is what the session holds.\<close>

definition agree :: "print_settings \<Rightarrow> session \<Rightarrow> bool" where
  "agree s c \<longleftrightarrow>
     length (ps_db s) = DB_SIZE \<and> length (ps_time_zone s) = TIME_ZONE_SIZE
     \<and> (cstr (ps_db s) \<noteq> [] \<longrightarrow> s_db c = Some (cstr (ps_db s)))
     \<and> (\<forall>i. ps_thread_id s = Some i \<longrightarrow> var_is c ''@@session.pseudo_thread_id'' (show_ulong i))
     \<and> (\<forall>f. ps_flags2 s = Some f \<longrightarrow> flags_hold c f \<and> only_options f)
     \<and> (\<forall>m. ps_sql_mode s = Some m \<longrightarrow> var_is c ''@@session.sql_mode'' (show_ulong m))
     \<and> (ps_increment s \<noteq> 0 \<or> ps_offset s \<noteq> 0 \<longrightarrow> increment_holds c (ps_increment s) (ps_offset s))
     \<and> (\<forall>cs. ps_charset s = Some cs \<longrightarrow> charset_holds c cs)
     \<and> (cstr (ps_time_zone s) \<noteq> [] \<longrightarrow> var_is c ''@@session.time_zone'' (zone_text (cstr (ps_time_zone s))))
     \<and> (ps_lc_time_names s < 2 ^ 16 \<longrightarrow> var_is c ''@@session.lc_time_names'' (show_ulong (ps_lc_time_names s)))
     \<and> (ps_charset_database s < 2 ^ 16 \<longrightarrow> var_is c ''@@session.collation_database'' (collation_text (ps_charset_database s)))
     \<and> (\<forall>p. ps_allow_parallel s = Some p \<longrightarrow> var_is c ''@@session.skip_parallel_replication'' (parallel_text p))
     \<and> (\<forall>i. ps_domain_id s = Some i \<longrightarrow> var_is c ''@@session.gtid_domain_id'' (show_ulong i))
     \<and> (\<forall>i. ps_server_id s = Some i \<longrightarrow> var_is c ''@@session.server_id'' (show_ulong i))"

lemma agree_start: "agree dump_event_info c"
  by (simp add: agree_def dump_event_info_def st_print_event_info_def cstr_def DB_SIZE_def TIME_ZONE_SIZE_def)

text \<open>The time is the one that was logged.\<close>

lemma show_dec_bound: "n < 10 ^ length (show_dec n)"
proof (induction n rule: show_dec.induct)
  case (1 n)
  show ?case
  proof (cases "n < 10")
    case True
    then show ?thesis by (simp add: show_dec.simps)
  next
    case False
    have "n < 10 * 10 ^ length (show_dec (n div 10))" using 1 [OF False] by linarith
    then show ?thesis using False by (subst show_dec.simps) simp
  qed
qed

lemma micros_read:
  assumes "time_readable q"
  shows "int (micros_of (timestamp_text q)) = 10 ^ 6 * eh_when (qe_header q) + (case sv_sec_part (qe_vars q) of None \<Rightarrow> 0 | Some p \<Rightarrow> p)"
proof -
  let ?w = "show_ulong (eh_when (qe_header q))"
  have d: "\<forall>c \<in> set ?w. is_digit c" using show_dec_digits by (simp add: show_ulong_def)
  have v: "int (dec_val 0 ?w) = eh_when (qe_header q)" using assms by (simp add: show_ulong_def dec_val_show_dec time_readable_def)
  have n: "\<not> is_digit (CHR ''.'')" by (simp add: is_digit_def)
  have t: "takeWhile is_digit (?w @ CHR ''.'' # r) = ?w" "dropWhile is_digit (?w @ CHR ''.'' # r) = CHR ''.'' # r" for r
    using d n by (simp_all add: takeWhile_append2 dropWhile_append2)
  have t0: "takeWhile is_digit ?w = ?w" "dropWhile is_digit ?w = []" using d by simp_all
  show ?thesis
  proof (cases "\<exists>x. sv_sec_part (qe_vars q) = Some x \<and> x \<noteq> 0")
    case True
    then obtain x where x: "sv_sec_part (qe_vars q) = Some x" "x \<noteq> 0" by blast
    then have b: "100000 \<le> x" "x \<le> 999999" using assms by (simp_all add: time_readable_def)
    have l: "length (show_dec (nat x)) = 6"
    proof (rule antisym)
      show "length (show_dec (nat x)) \<le> 6" by (rule length_show_dec) (use b in simp_all)
      have "nat x < 10 ^ length (show_dec (nat x))" by (rule show_dec_bound)
      moreover have "(10::nat) ^ 5 \<le> nat x" using b by simp
      ultimately have "(10::nat) ^ 5 < 10 ^ length (show_dec (nat x))" by linarith
      then have "5 < length (show_dec (nat x))" using power_less_imp_less_exp [of "10::nat" 5] by simp
      then show "6 \<le> length (show_dec (nat x))" by simp
    qed
    then have f: "fraction_of (show_ulong x) = nat x" by (simp add: fraction_of_def show_ulong_def dec_val_show_dec)
    have "timestamp_text q = ?w @ CHR ''.'' # show_ulong x" using x b by (simp add: timestamp_text_def TIME_MAX_SECOND_PART_def)
    then show ?thesis using t v f b x by (simp add: micros_of_def)
  next
    case False
    then have "timestamp_text q = ?w" "(case sv_sec_part (qe_vars q) of None \<Rightarrow> 0 | Some p \<Rightarrow> p) = 0"
      by (auto simp: timestamp_text_def split: option.split)
    then show ?thesis by (simp add: micros_of_def t0 v)
  qed
qed

text \<open>Assignments change the variables they name.\<close>

lemma assigned_other: "v \<notin> fst ` set xs \<Longrightarrow> assign m xs v = m v"
  by (induction xs arbitrary: m) auto

lemma assigned_options:
  "distinct (map nm xs) \<Longrightarrow> x \<in> set xs \<Longrightarrow>
     assign m (map (\<lambda>x. (nm x, val x)) (filter P xs)) (nm x) = (if P x then Some (val x) else m (nm x))"
proof (induction xs arbitrary: m)
  case (Cons y xs)
  have o: "nm y \<notin> fst ` set (map (\<lambda>x. (nm x, val x)) (filter P xs))" using Cons.prems(1) by auto
  show ?case
  proof (cases "x = y")
    case True
    then show ?thesis using assigned_other [OF o] by simp
  next
    case False
    then have "x \<in> set xs" using Cons.prems by simp
    moreover have "nm y \<notin> nm ` set xs" using Cons.prems(1) by simp
    ultimately have "x \<in> set xs" "nm x \<noteq> nm y" by (simp, metis imageI)
    then show ?thesis using Cons.IH Cons.prems(1) by simp
  qed
qed simp

lemma flags_assigned:
  assumes "\<forall>g. old = Some g \<longrightarrow> flags_hold c g"
  shows "flags_hold (run_stmt (Set_vars sep (flag_vars old f)) c) f"
  unfolding flags_hold_def
proof
  fix x assume x: "x \<in> set set_options"
  have d: "distinct (map (\<lambda>x. snd (snd x)) set_options)" by (simp add: set_options_def)
  note a = assigned_options [OF d x, of "s_vars c" "option_value f" "\<lambda>x. bits_changed old f (2 ^ fst x)", folded flag_vars_def]
  show "var_is (run_stmt (Set_vars sep (flag_vars old f)) c) (snd (snd x)) (option_value f x)"
  proof (cases "bits_changed old f (2 ^ fst x)")
    case True
    then show ?thesis using a by (simp add: var_is_def)
  next
    case False
    then obtain g where g: "old = Some g" "odd (g div 2 ^ fst x) = odd (f div 2 ^ fst x)"
      by (auto simp: bits_changed_def split: option.splits)
    then have "option_value f x = option_value g x" by (simp add: option_value_def split_beta)
    then have "var_is c (snd (snd x)) (option_value f x)" using assms x g(1) by (auto simp: flags_hold_def)
    then show ?thesis using False a by (simp add: var_is_def)
  qed
qed

definition option_names :: "string set" where
  "option_names = {''@@session.foreign_key_checks'', ''@@session.sql_auto_is_null'', ''@@session.unique_checks'',
     ''@@session.autocommit'', ''@@session.check_constraint_checks''}"

lemma flag_vars_other: "v \<notin> option_names \<Longrightarrow> assign m (flag_vars old f) v = m v"
proof -
  assume "v \<notin> option_names"
  then have "v \<notin> fst ` set (flag_vars old f)" by (auto simp: flag_vars_def set_options_def option_names_def)
  then show ?thesis by (rule assigned_other)
qed

section \<open>The steps of a header\<close>

text \<open>A step that, in a session that agrees with the settings, prints these statements, which the client
  understands and none of which runs a query, and leaves the session in agreement with the new settings.\<close>

definition says :: "text_env \<Rightarrow> print_settings \<Rightarrow> session \<Rightarrow> print_step \<Rightarrow> stmt list \<Rightarrow> print_settings \<Rightarrow> bool" where
  "says env s c f ss s' \<longleftrightarrow>
     f s = Inr (stmts_text env (ps_delimiter s) ss, s') \<and> ps_delimiter s' = ps_delimiter s
     \<and> agree s' (run_stmts ss c) \<and> (\<forall>x \<in> set ss. clear x)"

lemma says_Nil: "agree s c \<Longrightarrow> says env s c (print_seq []) [] s"
  by (simp add: says_def)

lemma says_Cons:
  "says env s c f ss s1 \<Longrightarrow> says env s1 (run_stmts ss c) (print_seq fs) ts s2 \<Longrightarrow> says env s c (print_seq (f # fs)) (ss @ ts) s2"
  by (auto simp: says_def)

definition upd :: "session \<Rightarrow> string \<Rightarrow> string \<Rightarrow> session" where
  "upd c v x = c\<lparr>s_vars := (s_vars c)(v \<mapsto> x)\<rparr>"

lemma var_is_upd [simp]: "var_is (upd c v x) w y \<longleftrightarrow> (if w = v then x = y else var_is c w y)"
  by (auto simp: var_is_def upd_def)

lemma s_db_upd [simp]: "s_db (upd c v x) = s_db c"
  by (simp add: upd_def)

lemma flags_hold_upd [simp]: "v \<notin> option_names \<Longrightarrow> flags_hold (upd c v x) f = flags_hold c f"
  by (auto simp: flags_hold_def set_options_def option_names_def)

declare run_stmt.simps(2,3) [simp del]

lemma run_set [simp]:
  "run_stmt (Set_vars sep [(v, x)]) c = upd c v x" "run_stmt (Set_vars sep [(v, x), (w, y)]) c = upd (upd c v x) w y"
  "run_stmt (Set_vars sep [(v, x), (w, y), (u, z)]) c = upd (upd (upd c v x) w y) u z"
  "run_stmt (Versioned n v x) c = upd c v x"
  by (simp_all add: upd_def run_stmt.simps(2,3))

lemma run_setting [simp]: "run_stmts (setting b v x) c = (if b then upd c v x else c)"
  by (simp add: setting_def)

lemma setting_text [simp]:
  "stmts_text env d (setting b v x) = (if b then ''SET '' @ v @ ''='' @ x @ d @ [NL] else [])"
  by (simp add: setting_def assign_text_def)

lemmas holds_defs = agree_def charset_holds_def increment_holds_def option_names_def

definition query_line :: "text_env \<Rightarrow> query_event \<Rightarrow> int option \<Rightarrow> string" where
  "query_line env q crc =
     Log_event_print_header env (qe_header q) crc @ CHR 0x09 # ''Query'' @ CHR 0x09 # ''thread_id=''
       @ show_ulong (qe_thread_id q) @ CHR 0x09 # ''exec_time='' @ show_ulong (qe_exec_time q)
       @ CHR 0x09 # ''error_code='' @ show_ulong (qe_error_code q)"

definition line_stmts :: "text_env \<Rightarrow> query_event \<Rightarrow> int option \<Rightarrow> stmt list" where
  "line_stmts env q crc = (if x_short_form env then [] else [Note (query_line env q crc)])"

lemma says_line: "agree s c \<Longrightarrow> says env s c (print_query_line env q crc) (line_stmts env q crc) s"
  by (simp add: says_def print_query_line_def line_stmts_def query_line_def header_comment number_lines)

lemma says_timestamp:
  "agree s c \<Longrightarrow> says env s c (print_set_timestamp q) (setting True ''TIMESTAMP'' (timestamp_text q)) s"
  by (simp add: says_def print_set_timestamp_def holds_defs)

definition after_sql_mode :: "query_event \<Rightarrow> print_settings \<Rightarrow> print_settings" where
  "after_sql_mode q s = (case sv_sql_mode (qe_vars q) of None \<Rightarrow> s | Some m \<Rightarrow> s\<lparr>ps_sql_mode := Some m\<rparr>)"

definition sql_mode_stmts :: "query_event \<Rightarrow> print_settings \<Rightarrow> stmt list" where
  "sql_mode_stmts q s = (case sv_sql_mode (qe_vars q) of None \<Rightarrow> []
     | Some m \<Rightarrow> setting (ps_sql_mode s \<noteq> Some m) ''@@session.sql_mode'' (show_ulong m))"

lemma says_sql_mode: "agree s c \<Longrightarrow> says env s c (print_sql_mode q) (sql_mode_stmts q s) (after_sql_mode q s)"
  by (cases s; cases "sv_sql_mode (qe_vars q)")
    (simp_all add: says_def print_sql_mode_def sql_mode_stmts_def after_sql_mode_def holds_defs)

definition prints_thread :: "query_event \<Rightarrow> print_settings \<Rightarrow> bool" where
  "prints_thread q s \<longleftrightarrow> ps_thread_id s = None
     \<or> has_flag (eh_flags (qe_header q)) LOG_EVENT_THREAD_SPECIFIC_F \<and> ps_thread_id s \<noteq> Some (qe_thread_id q)"

definition after_thread :: "query_event \<Rightarrow> print_settings \<Rightarrow> print_settings" where
  "after_thread q s = (if prints_thread q s then s\<lparr>ps_thread_id := Some (qe_thread_id q)\<rparr> else s)"

lemma says_thread:
  "agree s c \<Longrightarrow> \<not> x_short_form env \<Longrightarrow> says env s c (print_thread_id env q)
     (setting (prints_thread q s) ''@@session.pseudo_thread_id'' (show_ulong (qe_thread_id q))) (after_thread q s)"
  by (simp add: says_def print_thread_id_def after_thread_def prints_thread_def holds_defs)

definition after_increment :: "query_event \<Rightarrow> print_settings \<Rightarrow> print_settings" where
  "after_increment q s = s\<lparr>ps_increment := sv_increment (qe_vars q), ps_offset := sv_offset (qe_vars q)\<rparr>"

definition increment_stmts :: "query_event \<Rightarrow> print_settings \<Rightarrow> stmt list" where
  "increment_stmts q s = (let i = sv_increment (qe_vars q); j = sv_offset (qe_vars q)
     in if ps_increment s \<noteq> i \<or> ps_offset s \<noteq> j
        then [Set_vars '', '' [(''@@session.auto_increment_increment'', show_ulong i), (''@@session.auto_increment_offset'', show_ulong j)]]
        else [])"

lemma says_increment: "agree s c \<Longrightarrow> says env s c (print_increment q) (increment_stmts q s) (after_increment q s)"
  by (cases s) (auto simp: says_def print_increment_def increment_stmts_def after_increment_def holds_defs Let_def assign_text_def)

definition after_charset :: "query_event \<Rightarrow> print_settings \<Rightarrow> print_settings" where
  "after_charset q s = (case sv_charset (qe_vars q) of None \<Rightarrow> s | Some cs \<Rightarrow> s\<lparr>ps_charset := Some cs\<rparr>)"

definition charset_change :: "text_env \<Rightarrow> query_event \<Rightarrow> print_settings \<Rightarrow> stmt list" where
  "charset_change env q s = (case sv_charset (qe_vars q) of None \<Rightarrow> []
     | Some cs \<Rightarrow> if ps_charset s \<noteq> Some cs then charset_stmts env cs else [])"

lemma says_charset: "agree s c \<Longrightarrow> client_env env \<Longrightarrow> says env s c (print_charset env q) (charset_change env q s) (after_charset q s)"
  by (cases s; cases "sv_charset (qe_vars q)"; cases "x_csname env (ukorr 2 (the (sv_charset (qe_vars q))))")
    (simp_all add: says_def print_charset_def charset_change_def after_charset_def charset_stmts_def holds_defs assign_text_def client_env_def)

definition after_lc_time_names :: "query_event \<Rightarrow> print_settings \<Rightarrow> print_settings" where
  "after_lc_time_names q s = s\<lparr>ps_lc_time_names := sv_lc_time_names (qe_vars q)\<rparr>"

lemma says_lc_time_names:
  "agree s c \<Longrightarrow> says env s c (print_lc_time_names q)
     (setting (sv_lc_time_names (qe_vars q) \<noteq> ps_lc_time_names s) ''@@session.lc_time_names'' (show_ulong (sv_lc_time_names (qe_vars q))))
     (after_lc_time_names q s)"
  by (cases s) (auto simp: says_def print_lc_time_names_def after_lc_time_names_def holds_defs Let_def)

definition after_charset_database :: "query_event \<Rightarrow> print_settings \<Rightarrow> print_settings" where
  "after_charset_database q s = s\<lparr>ps_charset_database := sv_charset_database (qe_vars q)\<rparr>"

lemma says_charset_database:
  "agree s c \<Longrightarrow> says env s c (print_charset_database q)
     (setting (sv_charset_database (qe_vars q) \<noteq> ps_charset_database s) ''@@session.collation_database''
        (collation_text (sv_charset_database (qe_vars q)))) (after_charset_database q s)"
  by (cases s) (auto simp: says_def print_charset_database_def after_charset_database_def holds_defs Let_def collation_text_def)

text \<open>The arrays of the time zone and the database.\<close>

lemma cstr_array: "NUL \<notin> set z \<Longrightarrow> cstr (z @ NUL # r) = z"
  by (induction z) (auto simp: cstr_def)

lemma cstr_prefix: "NUL \<notin> set z \<Longrightarrow> take (length z + 1) a = z @ [NUL] \<Longrightarrow> cstr a = z"
proof -
  assume z: "NUL \<notin> set z" "take (length z + 1) a = z @ [NUL]"
  have "a = take (length z + 1) a @ drop (length z + 1) a" by (rule append_take_drop_id [symmetric])
  then have "a = z @ NUL # drop (length z + 1) a" unfolding z(2) by simp
  then show "cstr a = z" using cstr_array [OF z(1)] by metis
qed

definition zone_differs :: "query_event \<Rightarrow> print_settings \<Rightarrow> bool" where
  "zone_differs q s \<longleftrightarrow> (let z = sv_time_zone (qe_vars q) in z \<noteq> [] \<and> take (length z + 1) (ps_time_zone s) \<noteq> z @ [NUL])"

definition after_time_zone :: "query_event \<Rightarrow> print_settings \<Rightarrow> print_settings" where
  "after_time_zone q s = (let z = sv_time_zone (qe_vars q)
     in if zone_differs q s then s\<lparr>ps_time_zone := z @ NUL # drop (length z + 1) (ps_time_zone s)\<rparr> else s)"

lemma says_time_zone:
  assumes a: "agree s c" and q: "query_ok q"
  shows "says env s c (print_time_zone q) (setting (zone_differs q s) ''@@session.time_zone'' (zone_text (sv_time_zone (qe_vars q))))
    (after_time_zone q s)"
proof -
  let ?z = "sv_time_zone (qe_vars q)"
  have z: "NUL \<notin> set ?z" "length ?z < TIME_ZONE_SIZE" using q by (auto simp: query_ok_def)
  have l: "length (ps_time_zone s) = TIME_ZONE_SIZE" using a by (simp add: agree_def)
  have c: "cstr (?z @ [NUL]) = ?z" by (rule cstr_array [OF z(1)])
  have k: "copy_to ''time_zone_str'' (?z @ [NUL]) (ps_time_zone s) = Inr (?z @ NUL # drop (length ?z + 1) (ps_time_zone s))"
    using z(2) l by (simp add: copy_to_def)
  have p: "print_time_zone q s = Inr (stmts_text env (ps_delimiter s)
      (setting (zone_differs q s) ''@@session.time_zone'' (zone_text ?z)), after_time_zone q s)"
    using k c by (simp add: print_time_zone_def after_time_zone_def zone_differs_def zone_text_def Let_def)
  have "agree (after_time_zone q s) (run_stmts (setting (zone_differs q s) ''@@session.time_zone'' (zone_text ?z)) c)"
    using a z l cstr_array [OF z(1)] by (simp add: after_time_zone_def Let_def holds_defs)
  then show ?thesis using p zone_word [of ?z] q by (simp add: says_def after_time_zone_def query_ok_def Let_def)
qed

text \<open>The flags: only the variables whose bits have changed, which is enough.\<close>

lemma print_set_option_text:
  "print_set_option P f xs comma =
     (let vs = map (\<lambda>x. (snd (snd x), option_value f x)) (filter (\<lambda>x. P (2 ^ fst x)) xs)
      in (if comma \<and> vs \<noteq> [] then '', '' else []) @ join '', '' (map assign_text vs))"
proof (induction xs arbitrary: comma)
  case (Cons x xs)
  have j: "join '', '' (t # ts) = t @ (if ts \<noteq> [] then '', '' else []) @ join '', '' ts" for t ts by (cases ts) simp_all
  show ?case by (simp add: Cons.IH Let_def j assign_text_def del: join.simps)
qed simp

text \<open>Flags that differ differ in a bit that is printed, so that no list of assignments is empty.\<close>

lemma options_differ:
  assumes "only_options f" "only_options g" "\<forall>k \<in> {14, 15, 19, 26, 27}. odd (f div 2 ^ k) = odd (g div 2 ^ k)"
  shows "f = g"
proof (rule bit_eqI)
  fix k :: nat
  have z: "h div 2 ^ k = 0" if "only_options h" "32 \<le> k" for h :: int
  proof (rule div_pos_pos_trivial)
    have "(2::int) ^ 32 \<le> 2 ^ k" by (rule power_increasing) (use that in simp_all)
    then show "h < 2 ^ k" using that(1) by (simp add: only_options_def)
  qed (use that(1) in \<open>simp add: only_options_def\<close>)
  show "bit f k = bit g k"
  proof (cases "k < 32")
    case True
    then show ?thesis using assms unfolding only_options_def bit_iff_odd by blast
  next
    case False
    then show ?thesis using z assms(1,2) by (simp add: bit_iff_odd)
  qed
qed

lemma flag_vars_not_empty:
  assumes "only_options f" "\<forall>g. old = Some g \<longrightarrow> only_options g" "old \<noteq> Some f"
  shows "flag_vars old f \<noteq> []"
proof
  assume e: "flag_vars old f = []"
  then obtain g where g: "old = Some g" by (cases old) (auto simp: flag_vars_def set_options_def bits_changed_def)
  have "\<forall>k \<in> {14, 15, 19, 26, 27}. odd (f div 2 ^ k) = odd (g div 2 ^ k)"
    using e g by (auto simp: flag_vars_def set_options_def bits_changed_def split: if_splits)
  then show False using options_differ [of f g] assms g by auto
qed

lemma flag_vars_readable: "\<forall>p \<in> set (flag_vars old f). readable_assignment p"
  by (auto simp: flag_vars_def)

definition after_flags2 :: "query_event \<Rightarrow> print_settings \<Rightarrow> print_settings" where
  "after_flags2 q s = (case sv_flags2 (qe_vars q) of None \<Rightarrow> s | Some f \<Rightarrow> s\<lparr>ps_flags2 := Some f\<rparr>)"

definition flags2_stmts :: "query_event \<Rightarrow> print_settings \<Rightarrow> stmt list" where
  "flags2_stmts q s = (case sv_flags2 (qe_vars q) of None \<Rightarrow> []
     | Some f \<Rightarrow> if ps_flags2 s \<noteq> Some f then [Set_vars '', '' (flag_vars (ps_flags2 s) f)] else [])"

lemma var_is_flags: "v \<notin> option_names \<Longrightarrow> var_is (run_stmt (Set_vars sep (flag_vars old f)) c) v x = var_is c v x"
  by (simp add: var_is_def run_stmt.simps(2) flag_vars_other)

lemma s_db_set [simp]: "s_db (run_stmt (Set_vars sep vs) c) = s_db c"
  by (simp add: run_stmt.simps(2))

lemma says_flags2:
  assumes a: "agree s c" and q: "query_ok q"
  shows "says env s c (print_flags2 q) (flags2_stmts q s) (after_flags2 q s)"
proof (cases "sv_flags2 (qe_vars q)")
  case None
  then show ?thesis using a by (simp add: says_def print_flags2_def flags2_stmts_def after_flags2_def)
next
  case (Some f)
  show ?thesis
  proof (cases "ps_flags2 s = Some f")
    case True
    then have "s\<lparr>ps_flags2 := Some f\<rparr> = s" by (cases s) simp
    then have "after_flags2 q s = s" using Some by (simp only: after_flags2_def option.case)
    then show ?thesis using a Some True by (simp add: says_def print_flags2_def flags2_stmts_def)
  next
    case False
    let ?x = "Set_vars '', '' (flag_vars (ps_flags2 s) f)"
    have o: "only_options f" using q Some by (simp add: query_ok_def)
    have "flags_hold (run_stmt ?x c) f" by (rule flags_assigned) (use a in \<open>simp add: agree_def\<close>)
    then have "agree (s\<lparr>ps_flags2 := Some f\<rparr>) (run_stmt ?x c)"
      using a o by (simp add: agree_def charset_holds_def increment_holds_def var_is_flags option_names_def)
    moreover have "clear ?x"
      using flag_vars_not_empty [OF o _ False] flag_vars_readable a by (simp add: agree_def)
    ultimately show ?thesis using Some False
      by (simp add: says_def print_flags2_def flags2_stmts_def after_flags2_def print_set_option_text flag_vars_def Let_def)
  qed
qed

definition suppressed :: "query_event \<Rightarrow> bool" where
  "suppressed q \<longleftrightarrow> has_flag (eh_flags (qe_header q)) LOG_EVENT_SUPPRESS_USE_F"

definition db_differs :: "query_event \<Rightarrow> print_settings \<Rightarrow> bool" where
  "db_differs q s \<longleftrightarrow> take (length (qe_db q) + 1) (ps_db s) \<noteq> qe_db q @ [NUL]"

definition after_use :: "query_event \<Rightarrow> print_settings \<Rightarrow> print_settings" where
  "after_use q s =
     (if suppressed q then if is_trans_keyword (qe_query q) then s else s\<lparr>ps_db := NUL # tl (ps_db s)\<rparr>
      else if db_differs q s then s\<lparr>ps_db := qe_db q @ NUL # drop (length (qe_db q) + 1) (ps_db s)\<rparr> else s)"

definition use_stmts :: "query_event \<Rightarrow> print_settings \<Rightarrow> stmt list" where
  "use_stmts q s = (if suppressed q \<or> qe_db q = [] \<or> \<not> db_differs q s then [] else [Use (qe_db q)])"

lemma var_is_use [simp]: "var_is (c\<lparr>s_db := d\<rparr>) v x = var_is c v x" "flags_hold (c\<lparr>s_db := d\<rparr>) f = flags_hold c f"
  by (simp_all add: var_is_def flags_hold_def)

lemma says_use:
  assumes a: "agree s c" and q: "query_ok q"
  shows "says env s c (print_use env q) (use_stmts q s) (after_use q s)"
proof -
  let ?d = "qe_db q"
  have d: "NUL \<notin> set ?d" "length ?d < DB_SIZE" "qe_db_end q = NUL" using q by (simp_all add: query_ok_def)
  have l: "length (ps_db s) = DB_SIZE" using a by (simp add: agree_def)
  have n: "hd (?d @ [NUL]) \<noteq> NUL \<longleftrightarrow> ?d \<noteq> []" using d(1) by (cases ?d) auto
  have c: "cstr (?d @ NUL # qe_query q) = ?d" by (rule cstr_array [OF d(1)])
  have k: "copy_to ''db'' (?d @ [NUL]) (ps_db s) = Inr (?d @ NUL # drop (length ?d + 1) (ps_db s))"
    using d(2) l by (simp add: copy_to_def)
  have same: "s\<lparr>ps_db := ps_db s\<rparr> = s" by (cases s) simp
  have p: "print_use env q s = Inr (stmts_text env (ps_delimiter s) (use_stmts q s), after_use q s)"
    using k c n d(3) same
    by (auto simp: print_use_def use_stmts_def after_use_def suppressed_def db_differs_def Let_def)
  have e: "cstr (NUL # xs) = []" for xs by (simp add: cstr_def)
  have "agree (after_use q s) (run_stmts (use_stmts q s) c)"
    using a d l cstr_array [OF d(1)] e
    by (simp add: after_use_def use_stmts_def agree_def charset_holds_def increment_holds_def DB_SIZE_def)
  then show ?thesis using p q by (simp add: says_def after_use_def use_stmts_def query_ok_def)
qed

section \<open>A query in its session\<close>

lemma seq_one: "says env s c f ss s' \<Longrightarrow> says env s c (print_seq [f]) ss s'"
  using says_Cons [of env s c f ss s' "[]" "[]" s'] by (simp add: says_def)

text \<open>A header sets the variables of queries only, and the time once.\<close>

definition query_names :: "string set" where
  "query_names = option_names \<union> {''TIMESTAMP'', ''@@session.pseudo_thread_id'', ''@@session.sql_mode'',
     ''@@session.auto_increment_increment'', ''@@session.auto_increment_offset'', ''@@session.character_set_client'',
     ''@@session.collation_connection'', ''@@session.collation_server'', ''@@session.time_zone'', ''@@session.lc_time_names'',
     ''@@session.collation_database''}"

lemma vars_kept:
  "v \<notin> query_names \<Longrightarrow> var_is (run_stmts (flags2_stmts q s) c) v x = var_is c v x"
  "v \<notin> query_names \<Longrightarrow> var_is (run_stmts (sql_mode_stmts q s) c) v x = var_is c v x"
  "v \<notin> query_names \<Longrightarrow> var_is (run_stmts (increment_stmts q s) c) v x = var_is c v x"
  "v \<notin> query_names \<Longrightarrow> var_is (run_stmts (charset_change env q s) c) v x = var_is c v x"
  "var_is (run_stmts (line_stmts env q crc) c) v x = var_is c v x" "var_is (run_stmts (use_stmts q s) c) v x = var_is c v x"
  "v \<notin> query_names \<Longrightarrow> w \<in> query_names \<Longrightarrow> var_is (run_stmts (setting b w y) c) v x = var_is c v x"
  by (auto simp: flags2_stmts_def sql_mode_stmts_def increment_stmts_def charset_change_def charset_stmts_def var_is_flags
      line_stmts_def use_stmts_def query_names_def Let_def split: option.split)

lemma time_kept [simp]:
  "var_is (run_stmts (flags2_stmts q s) c) ''TIMESTAMP'' x = var_is c ''TIMESTAMP'' x"
  "var_is (run_stmts (sql_mode_stmts q s) c) ''TIMESTAMP'' x = var_is c ''TIMESTAMP'' x"
  "var_is (run_stmts (increment_stmts q s) c) ''TIMESTAMP'' x = var_is c ''TIMESTAMP'' x"
  "var_is (run_stmts (charset_change env q s) c) ''TIMESTAMP'' x = var_is c ''TIMESTAMP'' x"
  by (simp_all add: flags2_stmts_def sql_mode_stmts_def increment_stmts_def charset_change_def charset_stmts_def var_is_flags
      option_names_def Let_def split: option.split)

text \<open>The settings at the end are those of the query.\<close>

definition after_header :: "query_event \<Rightarrow> print_settings \<Rightarrow> print_settings" where
  "after_header q s = after_charset_database q (after_lc_time_names q (after_time_zone q (after_charset q (after_increment q
     (after_sql_mode q (after_flags2 q (after_thread q (after_use q s))))))))"

lemmas after_defs = after_charset_database_def after_lc_time_names_def after_charset_def after_increment_def after_sql_mode_def
  after_flags2_def after_thread_def

lemma settings_after:
  "ps_flags2 (after_header q s) = (case sv_flags2 (qe_vars q) of None \<Rightarrow> ps_flags2 s | Some f \<Rightarrow> Some f)"
  "ps_sql_mode (after_header q s) = (case sv_sql_mode (qe_vars q) of None \<Rightarrow> ps_sql_mode s | Some m \<Rightarrow> Some m)"
  "ps_increment (after_header q s) = sv_increment (qe_vars q)" "ps_offset (after_header q s) = sv_offset (qe_vars q)"
  "ps_charset (after_header q s) = (case sv_charset (qe_vars q) of None \<Rightarrow> ps_charset s | Some cs \<Rightarrow> Some cs)"
  "ps_lc_time_names (after_header q s) = sv_lc_time_names (qe_vars q)"
  "ps_charset_database (after_header q s) = sv_charset_database (qe_vars q)"
  "ps_thread_id (after_header q s) = (if prints_thread q s then Some (qe_thread_id q) else ps_thread_id s)"
  by (simp_all add: after_header_def after_defs after_time_zone_def after_use_def prints_thread_def Let_def split: option.split)

lemma db_after:
  assumes q: "query_ok q" and n: "\<not> suppressed q"
  shows "cstr (ps_db (after_header q s)) = qe_db q"
proof -
  have k: "ps_db (after_header q s) = ps_db (after_use q s)"
    by (simp add: after_header_def after_defs after_time_zone_def Let_def split: option.split)
  have "NUL \<notin> set (qe_db q)" using q by (simp add: query_ok_def)
  then show ?thesis unfolding k using n cstr_array [of "qe_db q"] cstr_prefix [of "qe_db q" "ps_db s"]
    by (simp add: after_use_def db_differs_def)
qed

lemma zone_after:
  assumes q: "query_ok q" and n: "sv_time_zone (qe_vars q) \<noteq> []"
  shows "cstr (ps_time_zone (after_header q s)) = sv_time_zone (qe_vars q)"
proof -
  define s6 where "s6 = after_charset q (after_increment q (after_sql_mode q (after_flags2 q (after_thread q (after_use q s)))))"
  have k: "ps_time_zone (after_header q s) = ps_time_zone (after_time_zone q s6)"
    by (simp add: after_header_def s6_def after_charset_database_def after_lc_time_names_def)
  have "NUL \<notin> set (sv_time_zone (qe_vars q))" using q by (simp add: query_ok_def)
  then show ?thesis unfolding k using n cstr_array [of "sv_time_zone (qe_vars q)"] cstr_prefix [of "sv_time_zone (qe_vars q)" "ps_time_zone s6"]
    by (simp add: after_time_zone_def zone_differs_def Let_def)
qed

text \<open>After the header of a query the session is as it was logged, and agrees with what was printed.\<close>

lemma header_says:
  assumes a: "agree s c" and q: "query_ok q" and ce: "client_env env"
  shows "\<exists>ss. says env s c (print_query_header env q crc) ss (after_header q s) \<and> runs_as_logged q (run_stmts ss c)
    \<and> (\<forall>v x. v \<notin> query_names \<longrightarrow> var_is (run_stmts ss c) v x = var_is c v x)"
proof -
  have sf: "\<not> x_short_form env" using ce by (simp add: client_env_def)
  have ag: "says env s c f ss s' \<Longrightarrow> agree s' (run_stmts ss c)" for s c f ss s' by (simp add: says_def)
  note u0 = says_line [OF a, of env q crc]
  note u1 = says_use [OF ag [OF u0] q, of env]
  note u2 = says_timestamp [OF ag [OF u1], of env q]
  note u3 = says_thread [OF ag [OF u2] sf, of q]
  note u4 = says_flags2 [OF ag [OF u3] q, of env]
  note u5 = says_sql_mode [OF ag [OF u4], of env q]
  note u6 = says_increment [OF ag [OF u5], of env q]
  note u7 = says_charset [OF ag [OF u6] ce, of q]
  note u8 = says_time_zone [OF ag [OF u7] q, of env]
  note u9 = says_lc_time_names [OF ag [OF u8], of env q]
  note u10 = says_charset_database [OF ag [OF u9], of env q]
  note all = says_Cons [OF u0 says_Cons [OF u1 says_Cons [OF u2 says_Cons [OF u3 says_Cons [OF u4 says_Cons [OF u5
      says_Cons [OF u6 says_Cons [OF u7 says_Cons [OF u8 says_Cons [OF u9 seq_one [OF u10]]]]]]]]]]]
  have "\<exists>ss. says env s c (print_query_header env q crc) ss (after_header q s)
      \<and> var_is (run_stmts ss c) ''TIMESTAMP'' (timestamp_text q)
      \<and> (\<forall>v x. v \<notin> query_names \<longrightarrow> var_is (run_stmts ss c) v x = var_is c v x)"
    by (rule exI, rule conjI, rule all [folded print_query_header_def after_header_def], rule conjI, simp)
      (simp add: vars_kept query_names_def del: run_setting)
  then obtain ss where ss: "says env s c (print_query_header env q crc) ss (after_header q s)"
    "var_is (run_stmts ss c) ''TIMESTAMP'' (timestamp_text q)"
    "\<forall>v x. v \<notin> query_names \<longrightarrow> var_is (run_stmts ss c) v x = var_is c v x" by blast
  have g: "agree (after_header q s) (run_stmts ss c)" by (rule ag [OF ss(1)])
  have "var_is (run_stmts ss c) ''@@session.pseudo_thread_id'' (show_ulong (qe_thread_id q))"
    if "has_flag (eh_flags (qe_header q)) LOG_EVENT_THREAD_SPECIFIC_F"
    using g that by (auto simp: agree_def settings_after prints_thread_def split: if_splits)
  moreover have "s_db (run_stmts ss c) = Some (qe_db q)" if "\<not> suppressed q" "qe_db q \<noteq> []"
    using g db_after [OF q that(1), of s] that(2) by (simp add: agree_def)
  moreover have "var_is (run_stmts ss c) ''@@session.time_zone'' (zone_text (sv_time_zone (qe_vars q)))"
    if "sv_time_zone (qe_vars q) \<noteq> []"
    using g zone_after [OF q that, of s] that by (simp add: agree_def)
  ultimately have "runs_as_logged q (run_stmts ss c)"
    using g ss(2) q micros_read [of q] by (simp add: runs_as_logged_def var_is_def [of _ "''TIMESTAMP''"] agree_def settings_after suppressed_def query_ok_def Let_def)
  then show ?thesis using ss(1,3) by blast
qed

section \<open>Global transaction ids\<close>

definition gtid_holds :: "gtid_event \<Rightarrow> session \<Rightarrow> bool" where
  "gtid_holds g c \<longleftrightarrow>
     var_is c ''@@session.skip_parallel_replication'' (parallel_text (has_flag (ge_flags2 g) FL_ALLOW_PARALLEL))
     \<and> var_is c ''@@session.gtid_domain_id'' (show_ulong (ge_domain_id g))
     \<and> var_is c ''@@session.server_id'' (show_ulong (eh_server_id (ge_header g)))
     \<and> var_is c ''@@session.gtid_seq_no'' (show_ulong (ge_seq_no g))"

definition gtid_note :: "text_env \<Rightarrow> gtid_event \<Rightarrow> int option \<Rightarrow> stmt list" where
  "gtid_note env g crc = [Note (Log_event_print_header env (ge_header g) crc @ CHR 0x09 # ''GTID '' @ show_ulong (ge_domain_id g) @ ''-''
          @ show_ulong (eh_server_id (ge_header g)) @ ''-'' @ show_ulong (ge_seq_no g)
          @ (if has_flag (ge_flags2 g) FL_GROUP_COMMIT_ID then '' cid='' @ show_ulong (ge_commit_id g) else [])
          @ (if has_flag (ge_flags2 g) FL_DDL then '' ddl'' else [])
          @ (if has_flag (ge_flags2 g) FL_TRANSACTIONAL then '' trans'' else [])
          @ (if has_flag (ge_flags2 g) FL_WAITED then '' waited'' else []))]"

definition versioned :: "bool \<Rightarrow> string \<Rightarrow> string \<Rightarrow> string \<Rightarrow> stmt list" where
  "versioned differs n v x = (if differs then [Versioned n v x] else [])"

lemma run_versioned [simp]: "run_stmts (versioned b n v x) c = (if b then upd c v x else c)"
  by (simp add: versioned_def)

definition after_gtid :: "gtid_event \<Rightarrow> print_settings \<Rightarrow> print_settings" where
  "after_gtid g s = s\<lparr>ps_allow_parallel := Some (has_flag (ge_flags2 g) FL_ALLOW_PARALLEL), ps_domain_id := Some (ge_domain_id g),
     ps_server_id := Some (eh_server_id (ge_header g))\<rparr>"

lemma says_gtid_line: "agree s c \<Longrightarrow> says env s c (print_gtid_line env g crc) (gtid_note env g crc) s"
  by (simp add: says_def print_gtid_line_def gtid_note_def header_comment number_lines)

lemma says_parallel:
  "agree s c \<Longrightarrow> p = has_flag (ge_flags2 g) FL_ALLOW_PARALLEL \<Longrightarrow> says env s c (print_parallel g)
     (versioned (ps_allow_parallel s \<noteq> Some p) ''100101'' ''@@session.skip_parallel_replication'' (parallel_text p))
     (s\<lparr>ps_allow_parallel := Some p\<rparr>)"
  by (cases s) (auto simp: says_def print_parallel_def versioned_def parallel_text_def holds_defs Let_def)

lemma says_domain:
  "agree s c \<Longrightarrow> says env s c (print_domain g)
     (versioned (ps_domain_id s \<noteq> Some (ge_domain_id g)) ''100001'' ''@@session.gtid_domain_id'' (show_ulong (ge_domain_id g)))
     (s\<lparr>ps_domain_id := Some (ge_domain_id g)\<rparr>)"
  by (cases s) (auto simp: says_def print_domain_def versioned_def holds_defs)

lemma says_server:
  "agree s c \<Longrightarrow> i = eh_server_id (ge_header g) \<Longrightarrow> says env s c (print_server g)
     (versioned (ps_server_id s \<noteq> Some i) ''100001'' ''@@session.server_id'' (show_ulong i)) (s\<lparr>ps_server_id := Some i\<rparr>)"
  by (cases s) (auto simp: says_def print_server_def versioned_def holds_defs Let_def)

lemma says_seq_no:
  "agree s c \<Longrightarrow> says env s c (print_seq_no g) [Versioned ''100001'' ''@@session.gtid_seq_no'' (show_ulong (ge_seq_no g))] s"
  by (simp add: says_def print_seq_no_def holds_defs)

lemma gtid_says:
  assumes a: "agree s c"
  shows "\<exists>ss. says env s c (print_seq [print_gtid_line env g crc, print_parallel g, print_domain g, print_server g, print_seq_no g])
      ss (after_gtid g s) \<and> gtid_holds g (run_stmts ss c)"
proof -
  have ag: "says env s c f ss s' \<Longrightarrow> agree s' (run_stmts ss c)" for s c f ss s' by (simp add: says_def)
  let ?p = "has_flag (ge_flags2 g) FL_ALLOW_PARALLEL" and ?i = "eh_server_id (ge_header g)"
  note u0 = says_gtid_line [OF a, of env g crc]
  note u1 = says_parallel [OF ag [OF u0] refl, where env = env and g = g]
  note u2 = says_domain [OF ag [OF u1], where env = env and g = g]
  note u3 = says_server [OF ag [OF u2] refl, where env = env and g = g]
  note u4 = says_seq_no [OF ag [OF u3], where env = env and g = g]
  note all = says_Cons [OF u0 says_Cons [OF u1 says_Cons [OF u2 says_Cons [OF u3 seq_one [OF u4]]]]]
  have e: "s\<lparr>ps_allow_parallel := Some ?p, ps_domain_id := Some (ge_domain_id g), ps_server_id := Some ?i\<rparr> = after_gtid g s"
    by (simp add: after_gtid_def)
  have "\<exists>ss. says env s c (print_seq [print_gtid_line env g crc, print_parallel g, print_domain g, print_server g, print_seq_no g])
      ss (after_gtid g s) \<and> var_is (run_stmts ss c) ''@@session.gtid_seq_no'' (show_ulong (ge_seq_no g))"
    by (rule exI, rule conjI, rule all [unfolded e]) simp
  then obtain ss where ss: "says env s c (print_seq [print_gtid_line env g crc, print_parallel g, print_domain g, print_server g,
      print_seq_no g]) ss (after_gtid g s)" "var_is (run_stmts ss c) ''@@session.gtid_seq_no'' (show_ulong (ge_seq_no g))"
    by blast
  have "agree (after_gtid g s) (run_stmts ss c)" by (rule ag [OF ss(1)])
  then have "gtid_holds g (run_stmts ss c)" using ss(2) by (simp add: gtid_holds_def agree_def after_gtid_def)
  then show ?thesis using ss(1) by blast
qed

section \<open>Events in a row\<close>

datatype text_event =
    Query_ev query_event "int option"
  | Gtid_ev gtid_event "int option"
  | Xid_ev event_header int "int option"
  | Format_ev event_header nat string int "int option"

fun print_text_event :: "text_env \<Rightarrow> text_event \<Rightarrow> print_step" where
  "print_text_event env (Query_ev q crc) = Query_print env q crc"
| "print_text_event env (Gtid_ev g crc) = Gtid_print env g crc"
| "print_text_event env (Xid_ev h xid crc) = Xid_print env h xid crc"
| "print_text_event env (Format_ev h bv sv created crc) = Start_log_print env h bv sv created crc"

text \<open>What should run: every query, the beginning and the end of the transactions; each under the last
  transaction id before it. The description that a server writes when it starts ends what was open.\<close>

fun logged_runs :: "gtid_event option \<Rightarrow> text_event list \<Rightarrow> (string \<times> query_event option \<times> gtid_event option) list" where
  "logged_runs g [] = []"
| "logged_runs g (Query_ev q crc # es) = (qe_query q, Some q, g) # logged_runs g es"
| "logged_runs g (Gtid_ev g' crc # es) =
     (if has_flag (ge_flags2 g') FL_STANDALONE then [] else [(''BEGIN'', None, Some g')]) @ logged_runs (Some g') es"
| "logged_runs g (Xid_ev h xid crc # es) = (''COMMIT'', None, g) # logged_runs g es"
| "logged_runs g (Format_ev h bv sv created crc # es) =
     (if created \<noteq> 0 \<and> \<not> has_flag (eh_flags h) LOG_EVENT_ARTIFICIAL_F then [(''ROLLBACK'', None, g)] else []) @ logged_runs g es"

definition run_right :: "string \<times> query_event option \<times> gtid_event option \<Rightarrow> string \<times> session \<Rightarrow> bool" where
  "run_right = (\<lambda>(t, qo, go) (t', c). t' = t \<and> (\<forall>q. qo = Some q \<longrightarrow> runs_as_logged q c) \<and> (\<forall>g. go = Some g \<longrightarrow> gtid_holds g c))"

fun text_event_ok :: "text_event \<Rightarrow> bool" where
  "text_event_ok (Query_ev q crc) = query_ok q"
| "text_event_ok (Gtid_ev g crc) = True"
| "text_event_ok (Xid_ev h xid crc) = True"
| "text_event_ok (Format_ev h bv sv created crc) = (NL \<notin> set sv)"

lemma trace_clear: "\<forall>x \<in> set ss. clear x \<Longrightarrow> trace_runs ss c = []"
proof (induction ss arbitrary: c)
  case (Cons x ss)
  then show ?case by (cases x) simp_all
qed simp

definition all_readable :: "stmt list \<Rightarrow> bool" where
  "all_readable ss \<longleftrightarrow> (\<forall>x \<in> set ss. readable x)"

lemma readable_append [simp]: "all_readable (xs @ ys) \<longleftrightarrow> all_readable xs \<and> all_readable ys"
  by (auto simp: all_readable_def)

lemma clear_readable: "\<forall>x \<in> set ss. clear x \<Longrightarrow> all_readable ss"
  by (simp add: all_readable_def readable_def)

lemma plain_begin: "plain_query ''BEGIN''"
  by (simp add: plain_query_def begins_def log_delimiter_def)

lemma readable_small [simp]:
  "all_readable []" "all_readable [Run q] \<longleftrightarrow> plain_query q" "all_readable [Short ''COMMIT'']" "all_readable [Short ''ROLLBACK'']"
  "all_readable [Note t] \<longleftrightarrow> comment_line t" "all_readable [Note t, Short ''COMMIT''] \<longleftrightarrow> comment_line t"
  by (simp_all add: all_readable_def readable_def)

lemma gtid_kept:
  "\<forall>v x. v \<notin> query_names \<longrightarrow> var_is c' v x = var_is c v x \<Longrightarrow> gtid_holds g c' = gtid_holds g c"
  by (simp add: gtid_holds_def query_names_def option_names_def)

lemma print_seq_snoc:
  "print_seq (fs @ [h]) s = and_then (print_seq fs s) (\<lambda>(t, s'). and_then (h s') (\<lambda>(t', s''). Inr (t @ t', s'')))"
  by (induction fs arbitrary: s) (simp_all add: and_then_assoc case_prod_unfold)

lemma start_line: "NL \<notin> set (show_dec n)" "NL \<notin> set (print_timestamp env t)"
  using number_lines(2) [of "int n"] by (simp_all add: show_ulong_def print_timestamp_def number_lines Let_def)

text \<open>One event.\<close>

lemma event_says:
  assumes a: "agree s c" and o1: "text_event_ok e" and ce: "client_env env" and g: "\<forall>g. go = Some g \<longrightarrow> gtid_holds g c"
  shows "\<exists>ss s'. print_text_event env e s = Inr (stmts_text env (ps_delimiter s) ss, s') \<and> ps_delimiter s' = ps_delimiter s
    \<and> agree s' (run_stmts ss c) \<and> all_readable ss \<and> list_all2 run_right (logged_runs go [e]) (trace_runs ss c)
    \<and> (\<forall>g. (case e of Gtid_ev g' _ \<Rightarrow> Some g' | _ \<Rightarrow> go) = Some g \<longrightarrow> gtid_holds g (run_stmts ss c))"
proof -
  have sf: "\<not> x_short_form env" using ce by (simp add: client_env_def)
  show ?thesis
  proof (cases e)
  case (Query_ev q crc)
  then have q: "query_ok q" using o1 by simp
  obtain ss where ss: "says env s c (print_query_header env q crc) ss (after_header q s)" "runs_as_logged q (run_stmts ss c)"
    "\<forall>v x. v \<notin> query_names \<longrightarrow> var_is (run_stmts ss c) v x = var_is c v x"
    using header_says [OF a q ce] by blast
  have gk: "\<forall>g. go = Some g \<longrightarrow> gtid_holds g (run_stmts ss c)" using g gtid_kept [OF ss(3)] by simp
  show ?thesis
  proof (intro exI conjI)
    show "print_text_event env e s = Inr (stmts_text env (ps_delimiter s) (ss @ [Run (qe_query q)]), after_header q s)"
      using ss(1) by (simp add: Query_ev Query_print_def says_def)
    show "list_all2 run_right (logged_runs go [e]) (trace_runs (ss @ [Run (qe_query q)]) c)"
      using ss(1,2) gk by (simp add: Query_ev trace_runs_append trace_clear says_def run_right_def)
  qed (use ss(1) gk clear_readable q in \<open>simp_all add: says_def Query_ev query_ok_def\<close>)
next
  case (Gtid_ev g' crc)
  obtain ss where ss: "says env s c (print_seq [print_gtid_line env g' crc, print_parallel g', print_domain g', print_server g',
      print_seq_no g']) ss (after_gtid g' s)" "gtid_holds g' (run_stmts ss c)"
    using gtid_says [OF a] by blast
  let ?b = "if has_flag (ge_flags2 g') FL_STANDALONE then [] else [Run ''BEGIN'']"
  show ?thesis
  proof (intro exI conjI)
    show "print_text_event env e s = Inr (stmts_text env (ps_delimiter s) (ss @ ?b), after_gtid g' s)"
      using ss(1) sf unfolding Gtid_ev print_text_event.simps Gtid_print_def print_seq_snoc says_def by (simp add: print_gtid_begin_def del: print_seq.simps)
    show "list_all2 run_right (logged_runs go [e]) (trace_runs (ss @ ?b) c)"
      using ss by (simp add: Gtid_ev trace_runs_append trace_clear says_def run_right_def)
  qed (use ss clear_readable plain_begin in \<open>simp_all add: says_def Gtid_ev\<close>)
next
  case (Xid_ev h xid crc)
  let ?ss = "[Note (Log_event_print_header env h crc @ CHR 0x09 # ''Xid = '' @ show_ulong xid), Short ''COMMIT'']"
  show ?thesis
  proof (intro exI conjI)
    show "print_text_event env e s = Inr (stmts_text env (ps_delimiter s) ?ss, s)" using sf by (simp add: Xid_ev Xid_print_def)
  qed (use a g in \<open>simp_all add: Xid_ev run_right_def header_comment number_lines\<close>)
next
  case (Format_ev h bv sv created crc)
  let ?l = "Log_event_print_header env h crc @ CHR 0x09 # ''Start: binlog v '' @ show_dec bv @ '', server v ''
    @ sv @ '' created '' @ print_timestamp env (eh_when h) @ (if created \<noteq> 0 then '' at startup'' else [])"
  let ?n = "if has_flag (eh_flags h) LOG_EVENT_BINLOG_IN_USE_F
    then [Note ''# Warning: this binlog is either in use or was not closed properly.''] else []"
  let ?r = "if \<not> has_flag (eh_flags h) LOG_EVENT_ARTIFICIAL_F \<and> created \<noteq> 0 then [Short ''ROLLBACK''] else []"
  let ?ss = "[Note ?l] @ ?n @ ?r"
  have l: "comment_line ?l" using o1 by (intro header_comment) (simp add: Format_ev start_line)
  have w: "comment_line ''# Warning: this binlog is either in use or was not closed properly.''" by (simp add: comment_line_def)
  show ?thesis
  proof (intro exI conjI)
    show "print_text_event env e s = Inr (stmts_text env (ps_delimiter s) ?ss, s)" using sf by (simp add: Format_ev Start_log_print_def)
    show "all_readable ?ss" unfolding readable_append using l w by (simp del: append.simps)
  qed (use a g in \<open>simp_all add: Format_ev run_right_def\<close>)
qed
qed

lemma logged_runs_Cons:
  "logged_runs go (e # es) = logged_runs go [e] @ logged_runs (case e of Gtid_ev g' _ \<Rightarrow> Some g' | _ \<Rightarrow> go) es"
  by (cases e) simp_all

lemma events_say:
  assumes "agree s c" and "\<forall>e \<in> set es. text_event_ok e" and "client_env env" and "\<forall>g. go = Some g \<longrightarrow> gtid_holds g c"
  shows "\<exists>ss s'. print_seq (map (print_text_event env) es) s = Inr (stmts_text env (ps_delimiter s) ss, s') \<and> agree s' (run_stmts ss c)
    \<and> all_readable ss \<and> list_all2 run_right (logged_runs go es) (trace_runs ss c)"
  using assms
proof (induction es arbitrary: s c go)
  case Nil
  then show ?case by (intro exI [of _ "[]"]) simp
next
  case (Cons e es)
  let ?go = "case e of Gtid_ev g' _ \<Rightarrow> Some g' | _ \<Rightarrow> go"
  obtain ss s1 where a: "print_text_event env e s = Inr (stmts_text env (ps_delimiter s) ss, s1)" "ps_delimiter s1 = ps_delimiter s"
    "agree s1 (run_stmts ss c)" "list_all2 run_right (logged_runs go [e]) (trace_runs ss c)" "all_readable ss"
    "\<forall>g. ?go = Some g \<longrightarrow> gtid_holds g (run_stmts ss c)"
    using event_says [OF Cons.prems(1) _ Cons.prems(3,4), of e] Cons.prems(2) by auto
  obtain ts s2 where b: "print_seq (map (print_text_event env) es) s1 = Inr (stmts_text env (ps_delimiter s1) ts, s2)"
    "agree s2 (run_stmts ts (run_stmts ss c))" "list_all2 run_right (logged_runs ?go es) (trace_runs ts (run_stmts ss c))"
    "all_readable ts" using Cons.IH [OF a(3) _ Cons.prems(3) a(6)] Cons.prems(2) by auto
  show ?case
  proof (intro exI conjI)
    show "print_seq (map (print_text_event env) (e # es)) s = Inr (stmts_text env (ps_delimiter s) (ss @ ts), s2)"
      using a(1,2) b(1) by simp
    show "list_all2 run_right (logged_runs go (e # es)) (trace_runs (ss @ ts) c)"
      unfolding logged_runs_Cons [of go e es] trace_runs_append by (rule list_all2_appendI [OF a(4) b(3)])
  qed (use a(5) b(2,4) in simp_all)
qed

section \<open>Properties\<close>

lemma events_run:
  assumes "\<forall>e \<in> set es. text_event_ok e" "client_env env"
  shows "\<exists>t s. print_seq (map (print_text_event env) es) dump_event_info = Inr (t, s)
    \<and> list_all2 run_right (logged_runs None es) (client_runs (log_text t) c)"
proof -
  have d: "ps_delimiter dump_event_info = log_delimiter" by (simp add: dump_event_info_def log_delimiter_def)
  obtain ss s where ss: "print_seq (map (print_text_event env) es) dump_event_info = Inr (stmts_text env log_delimiter ss, s)"
    "all_readable ss" "list_all2 run_right (logged_runs None es) (trace_runs ss c)"
    using events_say [OF agree_start assms, of None c] unfolding d by auto
  then show ?thesis using log_text_runs [OF assms(2), of ss c] unfolding all_readable_def by metis
qed

text \<open>C11: The text of queries, transaction ids, commits and descriptions can be replayed: a client that executes it,
  between the lines that change the delimiter and set it back, runs in whatever session exactly the statements that were
  logged, each within its transaction, under its transaction id and with the settings it was logged with: database,
  thread, the flags and variables of its status, the collations, and the time to the microsecond. A setting is
  only printed when it changes. Conditions: names of databases and zones and the queries do not hold what
  the client would take for a delimiter, a query is none of the statements that change these settings, and the
  microseconds are none or six digits (see \<open>fraction_misprinted\<close>). The marks of the capture, which are
  printed between the events, are not part of this text.\<close>

theorem session_replayed:
  assumes "\<forall>e \<in> set es. text_event_ok e" and "client_env env"
  shows "\<exists>t s. print_seq (map (print_text_event env) es) dump_event_info = Inr (t, s)
    \<and> list_all2 run_right (logged_runs None es) (client_runs (log_text t) c)"
  by (rule events_run [OF assms])

definition demo_text_env :: text_env where
  "demo_text_env = \<lparr> x_localtime = (\<lambda>_. \<lparr> tm_year = 123, tm_mon = 10, tm_mday = 14, tm_hour = 8, tm_min = 5, tm_sec = 9 \<rparr>),
     x_quote = quoted_name, x_csname = (\<lambda>_. Some ''utf8''), x_short_form = False \<rparr>"

lemma demo_client_env: "client_env demo_text_env"
  by (auto simp: client_env_def demo_text_env_def)

definition demo_gtid :: gtid_event where
  "demo_gtid = \<lparr> ge_header = qe_header demo_query, ge_seq_no = 3, ge_domain_id = 0, ge_flags2 = FL_TRANSACTIONAL, ge_commit_id = 0 \<rparr>"

definition demo_other_query :: query_event where
  "demo_other_query = demo_query\<lparr>qe_vars := (qe_vars demo_query)\<lparr>sv_flags2 := Some 67108864, sv_time_zone := ''UTC''\<rparr>,
     qe_query := ''DELETE FROM t''\<rparr>"

lemma demo_flags: "only_options 0" "only_options 67108864"
  by (simp_all add: only_options_def lessThan_nat_numeral lessThan_Suc)

lemma demo_queries_ok: "query_ok demo_query" "query_ok demo_other_query"
  using demo_flags
  by (simp_all add: query_ok_def demo_query_def demo_other_query_def no_status_def DB_SIZE_def TIME_ZONE_SIZE_def time_readable_def
      plain_query_def begins_def log_delimiter_def QUOTE_def)

theorem session_replayed_witness:
  "\<exists>t s. print_seq (map (print_text_event demo_text_env) [Format_ev (qe_header demo_query) 4 ''10.3.23-MariaDB'' 1700000000 None,
        Gtid_ev demo_gtid None, Query_ev demo_query None, Query_ev demo_other_query None, Xid_ev (qe_header demo_query) 7 None])
        dump_event_info = Inr (t, s)
    \<and> list_all2 run_right [(''ROLLBACK'', None, None), (''BEGIN'', None, Some demo_gtid),
        (''INSERT INTO t VALUES (1)'', Some demo_query, Some demo_gtid),
        (''DELETE FROM t'', Some demo_other_query, Some demo_gtid), (''COMMIT'', None, Some demo_gtid)]
      (client_runs (log_text t) \<lparr> s_db = None, s_vars = (\<lambda>_. None) \<rparr>)"
proof -
  let ?es = "[Format_ev (qe_header demo_query) 4 ''10.3.23-MariaDB'' 1700000000 None,
    Gtid_ev demo_gtid None, Query_ev demo_query None, Query_ev demo_other_query None, Xid_ev (qe_header demo_query) 7 None]"
  have q: "\<forall>e \<in> set ?es. text_event_ok e" using demo_queries_ok by simp
  have l: "logged_runs None ?es = [(''ROLLBACK'', None, None), (''BEGIN'', None, Some demo_gtid),
      (''INSERT INTO t VALUES (1)'', Some demo_query, Some demo_gtid),
      (''DELETE FROM t'', Some demo_other_query, Some demo_gtid), (''COMMIT'', None, Some demo_gtid)]"
    by (simp add: demo_gtid_def has_flag_def FL_TRANSACTIONAL_def FL_STANDALONE_def LOG_EVENT_ARTIFICIAL_F_def demo_query_def
        demo_other_query_def)
  show ?thesis using session_replayed [OF q demo_client_env, of "\<lparr> s_db = None, s_vars = (\<lambda>_. None) \<rparr>"] unfolding l .
qed

text \<open>The fraction of the time is printed without leading zeros: 5 microseconds are read as 500000.\<close>

lemma fraction_misprinted:
  "timestamp_text (demo_query\<lparr>qe_vars := no_status\<lparr>sv_sec_part := Some 5\<rparr>\<rparr>) = ''1700000000.5''"
  "micros_of ''1700000000.5'' = 1700000000 * 10 ^ 6 + 500000"
  by (simp_all add: timestamp_text_def demo_query_def TIME_MAX_SECOND_PART_def show_ulong_def show_dec.simps digit_chars
      micros_of_def fraction_of_def is_digit_def digit_val_def)

text \<open>Flags that differ in a bit without a variable are printed as a list without an assignment.\<close>

lemma empty_set_statement:
  assumes "sv_flags2 (qe_vars q) = Some f" "ps_flags2 s = Some g" "f \<noteq> g"
    and "\<forall>k \<in> {14, 15, 19, 26, 27}. odd (f div 2 ^ k) = odd (g div 2 ^ k)"
  shows "print_flags2 q s = Inr (''SET '' @ ps_delimiter s @ [NL], s\<lparr>ps_flags2 := Some f\<rparr>)"
  using assms by (simp add: print_flags2_def set_options_def bits_changed_def)

text \<open>The name of a time zone of 193 bytes or more, which an event may hold, is copied past the end of its array.\<close>

lemma long_zone_overflows:
  assumes "TIME_ZONE_SIZE \<le> length (sv_time_zone (qe_vars q))" "length (ps_time_zone s) = TIME_ZONE_SIZE"
  shows "print_time_zone q s = Inl (Out_of_bounds ''time_zone_str'')"
proof -
  let ?z = "sv_time_zone (qe_vars q)"
  have "?z \<noteq> []" using assms(1) by (auto simp: TIME_ZONE_SIZE_def)
  moreover have "length (take (length ?z + 1) (ps_time_zone s)) \<noteq> length (?z @ [NUL])" using assms by simp
  then have "take (length ?z + 1) (ps_time_zone s) \<noteq> ?z @ [NUL]" by metis
  ultimately show ?thesis using assms by (simp add: print_time_zone_def copy_to_def Let_def)
qed

text \<open>Numbers that are printed signed: an automatic value from 2 to the 63 on becomes negative.\<close>

lemma insert_id_negative: "llstr (2 ^ 64 - 1) = ''-1''"
  by (simp add: llstr_def signed_of_def show_int_def show_dec.simps digit_chars)

end
