(* ===== verification/Print_Parse.thy ===== *)
theory Print_Parse
  imports Event_Printer Listener
begin

text \<open>
  The two sides of the text protocol together: what \<open>process_event\<close> prints for the event that
  commits a transaction, read by the automaton of the listener, stores the position behind that
  event.
\<close>

section \<open>Lines that are no marks\<close>

definition quiet :: "string \<Rightarrow> bool" where
  "quiet l \<longleftrightarrow> take 2 l \<noteq> ''*!'' \<and> take 3 l \<noteq> ''###'' \<and> length l \<le> 512"

definition quiet_text :: "string \<Rightarrow> bool" where
  "quiet_text b \<longleftrightarrow> snd (split_lines [] b) = [] \<and> (\<forall>l \<in> set (fst (split_lines [] b)). quiet l)"

lemma split_lines_line: "NL \<notin> set l \<Longrightarrow> split_lines cur (l @ [NL]) = ([cur @ l], [])"
  by (induction l arbitrary: cur) auto

lemma split_lines_lines_nl: "\<forall>l \<in> set ls. NL \<notin> set l \<Longrightarrow> split_lines [] (lines_nl ls) = (ls, [])"
proof (induction ls)
  case (Cons l ls)
  then have l: "split_lines [] (l @ [NL]) = ([l], [])" by (simp add: split_lines_line)
  have "lines_nl (l # ls) = (l @ [NL]) @ lines_nl ls" by simp
  then show ?case using Cons l split_lines_append [of "[]" "l @ [NL]" "lines_nl ls"] by simp
qed simp

lemma quiet_text_lines: "quiet_text b \<Longrightarrow> b = lines_nl (fst (split_lines [] b))"
  using split_lines_text [of "[]" b] by (simp add: quiet_text_def)

lemma quiet_text_line: "NL \<notin> set l \<Longrightarrow> quiet l \<Longrightarrow> quiet_text (l @ [NL])"
  by (simp add: quiet_text_def split_lines_line)

lemma quiet_text_append: "quiet_text a \<Longrightarrow> quiet_text b \<Longrightarrow> quiet_text (a @ b)"
  by (auto simp: quiet_text_def split_lines_append)

lemma quiet_text_Nil [simp]: "quiet_text []"
  by (simp add: quiet_text_def)

lemma quiet_moves: "quiet l \<Longrightarrow> \<not> moves_checkpoint l"
proof -
  have n: "\<not> strneq l m k" if "take 2 m = ''*!''" "2 \<le> k" "take 2 l \<noteq> ''*!''" for m k
  proof
    assume "strneq l m k"
    then have "take 2 (take k l) = take 2 (take k m)" by (simp add: strneq_def)
    then show False using that by (simp add: min_def)
  qed
  then show "quiet l \<Longrightarrow> \<not> moves_checkpoint l" by (simp add: quiet_def moves_checkpoint_def)
qed

definition ready :: "cfg \<Rightarrow> string \<Rightarrow> lst \<Rightarrow> bool" where
  "ready c jrn s \<longleftrightarrow> names_fit s \<and> xai_written c = SEQ_LEN \<and> xai_open jrn (ck s)"

text \<open>A quiet line may save the checkpoint in progress, but leaves it and the statement as they are.\<close>

lemma quiet_line:
  assumes q: "quiet l" and x: "xai_written c = SEQ_LEN" "xai_open jrn (ck s)" "wf_seq (g_stBinLogSeqInProgess (ck s))"
  shows "\<exists>t. handle_line c l s = Inr t \<and> saves_only jrn (ck s) (ck t) \<and> l_szBinLogName t = l_szBinLogName s
    \<and> bStartOfStmt t = bStartOfStmt s"
proof -
  obtain t where t: "handle_line c l s = Inr t"
    using other_line [of l c s] q by (auto simp: quiet_def)
  have so: "saves_only jrn (ck s) (ck t)" by (rule handle_line_saves_only [OF t quiet_moves [OF q] x])
  obtain s1 s2 where n: "note_line c l s = Inr s1" and d: "dispatch c l (end_of_columns c l s1) = Inr s2"
    and t2: "t = s2\<lparr>ulCountLine := ulCountLine s2 + 1\<rparr>"
    using t by (auto simp: handle_line_def elim!: and_then_eq_InrE)
  have "s2 = end_of_columns c l s1"
  proof -
    have m: "\<not> strneq l m k" if "take 2 m = ''*!''" "2 \<le> k" for m k
    proof
      assume "strneq l m k"
      then have "take 2 (take k l) = take 2 (take k m)" by (simp add: strneq_def)
      then show False using that q by (simp add: min_def quiet_def)
    qed
    have "\<not> strneq l ''###'' 3" using q by (simp add: strneq_def quiet_def)
    then show ?thesis using d m by (simp add: dispatch_def)
  qed
  then have "l_szBinLogName t = l_szBinLogName s" "bStartOfStmt t = bStartOfStmt s" using t2 note_line_frame [OF n] by simp_all
  then show ?thesis using t so by blast
qed

lemma quiet_lines:
  "\<forall>l \<in> set ls. quiet l \<Longrightarrow> xai_written c = SEQ_LEN \<Longrightarrow> xai_open jrn (ck s) \<Longrightarrow> wf_seq (g_stBinLogSeqInProgess (ck s)) \<Longrightarrow>
     \<exists>t. fold_res (handle_line c) ls s = Inr t \<and> saves_only jrn (ck s) (ck t) \<and> l_szBinLogName t = l_szBinLogName s
       \<and> bStartOfStmt t = bStartOfStmt s"
proof (induction ls arbitrary: s)
  case Nil
  then show ?case using saves_only_refl by simp
next
  case (Cons l ls)
  obtain u where u: "handle_line c l s = Inr u" "saves_only jrn (ck s) (ck u)" "l_szBinLogName u = l_szBinLogName s"
    "bStartOfStmt u = bStartOfStmt s"
    using quiet_line [of l c jrn s] Cons.prems by auto
  then have "xai_open jrn (ck u)" "wf_seq (g_stBinLogSeqInProgess (ck u))" using Cons.prems(4) by (simp_all add: saves_only_def)
  then obtain t where "fold_res (handle_line c) ls u = Inr t" "saves_only jrn (ck u) (ck t)" "l_szBinLogName t = l_szBinLogName u"
    "bStartOfStmt t = bStartOfStmt u"
    using Cons.IH [of u] Cons.prems(1,2) by auto
  then show ?case using u saves_only_trans [OF u(2)] by auto
qed

section \<open>The text printed for an event that commits\<close>

text \<open>The library prints a commit as complete lines that are no marks, at once or held back to the end of the event.\<close>

definition prints_quietly :: "evlib \<Rightarrow> Log_event \<Rightarrow> bool" where
  "prints_quietly lib ev \<longleftrightarrow> (\<forall>p. \<not> fst (ev_print lib ev p) \<and> quiet_text (fst (snd (ev_print lib ev p)))
     \<and> quiet_text (fst (snd (snd (ev_print lib ev p)))))"

definition in_range :: "opts \<Rightarrow> u64 \<Rightarrow> Log_event \<Rightarrow> ps \<Rightarrow> bool" where
  "in_range o1 pos ev st \<longleftrightarrow> offset st \<le> rec_count st \<and> start_datetime st \<le> ev_when ev
     \<and> (server_id o1 = 0 \<or> server_id o1 = ev_server_id ev)
     \<and> ev_when ev < stop_datetime o1 \<and> pos < stop_position o1"

lemma quiet_position: "unat pos < 2 ^ 63 \<Longrightarrow> quiet (''# at '' @ show_lld pos) \<and> NL \<notin> set (show_lld pos)"
  using length_show_lld [of pos] by (simp add: quiet_def show_lld_small)

lemma quiet_skip_replication:
  "NL \<notin> set d \<Longrightarrow> length d \<le> 400 \<Longrightarrow>
     quiet (''/*!50521 SET skip_replication='' @ (if b then ''1'' else ''0'') @ ''*/'' @ d)
     \<and> NL \<notin> set (''/*!50521 SET skip_replication='' @ (if b then ''1'' else ''0'') @ ''*/'' @ d)"
  by (simp add: quiet_def)

text \<open>The state of the printer grows by text that the listener reads over.\<close>

definition grows_quietly :: "ps \<Rightarrow> ps \<Rightarrow> bool" where
  "grows_quietly st st' \<longleftrightarrow> output_buf st' = output_buf st \<and> delimiter (pinfo st') = delimiter (pinfo st)
     \<and> (\<exists>b. quiet_text b \<and> result_file st' = result_file st @ b)"

lemma grows_announce:
  "unat pos < 2 ^ 63 \<Longrightarrow> grows_quietly st (announce o1 pos st)"
  using quiet_position [of pos] quiet_text_line [of "''# at '' @ show_lld pos"]
  by (auto simp: grows_quietly_def announce_def intro!: exI [of _ "[]"] exI [of _ "''# at '' @ show_lld pos @ [NL]"])

lemma grows_skip_replication:
  "NL \<notin> set (delimiter (pinfo st)) \<Longrightarrow> length (delimiter (pinfo st)) \<le> 400 \<Longrightarrow>
     grows_quietly st (print_skip_replication_statement ev st)"
  using quiet_skip_replication [of "delimiter (pinfo st)" "ev_skip_replication ev"]
    quiet_text_line [of "''/*!50521 SET skip_replication='' @ (if ev_skip_replication ev then ''1'' else ''0'') @ ''*/''
                         @ delimiter (pinfo st)"]
  by (fastforce simp: grows_quietly_def print_skip_replication_statement_def Let_def)

lemma grows_print:
  "prints_quietly lib ev \<Longrightarrow>
     \<not> fst (printed_to (ev_print lib ev (pinfo st)) st)
     \<and> (\<exists>h. quiet_text h \<and> output_buf (snd (printed_to (ev_print lib ev (pinfo st)) st)) = output_buf st @ h)
     \<and> (\<exists>b. quiet_text b \<and> result_file (snd (printed_to (ev_print lib ev (pinfo st)) st)) = result_file st @ b)"
  by (auto simp: prints_quietly_def printed_to_def split_beta)

lemma commit_printed:
  assumes "ev_type ev = XID_EVENT" and "in_range o1 pos ev st" and "prints_quietly lib ev" and "unat pos < 2 ^ 63"
    and "NL \<notin> set (delimiter (pinfo st))" and "length (delimiter (pinfo st)) \<le> 400" and fb: "\<not> opt_flashback o1"
  shows "\<exists>b h. quiet_text b \<and> quiet_text h \<and> fst (process_event lib o1 pos ev st) = OK_CONTINUE
     \<and> result_file (snd (process_event lib o1 pos ev st))
       = result_file st @ b @ commit_mark pos (ev_log_pos ev) (ev_xid ev) (opts.l_ulIndex o1) @ NL # h"
proof -
  let ?s0 = "st\<lparr>output_buf := [], start_datetime := 0, offset := 0\<rparr>"
  let ?s1 = "announce o1 pos ?s0"
  let ?s2 = "print_skip_replication_statement ev ?s1"
  let ?r = "printed_to (ev_print lib ev (pinfo ?s2)) ?s2"
  have w: "wanted ev (st\<lparr>output_buf := []\<rparr>)" using assms(2) by (simp add: wanted_def in_range_def)
  have a: "grows_quietly ?s0 ?s1" by (rule grows_announce [OF assms(4)])
  have b: "grows_quietly ?s1 ?s2"
    using a assms(5,6) by (intro grows_skip_replication) (simp_all add: grows_quietly_def)
  note g = grows_print [OF assms(3), of ?s2]
  have p: "process_event lib o1 pos ev st
      = finish_event o1 ev (To_end OK_CONTINUE True, put (commit_mark pos (ev_log_pos ev) (ev_xid ev) (opts.l_ulIndex o1) @ [NL]) (snd ?r))"
    using assms(1,2) w g
    by (auto simp: process_event_def in_range_def event_case_def is_rows_event_def is_old_rows_event_def on_other_event_def
        Let_def split_beta)
  have "output_buf ?s2 = []" using a b by (simp add: grows_quietly_def)
  then obtain h where h: "quiet_text h" "output_buf (snd ?r) = h" using g by auto
  obtain b1 b2 b3 where t: "quiet_text b1" "quiet_text b2" "quiet_text b3" "result_file ?s1 = result_file st @ b1"
    "result_file ?s2 = result_file ?s1 @ b2" "result_file (snd ?r) = result_file ?s2 @ b3"
    using a b g by (auto simp: grows_quietly_def)
  then show ?thesis using h fb
    by (intro exI [of _ "b1 @ b2 @ b3"] exI [of _ h]) (simp add: p finish_event_def hold_output_def put_def Let_def quiet_text_append)
qed

lemma commit_mark_line: "unat p < 2 ^ 63 \<Longrightarrow> unat e < 2 ^ 63 \<Longrightarrow> NL \<notin> set (commit_mark p e x i)"
  by (simp add: commit_mark_def show_lld_small show_lu_def)

lemma commit_mark_short: "unat p < 2 ^ 63 \<Longrightarrow> unat e < 2 ^ 63 \<Longrightarrow> length (commit_mark p e x i) \<le> 512"
  using length_commit_mark [of p e x i] by simp

lemma commit_event_read:
  assumes "ev_type ev = XID_EVENT" and "in_range o1 pos ev st" and "prints_quietly lib ev"
    and "unat pos < 2 ^ 63" and "unat (ev_log_pos ev) < 2 ^ 63"
    and "NL \<notin> set (delimiter (pinfo st))" and "length (delimiter (pinfo st)) \<le> 400" and "\<not> opt_flashback o1"
    and "ready c jrn s"
  shows "\<exists>ls t q. result_file (snd (process_event lib o1 pos ev st)) = result_file st @ lines_nl ls
     \<and> fst (process_event lib o1 pos ev st) = OK_CONTINUE
     \<and> split_lines [] (lines_nl ls) = (ls, [])
     \<and> fold_res (handle_line c) ls s = Inr t
     \<and> restart_seq jrn (ck t) = Some q \<and> seq_name q = l_szBinLogName s
     \<and> ulPosition q = read_pos (ev_log_pos ev) \<and> ulIndex q = 0 \<and> \<not> bStartOfStmt t
     \<and> (\<forall>l \<in> set ls. length l \<le> 512)"
proof -
  let ?m = "commit_mark pos (ev_log_pos ev) (ev_xid ev) (opts.l_ulIndex o1)"
  obtain b h where b: "quiet_text b" "quiet_text h" "fst (process_event lib o1 pos ev st) = OK_CONTINUE"
    "result_file (snd (process_event lib o1 pos ev st)) = result_file st @ b @ ?m @ NL # h"
    using commit_printed [OF assms(1-4,6-8)] by blast
  let ?bs = "fst (split_lines [] b)" and ?hs = "fst (split_lines [] h)"
  note r = assms(9) [unfolded ready_def names_fit_def]
  obtain u where u: "fold_res (handle_line c) ?bs s = Inr u" "saves_only jrn (ck s) (ck u)" "l_szBinLogName u = l_szBinLogName s"
    using quiet_lines [of ?bs c jrn s] b(1) r by (auto simp: quiet_text_def)
  have ux: "names_fit u" "xai_open jrn (ck u)" using u r by (simp_all add: saves_only_def names_fit_def)
  obtain t where t: "handle_line c ?m u = Inr t" "\<not> bStartOfStmt t" "xai_open jrn (ck t)"
    "restart_seq jrn (ck t) = Some (g_stBinLogSeqInProgess (ck t))"
    "seq_name (g_stBinLogSeqInProgess (ck t)) = l_szBinLogName u"
    "ulPosition (g_stBinLogSeqInProgess (ck t)) = read_pos (ev_log_pos ev)"
    "ulIndex (g_stBinLogSeqInProgess (ck t)) = 0" "wf_seq (g_stBinLogSeqInProgess (ck t))"
    using commit_line [of pos "ev_log_pos ev" u "[]" c jrn "ev_xid ev" "opts.l_ulIndex o1"] assms(4,5) ux r by auto
  obtain v where v: "fold_res (handle_line c) ?hs t = Inr v" "saves_only jrn (ck t) (ck v)" "bStartOfStmt v = bStartOfStmt t"
    using quiet_lines [of ?hs c jrn t] b(2) r t(3,8) by (auto simp: quiet_text_def)
  let ?ls = "?bs @ ?m # ?hs"
  have "\<forall>l \<in> set ?ls. NL \<notin> set l"
    using split_lines_NL_free [of "[]" b] split_lines_NL_free [of "[]" h] commit_mark_line [OF assms(4,5)] by auto
  then have s: "split_lines [] (lines_nl ?ls) = (?ls, [])" by (rule split_lines_lines_nl)
  have e: "result_file (snd (process_event lib o1 pos ev st)) = result_file st @ lines_nl ?ls"
    using b(4) quiet_text_lines [OF b(1)] quiet_text_lines [OF b(2)] by (simp add: lines_nl_def)
  have f: "fold_res (handle_line c) ?ls s = Inr v" using u(1) t(1) v(1) by (simp add: fold_res_append)
  have q: "restart_seq jrn (ck v) = Some (g_stBinLogSeqInProgess (ck t))" using v(2) t(4) by (auto simp: saves_only_def)
  show ?thesis
  proof (intro exI conjI)
    show "result_file (snd (process_event lib o1 pos ev st)) = result_file st @ lines_nl ?ls" by (rule e)
    show "fold_res (handle_line c) ?ls s = Inr v" by (rule f)
    show "restart_seq jrn (ck v) = Some (g_stBinLogSeqInProgess (ck t))" by (rule q)
    show "\<forall>l \<in> set ?ls. length l \<le> 512" using b(1,2) commit_mark_short [OF assms(4,5)] by (auto simp: quiet_text_def quiet_def)
  qed (use b(3) s t u(3) v(3) in simp_all)
qed

section \<open>Properties\<close>

text \<open>C5: from the event to the checkpoint: when the library meets the event that commits a
  transaction, in the range asked for, what it prints is a sequence of complete lines after which the
  listener, from any state in which it can hold a checkpoint, has stored the position behind the
  event, in the log it is in, as the point where a restart resumes; the text of the event itself
  follows the mark and changes nothing.\<close>

theorem commit_event_checkpointed:
  assumes "ev_type ev = XID_EVENT" and "in_range o1 pos ev st" and "prints_quietly lib ev"
    and "unat pos < 2 ^ 63" and "unat (ev_log_pos ev) < 2 ^ 63"
    and "NL \<notin> set (delimiter (pinfo st))" and "length (delimiter (pinfo st)) \<le> 400" and "\<not> opt_flashback o1"
    and "ready c jrn s"
  shows "\<exists>ls t q. result_file (snd (process_event lib o1 pos ev st)) = result_file st @ lines_nl ls
     \<and> fst (process_event lib o1 pos ev st) = OK_CONTINUE
     \<and> split_lines [] (lines_nl ls) = (ls, [])
     \<and> fold_res (handle_line c) ls s = Inr t
     \<and> restart_seq jrn (ck t) = Some q \<and> seq_name q = l_szBinLogName s
     \<and> ulPosition q = read_pos (ev_log_pos ev) \<and> ulIndex q = 0 \<and> \<not> bStartOfStmt t"
  using commit_event_read [OF assms] by blast

definition quiet_lib :: evlib where
  "quiet_lib = demo_lib\<lparr>ev_print := (\<lambda>e p. (False, [], ''COMMIT/*!*/;'' @ [NL], p))\<rparr>"

theorem commit_event_checkpointed_witness:
  "\<exists>ls t q. result_file (snd (process_event quiet_lib demo_opts 40 (demo_event XID_EVENT 30 []) demo_ps)) = lines_nl ls
     \<and> fold_res (handle_line demo_cfg) ls demo_lst = Inr t \<and> restart_seq ''j'' (ck t) = Some q
     \<and> seq_name q = ''bin.000001'' \<and> ulPosition q = 100"
proof -
  let ?e = "demo_event XID_EVENT 30 []"
  have "quiet_text (''COMMIT/*!*/;'' @ [NL])"
    by (rule quiet_text_line) (simp_all add: quiet_def)
  then have "prints_quietly quiet_lib ?e" by (simp add: prints_quietly_def quiet_lib_def)
  moreover have "ev_type ?e = XID_EVENT" "in_range demo_opts 40 ?e demo_ps" "ev_log_pos ?e = 100"
    by (simp_all add: demo_event_def in_range_def demo_opts_def demo_ps_def)
  moreover have "NL \<notin> set (delimiter (pinfo demo_ps))" "length (delimiter (pinfo demo_ps)) \<le> 400" "result_file demo_ps = []"
    "\<not> opt_flashback demo_opts"
    by (simp_all add: demo_ps_def demo_pinfo_def demo_opts_def)
  moreover have "ready demo_cfg ''j'' demo_lst" using demo_lst_ok by (simp add: ready_def)
  ultimately show ?thesis
    using commit_event_checkpointed [of ?e demo_opts 40 demo_ps quiet_lib demo_cfg "''j''" demo_lst] demo_lst_ok(5)
    by (auto simp: read_pos_def long_max_def)
qed

end
