(* ===== verification/Row_Capture.thy ===== *)
theory Row_Capture
  imports Row_Log Session_Replay Print_Parse
begin

text \<open>
  The rows of a statement from the log to the listener: the lines that the library prints for a table
  map and the rows events of a statement, read by the automaton of the listener. It counts every row
  once, notes the table, and moves no checkpoint; the lines of the values pass it by.
\<close>

section \<open>What a line keeps\<close>

text \<open>The listener stays ready inside a statement, and keeps its count of rows and the table.\<close>

definition rows_counted :: "lst \<Rightarrow> u32" where
  "rows_counted s = rc_ulCountAllRow (g_RowCount s)"

definition goes_on :: "cfg \<Rightarrow> string \<Rightarrow> lst \<Rightarrow> lst \<Rightarrow> bool" where
  "goes_on c jrn s t \<longleftrightarrow> ready c jrn t \<and> bStartOfStmt t \<and> saves_only jrn (ck s) (ck t)"

definition same_rows :: "lst \<Rightarrow> lst \<Rightarrow> bool" where
  "same_rows s t \<longleftrightarrow> rows_counted t = rows_counted s \<and> szTableName t = szTableName s \<and> szSchemaName t = szSchemaName s"

lemma goes_on_refl: "ready c jrn s \<Longrightarrow> bStartOfStmt s \<Longrightarrow> goes_on c jrn s s"
  by (simp add: goes_on_def ready_def saves_only_refl)

lemma goes_on_trans: "goes_on c jrn s t \<Longrightarrow> goes_on c jrn t u \<Longrightarrow> goes_on c jrn s u"
  using saves_only_trans by (auto simp: goes_on_def)

lemma ready_kept:
  "ready c jrn s \<Longrightarrow> saves_only jrn (ck s) (ck t) \<Longrightarrow> l_szBinLogName t = l_szBinLogName s \<Longrightarrow> ready c jrn t"
  by (simp add: ready_def names_fit_def saves_only_def)

text \<open>The copy of the line is made without fault unless it has 513 to 1023 characters.\<close>

definition line_fits :: "string \<Rightarrow> bool" where
  "line_fits l \<longleftrightarrow> length l \<le> 512 \<or> 1024 \<le> length l"

lemma note_line_rows: "line_fits l \<Longrightarrow> \<exists>s1. note_line c l s = Inr s1 \<and> same_rows s s1"
  by (auto simp: note_line_def Let_def same_rows_def rows_counted_def line_fits_def)

lemma end_of_columns_rows [simp]: "same_rows s (end_of_columns c l t) = same_rows s t"
  by (simp add: end_of_columns_def save_def same_rows_def rows_counted_def)

text \<open>A line that is handled by \<open>dispatch\<close> with the checkpoint in place.\<close>

lemma handle_line_goes_on:
  assumes l: "line_fits l" "\<not> moves_checkpoint l" and r: "ready c jrn s" and b: "bStartOfStmt s"
    and d: "\<And>u. bStartOfStmt u \<Longrightarrow> same_rows s u \<Longrightarrow> l_szBinLogName u = l_szBinLogName s \<Longrightarrow>
      \<exists>t. dispatch c l u = Inr t \<and> P t \<and> bStartOfStmt t \<and> l_szBinLogName t = l_szBinLogName u"
    and p: "\<And>t n. P t \<Longrightarrow> P (t\<lparr>ulCountLine := n\<rparr>)"
  shows "\<exists>t. handle_line c l s = Inr t \<and> P t \<and> goes_on c jrn s t"
proof -
  obtain s1 where n: "note_line c l s = Inr s1" "same_rows s s1" using note_line_rows [OF l(1)] by blast
  let ?u = "end_of_columns c l s1"
  have u: "bStartOfStmt ?u" "same_rows s ?u" "l_szBinLogName ?u = l_szBinLogName s"
    using note_line_frame [OF n(1)] n(2) b by simp_all
  obtain t where t: "dispatch c l ?u = Inr t" "P t" "bStartOfStmt t" "l_szBinLogName t = l_szBinLogName ?u"
    using d [OF u] by blast
  let ?t = "t\<lparr>ulCountLine := ulCountLine t + 1\<rparr>"
  have h: "handle_line c l s = Inr ?t" using n(1) t(1) by (simp add: handle_line_def)
  have so: "saves_only jrn (ck s) (ck ?t)"
    using handle_line_saves_only [OF h l(2)] r by (simp add: ready_def names_fit_def)
  have "ready c jrn ?t" by (rule ready_kept [OF r so]) (use t(4) u(3) in simp)
  then show ?thesis using h so t(3) p [OF t(2)] by (auto simp: goes_on_def)
qed

lemma same_rows_line [simp]: "same_rows s (t\<lparr>ulCountLine := n\<rparr>) = same_rows s t"
  by (simp add: same_rows_def rows_counted_def)

section \<open>The lines of a row\<close>

definition body_line :: "string \<Rightarrow> bool" where
  "body_line l \<longleftrightarrow> l = ''### SET'' \<or> l = ''### WHERE'' \<or> (\<exists>i s. l = column_head i @ s \<and> i < 4096 \<and> plain s)"

lemma strneq_hash: "strneq l m k \<Longrightarrow> 3 \<le> k \<Longrightarrow> take 3 m = ''###'' \<Longrightarrow> strneq l ''###'' 3"
proof -
  assume a: "strneq l m k" "3 \<le> k" "take 3 m = ''###''"
  then have "take 3 (take k l) = take 3 (take k m)" by (simp add: strneq_def)
  then show ?thesis using a by (simp add: strneq_def min_def)
qed

lemma hash_no_mark: "strneq l ''###'' 3 \<Longrightarrow> take 2 m = ''*!'' \<Longrightarrow> 2 \<le> k \<Longrightarrow> \<not> strneq l m k"
proof
  assume a: "strneq l ''###'' 3" "take 2 m = ''*!''" "2 \<le> k" "strneq l m k"
  have "take 2 (take 3 l) = take 2 (take 3 ''###'')" "take 2 (take k l) = take 2 (take k m)"
    using a(1,4) by (simp_all add: strneq_def)
  then show False using a(2,3) by (simp add: min_def)
qed

lemma hash_moves_nothing: "strneq l ''###'' 3 \<Longrightarrow> \<not> moves_checkpoint l"
  by (simp add: moves_checkpoint_def hash_no_mark)

lemma column_line_read:
  assumes "i < 4096"
  shows "\<exists>t. on_column (column_head i @ s) u = Inr t \<and> same_rows u t \<and> bStartOfStmt t = bStartOfStmt u
    \<and> l_szBinLogName t = l_szBinLogName u"
proof -
  have d: "drop 7 (column_head i @ s) = show_dec (i + 1) @ CHR ''='' # s" by (simp add: column_head_def)
  have len: "length (show_dec (i + 1)) \<le> 10" using assms by (intro length_show_dec) simp_all
  have "strchr (show_dec (i + 1) @ CHR ''='' # s) (CHR ''='') = Some (length (show_dec (i + 1)))"
    using show_dec_not_mem by (subst strchr_append) auto
  then show ?thesis using len unfolding on_column_def Let_def d by (simp add: ddatol_def same_rows_def rows_counted_def)
qed

lemma body_line_goes_on:
  assumes l: "body_line l" "line_fits l" and r: "ready c jrn s" and b: "bStartOfStmt s"
  shows "\<exists>t. handle_line c l s = Inr t \<and> same_rows s t \<and> goes_on c jrn s t"
proof -
  have h: "strneq l ''###'' 3" using l(1) by (auto simp: body_line_def column_head_def strneq_def)
  show ?thesis
  proof (rule handle_line_goes_on [OF l(2) hash_moves_nothing [OF h] r b])
    fix u assume u: "bStartOfStmt u" "same_rows s u" "l_szBinLogName u = l_szBinLogName s"
    have d: "dispatch c l u = on_row_line c l u" using u(1) h by (simp add: dispatch_def)
    consider "l = ''### SET''" | "l = ''### WHERE''" | i v where "l = column_head i @ v" "i < 4096"
      using l(1) by (auto simp: body_line_def)
    then show "\<exists>t. dispatch c l u = Inr t \<and> same_rows s t \<and> bStartOfStmt t \<and> l_szBinLogName t = l_szBinLogName u"
      unfolding d
    proof cases
      case 3
      then obtain t where "on_column l u = Inr t" "same_rows u t" "bStartOfStmt t = bStartOfStmt u"
        "l_szBinLogName t = l_szBinLogName u" using column_line_read by blast
      moreover have "strneq l ''###   @'' 7" "\<not> strneq l ''### WHERE'' 9" "\<not> strneq l ''### SET'' 7"
        "\<not> strneq l ''### INSERT'' 10" "\<not> strneq l ''### UPDATE'' 10" "\<not> strneq l ''### DELETE'' 10"
        by (simp_all add: 3(1) column_head_def strneq_def)
      ultimately show "\<exists>t. on_row_line c l u = Inr t \<and> same_rows s t \<and> bStartOfStmt t \<and> l_szBinLogName t = l_szBinLogName u"
        using u by (auto simp: on_row_line_def same_rows_def)
    qed (use u in \<open>simp_all add: on_row_line_def strneq_def same_rows_def rows_counted_def\<close>)
  qed simp
qed

text \<open>The first line of a row counts it and tells the table. The names are split at the first point.\<close>

lemma into_names:
  "CHR ''.'' \<notin> set db \<Longrightarrow> length db < 500 \<Longrightarrow> length tbl < 500 \<Longrightarrow> n \<le> length l \<Longrightarrow> drop n l = db @ CHR ''.'' # tbl \<Longrightarrow>
     on_query_found c l n s = Inr (row_operation c l tbl db
       (s\<lparr>g_RowCount := (g_RowCount s)\<lparr>rc_ulCountAllRow := rc_ulCountAllRow (g_RowCount s) + 1\<rparr>,
          bQueryInProgress := False, bDataColumnInProgress := False\<rparr>))"
  by (simp add: on_query_found_def Let_def into_buffer_def)

lemma row_operation_rows [simp]:
  "rows_counted (row_operation c l tb sc s) = rows_counted s" "szTableName (row_operation c l tb sc s) = tb"
  "szSchemaName (row_operation c l tb sc s) = sc"
  by (simp_all add: row_operation_def Let_def rows_counted_def trace_event_def count_row_def)

definition table_names_ok :: "(string \<Rightarrow> string) \<Rightarrow> table_map \<Rightarrow> bool" where
  "table_names_ok q tm \<longleftrightarrow> CHR ''.'' \<notin> set (q (tm_dbnam tm)) \<and> NL \<notin> set (q (tm_dbnam tm)) \<and> NL \<notin> set (q (tm_tblnam tm))
     \<and> length (q (tm_dbnam tm)) + length (q (tm_tblnam tm)) < 490"

definition one_more :: "(string \<Rightarrow> string) \<Rightarrow> table_map \<Rightarrow> u32 \<Rightarrow> lst \<Rightarrow> bool" where
  "one_more q tm n t \<longleftrightarrow> rows_counted t = n + 1 \<and> szTableName t = q (tm_tblnam tm) \<and> szSchemaName t = q (tm_dbnam tm)"

lemma head_line_goes_on:
  assumes n: "table_names_ok q tm" and r: "ready c jrn s" and b: "bStartOfStmt s"
  shows "\<exists>t. handle_line c (row_head q tm k) s = Inr t \<and> one_more q tm (rows_counted s) t \<and> goes_on c jrn s t"
proof -
  let ?l = "row_head q tm k"
  have h: "strneq ?l ''###'' 3" by (simp add: row_head_def strneq_def)
  have len: "line_fits ?l" using n by (cases k) (simp_all add: line_fits_def row_head_def table_text_def table_names_ok_def)
  note ok = n [unfolded table_names_ok_def]
  show ?thesis
  proof (rule handle_line_goes_on [OF len hash_moves_nothing [OF h] r b])
    fix u assume u: "bStartOfStmt u" "same_rows s u" "l_szBinLogName u = l_szBinLogName s"
    have d: "dispatch c ?l u = on_row_line c ?l u" using u(1) h by (simp add: dispatch_def)
    have drops: "drop (if k = Update_rows then 11 else 16) ?l = q (tm_dbnam tm) @ CHR ''.'' # q (tm_tblnam tm)"
      "(if k = Update_rows then 11 else 16) \<le> length ?l"
      by (cases k; simp add: row_head_def table_text_def)+
    note q = into_names [OF _ _ _ drops(2,1), of c]
    have kinds: "\<not> strneq ?l ''###   @'' 7" "\<not> strneq ?l ''### WHERE'' 9" "\<not> strneq ?l ''### SET'' 7"
      "strneq ?l ''### INSERT'' 10 \<longleftrightarrow> k = Write_rows" "strneq ?l ''### UPDATE'' 10 \<longleftrightarrow> k = Update_rows"
      "strneq ?l ''### DELETE'' 10 \<longleftrightarrow> k = Delete_rows"
      by (cases k; simp add: row_head_def strneq_def)+
    show "\<exists>t. dispatch c ?l u = Inr t \<and> one_more q tm (rows_counted s) t \<and> bStartOfStmt t \<and> l_szBinLogName t = l_szBinLogName u"
      unfolding d on_row_line_def one_more_def
      using kinds q ok u by (cases k; simp add: same_rows_def) (simp_all add: rows_counted_def)
  qed (simp add: one_more_def rows_counted_def)
qed

lemma quiet_dispatch: "quiet l \<Longrightarrow> dispatch c l u = Inr u"
proof -
  assume q: "quiet l"
  have m: "\<not> strneq l m k" if "take 2 m = ''*!''" "2 \<le> k" for m k
  proof
    assume "strneq l m k"
    then have "take 2 (take k l) = take 2 (take k m)" by (simp add: strneq_def)
    then show False using that q by (simp add: min_def quiet_def)
  qed
  have "\<not> strneq l ''###'' 3" using q by (simp add: strneq_def quiet_def)
  then show ?thesis using m by (simp add: dispatch_def)
qed

lemma quiet_goes_on:
  assumes q: "quiet l" and r: "ready c jrn s" and b: "bStartOfStmt s"
  shows "\<exists>t. handle_line c l s = Inr t \<and> same_rows s t \<and> goes_on c jrn s t"
proof (rule handle_line_goes_on [OF _ quiet_moves [OF q] r b])
  show "line_fits l" using q by (simp add: quiet_def line_fits_def)
qed (simp_all add: quiet_dispatch [OF q])

lemma same_rows_trans: "same_rows s t \<Longrightarrow> same_rows t u \<Longrightarrow> same_rows s u"
  by (simp add: same_rows_def)

text \<open>Lines that are quiet or belong to the body of a row.\<close>

lemma lines_go_on:
  assumes "\<forall>l \<in> set ls. quiet l \<or> body_line l \<and> line_fits l" and "ready c jrn s" and "bStartOfStmt s"
  shows "\<exists>t. fold_res (handle_line c) ls s = Inr t \<and> same_rows s t \<and> goes_on c jrn s t"
  using assms
proof (induction ls arbitrary: s)
  case Nil
  then show ?case by (simp add: same_rows_def goes_on_refl)
next
  case (Cons l ls)
  obtain u where u: "handle_line c l s = Inr u" "same_rows s u" "goes_on c jrn s u"
    using Cons.prems quiet_goes_on body_line_goes_on by (metis list.set_intros(1))
  then have "ready c jrn u" "bStartOfStmt u" by (simp_all add: goes_on_def)
  then obtain t where t: "fold_res (handle_line c) ls u = Inr t" "same_rows u t" "goes_on c jrn u t"
    using Cons.IH [of u] Cons.prems(1) by auto
  show ?case using u(1) t(1) same_rows_trans [OF u(2) t(2)] goes_on_trans [OF u(3) t(3)] by simp
qed

section \<open>What the listener does with a text\<close>

text \<open>The file of the capture can be written, and need not be changed for so many bytes.\<close>

definition has_room :: "cfg \<Rightarrow> cap \<Rightarrow> nat \<Rightarrow> bool" where
  "has_room c k n \<longleftrightarrow> (\<exists>path. g_pFileCapture k = Some path \<and> can_write (io c) path)
     \<and> unat (g_ulCaptureSize k) + n \<le> unat (g_ulCaptureMax k)"

text \<open>However the text is cut into reads, none of which fills its buffer, the listener's thread goes on and its automaton
  ends in that state.\<close>

definition listened :: "cfg \<Rightarrow> ls \<Rightarrow> string \<Rightarrow> lst \<Rightarrow> bool" where
  "listened c l tx t \<longleftrightarrow> (\<forall>rs. quiet_reads c rs \<and> stream rs = tx \<and> has_room c (cp l) (length tx) \<longrightarrow>
     (\<exists>l'. listen c True False rs l = Some (Inr (False, l')) \<and> la l' = t))"

lemma line_steps_done:
  "fold_res (handle_line c) ls a = Inr t \<Longrightarrow> has_room c k (length (lines_nl ls)) \<Longrightarrow> \<exists>k'. fold_res (line_step c) ls (k, a) = Inr (k', t)"
proof (induction ls arbitrary: k a)
  case (Cons l ls)
  obtain b where b: "handle_line c l a = Inr b" "fold_res (handle_line c) ls b = Inr t"
    using Cons.prems(1) by (auto elim: and_then_eq_InrE)
  obtain path where path: "g_pFileCapture k = Some path" "can_write (io c) path"
    and n: "unat (g_ulCaptureSize k) + (length l + 1 + length (lines_nl ls)) \<le> unat (g_ulCaptureMax k)"
    using Cons.prems(2) by (auto simp: has_room_def)
  obtain k1 where w: "write_capture c (l @ [NL]) k = Inr k1" "g_pFileCapture k1 = Some path"
    using path by (simp add: write_capture_def nonnull_def)
  note z = write_capture_size [OF w(1)]
  have lt: "unat (g_ulCaptureSize k) + length (l @ [NL]) < 2 ^ 32"
  proof -
    have "unat (g_ulCaptureMax k) < 2 ^ 32" using unsigned_less [of "g_ulCaptureMax k"] by simp
    then show ?thesis using n by simp
  qed
  then have u: "unat (g_ulCaptureSize k1) = unat (g_ulCaptureSize k) + length (l @ [NL])"
    using z by (simp add: unat_word_ariths unsigned_of_nat take_bit_nat_eq_self)
  then have "\<not> g_ulCaptureMax k1 < g_ulCaptureSize k1" using z n by (simp add: word_less_nat_alt)
  then have s: "line_step c l (k, a) = Inr (k1, b)" using w(1) b(1) by (simp add: line_step_def rotate_capture_def)
  have "has_room c k1 (length (lines_nl ls))" using w(2) path u z n by (simp add: has_room_def)
  then obtain k' where "fold_res (line_step c) ls (k1, b) = Inr (k', t)" using Cons.IH [OF b(2)] by blast
  then show ?case using s by simp
qed simp

lemma listened_lines:
  assumes h: "holds c [] l" and s: "\<forall>ln \<in> set (fst (split_lines [] tx)). length ln + 2 * g_iLenBufferOut c \<le> g_iMaxBufferLine c"
    and n: "snd (split_lines [] tx) = []" "2 * g_iLenBufferOut c \<le> g_iMaxBufferLine c"
    and f: "fold_res (handle_line c) (fst (split_lines [] tx)) (la l) = Inr t"
  shows "listened c l tx t"
  unfolding listened_def
proof (intro allI impI)
  fix rs assume rs: "quiet_reads c rs \<and> stream rs = tx \<and> has_room c (cp l) (length tx)"
  have "lines_nl (fst (split_lines [] tx)) = tx" using split_lines_text [of "[]" tx] n(1) by simp
  then obtain k' where k: "fold_res (line_step c) (fst (split_lines [] tx)) (cp l, la l) = Inr (k', t)"
    using line_steps_done [OF f, of "cp l"] rs by auto
  have "short_lines c (split_lines [] tx)" using s n by (simp add: short_lines_def)
  then show "\<exists>l'. listen c True False rs l = Some (Inr (False, l')) \<and> la l' = t"
    using listen_text [OF h, of rs True] rs k by auto
qed

section \<open>Rows\<close>

text \<open>A row: its first line, then its body.\<close>

definition row_of :: "(string \<Rightarrow> string) \<Rightarrow> table_map \<Rightarrow> string list \<Rightarrow> bool" where
  "row_of q tm ls \<longleftrightarrow> (\<exists>k b. ls = row_head q tm k # b \<and> (\<forall>l \<in> set b. body_line l))"

lemma row_goes_on:
  assumes r: "row_of q tm ls" and f: "\<forall>l \<in> set ls. line_fits l" and n: "table_names_ok q tm"
    and s: "ready c jrn s" "bStartOfStmt s"
  shows "\<exists>t. fold_res (handle_line c) ls s = Inr t \<and> one_more q tm (rows_counted s) t \<and> goes_on c jrn s t"
proof -
  obtain k b where ls: "ls = row_head q tm k # b" "\<forall>l \<in> set b. body_line l" using r by (auto simp: row_of_def)
  obtain u where u: "handle_line c (row_head q tm k) s = Inr u" "one_more q tm (rows_counted s) u" "goes_on c jrn s u"
    using head_line_goes_on [OF n s] by blast
  have "\<forall>l \<in> set b. quiet l \<or> body_line l \<and> line_fits l" "ready c jrn u" "bStartOfStmt u"
    using ls f u(3) by (simp_all add: goes_on_def)
  then obtain t where t: "fold_res (handle_line c) b u = Inr t" "same_rows u t" "goes_on c jrn u t"
    using lines_go_on by blast
  have "one_more q tm (rows_counted s) t" using u(2) t(2) by (simp add: one_more_def same_rows_def)
  then show ?thesis using u(1) t(1) goes_on_trans [OF u(3) t(3)] by (simp add: ls(1))
qed

lemma rows_go_on:
  assumes "\<forall>ls \<in> set bs. row_of q tm ls" and "\<forall>l \<in> set (concat bs). line_fits l" and n: "table_names_ok q tm"
    and "ready c jrn s" and "bStartOfStmt s"
  shows "\<exists>t. fold_res (handle_line c) (concat bs) s = Inr t \<and> rows_counted t = rows_counted s + of_nat (length bs)
    \<and> (bs \<noteq> [] \<longrightarrow> szTableName t = q (tm_tblnam tm) \<and> szSchemaName t = q (tm_dbnam tm)) \<and> goes_on c jrn s t"
  using assms(1,2,4,5)
proof (induction bs arbitrary: s)
  case Nil
  then show ?case by (simp add: goes_on_refl)
next
  case (Cons ls bs)
  obtain u where u: "fold_res (handle_line c) ls s = Inr u" "one_more q tm (rows_counted s) u" "goes_on c jrn s u"
    using row_goes_on [OF _ _ n, of ls c jrn s] Cons.prems by auto
  then have "ready c jrn u" "bStartOfStmt u" by (simp_all add: goes_on_def)
  then obtain t where t: "fold_res (handle_line c) (concat bs) u = Inr t" "rows_counted t = rows_counted u + of_nat (length bs)"
    "bs \<noteq> [] \<longrightarrow> szTableName t = q (tm_tblnam tm) \<and> szSchemaName t = q (tm_dbnam tm)" "goes_on c jrn u t" "bs = [] \<longrightarrow> t = u"
    using Cons.IH [of u] Cons.prems(1,2) by fastforce
  show ?case
  proof (intro exI conjI)
    show "fold_res (handle_line c) (concat (ls # bs)) s = Inr t" using u(1) t(1) by (simp add: fold_res_append)
    show "rows_counted t = rows_counted s + of_nat (length (ls # bs))" using u(2) t(2) by (simp add: one_more_def)
    show "goes_on c jrn s t" by (rule goes_on_trans [OF u(3) t(4)])
    show "ls # bs \<noteq> [] \<longrightarrow> szTableName t = q (tm_tblnam tm) \<and> szSchemaName t = q (tm_dbnam tm)"
      using u(2) t(3,5) by (cases "bs = []") (simp_all add: one_more_def)
  qed
qed

section \<open>The rows that the server wrote\<close>

lemma body_lineI: "i < 4096 \<Longrightarrow> plain s \<Longrightarrow> body_line (column_head i @ s)"
  by (auto simp: body_line_def)

lemma column_line_body:
  assumes s: "supported fe td i" and v: "is_value (field_size td) i v" and i: "i < 4096"
  shows "body_line (column_line (print_field fe td) (row_comment vb td) i v)"
proof (cases v)
  case None
  obtain ty where ty: "print_field fe td i None = Inr (pv ''NULL'' 1 ty)" "plain ty" using cp.pr_null [OF s] by blast
  have "plain (''NULL'' @ row_comment vb td i ty True)" using cp.cm_plain [OF ty(2)] by simp
  from body_lineI [OF i this] show ?thesis using ty(1) None by (simp add: column_line_def pv_def)
next
  case (Some b)
  then have "field_size td i b = Inr (int (length b))" using v by (simp add: is_value_def)
  then obtain t ty where p: "\<And>r. print_field fe td i (Some (b @ r)) = Inr (pv t (length b) ty)" "plain t" "plain ty"
    by (rule cp.value_printed [OF s]) blast
  have "plain (t @ row_comment vb td i ty False)" using p(2) cp.cm_plain [OF p(3)] by simp
  from body_lineI [OF i this] show ?thesis using p(1) [of "[]"] Some by (simp add: column_line_def pv_def)
qed

lemma image_lines_body:
  assumes im: "image_ok fe td cols im" and n: "td_size td \<le> 4096"
  shows "\<forall>l \<in> set (image_lines fe vb td cols im). body_line l"
proof -
  have v: "list_all2 (\<lambda>i v. supported fe td i \<and> is_value (field_size td) i v) (set_columns td cols) (snd im)"
    using im by (simp add: image_ok_def)
  have i: "\<forall>i \<in> set (set_columns td cols). i < 4096" using n by (auto simp: set_columns_def)
  show ?thesis unfolding image_lines_def using v i
    by (induction rule: list_all2_induct) (auto intro: column_line_body)
qed

lemma row_lines_row:
  assumes r: "row_ok fe td ev r" and n: "td_size td \<le> 4096"
  shows "row_of q tm (row_lines fe q vb tm td ev r)"
proof -
  have c: "body_line (clause1 (re_kind ev))" "body_line ''### SET''" by (simp_all add: clause1_def body_line_def)
  have a: "\<forall>l \<in> set (image_lines fe vb td (re_cols ev) (fst r)). body_line l"
    using r by (intro image_lines_body [OF _ n]) (simp add: row_ok_def)
  have b: "\<forall>l \<in> set (image_lines fe vb td (re_cols_ai ev) im). body_line l" if "snd r = Some im" for im
    using r that by (intro image_lines_body [OF _ n]) (simp add: row_ok_def)
  show ?thesis unfolding row_of_def row_lines_def
    by (intro exI [of _ "re_kind ev"] exI conjI, rule refl) (use a b c in \<open>cases "snd r"; auto\<close>)
qed

text \<open>All rows of a statement.\<close>

lemma statement_rows_read:
  assumes ok: "\<forall>sr \<in> set srs. sent_ok env (tm_table_id tm) td sr" and n: "td_size td \<le> 4096"
  shows "\<exists>bs. statement_lines env tm td srs = concat bs \<and> length bs = statement_rows srs
    \<and> (\<forall>ls \<in> set bs. row_of (v_quote env) tm ls)"
  using ok
proof (induction srs)
  case Nil
  then show ?case by (intro exI [of _ "[]"]) (simp add: statement_lines_def statement_rows_def)
next
  case (Cons sr srs)
  then obtain bs where bs: "statement_lines env tm td srs = concat bs" "length bs = statement_rows srs"
    "\<forall>ls \<in> set bs. row_of (v_quote env) tm ls" by auto
  let ?as = "map (row_lines (v_floats env) (v_quote env) (v_verbose env) tm td
      (sent_event (v_addr env) (tm_table_id tm) (td_size td) sr)) (sr_rows sr)"
  have "\<forall>ls \<in> set ?as. row_of (v_quote env) tm ls"
    using Cons.prems row_lines_row [OF _ n] by (auto simp: sent_ok_def)
  then show ?case using bs
    by (intro exI [of _ "?as @ bs"]) (auto simp: statement_lines_def sent_lines_def statement_rows_def)
qed

lemma plain_NL: "plain s \<Longrightarrow> NL \<notin> set s"
proof -
  have "ubyte NL = 10" by (simp add: ubyte_def)
  then show "plain s \<Longrightarrow> NL \<notin> set s" by (auto simp: plain_def)
qed

lemma body_line_NL: "body_line l \<Longrightarrow> NL \<notin> set l"
  by (auto simp: body_line_def column_head_def dest: plain_NL)

lemma row_of_NL: "row_of q tm ls \<Longrightarrow> table_names_ok q tm \<Longrightarrow> \<forall>l \<in> set ls. NL \<notin> set l"
proof -
  have "NL \<notin> set (row_head q tm k)" if "table_names_ok q tm" for k
    using that by (cases k) (simp_all add: row_head_def table_text_def table_names_ok_def)
  then show "row_of q tm ls \<Longrightarrow> table_names_ok q tm \<Longrightarrow> \<forall>l \<in> set ls. NL \<notin> set l"
    using body_line_NL by (fastforce simp: row_of_def)
qed

section \<open>Header lines\<close>

text \<open>The lines that begin with the common header are no marks: a hash and digits. Their length is bounded,
  given that the local time has two digits everywhere.\<close>

definition local_times :: "text_env \<Rightarrow> bool" where
  "local_times te \<longleftrightarrow> (\<forall>w. let r = x_localtime te w in tm_mon r < 12 \<and> tm_mday r < 32 \<and> tm_hour r < 24 \<and> tm_min r < 60 \<and> tm_sec r < 62)"

definition header_line :: "text_env \<Rightarrow> string \<Rightarrow> bool" where
  "header_line te l \<longleftrightarrow> (\<exists>h crc. header_ok h \<and> l = Log_event_print_header te h crc)"

lemma pad2: "n < 100 \<Longrightarrow> length (show_dec_pad 2 n) = 2" "NL \<notin> set (show_dec_pad w n)"
proof -
  show "n < 100 \<Longrightarrow> length (show_dec_pad 2 n) = 2" using length_show_dec [of 2 n] by (intro length_show_dec_pad) simp
  show "NL \<notin> set (show_dec_pad w n)" using show_dec_pad_digits char_not_digit(3) by blast
qed

lemma timestamp_ok:
  assumes "local_times te"
  shows "length (print_timestamp te w) = 15" "NL \<notin> set (print_timestamp te w)" "is_digit (hd (print_timestamp te w))"
proof -
  let ?r = "x_localtime te w"
  have r: "tm_mon ?r < 12" "tm_mday ?r < 32" "tm_hour ?r < 24" "tm_min ?r < 60" "tm_sec ?r < 62"
    using assms by (simp_all add: local_times_def Let_def)
  then have "length (show_dec (tm_hour ?r)) \<le> 2" by (intro length_show_dec) simp_all
  then show "length (print_timestamp te w) = 15" using r by (simp add: print_timestamp_def Let_def pad2)
  show "NL \<notin> set (print_timestamp te w)" by (simp add: print_timestamp_def Let_def pad2)
  have "hd (show_dec_pad 2 (tm_year ?r mod 100)) \<in> set (show_dec_pad 2 (tm_year ?r mod 100))" by simp
  from show_dec_pad_digits [OF this] show "is_digit (hd (print_timestamp te w))"
    by (simp add: print_timestamp_def Let_def)
qed

lemma id_digits: "0 \<le> i \<Longrightarrow> i < 2 ^ 32 \<Longrightarrow> length (show_dec (nat i)) \<le> 10"
  by (rule length_show_dec) (simp_all add: nat_less_iff)

lemma show_ulong_ok: "0 \<le> i \<Longrightarrow> i < 2 ^ 32 \<Longrightarrow> length (show_ulong i) \<le> 10" "NL \<notin> set (show_ulong i)"
proof -
  show "0 \<le> i \<Longrightarrow> i < 2 ^ 32 \<Longrightarrow> length (show_ulong i) \<le> 10"
    unfolding show_ulong_def by (rule id_digits)
qed (simp add: show_ulong_def)

lemma llstr_small: "0 \<le> i \<Longrightarrow> i < 2 ^ 32 \<Longrightarrow> llstr i = show_ulong i"
  by (simp add: llstr_def show_ulong_def signed_of_def show_int_def)

lemma header_line_ok:
  assumes l: "header_line te l" and t: "local_times te"
  shows "NL \<notin> set l" "length l \<le> 100" "\<exists>c r. l = CHR ''#'' # c # r \<and> is_digit c"
proof -
  obtain h crc where h: "header_ok h" "l = Log_event_print_header te h crc" using l by (auto simp: header_line_def)
  note o = h(1) [unfolded header_ok_def]
  have pos: "llstr (eh_log_pos h) = show_ulong (eh_log_pos h)" by (rule llstr_small) (use o in simp_all)
  note ts = timestamp_ok [OF t, of "eh_when h"]
  have crc: "length (case crc of None \<Rightarrow> [] | Some c \<Rightarrow> ''CRC32 0x'' @ hex8 c @ '' '') \<le> 17"
    "NL \<notin> set (case crc of None \<Rightarrow> [] | Some c \<Rightarrow> ''CRC32 0x'' @ hex8 c @ '' '')"
    by (auto split: option.split simp: hex8_ok)
  have n: "length (show_ulong (eh_server_id h)) \<le> 10" "length (show_ulong (eh_log_pos h)) \<le> 10"
    using show_ulong_ok(1) o by simp_all
  show "NL \<notin> set l" using ts(2) crc(2) by (simp add: h(2) Log_event_print_header_def pos show_ulong_ok(2))
  show "length l \<le> 100" using ts(1) crc(1) n by (simp add: h(2) Log_event_print_header_def pos)
  obtain c r where c: "print_timestamp te (eh_when h) = c # r" using ts(1) by (cases "print_timestamp te (eh_when h)") auto
  then show "\<exists>c r. l = CHR ''#'' # c # r \<and> is_digit c" using ts(3) by (simp add: h(2) Log_event_print_header_def)
qed

lemma header_line_quiet:
  assumes l: "header_line te l" "local_times te" and s: "NL \<notin> set s" "length s \<le> 412"
  shows "quiet_text (l @ s @ [NL])"
proof -
  note o = header_line_ok [OF l]
  obtain c r where c: "l = CHR ''#'' # c # r" "is_digit c" using o(3) by blast
  have "c \<noteq> CHR ''#''" using c(2) by (auto simp: is_digit_def)
  then have "quiet (l @ s)" using o(2) s(2) c(1) by (simp add: quiet_def)
  then show ?thesis using quiet_text_line [of "l @ s"] o(1) s(1) by simp
qed

definition short_names :: "(string \<Rightarrow> string) \<Rightarrow> table_map \<Rightarrow> bool" where
  "short_names q tm \<longleftrightarrow> length (q (tm_dbnam tm)) + length (q (tm_tblnam tm)) \<le> 350"

lemma map_line_quiet:
  assumes "header_line te l" "local_times te" "table_names_ok (v_quote env) tm" "short_names (v_quote env) tm" "table_map_ok tm"
  shows "quiet_text (map_line env l tm triggers)"
proof -
  let ?s = "CHR 0x09 # ''Table_map: '' @ v_quote env (tm_dbnam tm) @ ''.'' @ v_quote env (tm_tblnam tm)
     @ '' mapped to number '' @ show_dec (nat (tm_table_id tm)) @ (if triggers then '' (has triggers)'' else [])"
  have "length (show_dec (nat (tm_table_id tm))) \<le> 10" using assms(5) by (intro id_digits) (simp_all add: table_map_ok_def)
  then have "quiet_text (l @ ?s @ [NL])" using assms(3,4)
    by (intro header_line_quiet [OF assms(1,2)]) (simp_all add: table_names_ok_def short_names_def)
  then show ?thesis by (simp add: map_line_def)
qed

lemma head_text_quiet:
  assumes t: "local_times te" and tid: "0 \<le> tid" "tid < 2 ^ 32"
  shows "\<forall>sr \<in> set srs. header_line te (sr_line sr) \<Longrightarrow> quiet_text (head_text tid srs)"
proof (induction srs)
  case (Cons sr srs)
  let ?s = "CHR 0x09 # rows_name (sr_kind sr) @ '': table id '' @ show_dec (nat tid) @ (if srs = [] then '' flags: STMT_END_F'' else [])"
  have "length (show_dec (nat tid)) \<le> 10" using tid by (intro id_digits) simp_all
  moreover have "NL \<notin> set (rows_name (sr_kind sr))" "length (rows_name (sr_kind sr)) \<le> 11" by (cases "sr_kind sr"; simp)+
  ultimately have "quiet_text (sr_line sr @ ?s @ [NL])"
    using Cons.prems by (intro header_line_quiet [OF _ t]) simp_all
  then have "quiet_text (rows_line (sr_line sr) (sr_kind sr) tid (srs = []))" by (simp add: rows_line_def)
  then show ?case using Cons by (simp add: quiet_text_append)
qed simp

text \<open>The text of a commit, without the option for short output: its header line, and \<open>COMMIT\<close>.\<close>

lemma commit_text_quiet:
  assumes "Xid_print te h xid crc s = Inr (t, s')" "header_ok h" "local_times te" "\<not> x_short_form te" "0 \<le> xid" "xid < 2 ^ 64"
    and "NL \<notin> set (ps_delimiter s)" "length (ps_delimiter s) \<le> 400"
  shows "quiet_text t"
proof -
  let ?l = "Log_event_print_header te h crc" and ?c = "''COMMIT'' @ ps_delimiter s"
  have t: "t = (?l @ (CHR 0x09 # ''Xid = '' @ show_ulong xid) @ [NL]) @ ?c @ [NL]"
    using assms(1,4) by (auto simp: Xid_print_def)
  have "length (show_ulong xid) \<le> 20" unfolding show_ulong_def using assms(5,6) by (intro length_show_dec) (simp_all add: nat_less_iff)
  then have "quiet_text (?l @ (CHR 0x09 # ''Xid = '' @ show_ulong xid) @ [NL])"
    using assms(2) by (intro header_line_quiet [OF _ assms(3)]) (auto simp: header_line_def show_ulong_ok(2))
  moreover have "quiet_text (?c @ [NL])" using assms(7,8) quiet_text_line [of ?c] by (simp add: quiet_def)
  ultimately show ?thesis unfolding t by (rule quiet_text_append)
qed

section \<open>From the log to the listener\<close>

lemma row_statement_read:
  assumes "table_map_ok tm" "length (write_table_map h tm footer) < 2 ^ 32" "footer_ok env footer"
    and "fd_common_header_len (v_fd env) = 19" "fd_post_header_len (v_fd env) ! 18 = 8"
    and "create_table_def tm = Inr td" "0 \<le> v_addr env" "decoding env st"
    and "srs \<noteq> []" "\<forall>sr \<in> set srs. sent_ok env (tm_table_id tm) td sr"
    and "head_cache (w_info st) = []" "body_cache (w_info st) = []"
    and "quiet_text (map_line env header tm triggers)" "quiet_text (head_text (tm_table_id tm) srs)"
    and "table_names_ok (v_quote env) tm" "\<forall>l \<in> set (statement_lines env tm td srs). line_fits l"
    and "ready c jrn s" "bStartOfStmt s"
  shows "\<exists>st1 st2 printed t.
    print_table_map env header (tm_dbnam tm) (tm_tblnam tm) (tm_table_id tm) triggers (write_table_map h tm footer) st = Inr (False, st1)
    \<and> print_rows_events env (tm_table_id tm) (td_size td) srs st1 = Inr (False, st2) \<and> w_file st2 = w_file st @ printed
    \<and> snd (split_lines [] printed) = [] \<and> fold_res (handle_line c) (fst (split_lines [] printed)) s = Inr t
    \<and> rc_ulCountAllRow (g_RowCount t) = rc_ulCountAllRow (g_RowCount s) + of_nat (statement_rows srs)
    \<and> szTableName t = v_quote env (tm_tblnam tm) \<and> szSchemaName t = v_quote env (tm_dbnam tm)
    \<and> bStartOfStmt t \<and> g_stBinLogSeqInProgess (ck t) = g_stBinLogSeqInProgess (ck s) \<and> ready c jrn t
    \<and> (\<forall>ln \<in> set (fst (split_lines [] printed)). length ln \<le> 512 \<or> ln \<in> set (statement_lines env tm td srs))"
proof -
  have n: "td_size td \<le> 4096" using assms(1,6)
    by (auto simp: table_map_ok_def create_table_def_def new_table_def_def td_size_def elim!: and_then_eq_InrE)
  obtain st1 st2 where p: "print_table_map env header (tm_dbnam tm) (tm_tblnam tm) (tm_table_id tm) triggers
      (write_table_map h tm footer) st = Inr (False, st1)" "print_rows_events env (tm_table_id tm) (td_size td) srs st1 = Inr (False, st2)"
    "w_file st2 = w_file st @ map_line env header tm triggers @ head_text (tm_table_id tm) srs @ lines_nl (statement_lines env tm td srs)"
    using statement_to_file [OF assms(1-10), of header triggers] assms(11,12) by auto
  obtain bs where bs: "statement_lines env tm td srs = concat bs" "length bs = statement_rows srs"
    "\<forall>ls \<in> set bs. row_of (v_quote env) tm ls" using statement_rows_read [OF assms(10) n] by blast
  let ?head = "map_line env header tm triggers @ head_text (tm_table_id tm) srs"
  let ?hs = "fst (split_lines [] ?head)"
  have q: "quiet_text ?head" by (rule quiet_text_append [OF assms(13,14)])
  have "\<forall>l \<in> set (concat bs). NL \<notin> set l" using row_of_NL [OF _ assms(15)] bs(3) by auto
  then have sp: "split_lines [] (?head @ lines_nl (concat bs)) = (?hs @ concat bs, [])"
    using q split_lines_lines_nl by (simp add: split_lines_append quiet_text_def split_beta)
  obtain u where u: "fold_res (handle_line c) ?hs s = Inr u" "same_rows s u" "goes_on c jrn s u"
    using lines_go_on [OF _ assms(17,18), of ?hs] q by (auto simp: quiet_text_def)
  then have "ready c jrn u" "bStartOfStmt u" by (simp_all add: goes_on_def)
  then obtain t where t: "fold_res (handle_line c) (concat bs) u = Inr t" "rows_counted t = rows_counted u + of_nat (length bs)"
    "bs \<noteq> [] \<longrightarrow> szTableName t = v_quote env (tm_tblnam tm) \<and> szSchemaName t = v_quote env (tm_dbnam tm)" "goes_on c jrn u t"
    using rows_go_on [OF bs(3) _ assms(15), of c jrn u] assms(16) bs(1) by auto
  have g: "goes_on c jrn s t" by (rule goes_on_trans [OF u(3) t(4)])
  show ?thesis
  proof (intro exI conjI)
    show "w_file st2 = w_file st @ (?head @ lines_nl (concat bs))" using p(3) bs(1) by simp
    show "fold_res (handle_line c) (fst (split_lines [] (?head @ lines_nl (concat bs)))) s = Inr t"
      using sp u(1) t(1) by (simp add: fold_res_append)
    show "rc_ulCountAllRow (g_RowCount t) = rc_ulCountAllRow (g_RowCount s) + of_nat (statement_rows srs)"
      using t(2) u(2) bs(2) by (simp add: same_rows_def rows_counted_def)
    have "statement_rows srs \<noteq> 0" using assms(9,10) by (cases srs) (auto simp: statement_rows_def sent_ok_def)
    then show "szTableName t = v_quote env (tm_tblnam tm)" "szSchemaName t = v_quote env (tm_dbnam tm)"
      using t(3) bs(2) by auto
    show "\<forall>ln \<in> set (fst (split_lines [] (?head @ lines_nl (concat bs)))). length ln \<le> 512 \<or> ln \<in> set (statement_lines env tm td srs)"
      using q bs(1) unfolding sp by (auto simp: quiet_text_def quiet_def)
  qed (use p g sp in \<open>simp_all add: goes_on_def saves_only_def\<close>)
qed

text \<open>The same for the listener's thread.\<close>

definition row_line_fits :: "cfg \<Rightarrow> string \<Rightarrow> bool" where
  "row_line_fits c ln \<longleftrightarrow> line_fits ln \<and> length ln + 2 * g_iLenBufferOut c \<le> g_iMaxBufferLine c"

lemma statement_listened:
  assumes "table_map_ok tm" "length (write_table_map h tm footer) < 2 ^ 32" "footer_ok env footer"
    and "fd_common_header_len (v_fd env) = 19" "fd_post_header_len (v_fd env) ! 18 = 8"
    and "create_table_def tm = Inr td" "0 \<le> v_addr env" "decoding env st"
    and "srs \<noteq> []" "\<forall>sr \<in> set srs. sent_ok env (tm_table_id tm) td sr"
    and "head_cache (w_info st) = []" "body_cache (w_info st) = []"
    and "quiet_text (map_line env header tm triggers)" "quiet_text (head_text (tm_table_id tm) srs)"
    and "table_names_ok (v_quote env) tm" "\<forall>ln \<in> set (statement_lines env tm td srs). row_line_fits c ln"
    and "ready c jrn (la l)" "bStartOfStmt (la l)" and "holds c [] l" "512 + 2 * g_iLenBufferOut c \<le> g_iMaxBufferLine c"
  shows "\<exists>st1 st2 printed t.
    print_table_map env header (tm_dbnam tm) (tm_tblnam tm) (tm_table_id tm) triggers (write_table_map h tm footer) st = Inr (False, st1)
    \<and> print_rows_events env (tm_table_id tm) (td_size td) srs st1 = Inr (False, st2) \<and> w_file st2 = w_file st @ printed
    \<and> snd (split_lines [] printed) = [] \<and> fold_res (handle_line c) (fst (split_lines [] printed)) (la l) = Inr t
    \<and> (\<forall>ln \<in> set (fst (split_lines [] printed)). length ln + 2 * g_iLenBufferOut c \<le> g_iMaxBufferLine c)
    \<and> listened c l printed t
    \<and> rc_ulCountAllRow (g_RowCount t) = rc_ulCountAllRow (g_RowCount (la l)) + of_nat (statement_rows srs)
    \<and> szTableName t = v_quote env (tm_tblnam tm) \<and> szSchemaName t = v_quote env (tm_dbnam tm)
    \<and> bStartOfStmt t \<and> g_stBinLogSeqInProgess (ck t) = g_stBinLogSeqInProgess (ck (la l)) \<and> ready c jrn t"
proof -
  have f: "\<forall>ln \<in> set (statement_lines env tm td srs). line_fits ln" using assms(16) by (simp add: row_line_fits_def)
  obtain st1 st2 printed t where t: "print_table_map env header (tm_dbnam tm) (tm_tblnam tm) (tm_table_id tm) triggers
      (write_table_map h tm footer) st = Inr (False, st1)"
    "print_rows_events env (tm_table_id tm) (td_size td) srs st1 = Inr (False, st2)" "w_file st2 = w_file st @ printed"
    "snd (split_lines [] printed) = []" "fold_res (handle_line c) (fst (split_lines [] printed)) (la l) = Inr t"
    "rc_ulCountAllRow (g_RowCount t) = rc_ulCountAllRow (g_RowCount (la l)) + of_nat (statement_rows srs)"
    "szTableName t = v_quote env (tm_tblnam tm)" "szSchemaName t = v_quote env (tm_dbnam tm)" "ready c jrn t"
    "bStartOfStmt t" "g_stBinLogSeqInProgess (ck t) = g_stBinLogSeqInProgess (ck (la l))"
    "\<forall>ln \<in> set (fst (split_lines [] printed)). length ln \<le> 512 \<or> ln \<in> set (statement_lines env tm td srs)"
    using row_statement_read [OF assms(1-15) f assms(17,18)] by blast
  have s: "length ln + 2 * g_iLenBufferOut c \<le> g_iMaxBufferLine c" if "ln \<in> set (fst (split_lines [] printed))" for ln
    using t(12) that assms(16,20) unfolding row_line_fits_def by fastforce
  have "2 * g_iLenBufferOut c \<le> g_iMaxBufferLine c" using assms(20) by simp
  then have "listened c l printed t" using listened_lines [OF assms(19) _ t(4) _ t(5)] s by blast
  then show ?thesis using t(1-11) s by blast
qed

text \<open>The header lines of a statement are quiet, so it can be read as above.\<close>

lemma statement_headers_quiet:
  assumes "table_map_ok tm" "table_names_ok (v_quote env) tm" "short_names (v_quote env) tm" "local_times te"
    and "header_line te header" "\<forall>sr \<in> set srs. header_line te (sr_line sr)"
  shows "quiet_text (map_line env header tm triggers)" "quiet_text (head_text (tm_table_id tm) srs)"
proof -
  show "quiet_text (map_line env header tm triggers)" by (rule map_line_quiet [OF assms(5,4,2,3,1)])
  have "0 \<le> tm_table_id tm" "tm_table_id tm < 2 ^ 32" using assms(1) by (simp_all add: table_map_ok_def)
  from head_text_quiet [OF assms(4) this assms(6)] show "quiet_text (head_text (tm_table_id tm) srs)" .
qed

text \<open>C9: The rows of a statement in the log, printed by the library and read by the listener: inside a
  statement the listener's thread, however the text reaches it, ends in a state in which it has counted exactly the
  rows that the server wrote, knows the table and the schema of the last one, is still in the statement, and keeps
  the checkpoint in progress. Conditions: the lines of the events begin with the header that the library prints; names have up to
  350 characters together, without line feeds, the schema without points; no read fills its buffer, and the capture's file
  has room for the text; and of the values, that no line of a row has 513 to 1023 characters (\<open>line_fits\<close>) or comes
  close to the size of the listener's line buffer. A value that needs a longer line is spilled: see \<open>Listener\<close>.\<close>

theorem statement_captured:
  assumes "table_map_ok tm" "length (write_table_map h tm footer) < 2 ^ 32" "footer_ok env footer"
    and "fd_common_header_len (v_fd env) = 19" "fd_post_header_len (v_fd env) ! 18 = 8"
    and "create_table_def tm = Inr td" "0 \<le> v_addr env" "decoding env st"
    and "srs \<noteq> []" "\<forall>sr \<in> set srs. sent_ok env (tm_table_id tm) td sr"
    and "head_cache (w_info st) = []" "body_cache (w_info st) = []"
    and "local_times te" "header_line te header" "\<forall>sr \<in> set srs. header_line te (sr_line sr)"
    and "table_names_ok (v_quote env) tm" "short_names (v_quote env) tm"
    and "\<forall>ln \<in> set (statement_lines env tm td srs). row_line_fits c ln" "ready c jrn (la l)" "bStartOfStmt (la l)"
    and "holds c [] l" "512 + 2 * g_iLenBufferOut c \<le> g_iMaxBufferLine c"
  shows "\<exists>st1 st2 printed t.
    print_table_map env header (tm_dbnam tm) (tm_tblnam tm) (tm_table_id tm) triggers (write_table_map h tm footer) st = Inr (False, st1)
    \<and> print_rows_events env (tm_table_id tm) (td_size td) srs st1 = Inr (False, st2) \<and> w_file st2 = w_file st @ printed
    \<and> listened c l printed t
    \<and> rc_ulCountAllRow (g_RowCount t) = rc_ulCountAllRow (g_RowCount (la l)) + of_nat (statement_rows srs)
    \<and> szTableName t = v_quote env (tm_tblnam tm) \<and> szSchemaName t = v_quote env (tm_dbnam tm)
    \<and> bStartOfStmt t \<and> g_stBinLogSeqInProgess (ck t) = g_stBinLogSeqInProgess (ck (la l)) \<and> ready c jrn t"
  using statement_listened [OF assms(1-12) statement_headers_quiet [OF assms(1,16,17,13,14,15)] assms(16,18-22)] by blast

definition demo_head :: string where
  "demo_head = Log_event_print_header demo_text_env demo_header None"

definition demo_sent_rows :: sent_rows where
  "demo_sent_rows = demo_sent\<lparr>sr_line := demo_head\<rparr>"

lemma demo_head_line: "local_times demo_text_env" "header_line demo_text_env demo_head"
proof -
  have "header_ok demo_header" by (simp add: header_ok_def demo_header_def)
  then show "header_line demo_text_env demo_head" by (auto simp: header_line_def demo_head_def)
qed (simp add: local_times_def demo_text_env_def Let_def)

lemma demo_sent_line [simp]:
  "sent_event a tid w (demo_sent\<lparr>sr_line := l\<rparr>) = sent_event a tid w demo_sent"
  "sent_ok env tid td (demo_sent\<lparr>sr_line := l\<rparr>) = sent_ok env tid td demo_sent"
  "statement_lines env tm td [demo_sent\<lparr>sr_line := l\<rparr>] = statement_lines env tm td [demo_sent]"
  "statement_rows [demo_sent\<lparr>sr_line := l\<rparr>] = statement_rows [demo_sent]"
proof -
  show e: "sent_event a tid w (demo_sent\<lparr>sr_line := l\<rparr>) = sent_event a tid w demo_sent" for a tid w by (simp add: sent_event_def)
  have "sent_bytes tid w m (demo_sent\<lparr>sr_line := l\<rparr>) = sent_bytes tid w m demo_sent" for w m
    by (simp add: sent_bytes_def sent_type_def sent_data_def)
  then show "sent_ok env tid td (demo_sent\<lparr>sr_line := l\<rparr>) = sent_ok env tid td demo_sent"
    by (simp add: sent_ok_def sent_type_def e)
  show "statement_lines env tm td [demo_sent\<lparr>sr_line := l\<rparr>] = statement_lines env tm td [demo_sent]"
    by (simp add: statement_lines_def sent_lines_def e)
qed (simp add: statement_rows_def)

text \<open>The demonstration: two rows of one event, with the conditions of the theorems.\<close>

definition row_cfg :: cfg where
  "row_cfg = demo_cfg\<lparr>g_iMaxBufferLine := 4000, g_iLenBufferOut := 1000\<rparr>"

definition row_ls :: ls where
  "row_ls = demo_ls\<lparr>buf := replicate 4000 (CHR ''?''), la := demo_lst\<lparr>bStartOfStmt := True\<rparr>\<rparr>"

lemma demo_statement:
  "length (write_table_map demo_header demo_table []) < 2 ^ 32" "footer_ok demo_row_env []"
  "fd_common_header_len (v_fd demo_row_env) = 19" "fd_post_header_len (v_fd demo_row_env) ! 18 = 8" "0 \<le> v_addr demo_row_env"
  "\<forall>sr \<in> set [demo_sent_rows]. sent_ok demo_row_env (tm_table_id demo_table) demo_def sr"
  "head_cache (w_info demo_row_state) = []" "body_cache (w_info demo_row_state) = []"
  "\<forall>sr \<in> set [demo_sent_rows]. header_line demo_text_env (sr_line sr)"
  "table_names_ok (v_quote demo_row_env) demo_table" "short_names (v_quote demo_row_env) demo_table"
  "\<forall>ln \<in> set (statement_lines demo_row_env demo_table demo_def [demo_sent_rows]). row_line_fits row_cfg ln"
  "ready row_cfg ''j'' (la row_ls)" "bStartOfStmt (la row_ls)" "holds row_cfg [] row_ls"
  "512 + 2 * g_iLenBufferOut row_cfg \<le> g_iMaxBufferLine row_cfg"
proof -
  have names: "tm_dbnam demo_table = ''d''" "tm_tblnam demo_table = ''t''" "tm_table_id demo_table = 7"
    by (simp_all add: demo_table_def)
  show "length (write_table_map demo_header demo_table []) < 2 ^ 32" by (simp add: length_demo_table)
  show "\<forall>sr \<in> set [demo_sent_rows]. sent_ok demo_row_env (tm_table_id demo_table) demo_def sr"
    using demo_sent_ok by (simp add: names demo_sent_rows_def)
  show "\<forall>sr \<in> set [demo_sent_rows]. header_line demo_text_env (sr_line sr)"
    using demo_head_line(2) by (simp add: demo_sent_rows_def)
  show "table_names_ok (v_quote demo_row_env) demo_table" "short_names (v_quote demo_row_env) demo_table"
    by (simp_all add: table_names_ok_def short_names_def demo_row_env_def names backquote_def)
  show "\<forall>ln \<in> set (statement_lines demo_row_env demo_table demo_def [demo_sent_rows]). row_line_fits row_cfg ln"
    unfolding demo_sent_rows_def demo_sent_line demo_statement_lines
    by (simp add: row_line_fits_def row_cfg_def line_fits_def my_b_write_quoted_def quoted_byte_def hex2_def Let_def)
  show "ready row_cfg ''j'' (la row_ls)" using demo_lst_ok by (simp add: ready_def names_fit_def row_cfg_def row_ls_def)
  show "holds row_cfg [] row_ls" by (simp add: holds_def row_cfg_def row_ls_def demo_ls_def demo_lst_def)
  show "bStartOfStmt (la row_ls)" "512 + 2 * g_iLenBufferOut row_cfg \<le> g_iMaxBufferLine row_cfg"
    by (simp_all add: row_cfg_def row_ls_def)
qed (simp_all add: footer_ok_def demo_row_env_def demo_fd_def demo_row_state_def demo_pinfo_def)

lemma demo_statement_names:
  "tm_dbnam demo_table = ''d''" "tm_tblnam demo_table = ''t''" "tm_table_id demo_table = 7" "td_size demo_def = 2"
  "v_quote demo_row_env = backquote" "statement_rows [demo_sent_rows] = 2" "w_file demo_row_state = []"
  "rc_ulCountAllRow (g_RowCount (la row_ls)) = 0" "g_stBinLogSeqInProgess (ck (la row_ls)) = zero_seq"
proof -
  show "statement_rows [demo_sent_rows] = 2"
    unfolding demo_sent_rows_def demo_sent_line by (simp add: statement_rows_def demo_sent_def demo_rows_def)
qed (simp_all add: demo_table_def td_size_def demo_def_def demo_row_env_def demo_row_state_def demo_lst_ok row_ls_def, simp add: demo_lst_def)

theorem statement_captured_witness:
  "\<exists>st1 st2 t.
    print_table_map demo_row_env demo_head ''d'' ''t'' 7 False (write_table_map demo_header demo_table []) demo_row_state = Inr (False, st1)
    \<and> print_rows_events demo_row_env 7 2 [demo_sent_rows] st1 = Inr (False, st2)
    \<and> listened row_cfg row_ls (w_file st2) t
    \<and> rc_ulCountAllRow (g_RowCount t) = 2 \<and> szTableName t = ''`t`'' \<and> szSchemaName t = ''`d`'' \<and> bStartOfStmt t
    \<and> g_stBinLogSeqInProgess (ck t) = zero_seq"
  using statement_captured [OF demo_table_ok demo_statement(1-4) demo_rows_ok(1) demo_statement(5) demo_decoding list.distinct(2) demo_statement(6-8)
      demo_head_line demo_statement(9-16), where triggers = False]
  unfolding demo_statement_names by (auto simp: backquote_def simp del: print_rows_events.simps)

section \<open>A transaction\<close>

text \<open>The library of the model of the events prints the transaction id of a commit as \<open>Xid_print\<close> does, held
  back to the end of the event.\<close>

definition prints_xid :: "evlib \<Rightarrow> Log_event \<Rightarrow> text_env \<Rightarrow> event_header \<Rightarrow> int \<Rightarrow> print_settings \<Rightarrow> bool" where
  "prints_xid lib ev te h xid s \<longleftrightarrow>
     (\<exists>crc t s'. Xid_print te h xid crc s = Inr (t, s') \<and> (\<forall>p. ev_print lib ev p = (False, [], t, p)))"

lemma xid_prints_quietly:
  assumes "prints_xid lib ev te h xid s" "header_ok h" "local_times te" "\<not> x_short_form te" "0 \<le> xid" "xid < 2 ^ 64"
    and "NL \<notin> set (ps_delimiter s)" "length (ps_delimiter s) \<le> 400"
  shows "prints_quietly lib ev"
  using assms(1) commit_text_quiet [OF _ assms(2-8)] by (auto simp: prints_xid_def prints_quietly_def)

text \<open>C4: A statement and the commit behind it, from the bytes in the log to the checkpoint on disk: after the
  listener's thread has read what the library prints for the rows, however the text reaches it, it has counted the
  rows of the statement and knows the table; and after the text of the transaction id behind it a restart resumes behind the
  commit, in the log that the listener is in. Conditions: names have up to 350 characters together, without line feeds, the
  schema without points; no read fills its buffer, and the capture's file has room for the text; and of the values, that no line
  of a row has 513 to 1023 characters (\<open>line_fits\<close>) or comes close to the size of the listener's line buffer.\<close>

theorem transaction_captured:
  assumes "table_map_ok tm" "length (write_table_map h tm footer) < 2 ^ 32" "footer_ok env footer"
    and "fd_common_header_len (v_fd env) = 19" "fd_post_header_len (v_fd env) ! 18 = 8"
    and "create_table_def tm = Inr td" "0 \<le> v_addr env" "decoding env st"
    and "srs \<noteq> []" "\<forall>sr \<in> set srs. sent_ok env (tm_table_id tm) td sr"
    and "head_cache (w_info st) = []" "body_cache (w_info st) = []"
    and "local_times te" "header_line te header" "\<forall>sr \<in> set srs. header_line te (sr_line sr)"
    and "table_names_ok (v_quote env) tm" "short_names (v_quote env) tm"
    and "\<forall>ln \<in> set (statement_lines env tm td srs). row_line_fits c ln" "ready c jrn (la l)" "bStartOfStmt (la l)"
    and "holds c [] l" "512 + 2 * g_iLenBufferOut c \<le> g_iMaxBufferLine c"
    and "ev_type ev = XID_EVENT" "in_range o1 pos ev ps" "unat pos < 2 ^ 63" "unat (ev_log_pos ev) < 2 ^ 63"
    and "NL \<notin> set (delimiter (pinfo ps))" "length (delimiter (pinfo ps)) \<le> 400" "\<not> opt_flashback o1"
    and "prints_xid lib ev te hx xid sx" "header_ok hx" "\<not> x_short_form te" "0 \<le> xid" "xid < 2 ^ 64"
    and "NL \<notin> set (ps_delimiter sx)" "length (ps_delimiter sx) \<le> 400"
  shows "\<exists>st1 st2 printed commits t u q.
    print_table_map env header (tm_dbnam tm) (tm_tblnam tm) (tm_table_id tm) triggers (write_table_map h tm footer) st = Inr (False, st1)
    \<and> print_rows_events env (tm_table_id tm) (td_size td) srs st1 = Inr (False, st2) \<and> w_file st2 = w_file st @ printed
    \<and> result_file (snd (process_event lib o1 pos ev ps)) = result_file ps @ commits
    \<and> listened c l printed t \<and> listened c l (printed @ commits) u
    \<and> rc_ulCountAllRow (g_RowCount t) = rc_ulCountAllRow (g_RowCount (la l)) + of_nat (statement_rows srs)
    \<and> szTableName t = v_quote env (tm_tblnam tm) \<and> szSchemaName t = v_quote env (tm_dbnam tm)
    \<and> restart_seq jrn (ck u) = Some q \<and> seq_name q = l_szBinLogName t \<and> ulPosition q = read_pos (ev_log_pos ev) \<and> \<not> bStartOfStmt u"
proof -
  obtain st1 st2 printed t where t: "print_table_map env header (tm_dbnam tm) (tm_tblnam tm) (tm_table_id tm) triggers
      (write_table_map h tm footer) st = Inr (False, st1)"
    "print_rows_events env (tm_table_id tm) (td_size td) srs st1 = Inr (False, st2)" "w_file st2 = w_file st @ printed"
    "snd (split_lines [] printed) = []" "fold_res (handle_line c) (fst (split_lines [] printed)) (la l) = Inr t"
    "rc_ulCountAllRow (g_RowCount t) = rc_ulCountAllRow (g_RowCount (la l)) + of_nat (statement_rows srs)"
    "szTableName t = v_quote env (tm_tblnam tm)" "szSchemaName t = v_quote env (tm_dbnam tm)" "ready c jrn t"
    "listened c l printed t" "\<forall>ln \<in> set (fst (split_lines [] printed)). length ln + 2 * g_iLenBufferOut c \<le> g_iMaxBufferLine c"
    using statement_listened [OF assms(1-12) statement_headers_quiet [OF assms(1,16,17,13,14,15)] assms(16,18-22)] by blast
  have x: "prints_quietly lib ev" by (rule xid_prints_quietly [OF assms(30,31,13,32-36)])
  obtain ls u q where u: "result_file (snd (process_event lib o1 pos ev ps)) = result_file ps @ lines_nl ls"
    "split_lines [] (lines_nl ls) = (ls, [])" "fold_res (handle_line c) ls t = Inr u" "restart_seq jrn (ck u) = Some q"
    "seq_name q = l_szBinLogName t" "ulPosition q = read_pos (ev_log_pos ev)" "\<not> bStartOfStmt u" "\<forall>ln \<in> set ls. length ln \<le> 512"
    using commit_event_read [OF assms(23,24) x assms(25-29) t(9)] by blast
  have sp: "split_lines [] (printed @ lines_nl ls) = (fst (split_lines [] printed) @ ls, [])"
    using t(4) u(2) by (simp add: split_lines_append split_beta)
  then have f: "fold_res (handle_line c) (fst (split_lines [] (printed @ lines_nl ls))) (la l) = Inr u"
    using t(5) u(3) by (simp add: fold_res_append)
  have "\<forall>ln \<in> set (fst (split_lines [] (printed @ lines_nl ls))). length ln + 2 * g_iLenBufferOut c \<le> g_iMaxBufferLine c"
    using t(11) u(8) assms(22) sp by fastforce
  then have "listened c l (printed @ lines_nl ls) u" using listened_lines [OF assms(21) _ _ _ f] sp assms(22) by simp
  then show ?thesis using t u by (intro exI [of _ st1] exI [of _ st2] exI [of _ printed] exI [of _ "lines_nl ls"]
      exI [of _ t] exI [of _ u] exI [of _ q]) (simp del: split_lines.simps)
qed

definition xid_lib :: evlib where
  "xid_lib = demo_lib\<lparr>ev_print := (\<lambda>e p. (False, [], demo_head @ CHR 0x09 # ''Xid = 7'' @ [NL] @ ''COMMIT;'' @ [NL], p))\<rparr>"

theorem transaction_captured_witness:
  "\<exists>st1 st2 commits t u q.
    print_table_map demo_row_env demo_head ''d'' ''t'' 7 False (write_table_map demo_header demo_table []) demo_row_state = Inr (False, st1)
    \<and> print_rows_events demo_row_env 7 2 [demo_sent_rows] st1 = Inr (False, st2)
    \<and> result_file (snd (process_event xid_lib demo_opts 40 (demo_event XID_EVENT 30 []) demo_ps)) = commits
    \<and> listened row_cfg row_ls (w_file st2) t \<and> listened row_cfg row_ls (w_file st2 @ commits) u
    \<and> rc_ulCountAllRow (g_RowCount t) = 2 \<and> szTableName t = ''`t`'' \<and> restart_seq ''j'' (ck u) = Some q \<and> ulPosition q = 100"
proof -
  let ?e = "demo_event XID_EVENT 30 []"
  have e: "ev_type ?e = XID_EVENT" "in_range demo_opts 40 ?e demo_ps" "ev_log_pos ?e = 100" "result_file demo_ps = []"
    "NL \<notin> set (delimiter (pinfo demo_ps))" "length (delimiter (pinfo demo_ps)) \<le> 400" "\<not> opt_flashback demo_opts"
    by (simp_all add: demo_event_def in_range_def demo_opts_def demo_ps_def demo_pinfo_def)
  have p: "unat (40 :: u64) < 2 ^ 63" "unat (ev_log_pos ?e) < 2 ^ 63" by (simp_all add: e(3))
  have d: "ps_delimiter st_print_event_info = '';''" by (simp add: st_print_event_info_def)
  have "Xid_print demo_text_env demo_header 7 None st_print_event_info =
      Inr (demo_head @ CHR 0x09 # ''Xid = 7'' @ [NL] @ ''COMMIT;'' @ [NL], st_print_event_info)"
    by (simp add: Xid_print_def demo_head_def d show_ulong_def show_dec.simps digit_chars demo_text_env_def)
  then have x: "prints_xid xid_lib ?e demo_text_env demo_header 7 st_print_event_info"
    by (auto simp: prints_xid_def xid_lib_def intro!: exI [of _ None])
  have o: "header_ok demo_header" "\<not> x_short_form demo_text_env" "0 \<le> (7 :: int)" "(7 :: int) < 2 ^ 64"
    "NL \<notin> set (ps_delimiter st_print_event_info)" "length (ps_delimiter st_print_event_info) \<le> 400"
    by (simp_all add: header_ok_def demo_header_def demo_text_env_def d)
  show ?thesis
    using transaction_captured [OF demo_table_ok demo_statement(1-4) demo_rows_ok(1) demo_statement(5) demo_decoding list.distinct(2) demo_statement(6-8)
        demo_head_line demo_statement(9-16) e(1,2) p e(5-7) x o, where triggers = False]
    unfolding demo_statement_names e(3,4)
    by (simp add: backquote_def read_pos_def long_max_def del: print_rows_events.simps) blast
qed

section \<open>Names that mislead the listener\<close>

text \<open>A point in the name of the schema moves a part of it into the name of the table.\<close>

lemma dotted_schema_misread:
  "on_query_found c ''### INSERT INTO `a.b`.`t`'' 16 s = Inr (row_operation c ''### INSERT INTO `a.b`.`t`'' ''b`.`t`'' ''`a''
     (s\<lparr>g_RowCount := (g_RowCount s)\<lparr>rc_ulCountAllRow := rc_ulCountAllRow (g_RowCount s) + 1\<rparr>,
        bQueryInProgress := False, bDataColumnInProgress := False\<rparr>))"
  by (rule into_names) simp_all

text \<open>Names are printed as they are: a line feed in the name of a table ends the line of the row, and the
  rest of the name is a line of its own, which may be a mark that moves the checkpoint.\<close>

lemma table_name_forges_mark:
  assumes "NL \<notin> set stamp" "take 9 stamp = ''*!COMMIT!''"
  shows "\<exists>l. split_lines [] (row_head backquote (tm\<lparr>tm_dbnam := ''d'', tm_tblnam := ''t'' @ NL # stamp\<rparr>) k @ [NL]) =
    ([row_head id (tm\<lparr>tm_dbnam := ''`d`'', tm_tblnam := ''`t''\<rparr>) k, l], []) \<and> moves_checkpoint l"
proof -
  let ?h = "row_head id (tm\<lparr>tm_dbnam := ''`d`'', tm_tblnam := ''`t''\<rparr>) k" and ?l = "stamp @ [CHR 0x60]"
  have e: "row_head backquote (tm\<lparr>tm_dbnam := ''d'', tm_tblnam := ''t'' @ NL # stamp\<rparr>) k @ [NL] = lines_nl [?h, ?l]"
    by (simp add: row_head_def table_text_def backquote_def)
  have nl: "NL \<notin> set ?h" by (cases k) (simp_all add: row_head_def table_text_def)
  have "9 \<le> length stamp" using assms(2) by (cases "9 \<le> length stamp") auto
  then have "strneq ?l ''*!COMMIT!'' 9" using assms(2) by (simp add: strneq_def)
  then have m: "moves_checkpoint ?l" by (simp add: moves_checkpoint_def)
  have "\<forall>l \<in> set [?h, ?l]. NL \<notin> set l" using nl assms(1) by simp
  from split_lines_lines_nl [OF this] show ?thesis unfolding e using m by blast
qed

end
