(* ===== verification/Log_Format.thy ===== *)
theory Log_Format
  imports Query_Events
begin

text \<open>
  The format of a log: its description (\<open>Format_description_log_event\<close>), which says how long the headers
  of its events are and whether they have checksums, as the reader reads it, as it is assumed before one
  has been read, and as the server writes it; the version of the server (\<open>do_server_version_split\<close>); the
  test of a checksum (\<open>event_checksum_test\<close>) and the writer that computes it (\<open>Log_event_writer\<close>).
  Encryption is left out. The checksum itself, \<open>my_checksum\<close>, is a function of the library \<open>mysys\<close>, which
  is not in the repository: a parameter, called with the value so far and more bytes.
\<close>

section \<open>The version of the server\<close>

record version_split =
  vs_mariadb :: bool
  vs_ver :: "nat list"

text \<open>What \<open>strtoul\<close> leaves of its string: all of it when there is no number.\<close>

definition strtoul_rest :: "string \<Rightarrow> string" where
  "strtoul_rest s =
     (let r = dropWhile is_space s; d = (if r \<noteq> [] \<and> (hd r = CHR ''-'' \<or> hd r = CHR ''+'') then tl r else r)
      in if d \<noteq> [] \<and> is_digit (hd d) then dropWhile is_digit d else s)"

text \<open>The loop over the three numbers: \<open>i\<close> of them are known, \<open>n\<close> are left.\<close>

fun split_numbers :: "nat \<Rightarrow> nat \<Rightarrow> string \<Rightarrow> nat list \<Rightarrow> nat list \<times> string" where
  "split_numbers i 0 p vs = (vs, p)"
| "split_numbers i (Suc n) p vs =
     (let number = unat (strtoul p); r = strtoul_rest p; dot = (r \<noteq> [] \<and> hd r = CHR ''.'')
      in if number < 256 \<and> (dot \<or> i \<noteq> 0) then split_numbers (Suc i) n (if dot then tl r else r) (vs @ [number])
         else ([0, 0, 0], p))"

definition do_server_version_split :: "string \<Rightarrow> version_split" where
  "do_server_version_split version =
     (let (ver, p) = split_numbers 0 3 version []
      in \<lparr> vs_mariadb = (strstr p ''MariaDB'' \<noteq> None \<or> strstr p ''-maria-'' \<noteq> None), vs_ver = ver \<rparr>)"

definition version_product :: "version_split \<Rightarrow> nat" where
  "version_product v = (vs_ver v ! 0 * 256 + vs_ver v ! 1) * 256 + vs_ver v ! 2"

definition is_version_before_checksum :: "version_split \<Rightarrow> bool" where
  "is_version_before_checksum v \<longleftrightarrow>
     version_product v < (if vs_mariadb v then (5 * 256 + 3) * 256 + 0 else (5 * 256 + 6) * 256 + 1)"

section \<open>Checksums\<close>

definition BINLOG_CHECKSUM_ALG_OFF :: int where "BINLOG_CHECKSUM_ALG_OFF = 0"
definition BINLOG_CHECKSUM_ALG_CRC32 :: int where "BINLOG_CHECKSUM_ALG_CRC32 = 1"
definition BINLOG_CHECKSUM_ALG_UNDEF :: int where "BINLOG_CHECKSUM_ALG_UNDEF = 255"

type_synonym checksum = "int \<Rightarrow> string \<Rightarrow> int"

text \<open>The algorithm that a description of a log names, from its bytes: a character, which is signed. The
  length is that of the whole event, at least five.\<close>

definition get_checksum_alg :: "string \<Rightarrow> nat \<Rightarrow> int res" where
  "get_checksum_alg b len =
     and_then (rd_bytes 50 b 21) (\<lambda>v.
     if is_version_before_checksum (do_server_version_split (cstr (take 49 v))) then Inr BINLOG_CHECKSUM_ALG_UNDEF
     else and_then (rd 1 b (len - 4 - 1)) (\<lambda>a. Inr (signed_of 8 a)))"

text \<open>The flag of a log in use is not part of the checksum.\<close>

definition clear_in_use :: "string \<Rightarrow> string" where
  "clear_in_use b = b[17 := byte_of (ubyte (b ! 17) - ubyte (b ! 17) mod 2)]"

text \<open>Whether the test fails.\<close>

definition event_checksum_test :: "checksum \<Rightarrow> string \<Rightarrow> nat \<Rightarrow> int \<Rightarrow> bool res" where
  "event_checksum_test my_checksum b event_len alg =
     (if alg = BINLOG_CHECKSUM_ALG_OFF \<or> alg = BINLOG_CHECKSUM_ALG_UNDEF then Inr False
      else and_then (rd 1 b 4) (\<lambda>t.
           and_then (if t = 15 then and_then (rd 2 b 17) (\<lambda>_. Inr (clear_in_use b)) else Inr b) (\<lambda>b'.
           and_then (rd 4 b (event_len - 4)) (\<lambda>incoming.
           and_then (rd_bytes (event_len - 4) b' 0) (\<lambda>bytes. Inr (my_checksum 0 bytes \<noteq> incoming))))))"

section \<open>Formats\<close>

text \<open>What reading the events of a log needs of its description: the version of the format, the lengths of
  headers with the checksum's byte behind them, the number of event types, and the checksum algorithm.\<close>

record log_format =
  fmt_version :: nat
  fmt_fd :: fd_event
  fmt_types :: nat
  fmt_alg :: int

text \<open>The lengths of the fixed headers of the event types from 1 on: those of old servers, and those of this
  one (171 types, most of them without a fixed header).\<close>

definition old_post_header_len :: "nat \<Rightarrow> nat list" where
  "old_post_header_len binlog_ver =
     [56, 11, 0, if binlog_ver = 1 then 0 else 8, 0, 18, 0, 4, 4, 4, 4, 18, 0, 0]"

definition LOG_EVENT_TYPES :: nat where "LOG_EVENT_TYPES = 171"

definition header_lengths :: "(nat \<times> nat) list" where
  "header_lengths =
     [(1, 56), (2, 13), (4, 8), (6, 18), (8, 4), (9, 4), (10, 4), (11, 4), (12, 18), (15, 57 + LOG_EVENT_TYPES), (17, 4), (18, 26),
      (19, 8), (23, 8), (24, 8), (25, 8), (26, 2), (30, 10), (31, 10), (32, 10), (161, 4), (162, 19), (163, 4), (165, 13),
      (166, 8), (167, 8), (168, 8), (169, 10), (170, 10), (171, 10)]"

definition post_header_len :: "nat list" where
  "post_header_len = map (\<lambda>t. case map_of header_lengths t of None \<Rightarrow> 0 | Some n \<Rightarrow> n) [1..<Suc LOG_EVENT_TYPES]"

text \<open>The format that is assumed for a version (the first constructor).\<close>

definition Format_description_new :: "nat \<Rightarrow> log_format option" where
  "Format_description_new binlog_ver =
     (if binlog_ver = 4 then
        Some \<lparr> fmt_version = 4, fmt_fd = \<lparr> fd_common_header_len = LOG_EVENT_HEADER_LEN, fd_post_header_len = post_header_len \<rparr>,
               fmt_types = LOG_EVENT_TYPES, fmt_alg = BINLOG_CHECKSUM_ALG_UNDEF \<rparr>
      else if binlog_ver = 1 \<or> binlog_ver = 3 then
        Some \<lparr> fmt_version = binlog_ver,
               fmt_fd = \<lparr> fd_common_header_len = (if binlog_ver = 1 then 13 else 19),
                          fd_post_header_len = old_post_header_len binlog_ver \<rparr>,
               fmt_types = 14, fmt_alg = BINLOG_CHECKSUM_ALG_UNDEF \<rparr>
      else None)"

section \<open>Reading a description\<close>

text \<open>\<open>Start_log_event_v3\<close>: the header, the version of the format, the server's version and the time. It is
  not valid without a version.\<close>

definition Start_log_event_v3 :: "nat \<Rightarrow> string \<Rightarrow> nat \<Rightarrow> (event_header \<times> nat \<times> string \<times> int) option res" where
  "Start_log_event_v3 bv b event_len =
     and_then (Log_event_header bv b) (\<lambda>h.
     if event_len < 19 + 56 then Inr None
     else and_then (rd 2 b 19) (\<lambda>v. and_then (rd_bytes 50 b 21) (\<lambda>sv. and_then (rd 4 b 71) (\<lambda>created.
          let s = cstr (take 49 sv) in Inr (if s = [] then None else Some (h, nat v, s, created))))))"

record format_event =
  fe_header :: event_header
  fe_server_version :: string
  fe_created :: int
  fe_format :: log_format

text \<open>The number of event types is a byte, from which the byte of the checksum algorithm is taken off; the
  length of the event is not tested before.\<close>

definition Format_description_log_event :: "nat \<Rightarrow> string \<Rightarrow> nat \<Rightarrow> format_event option res" where
  "Format_description_log_event bv b event_len =
     and_then (Start_log_event_v3 bv b event_len) (\<lambda>st. case st of
         None \<Rightarrow> Inr None
       | Some (h, v, sv, created) \<Rightarrow>
           and_then (rd 1 b 75) (\<lambda>chl.
           if chl < 13 then Inr None
           else let n = nat ((int event_len - (19 + 56 + 1)) mod 256); split = do_server_version_split sv
                in and_then (rd_bytes n b 76) (\<lambda>lens.
                   and_then (if is_version_before_checksum split then Inr (n, BINLOG_CHECKSUM_ALG_UNDEF)
                             else let types = nat ((int n - 1) mod 256)
                                  in if types < n then Inr (types, ubyte (lens ! types)) else Inl (Out_of_bounds ''post_header_len''))
                     (\<lambda>(types, alg).
                   Inr (if (if v = 1 then 13 else 19) \<le> chl \<and> vs_ver split \<noteq> [0, 0, 0]
                        then Some \<lparr> fe_header = h, fe_server_version = sv, fe_created = created,
                          fe_format = \<lparr> fmt_version = v,
                            fmt_fd = \<lparr> fd_common_header_len = nat chl, fd_post_header_len = bytes_of lens \<rparr>,
                            fmt_types = types, fmt_alg = alg \<rparr> \<rparr>
                        else None)))))"

section \<open>Writing events with checksums\<close>

text \<open>\<open>Log_event_writer\<close>: the bytes written, whether there are checksums, and the checksum so far.\<close>

record log_writer =
  wr_file :: string
  wr_checksum_len :: nat
  wr_crc :: int

definition writer_header :: "checksum \<Rightarrow> string \<Rightarrow> log_writer \<Rightarrow> log_writer" where
  "writer_header my_checksum hdr w =
     w\<lparr>wr_crc := (if wr_checksum_len w \<noteq> 0 then my_checksum 0 (clear_in_use hdr) else wr_crc w), wr_file := wr_file w @ hdr\<rparr>"

definition writer_data :: "checksum \<Rightarrow> string \<Rightarrow> log_writer \<Rightarrow> log_writer" where
  "writer_data my_checksum d w =
     w\<lparr>wr_crc := (if wr_checksum_len w \<noteq> 0 then my_checksum (wr_crc w) d else wr_crc w), wr_file := wr_file w @ d\<rparr>"

definition writer_footer :: "log_writer \<Rightarrow> log_writer" where
  "writer_footer w = w\<lparr>wr_file := wr_file w @ (if wr_checksum_len w \<noteq> 0 then le_store 4 (wr_crc w) else [])\<rparr>"

text \<open>An event: the header with the length of everything, the parts of its data, the checksum.\<close>

definition write_parts :: "checksum \<Rightarrow> bool \<Rightarrow> event_header \<Rightarrow> nat \<Rightarrow> string list \<Rightarrow> log_writer \<Rightarrow> log_writer" where
  "write_parts my_checksum need_checksum h type_code parts w =
     (let w0 = w\<lparr>wr_checksum_len := (if need_checksum then 4 else 0)\<rparr>;
          size = length (concat parts) + LOG_EVENT_HEADER_LEN + wr_checksum_len w0
      in writer_footer (fold (writer_data my_checksum) parts
           (writer_header my_checksum (write_header h type_code (int size)) w0)))"

text \<open>The description of a log always has a checksum; its last byte says whether the other events have one.\<close>

definition format_parts :: "string \<Rightarrow> int \<Rightarrow> int \<Rightarrow> string list" where
  "format_parts version created alg =
     [le_store 2 4 @ version @ replicate (50 - length version) NUL @ le_store 4 created @ [byte_of (int LOG_EVENT_HEADER_LEN)],
      chars_of post_header_len, [byte_of alg]]"

definition write_format_description ::
  "checksum \<Rightarrow> event_header \<Rightarrow> string \<Rightarrow> int \<Rightarrow> int \<Rightarrow> log_writer \<Rightarrow> log_writer" where
  "write_format_description my_checksum h version created alg w =
     write_parts my_checksum True h 15 (format_parts version created alg) w"

section \<open>What was written passes the test\<close>

text \<open>What the library documents of the checksum: it goes on from the value of the bytes before, and has 32 bits.\<close>

definition checksum_law :: "checksum \<Rightarrow> bool" where
  "checksum_law cs \<longleftrightarrow> (\<forall>c a b. cs (cs c a) b = cs c (a @ b)) \<and> (\<forall>c a. 0 \<le> cs c a \<and> cs c a < 2 ^ 32)"

definition event_footer :: "checksum \<Rightarrow> bool \<Rightarrow> event_header \<Rightarrow> nat \<Rightarrow> string \<Rightarrow> string" where
  "event_footer cs need_checksum h t data =
     (if need_checksum then le_store 4 (cs 0 (clear_in_use (write_header h t (int (length data + LOG_EVENT_HEADER_LEN + 4))) @ data)) else [])"

lemma writer_data_parts:
  assumes "checksum_law cs" "wr_crc w = cs 0 x" "wr_checksum_len w \<noteq> 0"
  shows "fold (writer_data cs) parts w = w\<lparr>wr_crc := cs 0 (x @ concat parts), wr_file := wr_file w @ concat parts\<rparr>"
  using assms(2,3)
proof (induction parts arbitrary: w x)
  case (Cons p parts)
  have "wr_crc (writer_data cs p w) = cs 0 (x @ p)" "wr_checksum_len (writer_data cs p w) \<noteq> 0"
    using Cons.prems assms(1) by (simp_all add: writer_data_def checksum_law_def)
  then show ?case using Cons.IH [of "writer_data cs p w" "x @ p"] Cons.prems by (simp add: writer_data_def)
qed simp

lemma writer_data_plain:
  "wr_checksum_len w = 0 \<Longrightarrow> fold (writer_data cs) parts w = w\<lparr>wr_file := wr_file w @ concat parts\<rparr>"
  by (induction parts arbitrary: w) (simp_all add: writer_data_def)

text \<open>An event is written as \<open>write_event\<close> says, with its checksum behind it.\<close>

lemma write_parts_event:
  assumes "checksum_law cs" "data = concat parts"
  shows "wr_file (write_parts cs need_checksum h t parts w) =
    wr_file w @ write_event h t (length data) data (event_footer cs need_checksum h t data)"
proof (cases need_checksum)
  case True
  let ?hdr = "write_header h t (int (length data + LOG_EVENT_HEADER_LEN + 4))"
  let ?w = "writer_header cs ?hdr (w\<lparr>wr_checksum_len := 4\<rparr>)"
  have "fold (writer_data cs) parts ?w = ?w\<lparr>wr_crc := cs 0 (clear_in_use ?hdr @ concat parts), wr_file := wr_file ?w @ concat parts\<rparr>"
    by (rule writer_data_parts [OF assms(1)]) (simp_all add: writer_header_def)
  then show ?thesis using True
    by (simp add: write_parts_def Let_def assms(2) writer_header_def writer_footer_def write_event_def event_footer_def)
next
  case False
  then show ?thesis
    by (simp add: write_parts_def Let_def assms(2) writer_header_def writer_footer_def write_event_def event_footer_def writer_data_plain)
qed

lemma length_event_footer [simp]: "length (event_footer cs need_checksum h t data) = (if need_checksum then 4 else 0)"
  by (simp add: event_footer_def)

lemma flags_byte: "write_header h t n ! 17 = byte_of (eh_flags h)"
  by (simp add: write_header_def nth_append eval_nat_numeral)

lemma clear_in_use_even: "even (eh_flags h) \<Longrightarrow> clear_in_use (write_header h t n) = write_header h t n"
proof -
  assume "even (eh_flags h)"
  then have "eh_flags h mod 256 mod 2 = 0" by presburger
  moreover have "byte_of (eh_flags h mod 256) = byte_of (eh_flags h)" by (simp add: byte_of_def)
  ultimately have "byte_of (ubyte (write_header h t n ! 17) - ubyte (write_header h t n ! 17) mod 2) = write_header h t n ! 17"
    by (simp add: flags_byte)
  then show ?thesis by (simp add: clear_in_use_def)
qed

lemma clear_in_use_append: "17 < length x \<Longrightarrow> clear_in_use (x @ y) = clear_in_use x @ y"
  by (simp add: clear_in_use_def list_update_append nth_append)

lemma length_clear_in_use [simp]: "length (clear_in_use b) = length b"
  by (simp add: clear_in_use_def)

lemma checksum_passes:
  assumes cs: "checksum_law cs" and b: "b = write_event h t (length data) data (event_footer cs True h t data)"
    and l: "length b < 2 ^ 32" and t: "t < 256" and e: "t = 15 \<or> even (eh_flags h)"
  shows "event_checksum_test cs b (length b) alg = Inr False"
proof -
  let ?f = "event_footer cs True h t data"
  let ?hdr = "write_header h t (int (length data + LOG_EVENT_HEADER_LEN + 4))"
  note ev = write_event_reads [OF b refl l t]
  have bs: "b = ?hdr @ data @ ?f" by (simp add: b write_event_def)
  have len: "length b - 4 = length (?hdr @ data)" using ev(4) by simp
  have r: "reads_as b (length b - 4) (?f @ [])" unfolding reads_as_def bs by (rule exI [of _ "?hdr @ data"]) simp
  have inc: "rd 4 b (length b - 4) = Inr (cs 0 (clear_in_use ?hdr @ data))"
    using rd_reads [OF r, of 4] cs by (simp add: event_footer_def checksum_law_def)
  have fl: "\<exists>x. rd 2 b 17 = Inr x" using ev(4) by (simp add: rd_def)
  have c15: "rd_bytes (length b - 4) (clear_in_use b) 0 = Inr (clear_in_use ?hdr @ data)"
    unfolding len using clear_in_use_append [of ?hdr "data @ ?f"] by (simp add: bs rd_bytes_def)
  have even: "rd_bytes (length b - 4) b 0 = Inr (clear_in_use ?hdr @ data)" if "even (eh_flags h)"
    unfolding len using clear_in_use_even [OF that] by (simp add: bs rd_bytes_def)
  show ?thesis using ev(1) inc fl c15 even e by (auto simp: event_checksum_test_def)
qed

section \<open>The description is read back\<close>

text \<open>A version of a server that writes checksums.\<close>

definition version_ok :: "string \<Rightarrow> bool" where
  "version_ok version \<longleftrightarrow> version \<noteq> [] \<and> NUL \<notin> set version \<and> length version < 50
     \<and> \<not> is_version_before_checksum (do_server_version_split version)"

lemma length_post_header_len [simp]: "length post_header_len = 171"
  by (simp add: post_header_len_def LOG_EVENT_TYPES_def)

lemma post_header_bytes: "\<forall>x \<in> set post_header_len. x < 256"
proof -
  have "\<forall>x \<in> snd ` set header_lengths. x < 256" by (simp add: header_lengths_def LOG_EVENT_TYPES_def)
  then show ?thesis by (auto simp: post_header_len_def split: option.splits dest!: map_of_SomeD)
qed

lemma version_not_zero: "\<not> is_version_before_checksum v \<Longrightarrow> vs_ver v \<noteq> [0, 0, 0]"
  by (auto simp: is_version_before_checksum_def version_product_def split: if_splits)

lemma cstr_padded: "NUL \<notin> set v \<Longrightarrow> cstr (v @ replicate n NUL) = v"
  unfolding cstr_def by (subst takeWhile_append2) (auto simp: takeWhile_eq_Nil_iff)

lemma format_read_back:
  assumes "checksum_law cs" and v: "version_ok version" and h: "header_ok h" and c: "0 \<le> created" "created < 2 ^ 32"
    and a: "0 \<le> alg" "alg < 128" and bv: "bv \<noteq> 1"
    and b: "b = write_event h 15 (length data) data footer" and data: "data = concat (format_parts version created alg)"
    and f: "length footer = 4"
  shows "length b = 252" "get_checksum_alg b (length b) = Inr alg"
    "Format_description_log_event bv b (length b - 4) = Inr (Some \<lparr> fe_header = h, fe_server_version = version, fe_created = created,
       fe_format = \<lparr> fmt_version = 4, fmt_fd = \<lparr> fd_common_header_len = 19, fd_post_header_len = post_header_len @ [nat alg] \<rparr>,
         fmt_types = 171, fmt_alg = alg \<rparr> \<rparr>)"
proof -
  note ok = v [unfolded version_ok_def]
  let ?v = "version @ replicate (50 - length version) NUL"
  have d: "data = le_store 2 4 @ ?v @ le_store 4 created @ [byte_of 19] @ chars_of post_header_len @ [byte_of alg]"
    by (simp add: data format_parts_def LOG_EVENT_HEADER_LEN_def)
  have ld: "length data = 229" using ok by (simp add: d)
  have l: "length b < 2 ^ 32" by (simp add: b write_event_def ld f)
  note ev = write_event_reads [OF b refl l]
  show lb: "length b = 252" using ev(4) ld f by simp
  have r19: "reads_as b 19 (le_store 2 4 @ ?v @ le_store 4 created @ [byte_of 19] @ (chars_of post_header_len @ [byte_of alg]) @ footer)"
    using ev(3) by (simp add: d)
  have r21: "reads_as b 21 (?v @ le_store 4 created @ [byte_of 19] @ (chars_of post_header_len @ [byte_of alg]) @ footer)"
    using reads_as_skip [OF r19, of 21] by simp
  have r71: "reads_as b 71 (le_store 4 created @ [byte_of 19] @ (chars_of post_header_len @ [byte_of alg]) @ footer)"
    using reads_as_skip [OF r21, of 71] ok by simp
  have r75: "reads_as b 75 ([byte_of 19] @ (chars_of post_header_len @ [byte_of alg]) @ footer)"
    using reads_as_skip [OF r71, of 75] by simp
  have r76: "reads_as b 76 ((chars_of post_header_len @ [byte_of alg]) @ footer)" using reads_as_skip [OF r75, of 76] by simp
  have r247: "reads_as b 247 ([byte_of alg] @ footer)"
    using reads_as_skip [of b 76 "chars_of post_header_len" _ 247] r76 by simp
  have n: "rd 2 b 19 = Inr 4" "rd 4 b 71 = Inr created" "rd 1 b 75 = Inr 19" "rd 1 b 247 = Inr alg"
    using rd_reads [OF r19, of 2] rd_reads [OF r71, of 4] rd_reads [OF r75, of 1] rd_reads [OF r247, of 1] c a by simp_all
  have sv: "rd_bytes 50 b 21 = Inr ?v" using rd_bytes_reads [OF r21] ok by simp
  have "take 49 ?v = version @ replicate (49 - length version) NUL" using ok by (simp add: min_def)
  then have cv: "cstr (take 49 ?v) = version" using cstr_padded [of version] ok by simp
  have pl: "rd_bytes 172 b 76 = Inr (chars_of post_header_len @ [byte_of alg])" using rd_bytes_reads [OF r76] by simp
  have sa: "signed_of 8 alg = alg" using a by (simp add: signed_of_def)
  show "get_checksum_alg b (length b) = Inr alg" using sv cv ok n sa lb by (simp add: get_checksum_alg_def)
  have hd: "Log_event_header bv b = Inr h" by (rule header_read [OF b h bv]) simp
  have bo: "bytes_of (chars_of post_header_len @ [byte_of alg]) = post_header_len @ [nat alg]"
    using bytes_of_chars [OF post_header_bytes] a by (simp add: bytes_of_def byte_of_def)
  have last: "ubyte ((chars_of post_header_len @ [byte_of alg]) ! 171) = alg" using a by (simp add: nth_append)
  show "Format_description_log_event bv b (length b - 4) = Inr (Some \<lparr> fe_header = h, fe_server_version = version, fe_created = created,
       fe_format = \<lparr> fmt_version = 4, fmt_fd = \<lparr> fd_common_header_len = 19, fd_post_header_len = post_header_len @ [nat alg] \<rparr>,
         fmt_types = 171, fmt_alg = alg \<rparr> \<rparr>)"
    using hd n sv cv ok pl lb bo last version_not_zero
    by (simp add: Format_description_log_event_def Start_log_event_v3_def Let_def)
qed

end
