(* ===== verification/Small_Events.thy ===== *)
theory Small_Events
  imports Event_Text Log_Format
begin

text \<open>
  The events of a log that are neither queries nor rows: rotations, commits, the values of automatic
  columns, random seeds and user variables, positions of transaction ids, the blocks of files that a
  statement loads, and some that only inform (\<open>sql/log_event.cc\<close>). Their constructors read them from
  bytes, their \<open>write\<close> functions are those of the server, and the \<open>print\<close> functions not yet in
  \<open>Event_Text\<close> follow. A constructor gives \<open>None\<close> for an event that \<open>is_valid\<close> rejects. Some of
  them read without a test that the event is long enough: that is \<open>Out_of_bounds ''buf''\<close>.
\<close>

section \<open>Rotations, commits, numbers\<close>

text \<open>The header of a rotation is always the short one; a name longer than 511 bytes is cut.\<close>

definition Rotate_log_event :: "nat \<Rightarrow> fd_event \<Rightarrow> string \<Rightarrow> nat \<Rightarrow> (event_header \<times> string \<times> int) option res" where
  "Rotate_log_event bv fd b event_len =
     and_then (Log_event_header bv b) (\<lambda>h.
     let phl = fd_post_header_len fd ! 3
     in if event_len < 19 + phl then Inr None
        else and_then (if phl \<noteq> 0 then rd 8 b 19 else Inr 4) (\<lambda>pos.
             and_then (rd_bytes (min (event_len - (19 + phl)) 511) b (19 + phl)) (\<lambda>ident. Inr (Some (h, ident, pos)))))"

definition Intvar_log_event :: "nat \<Rightarrow> fd_event \<Rightarrow> string \<Rightarrow> (event_header \<times> nat \<times> int) res" where
  "Intvar_log_event bv fd b =
     and_then (Log_event_header bv b) (\<lambda>h. let p = fd_common_header_len fd + fd_post_header_len fd ! 4
     in and_then (rd 1 b p) (\<lambda>type. and_then (rd 8 b (p + 1)) (\<lambda>val. Inr (h, nat type, val))))"

definition Rand_log_event :: "nat \<Rightarrow> fd_event \<Rightarrow> string \<Rightarrow> (event_header \<times> int \<times> int) res" where
  "Rand_log_event bv fd b =
     and_then (Log_event_header bv b) (\<lambda>h. let p = fd_common_header_len fd + fd_post_header_len fd ! 12
     in and_then (rd 8 b p) (\<lambda>seed1. and_then (rd 8 b (p + 8)) (\<lambda>seed2. Inr (h, seed1, seed2))))"

definition Xid_log_event :: "nat \<Rightarrow> fd_event \<Rightarrow> string \<Rightarrow> (event_header \<times> int) res" where
  "Xid_log_event bv fd b =
     and_then (Log_event_header bv b) (\<lambda>h. let p = fd_common_header_len fd + fd_post_header_len fd ! 15
     in and_then (rd 8 b p) (\<lambda>xid. Inr (h, xid)))"

definition rotate_data :: "string \<Rightarrow> int \<Rightarrow> string" where "rotate_data ident pos = le_store 8 pos @ ident"
definition intvar_data :: "nat \<Rightarrow> int \<Rightarrow> string" where "intvar_data type val = byte_of (int type) # le_store 8 val"
definition rand_data :: "int \<Rightarrow> int \<Rightarrow> string" where "rand_data seed1 seed2 = le_store 8 seed1 @ le_store 8 seed2"
definition xid_data :: "int \<Rightarrow> string" where "xid_data xid = le_store 8 xid"

section \<open>User variables\<close>

record user_value =
  uv_type :: int
  uv_charset :: int
  uv_val :: string
  uv_flags :: int

text \<open>The name, and the value unless it is null. The sizes are 32 bits wide; a name or a value that would
  end behind the address space is \<open>Out_of_bounds\<close>. Bytes behind the value are taken for its flags, also
  when they are the checksum of the event, whose written length counts it.\<close>

definition read_user_value :: "string \<Rightarrow> nat \<Rightarrow> nat \<Rightarrow> user_value option res" where
  "read_user_value b event_len q =
     and_then (rd 1 b (q + 1)) (\<lambda>type. and_then (rd 4 b (q + 2)) (\<lambda>charset. and_then (rd 4 b (q + 6)) (\<lambda>val_len.
     let bytes_read = int q + 10 + val_len
     in if 2 ^ 32 \<le> bytes_read then Inl (Out_of_bounds ''val'')
        else if int event_len < bytes_read then Inr None
        else and_then (rd_bytes (nat val_len) b (q + 10)) (\<lambda>val. and_then (rd 4 b 9) (\<lambda>data_written.
             and_then (if data_written \<noteq> bytes_read then rd 1 b (q + 10 + nat val_len) else Inr 0) (\<lambda>flags.
             Inr (Some \<lparr> uv_type = signed_of 8 type, uv_charset = charset, uv_val = val, uv_flags = flags \<rparr>)))))))"

definition User_var_log_event ::
  "nat \<Rightarrow> fd_event \<Rightarrow> string \<Rightarrow> nat \<Rightarrow> (event_header \<times> string \<times> user_value option) option res" where
  "User_var_log_event bv fd b event_len =
     and_then (Log_event_header bv b) (\<lambda>h. let p = fd_common_header_len fd + fd_post_header_len fd ! 13
     in and_then (rd 4 b p) (\<lambda>name_len. let q = p + 4 + nat name_len
        in if int event_len < uint_of (int q) then Inr None
           else if 2 ^ 32 \<le> int q then Inl (Out_of_bounds ''name'')
           else if event_len < q + 1 then Inr None
           else and_then (rd_bytes (nat name_len) b (p + 4)) (\<lambda>name. and_then (rd 1 b q) (\<lambda>is_null.
                if is_null \<noteq> 0 then Inr (Some (h, name, None))
                else if event_len < q + 10 then Inr None
                else and_then (read_user_value b event_len q) (\<lambda>v. Inr (map_option (\<lambda>v. (h, name, Some v)) v))))))"

text \<open>The server writes the flags of integers only (type 2).\<close>

definition user_var_data :: "string \<Rightarrow> user_value option \<Rightarrow> string" where
  "user_var_data name value =
     le_store 4 (int (length name)) @ name
     @ (case value of
          None \<Rightarrow> [byte_of 1]
        | Some v \<Rightarrow> byte_of 0 # byte_of (uv_type v) # le_store 4 (uv_charset v) @ le_store 4 (int (length (uv_val v))) @ uv_val v
            @ (if uv_type v = 2 then [byte_of (uv_flags v)] else []))"

section \<open>Positions in the log\<close>

definition Binlog_checkpoint_log_event :: "nat \<Rightarrow> fd_event \<Rightarrow> string \<Rightarrow> nat \<Rightarrow> (event_header \<times> string) option res" where
  "Binlog_checkpoint_log_event bv fd b event_len =
     and_then (Log_event_header bv b) (\<lambda>h. let hs = fd_common_header_len fd; phl = fd_post_header_len fd ! 160
     in if event_len < hs + phl \<or> phl < 4 then Inr None
        else and_then (rd 4 b hs) (\<lambda>len.
             if int (event_len - (hs + phl)) < len then Inr None
             else and_then (rd_bytes (nat len) b (hs + phl)) (\<lambda>name. Inr (Some (h, name)))))"

fun read_gtids :: "nat \<Rightarrow> string \<Rightarrow> nat \<Rightarrow> (int \<times> int \<times> int) list res" where
  "read_gtids 0 b p = Inr []"
| "read_gtids (Suc n) b p =
     and_then (rd 4 b p) (\<lambda>domain. and_then (rd 4 b (p + 4)) (\<lambda>server. and_then (rd 8 b (p + 8)) (\<lambda>seq_no.
     and_then (read_gtids n b (p + 16)) (\<lambda>gs. Inr ((domain, server, seq_no) # gs)))))"

text \<open>The upper four bits of the count are flags.\<close>

definition Gtid_list_log_event ::
  "nat \<Rightarrow> fd_event \<Rightarrow> string \<Rightarrow> nat \<Rightarrow> (event_header \<times> int \<times> (int \<times> int \<times> int) list) option res" where
  "Gtid_list_log_event bv fd b event_len =
     and_then (Log_event_header bv b) (\<lambda>h. let hs = fd_common_header_len fd; phl = fd_post_header_len fd ! 162
     in if event_len < hs + phl \<or> phl < 4 then Inr None
        else and_then (rd 4 b hs) (\<lambda>val. let count = val mod 2 ^ 28
             in if int (event_len - (hs + phl)) < count * 16 then Inr None
                else and_then (read_gtids (nat count) b (hs + 4)) (\<lambda>gs. Inr (Some (h, val - count, gs)))))"

definition checkpoint_data :: "string \<Rightarrow> string" where
  "checkpoint_data name = le_store 4 (int (length name)) @ name"

definition gtid_text :: "int \<times> int \<times> int \<Rightarrow> string" where
  "gtid_text = (\<lambda>(domain, server, seq_no). le_store 4 domain @ le_store 4 server @ le_store 8 seq_no)"

text \<open>An empty list is padded by two bytes.\<close>

definition gtid_list_data :: "int \<Rightarrow> (int \<times> int \<times> int) list \<Rightarrow> string" where
  "gtid_list_data flags gs =
     le_store 4 (int (length gs) + flags) @ concat (map gtid_text gs) @ (if gs = [] then [NUL, NUL] else [])"

section \<open>Files, statements, incidents\<close>

definition Append_block_log_event :: "nat \<Rightarrow> fd_event \<Rightarrow> string \<Rightarrow> nat \<Rightarrow> (event_header \<times> int \<times> string) option res" where
  "Append_block_log_event bv fd b len =
     and_then (Log_event_header bv b) (\<lambda>h. let chl = fd_common_header_len fd; total = chl + fd_post_header_len fd ! 8
     in if len < total then Inr None
        else and_then (rd 4 b chl) (\<lambda>file_id. and_then (rd_bytes (len - total) b total) (\<lambda>block. Inr (Some (h, file_id, block)))))"

text \<open>A file id of 0 makes these two invalid.\<close>

definition read_file_id :: "nat \<Rightarrow> nat \<Rightarrow> fd_event \<Rightarrow> string \<Rightarrow> nat \<Rightarrow> (event_header \<times> int) option res" where
  "read_file_id type bv fd b len =
     and_then (Log_event_header bv b) (\<lambda>h. let chl = fd_common_header_len fd
     in if len < chl + fd_post_header_len fd ! (type - 1) then Inr None
        else and_then (rd 4 b chl) (\<lambda>file_id. Inr (if file_id = 0 then None else Some (h, file_id))))"

definition Delete_file_log_event :: "nat \<Rightarrow> fd_event \<Rightarrow> string \<Rightarrow> nat \<Rightarrow> (event_header \<times> int) option res" where
  "Delete_file_log_event = read_file_id 11"

definition Execute_load_log_event :: "nat \<Rightarrow> fd_event \<Rightarrow> string \<Rightarrow> nat \<Rightarrow> (event_header \<times> int) option res" where
  "Execute_load_log_event = read_file_id 10"

record load_query =
  lq_query :: query_event
  lq_file_id :: int
  lq_fn_pos_start :: nat
  lq_fn_pos_end :: nat
  lq_dup_handling :: int

definition Execute_load_query_log_event :: "nat \<Rightarrow> fd_event \<Rightarrow> string \<Rightarrow> nat \<Rightarrow> load_query option res" where
  "Execute_load_query_log_event bv fd b event_len =
     and_then (Query_log_event bv fd b event_len 18) (\<lambda>r. case r of
         None \<Rightarrow> Inr None
       | Some q \<Rightarrow>
           let p = fd_common_header_len fd; q_len = int (length (qe_query q))
           in and_then (rd 4 b (p + 17)) (\<lambda>fn_start. and_then (rd 4 b (p + 21)) (\<lambda>fn_end. and_then (rd 1 b (p + 25)) (\<lambda>d.
              let dup = signed_of 8 d
              in if q_len < fn_start \<or> q_len < fn_end \<or> 2 < dup then Inr None
                 else and_then (rd 4 b (p + 13)) (\<lambda>file_id.
                      Inr (if file_id = 0 then None
                           else Some \<lparr> lq_query = q, lq_file_id = file_id, lq_fn_pos_start = nat fn_start,
                                       lq_fn_pos_end = nat fn_end, lq_dup_handling = dup \<rparr>))))))"

text \<open>The text of an annotation is everything behind the header; an empty one is invalid.\<close>

definition Annotate_rows_log_event :: "nat \<Rightarrow> fd_event \<Rightarrow> string \<Rightarrow> nat \<Rightarrow> (event_header \<times> string) option res" where
  "Annotate_rows_log_event bv fd b event_len =
     and_then (Log_event_header bv b) (\<lambda>h. let chl = fd_common_header_len fd; len = nat (uint_of (int event_len - int chl))
     in and_then (rd_bytes len b chl) (\<lambda>query. Inr (if len = 0 then None else Some (h, query))))"

text \<open>The only incident is the loss of events (1); its message has a length byte.\<close>

definition Incident_log_event :: "nat \<Rightarrow> fd_event \<Rightarrow> string \<Rightarrow> nat \<Rightarrow> (event_header \<times> string) option res" where
  "Incident_log_event bv fd b event_len =
     and_then (Log_event_header bv b) (\<lambda>h. let chl = fd_common_header_len fd; p = chl + fd_post_header_len fd ! 25
     in and_then (rd 2 b chl) (\<lambda>n.
        if n \<noteq> 1 then Inr None
        else and_then (rd 1 b p) (\<lambda>len.
             if event_len \<le> p + nat len then Inr None
             else and_then (rd_bytes (nat len) b (p + 1)) (\<lambda>m. Inr (Some (h, cstr m))))))"

definition Start_encryption_log_event :: "nat \<Rightarrow> string \<Rightarrow> nat \<Rightarrow> (event_header \<times> int \<times> string) option res" where
  "Start_encryption_log_event bv b event_len =
     and_then (Log_event_header bv b) (\<lambda>h.
     if event_len \<noteq> 19 + (1 + 4 + 12) then Inr None
     else and_then (rd 1 b 19) (\<lambda>scheme. and_then (rd 4 b 20) (\<lambda>key_version. and_then (rd_bytes 12 b 24) (\<lambda>nonce.
          Inr (if scheme = 1 then Some (h, key_version, nonce) else None)))))"

definition append_block_data :: "int \<Rightarrow> string \<Rightarrow> string" where
  "append_block_data file_id block = le_store 4 file_id @ block"

definition incident_data :: "string \<Rightarrow> string" where
  "incident_data message = le_store 2 1 @ byte_of (int (length message)) # message"

section \<open>Printing\<close>

text \<open>A text behind the line of the event, unless the short form is wanted.\<close>

definition event_note :: "text_env \<Rightarrow> event_header \<Rightarrow> int option \<Rightarrow> string \<Rightarrow> print_step" where
  "event_note env h crc t s = Inr (if x_short_form env then [] else Log_event_print_header env h crc @ t, s)"

text \<open>The texts of numbers that are not integers, and the names of a collation and its character set. The
  types are \<open>Item_result\<close>: strings (0), floating point numbers (1), integers (2), decimals (4); nothing is
  assigned for others.\<close>

record user_env =
  ue_number :: "int \<Rightarrow> string \<Rightarrow> string"
  ue_charset :: "int \<Rightarrow> (string \<times> string) option"

definition user_value_text :: "user_env \<Rightarrow> user_value \<Rightarrow> string option res" where
  "user_value_text ue v =
     (if uv_type v = 1 \<or> uv_type v = 4 then Inr (Some (ue_number ue (uv_type v) (uv_val v)))
      else if uv_type v = 2 then
        and_then (rd 8 (uv_val v) 0) (\<lambda>n. Inr (Some (if odd (uv_flags v) then show_ulong n else llstr n)))
      else if uv_type v = 0 then Inr (Some (case ue_charset ue (uv_charset v) of
             None \<Rightarrow> ''???''
           | Some (csname, name) \<Rightarrow>
               CHR ''_'' # csname @ '' '' @ str_to_hex (uv_val v) @ '' COLLATE '' @ CHR 0x60 # name @ [CHR 0x60]))
      else Inr None)"

definition User_var_print :: "text_env \<Rightarrow> user_env \<Rightarrow> event_header \<Rightarrow> string \<Rightarrow> user_value option \<Rightarrow> int option \<Rightarrow> print_step" where
  "User_var_print env ue h name value crc =
     print_seq [event_note env h crc (CHR 0x09 # ''User_var'' @ [NL]),
       \<lambda>s. and_then (case value of None \<Rightarrow> Inr (Some ''NULL'') | Some v \<Rightarrow> user_value_text ue v) (\<lambda>t.
           Inr (''SET @'' @ x_quote env name
             @ (case t of None \<Rightarrow> [] | Some t \<Rightarrow> '':='' @ t @ ps_delimiter s @ [NL]), s))]"

definition Binlog_checkpoint_print :: "text_env \<Rightarrow> event_header \<Rightarrow> string \<Rightarrow> int option \<Rightarrow> print_step" where
  "Binlog_checkpoint_print env h name crc = event_note env h crc (CHR 0x09 # ''Binlog checkpoint '' @ name @ [NL])"

fun gtids_text :: "(int \<times> int \<times> int) list \<Rightarrow> string" where
  "gtids_text [] = []"
| "gtids_text ((d, sv, n) # gs) =
     show_ulong d @ ''-'' @ show_ulong sv @ ''-'' @ show_ulong n @ (if gs = [] then [] else CHR '','' # NL # ''# '' @ gtids_text gs)"

definition Gtid_list_print :: "text_env \<Rightarrow> event_header \<Rightarrow> (int \<times> int \<times> int) list \<Rightarrow> int option \<Rightarrow> print_step" where
  "Gtid_list_print env h gs crc = event_note env h crc (CHR 0x09 # ''Gtid list ['' @ gtids_text gs @ '']'' @ [NL])"

definition Incident_print :: "text_env \<Rightarrow> event_header \<Rightarrow> int option \<Rightarrow> print_step" where
  "Incident_print env h crc =
     event_note env h crc (NL # ''# Incident: LOST_EVENTS'' @ NL # ''RELOAD DATABASE; # Shall generate syntax error'' @ [NL])"

definition Append_block_print :: "text_env \<Rightarrow> event_header \<Rightarrow> string \<Rightarrow> int \<Rightarrow> string \<Rightarrow> int option \<Rightarrow> print_step" where
  "Append_block_print env h name file_id block crc =
     event_note env h crc (NL # CHR ''#'' # name @ '': file_id: '' @ show_int (signed_of 32 file_id) @ ''  block_len: ''
       @ show_dec (length block) @ [NL])"

definition Delete_file_print :: "text_env \<Rightarrow> event_header \<Rightarrow> int \<Rightarrow> int option \<Rightarrow> print_step" where
  "Delete_file_print env h file_id crc = event_note env h crc (NL # ''#Delete_file: file_id='' @ show_ulong file_id @ [NL])"

definition Execute_load_print :: "text_env \<Rightarrow> event_header \<Rightarrow> int \<Rightarrow> int option \<Rightarrow> print_step" where
  "Execute_load_print env h file_id crc =
     event_note env h crc (NL # ''#Exec_load: file_id='' @ show_int (signed_of 32 file_id) @ [NL])"

definition Ignorable_print :: "text_env \<Rightarrow> event_header \<Rightarrow> nat \<Rightarrow> string \<Rightarrow> int option \<Rightarrow> print_step" where
  "Ignorable_print env h number description crc =
     event_note env h crc (CHR 0x09 # ''Ignorable'' @ NL # ''# Ignorable event type '' @ show_dec number @ '' ('' @ description @ '')'' @ [NL])"

definition Start_encryption_print :: "int \<Rightarrow> string \<Rightarrow> print_step" where
  "Start_encryption_print key_version nonce s =
     Inr (''# Encryption scheme: 1, key_version: '' @ show_ulong key_version @ '', nonce: '' @ concat (map hex2 nonce) @ NL
          # ''# The rest of the binlog is encrypted!'' @ [NL], s)"

text \<open>A string literal.\<close>

definition pretty_char :: "char \<Rightarrow> string" where
  "pretty_char c =
     (if c = NL then BACKSLASH # ''n'' else if c = CHR 0x0D then BACKSLASH # ''r'' else if c = BACKSLASH then [BACKSLASH, BACKSLASH]
      else if c = CHR 0x08 then BACKSLASH # ''b'' else if c = CHR 0x09 then BACKSLASH # ''t''
      else if c = QUOTE then [BACKSLASH, QUOTE] else if c = NUL then BACKSLASH # ''0'' else [c])"

definition pretty_print_str :: "string \<Rightarrow> string" where
  "pretty_print_str s = QUOTE # concat (map pretty_char s) @ [QUOTE]"

text \<open>The statement that loads a file, with the name of the temporary file in its place if there is one.\<close>

definition Execute_load_query_print :: "text_env \<Rightarrow> load_query \<Rightarrow> string option \<Rightarrow> int option \<Rightarrow> print_step" where
  "Execute_load_query_print env l local_fname crc =
     (let q = qe_query (lq_query l)
      in print_seq [print_query_header env (lq_query l) crc,
           \<lambda>s. Inr ((case local_fname of
                       Some f \<Rightarrow> take (lq_fn_pos_start l) q @ '' LOCAL INFILE '' @ pretty_print_str f
                         @ (if lq_dup_handling l = 2 then '' REPLACE'' else []) @ '' INTO'' @ drop (lq_fn_pos_end l) q
                     | None \<Rightarrow> q) @ NL # ps_delimiter s @ [NL], s),
           \<lambda>s. Inr (if x_short_form env then [] else ''# file_id: '' @ show_int (signed_of 32 (lq_file_id l)) @ '' '' @ [NL], s)])"

text \<open>The lines of an annotation. The counter of characters, here what is left of it, counts a line end
  twice: as the end of a line, and as what is skipped before the next one.\<close>

definition line_end :: "char \<Rightarrow> bool" where
  "line_end c \<longleftrightarrow> c = CHR 0x0D \<or> c = NL"

fun skip_line_ends :: "nat \<Rightarrow> string \<Rightarrow> (nat \<times> char \<times> string) option" where
  "skip_line_ends (Suc n) (c # cs) = (if line_end c then skip_line_ends n cs else Some (n, c, cs))"
| "skip_line_ends _ _ = None"

fun take_line :: "nat \<Rightarrow> string \<Rightarrow> string \<times> nat \<times> string" where
  "take_line (Suc n) (c # cs) = (if line_end c then ([], n, c # cs) else (let (l, m, r) = take_line n cs in (c # l, m, r)))"
| "take_line n cs = ([], n - 1, cs)"

lemma skip_line_ends_less: "skip_line_ends n s = Some (m, c, cs) \<Longrightarrow> m < n"
  by (induction n s rule: skip_line_ends.induct) (auto split: if_splits)

lemma take_line_less: "take_line n s = (l, m, r) \<Longrightarrow> m \<le> n"
  by (induction n s arbitrary: l m r rule: take_line.induct) (fastforce split: if_splits prod.splits)+

function annotate_lines :: "nat \<Rightarrow> string \<Rightarrow> string" where
  "annotate_lines n s = (case skip_line_ends n s of
       None \<Rightarrow> []
     | Some (m, c, cs) \<Rightarrow> let (l, k, r) = take_line m cs in ''#Q> '' @ c # l @ NL # annotate_lines k r)"
  by pat_completeness auto
termination
  by (relation "measure fst") (auto dest!: skip_line_ends_less take_line_less [OF sym])

declare annotate_lines.simps [simp del]

definition Annotate_rows_print :: "text_env \<Rightarrow> event_header \<Rightarrow> string \<Rightarrow> int option \<Rightarrow> print_step" where
  "Annotate_rows_print env h query crc s =
     Inr ((if x_short_form env then ''# Annotate_rows:'' @ [NL]
           else Log_event_print_header env h crc @ CHR 0x09 # ''Annotate_rows:'' @ [NL]) @ annotate_lines (length query) query, s)"

text \<open>A text of several lines loses as many characters at its end as it has line ends.\<close>

lemma annotation_shortened: "annotate_lines 4 (''a'' @ NL # ''bc'') = ''#Q> a'' @ NL # ''#Q> b'' @ [NL]"
  by (simp add: annotate_lines.simps line_end_def eval_nat_numeral)

end
