(* ===== verification/Log_Decode.thy ===== *)
theory Log_Decode
  imports Small_Events Session_Replay Row_Log
begin

text \<open>
  From the bytes of a log to its events: \<open>Log_event::read_log_event\<close>, once for the bytes of one event (the
  test of the checksum, the dispatch by type, the test whether the event is valid) and once for the next
  event of a file; and the loop that reads a file, in which a description of the format replaces the one
  before (\<open>dump_local_log_entries\<close>). Encrypted logs are read up to the event that begins the encryption.
  The classes of events that \<open>Small_Events\<close>, \<open>Query_Events\<close>, \<open>Event_Text\<close> and \<open>Row_Events\<close> do not have
  (old load events, old and compressed rows, compressed queries) are a parameter.
\<close>

section \<open>Events\<close>

datatype any_event =
    Query_logged query_event
  | Gtid_logged gtid_event
  | Xid_logged event_header int
  | Intvar_logged event_header nat int
  | Rand_logged event_header int int
  | User_var_logged event_header string "user_value option"
  | Rotate_logged event_header string int
  | Stop_logged event_header
  | Format_logged format_event
  | Start_logged event_header nat string int
  | Checkpoint_logged event_header string
  | Gtid_list_logged event_header int "(int \<times> int \<times> int) list"
  | Annotate_logged event_header string
  | Incident_logged event_header string
  | Append_block_logged event_header int string
  | Begin_load_logged event_header int string
  | Delete_file_logged event_header int
  | Exec_load_logged event_header int
  | Load_query_logged load_query
  | Encryption_logged event_header int string
  | Map_logged event_header table_map
  | Rows_logged event_header nat int rows_event
  | Ignorable_logged event_header nat
  | Unknown_logged "event_header option"
  | Other_logged nat string

text \<open>The options that matter (\<open>verify-binlog-checksum\<close>, \<open>force-read\<close>), the checksum, the address that rows are
  copied to, the two sizes that bound an event in a file, and whether the classes that are not modelled find an
  event valid.\<close>

record decode_env =
  d_checksum :: checksum
  d_verify :: bool
  d_force :: bool
  d_addr :: int
  d_max_allowed_packet :: nat
  d_rows_event_max_size :: nat
  d_others :: "log_format \<Rightarrow> nat \<Rightarrow> string \<Rightarrow> nat \<Rightarrow> bool res"

definition other_types :: "nat list" where
  "other_types = [6, 8, 12, 20, 21, 22, 165, 166, 167, 168, 169, 170, 171]"

definition ignored_types :: "nat list" where
  "ignored_types = [33, 34, 35, 36, 37, 38]"

text \<open>An event of no value is not valid.\<close>

abbreviation as_event :: "('a \<Rightarrow> any_event) \<Rightarrow> 'a option res \<Rightarrow> any_event option res" where
  "as_event f m \<equiv> and_then m (\<lambda>r. Inr (map_option f r))"

definition read_table_map :: "nat \<Rightarrow> fd_event \<Rightarrow> string \<Rightarrow> nat \<Rightarrow> any_event option res" where
  "read_table_map bv fd b len =
     and_then (Log_event_header bv b) (\<lambda>h. as_event (Map_logged h) (and_then (Table_map_log_event fd b len) (\<lambda>(tid, m). Inr m)))"

definition read_rows_event :: "int \<Rightarrow> nat \<Rightarrow> nat \<Rightarrow> fd_event \<Rightarrow> string \<Rightarrow> nat \<Rightarrow> row_kind \<Rightarrow> any_event option res" where
  "read_rows_event addr bv t fd b len k =
     and_then (Log_event_header bv b) (\<lambda>h. as_event (\<lambda>(flags, ev). Rows_logged h t flags ev) (Rows_log_event fd addr b len k))"

text \<open>The dispatch.\<close>

definition read_class :: "decode_env \<Rightarrow> log_format \<Rightarrow> nat \<Rightarrow> string \<Rightarrow> nat \<Rightarrow> any_event option res" where
  "read_class env fmt t b len =
     (let bv = fmt_version fmt; fd = fmt_fd fmt
      in if t = 2 then as_event Query_logged (Query_log_event bv fd b len 2)
         else if t = 4 then as_event (\<lambda>(h, i, p). Rotate_logged h i p) (Rotate_log_event bv fd b len)
         else if t = 161 then as_event (\<lambda>(h, n). Checkpoint_logged h n) (Binlog_checkpoint_log_event bv fd b len)
         else if t = 162 then
           and_then (Gtid_log_event bv fd b len) (\<lambda>r. Inr (case r of
               None \<Rightarrow> None
             | Some g \<Rightarrow> if ge_seq_no g = 0 then None else Some (Gtid_logged g)))
         else if t = 163 then as_event (\<lambda>(h, f, gs). Gtid_list_logged h f gs) (Gtid_list_log_event bv fd b len)
         else if t = 9 then as_event (\<lambda>(h, f, bl). Append_block_logged h f bl) (Append_block_log_event bv fd b len)
         else if t = 11 then as_event (\<lambda>(h, f). Delete_file_logged h f) (Delete_file_log_event bv fd b len)
         else if t = 10 then as_event (\<lambda>(h, f). Exec_load_logged h f) (Execute_load_log_event bv fd b len)
         else if t = 1 then as_event (\<lambda>(h, v, s, c). Start_logged h v s c) (Start_log_event_v3 bv b len)
         else if t = 3 then and_then (Log_event_header bv b) (\<lambda>h. Inr (Some (Stop_logged h)))
         else if t = 5 then and_then (Intvar_log_event bv fd b) (\<lambda>(h, ty, v). Inr (Some (Intvar_logged h ty v)))
         else if t = 16 then and_then (Xid_log_event bv fd b) (\<lambda>(h, x). Inr (Some (Xid_logged h x)))
         else if t = 13 then and_then (Rand_log_event bv fd b) (\<lambda>(h, s1, s2). Inr (Some (Rand_logged h s1 s2)))
         else if t = 14 then as_event (\<lambda>(h, n, v). User_var_logged h n v) (User_var_log_event bv fd b len)
         else if t = 15 then as_event Format_logged (Format_description_log_event bv b len)
         else if t \<in> {23, 24, 25, 30, 31, 32} then
           (case kind_of_type t of None \<Rightarrow> Inr None | Some k \<Rightarrow> read_rows_event (d_addr env) bv t fd b len k)
         else if t \<in> set ignored_types then and_then (Log_event_header bv b) (\<lambda>h. Inr (Some (Ignorable_logged h t)))
         else if t = 19 then read_table_map bv fd b len
         else if t = 17 then as_event (\<lambda>(h, f, bl). Begin_load_logged h f bl) (Append_block_log_event bv fd b len)
         else if t = 18 then as_event Load_query_logged (Execute_load_query_log_event bv fd b len)
         else if t = 26 then as_event (\<lambda>(h, m). Incident_logged h m) (Incident_log_event bv fd b len)
         else if t = 160 then as_event (\<lambda>(h, q). Annotate_logged h q) (Annotate_rows_log_event bv fd b len)
         else if t = 164 then as_event (\<lambda>(h, k, n). Encryption_logged h k n) (Start_encryption_log_event bv b len)
         else if t \<in> set other_types then
           and_then (d_others env fmt t b len) (\<lambda>valid. Inr (if valid then Some (Other_logged t b) else None))
         else Inr None)"

section \<open>One event from its bytes\<close>

text \<open>An event comes with its checksum if it has one.\<close>

datatype decoded = Decoded any_event "int option" | Decode_error string

definition unknown_or :: "decode_env \<Rightarrow> log_format \<Rightarrow> string \<Rightarrow> string \<Rightarrow> decoded res" where
  "unknown_or env fmt b msg =
     (if d_force env then and_then (Log_event_header (fmt_version fmt) b) (\<lambda>h. Inr (Decoded (Unknown_logged (Some h)) None))
      else Inr (Decode_error msg))"

definition LOG_EVENT_IGNORABLE_F :: int where "LOG_EVENT_IGNORABLE_F = 128"

text \<open>A description of the format remembers the checksum's algorithm as the bytes named it.\<close>

fun with_alg :: "int \<Rightarrow> any_event \<Rightarrow> any_event" where
  "with_alg alg (Format_logged f) = Format_logged (f\<lparr>fe_format := (fe_format f)\<lparr>fmt_alg := alg\<rparr>\<rparr>)"
| "with_alg alg e = e"

definition decode_event :: "decode_env \<Rightarrow> log_format \<Rightarrow> nat \<Rightarrow> int \<Rightarrow> string \<Rightarrow> nat \<Rightarrow> decoded res" where
  "decode_event env fmt t alg b event_len =
     (let checked = (alg \<noteq> BINLOG_CHECKSUM_ALG_OFF \<and> alg \<noteq> BINLOG_CHECKSUM_ALG_UNDEF);
          len = (if alg \<noteq> BINLOG_CHECKSUM_ALG_UNDEF \<and> (t = 15 \<or> alg \<noteq> BINLOG_CHECKSUM_ALG_OFF) then event_len - 4 else event_len)
      in and_then (if fmt_types fmt < t \<and> t \<noteq> 15 then Inr None
                   else and_then (rd 2 b 17) (\<lambda>flags.
                        if has_flag flags LOG_EVENT_IGNORABLE_F
                        then and_then (Log_event_header (fmt_version fmt) b) (\<lambda>h. Inr (Some (Ignorable_logged h t)))
                        else read_class env fmt t b len)) (\<lambda>ev.
         case ev of
           None \<Rightarrow> unknown_or env fmt b ''Found invalid event in binary log''
         | Some e \<Rightarrow>
             and_then (if checked then and_then (rd 4 b len) (\<lambda>c. Inr (Some c)) else Inr None) (\<lambda>crc.
             if t = 7 then unknown_or env fmt b ''Found invalid event in binary log''
             else Inr (Decoded (with_alg alg e) crc))))"

text \<open>An old start event says that the log has no checksums. The format as it is then comes first.\<close>

definition read_log_event :: "decode_env \<Rightarrow> log_format \<Rightarrow> string \<Rightarrow> nat \<Rightarrow> (log_format \<times> decoded) res" where
  "read_log_event env fmt b event_len =
     (if event_len < 9 then Inr (fmt, Decode_error ''Sanity check failed'')
      else and_then (rd 1 b 4) (\<lambda>t.
           let fmt' = (if t = 1 then fmt\<lparr>fmt_alg := BINLOG_CHECKSUM_ALG_OFF\<rparr> else fmt)
           in and_then (if t \<noteq> 15 then Inr (fmt_alg fmt') else get_checksum_alg b event_len) (\<lambda>alg.
              and_then (if d_verify env then event_checksum_test (d_checksum env) b event_len alg else Inr False) (\<lambda>failed.
              and_then (if failed
                        then unknown_or env fmt' b ''Event crc check failed! Most likely there is event corruption.''
                        else decode_event env fmt' (nat t) alg b event_len) (\<lambda>d. Inr (fmt', d))))))"

section \<open>The next event of a file\<close>

datatype frame = Eof | Frame_error string string | Frame string string

text \<open>What is left of the file behind it, also behind what an error has read.\<close>

definition MAX_LOG_EVENT_HEADER :: nat where "MAX_LOG_EVENT_HEADER = 880"

text \<open>\<open>MY_MAX(max_allowed_packet, opt_binlog_rows_event_max_size + MAX_LOG_EVENT_HEADER)\<close>, with a \<open>ulong\<close> that
  holds the sum.\<close>

definition event_limit :: "decode_env \<Rightarrow> nat" where
  "event_limit env = max (d_max_allowed_packet env) (d_rows_event_max_size env + MAX_LOG_EVENT_HEADER)"

definition next_frame :: "decode_env \<Rightarrow> string \<Rightarrow> frame" where
  "next_frame env rest =
     (if rest = [] then Eof
      else if length rest < 19 then Frame_error ''Event truncated'' []
      else let data_len = nat (ukorr 4 (drop 9 rest))
           in if data_len < 19 then Frame_error ''Event invalid'' (drop 19 rest)
              else if event_limit env < data_len then Frame_error ''Event too big'' (drop 19 rest)
              else if length rest < data_len then Frame_error ''Event truncated'' []
              else Frame (take data_len rest) (drop data_len rest))"

text \<open>The events up to the end, an error, or the beginning of the encryption. With \<open>force-read\<close> an error is
  an unknown event; the one made from the bytes of an event that could not be read is dropped for one without
  a header, since the error is still set.\<close>

fun file_event :: "any_event \<Rightarrow> any_event" where
  "file_event (Unknown_logged h) = Unknown_logged None"
| "file_event e = e"

datatype log_end = At_end | Failed string | Encrypted string

lemma next_frame_less:
  "next_frame env rest = Frame p r \<Longrightarrow> length r < length rest"
  "next_frame env rest = Frame_error m r \<Longrightarrow> length r < length rest"
  by (auto simp: next_frame_def Let_def split: if_splits)

function log_events :: "decode_env \<Rightarrow> log_format \<Rightarrow> string \<Rightarrow> ((any_event \<times> int option) list \<times> log_end) res" where
  "log_events env fmt rest = (case next_frame env rest of
       Eof \<Rightarrow> Inr ([], At_end)
     | Frame_error m r \<Rightarrow>
         if d_force env then and_then (log_events env fmt r) (\<lambda>(es, e). Inr ((Unknown_logged None, None) # es, e))
         else Inr ([], Failed m)
     | Frame p r \<Rightarrow>
         and_then (read_log_event env fmt p (length p)) (\<lambda>(fmt', d). case d of
             Decode_error m \<Rightarrow> Inr ([], Failed m)
           | Decoded e crc \<Rightarrow>
               (case e of
                  Encryption_logged h k n \<Rightarrow> Inr ([(e, crc)], Encrypted r)
                | _ \<Rightarrow>
                    let fmt2 = (case e of Format_logged f \<Rightarrow> fe_format f | _ \<Rightarrow> fmt')
                    in and_then (log_events env fmt2 r) (\<lambda>(es, z). Inr ((file_event e, crc) # es, z)))))"
  by pat_completeness auto
termination by (relation "measure (\<lambda>(env, fmt, rest). length rest)") (auto dest: next_frame_less)

declare log_events.simps [simp del]

end
