(* ===== verification/Log_Roundtrip.thy ===== *)
theory Log_Roundtrip
  imports Log_Decode
begin

text \<open>
  A log as the server writes it, with or without checksums, is read as the events that were written; so is
  the beginning of one, up to its last complete event, wherever the log is cut off. \<open>writes\<close> says which
  bytes an event is, \<open>class_read\<close> that the dispatch reads them back, \<open>chunks_read\<close> does the loop over the
  file once for all logs. The flags of a user variable that is not an integer are the exception: they
  are not written, and what follows is taken for them.
\<close>

section \<open>What the server writes\<close>

text \<open>The parts of the data of an event, behind its header, with its type.\<close>

inductive writes :: "int \<Rightarrow> any_event \<Rightarrow> event_header \<Rightarrow> nat \<Rightarrow> string list \<Rightarrow> bool" for addr where
  writes_query: "query_event_ok q \<Longrightarrow> writes addr (Query_logged q) (qe_header q) 2
     [write_query_header q (length (write_status (qe_vars q))), write_status (qe_vars q), qe_db q @ [NUL], qe_query q]"
| writes_gtid: "gtid_ok g \<Longrightarrow> ge_seq_no g \<noteq> 0 \<Longrightarrow> writes addr (Gtid_logged g) (ge_header g) 162 [write_gtid_data g]"
| writes_xid: "0 \<le> x \<Longrightarrow> x < 2 ^ 64 \<Longrightarrow> writes addr (Xid_logged h x) h 16 [xid_data x]"
| writes_intvar: "ty < 256 \<Longrightarrow> 0 \<le> v \<Longrightarrow> v < 2 ^ 64 \<Longrightarrow> writes addr (Intvar_logged h ty v) h 5 [intvar_data ty v]"
| writes_rand: "0 \<le> s1 \<Longrightarrow> s1 < 2 ^ 64 \<Longrightarrow> 0 \<le> s2 \<Longrightarrow> s2 < 2 ^ 64 \<Longrightarrow> writes addr (Rand_logged h s1 s2) h 13 [rand_data s1 s2]"
| writes_null: "writes addr (User_var_logged h name None) h 14 [user_var_data name None]"
| writes_variable: "uv_type v \<in> {0, 1, 2, 4} \<Longrightarrow> 0 \<le> uv_charset v \<Longrightarrow> uv_charset v < 2 ^ 32
     \<Longrightarrow> 0 \<le> uv_flags v \<Longrightarrow> uv_flags v < 256 \<Longrightarrow> writes addr (User_var_logged h name (Some v)) h 14 [user_var_data name (Some v)]"
| writes_rotate: "length ident \<le> 511 \<Longrightarrow> 0 \<le> pos \<Longrightarrow> pos < 2 ^ 64 \<Longrightarrow> writes addr (Rotate_logged h ident pos) h 4 [rotate_data ident pos]"
| writes_stop: "writes addr (Stop_logged h) h 3 []"
| writes_checkpoint: "writes addr (Checkpoint_logged h name) h 161 [checkpoint_data name]"
| writes_gtids: "flags \<in> {0 ..< 16} \<Longrightarrow> length gs < 2 ^ 28 \<Longrightarrow> \<forall>(d, s, n) \<in> set gs. d \<in> {0 ..< 2 ^ 32} \<and> s \<in> {0 ..< 2 ^ 32} \<and> n \<in> {0 ..< 2 ^ 64}
     \<Longrightarrow> writes addr (Gtid_list_logged h (flags * 2 ^ 28) gs) h 163 [gtid_list_data (flags * 2 ^ 28) gs]"
| writes_annotation: "query \<noteq> [] \<Longrightarrow> writes addr (Annotate_logged h query) h 160 [query]"
| writes_block: "0 \<le> f \<Longrightarrow> f < 2 ^ 32 \<Longrightarrow> writes addr (Append_block_logged h f block) h 9 [append_block_data f block]"
| writes_begin_load: "0 \<le> f \<Longrightarrow> f < 2 ^ 32 \<Longrightarrow> writes addr (Begin_load_logged h f block) h 17 [append_block_data f block]"
| writes_delete: "0 < f \<Longrightarrow> f < 2 ^ 32 \<Longrightarrow> writes addr (Delete_file_logged h f) h 11 [le_store 4 f]"
| writes_exec: "0 < f \<Longrightarrow> f < 2 ^ 32 \<Longrightarrow> writes addr (Exec_load_logged h f) h 10 [le_store 4 f]"
| writes_incident: "length m < 256 \<Longrightarrow> NUL \<notin> set m \<Longrightarrow> writes addr (Incident_logged h m) h 26 [incident_data m]"
| writes_map: "table_map_ok tm \<Longrightarrow> writes addr (Map_logged h tm) h 19 [write_map_header tm, write_map_body tm]"
| writes_rows: "0 \<le> tid \<Longrightarrow> tid < 2 ^ 32 \<Longrightarrow> 0 \<le> flags \<Longrightarrow> flags < 2 ^ 16 \<Longrightarrow> width \<le> 4096
     \<Longrightarrow> length cols = (width + 7) div 8 \<Longrightarrow> length cols_ai = (width + 7) div 8
     \<Longrightarrow> writes addr (Rows_logged h (rows_type_code k) flags (rows_event_of addr tid k width cols cols_ai rows)) h (rows_type_code k)
       [write_rows_header tid flags, write_rows_body k width cols cols_ai rows]"

text \<open>The header is that of an event that is not to be ignored, in a log that is closed, and the event has
  the size that the reader allows.\<close>

definition entry_ok :: "decode_env \<Rightarrow> any_event \<times> event_header \<times> nat \<times> string list \<Rightarrow> bool" where
  "entry_ok env = (\<lambda>(e, h, t, parts). writes (d_addr env) e h t parts \<and> header_ok h \<and> even (eh_flags h)
     \<and> \<not> has_flag (eh_flags h) LOG_EVENT_IGNORABLE_F \<and> length (concat parts) + 23 < 2 ^ 32
     \<and> length (concat parts) + 23 \<le> event_limit env)"

text \<open>A log: the description of its format, then the events, all with the checksum that the description names.\<close>

definition write_log ::
  "checksum \<Rightarrow> int \<Rightarrow> event_header \<Rightarrow> string \<Rightarrow> int \<Rightarrow> (any_event \<times> event_header \<times> nat \<times> string list) list \<Rightarrow> string" where
  "write_log cs alg h version created entries =
     wr_file (fold (\<lambda>(e, h, t, parts). write_parts cs (alg \<noteq> 0) h t parts) entries
       (write_format_description cs h version created alg \<lparr> wr_file = [], wr_checksum_len = 0, wr_crc = 0 \<rparr>))"

definition written_format :: "int \<Rightarrow> log_format" where
  "written_format alg = \<lparr> fmt_version = 4, fmt_fd = \<lparr> fd_common_header_len = 19, fd_post_header_len = post_header_len @ [nat alg] \<rparr>,
     fmt_types = 171, fmt_alg = alg \<rparr>"

text \<open>An event without the flags that were not written.\<close>

fun written_part :: "any_event \<Rightarrow> any_event" where
  "written_part (User_var_logged h name (Some v)) = User_var_logged h name (Some (if uv_type v = 2 then v else v\<lparr>uv_flags := 0\<rparr>))"
| "written_part e = e"

section \<open>One event\<close>

lemma written_format_simps [simp]:
  "fmt_version (written_format alg) = 4" "fmt_types (written_format alg) = 171" "fmt_alg (written_format alg) = alg"
  "fd_common_header_len (fmt_fd (written_format alg)) = 19"
  by (simp_all add: written_format_def)

lemma post_header_len_at:
  "k < 171 \<Longrightarrow> fd_post_header_len (fmt_fd (written_format alg)) ! k = (case map_of header_lengths (Suc k) of None \<Rightarrow> 0 | Some n \<Rightarrow> n)"
proof -
  assume k: "k < 171"
  then have "[1..<Suc LOG_EVENT_TYPES] ! k = Suc k" by (subst nth_upt) (simp_all add: LOG_EVENT_TYPES_def)
  moreover have "length [1..<Suc LOG_EVENT_TYPES] = 171" by (simp add: LOG_EVENT_TYPES_def)
  ultimately show ?thesis using k by (simp add: written_format_def nth_append post_header_len_def del: upt_Suc)
qed

lemma small_headers:
  "fd_post_header_len (fmt_fd (written_format alg)) ! 1 = 13" "fd_post_header_len (fmt_fd (written_format alg)) ! 3 = 8"
  "fd_post_header_len (fmt_fd (written_format alg)) ! 4 = 0" "fd_post_header_len (fmt_fd (written_format alg)) ! 8 = 4"
  "fd_post_header_len (fmt_fd (written_format alg)) ! 9 = 4" "fd_post_header_len (fmt_fd (written_format alg)) ! 10 = 4"
  "fd_post_header_len (fmt_fd (written_format alg)) ! 12 = 0" "fd_post_header_len (fmt_fd (written_format alg)) ! 13 = 0"
  "fd_post_header_len (fmt_fd (written_format alg)) ! 15 = 0" "fd_post_header_len (fmt_fd (written_format alg)) ! 18 = 8"
  "fd_post_header_len (fmt_fd (written_format alg)) ! 22 = 8" "fd_post_header_len (fmt_fd (written_format alg)) ! 23 = 8"
  "fd_post_header_len (fmt_fd (written_format alg)) ! 24 = 8" "fd_post_header_len (fmt_fd (written_format alg)) ! 25 = 2"
  "fd_post_header_len (fmt_fd (written_format alg)) ! 160 = 4" "fd_post_header_len (fmt_fd (written_format alg)) ! 161 = 19"
  "fd_post_header_len (fmt_fd (written_format alg)) ! 162 = 4"
  by (simp_all add: post_header_len_at header_lengths_def LOG_EVENT_TYPES_def)

lemma sent_reads:
  assumes b: "b = write_event h t (length data) data footer" and l: "length b < 2 ^ 32" and t: "t < 256" and h: "header_ok h"
  shows "Log_event_header 4 b = Inr h" "rd 1 b 4 = Inr (int t)" "rd 4 b 9 = Inr (int (length b))"
    "reads_as b 19 (data @ footer)" "length b = 19 + length data + length footer"
  using write_event_reads [OF b refl l t] header_read_back [OF b h] by simp_all

lemma xid_read:
  assumes "b = write_event h 16 (length data) data footer" "length b < 2 ^ 32" "header_ok h"
    and "data = xid_data x" "0 \<le> x" "x < 2 ^ 64"
  shows "Xid_log_event 4 (fmt_fd (written_format alg)) b = Inr (h, x)"
proof -
  note s = sent_reads [OF assms(1,2) _ assms(3)]
  have "rd 8 b 19 = Inr x" using rd_reads [of b 19 "le_store 8 x" footer 8] s(4) assms(4-6) by (simp add: xid_data_def)
  then show ?thesis using s(1) by (simp add: Xid_log_event_def small_headers)
qed

lemma intvar_read:
  assumes "b = write_event h 5 (length data) data footer" "length b < 2 ^ 32" "header_ok h"
    and "data = intvar_data ty v" "ty < 256" "0 \<le> v" "v < 2 ^ 64"
  shows "Intvar_log_event 4 (fmt_fd (written_format alg)) b = Inr (h, ty, v)"
proof -
  note s = sent_reads [OF assms(1,2) _ assms(3)]
  have r: "reads_as b 19 ([byte_of (int ty)] @ le_store 8 v @ footer)" using s(4) assms(4) by (simp add: intvar_data_def)
  have "rd 1 b 19 = Inr (int ty)" "rd 8 b 20 = Inr v"
    using rd_reads [OF r, of 1] rd_reads [OF reads_as_skip [OF r, of 20], of 8] assms(5-7) by simp_all
  then show ?thesis using s(1) by (simp add: Intvar_log_event_def small_headers)
qed

lemma rand_read:
  assumes "b = write_event h 13 (length data) data footer" "length b < 2 ^ 32" "header_ok h"
    and "data = rand_data s1 s2" "0 \<le> s1" "s1 < 2 ^ 64" "0 \<le> s2" "s2 < 2 ^ 64"
  shows "Rand_log_event 4 (fmt_fd (written_format alg)) b = Inr (h, s1, s2)"
proof -
  note s = sent_reads [OF assms(1,2) _ assms(3)]
  have r: "reads_as b 19 (le_store 8 s1 @ le_store 8 s2 @ footer)" using s(4) assms(4) by (simp add: rand_data_def)
  have "rd 8 b 19 = Inr s1" "rd 8 b 27 = Inr s2"
    using rd_reads [OF r, of 8] rd_reads [OF reads_as_skip [OF r, of 27], of 8] assms(5-8) by simp_all
  then show ?thesis using s(1) by (simp add: Rand_log_event_def small_headers)
qed

lemma rotate_read:
  assumes "b = write_event h 4 (length data) data footer" "length b < 2 ^ 32" "header_ok h"
    and "data = rotate_data ident pos" "length ident \<le> 511" "0 \<le> pos" "pos < 2 ^ 64"
  shows "Rotate_log_event 4 (fmt_fd (written_format alg)) b (length b - length footer) = Inr (Some (h, ident, pos))"
proof -
  note s = sent_reads [OF assms(1,2) _ assms(3)]
  have r: "reads_as b 19 (le_store 8 pos @ ident @ footer)" using s(4) assms(4) by (simp add: rotate_data_def)
  have n: "rd 8 b 19 = Inr pos" "rd_bytes (length ident) b 27 = Inr ident"
    using rd_reads [OF r, of 8] rd_bytes_reads [OF reads_as_skip [OF r, of 27]] assms(6,7) by simp_all
  show ?thesis using s(1,5) n assms(4,5) by (simp add: Rotate_log_event_def small_headers Let_def rotate_data_def min_def)
qed

lemma user_null_read:
  assumes "b = write_event h 14 (length data) data footer" "length b < 2 ^ 32" "header_ok h"
    and "data = user_var_data name None"
  shows "User_var_log_event 4 (fmt_fd (written_format alg)) b (length b - length footer) = Inr (Some (h, name, None))"
proof -
  note s = sent_reads [OF assms(1,2) _ assms(3)]
  have r: "reads_as b 19 (le_store 4 (int (length name)) @ name @ [byte_of 1] @ footer)"
    using s(4) assms(4) by (simp add: user_var_data_def)
  note r23 = reads_as_skip [OF r, of 23, simplified]
  have r2: "reads_as b (23 + length name) ([byte_of 1] @ footer)" using reads_as_step [of b 23 name] r23 by simp
  have len: "length b = 24 + length name + length footer" using reads_as_length [OF r2] by simp
  have n: "rd 4 b 19 = Inr (int (length name))" "rd_bytes (length name) b 23 = Inr name" "rd 1 b (23 + length name) = Inr 1"
    using rd_reads [OF r, of 4] rd_bytes_reads [of b 23 name] r23 rd_reads [OF r2, of 1] len assms(2) by simp_all
  show ?thesis using s(1) n len assms(2) by (simp add: User_var_log_event_def small_headers Let_def add_ac)
qed

lemma user_value_read:
  assumes "b = write_event h 14 (length data) data footer" "length b < 2 ^ 32" "header_ok h"
    and "data = user_var_data name (Some v)" "0 \<le> uv_type v" "uv_type v < 128" "0 \<le> uv_charset v" "uv_charset v < 2 ^ 32"
    and "0 \<le> uv_flags v" "uv_flags v < 256"
  shows "\<exists>flags. User_var_log_event 4 (fmt_fd (written_format alg)) b (length b - length footer) =
    Inr (Some (h, name, Some (v\<lparr>uv_flags := flags\<rparr>))) \<and> (uv_type v = 2 \<longrightarrow> flags = uv_flags v)"
proof -
  note s = sent_reads [OF assms(1,2) _ assms(3)]
  let ?f = "if uv_type v = 2 then [byte_of (uv_flags v)] else []"
  have r: "reads_as b 19 (le_store 4 (int (length name)) @ name @ [byte_of 0] @ [byte_of (uv_type v)] @ le_store 4 (uv_charset v)
      @ le_store 4 (int (length (uv_val v))) @ uv_val v @ ?f @ footer)"
    using s(4) assms(4) by (simp add: user_var_data_def)
  note r23 = reads_as_skip [OF r, of 23, simplified]
  define q where "q = 23 + length name"
  have rq: "reads_as b q ([byte_of 0] @ [byte_of (uv_type v)] @ le_store 4 (uv_charset v)
      @ le_store 4 (int (length (uv_val v))) @ uv_val v @ ?f @ footer)" using reads_as_step [of b 23 name] r23 by (simp add: q_def)
  have r1: "reads_as b (q + 1) ([byte_of (uv_type v)] @ le_store 4 (uv_charset v) @ le_store 4 (int (length (uv_val v))) @ uv_val v @ ?f @ footer)"
    by (rule reads_as_skip [OF rq]) simp
  have r2: "reads_as b (q + 2) (le_store 4 (uv_charset v) @ le_store 4 (int (length (uv_val v))) @ uv_val v @ ?f @ footer)"
    by (rule reads_as_skip [OF r1]) simp
  have r6: "reads_as b (q + 6) (le_store 4 (int (length (uv_val v))) @ uv_val v @ ?f @ footer)" by (rule reads_as_skip [OF r2]) simp
  have r10: "reads_as b (q + 10) (uv_val v @ ?f @ footer)" by (rule reads_as_skip [OF r6]) simp
  have re: "reads_as b (q + 10 + length (uv_val v)) (?f @ footer)" by (rule reads_as_skip [OF r10]) simp
  have len: "length b = q + 10 + length (uv_val v) + length ?f + length footer" using reads_as_length [OF re] by simp
  have n: "rd 4 b 19 = Inr (int (length name))" "rd_bytes (length name) b 23 = Inr name" "rd 1 b q = Inr 0"
    "rd 1 b (q + 1) = Inr (uv_type v)" "rd 4 b (q + 2) = Inr (uv_charset v)" "rd 4 b (q + 6) = Inr (int (length (uv_val v)))"
    "rd_bytes (length (uv_val v)) b (q + 10) = Inr (uv_val v)"
    using rd_reads [OF r, of 4] rd_bytes_reads [of b 23 name] r23 rd_reads [OF rq, of 1] rd_reads [OF r1, of 1] rd_reads [OF r2, of 4]
      rd_reads [OF r6, of 4] rd_bytes_reads [OF r10] len assms(2,5-8) by (simp_all add: q_def)
  have size: "\<not> 2 ^ 32 \<le> int q + 10 + int (length (uv_val v))"
    "\<not> int (length b - length footer) < int q + 10 + int (length (uv_val v))" using len assms(2) by auto
  have sg: "signed_of 8 (uv_type v) = uv_type v" using assms(5,6) by (simp add: signed_of_def)
  have "\<exists>fl. (int (length b) \<noteq> int q + 10 + int (length (uv_val v)) \<longrightarrow> rd 1 b (q + 10 + length (uv_val v)) = Inr fl)
      \<and> (int (length b) = int q + 10 + int (length (uv_val v)) \<longrightarrow> fl = 0) \<and> (uv_type v = 2 \<longrightarrow> fl = uv_flags v)"
  proof (cases "?f @ footer")
    case Nil
    then show ?thesis using len by (auto split: if_splits)
  next
    case (Cons c cs)
    have ne: "int (length b) \<noteq> int q + 10 + int (length (uv_val v))" using len Cons by (auto split: if_splits)
    have "rd 1 b (q + 10 + length (uv_val v)) = Inr (le_val [c])" using rd_reads [of b _ "[c]" cs 1] re Cons by simp
    moreover have "c = byte_of (uv_flags v)" if "uv_type v = 2" using Cons that by simp
    ultimately show ?thesis using ne assms(9,10) by auto
  qed
  then obtain fl where fl: "int (length b) \<noteq> int q + 10 + int (length (uv_val v)) \<Longrightarrow> rd 1 b (q + 10 + length (uv_val v)) = Inr fl"
    "int (length b) = int q + 10 + int (length (uv_val v)) \<Longrightarrow> fl = 0" "uv_type v = 2 \<longrightarrow> fl = uv_flags v" by blast
  define el where "el = length b - length footer"
  have "read_user_value b el q =
      Inr (Some \<lparr> uv_type = uv_type v, uv_charset = uv_charset v, uv_val = uv_val v, uv_flags = fl \<rparr>)"
    using n(4-7) fl(1,2) size [folded el_def] sg by (auto simp: read_user_value_def Let_def s(3))
  moreover have "\<lparr> uv_type = uv_type v, uv_charset = uv_charset v, uv_val = uv_val v, uv_flags = fl \<rparr> = v\<lparr>uv_flags := fl\<rparr>" by (cases v) simp
  ultimately show ?thesis using s(1) n(1-3) len assms(2) fl(3)
    by (intro exI [of _ fl]) (simp add: User_var_log_event_def small_headers Let_def q_def el_def)
qed

lemma checkpoint_read:
  assumes "b = write_event h 161 (length data) data footer" "length b < 2 ^ 32" "header_ok h" and "data = checkpoint_data name"
  shows "Binlog_checkpoint_log_event 4 (fmt_fd (written_format alg)) b (length b - length footer) = Inr (Some (h, name))"
proof -
  note s = sent_reads [OF assms(1,2) _ assms(3)]
  have r: "reads_as b 19 (le_store 4 (int (length name)) @ name @ footer)" using s(4) assms(4) by (simp add: checkpoint_data_def)
  have "length b = 23 + length name + length footer" using s(5) assms(4) by (simp add: checkpoint_data_def)
  moreover have "rd 4 b 19 = Inr (int (length name))" "rd_bytes (length name) b 23 = Inr name"
    using rd_reads [OF r, of 4] rd_bytes_reads [OF reads_as_skip [OF r, of 23]] calculation assms(2) by simp_all
  ultimately show ?thesis using s(1) by (simp add: Binlog_checkpoint_log_event_def small_headers Let_def)
qed

lemma gtids_read:
  "reads_as b p (concat (map gtid_text gs) @ r)
   \<Longrightarrow> \<forall>(d, s, n) \<in> set gs. d \<in> {0 ..< 2 ^ 32} \<and> s \<in> {0 ..< 2 ^ 32} \<and> n \<in> {0 ..< 2 ^ 64}
   \<Longrightarrow> read_gtids (length gs) b p = Inr gs"
proof (induction gs arbitrary: p)
  case (Cons g gs)
  obtain d s n where g: "g = (d, s, n)" by (cases g)
  have r0: "reads_as b p (le_store 4 d @ le_store 4 s @ le_store 8 n @ concat (map gtid_text gs) @ r)"
    using Cons.prems(1) by (simp add: g gtid_text_def)
  have r4: "reads_as b (p + 4) (le_store 4 s @ le_store 8 n @ concat (map gtid_text gs) @ r)" by (rule reads_as_skip [OF r0]) simp
  have r8: "reads_as b (p + 8) (le_store 8 n @ concat (map gtid_text gs) @ r)" by (rule reads_as_skip [OF r4]) simp
  have r16: "reads_as b (p + 16) (concat (map gtid_text gs) @ r)" by (rule reads_as_skip [OF r8]) simp
  have "rd 4 b p = Inr d" "rd 4 b (p + 4) = Inr s" "rd 8 b (p + 8) = Inr n"
    using rd_reads [OF r0, of 4] rd_reads [OF r4, of 4] rd_reads [OF r8, of 8] Cons.prems(2) by (simp_all add: g)
  then show ?case using Cons.IH [OF r16] Cons.prems(2) by (simp add: g)
qed simp

lemma length_gtids [simp]: "length (concat (map gtid_text gs)) = 16 * length gs"
  by (induction gs) (auto simp: gtid_text_def)

lemma gtid_list_read:
  assumes "b = write_event h 163 (length data) data footer" "length b < 2 ^ 32" "header_ok h"
    and "data = gtid_list_data (flags * 2 ^ 28) gs" "flags \<in> {0 ..< 16}" "length gs < 2 ^ 28"
    and gs: "\<forall>(d, s, n) \<in> set gs. d \<in> {0 ..< 2 ^ 32} \<and> s \<in> {0 ..< 2 ^ 32} \<and> n \<in> {0 ..< 2 ^ 64}"
  shows "Gtid_list_log_event 4 (fmt_fd (written_format alg)) b (length b - length footer) = Inr (Some (h, flags * 2 ^ 28, gs))"
proof -
  note s = sent_reads [OF assms(1,2) _ assms(3)]
  let ?n = "int (length gs) + flags * 2 ^ 28" and ?pad = "if gs = [] then [NUL, NUL] else []"
  have r: "reads_as b 19 (le_store 4 ?n @ concat (map gtid_text gs) @ ?pad @ footer)"
    using s(4) assms(4) by (simp add: gtid_list_data_def)
  have r23: "reads_as b 23 (concat (map gtid_text gs) @ ?pad @ footer)" using reads_as_skip [OF r, of 23] by simp
  have len: "length b = 23 + 16 * length gs + length ?pad + length footer" using reads_as_length [OF r23] by simp
  have n: "0 \<le> ?n" "?n < 2 ^ 32" "?n mod 2 ^ 28 = int (length gs)" using assms(5,6) by auto
  have v: "rd 4 b 19 = Inr ?n" using rd_reads [OF r, of 4] n by simp
  have g: "read_gtids (length gs) b 23 = Inr gs" by (rule gtids_read [OF r23 gs])
  have ph: "fd_post_header_len (fmt_fd (written_format alg)) ! 162 = 4" "fd_common_header_len (fmt_fd (written_format alg)) = 19"
    by (simp_all add: small_headers)
  show ?thesis unfolding Gtid_list_log_event_def Let_def ph s(1) [simplified] v and_then_Inr n(3) using g len by simp
qed

lemma annotation_read:
  assumes "b = write_event h 160 (length data) data footer" "length b < 2 ^ 32" "header_ok h" and "data \<noteq> []"
  shows "Annotate_rows_log_event 4 (fmt_fd (written_format alg)) b (length b - length footer) = Inr (Some (h, data))"
proof -
  note s = sent_reads [OF assms(1,2) _ assms(3)]
  have "rd_bytes (length data) b 19 = Inr data" using rd_bytes_reads [OF s(4)] by simp
  moreover have "uint_of (int (length b - length footer) - 19) = int (length data)" using s(5) assms(2) by simp
  ultimately show ?thesis using s(1) assms(4) by (simp add: Annotate_rows_log_event_def Let_def)
qed

lemma block_read:
  assumes "b = write_event h t (length data) data footer" "length b < 2 ^ 32" "header_ok h" "t < 256"
    and "data = append_block_data f block" "0 \<le> f" "f < 2 ^ 32"
  shows "Append_block_log_event 4 (fmt_fd (written_format alg)) b (length b - length footer) = Inr (Some (h, f, block))"
proof -
  note s = sent_reads [OF assms(1,2,4,3)]
  have r: "reads_as b 19 (le_store 4 f @ block @ footer)" using s(4) assms(5) by (simp add: append_block_data_def)
  have "length b = 23 + length block + length footer" using s(5) assms(5) by (simp add: append_block_data_def)
  moreover have "rd 4 b 19 = Inr f" "rd_bytes (length block) b 23 = Inr block"
    using rd_reads [OF r, of 4] rd_bytes_reads [OF reads_as_skip [OF r, of 23]] assms(6,7) by simp_all
  ultimately show ?thesis using s(1) by (simp add: Append_block_log_event_def small_headers Let_def)
qed

lemma file_id_read:
  assumes "b = write_event h t (length data) data footer" "length b < 2 ^ 32" "header_ok h"
    and "t = 10 \<or> t = 11" "data = le_store 4 f" "0 < f" "f < 2 ^ 32"
  shows "read_file_id t 4 (fmt_fd (written_format alg)) b (length b - length footer) = Inr (Some (h, f))"
proof -
  have t: "t < 256" using assms(4) by auto
  note s = sent_reads [OF assms(1,2) t assms(3)]
  have "rd 4 b 19 = Inr f" using rd_reads [of b 19 "le_store 4 f" footer 4] s(4) assms(5-7) by simp
  then show ?thesis using s(1,5) assms(4-6) by (auto simp: read_file_id_def small_headers Let_def)
qed

lemma incident_read:
  assumes "b = write_event h 26 (length data) data footer" "length b < 2 ^ 32" "header_ok h"
    and "data = incident_data m" "length m < 256" "NUL \<notin> set m"
  shows "Incident_log_event 4 (fmt_fd (written_format alg)) b (length b - length footer) = Inr (Some (h, m))"
proof -
  note s = sent_reads [OF assms(1,2) _ assms(3)]
  have r: "reads_as b 19 (le_store 2 1 @ [byte_of (int (length m))] @ m @ footer)" using s(4) assms(4) by (simp add: incident_data_def)
  have r21: "reads_as b 21 ([byte_of (int (length m))] @ m @ footer)" using reads_as_skip [OF r, of 21] by simp
  have "rd 2 b 19 = Inr 1" "rd 1 b 21 = Inr (int (length m))" "rd_bytes (length m) b 22 = Inr m"
    using rd_reads [OF r, of 2] rd_reads [OF r21, of 1] rd_bytes_reads [OF reads_as_skip [OF r21, of 22]] assms(5) by simp_all
  moreover have "length b = 22 + length m + length footer" using s(5) assms(4) by (simp add: incident_data_def)
  ultimately show ?thesis using s(1) assms(6) by (simp add: Incident_log_event_def small_headers Let_def cstr_nul_free)
qed

section \<open>The dispatch\<close>

lemma class_read:
  assumes w: "writes (d_addr env) e h t parts" and h: "header_ok h" and b: "b = write_event h t (length data) data footer"
    and d: "data = concat parts" and l: "length b < 2 ^ 32"
  shows "\<exists>e'. read_class env (written_format alg) t b (length b - length footer) = Inr (Some e') \<and> written_part e' = written_part e"
  using w
proof cases
  case (writes_query q)
  have "b = write_query_event q footer"
    using b d writes_query by (simp add: write_query_event_def write_query_header_def QUERY_HEADER_LEN_def Let_def add.assoc)
  then have "Query_log_event 4 (fmt_fd (written_format alg)) b (length b - length footer) 2 = Inr (Some q)"
    by (rule query_read [OF writes_query(5) _ l written_format_simps(4) small_headers(1)]) simp_all
  then show ?thesis using writes_query by (simp add: read_class_def)
next
  case (writes_gtid g)
  have "b = write_gtid_event g footer" using b d writes_gtid by (simp add: write_gtid_event_def)
  from gtid_read_back [OF writes_gtid(5) this l, of "fmt_fd (written_format alg)" 4] writes_gtid
  show ?thesis by (simp add: read_class_def small_headers)
next
  case (writes_xid x)
  then show ?thesis using xid_read [of b h data footer x alg] b d l h by (simp add: read_class_def)
next
  case (writes_intvar ty v)
  then show ?thesis using intvar_read [of b h data footer ty v alg] b d l h by (simp add: read_class_def)
next
  case (writes_rand s1 s2)
  then show ?thesis using rand_read [of b h data footer s1 s2 alg] b d l h by (simp add: read_class_def)
next
  case (writes_null name)
  then show ?thesis using user_null_read [of b h data footer name alg] b d l h by (simp add: read_class_def)
next
  case (writes_variable v name)
  then obtain fl where "User_var_log_event 4 (fmt_fd (written_format alg)) b (length b - length footer) =
      Inr (Some (h, name, Some (v\<lparr>uv_flags := fl\<rparr>)))" "uv_type v = 2 \<longrightarrow> fl = uv_flags v"
    using user_value_read [of b h data footer name v alg] b d l h by auto
  then show ?thesis using writes_variable by (cases v) (auto simp: read_class_def)
next
  case (writes_rotate ident pos)
  then show ?thesis using rotate_read [of b h data footer ident pos alg] b d l h by (simp add: read_class_def)
next
  case writes_stop
  then show ?thesis using sent_reads(1) [of b h 3 data footer] b d l h by (simp add: read_class_def)
next
  case (writes_checkpoint name)
  then show ?thesis using checkpoint_read [of b h data footer name alg] b d l h by (simp add: read_class_def)
next
  case (writes_gtids flags gs)
  then have "Gtid_list_log_event 4 (fmt_fd (written_format alg)) b (length b - length footer) = Inr (Some (h, flags * 2 ^ 28, gs))"
    using gtid_list_read [of b h data footer flags gs alg] b d l h by simp
  then show ?thesis unfolding writes_gtids by (simp add: read_class_def)
next
  case (writes_annotation query)
  then show ?thesis using annotation_read [of b h data footer alg] b d l h
    by (simp add: read_class_def ignored_types_def other_types_def Let_def)
next
  case (writes_block f block)
  then show ?thesis using block_read [of b h 9 data footer f block alg] b d l h by (simp add: read_class_def)
next
  case (writes_begin_load f block)
  then show ?thesis using block_read [of b h 17 data footer f block alg] b d l h by (simp add: read_class_def ignored_types_def)
next
  case (writes_delete f)
  then show ?thesis using file_id_read [of b h 11 data footer f alg] b d l h by (simp add: read_class_def Delete_file_log_event_def)
next
  case (writes_exec f)
  then show ?thesis using file_id_read [of b h 10 data footer f alg] b d l h by (simp add: read_class_def Execute_load_log_event_def)
next
  case (writes_incident m)
  then show ?thesis using incident_read [of b h data footer m alg] b d l h by (simp add: read_class_def ignored_types_def)
next
  case (writes_map tm)
  have "b = write_table_map h tm footer"
    using b d writes_map map_data_size_written [OF writes_map(4)] by (simp add: write_table_map_def)
  from table_map_read [OF writes_map(4) this l, of "fmt_fd (written_format alg)"] sent_reads(1) [of b h 19 data footer] b l h writes_map
  show ?thesis by (simp add: read_class_def read_table_map_def small_headers ignored_types_def)
next
  case (writes_rows tid flags width cols cols_ai k rows)
  have t: "rows_type_code k - 1 = 22 \<or> rows_type_code k - 1 = 23 \<or> rows_type_code k - 1 = 24" "0 < rows_type_code k" "rows_type_code k < 256"
    "kind_of_type (rows_type_code k) = Some k" "rows_type_code k \<in> {23, 24, 25}"
    by (cases k; simp)+
  then have ph: "fd_post_header_len (fmt_fd (written_format alg)) ! (t - 1) = 8" using writes_rows by (auto simp: small_headers)
  have dd: "data = write_rows_header tid flags @ version_header 8 @ write_rows_body k width cols cols_ai rows"
    using d writes_rows by (simp add: version_header_def ROWS_HEADER_LEN_V2_def)
  have "Rows_log_event (fmt_fd (written_format alg)) (d_addr env) b (length b - length footer) k =
      Inr (Some (flags, rows_event_of (d_addr env) tid k width cols cols_ai rows))"
    by (rule rows_read [OF b refl l dd _ ph]) (use writes_rows t in simp_all)
  then show ?thesis using sent_reads(1) [OF b l _ h] t writes_rows
    by (auto simp: read_class_def read_rows_event_def)
qed

section \<open>An event of a log\<close>

definition entry_bytes :: "checksum \<Rightarrow> bool \<Rightarrow> any_event \<times> event_header \<times> nat \<times> string list \<Rightarrow> string" where
  "entry_bytes cs need_checksum = (\<lambda>(e, h, t, parts).
     write_event h t (length (concat parts)) (concat parts) (event_footer cs need_checksum h t (concat parts)))"

lemma writes_type: "writes addr e h t parts \<Longrightarrow> t \<notin> {1, 7, 15} \<and> t \<le> 171"
  by (erule writes.cases; simp; rename_tac k rows; case_tac k; simp)

lemma flags_read:
  assumes "b = write_event h t n data footer" "header_ok h"
  shows "rd 2 b 17 = Inr (eh_flags h)"
proof -
  have "reads_as b 17 (le_store 2 (eh_flags h) @ data @ footer)"
    unfolding reads_as_def assms(1) write_event_def write_header_def
    by (rule exI [of _ "le_store 4 (eh_when h) @ byte_of (int t) # le_store 4 (eh_server_id h) @
        le_store 4 (int (n + LOG_EVENT_HEADER_LEN + length footer)) @ le_store 4 (eh_log_pos h)"]) simp
  then show ?thesis using rd_reads [of b 17 "le_store 2 (eh_flags h)" "data @ footer" 2] assms(2) by (simp add: header_ok_def)
qed

text \<open>What the loop asks of an event: it changes neither the format nor the encryption.\<close>

definition goes_on_reading :: "any_event \<Rightarrow> bool" where
  "goes_on_reading e \<longleftrightarrow> (\<forall>f. e \<noteq> Format_logged f) \<and> (\<forall>h k n. e \<noteq> Encryption_logged h k n) \<and> (\<forall>h. e \<noteq> Unknown_logged h)"

lemma goes_on_file: "goes_on_reading e \<Longrightarrow> file_event e = e"
  by (cases e) (auto simp: goes_on_reading_def)

lemma written_goes_on: "writes addr e h t parts \<Longrightarrow> written_part e' = written_part e \<Longrightarrow> goes_on_reading e'"
  by (erule writes.cases; cases e' rule: written_part.cases; auto simp: goes_on_reading_def)

lemma goes_on_with_alg: "goes_on_reading e \<Longrightarrow> with_alg alg e = e"
  by (cases e) (auto simp: goes_on_reading_def)

lemma entry_decoded:
  assumes cs: "checksum_law (d_checksum env)" and alg: "alg = 0 \<or> alg = 1"
    and ok: "entry_ok env x" and b: "b = entry_bytes (d_checksum env) (alg \<noteq> 0) x"
  shows "\<exists>e crc. read_log_event env (written_format alg) b (length b) = Inr (written_format alg, Decoded e crc)
    \<and> written_part e = written_part (fst x) \<and> goes_on_reading e"
proof -
  obtain e h t parts where x: "x = (e, h, t, parts)" by (cases x)
  define data where "data = concat parts"
  define footer where "footer = event_footer (d_checksum env) (alg \<noteq> 0) h t data"
  have w: "writes (d_addr env) e h t parts" and h: "header_ok h" and ev: "even (eh_flags h)" and ig: "\<not> has_flag (eh_flags h) LOG_EVENT_IGNORABLE_F"
    and l23: "length data + 23 < 2 ^ 32" using ok by (simp_all add: x entry_ok_def data_def)
  have t: "t \<noteq> 1" "t \<noteq> 7" "t \<noteq> 15" "t \<le> 171" "t < 256" using writes_type [OF w] by auto
  have b': "b = write_event h t (length data) data footer" by (simp add: b x entry_bytes_def data_def footer_def)
  have lf: "length footer = (if alg = 0 then 0 else 4)" by (simp add: footer_def)
  have l: "length b < 2 ^ 32" using l23 lf by (simp add: b' write_event_def split: if_splits)
  note s = sent_reads [OF b' l t(5) h]
  obtain e' where c: "read_class env (written_format alg) t b (length b - length footer) = Inr (Some e')"
    and p: "written_part e' = written_part e" using class_read [OF w h b' data_def l, of alg] by blast
  note g = written_goes_on [OF w p]
  have test: "event_checksum_test (d_checksum env) b (length b) alg = Inr False"
  proof (cases "alg = 0")
    case True
    then show ?thesis by (simp add: event_checksum_test_def BINLOG_CHECKSUM_ALG_OFF_def)
  next
    case False
    then have "b = write_event h t (length data) data (event_footer (d_checksum env) True h t data)" by (simp add: b' footer_def)
    then show ?thesis by (rule checksum_passes [OF cs _ l t(5)]) (use ev in simp)
  qed
  have crc: "\<exists>x. rd 4 b (length b - 4) = Inr x" using s(5) lf by (simp add: rd_def)
  have "\<exists>crc. decode_event env (written_format alg) t alg b (length b) = Inr (Decoded e' crc)"
    using alg
  proof
    assume "alg = 0"
    then show ?thesis using c t flags_read [OF b' h] ig lf goes_on_with_alg [OF g]
      by (simp add: decode_event_def BINLOG_CHECKSUM_ALG_OFF_def BINLOG_CHECKSUM_ALG_UNDEF_def Let_def)
  next
    assume "alg = 1"
    then show ?thesis using c t flags_read [OF b' h] ig lf goes_on_with_alg [OF g] crc
      by (auto simp: decode_event_def BINLOG_CHECKSUM_ALG_OFF_def BINLOG_CHECKSUM_ALG_UNDEF_def Let_def)
  qed
  then show ?thesis using s(2,5) t test g p by (auto simp: read_log_event_def Let_def x)
qed

section \<open>The frames of a file\<close>

lemma small_events_fit [simp]: "n \<le> 880 \<Longrightarrow> n \<le> event_limit env"
  by (simp add: event_limit_def MAX_LOG_EVENT_HEADER_def)

lemma frame_read:
  assumes b: "b = write_event h t (length data) data footer" and l: "length b < 2 ^ 32" and m: "length b \<le> event_limit env"
  shows "next_frame env (b @ r) = Frame b r" "0 < n \<Longrightarrow> n < length b \<Longrightarrow> next_frame env (take n b) = Frame_error ''Event truncated'' []"
proof -
  have len: "length b = 19 + length data + length footer" by (simp add: b write_event_def)
  have "reads_as b 9 (le_store 4 (int (length b)) @ le_store 4 (eh_log_pos h) @ le_store 2 (eh_flags h) @ data @ footer)"
    unfolding reads_as_def b write_event_def write_header_def LOG_EVENT_HEADER_LEN_def
    by (rule exI [of _ "le_store 4 (eh_when h) @ byte_of (int t) # le_store 4 (eh_server_id h)"]) (simp add: add_ac)
  then have "rd 4 b 9 = Inr (int (length b))" using rd_reads [of b 9 "le_store 4 (int (length b))"] l by simp
  then have u: "ukorr 4 (drop 9 b) = int (length b)" using len by (simp add: rd_def)
  have "ukorr 4 (drop 9 (b @ r)) = int (length b)" using u len by (simp add: ukorr_def)
  moreover have "19 \<le> length b" "b \<noteq> []" using len by auto
  ultimately show "next_frame env (b @ r) = Frame b r" using m by (simp add: next_frame_def Let_def)
  assume n: "0 < n" "n < length b"
  have "ukorr 4 (drop 9 (take n b)) = int (length b)" if "19 \<le> n" using u len n that by (simp add: ukorr_def drop_take min_def)
  then show "next_frame env (take n b) = Frame_error ''Event truncated'' []" using len n m by (auto simp: next_frame_def Let_def)
qed

lemma log_events_Nil: "log_events env fmt [] = Inr ([], At_end)"
  by (subst log_events.simps) (simp add: next_frame_def)

lemma log_events_truncated:
  "next_frame env rest = Frame_error m r \<Longrightarrow> \<not> d_force env \<Longrightarrow> log_events env fmt rest = Inr ([], Failed m)"
  by (subst log_events.simps) simp

lemma log_events_next:
  assumes "next_frame env rest = Frame b r" "read_log_event env fmt b (length b) = Inr (fmt', Decoded e crc)"
    and "goes_on_reading e \<and> fmt2 = fmt' \<or> e = Format_logged f \<and> fmt2 = fe_format f"
  shows "log_events env fmt rest = and_then (log_events env fmt2 r) (\<lambda>(es, z). Inr ((e, crc) # es, z))"
  using assms by (subst log_events.simps) (auto simp: goes_on_reading_def split: any_event.splits)

text \<open>How many of the events are complete in so many bytes.\<close>

fun whole :: "nat \<Rightarrow> string list \<Rightarrow> nat" where
  "whole n [] = 0"
| "whole n (c # cs) = (if length c \<le> n then Suc (whole (n - length c) cs) else 0)"

text \<open>How the reading ends when the file has been cut off after so many bytes.\<close>

definition cut_end :: "nat \<Rightarrow> string list \<Rightarrow> log_end" where
  "cut_end n cs = (if min n (length (concat cs)) = length (concat (take (whole n cs) cs)) then At_end else Failed ''Event truncated'')"

lemma cut_end_Cons: "length c \<le> n \<Longrightarrow> cut_end n (c # cs) = cut_end (n - length c) cs"
  by (auto simp: cut_end_def)

lemma entry_frame:
  assumes "entry_ok env x" "b = entry_bytes cs sums x"
  shows "next_frame env (b @ r) = Frame b r" "0 < n \<Longrightarrow> n < length b \<Longrightarrow> next_frame env (take n b) = Frame_error ''Event truncated'' []"
    "0 < length b"
proof -
  obtain e h t parts where x: "x = (e, h, t, parts)" by (cases x)
  have b: "b = write_event h t (length (concat parts)) (concat parts) (event_footer cs sums h t (concat parts))"
    by (simp add: assms(2) x entry_bytes_def)
  have l: "length b < 2 ^ 32" "length b \<le> event_limit env" using assms(1) by (simp_all add: b write_event_def x entry_ok_def)
  show "next_frame env (b @ r) = Frame b r" "0 < n \<Longrightarrow> n < length b \<Longrightarrow> next_frame env (take n b) = Frame_error ''Event truncated'' []"
    using frame_read [OF b l] by blast+
  show "0 < length b" by (simp add: b write_event_def)
qed

lemma chunks_read:
  assumes cs: "checksum_law (d_checksum env)" and alg: "alg = 0 \<or> alg = 1" and f: "\<not> d_force env"
  shows "\<forall>x \<in> set entries. entry_ok env x \<Longrightarrow> chunks = map (entry_bytes (d_checksum env) (alg \<noteq> 0)) entries \<Longrightarrow>
    \<exists>es. log_events env (written_format alg) (take n (concat chunks)) = Inr (es, cut_end n chunks)
      \<and> map (written_part \<circ> fst) es = map (written_part \<circ> fst) (take (whole n chunks) entries)"
proof (induction entries arbitrary: n chunks)
  case Nil
  then show ?case by (simp add: log_events_Nil cut_end_def)
next
  case (Cons x xs)
  let ?b = "entry_bytes (d_checksum env) (alg \<noteq> 0) x" and ?cs = "map (entry_bytes (d_checksum env) (alg \<noteq> 0)) xs"
  have ok: "entry_ok env x" and xs: "\<forall>x \<in> set xs. entry_ok env x" using Cons.prems(1) by simp_all
  note fr = entry_frame [where cs = "d_checksum env" and sums = "alg \<noteq> 0", OF ok refl]
  show ?case
  proof (cases "length ?b \<le> n")
    case True
    obtain e crc where d: "read_log_event env (written_format alg) ?b (length ?b) = Inr (written_format alg, Decoded e crc)"
      "written_part e = written_part (fst x)" "goes_on_reading e" using entry_decoded [OF cs alg ok refl] by blast
    obtain es where es: "log_events env (written_format alg) (take (n - length ?b) (concat ?cs)) = Inr (es, cut_end (n - length ?b) ?cs)"
      "map (written_part \<circ> fst) es = map (written_part \<circ> fst) (take (whole (n - length ?b) ?cs) xs)"
      using Cons.IH [OF xs refl, of "n - length ?b"] by blast
    have "log_events env (written_format alg) (take n (concat chunks)) = Inr ((e, crc) # es, cut_end (n - length ?b) ?cs)"
      using log_events_next [OF fr(1) d(1), of "written_format alg"] d(3) es(1) True Cons.prems(2) by simp
    then show ?thesis using es(2) d(2) True Cons.prems(2) by (simp add: cut_end_Cons comp_def)
  next
    case False
    have w: "whole n chunks = 0" using False Cons.prems(2) by simp
    have tk: "take n (concat chunks) = take n ?b" using False Cons.prems(2) by simp
    show ?thesis
    proof (cases "n = 0")
      case True
      then show ?thesis using w by (simp add: log_events_Nil cut_end_def)
    next
      case n: False
      have "min n (length (concat chunks)) = n" using False Cons.prems(2) by simp
      then have ce: "cut_end n chunks = Failed ''Event truncated''" using w n by (simp add: cut_end_def)
      have "log_events env (written_format alg) (take n ?b) = Inr ([], Failed ''Event truncated'')"
        by (rule log_events_truncated [OF fr(2) f]) (use n False in simp_all)
      then show ?thesis by (simp add: tk ce w)
    qed
  qed
qed

section \<open>A log that is cut off\<close>

definition format_bytes :: "checksum \<Rightarrow> int \<Rightarrow> event_header \<Rightarrow> string \<Rightarrow> int \<Rightarrow> string" where
  "format_bytes cs alg h version created =
     (let data = concat (format_parts version created alg) in write_event h 15 (length data) data (event_footer cs True h 15 data))"

text \<open>The events of a log, one by one.\<close>

definition log_chunks ::
  "checksum \<Rightarrow> int \<Rightarrow> event_header \<Rightarrow> string \<Rightarrow> int \<Rightarrow> (any_event \<times> event_header \<times> nat \<times> string list) list \<Rightarrow> string list" where
  "log_chunks cs alg h version created entries =
     format_bytes cs alg h version created # map (entry_bytes cs (alg \<noteq> 0)) entries"

lemma entries_written:
  assumes "checksum_law cs"
  shows "wr_file (fold (\<lambda>(e, h, t, parts). write_parts cs sums h t parts) entries w) =
    wr_file w @ concat (map (entry_bytes cs sums) entries)"
proof (induction entries arbitrary: w)
  case (Cons x xs)
  then show ?case using write_parts_event [OF assms refl] by (cases x) (simp add: entry_bytes_def)
qed simp

lemma write_log_chunks:
  assumes "checksum_law cs"
  shows "write_log cs alg h version created entries = concat (log_chunks cs alg h version created entries)"
  using write_parts_event [OF assms refl, of True h 15 "format_parts version created alg"]
  by (simp add: write_log_def log_chunks_def entries_written [OF assms] write_format_description_def format_bytes_def Let_def)

definition written_description :: "int \<Rightarrow> event_header \<Rightarrow> string \<Rightarrow> int \<Rightarrow> any_event" where
  "written_description alg h version created =
     Format_logged \<lparr> fe_header = h, fe_server_version = version, fe_created = created, fe_format = written_format alg \<rparr>"

lemma description_decoded:
  assumes cs: "checksum_law (d_checksum env)" and alg: "alg = 0 \<or> alg = 1" and v: "version_ok version"
    and h: "header_ok h" "\<not> has_flag (eh_flags h) LOG_EVENT_IGNORABLE_F" and c: "0 \<le> created" "created < 2 ^ 32"
    and fmt: "fmt_version fmt \<noteq> 1" and b: "b = format_bytes (d_checksum env) alg h version created"
  shows "\<exists>crc. read_log_event env fmt b (length b) = Inr (fmt, Decoded (written_description alg h version created) crc)"
    "length b = 252"
proof -
  define data where "data = concat (format_parts version created alg)"
  define footer where "footer = event_footer (d_checksum env) True h 15 data"
  have b': "b = write_event h 15 (length data) data footer" by (simp add: b format_bytes_def data_def footer_def Let_def)
  have lf: "length footer = 4" by (simp add: footer_def)
  have a: "0 \<le> alg" "alg < 128" using alg by auto
  note rb = format_read_back [OF cs v h(1) c a fmt b' data_def lf]
  show l: "length b = 252" by (rule rb(1))
  have t: "rd 1 b 4 = Inr 15" using write_event_reads(1) [OF b' refl] l by simp
  have test: "event_checksum_test (d_checksum env) b (length b) alg = Inr False"
    by (rule checksum_passes [OF cs b' [unfolded footer_def]]) (simp_all add: l)
  have crc: "\<exists>x. rd 4 b 248 = Inr x" using l by (simp add: rd_def)
  have cl: "read_class env fmt 15 b 248 = Inr (Some (written_description alg h version created))"
    using rb(3) by (simp add: read_class_def l written_description_def written_format_def)
  have "\<exists>crc. decode_event env fmt 15 alg b 252 = Inr (Decoded (written_description alg h version created) crc)"
    using alg
  proof
    assume "alg = 0"
    then show ?thesis using cl flags_read [OF b' h(1)] h(2)
      by (simp add: decode_event_def BINLOG_CHECKSUM_ALG_OFF_def BINLOG_CHECKSUM_ALG_UNDEF_def Let_def written_description_def written_format_def)
  next
    assume "alg = 1"
    then show ?thesis using cl flags_read [OF b' h(1)] h(2) crc
      by (auto simp: decode_event_def BINLOG_CHECKSUM_ALG_OFF_def BINLOG_CHECKSUM_ALG_UNDEF_def Let_def written_description_def written_format_def)
  qed
  then show "\<exists>crc. read_log_event env fmt b (length b) = Inr (fmt, Decoded (written_description alg h version created) crc)"
    using t rb(2) test l by (auto simp: read_log_event_def Let_def)
qed

lemma description_next:
  assumes cs: "checksum_law (d_checksum env)" and alg: "alg = 0 \<or> alg = 1" and v: "version_ok version"
    and h: "header_ok h" "\<not> has_flag (eh_flags h) LOG_EVENT_IGNORABLE_F" and c: "0 \<le> created" "created < 2 ^ 32"
    and fmt: "fmt_version fmt \<noteq> 1" and b: "b = format_bytes (d_checksum env) alg h version created"
  shows "\<exists>crc. \<forall>r. log_events env fmt (b @ r) = and_then (log_events env (written_format alg) r)
    (\<lambda>(es, z). Inr ((written_description alg h version created, crc) # es, z))"
proof -
  obtain crc where d: "read_log_event env fmt b (length b) = Inr (fmt, Decoded (written_description alg h version created) crc)"
    using description_decoded(1) [OF cs alg v h c fmt b] by blast
  have l: "length b < 2 ^ 32" using description_decoded(2) [OF cs alg v h c fmt b] by simp
  have m: "length b \<le> event_limit env" using description_decoded(2) [OF cs alg v h c fmt b] by simp
  note fr = frame_read(1) [OF b [unfolded format_bytes_def Let_def] l m]
  show ?thesis by (intro exI [of _ crc] allI, rule log_events_next [OF fr d]) (auto simp: written_description_def)
qed

lemma log_cut:
  assumes cs: "checksum_law (d_checksum env)" and alg: "alg = 0 \<or> alg = 1" and f: "\<not> d_force env" and v: "version_ok version"
    and h: "header_ok h" "\<not> has_flag (eh_flags h) LOG_EVENT_IGNORABLE_F" and c: "0 \<le> created" "created < 2 ^ 32"
    and fmt: "fmt_version fmt \<noteq> 1" and ok: "\<forall>x \<in> set entries. entry_ok env x"
    and chunks: "chunks = log_chunks (d_checksum env) alg h version created entries"
  shows "\<exists>es. log_events env fmt (take n (concat chunks)) = Inr (es, cut_end n chunks)
    \<and> map (written_part \<circ> fst) es =
      take (whole n chunks) (written_description alg h version created # map (written_part \<circ> fst) entries)"
proof -
  define b where "b = format_bytes (d_checksum env) alg h version created"
  let ?cs = "map (entry_bytes (d_checksum env) (alg \<noteq> 0)) entries"
  have ch: "chunks = b # ?cs" by (simp add: chunks log_chunks_def b_def)
  define data where "data = concat (format_parts version created alg)"
  have b': "b = write_event h 15 (length data) data (event_footer (d_checksum env) True h 15 data)"
    by (simp add: b_def format_bytes_def data_def Let_def)
  obtain crc where crc: "log_events env fmt (b @ r) = and_then (log_events env (written_format alg) r)
      (\<lambda>(es, z). Inr ((written_description alg h version created, crc) # es, z))" for r
    using description_next [OF cs alg v h c fmt b_def] by blast
  have l: "length b = 252" by (rule description_decoded(2) [OF cs alg v h c fmt b_def])
  have l32: "length b < 2 ^ 32" "length b \<le> event_limit env" by (simp_all add: l)
  note fr = frame_read [OF b' l32]
  show ?thesis
  proof (cases "252 \<le> n")
    case True
    obtain es where es: "log_events env (written_format alg) (take (n - 252) (concat ?cs)) = Inr (es, cut_end (n - 252) ?cs)"
      "map (written_part \<circ> fst) es = map (written_part \<circ> fst) (take (whole (n - 252) ?cs) entries)"
      using chunks_read [OF cs alg f ok refl] by blast
    have "log_events env fmt (take n (concat chunks)) =
        Inr ((written_description alg h version created, crc) # es, cut_end n chunks)"
      using crc es(1) True l by (simp add: ch cut_end_Cons)
    then show ?thesis using es(2) True l by (simp add: ch take_map written_description_def)
  next
    case False
    have w: "whole n chunks = 0" using False l by (simp add: ch)
    have tk: "take n (concat chunks) = take n b" using False l by (simp add: ch)
    show ?thesis
    proof (cases "n = 0")
      case True
      then show ?thesis using w by (simp add: log_events_Nil cut_end_def)
    next
      case n: False
      have "cut_end n chunks = Failed ''Event truncated''" using w n False l by (simp add: cut_end_def ch)
      moreover have "log_events env fmt (take n b) = Inr ([], Failed ''Event truncated'')"
        by (rule log_events_truncated [OF fr(2) f]) (use n False l in simp_all)
      ultimately show ?thesis by (simp add: tk w)
    qed
  qed
qed

text \<open>C7: A log that the server writes, with or without checksums, and that is cut off anywhere is read as
  the events that are complete in it, as they were written: the description of the format, queries with
  their settings, transaction ids, table maps, rows, commits and the others. The reading ends without
  an error exactly if the log is cut off between two events.\<close>

theorem cut_log_read:
  assumes "checksum_law (d_checksum env)" "alg = 0 \<or> alg = 1" "\<not> d_force env" "version_ok version"
    and "header_ok h" "\<not> has_flag (eh_flags h) LOG_EVENT_IGNORABLE_F" "0 \<le> created" "created < 2 ^ 32"
    and "fmt_version fmt \<noteq> 1" "\<forall>x \<in> set entries. entry_ok env x"
    and chunks: "chunks = log_chunks (d_checksum env) alg h version created entries"
  shows "\<exists>es. log_events env fmt (take n (write_log (d_checksum env) alg h version created entries)) = Inr (es, cut_end n chunks)
    \<and> map (written_part \<circ> fst) es =
      take (whole n chunks) (written_description alg h version created # map (written_part \<circ> fst) entries)"
  using log_cut [OF assms] write_log_chunks [OF assms(1)] chunks by simp

definition demo_checksum :: checksum where
  "demo_checksum c s = (c + sum_list (map ubyte s)) mod 2 ^ 32"

lemma demo_checksum_law: "checksum_law demo_checksum"
  by (simp add: checksum_law_def demo_checksum_def mod_simps add.assoc)

definition demo_decode_env :: decode_env where
  "demo_decode_env = \<lparr> d_checksum = demo_checksum, d_verify = True, d_force = False, d_addr = 0, d_max_allowed_packet = 2 ^ 30,
     d_rows_event_max_size = 2 ^ 32 - 256, d_others = (\<lambda>fmt t b len. Inr False) \<rparr>"

definition demo_log_header :: event_header where
  "demo_log_header = \<lparr> eh_when = 1700000000, eh_server_id = 1, eh_log_pos = 500, eh_flags = 0 \<rparr>"

definition demo_entries :: "(any_event \<times> event_header \<times> nat \<times> string list) list" where
  "demo_entries = [(Xid_logged demo_log_header 77, demo_log_header, 16, [xid_data 77]),
     (Rotate_logged demo_log_header ''b.02'' 4, demo_log_header, 4, [rotate_data ''b.02'' 4])]"

lemma demo_header_ok: "header_ok demo_log_header" "\<not> has_flag (eh_flags demo_log_header) LOG_EVENT_IGNORABLE_F"
  "even (eh_flags demo_log_header)"
  by (simp_all add: header_ok_def demo_log_header_def has_flag_def LOG_EVENT_IGNORABLE_F_def)

lemma demo_entries_ok: "\<forall>x \<in> set demo_entries. entry_ok env x"
  using writes_xid [of 77 "d_addr env"] writes_rotate [of "''b.02''" 4 "d_addr env"]
  by (simp add: demo_entries_def entry_ok_def demo_header_ok xid_data_def rotate_data_def)

lemma demo_version_numbers: "n = Suc (Suc (Suc 0)) \<Longrightarrow> split_numbers 0 n ''10.3.23-MariaDB'' [] = ([10, 3, 23], ''-MariaDB'')"
  by (simp add: Let_def strtoul_def strtoul_rest_def is_space_def is_digit_def digit_val_def)

lemma demo_version_ok: "version_ok ''10.3.23-MariaDB''"
  by (simp add: version_ok_def do_server_version_split_def demo_version_numbers is_version_before_checksum_def version_product_def)

theorem cut_log_read_witness:
  "\<exists>es. log_events demo_decode_env (written_format 255)
      (take 300 (write_log demo_checksum 1 demo_log_header ''10.3.23-MariaDB'' 0 demo_entries)) = Inr (es, Failed ''Event truncated'')
    \<and> map (written_part \<circ> fst) es = [written_description 1 demo_log_header ''10.3.23-MariaDB'' 0, Xid_logged demo_log_header 77]"
proof -
  let ?chunks = "log_chunks demo_checksum 1 demo_log_header ''10.3.23-MariaDB'' 0 demo_entries"
  have l: "length (format_bytes demo_checksum 1 demo_log_header ''10.3.23-MariaDB'' 0) = 252"
    by (rule description_decoded(2) [of demo_decode_env 1 "''10.3.23-MariaDB''" demo_log_header 0 "written_format 255"])
      (simp_all add: demo_decode_env_def demo_checksum_law demo_version_ok demo_header_ok)
  have lens: "map length ?chunks = [252, 31, 35]"
    using l by (simp add: log_chunks_def demo_entries_def entry_bytes_def write_event_def xid_data_def rotate_data_def)
  then have "whole 300 ?chunks = 2" "cut_end 300 ?chunks = Failed ''Event truncated''"
    by (auto simp: cut_end_def log_chunks_def demo_entries_def)
  then show ?thesis
    using cut_log_read [of demo_decode_env 1 "''10.3.23-MariaDB''" demo_log_header 0 "written_format 255" demo_entries ?chunks 300]
      demo_checksum_law demo_version_ok demo_header_ok demo_entries_ok
    by (simp add: demo_decode_env_def demo_entries_def)
qed

section \<open>A damaged event\<close>

text \<open>An event of the announced length, within what the reader allows, whose checksum is not that of its bytes; its
  type is neither that of an old start event (1) nor that of a description of the format (15), which both
  decide on the checksums themselves.\<close>

definition damaged :: "decode_env \<Rightarrow> string \<Rightarrow> bool" where
  "damaged env b \<longleftrightarrow> 19 \<le> length b \<and> length b \<le> event_limit env \<and> ukorr 4 (drop 9 b) = int (length b) \<and> ukorr 1 (drop 4 b) \<notin> {1, 15}
     \<and> d_checksum env 0 (take (length b - 4) b) \<noteq> ukorr 4 (drop (length b - 4) b)"

lemma entries_prefix:
  assumes cs: "checksum_law (d_checksum env)" and alg: "alg = 0 \<or> alg = 1"
  shows "\<forall>x \<in> set entries. entry_ok env x \<Longrightarrow>
    \<exists>es. (\<forall>r. log_events env (written_format alg) (concat (map (entry_bytes (d_checksum env) (alg \<noteq> 0)) entries) @ r) =
        and_then (log_events env (written_format alg) r) (\<lambda>(es', z). Inr (es @ es', z)))
      \<and> map (written_part \<circ> fst) es = map (written_part \<circ> fst) entries"
proof (induction entries)
  case Nil
  then show ?case by (intro exI [of _ "[]"]) (auto simp: and_then_def split: sum.splits)
next
  case (Cons x xs)
  let ?b = "entry_bytes (d_checksum env) (alg \<noteq> 0) x"
  have ok: "entry_ok env x" and xs: "\<forall>x \<in> set xs. entry_ok env x" using Cons.prems by simp_all
  obtain e crc where d: "read_log_event env (written_format alg) ?b (length ?b) = Inr (written_format alg, Decoded e crc)"
    "written_part e = written_part (fst x)" "goes_on_reading e" using entry_decoded [OF cs alg ok refl] by blast
  obtain es where es: "\<And>r. log_events env (written_format alg) (concat (map (entry_bytes (d_checksum env) (alg \<noteq> 0)) xs) @ r) =
      and_then (log_events env (written_format alg) r) (\<lambda>(es', z). Inr (es @ es', z))"
    "map (written_part \<circ> fst) es = map (written_part \<circ> fst) xs" using Cons.IH [OF xs] by blast
  have "log_events env (written_format alg) (?b @ r) =
      and_then (log_events env (written_format alg) r) (\<lambda>(es, z). Inr ((e, crc) # es, z))" for r
    by (rule log_events_next [OF entry_frame(1) [OF ok refl] d(1)]) (simp add: d(3))
  then show ?case using es d(2) by (intro exI [of _ "(e, crc) # es"]) (simp add: and_then_assoc case_prod_unfold comp_def)
qed

lemma damage_found:
  assumes "damaged env b" "d_verify env" "\<not> d_force env"
  shows "log_events env (written_format 1) (b @ r) = Inr ([], Failed ''Event crc check failed! Most likely there is event corruption.'')"
proof -
  note d = assms(1) [unfolded damaged_def]
  have "ukorr 4 (drop 9 (b @ r)) = int (length b)" using d by (simp add: ukorr_def)
  then have f: "next_frame env (b @ r) = Frame b r" using d by (auto simp: next_frame_def Let_def)
  have t: "rd 1 b 4 = Inr (ukorr 1 (drop 4 b))" using d by (simp add: rd_def)
  have "event_checksum_test (d_checksum env) b (length b) 1 = Inr True"
    using d t by (simp add: event_checksum_test_def BINLOG_CHECKSUM_ALG_OFF_def BINLOG_CHECKSUM_ALG_UNDEF_def rd_def rd_bytes_def)
  then have "read_log_event env (written_format 1) b (length b) =
      Inr (written_format 1, Decode_error ''Event crc check failed! Most likely there is event corruption.'')"
    using d t assms(2,3) by (simp add: read_log_event_def Let_def unknown_or_def)
  then show ?thesis using f by (subst log_events.simps) simp
qed

text \<open>C8: With verification, a log with checksums in which an event has been damaged so that its checksum is wrong is
  read up to that event, as it was written, and no further: nothing of the damaged event is taken for an event, whatever
  its other bytes and those behind it are. The length in the event's header must be intact, and its type must not have become
  that of an old start event or of a description of the format: the former turns the verification off (see below), the
  latter brings its own algorithm.\<close>

theorem damage_stops_reading:
  assumes "checksum_law (d_checksum env)" "d_verify env" "\<not> d_force env" "version_ok version"
    and "header_ok h" "\<not> has_flag (eh_flags h) LOG_EVENT_IGNORABLE_F" "0 \<le> created" "created < 2 ^ 32"
    and "fmt_version fmt \<noteq> 1" "\<forall>x \<in> set entries. entry_ok env x" "damaged env b"
  shows "\<exists>es. log_events env fmt (write_log (d_checksum env) 1 h version created entries @ b @ r) =
      Inr (es, Failed ''Event crc check failed! Most likely there is event corruption.'')
    \<and> map (written_part \<circ> fst) es = written_description 1 h version created # map (written_part \<circ> fst) entries"
proof -
  obtain crc where d: "\<And>r. log_events env fmt (format_bytes (d_checksum env) 1 h version created @ r) =
      and_then (log_events env (written_format 1) r) (\<lambda>(es, z). Inr ((written_description 1 h version created, crc) # es, z))"
    using description_next [OF assms(1) disjI2 [OF refl] assms(4-9) refl] by blast
  obtain es where es: "\<And>r. log_events env (written_format 1) (concat (map (entry_bytes (d_checksum env) True) entries) @ r) =
      and_then (log_events env (written_format 1) r) (\<lambda>(es', z). Inr (es @ es', z))"
    "map (written_part \<circ> fst) es = map (written_part \<circ> fst) entries"
    using entries_prefix [OF assms(1) disjI2 [OF refl] assms(10)] by auto
  show ?thesis using d es damage_found [OF assms(11,2,3)]
    by (intro exI [of _ "(written_description 1 h version created, crc) # es"])
      (simp add: write_log_chunks [OF assms(1)] log_chunks_def written_description_def)
qed

definition demo_damaged :: string where
  "demo_damaged = write_event demo_log_header 16 8 (xid_data 78) (le_store 4 0)"

theorem damage_stops_reading_witness:
  "\<exists>es. log_events demo_decode_env (written_format 255)
      (write_log demo_checksum 1 demo_log_header ''10.3.23-MariaDB'' 0 demo_entries @ demo_damaged @ ''more'') =
      Inr (es, Failed ''Event crc check failed! Most likely there is event corruption.'')
    \<and> map (written_part \<circ> fst) es = [written_description 1 demo_log_header ''10.3.23-MariaDB'' 0,
      Xid_logged demo_log_header 77, Rotate_logged demo_log_header ''b.02'' 4]"
proof -
  have "d_checksum demo_decode_env = demo_checksum" by (simp add: demo_decode_env_def)
  then have "damaged demo_decode_env demo_damaged"
    by (simp add: damaged_def demo_damaged_def demo_checksum_def demo_log_header_def write_event_def write_header_def xid_data_def
        LOG_EVENT_HEADER_LEN_def ukorr_def eval_nat_numeral)
  then show ?thesis
    using damage_stops_reading [of demo_decode_env "''10.3.23-MariaDB''" demo_log_header 0 "written_format 255" demo_entries demo_damaged "''more''"]
      demo_checksum_law demo_version_ok demo_header_ok demo_entries_ok
    by (simp add: demo_decode_env_def demo_entries_def)
qed

text \<open>One byte is enough to escape: an event whose type has become that of an old start event is not verified, and
  neither is any event behind it.\<close>

lemma old_start_not_verified:
  assumes "9 \<le> n" "rd 1 b 4 = Inr 1"
  shows "read_log_event env fmt b n =
    and_then (decode_event env (fmt\<lparr>fmt_alg := BINLOG_CHECKSUM_ALG_OFF\<rparr>) 1 BINLOG_CHECKSUM_ALG_OFF b n)
      (\<lambda>d. Inr (fmt\<lparr>fmt_alg := BINLOG_CHECKSUM_ALG_OFF\<rparr>, d))"
  using assms by (simp add: read_log_event_def event_checksum_test_def Let_def)

section \<open>From the bytes of a log to the session of a client\<close>

text \<open>The events whose text is executed.\<close>

fun text_ev :: "any_event \<Rightarrow> int option \<Rightarrow> text_event option" where
  "text_ev (Query_logged q) crc = Some (Query_ev q crc)"
| "text_ev (Gtid_logged g) crc = Some (Gtid_ev g crc)"
| "text_ev (Xid_logged h x) crc = Some (Xid_ev h x crc)"
| "text_ev (Format_logged f) crc = Some (Format_ev (fe_header f) (fmt_version (fe_format f)) (fe_server_version f) (fe_created f) crc)"
| "text_ev (Start_logged h v sv created) crc = Some (Format_ev h v sv created crc)"
| "text_ev _ crc = None"

definition text_events :: "(any_event \<times> int option) list \<Rightarrow> text_event list" where
  "text_events es = List.map_filter (\<lambda>(e, crc). text_ev e crc) es"

lemma text_events_simps [simp]:
  "text_events [] = []"
  "text_events ((e, crc) # es) = (case text_ev e crc of None \<Rightarrow> text_events es | Some t \<Rightarrow> t # text_events es)"
  by (simp_all add: text_events_def map_filter_simps split: option.split)

text \<open>Queries, transaction ids, commits and descriptions of the format; the queries are those of \<open>query_ok\<close>.\<close>

fun text_entry :: "any_event \<Rightarrow> bool" where
  "text_entry (Query_logged q) = query_ok q"
| "text_entry (Gtid_logged g) = True"
| "text_entry (Xid_logged h x) = True"
| "text_entry (Format_logged f) = (NL \<notin> set (fe_server_version f))"
| "text_entry _ = False"

lemma written_part_text: "written_part e' = written_part e \<Longrightarrow> text_entry e \<Longrightarrow> e' = e"
  by (cases e' rule: written_part.cases; cases e; simp)

lemma written_parts_text:
  "map (written_part \<circ> fst) es = map (written_part \<circ> fst) xs \<Longrightarrow> \<forall>x \<in> set xs. text_entry (fst x) \<Longrightarrow> map fst es = map fst xs"
proof (induction xs arbitrary: es)
  case (Cons x xs)
  then obtain y ys where es: "es = y # ys" by (cases es) auto
  then show ?case using Cons written_part_text [of "fst y" "fst x"] by (auto simp: comp_def)
qed simp

text \<open>Which statements should run does not depend on the checksums.\<close>

lemma logged_runs_text:
  "map fst es = map fst xs \<Longrightarrow> logged_runs g (text_events es) = logged_runs g (text_events (map (\<lambda>x. (fst x, None)) xs))"
proof (induction es arbitrary: g xs)
  case (Cons y es)
  then obtain x xs' where xs: "xs = x # xs'" "fst x = fst y" "map fst es = map fst xs'" by (cases xs) auto
  obtain e crc where y: "y = (e, crc)" by (cases y)
  show ?case using Cons.IH [OF xs(3)] xs(1,2) by (cases e) (simp_all add: y)
qed simp

lemma text_events_ok:
  "map fst es = map fst xs \<Longrightarrow> \<forall>x \<in> set xs. text_entry (fst x) \<Longrightarrow> \<forall>e \<in> set (text_events es). text_event_ok e"
proof (induction es arbitrary: xs)
  case (Cons y es)
  then obtain x xs' where xs: "xs = x # xs'" "fst x = fst y" "map fst es = map fst xs'" by (cases xs) auto
  obtain e crc where y: "y = (e, crc)" by (cases y)
  show ?case using Cons.IH [OF xs(3)] Cons.prems(2) xs(1,2) by (cases e) (auto simp: y)
qed simp

text \<open>C6: From the bytes of a log to the statements of a client: when a log of queries, transaction ids and commits,
  with or without checksums, is cut off anywhere, the text of the events that are read from it, executed by a client
  in whatever session, runs exactly the statements of the events that are complete in the log, each under the settings and
  the transaction id that the server logged it with; first the \<open>ROLLBACK\<close> of the log's description, when the
  server wrote it at its start. The conditions on the queries are those of \<open>session_replayed\<close>; the marks of the
  capture are not part of the text.\<close>

theorem log_replayed:
  assumes "checksum_law (d_checksum env)" "alg = 0 \<or> alg = 1" "\<not> d_force env" "version_ok version"
    and "header_ok h" "\<not> has_flag (eh_flags h) LOG_EVENT_IGNORABLE_F" "0 \<le> created" "created < 2 ^ 32"
    and "fmt_version fmt \<noteq> 1" "\<forall>x \<in> set entries. entry_ok env x"
    and t: "\<forall>x \<in> set entries. text_entry (fst x)" and v: "NL \<notin> set version" and ce: "client_env tenv"
  shows "\<exists>es z t s. log_events env fmt (take n (write_log (d_checksum env) alg h version created entries)) = Inr (es, z)
    \<and> print_seq (map (print_text_event tenv) (text_events es)) dump_event_info = Inr (t, s)
    \<and> list_all2 run_right
        (logged_runs None (text_events (map (\<lambda>e. (e, None)) (take (whole n (log_chunks (d_checksum env) alg h version created entries))
          (written_description alg h version created # map fst entries)))))
        (client_runs (log_text t) c)"
proof -
  let ?chunks = "log_chunks (d_checksum env) alg h version created entries"
  let ?k = "whole n ?chunks" and ?d = "written_description alg h version created"
  let ?xs = "map (\<lambda>e. (e, None :: int option)) (take ?k (?d # map fst entries))"
  obtain es where es: "log_events env fmt (take n (concat ?chunks)) = Inr (es, cut_end n ?chunks)"
    "map (written_part \<circ> fst) es = take ?k (?d # map (written_part \<circ> fst) entries)"
    using log_cut [OF assms(1-10) refl] by blast
  have "text_entry ?d" using v by (simp add: written_description_def)
  then have k: "\<forall>x \<in> set ?xs. text_entry (fst x)" using t by (auto dest!: in_set_takeD)
  have "written_part ?d = ?d" by (simp add: written_description_def)
  then have "map (written_part \<circ> fst) es = map (written_part \<circ> fst) ?xs" using es(2) by (simp add: take_map [symmetric] comp_def)
  then have m: "map fst es = map fst ?xs" by (rule written_parts_text [OF _ k])
  obtain t s where ts: "print_seq (map (print_text_event tenv) (text_events es)) dump_event_info = Inr (t, s)"
    "list_all2 run_right (logged_runs None (text_events es)) (client_runs (log_text t) c)"
    using events_run [OF text_events_ok [OF m k] ce, of c] by blast
  have "logged_runs None (text_events es) = logged_runs None (text_events ?xs)" using logged_runs_text [OF m] by (simp add: comp_def)
  then show ?thesis using es(1) ts by (auto simp: write_log_chunks [OF assms(1)])
qed

definition demo_text_entries :: "(any_event \<times> event_header \<times> nat \<times> string list) list" where
  "demo_text_entries = [
     (Gtid_logged demo_gtid, ge_header demo_gtid, 162, [write_gtid_data demo_gtid]),
     (Query_logged demo_query, qe_header demo_query, 2,
       [write_query_header demo_query (length (write_status (qe_vars demo_query))), write_status (qe_vars demo_query),
        qe_db demo_query @ [NUL], qe_query demo_query]),
     (Xid_logged demo_log_header 77, demo_log_header, 16, [xid_data 77])]"

lemma demo_query_length:
  "length (concat [write_query_header demo_query (length (write_status (qe_vars demo_query))), write_status (qe_vars demo_query),
     qe_db demo_query @ [NUL], qe_query demo_query]) = 82"
  by (simp add: write_query_header_def demo_query_def no_status_def write_status_def store_str_with_code_and_len_def)

lemma demo_gtid_length: "length (write_gtid_data demo_gtid) = 19"
  by (simp add: write_gtid_data_def demo_gtid_def FL_TRANSACTIONAL_def has_flag_def FL_GROUP_COMMIT_ID_def)

lemma demo_text_entries_ok: "\<forall>x \<in> set demo_text_entries. entry_ok env x"
proof -
  have h: "qe_header demo_query = demo_log_header" "ge_header demo_gtid = demo_log_header"
    by (simp_all add: demo_query_def demo_gtid_def demo_log_header_def)
  have g: "gtid_ok demo_gtid" using demo_header_ok
    by (simp add: gtid_ok_def h) (simp add: demo_gtid_def FL_TRANSACTIONAL_def)
  have "ge_seq_no demo_gtid \<noteq> 0" by (simp add: demo_gtid_def)
  note w = writes_gtid [OF g this, of "d_addr env", unfolded h] writes_query [OF demo_query_ok, of "d_addr env", unfolded h] writes_xid [of 77 "d_addr env" demo_log_header]
  show ?thesis using w demo_query_length demo_gtid_length
    by (simp add: demo_text_entries_def entry_ok_def h demo_header_ok xid_data_def)
qed

theorem log_replayed_witness:
  "\<exists>es z t s. log_events demo_decode_env (written_format 255)
      (take 420 (write_log demo_checksum 1 demo_log_header ''10.3.23-MariaDB'' 1700000000 demo_text_entries)) = Inr (es, z)
    \<and> print_seq (map (print_text_event demo_text_env) (text_events es)) dump_event_info = Inr (t, s)
    \<and> list_all2 run_right [(''ROLLBACK'', None, None), (''BEGIN'', None, Some demo_gtid),
          (''INSERT INTO t VALUES (1)'', Some demo_query, Some demo_gtid)]
        (client_runs (log_text t) \<lparr> s_db = None, s_vars = (\<lambda>_. None) \<rparr>)"
proof -
  let ?chunks = "log_chunks demo_checksum 1 demo_log_header ''10.3.23-MariaDB'' 1700000000 demo_text_entries"
  have l: "length (format_bytes demo_checksum 1 demo_log_header ''10.3.23-MariaDB'' 1700000000) = 252"
    by (rule description_decoded(2) [of demo_decode_env 1 "''10.3.23-MariaDB''" demo_log_header 1700000000 "written_format 255"])
      (simp_all add: demo_decode_env_def demo_checksum_law demo_version_ok demo_header_ok)
  have "map length ?chunks = [252, 42, 105, 31]"
    using l demo_query_length demo_gtid_length by (simp add: log_chunks_def demo_text_entries_def entry_bytes_def write_event_def xid_data_def)
  then have k: "whole 420 ?chunks = 3" by (auto simp: log_chunks_def demo_text_entries_def)
  have t: "\<forall>x \<in> set demo_text_entries. text_entry (fst x)" using demo_queries_ok by (simp add: demo_text_entries_def)
  have r: "logged_runs None (text_events (map (\<lambda>e. (e, None)) (take 3
      (written_description 1 demo_log_header ''10.3.23-MariaDB'' 1700000000 # map fst demo_text_entries)))) =
      [(''ROLLBACK'', None, None), (''BEGIN'', None, Some demo_gtid), (''INSERT INTO t VALUES (1)'', Some demo_query, Some demo_gtid)]"
    by (simp add: demo_text_entries_def demo_gtid_def has_flag_def FL_TRANSACTIONAL_def FL_STANDALONE_def demo_query_def
        written_description_def LOG_EVENT_ARTIFICIAL_F_def demo_log_header_def)
  show ?thesis
    using log_replayed [of demo_decode_env 1 "''10.3.23-MariaDB''" demo_log_header 1700000000 "written_format 255" demo_text_entries demo_text_env
        420 "\<lparr> s_db = None, s_vars = (\<lambda>_. None) \<rparr>"]
      demo_checksum_law demo_version_ok demo_header_ok demo_text_entries_ok demo_client_env t k r
    by (simp add: demo_decode_env_def)
qed

end
