(* ===== verification/Spec2Isabelle.thy ===== *)
theory Spec2Isabelle
  imports Library_Main Driver Row_Capture Log_Roundtrip
begin

text \<open>
  This development models the change data capture of MySQL and MariaDB in
  \<open>src/ddMySqlBinLogCapture\<close>: a process for Windows (32 bit) that reads the binary logs of a server
  and writes their events, as text, to capture files. Its parts:

  \<^item> the main thread of \<open>ddMySqlBinLogCapture.cpp\<close>, which starts everything (\<open>main\<close>), asks the server
    for its logs and has them read one after the other (\<open>ReadJournal\<close>);
  \<^item> the library of the patched \<open>mysqlbinlog\<close> (\<open>ddmysqlbinlog.cc\<close>), which reads one log from the
    server (\<open>StartReadBinLog\<close>) and prints its events (\<open>process_event\<close>) to the standard output;
  \<^item> the listener's thread (\<open>listenBinLogThread\<close>), which reads the redirected standard output, writes
    every line to the capture file and recognises the marks that the library and the main thread
    print; it moves the checkpoint, which is kept in the \<open>.XAI\<close> file, so that the next process
    resumes where this one stopped;
  \<^item> a thread at a named pipe (\<open>ListenPipeThread\<close>) that waits for the message that ends the process.

  The two threads share the checkpoint and some flags; they talk through the text of the pipe, a
  protocol of marks such as \<open>*!COMMIT!pos!end!xid!index!*\<close>.

  The theories, in the order in which they build on each other:

  \<^item> \<open>Prelude\<close>: faults (an access outside an object, a null pointer, \<open>exit(0)\<close>) as values, their
    sequencing (\<open>and_then\<close>, \<open>fold_res\<close>, \<open>map_res\<close>), 32 bit values and the C library's functions on strings.
  \<^item> \<open>Dd_Strings\<close>: the string helpers (\<open>ddstrncpy\<close>, \<open>ddatol\<close>, \<open>cpyrtrim\<close>, \<open>tolowerStr\<close>, \<open>ddstrchr\<close>).
  \<^item> \<open>Checkpoint\<close>: \<open>BinLogSequence\<close>, the \<open>.XAI\<close> file and its functions \<open>InitParam\<close>, \<open>SaveInDisk\<close>, \<open>DspXAI\<close>,
    \<open>CrtXAI\<close>, with the ways in which they open files (\<open>open_mode\<close>); the locale \<open>checkpoint_store\<close> is what the threads rely on.
  \<^item> \<open>Capture_Files\<close>: \<open>BuildCaptureList\<close>, \<open>OpenCapture\<close>, \<open>ChangeJournal\<close>: listing, numbering, opening and
    closing the capture files.
  \<^item> \<open>Marks\<close>: the text protocol. \<open>Line_Parser\<close>: what the listener does with one line
    (\<open>handle_line\<close>). \<open>Line_Checkpoint\<close>: what that does to the checkpoint.
  \<^item> \<open>Listener\<close>: the bytes: reads, lines, the buffer that is full, capture writes and rotation; the
    locale \<open>append_sink\<close> is the capture file as the listener uses it.
  \<^item> \<open>Journal\<close>: \<open>LoadBinLog\<close>, \<open>LoadMasterStatus\<close>, \<open>ReadJournal\<close>, and the two threads together as the step
    relation \<open>sys_step\<close>. A step is a line of the listener or a stretch of the main thread; the threads share the
    checkpoints without a lock, so \<open>raced\<close> records that the main thread touched one while lines were unhandled. What is
    proved of runs that have not raced holds for the code as it is, and \<open>timely_never_raced\<close> says when a run does not
    race: when its waits are ended by the listener's event. \<open>checkpoint_torn\<close> shows what else can happen.
  \<^item> \<open>Load_Processor\<close>, \<open>Event_Printer\<close>: \<open>Load_log_processor\<close> and \<open>process_event\<close> of the library.
    \<open>Print_Parse\<close>: what the library prints for a commit, read by the listener.
    \<open>Reader\<close>: \<open>StartReadBinLog\<close>, the dialogue with the server, as text and in raw mode, and the reading of a file.
  \<^item> \<open>Registry\<close>: the parameters in the Windows registry (\<open>LoadParam\<close>). \<open>Arguments\<close>: the texts that the
    start takes apart (\<open>SearchArg\<close>, \<open>GetRepositoryFullPathName\<close>, \<open>GetMySQLVersion\<close>).
  \<^item> \<open>Threads\<close>: events, the redirection, starting and stopping the threads, the message that ends
    the process.
  \<^item> \<open>Startup\<close>: \<open>main\<close> as the sequence of its steps, and the libraries that it loads.
  \<^item> \<open>Library_Main\<close>: the options of the library (\<open>my_options\<close>, \<open>get_one_option\<close>, \<open>parse_args\<close>), its start
    and end for the capture (\<open>InitRemoteReadBinLog\<close>, \<open>FreeReadBinLog\<close>) and the tool \<open>main_binlog\<close>.
  \<^item> \<open>Temporal\<close>, \<open>Sql_Decimal\<close>, \<open>Decimal_Storage\<close>: the stored forms and the texts of times, dates,
    timestamps (\<open>sql/compat56.cc\<close>, \<open>my_time.c\<close>) and decimals (\<open>decimal.c\<close>), both ways.
  \<^item> \<open>Row_Values\<close>: the table definition (\<open>table_def\<close>) and the printing of one column value
    (\<open>log_event_print_value\<close>, \<open>calc_field_size\<close>). \<open>Value_Text\<close>: what the text of a value says.
    \<open>Value_Size\<close>: that a value prints over the bytes its size counts.
  \<^item> \<open>Row_Printer\<close>: row images and rows as lines (\<open>print_verbose\<close>); the locale \<open>column_printer\<close> is what the
    loop over the columns relies on. \<open>Row_Count\<close>: counting the rows without printing them.
  \<^item> \<open>Row_Events\<close>: reading table maps and rows events from their bytes, \<open>print_base64\<close>, and the
    printing of both events into the caches and the file. \<open>Event_Writer\<close>: how the server writes these
    events (\<open>write_header\<close>, \<open>write_data_body\<close>, \<open>net_store_length\<close>), and that they are read back as written.
  \<^item> \<open>Query_Events\<close>: the common header (\<open>Log_event\<close>), and query events with their status variables, read
    (\<open>Query_log_event\<close>) and written (\<open>write\<close>). \<open>Event_Text\<close>: the line of every event (\<open>print_header\<close>), queries
    with their settings (\<open>print_query_header\<close>), transaction ids, commits, descriptions of a log and the small events as text.
    \<open>Sql_Client\<close>: a client that cuts a text into statements and executes them, as the documentation of \<open>mysql\<close> has it;
    it is a specification and knows nothing of the printer. \<open>Session_Replay\<close>: what the text of events does in its session.
  \<^item> \<open>Log_Format\<close>: the description of a log's format and the checksums of its events, read and written
    (\<open>Format_description_log_event\<close>, \<open>event_checksum_test\<close>, \<open>Log_event_writer\<close>). \<open>Small_Events\<close>: the other
    classes of events, as read, written and printed. \<open>Log_Decode\<close>: the dispatch from the bytes of a log
    to its events (\<open>Log_event::read_log_event\<close>). \<open>Log_Roundtrip\<close>: whole logs, as the server writes them, cut
    off or damaged, read and executed.
  \<^item> \<open>Row_Log\<close>: one statement of the log, from the bytes of its events to the lines in the file.
    \<open>Row_Capture\<close>: those lines, and the commit behind them, read by the listener's thread with its buffers.
  \<^item> \<open>Driver\<close>: the functions of \<open>ddMariadb.cpp\<close>, and the questions of the capture as the sequences of
    their calls, which refine \<open>LoadBinLog\<close>, \<open>LoadMasterStatus\<close>, \<open>GetMySQLVersion\<close>, \<open>OpenConnection\<close>.

  Functions keep the names of the code. A function of the code that writes to an array whose
  length matters takes the array as a list and returns \<open>Inl (Out_of_bounds _)\<close> where the code would
  write or read outside it; pointers that may be null are options. Globals are the fields of the
  records of the component that owns them (\<open>ckpt\<close>, \<open>cap\<close>, \<open>lst\<close>, \<open>ls\<close>, \<open>rj\<close>, \<open>threads\<close>, \<open>boot\<close>; \<open>ps\<close> and \<open>llp\<close>
  for the library). Positions are 32 bit words in the capture and 64 bit words in the library.

  What the lemmas show: that a restart resumes at the last checkpoint stored, that a checkpoint is
  never ahead of the lines captured, in any interleaving of the threads without a race on the checkpoints and from one process to
  the next, and never behind the beginning of a transaction of rows that is not complete; that the capture file is the text
  printed, byte for byte, whatever the sizes of the reads, as long as no line and no read fills a buffer; that reading and printing keep the
  positions and the marks; which events are printed, and which options decide it; how the process starts, stops and fails; that
  values and rows are printed completely and as lines, and that the rows are counted as they are printed whatever bytes they consist of; that
  the rows of a statement, as the server wrote them, arrive at the listener as that many rows of that table, and with the
  commit behind them move the checkpoint; that a log, as the server wrote it,
  is read back event by event up to where it is cut off or damaged, and that the text of its queries, executed by a
  client, runs each under the settings it was logged with. The
  errors found on the way are properties too: each states what the code does where it goes wrong.

  Loops: recursion over the list that the loop runs over (the lines of a text, the packets of a
  server, the logs of a pass, the messages of the pipe), so that the reads that block and the loops that wait
  for the outside end when the list ends; the result then says that the loop is still running.
  The scan of the listener's buffer (\<open>scan\<close>), which may jump back, is a partial function, and
  its properties show that it returns; so is the loop over the rows of an answer (\<open>load_rows\<close>),
  which returns when the client's rows end. No fuel is used.

  Not modelled, and why:

  \<^item> The sources of MariaDB apart from the events named above, its connector and SQLite, which are third
    party code. Of the events: the load events before version 4 of the format, compressed queries, flashback,
    encrypted logs, the encoded form of format descriptions; the checksum itself is a function of \<open>mysys\<close>, which
    is not in the repository, and a parameter. \<open>Event_Printer\<close> takes the
    printing of every event as a parameter, which \<open>Row_Capture\<close> fills in for the commit; the network and the database are
    parameters (\<open>evlib\<close>, \<open>net_packet\<close>, \<open>local_file\<close>, \<open>client\<close>, \<open>answer\<close>, \<open>jrn_answer\<close>), and so is the
    parser of command lines and option files (\<open>getopt_env\<close>).
  \<^item> Of the rows events: flashback and its review tables (not compiled), the hexadecimal dump, the inflation of compressed rows (zlib), the base64 encoder and the
    texts of floating point numbers, which are parameters (\<open>row_env\<close>, \<open>float_env\<close>); their header lines are a
    parameter of \<open>Row_Events\<close>, and those of \<open>print_header\<close> in \<open>Row_Capture\<close>. Of the queries: the local time, the quoting of
    names and the names of the character sets (\<open>text_env\<close>). The caches, hash tables,
    bit maps and formats of \<open>mysys\<close> are not in the repository: strings, maps, lists and texts stand for
    them.
  \<^item> The trace file, the log \<open>dd_log\<close>, durations and the texts of messages, except where composing a
    text may overrun its buffer.
  \<^item> Failures of memory allocation (except in \<open>LoadParam\<close>) and C++ exceptions, which only end the process.
  \<^item> The options of \<open>mysqlbinlog\<close> for debugging, \<open>SSL\<close>, character sets and open files, and the
    connection of the library to the server (\<open>safe_connect\<close>), whose result is a parameter of \<open>Reader\<close>.
  \<^item> The loads and stores of one thread between those of the other: see \<open>raced\<close> above.
  \<^item> The memory model: a read of an array behind its end is a fault here, while the program
    goes on with whatever it finds.
\<close>

section \<open>From one process to the next\<close>

text \<open>The checkpoint that a restart finds is that of the files.\<close>

lemma restart_seq_new_ckpt: "restart_seq jrn (new_ckpt (disk k)) = restart_seq jrn k"
  by (rule restart_seq_disk) (simp add: new_ckpt_def)

text \<open>The threads of a process that has started: the main thread is at the top of its first
  round, the checkpoint is the one of the start, and nothing has been printed.\<close>

definition started_system :: "boot \<Rightarrow> sys \<Rightarrow> bool" where
  "started_system st g \<longleftrightarrow> pc g = Top \<and> ck (sl g) = b_ckpt st \<and> cf g = b_cap st \<and> queue g = [] \<and> \<not> raced g
     \<and> points g = [seq_pos zero_seq, seq_pos (g_stBinLogSeq (b_ckpt st))]"

text \<open>C1: the capture is not ahead of itself from one process to the next: a process that has
  started, whose threads then ran in any order in which the main thread does not touch a checkpoint
  while lines are unhandled (the threads share the checkpoints without a lock; a timeout of the wait for the
  listener is how it can happen), whose checkpoints are written in full, and which was stopped at any time, is followed by
  a process that, for the same journal and if it may read the \<open>.XAI\<close> file, starts at a position that the first one had found when it
  started, that the server had reported as the end of its log while there was no checkpoint, or that a line that
  the listener had handled says it has reached.\<close>

theorem next_process_resumes:
  assumes "start_up env argument (new_boot reg d c t) = Inr (s1, st)" and "b_ok st"
    and "started_system st g" and "(sys_step cfg)\<^sup>*\<^sup>* g g'" and "\<not> raced g'" and "xai_written cfg = SEQ_LEN"
    and "start_up env2 argument2 (new_boot reg2 (disk (ck (sl g'))) c2 t2) = Inr (s2, st2)" and "b_ok st2"
    and "cstr (b_jrn st2) = cstr (b_jrn st)" and "e_xai_open env2 Mode_r (xai_path (cstr (b_jrn st2)))"
  shows "seq_pos (g_stBinLogSeq (b_ckpt st2)) \<in> set (points g')"
proof -
  let ?j = "cstr (b_jrn st)"
  have "ckpt_in ?j (points g) (ck (sl g))"
    using start_up_ckpt_in(1) [OF assms(1,2)] assms(3) by (simp add: started_system_def)
  from sys_steps_ckpt_in [OF assms(4,6) this assms(5)] have "ckpt_in ?j (points g') (ck (sl g'))" .
  moreover have "restart_seq ?j (ck (sl g')) = Some (g_stBinLogSeq (b_ckpt st2))"
    using start_up_ckpt_in(2) [OF assms(7,8,10)] assms(9) by (simp add: restart_seq_new_ckpt)
  ultimately show ?thesis by (simp add: ckpt_in_def)
qed

theorem next_process_resumes_witness:
  "\<exists>st g g' st2. start_up demo_boot_env demo_argument (demo_new_boot (\<lambda>s. None)) = Inr (True, st)
     \<and> started_system st g \<and> sys_step demo_cfg g g' \<and> pc g' = Ended
     \<and> start_up demo_boot_env demo_argument (demo_new_boot (disk (ck (sl g')))) = Inr (True, st2)
     \<and> seq_pos (g_stBinLogSeq (b_ckpt st2)) \<in> set (points g')"
proof -
  obtain st where st: "start_up demo_boot_env demo_argument (demo_new_boot (\<lambda>s. None)) = Inr (True, st)" "b_ok st"
    "b_jrn st = zero_pad 400 demo_jrn"
    using demo_start_up by blast
  let ?g = "demo_sys\<lparr>sl := (sl demo_sys)\<lparr>ck := b_ckpt st\<rparr>, cf := b_cap st, queue := [], pc := Top,
      points := [seq_pos zero_seq, seq_pos (g_stBinLogSeq (b_ckpt st))], raced := False\<rparr>"
  let ?g' = "?g\<lparr>pc := Ended, sl := zero_duration (sl ?g)\<rparr>"
  obtain st2 where st2: "start_up demo_boot_env demo_argument (demo_new_boot (disk (ck (sl ?g')))) = Inr (True, st2)"
    "b_ok st2" "b_jrn st2 = zero_pad 400 demo_jrn"
    using demo_start_up [of "disk (ck (sl ?g'))"] by blast
  have g: "started_system st ?g" by (simp add: started_system_def)
  have s: "sys_step demo_cfg ?g ?g'" by (rule sys_step.exit_top) simp
  have "seq_pos (g_stBinLogSeq (b_ckpt st2)) \<in> set (points ?g')"
    using next_process_resumes [OF st(1) [unfolded demo_new_boot_def] st(2) g r_into_rtranclp [where r = "sys_step demo_cfg", OF s]
        _ demo_lst_ok(3) st2(1) [unfolded demo_new_boot_def] st2(2)] st(3) st2(3)
    by (simp add: demo_boot_env_def)
  then show ?thesis using st(1) g s st2(1)
    by (intro exI [of _ st] exI [of _ ?g] exI [of _ ?g'] exI [of _ st2]) simp
qed

end
